(* ===== verification/Canonical_Json.thy ===== *)
theory Canonical_Json
  imports Omega_Prelude
begin

text \<open>
  Canonical JSON (\<open>host/src/canon.ts\<close>, mirrored byte for byte by
  \<open>plugins/vivim-vault/src/canon.ts\<close>): the value type, the two library functions it rests on
  (\<open>JSON.stringify\<close> of a scalar, \<open>JSON.parse\<close>), the encoder, and the proof that the encoding
  can be read back: two values with the same canonical text are the same value up to key order
  and dropped \<open>undefined\<close> fields. Numbers are the integers the program stores (revisions,
  sequence numbers, counters, times); their text is the decimal one.
\<close>

section \<open>Values\<close>

datatype json =
    JUndefined
  | JNull
  | JBool bool
  | JNum int
  | JStr string
  | JArr "json list"
  | JObj "(string \<times> json) list"

datatype canon_error = UnsupportedValue

text \<open>An object's keys are distinct, as in any JavaScript object.\<close>

fun json_wf :: "json \<Rightarrow> bool" where
  "json_wf (JArr xs) = list_all json_wf xs"
| "json_wf (JObj kvs) = (distinct (map fst kvs) \<and> list_all (\<lambda>kv. json_wf (snd kv)) kvs)"
| "json_wf v = True"

text \<open>Reading a property; a value that has none gives \<open>undefined\<close>.\<close>

fun json_field :: "json \<Rightarrow> string \<Rightarrow> json" where
  "json_field (JObj kvs) k = (case map_get kvs k of Some v \<Rightarrow> v | None \<Rightarrow> JUndefined)"
| "json_field _ k = JUndefined"

section \<open>\<open>JSON.stringify\<close> on scalars\<close>

definition escape_char :: "char \<Rightarrow> string" where
  "escape_char c =
     (if c = CHR 0x22 then [CHR 0x5C, CHR 0x22]
      else if c = CHR 0x5C then [CHR 0x5C, CHR 0x5C]
      else if c = CHR 0x08 then [CHR 0x5C, CHR ''b'']
      else if c = CHR 0x0C then [CHR 0x5C, CHR ''f'']
      else if c = CHR 0x0A then [CHR 0x5C, CHR ''n'']
      else if c = CHR 0x0D then [CHR 0x5C, CHR ''r'']
      else if c = CHR 0x09 then [CHR 0x5C, CHR ''t'']
      else if of_char c < (32::nat)
        then [CHR 0x5C, CHR ''u'', CHR ''0'', CHR ''0'',
              digit_char (of_char c div 16), digit_char (of_char c mod 16)]
      else [c])"

definition json_quote :: "string \<Rightarrow> string" where
  "json_quote s = CHR 0x22 # concat (map escape_char s) @ [CHR 0x22]"

definition show_int :: "int \<Rightarrow> string" where
  "show_int i = (if i < 0 then CHR ''-'' # show_nat (nat (- i)) else show_nat (nat i))"

definition show_bool :: "bool \<Rightarrow> string" where
  "show_bool b = (if b then ''true'' else ''false'')"

section \<open>The encoder\<close>

text \<open>
  The recursion of \<open>canonicalJson\<close>: scalars by \<open>JSON.stringify\<close>, arrays in order, objects with
  the keys whose value is not \<open>undefined\<close>, sorted. \<open>undefined\<close> itself reaches the final
  \<open>throw\<close>. The stack of the source is the recursion; its termination is the size of the value.
\<close>

definition defined_fields :: "(string \<times> json) list \<Rightarrow> (string \<times> json) list" where
  "defined_fields kvs = sort_key fst (filter (\<lambda>kv. snd kv \<noteq> JUndefined) kvs)"

lemma set_defined_fields: "set (defined_fields kvs) = {kv \<in> set kvs. snd kv \<noteq> JUndefined}"
  by (simp add: defined_fields_def)

lemma defined_fields_smaller [termination_simp]:
  "(k, v) \<in> set (defined_fields kvs) \<Longrightarrow> size v < Suc (size_list (\<lambda>x. Suc (size (snd x))) kvs)"
  using size_list_estimation' [of "(k, v)" kvs "size v" "\<lambda>x. Suc (size (snd x))"]
  by (simp add: set_defined_fields)

fun canonicalJson :: "json \<Rightarrow> canon_error + string" where
  "canonicalJson JNull = Inr ''null''"
| "canonicalJson (JNum i) = Inr (show_int i)"
| "canonicalJson (JBool b) = Inr (show_bool b)"
| "canonicalJson (JStr s) = Inr (json_quote s)"
| "canonicalJson (JArr xs) =
     (case res_map canonicalJson xs of
        Inl e \<Rightarrow> Inl e
      | Inr ss \<Rightarrow> Inr (CHR ''['' # join_with '','' ss @ '']''))"
| "canonicalJson (JObj kvs) =
     (case res_map (\<lambda>kv. case canonicalJson (snd kv) of
                            Inl e \<Rightarrow> Inl e
                          | Inr t \<Rightarrow> Inr (json_quote (fst kv) @ '':'' @ t)) (defined_fields kvs) of
        Inl e \<Rightarrow> Inl e
      | Inr ss \<Rightarrow> Inr (CHR ''{'' # join_with '','' ss @ ''}''))"
| "canonicalJson JUndefined = Inl UnsupportedValue"

text \<open>The value a canonical text stands for: the fields sorted, the \<open>undefined\<close> ones gone.\<close>

fun json_norm :: "json \<Rightarrow> json" where
  "json_norm (JArr xs) = JArr (map json_norm xs)"
| "json_norm (JObj kvs) = JObj (map (\<lambda>kv. (fst kv, json_norm (snd kv))) (defined_fields kvs))"
| "json_norm v = v"

section \<open>\<open>JSON.parse\<close>\<close>

text \<open>
  \<open>JSON.parse\<close> on compact texts (no white space between tokens, integer numbers), which is what
  \<open>canonicalJson\<close> and \<open>JSON.stringify\<close> write. The fuel bounds the nesting; \<open>json_parse\<close> starts
  with the length of the text, which \<open>parse_canonical\<close> below shows to be enough.
\<close>

definition is_digit :: "char \<Rightarrow> bool" where
  "is_digit c \<longleftrightarrow> 48 \<le> (of_char c :: nat) \<and> (of_char c :: nat) \<le> 57"

definition unescape :: "char \<Rightarrow> char option" where
  "unescape e =
     (if e = CHR 0x22 then Some (CHR 0x22)
      else if e = CHR 0x5C then Some (CHR 0x5C)
      else if e = CHR ''/'' then Some (CHR ''/'')
      else if e = CHR ''b'' then Some (CHR 0x08)
      else if e = CHR ''f'' then Some (CHR 0x0C)
      else if e = CHR ''n'' then Some (CHR 0x0A)
      else if e = CHR ''r'' then Some (CHR 0x0D)
      else if e = CHR ''t'' then Some (CHR 0x09)
      else None)"

definition parse_hex4 :: "string \<Rightarrow> char option" where
  "parse_hex4 s =
     (if length s < 4 \<or> (\<exists>c\<in>set (take 4 s). digit_val c = None) then None
      else let n = read_base 16 (take 4 s) in if n < 256 then Some (char_of n) else None)"

fun parse_str :: "string \<Rightarrow> (string \<times> string) option" where
  "parse_str [] = None"
| "parse_str (c # cs) =
     (if c = CHR 0x22 then Some ([], cs)
      else if of_char c < (32::nat) then None
      else if c = CHR 0x5C then
        (case cs of
           [] \<Rightarrow> None
         | e # es \<Rightarrow>
             if e = CHR ''u'' then
               (case parse_hex4 es of
                  None \<Rightarrow> None
                | Some x \<Rightarrow> map_option (\<lambda>(t, r). (x # t, r)) (parse_str (drop 4 es)))
             else
               (case unescape e of
                  None \<Rightarrow> None
                | Some x \<Rightarrow> map_option (\<lambda>(t, r). (x # t, r)) (parse_str es)))
      else map_option (\<lambda>(t, r). (c # t, r)) (parse_str cs))"

definition parse_num :: "string \<Rightarrow> (json \<times> string) option" where
  "parse_num s =
     (let neg = (case s of c # _ \<Rightarrow> c = CHR ''-'' | [] \<Rightarrow> False);
          body = (if neg then tl s else s);
          ds = takeWhile is_digit body;
          r = dropWhile is_digit body
      in if ds = [] \<or> (hd ds = CHR ''0'' \<and> tl ds \<noteq> []) then None
         else Some (JNum (if neg then - int (read_base 10 ds) else int (read_base 10 ds)), r))"

fun parse_value :: "nat \<Rightarrow> string \<Rightarrow> (json \<times> string) option"
  and parse_elems :: "nat \<Rightarrow> string \<Rightarrow> (json list \<times> string) option"
  and parse_fields :: "nat \<Rightarrow> string \<Rightarrow> ((string \<times> json) list \<times> string) option" where
  "parse_value 0 s = None"
| "parse_value (Suc n) [] = None"
| "parse_value (Suc n) (c # cs) =
     (if c = CHR 0x22 then map_option (\<lambda>(t, r). (JStr t, r)) (parse_str cs)
      else if c = CHR ''['' then
        (if starts_with cs '']'' then Some (JArr [], tl cs)
         else map_option (\<lambda>(vs, r). (JArr vs, r)) (parse_elems n cs))
      else if c = CHR ''{'' then
        (if starts_with cs ''}'' then Some (JObj [], tl cs)
         else map_option (\<lambda>(kvs, r). (JObj kvs, r)) (parse_fields n cs))
      else if starts_with (c # cs) ''null'' then Some (JNull, drop 4 (c # cs))
      else if starts_with (c # cs) ''true'' then Some (JBool True, drop 4 (c # cs))
      else if starts_with (c # cs) ''false'' then Some (JBool False, drop 5 (c # cs))
      else parse_num (c # cs))"
| "parse_elems 0 s = None"
| "parse_elems (Suc n) s =
     (case parse_value n s of
        None \<Rightarrow> None
      | Some (v, r) \<Rightarrow>
          if starts_with r '','' then map_option (\<lambda>(vs, q). (v # vs, q)) (parse_elems n (tl r))
          else if starts_with r '']'' then Some ([v], tl r)
          else None)"
| "parse_fields 0 s = None"
| "parse_fields (Suc n) s =
     (if \<not> starts_with s [CHR 0x22] then None
      else case parse_str (tl s) of
        None \<Rightarrow> None
      | Some (k, r0) \<Rightarrow>
          if \<not> starts_with r0 '':'' then None
          else case parse_value n (tl r0) of
            None \<Rightarrow> None
          | Some (v, r) \<Rightarrow>
              if starts_with r '','' then
                map_option (\<lambda>(kvs, q). ((k, v) # kvs, q)) (parse_fields n (tl r))
              else if starts_with r ''}'' then Some ([(k, v)], tl r)
              else None)"

definition json_parse :: "string \<Rightarrow> json option" where
  "json_parse s =
     (case parse_value (length s) s of Some (v, []) \<Rightarrow> Some v | _ \<Rightarrow> None)"

section \<open>Reading back what the encoder wrote\<close>

lemma hex4_digits:
  assumes "n < 256"
  shows "parse_hex4 (CHR ''0'' # CHR ''0'' # digit_char (n div 16) # digit_char (n mod 16) # r)
    = Some (char_of n)"
proof -
  have d: "n div 16 < 16" "n mod 16 < 16" using assms by auto
  have z: "digit_val (CHR ''0'') = Some 0" by (simp add: digit_val_def)
  have "n div 16 * 16 + n mod 16 = n" by simp
  with d z assms show ?thesis by (simp add: parse_hex4_def read_base_def Let_def)
qed

lemma parse_str_escape:
  "parse_str (escape_char c @ r) =
     (case parse_str r of None \<Rightarrow> None | Some (t, q) \<Rightarrow> Some (c # t, q))"
proof (cases "c \<in> {CHR 0x22, CHR 0x5C, CHR 0x08, CHR 0x0C, CHR 0x0A, CHR 0x0D, CHR 0x09}")
  case True
  then show ?thesis
    by (auto simp: escape_char_def unescape_def split: option.splits)
next
  case False
  show ?thesis
  proof (cases "of_char c < (32::nat)")
    case True
    have "parse_hex4 (CHR ''0'' # CHR ''0'' # digit_char (of_char c div 16) # digit_char (of_char c mod 16) # r)
        = Some (char_of (of_char c :: nat))"
      using True by (intro hex4_digits) simp
    with True False show ?thesis
      by (auto simp: escape_char_def unescape_def split: option.splits)
  next
    case f: False
    with False show ?thesis
      by (auto simp: escape_char_def split: option.splits)
  qed
qed

lemma parse_str_quote:
  "parse_str (concat (map escape_char s) @ CHR 0x22 # r) = Some (s, r)"
  by (induction s) (auto simp: parse_str_escape)

lemma is_digit_show_nat: "c \<in> set (show_nat n) \<Longrightarrow> is_digit c"
  using show_nat_digit by (simp add: is_digit_def)

lemma show_base_hd: "2 \<le> b \<Longrightarrow> b \<le> 16 \<Longrightarrow> 0 < n \<Longrightarrow> hd (show_base b n) \<noteq> CHR ''0''"
proof (induction b n rule: show_base.induct)
  case (1 b n)
  have z: "CHR ''0'' = digit_char 0"
    using char_of_eq_iff [of "48::nat" "CHR ''0''"] by (simp add: digit_char_def)
  show ?case
  proof (cases "n < b")
    case True
    with 1 z show ?thesis by (subst show_base.simps) (simp add: digit_char_inj)
  next
    case False
    then have "0 < n div b" using "1.prems" by (simp add: div_greater_zero_iff)
    with False 1 show ?thesis by (subst show_base.simps) simp
  qed
qed

lemma show_nat_no_lead: "hd (show_nat n) = CHR ''0'' \<Longrightarrow> tl (show_nat n) = []"
  using show_base_hd [of 10 n] by (cases "n = 0") (auto simp: show_base.simps)

text \<open>What may follow a number: anything but a digit.\<close>

definition no_digit :: "string \<Rightarrow> bool" where
  "no_digit r \<longleftrightarrow> (case r of [] \<Rightarrow> True | c # _ \<Rightarrow> \<not> is_digit c)"

lemma takeWhile_digits:
  "no_digit r \<Longrightarrow> takeWhile is_digit (show_nat n @ r) = show_nat n"
  "no_digit r \<Longrightarrow> dropWhile is_digit (show_nat n @ r) = r"
  by (cases r; auto simp: no_digit_def takeWhile_append takeWhile_eq_all_conv dropWhile_append is_digit_show_nat)+

lemma show_nat_hd: "is_digit (hd (show_nat n))"
  by (meson is_digit_show_nat list.set_sel(1) show_base_not_Nil)

lemma parse_num_show_int:
  assumes "no_digit r"
  shows "parse_num (show_int i @ r) = Some (JNum i, r)"
proof (cases "i < 0")
  case True
  with assms show ?thesis
    using show_nat_no_lead [of "nat (- i)"] read_show_base [of 10 "nat (- i)"]
    by (simp add: parse_num_def show_int_def takeWhile_digits Let_def)
next
  case False
  have "hd (show_nat (nat i)) \<noteq> CHR ''-''"
    using show_nat_hd [of "nat i"] by (auto simp: is_digit_def)
  then have "\<not> (case show_nat (nat i) @ r of [] \<Rightarrow> False | c # x \<Rightarrow> c = CHR ''-'')"
    by (cases "show_nat (nat i)") auto
  with False assms show ?thesis
    using show_nat_no_lead [of "nat i"] read_show_base [of 10 "nat i"]
    by (simp add: parse_num_def show_int_def takeWhile_digits Let_def)
qed

lemma quote_parse: "CHR 0x22 # concat (map escape_char s) @ CHR 0x22 # r = json_quote s @ r"
  by (simp add: json_quote_def)

lemma canonical_not_Nil: "canonicalJson v = Inr s \<Longrightarrow> s \<noteq> []"
  by (cases v) (auto simp: show_int_def show_bool_def json_quote_def split: sum.splits if_splits)

lemma show_int_Cons: "\<exists>c cs. show_int i = c # cs \<and> (c = CHR ''-'' \<or> is_digit c)"
proof (cases "i < 0")
  case False
  then show ?thesis
    using show_nat_hd [of "nat i"] show_base_not_Nil [of 10 "nat i"]
    by (cases "show_nat (nat i)") (simp_all add: show_int_def)
qed (simp add: show_int_def)

lemma canonical_hd:
  "canonicalJson v = Inr s \<Longrightarrow> \<not> starts_with (s @ r) '']'' \<and> \<not> starts_with (s @ r) ''}''"
proof (cases v)
  case (JNum i)
  assume "canonicalJson v = Inr s"
  with JNum have s: "s = show_int i" by simp
  show ?thesis
    using show_int_Cons [of i] by (auto simp: s starts_with_def is_digit_def)
qed (auto simp: show_bool_def json_quote_def starts_with_def split: sum.splits if_splits)

lemma parse_value_str: "0 < n \<Longrightarrow> parse_value n (json_quote s @ r) = Some (JStr s, r)"
  by (cases n) (simp_all add: json_quote_def parse_str_quote)

lemma parse_value_num:
  assumes "no_digit r" "0 < n"
  shows "parse_value n (show_int i @ r) = Some (JNum i, r)"
proof -
  obtain c cs where c: "show_int i = c # cs" and h: "c = CHR ''-'' \<or> is_digit c"
    using show_int_Cons by blast
  obtain m where n: "n = Suc m" using assms by (cases n) auto
  have "c \<noteq> CHR 0x22" "c \<noteq> CHR ''[''" "c \<noteq> CHR ''{''" "c \<noteq> CHR ''n''" "c \<noteq> CHR ''t''" "c \<noteq> CHR ''f''"
    using h by (auto simp: is_digit_def)
  then have "parse_value n (c # cs @ r) = parse_num (c # cs @ r)"
    by (simp add: n starts_with_def)
  also have "\<dots> = Some (JNum i, r)"
    using parse_num_show_int [OF assms(1), of i] c by simp
  finally show ?thesis using c by simp
qed

lemma parse_elems_list:
  assumes "\<And>v s n r. v \<in> set vs \<Longrightarrow> canonicalJson v = Inr s \<Longrightarrow> length s \<le> n \<Longrightarrow> no_digit r \<Longrightarrow>
      parse_value n (s @ r) = Some (json_norm v, r)"
    and "res_map canonicalJson vs = Inr ss" and "vs \<noteq> []"
    and "length (join_with '','' ss) < n"
  shows "parse_elems n (join_with '','' ss @ '']'' @ r) = Some (map json_norm vs, r)"
  using assms
proof (induction vs arbitrary: ss n)
  case (Cons v vs)
  from Cons.prems obtain s ss' where s: "canonicalJson v = Inr s" and ss': "res_map canonicalJson vs = Inr ss'"
    and ss: "ss = s # ss'" by (auto split: sum.splits)
  obtain m where n: "n = Suc m" using Cons.prems by (cases n) auto
  show ?case
  proof (cases vs)
    case Nil
    with ss' have "ss' = []" by simp
    then show ?thesis
      using Cons.prems(1) [of v s m "'']'' @ r"] Cons.prems(4) s ss n Nil
      by (simp add: no_digit_def is_digit_def starts_with_def)
  next
    case (Cons v' vs')
    with ss' obtain s' ss'' where ss'': "ss' = s' # ss''" by (auto split: sum.splits)
    have "parse_value m (s @ '','' @ join_with '','' ss' @ '']'' @ r)
        = Some (json_norm v, '','' @ join_with '','' ss' @ '']'' @ r)"
      using Cons.prems(4) s ss n ss''
      by (intro Cons.prems(1)) (auto simp: no_digit_def is_digit_def)
    moreover have "parse_elems m (join_with '','' ss' @ '']'' @ r) = Some (map json_norm vs, r)"
      using Cons.prems ss' ss n ss'' Cons by (intro Cons.IH) auto
    ultimately show ?thesis
      using ss ss'' n by (simp add: starts_with_def)
  qed
qed simp

lemma parse_fields_list:
  assumes "\<And>k v s n r. (k, v) \<in> set kvs \<Longrightarrow> canonicalJson v = Inr s \<Longrightarrow> length s \<le> n \<Longrightarrow> no_digit r \<Longrightarrow>
      parse_value n (s @ r) = Some (json_norm v, r)"
    and "res_map (\<lambda>kv. case canonicalJson (snd kv) of
                            Inl e \<Rightarrow> Inl e
                          | Inr t \<Rightarrow> Inr (json_quote (fst kv) @ '':'' @ t)) kvs = Inr ss" and "kvs \<noteq> []"
    and "length (join_with '','' ss) < n"
  shows "parse_fields n (join_with '','' ss @ ''}'' @ r)
    = Some (map (\<lambda>kv. (fst kv, json_norm (snd kv))) kvs, r)"
  using assms
proof (induction kvs arbitrary: ss n)
  case (Cons kv kvs)
  obtain k v where kv: "kv = (k, v)" by (cases kv)
  from Cons.prems kv obtain t ss' where t: "canonicalJson v = Inr t"
    and ss': "res_map (\<lambda>kv. case canonicalJson (snd kv) of
                            Inl e \<Rightarrow> Inl e
                          | Inr t \<Rightarrow> Inr (json_quote (fst kv) @ '':'' @ t)) kvs = Inr ss'"
    and ss: "ss = (json_quote k @ '':'' @ t) # ss'" by (auto split: sum.splits)
  obtain m where n: "n = Suc m" using Cons.prems by (cases n) auto
  have key: "starts_with (json_quote k @ q) [CHR 0x22]"
    "parse_str (tl (json_quote k @ q)) = Some (k, q)" for q
    by (simp_all add: json_quote_def starts_with_def parse_str_quote)
  show ?case
  proof (cases kvs)
    case Nil
    with ss' have ssN: "ss' = []" by simp
    have "parse_value m (t @ ''}'' @ r) = Some (json_norm v, ''}'' @ r)"
      using Cons.prems(4) ss ssN n t kv
      by (intro Cons.prems(1) [of k v]) (auto simp: no_digit_def is_digit_def)
    with ss ssN n Nil kv key show ?thesis by (simp add: starts_with_def)
  next
    case (Cons kv' kvs')
    with ss' obtain s' ss'' where ss'': "ss' = s' # ss''" by (auto split: sum.splits)
    have "parse_value m (t @ '','' @ join_with '','' ss' @ ''}'' @ r)
        = Some (json_norm v, '','' @ join_with '','' ss' @ ''}'' @ r)"
      using Cons.prems(4) ss t n ss'' kv
      by (intro Cons.prems(1) [of k v]) (auto simp: no_digit_def is_digit_def)
    moreover have "parse_fields m (join_with '','' ss' @ ''}'' @ r)
        = Some (map (\<lambda>kv. (fst kv, json_norm (snd kv))) kvs, r)"
    proof (rule Cons.IH)
      show "length (join_with '','' ss') < m"
        using Cons.prems(4) ss n ss'' by simp
      show "parse_value i (u @ q) = Some (json_norm w, q)"
        if "(j, w) \<in> set kvs" "canonicalJson w = Inr u" "length u \<le> i" "no_digit q" for j w u i q
        using Cons.prems(1) [of j w u i q] that by simp
    qed (use Cons ss' in \<open>simp_all del: res_map.simps\<close>)
    ultimately show ?thesis
      using ss ss'' n kv key by (simp add: starts_with_def)
  qed
qed simp

lemma parse_canonical_value:
  "canonicalJson v = Inr s \<Longrightarrow> length s \<le> n \<Longrightarrow> no_digit r \<Longrightarrow>
    parse_value n (s @ r) = Some (json_norm v, r)"
proof (induction v arbitrary: s n r rule: canonicalJson.induct)
  case 1
  then show ?case by (cases n) (auto simp: starts_with_def)
next
  case (2 i)
  then show ?case using show_int_Cons [of i] by (auto intro!: parse_value_num)
next
  case (3 b)
  then show ?case by (cases n; cases b) (auto simp: show_bool_def starts_with_def)
next
  case (4 t)
  then have "s = json_quote t" and "0 < n" by (auto simp: json_quote_def)
  then show ?case by (simp add: parse_value_str)
next
  case (5 xs)
  then obtain ss where ss: "res_map canonicalJson xs = Inr ss" and s: "s = CHR ''['' # join_with '','' ss @ '']''"
    by (auto split: sum.splits)
  obtain m where n: "n = Suc m" using "5.prems" s by (cases n) auto
  show ?case
  proof (cases xs)
    case Nil
    with ss s n show ?thesis by (simp add: starts_with_def)
  next
    case (Cons x xs')
    with ss obtain t ss' where t: "canonicalJson x = Inr t" and ss': "ss = t # ss'"
      by (auto split: sum.splits)
    have "\<not> starts_with (join_with '','' ss @ '']'' @ r) '']''"
      using canonical_hd [OF t] ss' by (cases ss') auto
    moreover have "parse_elems m (join_with '','' ss @ '']'' @ r) = Some (map json_norm xs, r)"
      using "5.prems" s n ss Cons by (intro parse_elems_list) (auto intro: "5.IH")
    ultimately show ?thesis by (simp add: s n)
  qed
next
  case (6 kvs)
  let ?f = "\<lambda>kv. case canonicalJson (snd kv) of
                    Inl e \<Rightarrow> Inl e
                  | Inr t \<Rightarrow> Inr (json_quote (fst kv) @ '':'' @ t)"
  from "6.prems" obtain ss where ss: "res_map ?f (defined_fields kvs) = Inr ss"
    and s: "s = CHR ''{'' # join_with '','' ss @ ''}''"
    by (auto split: sum.splits)
  obtain m where n: "n = Suc m" using "6.prems" s by (cases n) auto
  show ?case
  proof (cases "defined_fields kvs")
    case Nil
    with ss s n show ?thesis by (simp add: starts_with_def)
  next
    case (Cons x xs')
    with ss obtain t ss' where ss': "ss = (json_quote (fst x) @ t) # ss'"
      by (auto split: sum.splits)
    have "\<not> starts_with (join_with '','' ss @ ''}'' @ r) ''}''"
      using ss' by (cases ss') (auto simp: json_quote_def starts_with_def)
    moreover have "parse_fields m (join_with '','' ss @ ''}'' @ r)
        = Some (map (\<lambda>kv. (fst kv, json_norm (snd kv))) (defined_fields kvs), r)"
    proof (rule parse_fields_list [OF _ ss])
      show "parse_value i (u @ q) = Some (json_norm w, q)"
        if "(j, w) \<in> set (defined_fields kvs)" "canonicalJson w = Inr u" "length u \<le> i" "no_digit q"
        for j w u i q
        using "6.IH" [OF that(1)] that by simp
    qed (use "6.prems" s n Cons in auto)
    ultimately show ?thesis by (simp add: s n)
  qed
next
  case 7
  then show ?case by simp
qed

lemma json_norm_undefined [simp]: "json_norm v = JUndefined \<longleftrightarrow> v = JUndefined"
  by (cases v) simp_all

lemma sorted_defined_fields: "sorted (map fst (defined_fields kvs))"
  by (simp add: defined_fields_def)

lemma defined_fields_norm:
  "defined_fields (map (\<lambda>kv. (fst kv, json_norm (snd kv))) (defined_fields kvs))
    = map (\<lambda>kv. (fst kv, json_norm (snd kv))) (defined_fields kvs)" (is "defined_fields ?m = ?m")
proof -
  have "filter (\<lambda>kv. snd kv \<noteq> JUndefined) ?m = ?m"
    by (auto simp: filter_id_conv set_defined_fields)
  moreover have "sorted (map fst ?m)"
    using sorted_defined_fields [of kvs] by (simp add: comp_def)
  ultimately show ?thesis
    by (simp add: defined_fields_def [of ?m] sorted_sort_id sort_key_id_if_sorted)
qed

lemma res_map_map: "res_map f (map g xs) = res_map (\<lambda>x. f (g x)) xs"
  by (induction xs) (auto split: sum.splits)

lemma canonical_norm: "canonicalJson (json_norm v) = canonicalJson v"
proof (induction v rule: canonicalJson.induct)
  case (5 xs)
  then have "res_map canonicalJson (map json_norm xs) = res_map canonicalJson xs"
    unfolding res_map_map by (intro res_map_cong refl) simp
  then show ?case by simp
next
  case (6 kvs)
  let ?f = "\<lambda>kv. case canonicalJson (snd kv) of
                    Inl e \<Rightarrow> Inl e
                  | Inr t \<Rightarrow> Inr (json_quote (fst kv) @ '':'' @ t)"
  have "res_map ?f (map (\<lambda>kv. (fst kv, json_norm (snd kv))) (defined_fields kvs))
      = res_map ?f (defined_fields kvs)"
    unfolding res_map_map using 6 by (intro res_map_cong refl) (simp split: sum.split)
  then show ?case by (simp add: defined_fields_norm)
qed auto

lemma json_norm_idem: "json_norm (json_norm v) = json_norm v"
proof (induction v rule: canonicalJson.induct)
  case (6 kvs)
  then show ?case by (force simp: defined_fields_norm)
qed auto

text \<open>The values that reach no \<open>throw\<close>: \<open>undefined\<close> occurs as the value of a field only.\<close>

fun storable :: "json \<Rightarrow> bool" where
  "storable JUndefined = False"
| "storable (JArr xs) = list_all storable xs"
| "storable (JObj kvs) = list_all (\<lambda>kv. snd kv = JUndefined \<or> storable (snd kv)) kvs"
| "storable v = True"

lemma res_map_total: "(\<exists>ys. res_map f xs = Inr ys) \<longleftrightarrow> (\<forall>x\<in>set xs. \<exists>y. f x = Inr y)"
  by (induction xs) (auto split: sum.splits)

lemma canonical_total: "(\<exists>s. canonicalJson v = Inr s) \<longleftrightarrow> storable v"
proof (induction v rule: canonicalJson.induct)
  case (5 xs)
  have "(\<exists>s. canonicalJson (JArr xs) = Inr s) \<longleftrightarrow> (\<exists>ss. res_map canonicalJson xs = Inr ss)"
    by (auto split: sum.splits)
  with 5 show ?case by (auto simp: res_map_total list_all_iff)
next
  case (6 kvs)
  let ?f = "\<lambda>kv. case canonicalJson (snd kv) of
                    Inl e \<Rightarrow> Inl e
                  | Inr t \<Rightarrow> Inr (json_quote (fst kv) @ '':'' @ t)"
  have "(\<exists>s. canonicalJson (JObj kvs) = Inr s) \<longleftrightarrow> (\<exists>ss. res_map ?f (defined_fields kvs) = Inr ss)"
    by (auto split: sum.splits)
  also have "\<dots> \<longleftrightarrow> (\<forall>kv\<in>set (defined_fields kvs). \<exists>s. canonicalJson (snd kv) = Inr s)"
  proof -
    have "(\<exists>y. ?f kv = Inr y) \<longleftrightarrow> (\<exists>s. canonicalJson (snd kv) = Inr s)" for kv
      by (cases "canonicalJson (snd kv)") auto
    then show ?thesis by (simp add: res_map_total)
  qed
  also have "\<dots> \<longleftrightarrow> storable (JObj kvs)"
    using 6 by (fastforce simp: list_all_iff set_defined_fields)
  finally show ?case .
qed auto

section \<open>Digests and signatures\<close>

text \<open>
  \<open>node:crypto\<close> is a parameter: the SHA-256 hex digest of a text, and ed25519 signing and
  verification of a text (private key, public key and signature as the texts the code stores).
  What the code relies on is \<open>keypair_ok\<close>: a signature made with the private key verifies under
  the public key.
\<close>

record crypto =
  cr_sha :: "string \<Rightarrow> string"
  cr_sign :: "string \<Rightarrow> string \<Rightarrow> string"
  cr_verify :: "string \<Rightarrow> string \<Rightarrow> string \<Rightarrow> bool"

definition keypair_ok :: "crypto \<Rightarrow> string \<Rightarrow> string \<Rightarrow> bool" where
  "keypair_ok c pem pub \<longleftrightarrow> (\<forall>t. cr_verify c t pub (cr_sign c t pem))"

definition sha256Hex :: "crypto \<Rightarrow> string \<Rightarrow> string" where
  "sha256Hex c t = cr_sha c t"

definition signJson :: "crypto \<Rightarrow> json \<Rightarrow> string \<Rightarrow> canon_error + string" where
  "signJson c v pem = (case canonicalJson v of Inl e \<Rightarrow> Inl e | Inr t \<Rightarrow> Inr (cr_sign c t pem))"

text \<open>\<open>verifyJson\<close> catches every exception, the encoder's too, and answers \<open>false\<close>.\<close>

definition verifyJson :: "crypto \<Rightarrow> json \<Rightarrow> string \<Rightarrow> string \<Rightarrow> bool" where
  "verifyJson c v pub sig = (case canonicalJson v of Inl _ \<Rightarrow> False | Inr t \<Rightarrow> cr_verify c t pub sig)"

lemma verify_signed: "keypair_ok c pem pub \<Longrightarrow> signJson c v pem = Inr sig \<Longrightarrow> verifyJson c v pub sig"
  by (auto simp: signJson_def verifyJson_def keypair_ok_def split: sum.splits)

text \<open>The parameter can be given: a toy digest and a toy signature, for the witnesses.\<close>

definition toy_crypto :: crypto where
  "toy_crypto = \<lparr>cr_sha = (\<lambda>t. ''h:'' @ t), cr_sign = (\<lambda>t pem. pem @ ''/'' @ t),
     cr_verify = (\<lambda>t pub sig. sig = pub @ ''/'' @ t)\<rparr>"

lemma toy_keypair: "keypair_ok toy_crypto k k"
  by (simp add: keypair_ok_def toy_crypto_def)

section \<open>Properties\<close>

lemma parse_canonical: "canonicalJson v = Inr s \<Longrightarrow> json_parse s = Some (json_norm v)"
  using parse_canonical_value [of v s "length s" "[]"] by (simp add: json_parse_def no_digit_def)

lemma canonical_eq_iff_norm:
  "storable v \<Longrightarrow> canonicalJson v = canonicalJson w \<longleftrightarrow> json_norm v = json_norm w"
proof
  assume "storable v" and eq: "canonicalJson v = canonicalJson w"
  then obtain s where "canonicalJson v = Inr s" using canonical_total by blast
  with eq show "json_norm v = json_norm w"
    using parse_canonical by (metis option.inject)
next
  assume "json_norm v = json_norm w"
  then show "canonicalJson v = canonicalJson w"
    using canonical_norm by metis
qed


text \<open>Digests cannot diverge and cannot be forged through the encoding: two values with a
  canonical text have the same text exactly when they are equal up to key order and
  \<open>undefined\<close> fields.\<close>

theorem canonicalJson_injective:
  assumes "storable v"
  shows "canonicalJson v = canonicalJson w \<longleftrightarrow> json_norm v = json_norm w"
  using assms by (rule canonical_eq_iff_norm)

lemma canonicalJson_injective_witness:
  "canonicalJson (JObj [(''b'', JNum 2), (''a'', JNum 1), (''c'', JUndefined)])
     = canonicalJson (JObj [(''a'', JNum 1), (''b'', JNum 2)])"
proof -
  let ?v = "JObj [(''b'', JNum 2), (''a'', JNum 1), (''c'', JUndefined)]"
  have "storable ?v" by simp
  moreover have "json_norm ?v = json_norm (JObj [(''a'', JNum 1), (''b'', JNum 2)])"
    by code_simp
  ultimately show ?thesis using canonicalJson_injective [of ?v] by blast
qed

end
