(* ===== verification/Hash_Chain.thy ===== *)
theory Hash_Chain
  imports Omega_Prelude
begin

text \<open>
  The interface two components share: a log whose entries carry the hash of the entry before
  them. The host's audit log (\<open>host/src/audit.ts\<close>) and the vault's changelog
  (\<open>plugins/vivim-vault/src/changelog.ts\<close>) are its two instances.

  A provider gives the hash \<open>H\<close>, the text of an entry that is hashed, the link field it stores
  and its own check of an entry at a position (a signature, a stored hash and sequence number).
  It says which entries are clean, those its writer can produce, and the one law is that on clean
  entries the hashed text determines the link field. What the client gets: walking
  the chain is compositional, a prefix of a good chain is good, the head determines the history
  up to a collision of \<open>H\<close>, and a change of one entry is seen by the walk or exhibits a collision.
\<close>

locale hash_chain =
  fixes H :: "string \<Rightarrow> string"
    and etext :: "'e \<Rightarrow> string"
    and link :: "'e \<Rightarrow> string"
    and entry_ok :: "nat \<Rightarrow> 'e \<Rightarrow> bool"
    and genesis :: string
    and clean :: "'e \<Rightarrow> bool"
  assumes etext_link: "clean e \<Longrightarrow> clean e' \<Longrightarrow> etext e = etext e' \<Longrightarrow> link e = link e'"
begin

fun walk :: "nat \<Rightarrow> string \<Rightarrow> 'e list \<Rightarrow> bool" where
  "walk n h [] = True"
| "walk n h (e # es) = (link e = h \<and> entry_ok n e \<and> walk (Suc n) (H (etext e)) es)"

fun head :: "string \<Rightarrow> 'e list \<Rightarrow> string" where
  "head h [] = h"
| "head h (e # es) = head (H (etext e)) es"

lemma head_append [simp]: "head h (es @ fs) = head (head h es) fs"
  by (induction es arbitrary: h) auto

lemma walk_append: "walk n h (es @ fs) \<longleftrightarrow> walk n h es \<and> walk (n + length es) (head h es) fs"
  by (induction es arbitrary: n h) auto

lemma walk_snoc:
  "walk n h (es @ [e]) \<longleftrightarrow> walk n h es \<and> link e = head h es \<and> entry_ok (n + length es) e"
  by (simp add: walk_append)

lemma walk_take: "walk n h es \<Longrightarrow> walk n h (take k es)"
  by (metis append_take_drop_id walk_append)

lemma walk_entry: "walk n h es \<Longrightarrow> i < length es \<Longrightarrow> entry_ok (n + i) (es ! i)"
proof (induction es arbitrary: n h i)
  case (Cons e es)
  then show ?case by (cases i) (use Cons.IH [of "Suc n"] in \<open>auto simp: add.commute\<close>)
qed simp

lemma walk_link:
  "walk n h es \<Longrightarrow> i < length es \<Longrightarrow> link (es ! i) = head h (take i es)"
proof (induction es arbitrary: n h i)
  case (Cons e es)
  then show ?case by (cases i) auto
qed simp

text \<open>Two entries of the logs at hand with different texts and the same hash, or an entry whose
  hash is the genesis value. (That some collision exists somewhere says nothing: every hash has
  one. The pair is in the two logs.)\<close>

definition collision :: "'e list \<Rightarrow> 'e list \<Rightarrow> bool" where
  "collision es fs \<longleftrightarrow>
     (\<exists>e\<in>set es. \<exists>f\<in>set fs. etext e \<noteq> etext f \<and> H (etext e) = H (etext f)) \<or>
     (\<exists>e\<in>set es \<union> set fs. H (etext e) = genesis)"

lemma collision_snoc: "collision es fs \<Longrightarrow> collision (es @ [e]) (fs @ [f])"
  unfolding collision_def by auto

lemma head_determines:
  assumes "walk n genesis es" and "walk m genesis fs"
    and "head genesis es = head genesis fs"
    and "list_all clean es" and "list_all clean fs"
  shows "map etext es = map etext fs \<or> collision es fs"
  using assms
proof (induction es arbitrary: fs rule: rev_induct)
  case Nil
  show ?case
  proof (cases fs rule: rev_exhaust)
    case (snoc fs' f)
    with Nil have "H (etext f) = genesis" by simp
    with snoc show ?thesis unfolding collision_def by simp
  qed simp
next
  case (snoc e es)
  show ?case
  proof (cases fs rule: rev_exhaust)
    case Nil
    with snoc have "H (etext e) = genesis" by simp
    then show ?thesis unfolding collision_def by simp
  next
    case fs: (snoc fs' f)
    show ?thesis
    proof (cases "etext e = etext f")
      case True
      then have "link e = link f"
        using snoc.prems fs by (intro etext_link) auto
      with snoc.prems fs have "head genesis es = head genesis fs'"
        by (simp add: walk_snoc)
      with snoc.IH snoc.prems fs have "map etext es = map etext fs' \<or> collision es fs'"
        by (simp add: walk_snoc)
      with fs True show ?thesis using collision_snoc [of es fs' e f] by auto
    next
      case False
      with snoc.prems fs show ?thesis by (auto simp: collision_def)
    qed
  qed
qed

text \<open>Changing one entry, and nothing after it, breaks the walk at the next link.\<close>

lemma tamper_seen:
  assumes "walk n h es" and "Suc i < length es" and "etext e \<noteq> etext (es ! i)"
    and "walk n h (es[i := e])"
  shows "H (etext e) = H (etext (es ! i))"
proof -
  have take: "take (Suc i) es = take i es @ [es ! i]"
    using assms(2) by (simp add: take_Suc_conv_app_nth)
  have take': "take (Suc i) (es[i := e]) = take i es @ [e]"
    using assms(2) by (simp add: take_Suc_conv_app_nth)
  have "link (es ! Suc i) = H (etext (es ! i))"
    using walk_link [OF assms(1,2)] take by simp
  moreover have "link (es ! Suc i) = H (etext e)"
    using walk_link [OF assms(4), of "Suc i"] assms(2) take' by simp
  ultimately show ?thesis by simp
qed

end

end
