(* ===== verification/Vault_Store.thy ===== *)
theory Vault_Store
  imports Canonical_Json Hash_Chain
begin

text \<open>
  The vault's store (\<open>plugins/vivim-vault/src/canon.ts, cas.ts, sql.ts, changelog.ts\<close>): the blob
  store, the four tables of the database, and the append path. A table is the list of its rows in
  insertion order; a query is the list operation its SQL denotes; an insert that would repeat a
  primary key throws. The text column \<open>meta\<close> is held as the JSON value it encodes. The clock, the
  process and the file system's failures are outside the model: a write that starts succeeds.
\<close>

section \<open>Tables\<close>

record ref =
  rf_ns :: string
  rf_id :: string
  rf_rev :: int

record obj_row =
  ow_ns :: string
  ow_id :: string
  ow_rev :: nat
  ow_cid :: string
  ow_meta :: json

record changelog_row =
  cl_seq :: nat
  cl_causationId :: string
  cl_ns :: string
  cl_id :: string
  cl_rev :: nat
  cl_cid :: string
  cl_entry_hash :: string
  cl_prev_hash :: string

record fts_row =
  fx_ns :: string
  fx_id :: string
  fx_rev :: nat
  fx_body :: string

record vault =
  v_objects :: "obj_row list"
  v_cold :: "(obj_row \<times> int) list"
  v_log :: "changelog_row list"
  v_fts :: "fts_row list"
  v_cas :: "(string, string) jsmap"

datatype vault_error =
    MalformedCid string
  | MissingBlob string
  | Unencodable
  | UnreadableBlob string
  | PrimaryKey
  | MalformedRefs json
  | NotFound string string "int option"
  | TooManyIds nat
  | BadName string string
  | NameTooLong string string
  | NameForbiddenChar string string
  | PayloadNotObject string
  | FieldRequired string string
  | BadInt string string
  | RefsNotArray string
  | DataRequired
  | MetaNotObject
  | IdsNotStrings
  | BadQuery
  | BadTarget
  | NotInitialized
  | BadDataDir

definition empty_vault :: vault where
  "empty_vault = \<lparr>v_objects = [], v_cold = [], v_log = [], v_fts = [], v_cas = []\<rparr>"

section \<open>Hashing (\<open>canon.ts\<close>)\<close>

text \<open>The vault's \<open>canonicalJson\<close> and \<open>sha256Hex\<close> are the host's, line for line.\<close>

definition GENESIS_HASH :: string where
  "GENESIS_HASH = replicate 64 (CHR ''0'')"

definition cidOf :: "crypto \<Rightarrow> json \<Rightarrow> canon_error + string" where
  "cidOf c d = res_bind (canonicalJson d) (\<lambda>t. Inr (sha256Hex c t))"

definition entry_text :: "nat \<Rightarrow> string \<Rightarrow> string \<Rightarrow> string \<Rightarrow> nat \<Rightarrow> string \<Rightarrow> string \<Rightarrow> string" where
  "entry_text sq causationId ns i rv cid prevHash =
     show_nat sq @ CHR ''|'' # causationId @ CHR ''|'' # ns @ CHR ''|'' # i @ CHR ''|'' #
     show_nat rv @ CHR ''|'' # cid @ CHR ''|'' # prevHash"

definition entryHash :: "crypto \<Rightarrow> nat \<Rightarrow> string \<Rightarrow> string \<Rightarrow> string \<Rightarrow> nat \<Rightarrow> string \<Rightarrow> string \<Rightarrow> string" where
  "entryHash c sq causationId ns i rv cid prevHash = sha256Hex c (entry_text sq causationId ns i rv cid prevHash)"

definition bodyText :: "json \<Rightarrow> canon_error + string" where
  "bodyText d = (case d of JStr s \<Rightarrow> Inr s | _ \<Rightarrow> canonicalJson d)"

section \<open>Blobs (\<open>cas.ts\<close>)\<close>

definition CID_RE :: "string \<Rightarrow> bool" where
  "CID_RE s \<longleftrightarrow> length s = 64 \<and> list_all (\<lambda>ch. digit_val ch \<noteq> None) s"

text \<open>The path of a blob is determined by its cid, so the store is a map on cids; \<open>casPath\<close> is what
  refuses a malformed one.\<close>

definition casPath :: "string \<Rightarrow> vault_error + string" where
  "casPath cid = (if \<not> CID_RE cid then Inl (MalformedCid cid) else Inr (take 2 cid @ CHR ''/'' # cid))"

definition casPut :: "crypto \<Rightarrow> (string, string) jsmap \<Rightarrow> json \<Rightarrow> vault_error + (string, string) jsmap \<times> string" where
  "casPut c blobs d =
     (case canonicalJson d of
        Inl _ \<Rightarrow> Inl Unencodable
      | Inr t \<Rightarrow>
          (let cid = sha256Hex c t
           in res_bind (casPath cid) (\<lambda>_.
                Inr (if map_has blobs cid then blobs else map_set cid t blobs, cid))))"

definition casGet :: "(string, string) jsmap \<Rightarrow> string \<Rightarrow> vault_error + json" where
  "casGet blobs cid =
     res_bind (casPath cid) (\<lambda>_.
       case map_get blobs cid of
         None \<Rightarrow> Inl (MissingBlob cid)
       | Some t \<Rightarrow> (case json_parse t of None \<Rightarrow> Inl (UnreadableBlob cid) | Some d \<Rightarrow> Inr d))"

definition casHas :: "(string, string) jsmap \<Rightarrow> string \<Rightarrow> bool" where
  "casHas blobs cid \<longleftrightarrow> (case casPath cid of Inl _ \<Rightarrow> False | Inr _ \<Rightarrow> map_has blobs cid)"

definition casList :: "(string, string) jsmap \<Rightarrow> string list" where
  "casList blobs = filter CID_RE (map_keys blobs)"

definition casCopyAll :: "(string, string) jsmap \<Rightarrow> (string, string) jsmap \<Rightarrow> (string, string) jsmap \<times> nat" where
  "casCopyAll src dst =
     (let ok = filter (\<lambda>(cid, _). CID_RE cid) src
      in (fold (\<lambda>(cid, t). map_set cid t) ok dst, length ok))"

section \<open>Envelopes (\<open>sql.ts\<close>)\<close>

definition ref_json :: "ref \<Rightarrow> json" where
  "ref_json r = JObj [(''ns'', JStr (rf_ns r)), (''id'', JStr (rf_id r)), (''rev'', JNum (rf_rev r))]"

definition envelopeOf :: "json \<Rightarrow> ref list \<Rightarrow> json" where
  "envelopeOf meta refs =
     JObj [(''meta'', if meta = JUndefined then JNull else meta), (''refs'', JArr (map ref_json refs))]"

definition parse_ref :: "json \<Rightarrow> vault_error + ref" where
  "parse_ref r =
     (case (json_field r ''ns'', json_field r ''id'', json_field r ''rev'') of
        (JStr n, JStr i, JNum v) \<Rightarrow> Inr \<lparr>rf_ns = n, rf_id = i, rf_rev = v\<rparr>
      | _ \<Rightarrow> Inl (MalformedRefs r))"

definition parseEnvelope :: "json \<Rightarrow> vault_error + json \<times> ref list" where
  "parseEnvelope env =
     (case json_field env ''refs'' of
        JArr rs \<Rightarrow> res_bind (res_map parse_ref rs) (\<lambda>refs.
          Inr (if json_field env ''meta'' = JUndefined then JNull else json_field env ''meta'', refs))
      | _ \<Rightarrow> Inr (if json_field env ''meta'' = JUndefined then JNull else json_field env ''meta'', []))"

section \<open>Reads (\<open>sql.ts\<close>)\<close>

record object_record =
  or_rev :: nat
  or_cid :: string
  or_data :: json
  or_meta :: json
  or_refs :: "ref list"

definition rows_of :: "string \<Rightarrow> string \<Rightarrow> obj_row list \<Rightarrow> obj_row list" where
  "rows_of ns i rows = filter (\<lambda>r. ow_ns r = ns \<and> ow_id r = i) rows"

text \<open>\<open>ORDER BY rev DESC LIMIT 1\<close>.\<close>

definition newest :: "obj_row list \<Rightarrow> obj_row option" where
  "newest rows = (case sort_key (\<lambda>r. - int (ow_rev r)) rows of [] \<Rightarrow> None | r # _ \<Rightarrow> Some r)"

definition find_row :: "string \<Rightarrow> string \<Rightarrow> int option \<Rightarrow> obj_row list \<Rightarrow> obj_row option" where
  "find_row ns i rv rows =
     (case rv of
        Some n \<Rightarrow> find (\<lambda>r. ow_ns r = ns \<and> ow_id r = i \<and> int (ow_rev r) = n) rows
      | None \<Rightarrow> newest (rows_of ns i rows))"

definition stored_row :: "vault \<Rightarrow> string \<Rightarrow> string \<Rightarrow> int option \<Rightarrow> obj_row option" where
  "stored_row v ns i rv =
     (case find_row ns i rv (v_objects v) of
        Some r \<Rightarrow> Some r
      | None \<Rightarrow> find_row ns i rv (map fst (v_cold v)))"

definition readObject :: "vault \<Rightarrow> string \<Rightarrow> string \<Rightarrow> int option \<Rightarrow> vault_error + object_record" where
  "readObject v ns i rv =
     (case stored_row v ns i rv of
        None \<Rightarrow> Inl (NotFound ns i rv)
      | Some row \<Rightarrow>
          res_bind (parseEnvelope (ow_meta row)) (\<lambda>(meta, refs).
            res_bind (casGet (v_cas v) (ow_cid row)) (\<lambda>d.
              Inr \<lparr>or_rev = ow_rev row, or_cid = ow_cid row, or_data = d, or_meta = meta, or_refs = refs\<rparr>)))"

definition GET_MANY_BOUND :: nat where "GET_MANY_BOUND = 512"

record many_row =
  mr_id :: string
  mr_found :: "(nat \<times> string \<times> json \<times> json) option"

definition read_one :: "vault \<Rightarrow> string \<Rightarrow> string \<Rightarrow> vault_error + many_row" where
  "read_one v ns i =
     (case stored_row v ns i None of
        None \<Rightarrow> Inr \<lparr>mr_id = i, mr_found = None\<rparr>
      | Some row \<Rightarrow>
          res_bind (parseEnvelope (ow_meta row)) (\<lambda>(meta, refs).
            res_bind (casGet (v_cas v) (ow_cid row)) (\<lambda>d.
              Inr \<lparr>mr_id = i, mr_found = Some (ow_rev row, ow_cid row, d, meta)\<rparr>)))"

fun read_loop :: "vault \<Rightarrow> string \<Rightarrow> string list \<Rightarrow> string list \<Rightarrow> vault_error + many_row list" where
  "read_loop v ns seen [] = Inr []"
| "read_loop v ns seen (i # ids) =
     (if i \<in> set seen then read_loop v ns seen ids
      else res_bind (read_one v ns i) (\<lambda>r.
             res_bind (read_loop v ns (set_add i seen) ids) (\<lambda>rs. Inr (r # rs))))"

definition readObjects :: "vault \<Rightarrow> string \<Rightarrow> string list \<Rightarrow> vault_error + many_row list" where
  "readObjects v ns ids =
     (if length (uniq ids) > GET_MANY_BOUND then Inl (TooManyIds (length (uniq ids)))
      else read_loop v ns [] ids)"

text \<open>SQLite's \<open>LIKE\<close> with an escaped pattern and a final \<open>%\<close>: a prefix match that ignores the case of
  the ASCII letters.\<close>

definition ascii_lower :: "char \<Rightarrow> char" where
  "ascii_lower ch = (let n = of_char ch :: nat in if 65 \<le> n \<and> n \<le> 90 then char_of (n + 32) else ch)"

definition like_prefix :: "string \<Rightarrow> string \<Rightarrow> bool" where
  "like_prefix s p \<longleftrightarrow> starts_with (map ascii_lower s) (map ascii_lower p)"

record query_row =
  qr_id :: string
  qr_rev :: nat
  qr_cid :: string

definition queryObjects :: "vault \<Rightarrow> string \<Rightarrow> string option \<Rightarrow> int option \<Rightarrow> query_row list" where
  "queryObjects v ns idPrefix minRev =
     map (\<lambda>r. \<lparr>qr_id = ow_id r, qr_rev = ow_rev r, qr_cid = ow_cid r\<rparr>)
       (sort_key ow_id
         (filter (\<lambda>r. ow_ns r = ns \<and>
             list_all (\<lambda>q. ow_rev q \<le> ow_rev r) (rows_of ns (ow_id r) (v_objects v)) \<and>
             (case idPrefix of None \<Rightarrow> True | Some p \<Rightarrow> like_prefix (ow_id r) p) \<and>
             (case minRev of None \<Rightarrow> True | Some n \<Rightarrow> n \<le> int (ow_rev r)))
           (v_objects v)))"

text \<open>Every provenance edge of a live object; \<open>"ns|id|rev"\<close> keys in the source, triples here
  (names have no bar, so the key determines the triple).\<close>

definition liveRefs :: "vault \<Rightarrow> vault_error + ref list" where
  "liveRefs v = res_bind (res_map (\<lambda>r. parseEnvelope (ow_meta r)) (v_objects v)) (\<lambda>es. Inr (concat (map snd es)))"

section \<open>Append (\<open>changelog.ts\<close>)\<close>

text \<open>\<open>ORDER BY seq DESC LIMIT 1\<close>, \<open>MAX(seq)\<close>, \<open>MAX(rev)\<close>.\<close>

definition chainHead :: "changelog_row list \<Rightarrow> string" where
  "chainHead log = (case sort_key (\<lambda>r. - int (cl_seq r)) log of [] \<Rightarrow> GENESIS_HASH | r # _ \<Rightarrow> cl_entry_hash r)"

definition next_seq :: "changelog_row list \<Rightarrow> nat" where
  "next_seq log = fold max (map cl_seq log) 0 + 1"

definition next_rev :: "changelog_row list \<Rightarrow> string \<Rightarrow> string \<Rightarrow> nat" where
  "next_rev log ns i = fold max (map cl_rev (filter (\<lambda>r. cl_ns r = ns \<and> cl_id r = i) log)) 0 + 1"

definition appendChangelogEntry ::
    "crypto \<Rightarrow> changelog_row list \<Rightarrow> string \<Rightarrow> string \<Rightarrow> string \<Rightarrow> nat \<Rightarrow> string \<Rightarrow> changelog_row list \<times> nat" where
  "appendChangelogEntry c log causationId ns i rv cid =
     (let prevHash = chainHead log; sq = next_seq log;
          hash = entryHash c sq causationId ns i rv cid prevHash
      in (log @ [\<lparr>cl_seq = sq, cl_causationId = causationId, cl_ns = ns, cl_id = i, cl_rev = rv, cl_cid = cid,
                  cl_entry_hash = hash, cl_prev_hash = prevHash\<rparr>], sq))"

record append_input =
  ai_ns :: string
  ai_id :: string
  ai_data :: json
  ai_meta :: json
  ai_refs :: "ref list"
  ai_causationId :: string

record append_result =
  ap_rev :: nat
  ap_cid :: string
  ap_seq :: nat

definition ow_key :: "obj_row \<Rightarrow> string \<times> string \<times> nat" where
  "ow_key r = (ow_ns r, ow_id r, ow_rev r)"

definition fts_insert :: "fts_row list \<Rightarrow> string \<Rightarrow> string \<Rightarrow> nat \<Rightarrow> string \<Rightarrow> fts_row list" where
  "fts_insert fts ns i rv body = fts @ [\<lparr>fx_ns = ns, fx_id = i, fx_rev = rv, fx_body = body\<rparr>]"

text \<open>An error inside the transaction rolls the tables back; the blob written before it stays.\<close>

definition appendObject :: "crypto \<Rightarrow> vault \<Rightarrow> append_input \<Rightarrow> (vault_error + append_result) \<times> vault" where
  "appendObject c v a =
     (case casPut c (v_cas v) (ai_data a) of
        Inl e \<Rightarrow> (Inl e, v)
      | Inr (blobs, cid) \<Rightarrow>
          (let v0 = v\<lparr>v_cas := blobs\<rparr>;
               rv = next_rev (v_log v) (ai_ns a) (ai_id a);
               row = \<lparr>ow_ns = ai_ns a, ow_id = ai_id a, ow_rev = rv, ow_cid = cid,
                      ow_meta = envelopeOf (ai_meta a) (ai_refs a)\<rparr>
           in if ow_key row \<in> set (map ow_key (v_objects v)) then (Inl PrimaryKey, v0)
              else (case bodyText (ai_data a) of
                      Inl _ \<Rightarrow> (Inl Unencodable, v0)
                    | Inr body \<Rightarrow>
                        (let (log, sq) = appendChangelogEntry c (v_log v) (ai_causationId a) (ai_ns a) (ai_id a) rv cid
                         in (Inr \<lparr>ap_rev = rv, ap_cid = cid, ap_seq = sq\<rparr>,
                             v0\<lparr>v_objects := v_objects v @ [row],
                                v_fts := fts_insert (v_fts v) (ai_ns a) (ai_id a) rv body,
                                v_log := log\<rparr>)))))"

end
