(* ===== verification/Vault_Ops.thy ===== *)
theory Vault_Ops
  imports Vault_Store
begin

text \<open>
  Compaction, the proof walk, the copy and the full-text search
  (\<open>plugins/vivim-vault/src/compaction.ts, verify.ts, roundtrip.ts\<close> and the FTS part of \<open>sql.ts\<close>).
\<close>

section \<open>Compaction\<close>

record compact_state =
  cs_objects :: "obj_row list"
  cs_cold :: "(obj_row \<times> int) list"
  cs_moved :: nat
  cs_kept :: nat
  cs_protected :: nat
  cs_targets :: "(string \<times> nat) list"

text \<open>\<open>INSERT INTO cold_objects ... SELECT ... FROM objects\<close>, then \<open>DELETE FROM objects\<close>.\<close>

definition row_at :: "string \<Rightarrow> string \<Rightarrow> nat \<Rightarrow> obj_row \<Rightarrow> bool" where
  "row_at ns i rv r \<longleftrightarrow> ow_ns r = ns \<and> ow_id r = i \<and> ow_rev r = rv"

definition move_row :: "int \<Rightarrow> string \<Rightarrow> string \<Rightarrow> nat \<Rightarrow> compact_state \<Rightarrow> vault_error + compact_state" where
  "move_row now ns i rv st =
     (let rows = filter (row_at ns i rv) (cs_objects st)
      in if rows \<noteq> [] \<and> list_ex (\<lambda>(q, _). row_at ns i rv q) (cs_cold st) then Inl PrimaryKey
         else Inr (st\<lparr>cs_cold := cs_cold st @ map (\<lambda>r. (r, now)) rows,
                     cs_objects := filter (\<lambda>r. \<not> row_at ns i rv r) (cs_objects st),
                     cs_targets := cs_targets st @ [(i, rv)], cs_moved := cs_moved st + 1\<rparr>))"

fun compact_revs :: "int \<Rightarrow> string \<Rightarrow> ref list \<Rightarrow> string \<Rightarrow> nat list \<Rightarrow> compact_state \<Rightarrow> vault_error + compact_state" where
  "compact_revs now ns prot i [] st = Inr st"
| "compact_revs now ns prot i (rv # rvs) st =
     (if \<lparr>rf_ns = ns, rf_id = i, rf_rev = int rv\<rparr> \<in> set prot
      then compact_revs now ns prot i rvs (st\<lparr>cs_kept := cs_kept st + 1, cs_protected := cs_protected st + 1\<rparr>)
      else res_bind (move_row now ns i rv st) (compact_revs now ns prot i rvs))"

text \<open>\<open>slice(-keep)\<close> and \<open>slice(0, max(0, length - keep))\<close>.\<close>

fun compact_ids :: "int \<Rightarrow> string \<Rightarrow> nat \<Rightarrow> ref list \<Rightarrow> (string, nat list) jsmap \<Rightarrow> compact_state \<Rightarrow>
    vault_error + compact_state" where
  "compact_ids now ns keep prot [] st = Inr st"
| "compact_ids now ns keep prot ((i, revs) # rest) st =
     (let hot = drop (length revs - keep) revs; candidates = take (length revs - keep) revs
      in res_bind (compact_revs now ns prot i candidates (st\<lparr>cs_kept := cs_kept st + length hot\<rparr>))
           (compact_ids now ns keep prot rest))"

definition group_revs :: "obj_row list \<Rightarrow> (string, nat list) jsmap" where
  "group_revs rows =
     fold (\<lambda>r m. map_set (ow_id r) ((case map_get m (ow_id r) of Some l \<Rightarrow> l | None \<Rightarrow> []) @ [ow_rev r]) m) rows []"

record compact_result =
  cp_moved :: nat
  cp_kept :: nat
  cp_protected :: nat

definition ftsDeleteMany :: "fts_row list \<Rightarrow> string \<Rightarrow> (string \<times> nat) list \<Rightarrow> fts_row list" where
  "ftsDeleteMany fts ns targets = filter (\<lambda>f. \<not> (fx_ns f = ns \<and> (fx_id f, fx_rev f) \<in> set targets)) fts"

definition compact :: "int \<Rightarrow> vault \<Rightarrow> string \<Rightarrow> int \<Rightarrow> (vault_error + compact_result) \<times> vault" where
  "compact now v ns keep =
     (if length ns = 0 then (Inl (BadName ''vault.compact@1'' ''ns''), v)
      else if keep < 1 then (Inl (BadInt ''vault.compact@1'' ''keep''), v)
      else
        (case liveRefs v of
           Inl e \<Rightarrow> (Inl e, v)
         | Inr prot \<Rightarrow>
             (let rows = sort_key ow_id (sort_key ow_rev (filter (\<lambda>r. ow_ns r = ns) (v_objects v)));
                  st0 = \<lparr>cs_objects = v_objects v, cs_cold = v_cold v, cs_moved = 0, cs_kept = 0,
                         cs_protected = 0, cs_targets = []\<rparr>
              in case compact_ids now ns (nat keep) prot (group_revs rows) st0 of
                   Inl e \<Rightarrow> (Inl e, v)
                 | Inr st \<Rightarrow>
                     (Inr \<lparr>cp_moved = cs_moved st, cp_kept = cs_kept st, cp_protected = cs_protected st\<rparr>,
                      v\<lparr>v_objects := cs_objects st, v_cold := cs_cold st,
                        v_fts := ftsDeleteMany (v_fts v) ns (cs_targets st)\<rparr>))))"

section \<open>The proof walk\<close>

datatype corruption =
    SeqGap nat
  | PrevMismatch nat
  | HashMismatch nat
  | NoRevision nat
  | BlobMissing nat
  | BlobsMissing nat

record verify_result =
  vr_ok :: bool
  vr_headHash :: string
  vr_entries :: nat
  vr_corruptAt :: "nat option"
  vr_detail :: "corruption option"

fun verify_walk :: "crypto \<Rightarrow> nat \<Rightarrow> string \<Rightarrow> changelog_row list \<Rightarrow> string \<times> (nat \<times> corruption) option" where
  "verify_walk c n prev [] = (prev, None)"
| "verify_walk c n prev (row # rows) =
     (let sq = cl_seq row;
          computed = entryHash c sq (cl_causationId row) (cl_ns row) (cl_id row) (cl_rev row) (cl_cid row) prev
      in if sq \<noteq> n + 1 then (prev, Some (sq, SeqGap sq))
         else if cl_prev_hash row \<noteq> prev then (prev, Some (sq, PrevMismatch sq))
         else if cl_entry_hash row \<noteq> computed then (prev, Some (sq, HashMismatch sq))
         else verify_walk c (n + 1) computed rows)"

definition all_rows :: "vault \<Rightarrow> obj_row list" where
  "all_rows v = v_objects v @ map fst (v_cold v)"

definition has_revision :: "vault \<Rightarrow> string \<Rightarrow> string \<Rightarrow> nat \<Rightarrow> bool" where
  "has_revision v ns i rv \<longleftrightarrow> list_ex (row_at ns i rv) (all_rows v)"

definition log_rows :: "vault \<Rightarrow> changelog_row list" where
  "log_rows v = sort_key cl_seq (v_log v)"

text \<open>Step 3: the distinct cids of the stored revisions, one existence probe each; the first missing one
  that a changelog row carries names the divergence.\<close>

definition blob_link :: "vault \<Rightarrow> string \<Rightarrow> nat option" where
  "blob_link v cid =
     (case find (\<lambda>r. ow_cid r = cid) (all_rows v) of
        None \<Rightarrow> None
      | Some r \<Rightarrow> map_option cl_seq
          (find (\<lambda>e. cl_ns e = ow_ns r \<and> cl_id e = ow_id r \<and> cl_rev e = ow_rev r) (log_rows v)))"

fun blob_probe :: "vault \<Rightarrow> string list \<Rightarrow> nat \<Rightarrow> (nat \<times> corruption) option \<Rightarrow> nat \<times> (nat \<times> corruption) option" where
  "blob_probe v [] n at = (n, at)"
| "blob_probe v (cid # cids) n at =
     (if casHas (v_cas v) cid then blob_probe v cids n at
      else blob_probe v cids (n + 1)
        (case at of
           Some x \<Rightarrow> Some x
         | None \<Rightarrow> map_option (\<lambda>sq. (sq, BlobMissing sq)) (blob_link v cid)))"

definition verify :: "crypto \<Rightarrow> vault \<Rightarrow> verify_result" where
  "verify c v =
     (let rows = log_rows v;
          (head, at1) = verify_walk c 0 GENESIS_HASH rows;
          at2 = (case at1 of
                   Some x \<Rightarrow> Some x
                 | None \<Rightarrow> map_option (\<lambda>r. (cl_seq r, NoRevision (cl_seq r)))
                             (find (\<lambda>r. \<not> has_revision v (cl_ns r) (cl_id r) (cl_rev r)) rows));
          (missing, at3) = blob_probe v (sort (uniq (map ow_cid (all_rows v)))) 0 at2
      in \<lparr>vr_ok = (at3 = None \<and> missing = 0), vr_headHash = head, vr_entries = length rows,
          vr_corruptAt = map_option fst at3,
          vr_detail = (case at3 of Some (_, d) \<Rightarrow> Some d
                       | None \<Rightarrow> if missing > 0 then Some (BlobsMissing missing) else None)\<rparr>)"

section \<open>The copy\<close>

text \<open>The target's database as it is found (its tables are created when absent): inserting a row whose
  key is there throws and rolls the tables back. The containment test on the two paths is a
  parameter (\<open>disjoint\<close>), and the closing of the connections is not modelled.\<close>

definition seq_clash :: "changelog_row list \<Rightarrow> changelog_row list \<Rightarrow> bool" where
  "seq_clash xs ys \<longleftrightarrow> list_ex (\<lambda>x. cl_seq x \<in> set (map cl_seq ys)) xs"

definition key_clash :: "obj_row list \<Rightarrow> obj_row list \<Rightarrow> bool" where
  "key_clash xs ys \<longleftrightarrow> list_ex (\<lambda>x. ow_key x \<in> set (map ow_key ys)) xs"

definition fts_rebuild :: "(string, string) jsmap \<Rightarrow> obj_row list \<Rightarrow> fts_row list \<Rightarrow> fts_row list" where
  "fts_rebuild blobs rows fts =
     fold (\<lambda>r acc. case casGet blobs (ow_cid r) of
                     Inl _ \<Rightarrow> acc
                   | Inr d \<Rightarrow> (case bodyText d of Inl _ \<Rightarrow> acc
                              | Inr body \<Rightarrow> fts_insert acc (ow_ns r) (ow_id r) (ow_rev r) body)) rows fts"

record roundtrip_result =
  rt_ok :: bool
  rt_entries :: nat
  rt_headHash :: string
  rt_blobsCopied :: nat

definition roundtrip :: "crypto \<Rightarrow> bool \<Rightarrow> vault \<Rightarrow> vault \<Rightarrow> (vault_error + roundtrip_result) \<times> vault" where
  "roundtrip c disjoint v target =
     (if \<not> disjoint then (Inl BadTarget, target)
      else
        (let (blobs, n) = casCopyAll (v_cas v) (v_cas target);
             t0 = target\<lparr>v_cas := blobs\<rparr>
         in if seq_clash (v_log v) (v_log target) \<or> key_clash (v_objects v) (v_objects target) \<or>
               key_clash (map fst (v_cold v)) (map fst (v_cold target))
            then (Inl PrimaryKey, t0)
            else
              (let t1 = t0\<lparr>v_log := v_log target @ log_rows v, v_objects := v_objects target @ v_objects v,
                           v_cold := v_cold target @ v_cold v,
                           v_fts := fts_rebuild blobs (v_objects v) (v_fts target)\<rparr>;
                   verdict = verify c t1
               in (Inr \<lparr>rt_ok = vr_ok verdict, rt_entries = vr_entries verdict,
                        rt_headHash = vr_headHash verdict, rt_blobsCopied = n\<rparr>, t1))))"

section \<open>Search\<close>

text \<open>FTS5's match and rank are a parameter: \<open>fts_match phrase body\<close> is the rank when the body matches.\<close>

fun double_quotes :: "string \<Rightarrow> string" where
  "double_quotes [] = []"
| "double_quotes (ch # s) = (if ch = CHR 0x22 then [CHR 0x22, CHR 0x22] else [ch]) @ double_quotes s"

record search_row =
  sr_id :: string
  sr_rev :: nat
  sr_cid :: "string option"
  sr_rank :: int

definition searchObjects :: "(string \<Rightarrow> string \<Rightarrow> int option) \<Rightarrow> vault \<Rightarrow> string \<Rightarrow> string \<Rightarrow> search_row list" where
  "searchObjects fts_match v ns q =
     (let phrase = CHR 0x22 # double_quotes q @ [CHR 0x22];
          hits = concat (map (\<lambda>f. case fts_match phrase (fx_body f) of
                                    Some k \<Rightarrow> if fx_ns f = ns then [(k, f)] else []
                                  | None \<Rightarrow> []) (v_fts v))
      in take 200 (map (\<lambda>(k, f). \<lparr>sr_id = fx_id f, sr_rev = fx_rev f,
              sr_cid = map_option ow_cid (find (row_at (fx_ns f) (fx_id f) (fx_rev f)) (v_objects v)), sr_rank = k\<rparr>)
            (sort_key fst hits)))"

end
