(* ===== verification/Vault_Invariant.thy ===== *)
theory Vault_Invariant
  imports Vault_Ops "HOL-Library.Multiset"
begin

text \<open>
  The invariant of the vault and what preserves it. The changelog is the second instance of the
  locale \<open>hash_chain\<close>; the stored revisions, hot and cold together, are a permutation of what the
  changelog says; the newest revision of every object is hot; every blob is addressed by its hash.
\<close>

section \<open>The changelog is a hash chain\<close>

definition cl_text :: "changelog_row \<Rightarrow> string" where
  "cl_text e = entry_text (cl_seq e) (cl_causationId e) (cl_ns e) (cl_id e) (cl_rev e) (cl_cid e) (cl_prev_hash e)"

definition no_bar :: "string \<Rightarrow> bool" where
  "no_bar s \<longleftrightarrow> CHR ''|'' \<notin> set s"

definition cl_clean :: "changelog_row \<Rightarrow> bool" where
  "cl_clean e \<longleftrightarrow> no_bar (cl_causationId e) \<and> no_bar (cl_ns e) \<and> no_bar (cl_id e) \<and> no_bar (cl_cid e)"

definition cl_entry_ok :: "crypto \<Rightarrow> nat \<Rightarrow> changelog_row \<Rightarrow> bool" where
  "cl_entry_ok c n e \<longleftrightarrow> cl_seq e = n + 1 \<and> cl_entry_hash e = sha256Hex c (cl_text e)"

lemma show_nat_no_bar: "no_bar (show_nat n)"
  using show_nat_digit [of "CHR ''|''" n] by (auto simp: no_bar_def)

lemma entry_text_inj:
  assumes "no_bar ca" "no_bar ns" "no_bar i" "no_bar cid" "no_bar ca'" "no_bar ns'" "no_bar i'" "no_bar cid'"
  shows "entry_text sq ca ns i rv cid p = entry_text sq' ca' ns' i' rv' cid' p' \<longleftrightarrow>
    sq = sq' \<and> ca = ca' \<and> ns = ns' \<and> i = i' \<and> rv = rv' \<and> cid = cid' \<and> p = p'"
proof -
  note bar = assms [unfolded no_bar_def] show_nat_no_bar [unfolded no_bar_def]
  show ?thesis
    by (simp add: entry_text_def sep_append_inj bar show_base_inj)
qed

lemma cl_text_inj: "cl_clean e \<Longrightarrow> cl_clean f \<Longrightarrow> cl_text e = cl_text f \<longleftrightarrow>
    cl_seq e = cl_seq f \<and> cl_causationId e = cl_causationId f \<and> cl_ns e = cl_ns f \<and> cl_id e = cl_id f \<and>
    cl_rev e = cl_rev f \<and> cl_cid e = cl_cid f \<and> cl_prev_hash e = cl_prev_hash f"
  unfolding cl_text_def cl_clean_def by (rule entry_text_inj) auto

interpretation vlog: hash_chain "sha256Hex c" cl_text cl_prev_hash "cl_entry_ok c" GENESIS_HASH cl_clean for c
  by unfold_locales (simp add: cl_text_inj)

lemma vlog_walk_Cons:
  "vlog.walk c n h (e # es) \<longleftrightarrow> cl_prev_hash e = h \<and> cl_seq e = n + 1 \<and>
     cl_entry_hash e = sha256Hex c (cl_text e) \<and> vlog.walk c (Suc n) (sha256Hex c (cl_text e)) es"
  by (simp add: cl_entry_ok_def)

lemma verify_walk_iff:
  "(snd (verify_walk c n prev rows) = None \<longleftrightarrow> vlog.walk c n prev rows) \<and>
   (vlog.walk c n prev rows \<longrightarrow> fst (verify_walk c n prev rows) = vlog.head c prev rows)"
proof (induction rows arbitrary: n prev)
  case (Cons row rows)
  let ?h = "entryHash c (cl_seq row) (cl_causationId row) (cl_ns row) (cl_id row) (cl_rev row) (cl_cid row) prev"
  have h: "cl_prev_hash row = prev \<Longrightarrow> ?h = sha256Hex c (cl_text row)"
    by (simp add: entryHash_def cl_text_def)
  show ?case
  proof (cases "cl_seq row = n + 1 \<and> cl_prev_hash row = prev \<and> cl_entry_hash row = ?h")
    case True
    then show ?thesis
      using Cons.IH [of "Suc n" "sha256Hex c (cl_text row)"] h
      unfolding vlog_walk_Cons vlog.head.simps verify_walk.simps Let_def by simp
  next
    case False
    then show ?thesis
      using h unfolding vlog_walk_Cons vlog.head.simps verify_walk.simps Let_def by auto
  qed
qed simp

lemma walk_seqs: "vlog.walk c n h es \<Longrightarrow> map cl_seq es = [n + 1..<n + 1 + length es]"
proof (induction es arbitrary: n h)
  case (Cons e es)
  from Cons.prems have e: "cl_seq e = n + 1" and "vlog.walk c (Suc n) (sha256Hex c (cl_text e)) es"
    unfolding vlog_walk_Cons by blast+
  then have "map cl_seq es = [n + 2..<n + 2 + length es]" using Cons.IH by fastforce
  with e show ?case by (simp add: upt_conv_Cons del: upt_Suc)
qed simp

lemma walk_sorted: "vlog.walk c 0 h es \<Longrightarrow> sort_key cl_seq es = es"
  by (rule sort_key_id_if_sorted) (simp only: walk_seqs sorted_upt)

lemma fold_max_upt: "fold max [1..<Suc n] 0 = (n :: nat)"
  by (induction n) auto

lemma walk_next_seq: "vlog.walk c 0 h es \<Longrightarrow> next_seq es = length es + 1"
  using walk_seqs [of c 0 h es] fold_max_upt [of "length es"] by (simp add: next_seq_def)

lemma walk_head_last: "vlog.walk c n h es \<Longrightarrow> es \<noteq> [] \<Longrightarrow> vlog.head c h es = cl_entry_hash (last es)"
proof (induction es arbitrary: n h)
  case (Cons e es)
  from Cons.prems have e: "cl_entry_hash e = sha256Hex c (cl_text e)"
    and w: "vlog.walk c (Suc n) (sha256Hex c (cl_text e)) es"
    unfolding vlog_walk_Cons by blast+
  show ?case
  proof (cases "es = []")
    case True
    then show ?thesis using e by simp
  next
    case False
    then show ?thesis using Cons.IH [OF w] by simp
  qed
qed simp

lemma newest_first_hd:
  fixes f :: "'a \<Rightarrow> nat"
  assumes "map f es = [1..<1 + length es]" and "es \<noteq> []"
  shows "\<exists>ys. sort_key (\<lambda>r. - int (f r)) es = last es # ys"
proof -
  let ?s = "sort_key (\<lambda>r. - int (f r)) es"
  have "set ?s = set es" by simp
  then obtain y ys where s: "?s = y # ys" using assms(2) by (cases ?s) auto
  have inj: "inj_on f (set es)" using assms(1) by (metis distinct_map distinct_upt)
  have "f (last es) = length es"
    using assms by (metis last_map last_upt less_add_same_cancel1 length_greater_0_conv add_diff_cancel_left')
  moreover have "f y \<le> length es" if "y \<in> set es" for y
  proof -
    have "f y \<in> set (map f es)" using that by simp
    then show ?thesis unfolding assms(1) by auto
  qed
  moreover have ins: "y \<in> set es" "last es \<in> set es"
    using s assms(2) last_in_set [of es] by (metis list.set_intros(1) set_sort, simp)
  moreover have "\<forall>z\<in>set es. - int (f y) \<le> - int (f z)"
  proof -
    have "sorted (map (\<lambda>r. - int (f r)) (y # ys))"
      using sorted_sort_key [of "\<lambda>r. - int (f r)" es] unfolding s .
    moreover have "set es = set (y # ys)" using s set_sort [of "\<lambda>r. - int (f r)" es] by simp
    ultimately show ?thesis by simp
  qed
  ultimately have "f y = f (last es)" by force
  then have "y = last es" using inj ins by (meson inj_onD)
  with s show ?thesis by simp
qed

lemma walk_chainHead:
  assumes "vlog.walk c 0 GENESIS_HASH es"
  shows "chainHead es = vlog.head c GENESIS_HASH es"
proof (cases "es = []")
  case True
  then show ?thesis by (simp add: chainHead_def)
next
  case False
  have "map cl_seq es = [1..<1 + length es]" using walk_seqs [OF assms] by simp
  from newest_first_hd [OF this False] show ?thesis
    using walk_head_last [OF assms False] by (auto simp: chainHead_def)
qed

section \<open>Revisions\<close>

definition revs_of :: "changelog_row list \<Rightarrow> string \<Rightarrow> string \<Rightarrow> nat list" where
  "revs_of log ns i = map cl_rev (filter (\<lambda>e. cl_ns e = ns \<and> cl_id e = i) log)"

text \<open>Every object's revisions are numbered 1, 2, 3, ... in the order of the log.\<close>

definition revs_ok :: "changelog_row list \<Rightarrow> bool" where
  "revs_ok log \<longleftrightarrow> (\<forall>ns i. revs_of log ns i = [1..<Suc (length (revs_of log ns i))])"

lemma revs_of_snoc:
  "revs_of (log @ [e]) ns i = revs_of log ns i @ (if cl_ns e = ns \<and> cl_id e = i then [cl_rev e] else [])"
  by (simp add: revs_of_def)

lemma upt_snoc_iff: "xs @ [r] = [1..<Suc (Suc (length xs))] \<longleftrightarrow> xs = [1..<Suc (length xs)] \<and> r = Suc (length xs)"
  by (subst upt_Suc_append) auto

lemma revs_ok_snoc:
  "revs_ok (log @ [e]) \<longleftrightarrow> revs_ok log \<and> cl_rev e = Suc (length (revs_of log (cl_ns e) (cl_id e)))"
proof
  assume ok: "revs_ok (log @ [e])"
  have at: "revs_of (log @ [e]) ns i = [1..<Suc (length (revs_of (log @ [e]) ns i))]" for ns i
    using ok unfolding revs_ok_def by blast
  have "revs_of log ns i = [1..<Suc (length (revs_of log ns i))]" for ns i
    using at [of ns i] unfolding revs_of_snoc
    by (cases "cl_ns e = ns \<and> cl_id e = i") (simp_all only: simp_thms if_True if_False length_append_singleton upt_snoc_iff append_Nil2)
  then have "revs_ok log" unfolding revs_ok_def by blast
  moreover have "cl_rev e = Suc (length (revs_of log (cl_ns e) (cl_id e)))"
    using at [of "cl_ns e" "cl_id e"] unfolding revs_of_snoc
    by (simp only: simp_thms if_True length_append_singleton upt_snoc_iff)
  ultimately show "revs_ok log \<and> cl_rev e = Suc (length (revs_of log (cl_ns e) (cl_id e)))" ..
next
  assume "revs_ok log \<and> cl_rev e = Suc (length (revs_of log (cl_ns e) (cl_id e)))"
  then have ok: "revs_of log ns i = [1..<Suc (length (revs_of log ns i))]"
    and r: "cl_rev e = Suc (length (revs_of log (cl_ns e) (cl_id e)))" for ns i
    unfolding revs_ok_def by blast+
  have "revs_of (log @ [e]) ns i = [1..<Suc (length (revs_of (log @ [e]) ns i))]" for ns i
  proof (cases "cl_ns e = ns \<and> cl_id e = i")
    case True
    then have snoc: "revs_of (log @ [e]) ns i = revs_of log ns i @ [cl_rev e]" by (simp add: revs_of_snoc)
    have "revs_of log ns i @ [cl_rev e] = [1..<Suc (Suc (length (revs_of log ns i)))]"
      using ok r True upt_snoc_iff by blast
    then show ?thesis unfolding snoc length_append_singleton .
  next
    case False
    then show ?thesis using ok by (simp only: revs_of_snoc simp_thms if_False append_Nil2)
  qed
  then show "revs_ok (log @ [e])" unfolding revs_ok_def by blast
qed

lemma revs_ok_next: "revs_ok log \<Longrightarrow> next_rev log ns i = Suc (length (revs_of log ns i))"
proof -
  assume "revs_ok log"
  then have "fold max (revs_of log ns i) 0 = length (revs_of log ns i)"
    unfolding revs_ok_def using fold_max_upt by metis
  then show ?thesis by (simp add: next_rev_def revs_of_def)
qed

definition lc_key :: "changelog_row \<Rightarrow> string \<times> string \<times> nat" where
  "lc_key e = (cl_ns e, cl_id e, cl_rev e)"

lemma revs_of_mem: "rv \<in> set (revs_of log ns i) \<longleftrightarrow> (ns, i, rv) \<in> set (map lc_key log)"
  by (auto simp: revs_of_def lc_key_def)

lemma revs_ok_mem: "revs_ok log \<Longrightarrow> (ns, i, rv) \<in> set (map lc_key log) \<longleftrightarrow> 1 \<le> rv \<and> rv \<le> length (revs_of log ns i)"
proof -
  assume "revs_ok log"
  then have "set (revs_of log ns i) = set [1..<Suc (length (revs_of log ns i))]"
    unfolding revs_ok_def by metis
  then show ?thesis unfolding revs_of_mem [symmetric] by (auto simp: less_Suc_eq_le)
qed

lemma revs_ok_fresh: "revs_ok log \<Longrightarrow> (ns, i, next_rev log ns i) \<notin> set (map lc_key log)"
  by (simp add: revs_ok_mem revs_ok_next del: set_map)

lemma revs_ok_distinct: "revs_ok log \<Longrightarrow> distinct (map lc_key log)"
proof (induction log rule: rev_induct)
  case (snoc e log)
  then have "revs_ok log" and "cl_rev e = next_rev log (cl_ns e) (cl_id e)"
    by (simp_all add: revs_ok_snoc revs_ok_next)
  then have "lc_key e \<notin> set (map lc_key log)"
    using revs_ok_fresh by (simp add: lc_key_def)
  then show ?case using snoc \<open>revs_ok log\<close> by simp
qed simp

section \<open>The invariant\<close>

definition fx_key :: "fts_row \<Rightarrow> string \<times> string \<times> nat" where
  "fx_key f = (fx_ns f, fx_id f, fx_rev f)"

definition kc :: "obj_row \<Rightarrow> (string \<times> string \<times> nat) \<times> string" where
  "kc r = (ow_key r, ow_cid r)"

definition lc :: "changelog_row \<Rightarrow> (string \<times> string \<times> nat) \<times> string" where
  "lc e = (lc_key e, cl_cid e)"

definition log_ok :: "crypto \<Rightarrow> changelog_row list \<Rightarrow> bool" where
  "log_ok c log \<longleftrightarrow> vlog.walk c 0 GENESIS_HASH log \<and> list_all cl_clean log \<and> revs_ok log"

definition blobs_ok :: "crypto \<Rightarrow> (string, string) jsmap \<Rightarrow> bool" where
  "blobs_ok c m \<longleftrightarrow> distinct (map_keys m) \<and> (\<forall>k t. map_get m k = Some t \<longrightarrow>
     CID_RE k \<and> k = sha256Hex c t \<and> (\<exists>d. json_parse t = Some d \<and> storable d))"

lemma storable_norm: "storable d \<Longrightarrow> storable (json_norm d)"
  by (induction d rule: json_norm.induct) (auto simp: list_all_iff set_defined_fields)

definition row_ok :: "(string, string) jsmap \<Rightarrow> obj_row \<Rightarrow> bool" where
  "row_ok m r \<longleftrightarrow> map_has m (ow_cid r) \<and> (\<exists>x. parseEnvelope (ow_meta r) = Inr x)"

definition newest_hot :: "vault \<Rightarrow> bool" where
  "newest_hot v \<longleftrightarrow> (\<forall>r\<in>set (map fst (v_cold v)). \<exists>q\<in>set (v_objects v).
     ow_ns q = ow_ns r \<and> ow_id q = ow_id r \<and> ow_rev r < ow_rev q)"

definition fts_ok :: "vault \<Rightarrow> bool" where
  "fts_ok v \<longleftrightarrow> mset (map fx_key (v_fts v)) = mset (map ow_key (v_objects v))"

definition vault_ok :: "crypto \<Rightarrow> vault \<Rightarrow> bool" where
  "vault_ok c v \<longleftrightarrow> log_ok c (v_log v) \<and> mset (map kc (all_rows v)) = mset (map lc (v_log v)) \<and>
     blobs_ok c (v_cas v) \<and> list_all (row_ok (v_cas v)) (all_rows v) \<and> newest_hot v \<and> fts_ok v"

lemma vault_okD:
  assumes "vault_ok c v"
  shows "log_ok c (v_log v)" and "mset (map kc (all_rows v)) = mset (map lc (v_log v))"
    and "blobs_ok c (v_cas v)" and "list_all (row_ok (v_cas v)) (all_rows v)"
    and "newest_hot v" and "fts_ok v"
  using assms by (auto simp: vault_ok_def)

lemma vault_ok_empty: "vault_ok c empty_vault"
  by (simp add: vault_ok_def empty_vault_def log_ok_def revs_ok_def revs_of_def blobs_ok_def all_rows_def
      newest_hot_def fts_ok_def)

lemma map_fst_kc: "map ow_key rows = map fst (map kc rows)"
  by (simp add: kc_def comp_def)

lemma map_fst_lc: "map lc_key log = map fst (map lc log)"
  by (simp add: lc_def comp_def)

lemma vault_keys:
  assumes "vault_ok c v"
  shows "mset (map ow_key (all_rows v)) = mset (map lc_key (v_log v))"
  unfolding map_fst_kc map_fst_lc using vault_okD(2) [OF assms] by (metis mset_map)

lemma vault_keys_distinct: "vault_ok c v \<Longrightarrow> distinct (map ow_key (all_rows v))"
  using vault_keys vault_okD(1) revs_ok_distinct unfolding log_ok_def by (metis mset_eq_imp_distinct_iff)

lemma vault_rev_bound:
  assumes "vault_ok c v" and "r \<in> set (all_rows v)"
  shows "1 \<le> ow_rev r \<and> ow_rev r < next_rev (v_log v) (ow_ns r) (ow_id r)"
proof -
  have "ow_key r \<in> set (map lc_key (v_log v))"
    using vault_keys [OF assms(1)] assms(2) by (metis image_eqI list.set_map set_mset_mset)
  moreover have "revs_ok (v_log v)" using vault_okD(1) [OF assms(1)] by (simp add: log_ok_def)
  ultimately show ?thesis by (simp add: ow_key_def revs_ok_mem revs_ok_next del: set_map)
qed

section \<open>Append keeps the invariant\<close>

text \<open>What is relied on of \<open>createHash("sha256").digest("hex")\<close>: 64 hexadecimal digits. And a digest with
  that shape, for the witnesses.\<close>

definition sha_hex :: "crypto \<Rightarrow> bool" where
  "sha_hex c \<longleftrightarrow> (\<forall>t. CID_RE (sha256Hex c t))"

definition hex_hash :: "string \<Rightarrow> string" where
  "hex_hash t = pad_zero 64 (show_base 16 (foldl (\<lambda>a ch. (a * 257 + of_char ch + 1) mod 16 ^ 64) 0 t))"

definition hex_crypto :: crypto where
  "hex_crypto = toy_crypto\<lparr>cr_sha := hex_hash\<rparr>"

lemma CID_RE_hex: "n < 16 ^ 64 \<Longrightarrow> CID_RE (pad_zero 64 (show_base 16 n))"
proof -
  assume "n < 16 ^ 64"
  then have "length (show_base 16 n) \<le> 64" by (intro show_base_length) auto
  moreover have "digit_val ch \<noteq> None" if "ch \<in> set (show_base 16 n)" for ch
    using show_base_digits [OF _ _ that] by auto
  moreover have "digit_val (CHR ''0'') \<noteq> None" by (simp add: digit_val_def)
  ultimately show ?thesis
    by (auto simp: CID_RE_def length_pad_zero list_all_iff pad_zero_def)
qed

lemma hex_crypto_hex: "sha_hex hex_crypto"
proof -
  have "foldl (\<lambda>a ch. (a * 257 + of_char ch + 1) mod 16 ^ 64) 0 t < (16 :: nat) ^ 64" for t
    by (induction t rule: rev_induct) simp_all
  then show ?thesis
    unfolding sha_hex_def sha256Hex_def hex_crypto_def by (simp add: CID_RE_hex hex_hash_def)
qed

lemma CID_RE_no_bar: "CID_RE s \<Longrightarrow> no_bar s"
proof -
  have "digit_val (CHR ''|'') = None" by (simp add: digit_val_def)
  then show "CID_RE s \<Longrightarrow> no_bar s" by (auto simp: CID_RE_def no_bar_def list_all_iff)
qed

definition input_ok :: "append_input \<Rightarrow> bool" where
  "input_ok a \<longleftrightarrow> no_bar (ai_ns a) \<and> no_bar (ai_id a) \<and> no_bar (ai_causationId a) \<and> storable (ai_data a)"

lemma parse_ref_json: "parse_ref (ref_json r) = Inr r"
  by (simp add: parse_ref_def ref_json_def)

lemma parseEnvelope_of:
  "parseEnvelope (envelopeOf m refs) = Inr (if m = JUndefined then JNull else m, refs)"
proof -
  have "res_map parse_ref (map ref_json refs) = Inr refs"
    by (induction refs) (simp_all add: parse_ref_json)
  then show ?thesis by (simp add: parseEnvelope_def envelopeOf_def res_bind_def)
qed

lemma casPut_Inr:
  assumes "sha_hex c" and "canonicalJson d = Inr t"
  shows "casPut c m d = Inr (if map_has m (sha256Hex c t) then m else map_set (sha256Hex c t) t m, sha256Hex c t)"
  using assms by (simp add: casPut_def casPath_def sha_hex_def res_bind_def Let_def)

lemma blobs_ok_put:
  assumes "sha_hex c" and "canonicalJson d = Inr t" and "blobs_ok c m"
  shows "blobs_ok c (if map_has m (sha256Hex c t) then m else map_set (sha256Hex c t) t m)"
  using assms parse_canonical [OF assms(2)] storable_norm [of d] canonical_total [of d]
  by (auto simp: blobs_ok_def sha_hex_def distinct_update simp del: map_of_eq_Some_iff)

lemma row_ok_mono:
  assumes "\<And>k. map_has m k \<Longrightarrow> map_has m' k" and "row_ok m r"
  shows "row_ok m' r"
  using assms(1) [of "ow_cid r"] assms(2) unfolding row_ok_def by blast

lemma bodyText_total: "canonicalJson d = Inr t \<Longrightarrow> \<exists>b. bodyText d = Inr b"
  by (cases d) (simp_all add: bodyText_def)

text \<open>The state after an append that goes through.\<close>

definition appended :: "crypto \<Rightarrow> vault \<Rightarrow> append_input \<Rightarrow> string \<Rightarrow> string \<Rightarrow> vault" where
  "appended c v a t b =
     (let cid = sha256Hex c t; rv = next_rev (v_log v) (ai_ns a) (ai_id a) in
      v\<lparr>v_cas := (if map_has (v_cas v) cid then v_cas v else map_set cid t (v_cas v)),
        v_objects := v_objects v @ [\<lparr>ow_ns = ai_ns a, ow_id = ai_id a, ow_rev = rv, ow_cid = cid,
                                     ow_meta = envelopeOf (ai_meta a) (ai_refs a)\<rparr>],
        v_fts := fts_insert (v_fts v) (ai_ns a) (ai_id a) rv b,
        v_log := fst (appendChangelogEntry c (v_log v) (ai_causationId a) (ai_ns a) (ai_id a) rv cid)\<rparr>)"

lemma log_ok_append:
  assumes "log_ok c log" and "no_bar ca" and "no_bar ns" and "no_bar i" and "no_bar cid"
  shows "log_ok c (fst (appendChangelogEntry c log ca ns i (next_rev log ns i) cid)) \<and>
    snd (appendChangelogEntry c log ca ns i (next_rev log ns i) cid) = length log + 1"
proof -
  have w: "vlog.walk c 0 GENESIS_HASH log" and r: "revs_ok log" and cl: "list_all cl_clean log"
    using assms(1) by (auto simp: log_ok_def)
  let ?e = "\<lparr>cl_seq = length log + 1, cl_causationId = ca, cl_ns = ns, cl_id = i, cl_rev = next_rev log ns i, cl_cid = cid,
      cl_entry_hash = entryHash c (length log + 1) ca ns i (next_rev log ns i) cid (chainHead log), cl_prev_hash = chainHead log\<rparr>"
  have app: "appendChangelogEntry c log ca ns i (next_rev log ns i) cid = (log @ [?e], length log + 1)"
    by (simp add: appendChangelogEntry_def walk_next_seq [OF w] Let_def)
  have "vlog.walk c 0 GENESIS_HASH (log @ [?e])"
    using w walk_chainHead [OF w]
    by (simp add: vlog.walk_snoc cl_entry_ok_def cl_text_def entryHash_def)
  moreover have "revs_ok (log @ [?e])" using r by (simp add: revs_ok_snoc revs_ok_next)
  moreover have "cl_clean ?e" using assms by (simp add: cl_clean_def)
  ultimately show ?thesis using cl by (simp add: app log_ok_def)
qed

lemma appendObject_ok:
  assumes "sha_hex c" and "vault_ok c v" and "input_ok a"
  obtains t b where "canonicalJson (ai_data a) = Inr t" and "bodyText (ai_data a) = Inr b"
    and "appendObject c v a = (Inr \<lparr>ap_rev = next_rev (v_log v) (ai_ns a) (ai_id a), ap_cid = sha256Hex c t,
      ap_seq = length (v_log v) + 1\<rparr>, appended c v a t b)"
    and "vault_ok c (appended c v a t b)"
proof -
  obtain t where t: "canonicalJson (ai_data a) = Inr t"
    using assms(3) canonical_total by (auto simp: input_ok_def)
  obtain b where b: "bodyText (ai_data a) = Inr b" using bodyText_total [OF t] by blast
  let ?cid = "sha256Hex c t" and ?rv = "next_rev (v_log v) (ai_ns a) (ai_id a)"
  let ?m = "if map_has (v_cas v) ?cid then v_cas v else map_set ?cid t (v_cas v)"
  let ?row = "\<lparr>ow_ns = ai_ns a, ow_id = ai_id a, ow_rev = ?rv, ow_cid = ?cid, ow_meta = envelopeOf (ai_meta a) (ai_refs a)\<rparr>"
  note D = vault_okD [OF assms(2)]
  have names: "no_bar (ai_causationId a)" "no_bar (ai_ns a)" "no_bar (ai_id a)" "no_bar ?cid"
    using assms(1,3) by (auto simp: input_ok_def sha_hex_def CID_RE_no_bar)
  note log = log_ok_append [OF D(1) names]
  have fresh: "ow_key ?row \<notin> set (map ow_key (v_objects v))"
  proof
    assume "ow_key ?row \<in> set (map ow_key (v_objects v))"
    then obtain q where "q \<in> set (v_objects v)" "ow_key ?row = ow_key q" unfolding set_map by blast
    then have "q \<in> set (all_rows v)" "ow_key q = ow_key ?row" by (simp_all add: all_rows_def)
    then show False using vault_rev_bound [OF assms(2), of q] by (simp add: ow_key_def)
  qed
  have run: "appendObject c v a = (Inr \<lparr>ap_rev = ?rv, ap_cid = ?cid, ap_seq = length (v_log v) + 1\<rparr>, appended c v a t b)"
    using fresh log
    by (simp add: appendObject_def casPut_Inr [OF assms(1) t] b appended_def Let_def split_def del: set_map)
  have rows: "all_rows (appended c v a t b) = v_objects v @ ?row # map fst (v_cold v)"
    by (simp add: all_rows_def appended_def Let_def)
  have "mset (map kc (all_rows (appended c v a t b))) = add_mset (kc ?row) (mset (map kc (all_rows v)))"
    unfolding rows by (simp add: all_rows_def)
  moreover have "v_log (appended c v a t b) = v_log v @
      [last (fst (appendChangelogEntry c (v_log v) (ai_causationId a) (ai_ns a) (ai_id a) ?rv ?cid))] \<and>
      lc (last (fst (appendChangelogEntry c (v_log v) (ai_causationId a) (ai_ns a) (ai_id a) ?rv ?cid))) = kc ?row"
    by (simp add: appended_def appendChangelogEntry_def Let_def lc_def lc_key_def kc_def ow_key_def)
  ultimately have ms: "mset (map kc (all_rows (appended c v a t b))) = mset (map lc (v_log (appended c v a t b)))"
    using D(2) by simp
  have "list_all (row_ok ?m) (all_rows v)"
    using D(4) by (auto simp: list_all_iff intro: row_ok_mono [rotated])
  moreover have "row_ok ?m ?row" by (auto simp: row_ok_def parseEnvelope_of)
  ultimately have "list_all (row_ok (v_cas (appended c v a t b))) (all_rows (appended c v a t b))"
    unfolding rows by (simp add: all_rows_def) (simp add: appended_def Let_def)
  moreover have "newest_hot (appended c v a t b)"
    using D(5) by (auto simp: newest_hot_def appended_def Let_def)
  moreover have "fts_ok (appended c v a t b)"
    using D(6) by (simp add: fts_ok_def appended_def fts_insert_def fx_key_def ow_key_def Let_def)
  moreover have "blobs_ok c (v_cas (appended c v a t b))"
    using blobs_ok_put [OF assms(1) t D(3)] by (simp add: appended_def Let_def)
  moreover have "log_ok c (v_log (appended c v a t b))"
    using log by (simp add: appended_def Let_def)
  ultimately have "vault_ok c (appended c v a t b)" using ms by (simp add: vault_ok_def)
  with t b run show thesis by (rule that)
qed

section \<open>A sound vault verifies\<close>

lemma blob_probe_all: "list_all (casHas (v_cas v)) cids \<Longrightarrow> blob_probe v cids n at = (n, at)"
  by (induction cids arbitrary: n at) auto

lemma vault_verifies:
  assumes "vault_ok c v"
  shows "verify c v = \<lparr>vr_ok = True, vr_headHash = vlog.head c GENESIS_HASH (v_log v), vr_entries = length (v_log v),
    vr_corruptAt = None, vr_detail = None\<rparr>"
proof -
  note D = vault_okD [OF assms]
  have w: "vlog.walk c 0 GENESIS_HASH (v_log v)" using D(1) by (simp add: log_ok_def)
  then have rows: "log_rows v = v_log v" by (simp add: log_rows_def walk_sorted)
  have "snd (verify_walk c 0 GENESIS_HASH (v_log v)) = None"
    and "fst (verify_walk c 0 GENESIS_HASH (v_log v)) = vlog.head c GENESIS_HASH (v_log v)"
    using verify_walk_iff [of c 0 GENESIS_HASH "v_log v"] w by simp_all
  then have walk: "verify_walk c 0 GENESIS_HASH (v_log v) = (vlog.head c GENESIS_HASH (v_log v), None)"
    by (simp add: prod_eq_iff)
  have "has_revision v (cl_ns e) (cl_id e) (cl_rev e)" if "e \<in> set (v_log v)" for e
  proof -
    have "lc_key e \<in> set (map ow_key (all_rows v))"
      using vault_keys [OF assms] that by (metis image_eqI list.set_map set_mset_mset)
    then show ?thesis
      by (auto simp: has_revision_def list_ex_iff row_at_def lc_key_def ow_key_def)
  qed
  then have at2: "find (\<lambda>e. \<not> has_revision v (cl_ns e) (cl_id e) (cl_rev e)) (v_log v) = None"
    by (auto simp: find_None_iff)
  have "casHas (v_cas v) (ow_cid r)" if "r \<in> set (all_rows v)" for r
  proof -
    have "map_has (v_cas v) (ow_cid r)" using D(4) that by (auto simp: list_all_iff row_ok_def)
    moreover then have "CID_RE (ow_cid r)" using D(3) unfolding blobs_ok_def by blast
    ultimately show ?thesis by (simp add: casHas_def casPath_def)
  qed
  then have "list_all (casHas (v_cas v)) (sort (uniq (map ow_cid (all_rows v))))"
    by (auto simp: list_all_iff)
  then show ?thesis
    by (simp add: verify_def rows walk at2 blob_probe_all Let_def)
qed

end
