(* ===== verification/Vault_Compaction.thy ===== *)
theory Vault_Compaction
  imports Vault_Invariant
begin

text \<open>
  What compaction does: which revisions it moves, that it only ever moves superseded and unprotected
  ones, and that nothing readable changes.
\<close>

section \<open>The loops\<close>

definition unprotected :: "string \<Rightarrow> string \<Rightarrow> ref list \<Rightarrow> nat list \<Rightarrow> nat list" where
  "unprotected ns i prot rvs = filter (\<lambda>rv. \<lparr>rf_ns = ns, rf_id = i, rf_rev = int rv\<rparr> \<notin> set prot) rvs"

definition untouched :: "string \<Rightarrow> (string \<times> nat) set \<Rightarrow> obj_row \<Rightarrow> bool" where
  "untouched ns T r \<longleftrightarrow> \<not> (ow_ns r = ns \<and> (ow_id r, ow_rev r) \<in> T)"

definition st_rows :: "compact_state \<Rightarrow> obj_row list" where
  "st_rows st = cs_objects st @ map fst (cs_cold st)"

text \<open>One state after another: the targets added, the rows that stay hot, all rows a permutation.\<close>

definition moves :: "string \<Rightarrow> (string \<times> nat) list \<Rightarrow> compact_state \<Rightarrow> compact_state \<Rightarrow> bool" where
  "moves ns ts st st' \<longleftrightarrow> cs_targets st' = cs_targets st @ ts \<and>
     cs_objects st' = filter (untouched ns (set ts)) (cs_objects st) \<and>
     mset (st_rows st') = mset (st_rows st) \<and> cs_moved st' = cs_moved st + length ts"

lemma moves_refl: "cs_targets st' = cs_targets st \<Longrightarrow> cs_objects st' = cs_objects st \<Longrightarrow> cs_cold st' = cs_cold st \<Longrightarrow>
    cs_moved st' = cs_moved st \<Longrightarrow> moves ns [] st st'"
  by (simp add: moves_def untouched_def st_rows_def)

lemma moves_trans: "moves ns ts st st1 \<Longrightarrow> moves ns us st1 st2 \<Longrightarrow> moves ns (ts @ us) st st2"
proof -
  have "untouched ns (set us) r \<and> untouched ns (set ts) r \<longleftrightarrow> untouched ns (set (ts @ us)) r" for r
    by (auto simp: untouched_def)
  then show "moves ns ts st st1 \<Longrightarrow> moves ns us st1 st2 \<Longrightarrow> moves ns (ts @ us) st st2"
    by (auto simp: moves_def conj_commute intro!: filter_cong)
qed

lemma moves_distinct:
  "moves ns ts st st' \<Longrightarrow> distinct (map ow_key (st_rows st)) \<Longrightarrow> distinct (map ow_key (st_rows st'))"
  by (metis moves_def mset_eq_imp_distinct_iff mset_map)

lemma mset_filter_split: "mset (filter (\<lambda>r. \<not> P r) xs @ filter P xs) = mset xs"
  by (induction xs) auto

lemma move_row_ok:
  assumes "distinct (map ow_key (st_rows st))"
  shows "\<exists>st'. move_row now ns i rv st = Inr st' \<and> moves ns [(i, rv)] st st' \<and> cs_kept st' = cs_kept st"
proof -
  let ?P = "row_at ns i rv"
  have "\<not> (filter ?P (cs_objects st) \<noteq> [] \<and> list_ex (\<lambda>(q, _). ?P q) (cs_cold st))"
  proof
    assume "filter ?P (cs_objects st) \<noteq> [] \<and> list_ex (\<lambda>(q, _). ?P q) (cs_cold st)"
    then obtain r q where "r \<in> set (cs_objects st)" "?P r" "q \<in> set (map fst (cs_cold st))" "?P q"
      by (fastforce simp: filter_empty_conv list_ex_iff)
    then have "ow_key r = ow_key q" by (simp add: row_at_def ow_key_def)
    then have "ow_key q \<in> ow_key ` set (cs_objects st)" "ow_key q \<in> ow_key ` set (map fst (cs_cold st))"
      using \<open>r \<in> _\<close> \<open>q \<in> _\<close> by (metis image_eqI)+
    then show False using assms unfolding st_rows_def map_append distinct_append by auto
  qed
  then have run: "move_row now ns i rv st = Inr (st\<lparr>cs_cold := cs_cold st @ map (\<lambda>r. (r, now)) (filter ?P (cs_objects st)),
      cs_objects := filter (\<lambda>r. \<not> ?P r) (cs_objects st),
      cs_targets := cs_targets st @ [(i, rv)], cs_moved := cs_moved st + 1\<rparr>)" (is "_ = Inr ?st")
    by (simp only: move_row_def Let_def if_False)
  have "mset (st_rows ?st) = mset (filter (\<lambda>r. \<not> ?P r) (cs_objects st) @ filter ?P (cs_objects st)) + mset (map fst (cs_cold st))"
    by (simp add: st_rows_def comp_def)
  then have "mset (st_rows ?st) = mset (st_rows st)"
    unfolding mset_filter_split by (simp add: st_rows_def)
  moreover have "filter (\<lambda>r. \<not> ?P r) (cs_objects st) = filter (untouched ns (set [(i, rv)])) (cs_objects st)"
    by (rule filter_cong) (auto simp: row_at_def untouched_def)
  ultimately have "moves ns [(i, rv)] st ?st" by (simp add: moves_def)
  with run show ?thesis by auto
qed

lemma compact_revs_ok:
  assumes "distinct (map ow_key (st_rows st))"
  shows "\<exists>st'. compact_revs now ns prot i rvs st = Inr st' \<and> moves ns (map (Pair i) (unprotected ns i prot rvs)) st st' \<and>
    cs_kept st' + length (unprotected ns i prot rvs) = cs_kept st + length rvs \<and>
    cs_protected st' + length (unprotected ns i prot rvs) = cs_protected st + length rvs"
  using assms
proof (induction rvs arbitrary: st)
  case Nil
  then show ?case by (auto simp: unprotected_def intro!: moves_refl)
next
  case (Cons rv rvs)
  show ?case
  proof (cases "\<lparr>rf_ns = ns, rf_id = i, rf_rev = int rv\<rparr> \<in> set prot")
    case True
    let ?st = "st\<lparr>cs_kept := cs_kept st + 1, cs_protected := cs_protected st + 1\<rparr>"
    have "moves ns [] st ?st" by (rule moves_refl) simp_all
    moreover have "distinct (map ow_key (st_rows ?st))" using Cons.prems by (simp add: st_rows_def)
    ultimately show ?thesis
      using Cons.IH [of ?st] True by (auto simp: unprotected_def dest: moves_trans)
  next
    case False
    obtain st1 where st1: "move_row now ns i rv st = Inr st1" "moves ns [(i, rv)] st st1" "cs_kept st1 = cs_kept st"
      using move_row_ok [OF Cons.prems] by blast
    moreover have "cs_protected st1 = cs_protected st"
      using st1(1) by (auto simp: move_row_def Let_def split: if_splits)
    ultimately show ?thesis
      using Cons.IH [OF moves_distinct [OF st1(2) Cons.prems]] False
      by (auto simp: unprotected_def res_bind_def dest: moves_trans [OF st1(2)])
  qed
qed

definition superseded :: "nat \<Rightarrow> nat list \<Rightarrow> nat list" where
  "superseded keep revs = take (length revs - keep) revs"

definition all_targets :: "string \<Rightarrow> nat \<Rightarrow> ref list \<Rightarrow> (string, nat list) jsmap \<Rightarrow> (string \<times> nat) list" where
  "all_targets ns keep prot m =
     concat (map (\<lambda>(i, revs). map (Pair i) (unprotected ns i prot (superseded keep revs))) m)"

lemma compact_ids_ok:
  assumes "distinct (map ow_key (st_rows st))"
  shows "\<exists>st'. compact_ids now ns keep prot m st = Inr st' \<and> moves ns (all_targets ns keep prot m) st st' \<and>
    cs_kept st' + length (all_targets ns keep prot m) = cs_kept st + sum_list (map (length \<circ> snd) m)"
  using assms
proof (induction m arbitrary: st)
  case Nil
  then show ?case by (auto simp: all_targets_def intro!: moves_refl)
next
  case (Cons ir m)
  obtain i revs where ir: "ir = (i, revs)" by (cases ir)
  let ?st = "st\<lparr>cs_kept := cs_kept st + length (drop (length revs - keep) revs)\<rparr>"
  let ?U = "unprotected ns i prot (superseded keep revs)"
  have m0: "moves ns [] st ?st" by (rule moves_refl) simp_all
  have d0: "distinct (map ow_key (st_rows ?st))" using Cons.prems by (simp add: st_rows_def)
  obtain st1 where st1: "compact_revs now ns prot i (superseded keep revs) ?st = Inr st1" "moves ns (map (Pair i) ?U) ?st st1"
    "cs_kept st1 + length ?U = cs_kept ?st + length (superseded keep revs)"
    using compact_revs_ok [OF d0] by blast
  have m1: "moves ns (map (Pair i) ?U) st st1" using moves_trans [OF m0 st1(2)] by simp
  obtain st2 where st2: "compact_ids now ns keep prot m st1 = Inr st2" "moves ns (all_targets ns keep prot m) st1 st2"
    "cs_kept st2 + length (all_targets ns keep prot m) = cs_kept st1 + sum_list (map (length \<circ> snd) m)"
    using Cons.IH [OF moves_distinct [OF m1 Cons.prems]] by blast
  have "length (superseded keep revs) + length (drop (length revs - keep) revs) = length revs"
    by (simp add: superseded_def)
  then have "cs_kept st2 + length (all_targets ns keep prot (ir # m)) = cs_kept st + sum_list (map (length \<circ> snd) (ir # m))"
    using st1(3) st2(3) by (simp add: ir all_targets_def)
  moreover have "compact_ids now ns keep prot (ir # m) st = Inr st2"
    using st1(1) st2(1) by (simp add: ir res_bind_def superseded_def Let_def)
  moreover have "moves ns (all_targets ns keep prot (ir # m)) st st2"
    using moves_trans [OF m1 st2(2)] by (simp add: ir all_targets_def)
  ultimately show ?case by blast
qed

section \<open>The groups\<close>

lemma group_get:
  "map_get (fold (\<lambda>r m. map_set (ow_id r) ((case map_get m (ow_id r) of Some l \<Rightarrow> l | None \<Rightarrow> []) @ [ow_rev r]) m) rows m) i =
     (case map_get m i of
        Some l \<Rightarrow> Some (l @ map ow_rev (filter (\<lambda>r. ow_id r = i) rows))
      | None \<Rightarrow> if filter (\<lambda>r. ow_id r = i) rows = [] then None else Some (map ow_rev (filter (\<lambda>r. ow_id r = i) rows)))"
  by (induction rows arbitrary: m) (auto split: option.splits)

lemma group_distinct: "distinct (map_keys (group_revs rows))"
proof -
  have "distinct (map_keys m) \<Longrightarrow> distinct (map_keys (fold (\<lambda>r m. map_set (ow_id r) ((case map_get m (ow_id r) of Some l \<Rightarrow> l | None \<Rightarrow> []) @ [ow_rev r]) m) rows m))" for m
    by (induction rows arbitrary: m) (simp_all add: distinct_update)
  then show ?thesis by (simp add: group_revs_def)
qed

lemma group_mem:
  "(i, revs) \<in> set (group_revs rows) \<longleftrightarrow>
     revs = map ow_rev (filter (\<lambda>r. ow_id r = i) rows) \<and> filter (\<lambda>r. ow_id r = i) rows \<noteq> []"
proof -
  have "(i, revs) \<in> set (group_revs rows) \<longleftrightarrow> map_get (group_revs rows) i = Some revs"
    using group_distinct by (simp add: map_of_eq_Some_iff)
  then show ?thesis unfolding group_revs_def group_get by auto
qed

definition hot_revs :: "vault \<Rightarrow> string \<Rightarrow> string \<Rightarrow> nat list" where
  "hot_revs v ns i = sort (map ow_rev (rows_of ns i (v_objects v)))"

definition ordered_rows :: "vault \<Rightarrow> string \<Rightarrow> obj_row list" where
  "ordered_rows v ns = sort_key ow_id (sort_key ow_rev (filter (\<lambda>r. ow_ns r = ns) (v_objects v)))"

lemma map_sort_key: "map f (sort_key f xs) = sort (map f xs)"
proof (induction xs)
  case (Cons x xs)
  have "map f (insort_key f x ys) = insort (f x) (map f ys)" for ys by (induction ys) auto
  with Cons show ?case by simp
qed simp

lemma filter_id_rows:
  "filter (\<lambda>r. ow_id r = i) (ordered_rows v ns) = sort_key ow_rev (rows_of ns i (v_objects v))"
  by (simp add: ordered_rows_def sort_key_stable filter_sort rows_of_def conj_commute)

lemma group_hot:
  "(i, revs) \<in> set (group_revs (ordered_rows v ns)) \<longleftrightarrow>
     revs = hot_revs v ns i \<and> rows_of ns i (v_objects v) \<noteq> []"
proof -
  have "sort_key ow_rev (rows_of ns i (v_objects v)) = [] \<longleftrightarrow> rows_of ns i (v_objects v) = []"
    by (metis set_sort set_empty)
  then show ?thesis unfolding group_mem filter_id_rows by (simp add: map_sort_key hot_revs_def)
qed

section \<open>What is moved\<close>

definition targets :: "vault \<Rightarrow> string \<Rightarrow> nat \<Rightarrow> ref list \<Rightarrow> (string \<times> nat) list" where
  "targets v ns keep prot = all_targets ns keep prot (group_revs (ordered_rows v ns))"

lemma targets_mem:
  "(i, rv) \<in> set (targets v ns keep prot) \<longleftrightarrow> rows_of ns i (v_objects v) \<noteq> [] \<and>
     rv \<in> set (superseded keep (hot_revs v ns i)) \<and> \<lparr>rf_ns = ns, rf_id = i, rf_rev = int rv\<rparr> \<notin> set prot"
proof -
  have "(i, rv) \<in> set (targets v ns keep prot) \<longleftrightarrow>
      (\<exists>revs. (i, revs) \<in> set (group_revs (ordered_rows v ns)) \<and> rv \<in> set (unprotected ns i prot (superseded keep revs)))"
    by (auto simp: targets_def all_targets_def)
  then show ?thesis unfolding group_hot by (auto simp: unprotected_def)
qed

lemma hot_distinct:
  assumes "vault_ok c v"
  shows "distinct (map ow_key (v_objects v))" and "distinct (hot_revs v ns i)" and "sorted (hot_revs v ns i)"
proof -
  show d: "distinct (map ow_key (v_objects v))"
    using vault_keys_distinct [OF assms] by (simp add: all_rows_def)
  have "inj_on ow_rev (set (rows_of ns i (v_objects v)))"
  proof (rule inj_onI)
    fix r q
    assume "r \<in> set (rows_of ns i (v_objects v))" and "q \<in> set (rows_of ns i (v_objects v))" and "ow_rev r = ow_rev q"
    then have "ow_key r = ow_key q" and "r \<in> set (v_objects v)" and "q \<in> set (v_objects v)"
      by (auto simp: rows_of_def ow_key_def)
    then show "r = q" using d by (meson distinct_map inj_onD)
  qed
  moreover have "distinct (rows_of ns i (v_objects v))"
    using d by (simp add: rows_of_def distinct_map)
  ultimately show "distinct (hot_revs v ns i)" by (simp add: hot_revs_def distinct_map)
  show "sorted (hot_revs v ns i)" by (simp add: hot_revs_def)
qed

lemma hot_revs_mem: "rv \<in> set (hot_revs v ns i) \<longleftrightarrow> (\<exists>r\<in>set (v_objects v). row_at ns i rv r)"
  by (auto simp: hot_revs_def rows_of_def row_at_def)

lemma superseded_less:
  assumes "sorted revs" and "distinct revs" and "1 \<le> keep" and "rv \<in> set (superseded keep revs)"
  shows "rv < last revs \<and> last revs \<in> set revs \<and> last revs \<notin> set (superseded keep revs)"
proof -
  let ?n = "length revs - keep"
  have tail: "drop ?n revs \<noteq> []" and "revs \<noteq> []"
    using assms(3,4) by (auto simp: superseded_def)
  then have last: "last revs \<in> set (drop ?n revs)"
    by (metis last_drop last_in_set drop_eq_Nil leI)
  have split: "take ?n revs @ drop ?n revs = revs" by simp
  have "rv \<in> set (take ?n revs)" using assms(4) by (simp add: superseded_def)
  then have "rv \<le> last revs" using assms(1) last split by (metis sorted_append)
  moreover have "last revs \<notin> set (take ?n revs)" using assms(2) last split by (metis distinct_append disjoint_iff)
  ultimately show ?thesis
    using \<open>rv \<in> set (take ?n revs)\<close> \<open>revs \<noteq> []\<close> by (auto simp: superseded_def order_le_less)
qed

lemma hot_survivor:
  assumes "vault_ok c v" and "1 \<le> keep" and "q \<in> set (v_objects v)"
    and "H = filter (untouched ns (set (targets v ns keep prot))) (v_objects v)"
  shows "\<exists>q'\<in>set H. ow_ns q' = ow_ns q \<and> ow_id q' = ow_id q \<and> ow_rev q \<le> ow_rev q' \<and> (q \<in> set H \<or> ow_rev q < ow_rev q')"
proof (cases "untouched ns (set (targets v ns keep prot)) q")
  case True
  then have "q \<in> set H" using assms(3,4) by simp
  then show ?thesis by (intro bexI [of _ q]) simp_all
next
  case False
  let ?i = "ow_id q" and ?revs = "hot_revs v ns (ow_id q)"
  from False have ns: "ow_ns q = ns" and "ow_rev q \<in> set (superseded keep ?revs)"
    unfolding untouched_def by (auto simp: targets_mem)
  then have less: "ow_rev q < last ?revs" "last ?revs \<in> set ?revs" "last ?revs \<notin> set (superseded keep ?revs)"
    using superseded_less [OF hot_distinct(3,2) assms(2)] assms(1) by blast+
  then obtain q' where q': "q' \<in> set (v_objects v)" "row_at ns ?i (last ?revs) q'"
    unfolding hot_revs_mem by blast
  then have "untouched ns (set (targets v ns keep prot)) q'"
    using less(3) by (auto simp: untouched_def row_at_def targets_mem)
  then have "q' \<in> set H" using q' assms(4) by simp
  moreover have "ow_ns q' = ow_ns q" "ow_id q' = ow_id q" "ow_rev q < ow_rev q'"
    using q'(2) ns less(1) by (auto simp: row_at_def)
  ultimately show ?thesis by (intro bexI [of _ q']) simp_all
qed

lemma liveRefs_total:
  assumes "vault_ok c v"
  shows "\<exists>prot. liveRefs v = Inr prot"
proof -
  have "\<exists>ys. res_map (\<lambda>r. parseEnvelope (ow_meta r)) (v_objects v) = Inr ys"
    using vault_okD(4) [OF assms] unfolding res_map_total by (auto simp: list_all_iff row_ok_def all_rows_def)
  then show ?thesis by (auto simp: liveRefs_def res_bind_def)
qed

lemma filter_key_mset:
  "mset (map k (filter (\<lambda>x. U (k x)) xs)) = filter_mset U (mset (map k xs))"
  by (induction xs) auto

lemma group_total:
  "sum_list (map (length \<circ> snd) (group_revs rows)) = length rows"
proof -
  have upd: "sum_list (map (length \<circ> snd) (map_set k (l @ [x]) m)) =
      Suc (sum_list (map (length \<circ> snd) m))"
    if "l = (case map_get m k of Some l \<Rightarrow> l | None \<Rightarrow> [])" for k l x and m :: "(string, nat list) jsmap"
    using that by (induction m) auto
  have "sum_list (map (length \<circ> snd) (fold (\<lambda>r m. map_set (ow_id r) ((case map_get m (ow_id r) of Some l \<Rightarrow> l | None \<Rightarrow> []) @ [ow_rev r]) m) rows m)) =
      length rows + sum_list (map (length \<circ> snd) m)" for m
    by (induction rows arbitrary: m) (simp_all add: upd)
  from this [of "[]"] show ?thesis by (simp add: group_revs_def)
qed

text \<open>The effect of a compaction on a sound vault.\<close>

lemma compact_effect:
  assumes "vault_ok c v" and "ns \<noteq> []" and "1 \<le> keep"
  obtains r v' prot where "liveRefs v = Inr prot" and "compact now v ns keep = (Inr r, v')"
    and "v_objects v' = filter (untouched ns (set (targets v ns (nat keep) prot))) (v_objects v)"
    and "mset (all_rows v') = mset (all_rows v)" and "v_log v' = v_log v" and "v_cas v' = v_cas v"
    and "cp_moved r = length (targets v ns (nat keep) prot)"
    and "cp_moved r + cp_kept r = length (filter (\<lambda>r. ow_ns r = ns) (v_objects v))"
    and "vault_ok c v'"
proof -
  note D = vault_okD [OF assms(1)]
  obtain prot where prot: "liveRefs v = Inr prot" using liveRefs_total [OF assms(1)] by blast
  let ?T = "targets v ns (nat keep) prot"
  let ?st0 = "\<lparr>cs_objects = v_objects v, cs_cold = v_cold v, cs_moved = 0, cs_kept = 0, cs_protected = 0, cs_targets = []\<rparr>"
  have "distinct (map ow_key (st_rows ?st0))"
    using vault_keys_distinct [OF assms(1)] by (simp add: st_rows_def all_rows_def)
  then obtain st where st: "compact_ids now ns (nat keep) prot (group_revs (ordered_rows v ns)) ?st0 = Inr st"
    "moves ns ?T ?st0 st" "cs_kept st + length ?T = sum_list (map (length \<circ> snd) (group_revs (ordered_rows v ns)))"
    using compact_ids_ok [of ?st0 now ns "nat keep" prot "group_revs (ordered_rows v ns)"] by (auto simp: targets_def)
  let ?v' = "v\<lparr>v_objects := cs_objects st, v_cold := cs_cold st, v_fts := ftsDeleteMany (v_fts v) ns (cs_targets st)\<rparr>"
  have run: "compact now v ns keep =
      (Inr \<lparr>cp_moved = cs_moved st, cp_kept = cs_kept st, cp_protected = cs_protected st\<rparr>, ?v')"
    using assms(2,3) prot st(1) by (simp add: compact_def ordered_rows_def Let_def)
  have hot: "cs_objects st = filter (untouched ns (set ?T)) (v_objects v)" and tg: "cs_targets st = ?T"
    and moved: "cs_moved st = length ?T" and ms: "mset (st_rows st) = mset (all_rows v)"
    using st(2) by (auto simp: moves_def st_rows_def all_rows_def)
  have rows: "all_rows ?v' = st_rows st" by (simp add: all_rows_def st_rows_def)
  have mset': "mset (all_rows ?v') = mset (all_rows v)" by (simp only: rows ms)
  then have set': "set (all_rows ?v') = set (all_rows v)" by (metis set_mset_mset)
  have "length (ordered_rows v ns) = length (filter (\<lambda>r. ow_ns r = ns) (v_objects v))" by (simp add: ordered_rows_def)
  then have total: "cs_moved st + cs_kept st = length (filter (\<lambda>r. ow_ns r = ns) (v_objects v))"
    using st(3) moved by (simp add: group_total)
  have kcs: "mset (map kc (all_rows ?v')) = mset (map lc (v_log ?v'))"
    using D(2) mset' by (metis mset_map simps(3) vault.select_convs(3) vault.surjective vault.update_convs(1,2,4))
  have fts: "fts_ok ?v'"
  proof -
    let ?U = "\<lambda>k. \<not> (fst k = ns \<and> snd k \<in> set ?T)"
    have "map fx_key (ftsDeleteMany (v_fts v) ns ?T) = map fx_key (filter (\<lambda>f. ?U (fx_key f)) (v_fts v))"
      by (simp add: ftsDeleteMany_def fx_key_def)
    moreover have "filter (untouched ns (set ?T)) (v_objects v) = filter (\<lambda>r. ?U (ow_key r)) (v_objects v)"
      by (rule filter_cong) (auto simp: untouched_def ow_key_def)
    ultimately have "mset (map fx_key (ftsDeleteMany (v_fts v) ns ?T)) = filter_mset ?U (mset (map fx_key (v_fts v)))"
      and "mset (map ow_key (filter (untouched ns (set ?T)) (v_objects v))) = filter_mset ?U (mset (map ow_key (v_objects v)))"
      by (simp_all only: filter_key_mset [of _ ?U])
    moreover have "mset (map fx_key (v_fts v)) = mset (map ow_key (v_objects v))"
      using D(6) by (simp only: fts_ok_def)
    ultimately show ?thesis by (simp add: fts_ok_def hot tg del: mset_map)
  qed
  have "newest_hot ?v'"
    unfolding newest_hot_def
  proof
    fix r
    assume r: "r \<in> set (map fst (v_cold ?v'))"
    then have "r \<in> set (all_rows v)" using set' by (auto simp: all_rows_def)
    have out: "r \<notin> set (v_objects ?v')"
    proof
      assume "r \<in> set (v_objects ?v')"
      moreover have "distinct (map ow_key (all_rows ?v'))"
        using vault_keys_distinct [OF assms(1)] mset' by (metis mset_eq_imp_distinct_iff mset_map)
      ultimately have "ow_key r \<in> set (map ow_key (v_objects ?v')) \<inter> set (map ow_key (map fst (v_cold ?v')))"
        and "set (map ow_key (v_objects ?v')) \<inter> set (map ow_key (map fst (v_cold ?v'))) = {}"
        using r unfolding all_rows_def map_append distinct_append set_map [of ow_key] by blast+
      then show False by blast
    qed
    have H: "v_objects ?v' = filter (untouched ns (set ?T)) (v_objects v)" by (simp add: hot)
    have k1: "1 \<le> nat keep" using assms(3) by simp
    show "\<exists>q\<in>set (v_objects ?v'). ow_ns q = ow_ns r \<and> ow_id q = ow_id r \<and> ow_rev r < ow_rev q"
    proof (cases "r \<in> set (v_objects v)")
      case True
      from hot_survivor [OF assms(1) k1 True H] out show ?thesis by blast
    next
      case False
      then have "r \<in> set (map fst (v_cold v))" using \<open>r \<in> set (all_rows v)\<close> by (simp add: all_rows_def)
      then obtain q where q: "q \<in> set (v_objects v)" "ow_ns q = ow_ns r" "ow_id q = ow_id r" "ow_rev r < ow_rev q"
        using D(5) unfolding newest_hot_def by blast
      from hot_survivor [OF assms(1) k1 q(1) H] q(2-4) show ?thesis by (metis order_less_le_trans)
    qed
  qed
  moreover have "list_all (row_ok (v_cas ?v')) (all_rows ?v')"
    unfolding list_all_iff set' using D(4) by (simp add: list_all_iff)
  ultimately have "vault_ok c ?v'" using D fts kcs by (simp add: vault_ok_def)
  then show thesis
    by (intro that [OF prot run] mset') (simp_all add: hot moved total [unfolded moved])
qed

end
