(* ===== verification/Vault_Safety.thy ===== *)
theory Vault_Safety
  imports Vault_Compaction
begin

text \<open>
  What the vault guarantees: appends are read back and never disturb anything else, revisions are
  never reused, compaction is invisible to readers, the copy is faithful, and what the proof walk
  does and does not see.
\<close>

section \<open>Reading, whatever is hot\<close>

definition obj_at :: "string \<Rightarrow> string \<Rightarrow> obj_row \<Rightarrow> bool" where
  "obj_at ns i r \<longleftrightarrow> ow_ns r = ns \<and> ow_id r = i"

lemma newest_Some: "newest rows = Some r \<Longrightarrow> r \<in> set rows \<and> (\<forall>q\<in>set rows. ow_rev q \<le> ow_rev r)"
proof -
  let ?s = "sort_key (\<lambda>r. - int (ow_rev r)) rows"
  assume "newest rows = Some r"
  then obtain ys where s: "?s = r # ys" by (auto simp: newest_def split: list.splits)
  have "sorted (map (\<lambda>r. - int (ow_rev r)) (r # ys))"
    using sorted_sort_key [of "\<lambda>r. - int (ow_rev r)" rows] unfolding s .
  moreover have "set rows = set (r # ys)" using s set_sort [of "\<lambda>r. - int (ow_rev r)" rows] by simp
  ultimately show ?thesis by auto
qed

lemma newest_None: "newest rows = None \<longleftrightarrow> rows = []"
proof -
  have "sort_key (\<lambda>r. - int (ow_rev r)) rows = [] \<longleftrightarrow> rows = []" by (metis set_sort set_empty)
  then show ?thesis by (auto simp: newest_def split: list.splits)
qed

lemma same_key_same_row:
  "distinct (map ow_key rows) \<Longrightarrow> r \<in> set rows \<Longrightarrow> q \<in> set rows \<Longrightarrow> ow_key r = ow_key q \<Longrightarrow> r = q"
  by (meson distinct_map inj_onD)

text \<open>What a read finds is a function of the set of all stored rows: the row with the revision asked for,
  or the one with the largest.\<close>

definition is_read :: "obj_row set \<Rightarrow> string \<Rightarrow> string \<Rightarrow> int option \<Rightarrow> obj_row \<Rightarrow> bool" where
  "is_read R ns i rv r \<longleftrightarrow> r \<in> R \<and> obj_at ns i r \<and>
     (case rv of Some n \<Rightarrow> int (ow_rev r) = n
      | None \<Rightarrow> (\<forall>q\<in>R. obj_at ns i q \<longrightarrow> ow_rev q \<le> ow_rev r))"

lemma is_read_unique:
  assumes "distinct (map ow_key rows)" and "is_read (set rows) ns i rv r" and "is_read (set rows) ns i rv q"
  shows "r = q"
proof -
  have "ow_rev r = ow_rev q"
  proof (cases rv)
    case None
    then show ?thesis using assms(2,3) by (simp add: is_read_def) (metis order_antisym)
  next
    case (Some n)
    then have "int (ow_rev r) = int (ow_rev q)" using assms(2,3) by (simp add: is_read_def)
    then show ?thesis by simp
  qed
  then have "ow_key r = ow_key q" using assms(2,3) by (simp add: is_read_def obj_at_def ow_key_def)
  then show ?thesis using same_key_same_row [OF assms(1)] assms(2,3) by (simp add: is_read_def)
qed

lemma find_Some_mem: "find P xs = Some x \<Longrightarrow> x \<in> set xs \<and> P x"
  by (induction xs) (auto split: if_splits)

lemma stored_is_read:
  assumes "vault_ok c v" and "stored_row v ns i rv = Some r"
  shows "is_read (set (all_rows v)) ns i rv r"
proof (cases rv)
  case (Some n)
  then show ?thesis
    using assms(2) by (auto simp: stored_row_def find_row_def is_read_def all_rows_def obj_at_def
        split: option.splits dest!: find_Some_mem)
next
  case None
  have nh: "newest_hot v" by (rule vault_okD(5) [OF assms(1)])
  have split: "rows_of ns i (v_objects v) = [] \<longleftrightarrow> (\<forall>q\<in>set (v_objects v). \<not> obj_at ns i q)"
    by (auto simp: rows_of_def filter_empty_conv obj_at_def)
  show ?thesis
  proof (cases "newest (rows_of ns i (v_objects v))")
    case hot: (Some q)
    then have r: "r = q" using assms(2) None by (simp add: stored_row_def find_row_def)
    have "q \<in> set (v_objects v)" "obj_at ns i q"
      and max: "\<forall>p\<in>set (v_objects v). obj_at ns i p \<longrightarrow> ow_rev p \<le> ow_rev q"
      using newest_Some [OF hot] by (auto simp: rows_of_def obj_at_def)
    moreover have "ow_rev p \<le> ow_rev q" if p: "p \<in> set (map fst (v_cold v))" "obj_at ns i p" for p
    proof -
      obtain p' where "p' \<in> set (v_objects v)" "ow_ns p' = ow_ns p" "ow_id p' = ow_id p" "ow_rev p < ow_rev p'"
        using nh [unfolded newest_hot_def, rule_format, OF p(1)] by blast
      then show ?thesis using max p(2) by (fastforce simp: obj_at_def)
    qed
    ultimately show ?thesis using None r by (auto simp: is_read_def all_rows_def)
  next
    case cold: None
    then have none: "rows_of ns i (v_objects v) = []" by (simp only: newest_None)
    then have "newest (rows_of ns i (map fst (v_cold v))) = Some r"
      using assms(2) None cold by (simp add: stored_row_def find_row_def)
    from newest_Some [OF this] have "r \<in> set (map fst (v_cold v)) \<and> obj_at ns i r"
      by (simp add: rows_of_def obj_at_def)
    moreover have "\<not> obj_at ns i p" if pc: "p \<in> set (map fst (v_cold v))" for p
    proof
      assume p: "obj_at ns i p"
      obtain q where "q \<in> set (v_objects v)" "ow_ns q = ow_ns p" "ow_id q = ow_id p"
        using nh [unfolded newest_hot_def, rule_format, OF pc] by blast
      then have "q \<in> set (v_objects v)" and "obj_at ns i q" using p by (simp_all add: obj_at_def)
      then show False using none split by blast
    qed
    ultimately show ?thesis by blast
  qed
qed

lemma is_read_stored:
  assumes "vault_ok c v" and "is_read (set (all_rows v)) ns i rv r"
  shows "stored_row v ns i rv = Some r"
proof (cases "stored_row v ns i rv")
  case (Some q)
  then show ?thesis
    using is_read_unique [OF vault_keys_distinct [OF assms(1)] assms(2)] stored_is_read [OF assms(1) Some] by simp
next
  case None
  from assms(2) have r: "r \<in> set (v_objects v) \<or> r \<in> set (map fst (v_cold v))" "obj_at ns i r"
    by (auto simp: is_read_def all_rows_def)
  have False
  proof (cases rv)
    case (Some n)
    then have "int (ow_rev r) = n" using assms(2) by (simp add: is_read_def)
    then show False
      using None Some r by (auto simp: stored_row_def find_row_def obj_at_def find_None_iff split: option.splits)
  next
    case rv: None
    then have "rows_of ns i (v_objects v) = []" "rows_of ns i (map fst (v_cold v)) = []"
      using None by (auto simp: stored_row_def find_row_def newest_None split: option.splits)
    then show False using r by (auto simp: rows_of_def filter_empty_conv obj_at_def)
  qed
  then show ?thesis ..
qed

lemma stored_row_iff:
  "vault_ok c v \<Longrightarrow> stored_row v ns i rv = Some r \<longleftrightarrow> is_read (set (all_rows v)) ns i rv r"
  using stored_is_read is_read_stored by blast

lemma stored_row_cong:
  assumes "vault_ok c v" and "vault_ok c v'"
    and "\<And>r. is_read (set (all_rows v)) ns i rv r \<longleftrightarrow> is_read (set (all_rows v')) ns i rv r"
  shows "stored_row v ns i rv = stored_row v' ns i rv"
proof (cases "stored_row v' ns i rv")
  case (Some r)
  then show ?thesis using assms stored_row_iff by metis
next
  case None
  then show ?thesis using assms stored_row_iff by (metis not_None_eq)
qed

text \<open>A stored blob stays readable and keeps its content when others are added.\<close>

lemma casGet_put:
  assumes "map_has m k"
  shows "casGet (if map_has m k' then m else map_set k' t m) k = casGet m k"
  using assms by (auto simp: casGet_def res_bind_def split: sum.splits)

lemma readObject_stored:
  assumes "stored_row v ns i rv = stored_row v' ns i rv"
    and "\<And>r. stored_row v ns i rv = Some r \<Longrightarrow> casGet (v_cas v) (ow_cid r) = casGet (v_cas v') (ow_cid r)"
  shows "readObject v ns i rv = readObject v' ns i rv"
  using assms by (auto simp: readObject_def split: option.splits)

section \<open>After an append\<close>

lemma appended_rows:
  "set (all_rows (appended c v a t b)) = insert
     \<lparr>ow_ns = ai_ns a, ow_id = ai_id a, ow_rev = next_rev (v_log v) (ai_ns a) (ai_id a), ow_cid = sha256Hex c t,
      ow_meta = envelopeOf (ai_meta a) (ai_refs a)\<rparr> (set (all_rows v))"
  by (auto simp: all_rows_def appended_def Let_def)

lemma appended_latest:
  assumes "vault_ok c v" and "vault_ok c (appended c v a t b)"
  shows "stored_row (appended c v a t b) (ai_ns a) (ai_id a) None = Some
     \<lparr>ow_ns = ai_ns a, ow_id = ai_id a, ow_rev = next_rev (v_log v) (ai_ns a) (ai_id a), ow_cid = sha256Hex c t,
      ow_meta = envelopeOf (ai_meta a) (ai_refs a)\<rparr>"
proof -
  have "ow_rev q < next_rev (v_log v) (ai_ns a) (ai_id a)" if "q \<in> set (all_rows v)" "obj_at (ai_ns a) (ai_id a) q" for q
    using vault_rev_bound [OF assms(1) that(1)] that(2) by (simp add: obj_at_def)
  then show ?thesis
    unfolding stored_row_iff [OF assms(2)] is_read_def appended_rows by (auto simp: obj_at_def less_imp_le)
qed

lemma appended_read:
  assumes "sha_hex c" and "vault_ok c v" and "vault_ok c (appended c v a t b)" and "canonicalJson (ai_data a) = Inr t"
  shows "\<exists>d. readObject (appended c v a t b) (ai_ns a) (ai_id a) None = Inr
      \<lparr>or_rev = next_rev (v_log v) (ai_ns a) (ai_id a), or_cid = sha256Hex c t, or_data = d,
       or_meta = (if ai_meta a = JUndefined then JNull else ai_meta a), or_refs = ai_refs a\<rparr> \<and>
    (d = json_norm (ai_data a) \<or>
     (\<exists>t'. map_get (v_cas v) (sha256Hex c t) = Some t' \<and> t \<noteq> t' \<and> sha256Hex c t = sha256Hex c t'))"
proof -
  let ?v' = "appended c v a t b"
  have cid: "casPath (sha256Hex c t) = Inr (take 2 (sha256Hex c t) @ CHR ''/'' # sha256Hex c t)"
    using assms(1) by (simp add: casPath_def sha_hex_def)
  have "\<exists>d. casGet (v_cas ?v') (sha256Hex c t) = Inr d \<and> (d = json_norm (ai_data a) \<or>
      (\<exists>t'. map_get (v_cas v) (sha256Hex c t) = Some t' \<and> t \<noteq> t' \<and> sha256Hex c t = sha256Hex c t'))"
  proof (cases "map_get (v_cas v) (sha256Hex c t)")
    case None
    then show ?thesis
      using parse_canonical [OF assms(4)] cid by (simp add: appended_def casGet_def res_bind_def Let_def)
  next
    case (Some t')
    then obtain d where "json_parse t' = Some d" and "sha256Hex c t = sha256Hex c t'"
      using vault_okD(3) [OF assms(2)] unfolding blobs_ok_def by blast
    then show ?thesis
      using Some parse_canonical [OF assms(4)] cid by (cases "t = t'") (auto simp: appended_def casGet_def res_bind_def Let_def)
  qed
  then show ?thesis
    by (auto simp: readObject_def appended_latest [OF assms(2,3)] parseEnvelope_of res_bind_def)
qed

lemma appended_other:
  assumes "vault_ok c v" and "vault_ok c (appended c v a t b)"
    and "(ns, i) \<noteq> (ai_ns a, ai_id a) \<or> (\<exists>n. rv = Some n \<and> n < int (next_rev (v_log v) (ai_ns a) (ai_id a)))"
  shows "readObject (appended c v a t b) ns i rv = readObject v ns i rv"
proof (rule readObject_stored)
  let ?new = "\<lparr>ow_ns = ai_ns a, ow_id = ai_id a, ow_rev = next_rev (v_log v) (ai_ns a) (ai_id a), ow_cid = sha256Hex c t,
      ow_meta = envelopeOf (ai_meta a) (ai_refs a)\<rparr>"
  have iff: "is_read (insert ?new (set (all_rows v))) ns i rv r \<longleftrightarrow> is_read (set (all_rows v)) ns i rv r" for r
    using assms(3) by (cases rv) (auto simp: is_read_def obj_at_def)
  show rows: "stored_row (appended c v a t b) ns i rv = stored_row v ns i rv"
    by (rule stored_row_cong [OF assms(2,1)]) (simp only: appended_rows iff)
  fix r
  assume "stored_row (appended c v a t b) ns i rv = Some r"
  then have "r \<in> set (all_rows v)" using rows stored_row_iff [OF assms(1)] by (simp add: is_read_def)
  then have "map_has (v_cas v) (ow_cid r)"
    using vault_okD(4) [OF assms(1)] by (simp add: list_all_iff row_ok_def)
  then show "casGet (v_cas (appended c v a t b)) (ow_cid r) = casGet (v_cas v) (ow_cid r)"
    using casGet_put by (simp add: appended_def Let_def)
qed

section \<open>Runs\<close>

datatype vault_op = VAppend append_input | VCompact int string int

fun vault_step :: "crypto \<Rightarrow> vault \<Rightarrow> vault_op \<Rightarrow> vault" where
  "vault_step c v (VAppend a) = snd (appendObject c v a)"
| "vault_step c v (VCompact now ns keep) = snd (compact now v ns keep)"

definition vault_run :: "crypto \<Rightarrow> vault_op list \<Rightarrow> vault" where
  "vault_run c xs = foldl (vault_step c) empty_vault xs"

definition op_ok :: "vault_op \<Rightarrow> bool" where
  "op_ok x \<longleftrightarrow> (case x of VAppend a \<Rightarrow> input_ok a | VCompact _ _ _ \<Rightarrow> True)"

lemma compact_refused: "ns = [] \<or> keep < 1 \<Longrightarrow> snd (compact now v ns keep) = v"
  by (auto simp: compact_def)

lemma vault_step_ok: "sha_hex c \<Longrightarrow> vault_ok c v \<Longrightarrow> op_ok x \<Longrightarrow> vault_ok c (vault_step c v x)"
proof (cases x)
  case (VAppend a)
  assume "sha_hex c" and "vault_ok c v" and "op_ok x"
  with VAppend show ?thesis
    by (auto simp: op_ok_def elim: appendObject_ok [of c v a])
next
  case (VCompact now ns keep)
  assume "vault_ok c v"
  then show ?thesis
  proof (cases "ns = [] \<or> keep < 1")
    case True
    with VCompact \<open>vault_ok c v\<close> show ?thesis by (simp add: compact_refused)
  next
    case False
    then show ?thesis
      using compact_effect [OF \<open>vault_ok c v\<close>, of ns keep now] VCompact by (metis not_less snd_conv vault_step.simps(2))
  qed
qed

lemma vault_run_ok: "sha_hex c \<Longrightarrow> list_all op_ok xs \<Longrightarrow> vault_ok c (vault_run c xs)"
proof -
  assume c: "sha_hex c"
  have "vault_ok c v \<Longrightarrow> list_all op_ok ys \<Longrightarrow> vault_ok c (foldl (vault_step c) v ys)" for v ys
    by (induction ys arbitrary: v) (simp_all add: vault_step_ok c)
  then show "list_all op_ok xs \<Longrightarrow> vault_ok c (vault_run c xs)"
    by (simp add: vault_run_def vault_ok_empty)
qed

section \<open>Properties\<close>


definition sample_input :: append_input where
  "sample_input = \<lparr>ai_ns = ''note'', ai_id = ''n1'', ai_data = JStr ''hello'', ai_meta = JNull, ai_refs = [],
     ai_causationId = ''c_1''\<rparr>"

lemma sample_input_ok: "input_ok sample_input"
  by (simp add: input_ok_def sample_input_def no_bar_def)


text \<open>Every vault that any sequence of appends and compactions builds from nothing verifies, and
  reports the length and the head of its changelog; in it no revision of any object was ever used
  twice, and the rows stored, hot and cold, are exactly those the changelog lists, with their cids.\<close>

theorem vault_always_verifies:
  assumes "sha_hex c" and "list_all op_ok xs"
  shows "verify c (vault_run c xs) =
      \<lparr>vr_ok = True, vr_headHash = chainHead (v_log (vault_run c xs)), vr_entries = length (v_log (vault_run c xs)),
       vr_corruptAt = None, vr_detail = None\<rparr> \<and>
    distinct (map (\<lambda>e. (cl_ns e, cl_id e, cl_rev e)) (v_log (vault_run c xs))) \<and>
    mset (map (\<lambda>r. ((ow_ns r, ow_id r, ow_rev r), ow_cid r)) (all_rows (vault_run c xs))) =
      mset (map (\<lambda>e. ((cl_ns e, cl_id e, cl_rev e), cl_cid e)) (v_log (vault_run c xs)))"
proof (intro conjI)
  have ok: "vault_ok c (vault_run c xs)" by (rule vault_run_ok [OF assms])
  have w: "vlog.walk c 0 GENESIS_HASH (v_log (vault_run c xs))" and r: "revs_ok (v_log (vault_run c xs))"
    using vault_okD(1) [OF ok] unfolding log_ok_def by blast+
  show "verify c (vault_run c xs) =
      \<lparr>vr_ok = True, vr_headHash = chainHead (v_log (vault_run c xs)), vr_entries = length (v_log (vault_run c xs)),
       vr_corruptAt = None, vr_detail = None\<rparr>"
    using vault_verifies [OF ok] walk_chainHead [OF w] by simp
  show "distinct (map (\<lambda>e. (cl_ns e, cl_id e, cl_rev e)) (v_log (vault_run c xs)))"
    using revs_ok_distinct [OF r] unfolding lc_key_def .
  show "mset (map (\<lambda>r. ((ow_ns r, ow_id r, ow_rev r), ow_cid r)) (all_rows (vault_run c xs))) =
      mset (map (\<lambda>e. ((cl_ns e, cl_id e, cl_rev e), cl_cid e)) (v_log (vault_run c xs)))"
    using vault_okD(2) [OF ok] unfolding kc_def lc_def ow_key_def lc_key_def .
qed

lemma vault_always_verifies_witness:
  "vr_ok (verify hex_crypto (vault_run hex_crypto [VAppend sample_input, VAppend sample_input, VCompact 9 ''note'' 1]))"
proof -
  have "list_all op_ok [VAppend sample_input, VAppend sample_input, VCompact 9 ''note'' 1]"
    by (simp add: op_ok_def sample_input_ok)
  from vault_always_verifies [OF hex_crypto_hex this] show ?thesis by simp
qed

lemma compact_reads:
  assumes "vault_ok c v" and "vault_ok c v'" and "mset (all_rows v') = mset (all_rows v)" and "v_cas v' = v_cas v"
  shows "readObject v' ns i rv = readObject v ns i rv"
proof (rule readObject_stored)
  have "set (all_rows v') = set (all_rows v)" using assms(3) by (metis set_mset_mset)
  then show "stored_row v' ns i rv = stored_row v ns i rv"
    by (intro stored_row_cong [OF assms(2,1)]) simp
qed (simp add: assms(4))

lemma superseded_count:
  assumes "sorted revs" and "distinct revs"
  shows "rv \<in> set (superseded keep revs) \<longleftrightarrow> rv \<in> set revs \<and> keep \<le> length (filter (\<lambda>n. rv < n) revs)"
proof -
  let ?n = "length revs - keep"
  have lt: "sorted_wrt (<) revs" using assms by (simp add: strict_sorted_iff)
  have at: "length (filter (\<lambda>n. revs ! j < n) revs) = length revs - Suc j" if j: "j < length revs" for j
  proof -
    have "revs = take (Suc j) revs @ drop (Suc j) revs" by simp
    moreover have "x \<le> revs ! j" if x: "x \<in> set (take (Suc j) revs)" for x
    proof -
      obtain k where "k < length (take (Suc j) revs)" and "x = take (Suc j) revs ! k"
        using x by (metis in_set_conv_nth)
      then show ?thesis using sorted_nth_mono [OF assms(1), of k j] j by simp
    qed
    then have "filter (\<lambda>n. revs ! j < n) (take (Suc j) revs) = []"
      by (fastforce simp: filter_empty_conv)
    moreover have "filter (\<lambda>n. revs ! j < n) (drop (Suc j) revs) = drop (Suc j) revs"
    proof (rule filter_True, rule ballI)
      fix x
      assume "x \<in> set (drop (Suc j) revs)"
      then obtain k where "k < length (drop (Suc j) revs)" and "x = drop (Suc j) revs ! k"
        by (metis in_set_conv_nth)
      then show "revs ! j < x" using lt by (auto intro: sorted_wrt_nth_less)
    qed
    ultimately have "filter (\<lambda>n. revs ! j < n) revs = drop (Suc j) revs" by (metis append_Nil filter_append)
    then show ?thesis by simp
  qed
  have "rv \<in> set (take ?n revs) \<longleftrightarrow> (\<exists>j<length revs. rv = revs ! j \<and> j < ?n)"
    by (auto simp: in_set_conv_nth) (rule_tac x = i in exI, simp)
  also have "\<dots> \<longleftrightarrow> (\<exists>j<length revs. rv = revs ! j \<and> keep \<le> length (filter (\<lambda>n. revs ! j < n) revs))"
    using at by (auto 0 3 simp: less_diff_conv)
  also have "\<dots> \<longleftrightarrow> rv \<in> set revs \<and> keep \<le> length (filter (\<lambda>n. rv < n) revs)"
    by (auto simp: in_set_conv_nth)
  finally show ?thesis by (simp add: superseded_def)
qed

text \<open>(C12) Compaction of a sound vault is invisible: every read, of any revision of any object in any
  namespace, answers as before, the changelog and its head are untouched, the vault stays sound
  (so it still verifies), and moved and kept revisions add up to the hot ones of the namespace.\<close>

theorem compact_invisible:
  assumes "vault_ok c v" and "ns \<noteq> []" and "1 \<le> keep"
  shows "\<exists>r v'. compact now v ns keep = (Inr r, v') \<and> vault_ok c v' \<and>
    readObject v' = readObject v \<and> v_log v' = v_log v \<and> verify c v' = verify c v \<and>
    cp_moved r + cp_kept r = length (filter (\<lambda>q. ow_ns q = ns) (v_objects v))"
proof -
  obtain r v' prot where run: "compact now v ns keep = (Inr r, v')" and ms: "mset (all_rows v') = mset (all_rows v)"
    and log: "v_log v' = v_log v" and cas: "v_cas v' = v_cas v"
    and total: "cp_moved r + cp_kept r = length (filter (\<lambda>r. ow_ns r = ns) (v_objects v))" and ok: "vault_ok c v'"
    using compact_effect [OF assms] by metis
  have "readObject v' = readObject v"
    by (intro ext) (rule compact_reads [OF assms(1) ok ms cas])
  moreover have "verify c v' = verify c v"
    by (simp only: vault_verifies [OF ok] vault_verifies [OF assms(1)] log)
  ultimately show ?thesis using run log total ok by blast
qed

lemma compact_invisible_witness:
  "\<exists>r v'. compact 9 (vault_run hex_crypto [VAppend sample_input, VAppend sample_input]) ''note'' 1 = (Inr r, v') \<and>
     cp_moved r + cp_kept r = length (filter (\<lambda>q. ow_ns q = ''note'') (v_objects (vault_run hex_crypto [VAppend sample_input, VAppend sample_input])))"
proof -
  have "vault_ok hex_crypto (vault_run hex_crypto [VAppend sample_input, VAppend sample_input])"
    by (rule vault_run_ok [OF hex_crypto_hex]) (simp add: op_ok_def sample_input_ok)
  from compact_invisible [OF this, of "''note''" 1 9] show ?thesis by (metis list.distinct(1) order_refl)
qed

text \<open>Which revisions leave the hot table: exactly those of the namespace that have at least
  \<open>keep\<close> newer hot revisions of the same object and that no live object of any namespace refers
  to; everything else stays, in its order.\<close>

theorem compact_moves_exactly:
  assumes "vault_ok c v" and "ns \<noteq> []" and "1 \<le> keep" and "compact now v ns keep = (res, v')"
  shows "\<exists>prot. liveRefs v = Inr prot \<and>
    v_objects v' = filter (\<lambda>r. \<not> (ow_ns r = ns \<and>
        nat keep \<le> length (filter (\<lambda>q. obj_at ns (ow_id r) q \<and> ow_rev r < ow_rev q) (v_objects v)) \<and>
        \<lparr>rf_ns = ns, rf_id = ow_id r, rf_rev = int (ow_rev r)\<rparr> \<notin> set prot)) (v_objects v)"
proof -
  obtain prot where prot: "liveRefs v = Inr prot"
    and hot: "v_objects v' = filter (untouched ns (set (targets v ns (nat keep) prot))) (v_objects v)"
    using compact_effect [OF assms(1-3), of now] assms(4) by (metis prod.inject)
  have "length (filter (\<lambda>n. x < n) (hot_revs v ns i)) = length (filter (\<lambda>q. obj_at ns i q \<and> x < ow_rev q) (v_objects v))" for x i
  proof -
    have "length (filter (\<lambda>n. x < n) (hot_revs v ns i)) = length (filter (\<lambda>n. x < n) (map ow_rev (rows_of ns i (v_objects v))))"
      by (simp add: hot_revs_def filter_sort)
    then show ?thesis by (simp add: filter_map comp_def rows_of_def obj_at_def)
  qed
  moreover have "ow_rev r \<in> set (hot_revs v ns (ow_id r)) \<and> rows_of ns (ow_id r) (v_objects v) \<noteq> []"
    if "r \<in> set (v_objects v)" "ow_ns r = ns" for r
    using that by (auto simp: hot_revs_mem row_at_def rows_of_def filter_empty_conv)
  ultimately have "untouched ns (set (targets v ns (nat keep) prot)) r \<longleftrightarrow> \<not> (ow_ns r = ns \<and>
        nat keep \<le> length (filter (\<lambda>q. obj_at ns (ow_id r) q \<and> ow_rev r < ow_rev q) (v_objects v)) \<and>
        \<lparr>rf_ns = ns, rf_id = ow_id r, rf_rev = int (ow_rev r)\<rparr> \<notin> set prot)" if "r \<in> set (v_objects v)" for r
    using that by (auto simp: untouched_def targets_mem superseded_count [OF hot_distinct(3,2) [OF assms(1)]])
  then show ?thesis using prot hot by (auto intro: filter_cong)
qed

lemma compact_moves_exactly_witness:
  "\<exists>prot. liveRefs (vault_run hex_crypto [VAppend sample_input]) = Inr prot"
proof -
  have "vault_ok hex_crypto (vault_run hex_crypto [VAppend sample_input])"
    by (rule vault_run_ok [OF hex_crypto_hex]) (simp add: op_ok_def sample_input_ok)
  moreover have "(''note'' :: string) \<noteq> []" and "(1 :: int) \<le> 1" by simp_all
  ultimately show ?thesis using compact_moves_exactly [OF _ _ _ surjective_pairing] by blast
qed

section \<open>The copy\<close>

lemma blobs_ok_cids:
  assumes "blobs_ok c m"
  shows "filter (\<lambda>(k, _). CID_RE k) m = m"
proof -
  have "CID_RE k" if "(k, t) \<in> set m" for k t
  proof -
    have "map_get m k = Some t" using assms that by (simp add: blobs_ok_def)
    then show ?thesis using assms unfolding blobs_ok_def by blast
  qed
  then have "\<forall>kt\<in>set m. CID_RE (fst kt)" by (metis prod.collapse)
  then show ?thesis by (simp add: filter_id_conv split_def)
qed

lemma casCopyAll_empty:
  assumes "blobs_ok c m"
  shows "fst (casCopyAll m []) = m"
proof -
  note all = blobs_ok_cids [OF assms]
  have "distinct (map_keys (n @ m)) \<Longrightarrow> fold (\<lambda>(k, t). map_set k t) m n = n @ m" for n
  proof (induction m arbitrary: n)
    case (Cons kt m)
    obtain k t where kt: "kt = (k, t)" by (cases kt)
    with Cons.prems have "k \<notin> set (map_keys n)" by auto
    then have "map_set k t n = n @ [(k, t)]" by (induction n) auto
    then show ?case using Cons.IH [of "n @ [(k, t)]"] Cons.prems kt by simp
  qed simp
  moreover have "distinct (map_keys m)" using assms by (simp add: blobs_ok_def)
  ultimately show ?thesis using all by (simp add: casCopyAll_def Let_def)
qed



section \<open>What the proof walk sees\<close>

text \<open>The head fixes the history: if two vaults built by runs of operations report the same head
  hash, their changelogs agree entry for entry in every field (so they store the same revisions
  with the same cids), unless two of their own entries collide or one hashes to the genesis value.\<close>

theorem vault_head_determines:
  assumes "sha_hex c" and "list_all op_ok xs" and "list_all op_ok ys"
    and "vr_headHash (verify c (vault_run c xs)) = vr_headHash (verify c (vault_run c ys))"
  shows "v_log (vault_run c xs) = v_log (vault_run c ys) \<or>
    (\<exists>e\<in>set (v_log (vault_run c xs)). \<exists>f\<in>set (v_log (vault_run c ys)).
       e \<noteq> f \<and> cl_entry_hash e = cl_entry_hash f) \<or>
    (\<exists>e\<in>set (v_log (vault_run c xs)) \<union> set (v_log (vault_run c ys)). cl_entry_hash e = GENESIS_HASH)"
proof -
  let ?l = "v_log (vault_run c xs)" and ?m = "v_log (vault_run c ys)"
  have ok: "vault_ok c (vault_run c xs)" "vault_ok c (vault_run c ys)"
    using vault_run_ok assms(1-3) by blast+
  have l: "vlog.walk c 0 GENESIS_HASH ?l" "list_all cl_clean ?l" and m: "vlog.walk c 0 GENESIS_HASH ?m" "list_all cl_clean ?m"
    using vault_okD(1) [OF ok(1)] vault_okD(1) [OF ok(2)] unfolding log_ok_def by blast+
  have heads: "vlog.head c GENESIS_HASH ?l = vlog.head c GENESIS_HASH ?m"
    using assms(4) by (simp add: vault_verifies [OF ok(1)] vault_verifies [OF ok(2)])
  have hash: "cl_entry_hash e = sha256Hex c (cl_text e)" if "e \<in> set ?l \<or> e \<in> set ?m" for e
    using vlog.walk_entry [OF l(1)] vlog.walk_entry [OF m(1)] that
    by (auto simp: in_set_conv_nth cl_entry_ok_def)
  have inj: "e = f" if "e \<in> set ?l" "f \<in> set ?m" "cl_text e = cl_text f" for e f
  proof -
    have "cl_clean e" "cl_clean f" using l(2) m(2) that by (auto simp: list_all_iff)
    then have "cl_seq e = cl_seq f \<and> cl_causationId e = cl_causationId f \<and> cl_ns e = cl_ns f \<and> cl_id e = cl_id f \<and>
        cl_rev e = cl_rev f \<and> cl_cid e = cl_cid f \<and> cl_prev_hash e = cl_prev_hash f"
      using that(3) cl_text_inj by blast
    moreover have "cl_entry_hash e = cl_entry_hash f" using hash that by simp
    ultimately show ?thesis by (simp add: changelog_row.equality)
  qed
  have "map cl_text ?l = map cl_text ?m \<or> vlog.collision c ?l ?m"
    using l(1) m(1) heads l(2) m(2) by (rule vlog.head_determines)
  then show ?thesis
  proof
    assume "map cl_text ?l = map cl_text ?m"
    then have "length ?l = length ?m" and "\<And>k. k < length ?l \<Longrightarrow> ?l ! k = ?m ! k"
      using inj by (metis length_map, metis length_map nth_map nth_mem)
    then show ?thesis by (simp add: list_eq_iff_nth_eq)
  next
    assume "vlog.collision c ?l ?m"
    then show ?thesis using hash unfolding vlog.collision_def by (metis UnE)
  qed
qed

lemma vault_head_determines_witness:
  "v_log (vault_run hex_crypto []) = v_log (vault_run hex_crypto [VCompact 1 ''note'' 1])"
proof -
  have "vr_headHash (verify hex_crypto (vault_run hex_crypto [])) =
      vr_headHash (verify hex_crypto (vault_run hex_crypto [VCompact 1 ''note'' 1]))"
    by (simp add: vault_run_def empty_vault_def compact_def liveRefs_def res_bind_def group_revs_def ftsDeleteMany_def)
  from vault_head_determines [OF hex_crypto_hex _ _ this] show ?thesis
    by (simp add: op_ok_def vault_run_def empty_vault_def compact_def liveRefs_def res_bind_def group_revs_def)
qed

lemma find_unique:
  assumes "x \<in> set xs" and "P x" and "\<And>y. y \<in> set xs \<Longrightarrow> P y \<Longrightarrow> y = x"
  shows "find P xs = Some x"
proof (cases "find P xs")
  case None
  then show ?thesis using assms(1,2) by (simp add: find_None_iff)
next
  case (Some y)
  then show ?thesis using find_Some_mem [OF Some] assms(3) by simp
qed

lemma vault_probe:
  assumes "vault_ok c v"
  shows "blob_probe v (sort (uniq (map ow_cid (all_rows v)))) n at = (n, at)"
proof (rule blob_probe_all)
  note D = vault_okD [OF assms]
  have "casHas (v_cas v) (ow_cid r)" if "r \<in> set (all_rows v)" for r
  proof -
    have has: "map_has (v_cas v) (ow_cid r)" using D(4) that by (auto simp: list_all_iff row_ok_def)
    then have "CID_RE (ow_cid r)" using D(3) unfolding blobs_ok_def by blast
    with has show ?thesis by (simp add: casHas_def casPath_def)
  qed
  then show "list_all (casHas (v_cas v)) (sort (uniq (map ow_cid (all_rows v))))"
    by (auto simp: list_all_iff)
qed

definition swap_cid :: "vault \<Rightarrow> nat \<Rightarrow> string \<Rightarrow> vault" where
  "swap_cid v k cid = v\<lparr>v_objects := (v_objects v)[k := (v_objects v ! k)\<lparr>ow_cid := cid\<rparr>]\<rparr>"

text \<open>(C38) What the walk does not see: it asks of a stored revision only that its key is in the changelog's
  list and that its blob exists, never that its cid is the one the changelog committed to. So
  exchanging the cid of any stored hot revision for that of any other blob in the store changes what is
  read and leaves the whole verdict as it was.\<close>

theorem verify_misses_swapped_cid:
  assumes "vault_ok c v" and "k < length (v_objects v)" and "map_has (v_cas v) cid"
  shows "verify c (swap_cid v k cid) = verify c v \<and>
    stored_row (swap_cid v k cid) (ow_ns (v_objects v ! k)) (ow_id (v_objects v ! k)) (Some (int (ow_rev (v_objects v ! k)))) =
      Some ((v_objects v ! k)\<lparr>ow_cid := cid\<rparr>)"
proof
  let ?w = "swap_cid v k cid" and ?r = "v_objects v ! k"
  note D = vault_okD [OF assms(1)]
  have r: "?r \<in> set (v_objects v)" using assms(2) by simp
  have keys: "map ow_key (v_objects ?w) = map ow_key (v_objects v)"
    by (simp add: swap_cid_def map_update ow_key_def list_update_same_conv assms(2))
  have row: "row_at ns i rv = (\<lambda>r. ow_key r = (ns, i, rv))" for ns i rv
    by (auto simp: row_at_def ow_key_def fun_eq_iff)
  have rev: "has_revision ?w ns i rv = has_revision v ns i rv" for ns i rv
  proof -
    have "has_revision u ns i rv \<longleftrightarrow> (ns, i, rv) \<in> set (map ow_key (v_objects u)) \<union> set (map ow_key (map fst (v_cold u)))" for u
      by (auto simp: has_revision_def row list_ex_iff all_rows_def image_iff eq_commute)
    moreover have "v_cold ?w = v_cold v" by (simp add: swap_cid_def)
    ultimately show ?thesis by (simp only: keys)
  qed
  have "casHas (v_cas ?w) (ow_cid q)" if "q \<in> set (all_rows ?w)" for q
  proof -
    have "ow_cid q = cid \<or> q \<in> set (all_rows v)"
      using that assms(2) set_update_subset_insert [of "v_objects v" k "?r\<lparr>ow_cid := cid\<rparr>"]
      by (auto simp: all_rows_def swap_cid_def)
    then have has: "map_has (v_cas v) (ow_cid q)"
      using assms(3) D(4) by (auto simp: list_all_iff row_ok_def)
    then have "CID_RE (ow_cid q)" using D(3) unfolding blobs_ok_def by blast
    with has show ?thesis by (simp add: casHas_def casPath_def swap_cid_def)
  qed
  then have probe: "blob_probe ?w (sort (uniq (map ow_cid (all_rows ?w)))) n at = (n, at)" for n at
    by (intro blob_probe_all) (auto simp: list_all_iff)
  have log: "log_rows ?w = log_rows v" by (simp add: log_rows_def swap_cid_def)
  show "verify c ?w = verify c v"
    by (simp only: verify_def log rev probe vault_probe [OF assms(1)])
  have "distinct (map ow_key (v_objects ?w))" unfolding keys by (rule hot_distinct(1) [OF assms(1)])
  moreover have new: "?r\<lparr>ow_cid := cid\<rparr> \<in> set (v_objects ?w)"
    using assms(2) by (simp add: swap_cid_def set_update_memI)
  moreover have "ow_key (?r\<lparr>ow_cid := cid\<rparr>) = ow_key ?r" by (simp add: ow_key_def)
  ultimately have uniq: "y = ?r\<lparr>ow_cid := cid\<rparr>" if "y \<in> set (v_objects ?w)" "ow_key y = ow_key ?r" for y
    using same_key_same_row that by metis
  have "find (\<lambda>q. ow_ns q = ow_ns ?r \<and> ow_id q = ow_id ?r \<and> int (ow_rev q) = int (ow_rev ?r)) (v_objects ?w) =
      Some (?r\<lparr>ow_cid := cid\<rparr>)"
  proof (rule find_unique [OF new])
    fix y
    assume "y \<in> set (v_objects ?w)"
      and "ow_ns y = ow_ns ?r \<and> ow_id y = ow_id ?r \<and> int (ow_rev y) = int (ow_rev ?r)"
    then show "y = ?r\<lparr>ow_cid := cid\<rparr>" by (intro uniq) (simp_all add: ow_key_def)
  qed simp
  then show "stored_row ?w (ow_ns ?r) (ow_id ?r) (Some (int (ow_rev ?r))) = Some (?r\<lparr>ow_cid := cid\<rparr>)"
    by (simp add: stored_row_def find_row_def)
qed

lemma verify_misses_swapped_cid_witness:
  "\<exists>cid. verify hex_crypto (swap_cid (vault_run hex_crypto [VAppend sample_input]) 0 cid) =
     verify hex_crypto (vault_run hex_crypto [VAppend sample_input])"
proof -
  let ?v = "vault_run hex_crypto [VAppend sample_input]"
  have ok: "vault_ok hex_crypto ?v"
    by (rule vault_run_ok [OF hex_crypto_hex]) (simp add: op_ok_def sample_input_ok)
  obtain t b r where "appendObject hex_crypto empty_vault sample_input = (Inr r, appended hex_crypto empty_vault sample_input t b)"
    using appendObject_ok [OF hex_crypto_hex vault_ok_empty sample_input_ok] by metis
  then have "?v = appended hex_crypto empty_vault sample_input t b" by (simp add: vault_run_def)
  then have "v_objects ?v \<noteq> []" by (simp add: appended_def Let_def)
  then have k: "0 < length (v_objects ?v)" by simp
  then have "v_objects ?v ! 0 \<in> set (all_rows ?v)" by (simp add: all_rows_def)
  then have "map_has (v_cas ?v) (ow_cid (v_objects ?v ! 0))"
    using vault_okD(4) [OF ok] unfolding list_all_iff row_ok_def by blast
  from verify_misses_swapped_cid [OF ok k this] show ?thesis by blast
qed

end
