(* ===== verification/Port_Contracts.thy ===== *)
theory Port_Contracts
  imports Canonical_Json
begin

text \<open>
  The wire contracts (\<open>contracts/src/port.ts\<close>, \<open>lifecycle.ts\<close>, \<open>manifest.ts\<close>, \<open>recipe.ts\<close>): the
  shapes every other component exchanges, and the pure functions that live beside them.
\<close>

section \<open>The port (\<open>port.ts\<close>)\<close>

datatype freshness = CURRENT | LAGGING | STALE

datatype port_error_code = REFUSED | REVOKED | SCOPE | BUDGET | DEGRADED

record port_message =
  pm_causationId :: string
  pm_capabilityToken :: string
  pm_op :: string
  pm_payload :: json
  pm_deadlineMs :: int

record refusal_report =
  rr_rule :: string
  rr_who :: "string option"
  rr_op :: "string option"
  rr_reason :: "string option"
  rr_consentId :: "string option"
  rr_bar :: "string option"

datatype port_result =
    POk json "freshness option" "string option"
  | PErr port_error_code "string option" "refusal_report option"

definition err_code_text :: "port_error_code \<Rightarrow> string" where
  "err_code_text c = (case c of REFUSED \<Rightarrow> ''REFUSED'' | REVOKED \<Rightarrow> ''REVOKED'' | SCOPE \<Rightarrow> ''SCOPE''
     | BUDGET \<Rightarrow> ''BUDGET'' | DEGRADED \<Rightarrow> ''DEGRADED'')"

abbreviation ok_value :: "json \<Rightarrow> port_result" where
  "ok_value v \<equiv> POk v None None"

abbreviation err_detail :: "port_error_code \<Rightarrow> string \<Rightarrow> port_result" where
  "err_detail c d \<equiv> PErr c (Some d) None"

definition is_ok :: "port_result \<Rightarrow> bool" where
  [js_simps]: "is_ok r \<longleftrightarrow> (case r of POk _ _ _ \<Rightarrow> True | PErr _ _ _ \<Rightarrow> False)"

datatype law_action = Allow | Deny | RequireConsent

record law_decision =
  ld_decision :: law_action
  ld_reason :: "string option"
  ld_who :: "string option"
  ld_consentId :: "string option"

record consent_grant =
  cg_consentId :: string
  cg_who :: "string option"
  cg_scope :: "string option"
  cg_grantedAt :: int

subsection \<open>Stream sequencing\<close>

definition STREAM_SEQ_START :: int where
  "STREAM_SEQ_START = 1"

text \<open>\<open>seq\<close> is a JavaScript number; \<open>None\<close> stands for one that is not an integer.\<close>

record stream_chunk =
  sc_streamId :: string
  sc_seq :: "int option"
  sc_data :: json
  sc_final :: bool

datatype seq_violation = NotInteger | PrecedesStart int | BreaksOrder int int

definition checkStreamSeq :: "int \<Rightarrow> stream_chunk \<Rightarrow> seq_violation option" where
  "checkStreamSeq prevSeq chunk =
     (case sc_seq chunk of
        None \<Rightarrow> Some NotInteger
      | Some n \<Rightarrow>
          if n < STREAM_SEQ_START then Some (PrecedesStart n)
          else if n \<noteq> prevSeq + 1 then Some (BreaksOrder n (prevSeq + 1))
          else None)"

text \<open>A receiver that feeds each accepted chunk's \<open>seq\<close> back as the next \<open>prevSeq\<close>.\<close>

fun stream_accepts :: "int \<Rightarrow> stream_chunk list \<Rightarrow> bool" where
  "stream_accepts prev [] = True"
| "stream_accepts prev (c # cs) =
     (checkStreamSeq prev c = None \<and> stream_accepts (prev + 1) cs)"

subsection \<open>Principal kinds\<close>

datatype principal_kind = AgentKind | UserKind | HostKind | CompositionKind

definition micro_host :: string where
  "micro_host = CHR 0xB5 # ''host''"

definition principalKind :: "string \<Rightarrow> principal_kind" where
  "principalKind who =
     (if starts_with who ''agent:'' then AgentKind
      else if starts_with who ''user:'' then UserKind
      else if who = ''root'' \<or> starts_with who micro_host then HostKind
      else CompositionKind)"

section \<open>Host ops and the capabilities that guard them (\<open>lifecycle.ts\<close>)\<close>

datatype lifecycle_state =
  Staged | Verified | Active | Degraded | Quarantined | Retired

definition op_spawn :: string where "op_spawn = ''host.compartment.spawn@1''"
definition op_terminate :: string where "op_terminate = ''host.compartment.terminate@1''"
definition op_stats :: string where "op_stats = ''host.compartment.stats@1''"
definition op_journal :: string where "op_journal = ''host.journal.append@1''"
definition op_revoke :: string where "op_revoke = ''host.tokens.revoke@1''"
definition op_acquire :: string where "op_acquire = ''host.state.acquire@1''"
definition op_release :: string where "op_release = ''host.state.release@1''"
definition op_graph :: string where "op_graph = ''host.graph.snapshot@1''"
definition op_audit :: string where "op_audit = ''host.audit.chain@1''"

lemmas host_op_defs = op_spawn_def op_terminate_def op_stats_def op_journal_def op_revoke_def
  op_acquire_def op_release_def op_graph_def op_audit_def

definition HOST_OPS :: "string list" where
  "HOST_OPS = [op_spawn, op_terminate, op_stats, op_journal, op_revoke, op_acquire, op_release,
     op_graph, op_audit]"

definition cap_admin :: string where "cap_admin = ''host.compartment.admin''"
definition cap_journal :: string where "cap_journal = ''host.journal.append''"
definition cap_revoke :: string where "cap_revoke = ''host.tokens.revoke''"
definition cap_arbitration :: string where "cap_arbitration = ''host.state.arbitration''"
definition cap_lens :: string where "cap_lens = ''host.kernel.lens''"

lemmas host_cap_defs = cap_admin_def cap_journal_def cap_revoke_def cap_arbitration_def cap_lens_def

definition HOST_OP_TO_CAP :: "(string, string) jsmap" where
  "HOST_OP_TO_CAP =
     [(op_spawn, cap_admin), (op_terminate, cap_admin), (op_stats, cap_admin),
      (op_journal, cap_journal), (op_revoke, cap_revoke), (op_acquire, cap_arbitration),
      (op_release, cap_arbitration), (op_graph, cap_lens), (op_audit, cap_lens)]"

section \<open>Manifests (\<open>manifest.ts\<close>)\<close>

datatype contribution_kind =
  KSchema | KContract | KEngine | KProvider | KRuntime | KSurface | KPolicy | KPack | KTest | KLang | KParser

datatype risk_class = EXTERNAL_MUTATION | MUTATION | READ

datatype port_priority = Gate | Normal

record contribution =
  c_kind :: contribution_kind
  c_id :: string
  c_version :: string
  c_risk :: "risk_class option"
  c_priority :: "port_priority option"
  c_idempotent :: "bool option"
  c_cancellable :: "bool option"
  c_estimatedCostMs :: "int option"

record dependency_ref =
  dep_ref :: string
  dep_range :: string

datatype runtime_tier = WorkerThread | Process | Wasm

datatype granularity = Coarse | Atomic

record manifest =
  m_id :: string
  m_version :: string
  m_entry :: string
  m_contributions :: "(contribution_kind, contribution list) jsmap"
  m_dependencies :: "dependency_ref list"
  m_requested :: "string list"
  m_tier :: runtime_tier
  m_maxConcurrentCalls :: "nat option"
  m_contentHash :: string
  m_granularity :: "granularity option"
  m_internalSeams :: "string list option"
  m_extractionCandidate :: "bool option"

datatype honesty_error = AtomicWithSeams string | CandidateWithoutSeams string

definition validateManifestHonesty :: "manifest \<Rightarrow> honesty_error list" where
  "validateManifestHonesty m =
     (let gran = (case m_granularity m of None \<Rightarrow> Atomic | Some g \<Rightarrow> g);
          seams = (case m_internalSeams m of None \<Rightarrow> [] | Some s \<Rightarrow> s)
      in (if gran = Atomic \<and> length seams > 0 then [AtomicWithSeams (m_id m)] else []) @
         (if m_extractionCandidate m = Some True \<and> gran \<noteq> Atomic \<and> length seams = 0
          then [CandidateWithoutSeams (m_id m)] else []))"

definition op_ref :: "contribution \<Rightarrow> string" where
  "op_ref c = c_id c @ ''@'' @ c_version c"

definition contributions_of :: "manifest \<Rightarrow> contribution_kind \<Rightarrow> contribution list" where
  "contributions_of m k = (case map_get (m_contributions m) k of None \<Rightarrow> [] | Some cs \<Rightarrow> cs)"

definition routableOps :: "manifest \<Rightarrow> string list" where
  "routableOps m =
     concat (map (\<lambda>k. map op_ref (contributions_of m k)) [KContract, KEngine, KProvider])"

definition riskyOps :: "manifest \<Rightarrow> (string, risk_class) jsmap" where
  "riskyOps m =
     fold (\<lambda>c acc. case c_risk c of
                     None \<Rightarrow> acc
                   | Some r \<Rightarrow> if r \<noteq> READ then map_set (op_ref c) r acc else acc)
       (contributions_of m KContract) []"

section \<open>Recipes (\<open>recipe.ts\<close>)\<close>

record entry_grant =
  g_capabilities :: "string list"
  g_contracts :: "string list"

record composition_entry =
  ce_id :: string
  ce_version :: string
  ce_source :: string
  ce_manifestPath :: string
  ce_manifestHash :: string
  ce_contentHash :: string
  ce_grant :: entry_grant
  ce_bootPhase :: nat
  ce_config :: "json option"

record recipe =
  r_name :: string
  r_composition :: "composition_entry list"
  r_keyId :: string
  r_publicKey :: string
  r_signature :: string

section \<open>Lemmas\<close>

lemma checkStreamSeq_None:
  "0 \<le> prev \<Longrightarrow> checkStreamSeq prev c = None \<longleftrightarrow> sc_seq c = Some (prev + 1)"
  by (auto simp: checkStreamSeq_def STREAM_SEQ_START_def split: option.split)

lemma riskyOps_fold:
  "set (map_keys (fold (\<lambda>c acc. case c_risk c of
        None \<Rightarrow> acc | Some r \<Rightarrow> if r \<noteq> READ then map_set (op_ref c) r acc else acc) cs acc)) =
   set (map_keys acc) \<union> {op_ref c |c. c \<in> set cs \<and> c_risk c \<noteq> None \<and> c_risk c \<noteq> Some READ}"
proof (induction cs arbitrary: acc)
  case (Cons c cs)
  show ?case
    unfolding fold_Cons comp_apply Cons.IH
    by (cases "c_risk c") (auto simp: dom_update)
qed simp

lemma riskyOps_not_READ: "map_get (riskyOps m) op \<noteq> Some READ"
proof -
  have "map_get (fold (\<lambda>c acc. case c_risk c of
      None \<Rightarrow> acc | Some r \<Rightarrow> if r \<noteq> READ then map_set (op_ref c) r acc else acc) cs acc) op \<noteq> Some READ"
    if "map_get acc op \<noteq> Some READ" for cs acc
    using that by (induction cs arbitrary: acc) (auto split: option.split)
  then show ?thesis by (simp add: riskyOps_def)
qed

section \<open>Properties\<close>

text \<open>Stream law: a receiver accepts a sequence of chunks exactly when their sequence
  numbers are the integers from 1 on, with no gap and no duplicate.\<close>

theorem stream_accepts_contiguous:
  "stream_accepts 0 cs \<longleftrightarrow> map sc_seq cs = map Some [1..int (length cs)]"
proof -
  have "0 \<le> p \<Longrightarrow> stream_accepts p cs \<longleftrightarrow> map sc_seq cs = map Some [p + 1..p + int (length cs)]" for p
  proof (induction cs arbitrary: p)
    case (Cons c cs)
    have "[p + 1..p + int (length (c # cs))] = (p + 1) # [p + 2..p + 1 + int (length cs)]"
      by (simp add: upto_rec1 algebra_simps)
    with Cons show ?case by (simp add: checkStreamSeq_None algebra_simps)
  qed simp
  from this [of 0] show ?thesis by simp
qed

text \<open>Gating is complete: the ops the router gates are exactly the contract contributions
  with a declared risk other than READ, and every gated op is a routable one.\<close>

theorem riskyOps_complete:
  "(map_has (riskyOps m) op \<longleftrightarrow>
     (\<exists>c. c \<in> set (contributions_of m KContract) \<and> op_ref c = op \<and>
        (c_risk c = Some MUTATION \<or> c_risk c = Some EXTERNAL_MUTATION))) \<and>
   set (map_keys (riskyOps m)) \<subseteq> set (routableOps m)"
proof -
  have risk: "r \<noteq> None \<and> r \<noteq> Some READ \<longleftrightarrow> r = Some MUTATION \<or> r = Some EXTERNAL_MUTATION" for r
    by (cases r) (auto intro: risk_class.exhaust)
  have keys: "set (map_keys (riskyOps m)) =
      {op_ref c |c. c \<in> set (contributions_of m KContract) \<and>
        (c_risk c = Some MUTATION \<or> c_risk c = Some EXTERNAL_MUTATION)}"
    unfolding riskyOps_def riskyOps_fold risk by simp
  have "set (map_keys (riskyOps m)) \<subseteq> set (routableOps m)"
    unfolding keys by (auto simp: routableOps_def)
  then show ?thesis
    unfolding map_has_keys keys by auto
qed

text \<open>Honesty: a manifest passes exactly when seams are named by coarse plugins only, and
  every coarse extraction candidate names one.\<close>

theorem manifest_honest_iff:
  "validateManifestHonesty m = [] \<longleftrightarrow>
     (if m_granularity m = Some Coarse
      then \<not> (m_extractionCandidate m = Some True \<and>
                 (m_internalSeams m = None \<or> m_internalSeams m = Some []))
      else m_internalSeams m = None \<or> m_internalSeams m = Some [])"
proof -
  have "m_granularity m = None \<or> m_granularity m = Some Coarse \<or> m_granularity m = Some Atomic"
    by (metis granularity.exhaust option.exhaust)
  moreover have "m_internalSeams m = None \<or> m_internalSeams m = Some [] \<or>
      (\<exists>s ss. m_internalSeams m = Some (s # ss))"
    by (metis list.exhaust option.exhaust)
  ultimately show ?thesis
    by (auto simp: validateManifestHonesty_def Let_def)
qed

end
