(* ===== verification/Node_Path.thy ===== *)
theory Node_Path
  imports Omega_Prelude
begin

text \<open>
  What the sources use of \<open>node:path\<close>, on POSIX: absolute paths as lists of segments, \<open>resolve\<close>,
  \<open>join\<close> and \<open>relative\<close>, with the law the relative references of a recipe rest on.
\<close>

text \<open>\<open>path.resolve\<close> and \<open>path.relative\<close> on POSIX: an absolute path is the list of its segments.\<close>

definition is_absolute :: "string \<Rightarrow> bool" where
  "is_absolute p = starts_with p ''/''"

fun path_walk :: "string list \<Rightarrow> string list \<Rightarrow> string list" where
  "path_walk acc [] = acc"
| "path_walk acc (s # ss) =
     (if s = [] \<or> s = ''.'' then path_walk acc ss
      else if s = ''..'' then path_walk (butlast acc) ss
      else path_walk (acc @ [s]) ss)"

definition path_resolve :: "string \<Rightarrow> string \<Rightarrow> string list" where
  "path_resolve cwd p =
     path_walk [] (split_on (CHR ''/'') (if is_absolute p then p else cwd @ CHR ''/'' # p))"

fun path_relative :: "string list \<Rightarrow> string list \<Rightarrow> string list" where
  "path_relative (a # as) (b # bs) =
     (if a = b then path_relative as bs else map (\<lambda>_. ''..'') (a # as) @ b # bs)"
| "path_relative as bs = map (\<lambda>_. ''..'') as @ bs"

text \<open>\<open>resolve(base, p)\<close> and \<open>join(base, p)\<close> from an absolute base.\<close>

definition resolve_in :: "string list \<Rightarrow> string \<Rightarrow> string list" where
  "resolve_in base p = path_walk (if is_absolute p then [] else base) (split_on (CHR ''/'') p)"

definition join_in :: "string list \<Rightarrow> string \<Rightarrow> string list" where
  "join_in base p = path_walk base (split_on (CHR ''/'') p)"

definition relative_text :: "string list \<Rightarrow> string list \<Rightarrow> string" where
  "relative_text a b = join_with ''/'' (path_relative a b)"

text \<open>The segments of a normalised absolute path.\<close>

definition clean_segment :: "string \<Rightarrow> bool" where
  "clean_segment s \<longleftrightarrow> s \<noteq> [] \<and> s \<noteq> ''.'' \<and> s \<noteq> ''..'' \<and> CHR ''/'' \<notin> set s"

lemma path_walk_clean: "list_all clean_segment ss \<Longrightarrow> path_walk acc ss = acc @ ss"
  by (induction ss arbitrary: acc) (auto simp: clean_segment_def)

lemma path_walk_append: "path_walk acc (xs @ ys) = path_walk (path_walk acc xs) ys"
  by (induction acc xs rule: path_walk.induct) auto

lemma path_walk_up: "path_walk (acc @ as) (map (\<lambda>_. ''..'') as) = acc"
proof (induction as rule: rev_induct)
  case (snoc a as)
  have "path_walk (acc @ as @ [a]) (map (\<lambda>_. ''..'') (as @ [a])) = path_walk (butlast (acc @ as @ [a])) (map (\<lambda>_. ''..'') as)"
    by (cases as) (simp_all add: map_replicate_const replicate_append_same [symmetric])
  then show ?case using snoc by (simp add: butlast_append)
qed simp

lemma path_walk_relative:
  "list_all clean_segment b \<Longrightarrow> path_walk (acc @ a) (path_relative a b) = acc @ b"
proof (induction a b arbitrary: acc rule: path_relative.induct)
  case (1 a as b bs)
  show ?case
  proof (cases "a = b")
    case True
    then show ?thesis using "1.IH" [OF True, of "acc @ [b]"] "1.prems" by simp
  next
    case False
    then have "path_relative (a # as) (b # bs) = map (\<lambda>_. ''..'') (a # as) @ b # bs" by simp
    then show ?thesis
      using path_walk_clean [OF "1.prems"] by (simp only: path_walk_append path_walk_up)
  qed
qed (use path_walk_append path_walk_up path_walk_clean in \<open>simp_all del: path_walk.simps\<close>)

lemma path_relative_parts: "set (path_relative a b) \<subseteq> insert ''..'' (set b)"
  by (induction a b rule: path_relative.induct) auto

text \<open>A relative reference made with \<open>relative\<close> leads back to where it came from.\<close>

lemma relative_back:
  assumes "list_all clean_segment b"
  shows "join_in a (relative_text a b) = b" and "resolve_in a (relative_text a b) = b"
proof -
  let ?r = "path_relative a b"
  have slash: "\<forall>x \<in> set ?r. CHR ''/'' \<notin> set x"
    using path_relative_parts [of a b] assms by (auto simp: clean_segment_def list_all_iff)
  have walk: "path_walk a ?r = b" using path_walk_relative [OF assms, of "[]" a] by simp
  show j: "join_in a (relative_text a b) = b"
  proof (cases "?r = []")
    case True
    then show ?thesis using walk by (simp add: join_in_def relative_text_def)
  next
    case False
    then show ?thesis using walk split_join [OF False slash] by (simp add: join_in_def relative_text_def)
  qed
  have "\<not> is_absolute (relative_text a b)"
  proof (cases ?r)
    case (Cons x xs)
    then have "x \<noteq> []" "CHR ''/'' \<notin> set x"
      using path_relative_parts [of a b] assms by (auto simp: clean_segment_def list_all_iff)
    then show ?thesis using Cons by (cases x; cases xs) (auto simp: is_absolute_def starts_with_def relative_text_def)
  qed (simp add: is_absolute_def starts_with_def relative_text_def)
  then show "resolve_in a (relative_text a b) = b" using j by (simp add: resolve_in_def join_in_def)
qed

end
