(* ===== verification/Vault_Port.thy ===== *)
theory Vault_Port
  imports Vault_Ops Port_Contracts Node_Path
begin

text \<open>
  The vault as a plugin (\<open>plugins/vivim-vault/src/validate.ts, index.ts\<close>, the containment test of
  \<open>roundtrip.ts\<close>, and the delivery half of \<open>shim/src/index.ts\<close>): payload validation, one handler per
  op, and the conversion of what a handler returns or throws into the result of the port call.

  The plugin's state is the data directories of the machine, each holding the vault it stores, and
  which one is open. Handlers run to completion one after the other: every writing handler goes
  through \<open>enqueueWrite\<close>, and the reads are synchronous. What lies outside the repository is the
  parameter \<^typ>\<open>string\<close>-valued text of an exception, the platform's expansion of a directory name,
  FTS5's ranking, the clock and the working directory.
\<close>

section \<open>The target of a round trip\<close>

definition path_inside :: "string list \<Rightarrow> bool" where
  "path_inside rel \<longleftrightarrow> rel = [] \<or> \<not> starts_with (join_with ''/'' rel) ''..''"

text \<open>The guard of \<open>roundtrip\<close>: the segments of the target, or \<open>None\<close> where it throws.\<close>

definition roundtrip_target :: "string \<Rightarrow> string list \<Rightarrow> json \<Rightarrow> string list option" where
  "roundtrip_target cwd srcRoot targetDir =
     (case targetDir of
        JStr p \<Rightarrow>
          if p = [] \<or> \<not> is_absolute p then None
          else (let dstRoot = path_resolve cwd p in
                if path_inside (path_relative srcRoot dstRoot) \<or> path_inside (path_relative dstRoot srcRoot)
                then None else Some dstRoot)
      | _ \<Rightarrow> None)"

section \<open>Validation (\<open>validate.ts\<close>)\<close>

definition DEFAULT_DATA_DIR :: string where
  "DEFAULT_DATA_DIR = ''./dev-vault/vault-data''"

definition resolveDataDir :: "(string \<Rightarrow> string) \<Rightarrow> json \<Rightarrow> vault_error + string" where
  "resolveDataDir expandDataDir config =
     (case json_field config ''dataDir'' of
        JUndefined \<Rightarrow> Inr DEFAULT_DATA_DIR
      | JNull \<Rightarrow> Inr DEFAULT_DATA_DIR
      | JStr raw \<Rightarrow> if length raw = 0 then Inl BadDataDir else Inr (expandDataDir raw)
      | _ \<Rightarrow> Inl BadDataDir)"

definition NAME_FORBIDDEN :: "string \<Rightarrow> bool" where
  "NAME_FORBIDDEN s \<longleftrightarrow> list_ex (\<lambda>ch. ch = CHR 0x00 \<or> ch = CHR ''|'') s"

definition requireName :: "string \<Rightarrow> string \<Rightarrow> json \<Rightarrow> vault_error + string" where
  "requireName op fld value =
     (case value of
        JStr s \<Rightarrow>
          if length s = 0 then Inl (BadName op fld)
          else if length s > 256 then Inl (NameTooLong op fld)
          else if NAME_FORBIDDEN s then Inl (NameForbiddenChar op fld)
          else Inr s
      | _ \<Rightarrow> Inl (BadName op fld))"

definition requireObject :: "string \<Rightarrow> json \<Rightarrow> vault_error + json" where
  "requireObject op payload = (case payload of JObj kvs \<Rightarrow> Inr payload | _ \<Rightarrow> Inl (PayloadNotObject op))"

text \<open>A JSON number is an integer in the model, so \<open>Number.isInteger\<close> holds of every \<open>JNum\<close>.\<close>

definition requireInt :: "string \<Rightarrow> string \<Rightarrow> json \<Rightarrow> int \<Rightarrow> vault_error + int" where
  "requireInt op fld value mn =
     (case value of
        JUndefined \<Rightarrow> Inl (FieldRequired op fld)
      | JNull \<Rightarrow> Inl (FieldRequired op fld)
      | JNum n \<Rightarrow> if n < mn then Inl (BadInt op fld) else Inr n
      | _ \<Rightarrow> Inl (BadInt op fld))"

definition optionalInt :: "string \<Rightarrow> string \<Rightarrow> json \<Rightarrow> int \<Rightarrow> vault_error + int option" where
  "optionalInt op fld value mn =
     (if value = JUndefined \<or> value = JNull then Inr None
      else res_bind (requireInt op fld value mn) (\<lambda>n. Inr (Some n)))"

definition require_ref :: "string \<Rightarrow> nat \<times> json \<Rightarrow> vault_error + ref" where
  "require_ref op ir =
     (let at = ''refs['' @ show_nat (fst ir) @ '']'' in
      res_bind (requireObject (op @ '' '' @ at) (snd ir)) (\<lambda>r.
      res_bind (requireName op (at @ ''.ns'') (json_field r ''ns'')) (\<lambda>n.
      res_bind (requireName op (at @ ''.id'') (json_field r ''id'')) (\<lambda>i.
      res_bind (requireInt (op @ '' '' @ at) ''rev'' (json_field r ''rev'') 1) (\<lambda>v.
        Inr \<lparr>rf_ns = n, rf_id = i, rf_rev = v\<rparr>)))))"

definition requireRefs :: "string \<Rightarrow> json \<Rightarrow> vault_error + ref list" where
  "requireRefs op refs =
     (case refs of
        JUndefined \<Rightarrow> Inr []
      | JNull \<Rightarrow> Inr []
      | JArr rs \<Rightarrow> res_map (require_ref op) (enumerate 0 rs)
      | _ \<Rightarrow> Inl (RefsNotArray op))"

section \<open>The plugin's state\<close>

record vault_env =
  ve_crypto :: crypto
  ve_now :: int
  ve_fts :: "string \<Rightarrow> string \<Rightarrow> int option"
  ve_cwd :: string
  ve_expand :: "string \<Rightarrow> string"
  ve_error_text :: "vault_error \<Rightarrow> string"

record vault_plugin =
  vp_open :: "string list option"
  vp_dirs :: "(string list, vault) jsmap"

definition dir_vault :: "vault_plugin \<Rightarrow> string list \<Rightarrow> vault" where
  "dir_vault p d = (case map_get (vp_dirs p) d of None \<Rightarrow> empty_vault | Some v \<Rightarrow> v)"

definition put_vault :: "string list \<Rightarrow> vault \<Rightarrow> vault_plugin \<Rightarrow> vault_plugin" where
  "put_vault d v p = p\<lparr>vp_dirs := map_set d v (vp_dirs p)\<rparr>"

definition mustOpen :: "vault_plugin \<Rightarrow> vault_error + string list" where
  "mustOpen p = (case vp_open p of None \<Rightarrow> Inl NotInitialized | Some d \<Rightarrow> Inr d)"

definition vault_onInit :: "vault_env \<Rightarrow> json \<Rightarrow> vault_plugin \<Rightarrow> vault_error + vault_plugin" where
  "vault_onInit env config p =
     res_bind (resolveDataDir (ve_expand env) config) (\<lambda>dataDir.
       Inr (p\<lparr>vp_open := Some (path_resolve (ve_cwd env) dataDir)\<rparr>))"

definition vault_onShutdown :: "vault_plugin \<Rightarrow> vault_plugin" where
  "vault_onShutdown p = p\<lparr>vp_open := None\<rparr>"

section \<open>Handlers (\<open>index.ts\<close>)\<close>

type_synonym vault_handler = "vault_env \<Rightarrow> string \<Rightarrow> json \<Rightarrow> vault_plugin \<Rightarrow> (vault_error + json) \<times> vault_plugin"

text \<open>A handler that only reads, and one that writes the open vault.\<close>

definition reading :: "vault_plugin \<Rightarrow> (vault_error + (vault \<Rightarrow> vault_error + json)) \<Rightarrow> (vault_error + json) \<times> vault_plugin" where
  "reading p q = (res_bind q (\<lambda>f. res_bind (mustOpen p) (\<lambda>d. f (dir_vault p d))), p)"

definition writing :: "vault_plugin \<Rightarrow> (vault_error + (vault \<Rightarrow> (vault_error + json) \<times> vault)) \<Rightarrow> (vault_error + json) \<times> vault_plugin" where
  "writing p q =
     (case q of
        Inl e \<Rightarrow> (Inl e, p)
      | Inr f \<Rightarrow>
          (case mustOpen p of
             Inl e \<Rightarrow> (Inl e, p)
           | Inr d \<Rightarrow> (case f (dir_vault p d) of (r, v) \<Rightarrow> (r, put_vault d v p))))"

definition meta_rejected :: "json \<Rightarrow> bool" where
  "meta_rejected m = (case m of JUndefined \<Rightarrow> False | JNull \<Rightarrow> False | JObj _ \<Rightarrow> False | _ \<Rightarrow> True)"

text \<open>\<open>x ?? null\<close>.\<close>

definition or_null :: "json \<Rightarrow> json" where
  "or_null x = (if x = JUndefined then JNull else x)"

definition append_request :: "string \<Rightarrow> json \<Rightarrow> vault_error + append_input" where
  "append_request causationId payload =
     (let op = ''vault.append@1'' in
      res_bind (requireObject op payload) (\<lambda>p.
      res_bind (requireName op ''ns'' (json_field p ''ns'')) (\<lambda>ns.
      res_bind (requireName op ''id'' (json_field p ''id'')) (\<lambda>i.
        if json_field p ''data'' = JUndefined then Inl DataRequired
        else if meta_rejected (json_field p ''meta'') then Inl MetaNotObject
        else
          res_bind (requireRefs op (json_field p ''refs'')) (\<lambda>refs.
          res_bind (requireName op ''causationId'' (JStr causationId)) (\<lambda>ca.
            Inr \<lparr>ai_ns = ns, ai_id = i, ai_data = json_field p ''data'',
                 ai_meta = or_null (json_field p ''meta''),
                 ai_refs = refs, ai_causationId = ca\<rparr>))))))"

definition append_reply :: "append_result \<Rightarrow> json" where
  "append_reply r = JObj [(''rev'', JNum (int (ap_rev r))), (''cid'', JStr (ap_cid r)), (''seq'', JNum (int (ap_seq r)))]"

definition vault_append_handler :: vault_handler where
  "vault_append_handler env causationId payload p =
     writing p (res_bind (append_request causationId payload) (\<lambda>a.
       Inr (\<lambda>v. case appendObject (ve_crypto env) v a of (r, v') \<Rightarrow> (res_bind r (\<lambda>x. Inr (append_reply x)), v'))))"

definition object_reply :: "object_record \<Rightarrow> json" where
  "object_reply o1 = JObj [(''rev'', JNum (int (or_rev o1))), (''cid'', JStr (or_cid o1)), (''data'', or_data o1),
     (''meta'', or_meta o1), (''refs'', JArr (map ref_json (or_refs o1)))]"

definition vault_get_handler :: vault_handler where
  "vault_get_handler env causationId payload p =
     (let op = ''vault.get@1'' in
      reading p
        (res_bind (requireObject op payload) (\<lambda>q.
         res_bind (requireName op ''ns'' (json_field q ''ns'')) (\<lambda>ns.
         res_bind (requireName op ''id'' (json_field q ''id'')) (\<lambda>i.
         res_bind (optionalInt op ''rev'' (json_field q ''rev'') 1) (\<lambda>rv.
           Inr (\<lambda>v. res_bind (readObject v ns i rv) (\<lambda>x. Inr (object_reply x)))))))))"

fun nonempty_strings :: "json list \<Rightarrow> string list option" where
  "nonempty_strings [] = Some []"
| "nonempty_strings (JStr s # xs) =
     (if length s = 0 then None else map_option (\<lambda>ss. s # ss) (nonempty_strings xs))"
| "nonempty_strings _ = None"

definition many_reply :: "many_row \<Rightarrow> json" where
  "many_reply r =
     (case mr_found r of
        None \<Rightarrow> JObj [(''id'', JStr (mr_id r)), (''found'', JBool False)]
      | Some (rv, cid, d, m) \<Rightarrow>
          JObj [(''id'', JStr (mr_id r)), (''found'', JBool True), (''rev'', JNum (int rv)), (''cid'', JStr cid),
                (''data'', d), (''meta'', m)])"

definition vault_getmany_handler :: vault_handler where
  "vault_getmany_handler env causationId payload p =
     (let op = ''vault.getmany@1'' in
      reading p
        (res_bind (requireObject op payload) (\<lambda>q.
         res_bind (requireName op ''ns'' (json_field q ''ns'')) (\<lambda>ns.
           case json_field q ''ids'' of
             JArr xs \<Rightarrow>
               (case nonempty_strings xs of
                  None \<Rightarrow> Inl IdsNotStrings
                | Some ids \<Rightarrow>
                    if length (uniq ids) > GET_MANY_BOUND then Inl (TooManyIds (length (uniq ids)))
                    else Inr (\<lambda>v. res_bind (readObjects v ns ids) (\<lambda>rs. Inr (JArr (map many_reply rs)))))
           | _ \<Rightarrow> Inl IdsNotStrings))))"

definition query_reply :: "query_row \<Rightarrow> json" where
  "query_reply r = JObj [(''id'', JStr (qr_id r)), (''rev'', JNum (int (qr_rev r))), (''cid'', JStr (qr_cid r))]"

definition vault_query_handler :: vault_handler where
  "vault_query_handler env causationId payload p =
     (let op = ''vault.query@1'' in
      reading p
        (res_bind (requireObject op payload) (\<lambda>q.
         res_bind (requireName op ''ns'' (json_field q ''ns'')) (\<lambda>ns.
         res_bind (let f = json_field q ''filter'' in
                   if f = JUndefined \<or> f = JNull then Inr (JObj []) else requireObject (op @ '' filter'') f) (\<lambda>f.
         res_bind (let x = json_field f ''idPrefix'' in
                   if x = JUndefined \<or> x = JNull then Inr None
                   else res_bind (requireName op ''filter.idPrefix'' x) (\<lambda>s. Inr (Some s))) (\<lambda>idPrefix.
         res_bind (optionalInt op ''filter.minRev'' (json_field f ''minRev'') 0) (\<lambda>minRev.
           Inr (\<lambda>v. Inr (JArr (map query_reply (queryObjects v ns idPrefix minRev)))))))))))"

definition search_reply :: "search_row \<Rightarrow> json" where
  "search_reply r = JObj [(''id'', JStr (sr_id r)), (''rev'', JNum (int (sr_rev r))),
     (''cid'', case sr_cid r of None \<Rightarrow> JNull | Some s \<Rightarrow> JStr s), (''rank'', JNum (sr_rank r))]"

definition vault_search_handler :: vault_handler where
  "vault_search_handler env causationId payload p =
     (let op = ''vault.search@1'' in
      reading p
        (res_bind (requireObject op payload) (\<lambda>q.
         res_bind (requireName op ''ns'' (json_field q ''ns'')) (\<lambda>ns.
           case json_field q ''q'' of
             JStr s \<Rightarrow>
               if length s = 0 then Inl BadQuery
               else Inr (\<lambda>v. Inr (JArr (map search_reply (searchObjects (ve_fts env) v ns s))))
           | _ \<Rightarrow> Inl BadQuery))))"

text \<open>The verdict's prose (\<open>detail\<close>) is left out of the reply.\<close>

definition verify_reply :: "verify_result \<Rightarrow> json" where
  "verify_reply r = JObj ([(''ok'', JBool (vr_ok r)), (''headHash'', JStr (vr_headHash r)),
     (''entries'', JNum (int (vr_entries r)))] @
     (case vr_corruptAt r of None \<Rightarrow> [] | Some n \<Rightarrow> [(''corruptAt'', JNum (int n))]))"

definition vault_verify_handler :: vault_handler where
  "vault_verify_handler env causationId payload p =
     reading p (Inr (\<lambda>v. Inr (verify_reply (verify (ve_crypto env) v))))"

definition compact_reply :: "compact_result \<Rightarrow> json" where
  "compact_reply r = JObj [(''moved'', JNum (int (cp_moved r))), (''kept'', JNum (int (cp_kept r))),
     (''protected'', JNum (int (cp_protected r)))]"

definition vault_compact_handler :: vault_handler where
  "vault_compact_handler env causationId payload p =
     (let op = ''vault.compact@1'' in
      writing p
        (res_bind (requireObject op payload) (\<lambda>q.
         res_bind (requireName op ''ns'' (json_field q ''ns'')) (\<lambda>ns.
         res_bind (requireInt op ''keep'' (json_field q ''keep'') 1) (\<lambda>keep.
           Inr (\<lambda>v. case compact (ve_now env) v ns keep of (r, v') \<Rightarrow>
                 (res_bind r (\<lambda>x. Inr (compact_reply x)), v')))))))"

definition roundtrip_reply :: "roundtrip_result \<Rightarrow> json" where
  "roundtrip_reply r = JObj [(''ok'', JBool (rt_ok r)), (''entries'', JNum (int (rt_entries r))),
     (''headHash'', JStr (rt_headHash r)), (''blobsCopied'', JNum (int (rt_blobsCopied r)))]"

definition vault_roundtrip_handler :: vault_handler where
  "vault_roundtrip_handler env causationId payload p =
     (case requireObject ''vault.roundtrip@1'' payload of
        Inl e \<Rightarrow> (Inl e, p)
      | Inr q \<Rightarrow>
          (case mustOpen p of
             Inl e \<Rightarrow> (Inl e, p)
           | Inr d \<Rightarrow>
               (case roundtrip_target (ve_cwd env) d (json_field q ''targetDir'') of
                  None \<Rightarrow> (Inl BadTarget, p)
                | Some t \<Rightarrow>
                    (case roundtrip (ve_crypto env) True (dir_vault p d) (dir_vault p t) of
                       (r, v') \<Rightarrow> (res_bind r (\<lambda>x. Inr (roundtrip_reply x)), put_vault t v' p)))))"

section \<open>Delivery (\<open>shim/src/index.ts\<close>)\<close>

definition vault_handlers :: "(string, vault_handler) jsmap" where
  "vault_handlers =
     [(''vault.append@1'', vault_append_handler), (''vault.get@1'', vault_get_handler),
      (''vault.getmany@1'', vault_getmany_handler), (''vault.query@1'', vault_query_handler),
      (''vault.search@1'', vault_search_handler), (''vault.verify@1'', vault_verify_handler),
      (''vault.compact@1'', vault_compact_handler), (''vault.roundtrip@1'', vault_roundtrip_handler)]"

definition shim_result :: "('e \<Rightarrow> string) \<Rightarrow> string \<Rightarrow> 'e + json \<Rightarrow> port_result" where
  "shim_result text_of op r =
     (case r of
        Inr value \<Rightarrow> POk (or_null value) (Some CURRENT) None
      | Inl e \<Rightarrow> err_detail DEGRADED (''handler '' @ op @ '' threw: '' @ text_of e))"

definition vault_deliver :: "vault_env \<Rightarrow> string \<Rightarrow> string \<Rightarrow> json \<Rightarrow> vault_plugin \<Rightarrow> port_result \<times> vault_plugin" where
  "vault_deliver env causationId op payload p =
     (case map_get vault_handlers op of
        None \<Rightarrow> (err_detail REFUSED (''no handler for '' @ op), p)
      | Some h \<Rightarrow>
          (case h env causationId payload p of
             (r, p') \<Rightarrow> (shim_result (ve_error_text env) op r, p')))"

end
