(* ===== verification/Vault_Service.thy ===== *)
theory Vault_Service
  imports Vault_Safety Vault_Port
begin

text \<open>
  What the delivered vault keeps: the soundness of every data directory under every delivery, the
  guard of the round trip, and what a refused delivery leaves behind.
\<close>

section \<open>The copy keeps a directory sound\<close>

lemma fold_put_blobs:
  assumes "blobs_ok c dst" and "\<And>k t. (k, t) \<in> set src \<Longrightarrow> CID_RE k \<and> k = sha256Hex c t \<and> (\<exists>d. json_parse t = Some d \<and> storable d)"
  shows "blobs_ok c (fold (\<lambda>(k, t). map_set k t) src dst) \<and>
    set (map_keys (fold (\<lambda>(k, t). map_set k t) src dst)) = set (map_keys dst) \<union> set (map_keys src)"
  using assms
proof (induction src arbitrary: dst)
  case (Cons kt src)
  obtain k t where kt: "kt = (k, t)" by (cases kt)
  have "blobs_ok c (map_set k t dst)"
    using Cons.prems(1) Cons.prems(2) [of k t] by (auto simp: blobs_ok_def kt distinct_update simp del: map_of_eq_Some_iff)
  from Cons.IH [OF this Cons.prems(2)] keys_map_set [of k t dst] show ?case by (simp add: kt)
qed simp

lemma blobs_ok_mem: "blobs_ok c m \<Longrightarrow> (k, t) \<in> set m \<Longrightarrow> CID_RE k \<and> k = sha256Hex c t \<and> (\<exists>d. json_parse t = Some d \<and> storable d)"
  unfolding blobs_ok_def by (metis map_of_eq_Some_iff)

lemma casCopyAll_ok:
  assumes "blobs_ok c src" and "blobs_ok c dst"
  shows "blobs_ok c (fst (casCopyAll src dst))"
    and "map_has src k \<or> map_has dst k \<Longrightarrow> map_has (fst (casCopyAll src dst)) k"
  using fold_put_blobs [OF assms(2) blobs_ok_mem [OF assms(1)]]
  unfolding casCopyAll_def Let_def blobs_ok_cids [OF assms(1)] fst_conv map_has_keys by auto

lemma vault_ok_more_blobs:
  assumes "vault_ok c v" and "blobs_ok c m" and "\<And>k. map_has (v_cas v) k \<Longrightarrow> map_has m k"
  shows "vault_ok c (v\<lparr>v_cas := m\<rparr>)"
proof -
  have "list_all (row_ok m) (all_rows v)"
    using vault_okD(4) [OF assms(1)] row_ok_mono [OF assms(3)] by (auto simp: list_all_iff)
  with assms show ?thesis by (simp add: vault_ok_def all_rows_def newest_hot_def fts_ok_def)
qed

lemma empty_log_no_rows: "vault_ok c v \<Longrightarrow> v_log v = [] \<Longrightarrow> v_objects v = [] \<and> v_cold v = [] \<and> v_fts v = []"
  by (auto simp: vault_ok_def all_rows_def fts_ok_def)

lemma both_logs_clash:
  assumes "vault_ok c v" and "vault_ok c w" and "v_log v \<noteq> []" and "v_log w \<noteq> []"
  shows "seq_clash (v_log v) (v_log w)"
proof -
  have "cl_seq (hd (v_log x)) = 1 \<and> hd (v_log x) \<in> set (v_log x)" if "vault_ok c x" "v_log x \<noteq> []" for x
    using vault_okD(1) [OF that(1)] that(2) by (cases "v_log x") (auto simp: log_ok_def cl_entry_ok_def)
  from this [OF assms(1,3)] this [OF assms(2,4)] show ?thesis
    by (auto simp: seq_clash_def list_ex_iff intro!: bexI [of _ "hd (v_log v)"] image_eqI [of _ _ "hd (v_log w)"])
qed

lemma fts_rebuild_keys:
  assumes "blobs_ok c m" and "\<And>r. r \<in> set rows \<Longrightarrow> map_has m (ow_cid r)"
  shows "map fx_key (fts_rebuild m rows fts) = map fx_key fts @ map ow_key rows"
  using assms(2)
proof (induction rows arbitrary: fts)
  case (Cons r rows)
  obtain t where t: "map_get m (ow_cid r) = Some t" using Cons.prems [of r] by auto
  then obtain d where d: "CID_RE (ow_cid r)" "json_parse t = Some d" "storable d"
    using assms(1) unfolding blobs_ok_def by blast
  then obtain s where "canonicalJson d = Inr s" using canonical_total by blast
  then obtain b where b: "bodyText d = Inr b" using bodyText_total by blast
  have "casGet m (ow_cid r) = Inr d" using t d by (simp add: casGet_def casPath_def res_bind_def)
  with Cons b show ?case by (simp add: fts_rebuild_def fts_insert_def fx_key_def ow_key_def)
qed (simp add: fts_rebuild_def)

lemma roundtrip_ok:
  assumes "vault_ok c v" and "vault_ok c w"
  shows "vault_ok c (snd (roundtrip c disjoint v w))"
proof -
  let ?m = "fst (casCopyAll (v_cas v) (v_cas w))"
  note m = casCopyAll_ok [OF vault_okD(3) [OF assms(1)] vault_okD(3) [OF assms(2)]]
  have w: "vault_ok c (w\<lparr>v_cas := ?m\<rparr>)" by (rule vault_ok_more_blobs [OF assms(2) m(1)]) (rule m(2), simp)
  have v: "vault_ok c (v\<lparr>v_cas := ?m\<rparr>)" by (rule vault_ok_more_blobs [OF assms(1) m(1)]) (rule m(2), simp)
  consider "\<not> disjoint" | "seq_clash (v_log v) (v_log w)" | "v_log v = []" | "v_log w = []"
    using both_logs_clash [OF assms] by blast
  then show ?thesis
  proof cases
    case 1
    then show ?thesis using assms(2) by (simp add: roundtrip_def)
  next
    case 2
    then show ?thesis using assms(2) w by (simp add: roundtrip_def split_def Let_def)
  next
    case 3
    note e = empty_log_no_rows [OF assms(1) 3]
    have "w\<lparr>v_cas := ?m, v_log := v_log w, v_objects := v_objects w, v_cold := v_cold w, v_fts := v_fts w\<rparr> = w\<lparr>v_cas := ?m\<rparr>"
      by (cases w) simp
    then show ?thesis using assms(2) w e 3
      by (simp add: roundtrip_def split_def Let_def log_rows_def fts_rebuild_def)
  next
    case 4
    note e = empty_log_no_rows [OF assms(2) 4]
    have has: "map_has ?m (ow_cid r)" if "r \<in> set (v_objects v)" for r
      using vault_okD(4) [OF v] that by (simp add: list_all_iff row_ok_def all_rows_def)
    have "vault_ok c (v\<lparr>v_cas := ?m, v_fts := fts_rebuild ?m (v_objects v) []\<rparr>)"
      using v fts_rebuild_keys [OF m(1) has, of "v_objects v" "[]"]
      by (simp add: vault_ok_def all_rows_def newest_hot_def fts_ok_def)
    then have "vault_ok c (w\<lparr>v_cas := ?m, v_log := v_log v, v_objects := v_objects v, v_cold := v_cold v,
        v_fts := fts_rebuild ?m (v_objects v) []\<rparr>)"
      by (simp add: vault_ok_def all_rows_def newest_hot_def fts_ok_def)
    moreover have "log_rows v = v_log v"
      using vault_okD(1) [OF assms(1)] walk_sorted unfolding log_ok_def log_rows_def by blast
    ultimately show ?thesis using assms(2) w e 4
      by (simp add: roundtrip_def split_def Let_def)
  qed
qed

section \<open>Every directory stays sound\<close>

definition plugin_ok :: "crypto \<Rightarrow> vault_plugin \<Rightarrow> bool" where
  "plugin_ok c p \<longleftrightarrow> (\<forall>d. vault_ok c (dir_vault p d))"

datatype vault_call =
    Deliver vault_env string string json
  | Init vault_env json
  | Shutdown

fun plugin_step :: "vault_plugin \<Rightarrow> vault_call \<Rightarrow> vault_plugin" where
  "plugin_step p (Deliver env causationId op payload) = snd (vault_deliver env causationId op payload p)"
| "plugin_step p (Init env config) = (case vault_onInit env config p of Inl _ \<Rightarrow> p | Inr p' \<Rightarrow> p')"
| "plugin_step p Shutdown = vault_onShutdown p"

fun call_crypto :: "crypto \<Rightarrow> vault_call \<Rightarrow> bool" where
  "call_crypto c (Deliver env _ _ _) = (ve_crypto env = c)"
| "call_crypto c _ = True"

definition fresh_plugin :: vault_plugin where
  "fresh_plugin = \<lparr>vp_open = None, vp_dirs = []\<rparr>"

definition plugin_run :: "vault_call list \<Rightarrow> vault_plugin" where
  "plugin_run xs = foldl plugin_step fresh_plugin xs"

lemma dir_put [simp]: "dir_vault (put_vault d v p) e = (if e = d then v else dir_vault p e)"
  by (simp add: dir_vault_def put_vault_def)

lemma plugin_ok_put: "plugin_ok c p \<Longrightarrow> vault_ok c v \<Longrightarrow> plugin_ok c (put_vault d v p)"
  by (simp add: plugin_ok_def)

lemma reading_keeps [simp]: "snd (reading p q) = p"
  by (simp add: reading_def)

lemma writing_cases:
  assumes "writing p q = (r, p')"
  obtains (thrown) e where "r = Inl e" and "p' = p"
    | (ran) f d v where "q = Inr f" and "vp_open p = Some d" and "f (dir_vault p d) = (r, v)" and "p' = put_vault d v p"
proof (cases q)
  case (Inl e)
  then show ?thesis using assms by (intro thrown [of e]) (simp_all add: writing_def)
next
  case (Inr f)
  show ?thesis
  proof (cases "vp_open p")
    case None
    then show ?thesis using assms Inr by (intro thrown [of NotInitialized]) (simp_all add: writing_def mustOpen_def)
  next
    case (Some d)
    then show ?thesis using assms Inr
      by (intro ran [of f d "snd (f (dir_vault p d))"]) (simp_all add: writing_def mustOpen_def split_def prod_eq_iff)
  qed
qed

lemma requireName_no_bar: "requireName op fld x = Inr s \<Longrightarrow> no_bar s \<and> x = JStr s \<and> s \<noteq> []"
  by (auto simp: requireName_def NAME_FORBIDDEN_def no_bar_def list_ex_iff split: json.splits if_splits)

lemma append_request_input:
  assumes "append_request ca payload = Inr a"
  shows "no_bar (ai_ns a) \<and> no_bar (ai_id a) \<and> no_bar (ai_causationId a) \<and> ai_data a \<noteq> JUndefined"
proof -
  from assms obtain p ns i refs x where "requireName ''vault.append@1'' ''ns'' (json_field p ''ns'') = Inr ns"
    and "requireName ''vault.append@1'' ''id'' (json_field p ''id'') = Inr i"
    and "json_field p ''data'' \<noteq> JUndefined" and "requireName ''vault.append@1'' ''causationId'' (JStr ca) = Inr x"
    and "a = \<lparr>ai_ns = ns, ai_id = i, ai_data = json_field p ''data'',
          ai_meta = or_null (json_field p ''meta''), ai_refs = refs, ai_causationId = x\<rparr>"
    by (auto simp: append_request_def Let_def res_bind_Inr split: if_splits)
  then show ?thesis using requireName_no_bar by auto
qed

lemma appendObject_unstorable:
  "\<not> storable (ai_data a) \<Longrightarrow> appendObject c v a = (Inl Unencodable, v)"
  using canonical_total [of "ai_data a"] by (auto simp: appendObject_def casPut_def split: sum.splits)

lemma append_cases:
  assumes "sha_hex c" and "vault_ok c v" and "append_request ca payload = Inr a" and "appendObject c v a = (r, v')"
  shows "vault_ok c v' \<and> (case r of Inl _ \<Rightarrow> v' = v | Inr _ \<Rightarrow> storable (ai_data a))"
proof (cases "storable (ai_data a)")
  case True
  then have "input_ok a" using append_request_input [OF assms(3)] by (simp add: input_ok_def)
  then show ?thesis
    by (rule appendObject_ok [OF assms(1,2)]) (use assms(4) True in simp)
next
  case False
  then show ?thesis using assms(2,4) by (auto simp: appendObject_unstorable)
qed

lemma compact_cases:
  assumes "vault_ok c v" and "compact now v ns keep = (r, v')"
  shows "vault_ok c v' \<and> (case r of Inl _ \<Rightarrow> v' = v | Inr _ \<Rightarrow> True)"
proof (cases "ns = [] \<or> keep < 1")
  case True
  then show ?thesis using assms by (auto simp: compact_def split: if_splits)
next
  case False
  then have "ns \<noteq> []" and "1 \<le> keep" by auto
  then show ?thesis
    by (rule compact_effect [OF assms(1), where now = now]) (use assms(2) in simp)
qed

text \<open>What every handler keeps: all directories sound, the same one open, and the open vault as it was
  when the handler throws.\<close>

definition open_vault :: "vault_plugin \<Rightarrow> vault option" where
  "open_vault p = map_option (dir_vault p) (vp_open p)"

definition keeps :: "crypto \<Rightarrow> vault_handler \<Rightarrow> bool" where
  "keeps c h \<longleftrightarrow> (\<forall>env ca payload p. ve_crypto env = c \<longrightarrow> plugin_ok c p \<longrightarrow>
     (case h env ca payload p of (r, p') \<Rightarrow> plugin_ok c p' \<and> vp_open p' = vp_open p \<and>
        (case r of Inl _ \<Rightarrow> open_vault p' = open_vault p | Inr _ \<Rightarrow> True)))"

lemma keepsI:
  assumes "\<And>env ca payload p r p'. ve_crypto env = c \<Longrightarrow> plugin_ok c p \<Longrightarrow> h env ca payload p = (r, p') \<Longrightarrow>
    plugin_ok c p' \<and> vp_open p' = vp_open p \<and> (case r of Inl _ \<Rightarrow> open_vault p' = open_vault p | Inr _ \<Rightarrow> True)"
  shows "keeps c h"
  using assms by (auto simp: keeps_def split: prod.splits)

lemma keeps_reading:
  assumes "\<And>env ca payload p. \<exists>q. h env ca payload p = reading p q"
  shows "keeps c h"
proof (rule keepsI)
  fix env ca payload p r p'
  assume "plugin_ok c p" and run: "h env ca payload p = (r, p')"
  moreover obtain q where "h env ca payload p = reading p q" using assms by blast
  ultimately have "p' = p" by (metis reading_keeps snd_conv)
  with \<open>plugin_ok c p\<close> show "plugin_ok c p' \<and> vp_open p' = vp_open p \<and>
      (case r of Inl _ \<Rightarrow> open_vault p' = open_vault p | Inr _ \<Rightarrow> True)"
    by (simp split: sum.split)
qed

lemma keeps_writing:
  assumes "\<And>env ca payload p. h env ca payload p = writing p (q env ca payload)"
    and "\<And>env ca payload f v r v'. ve_crypto env = c \<Longrightarrow> q env ca payload = Inr f \<Longrightarrow> vault_ok c v \<Longrightarrow> f v = (r, v') \<Longrightarrow>
      vault_ok c v' \<and> (case r of Inl _ \<Rightarrow> v' = v | Inr _ \<Rightarrow> True)"
  shows "keeps c h"
proof (rule keepsI)
  fix env ca payload p r p'
  assume c: "ve_crypto env = c" and ok: "plugin_ok c p" and run: "h env ca payload p = (r, p')"
  have w: "writing p (q env ca payload) = (r, p')" using assms(1) run by simp
  show "plugin_ok c p' \<and> vp_open p' = vp_open p \<and> (case r of Inl _ \<Rightarrow> open_vault p' = open_vault p | Inr _ \<Rightarrow> True)"
    using w
  proof (cases rule: writing_cases)
    case (thrown e)
    then show ?thesis using ok by simp
  next
    case (ran f d v)
    have "vault_ok c (dir_vault p d)" using ok by (simp add: plugin_ok_def)
    from assms(2) [OF c ran(1) this ran(3)] show ?thesis
      using ran(2,4) plugin_ok_put [OF ok] by (auto simp: open_vault_def put_vault_def dir_vault_def split: sum.splits)
  qed
qed

lemma target_elsewhere: "roundtrip_target cwd d x = Some t \<Longrightarrow> t \<noteq> d"
proof -
  have "path_relative d d = []" by (induction d) simp_all
  then show "roundtrip_target cwd d x = Some t \<Longrightarrow> t \<noteq> d"
    by (auto simp: roundtrip_target_def path_inside_def Let_def split: json.splits if_splits)
qed

lemma roundtrip_handler_cases:
  assumes "vault_roundtrip_handler env ca payload p = (r, p')"
  obtains (thrown) e where "r = Inl e" and "p' = p"
    | (copied) d t where "vp_open p = Some d" and "t \<noteq> d"
        and "p' = put_vault t (snd (roundtrip (ve_crypto env) True (dir_vault p d) (dir_vault p t))) p"
proof (cases "requireObject ''vault.roundtrip@1'' payload")
  case (Inl e)
  then show ?thesis using assms by (intro thrown [of e]) (simp_all add: vault_roundtrip_handler_def)
next
  case q: (Inr q)
  show ?thesis
  proof (cases "vp_open p")
    case None
    then show ?thesis using assms q
      by (intro thrown [of NotInitialized]) (simp_all add: vault_roundtrip_handler_def mustOpen_def)
  next
    case d: (Some d)
    show ?thesis
    proof (cases "roundtrip_target (ve_cwd env) d (json_field q ''targetDir'')")
      case None
      then show ?thesis using assms q d
        by (intro thrown [of BadTarget]) (simp_all add: vault_roundtrip_handler_def mustOpen_def)
    next
      case (Some t)
      then show ?thesis using assms q d target_elsewhere [OF Some]
        by (intro copied [of d t]) (simp_all add: vault_roundtrip_handler_def mustOpen_def split_def prod_eq_iff)
    qed
  qed
qed

lemma handlers_keep:
  assumes "sha_hex c"
  shows "keeps c vault_append_handler" and "keeps c vault_get_handler" and "keeps c vault_getmany_handler"
    and "keeps c vault_query_handler" and "keeps c vault_search_handler" and "keeps c vault_verify_handler"
    and "keeps c vault_compact_handler" and "keeps c vault_roundtrip_handler"
proof -
  show "keeps c vault_get_handler" "keeps c vault_getmany_handler" "keeps c vault_query_handler"
    "keeps c vault_search_handler" "keeps c vault_verify_handler"
    unfolding vault_get_handler_def vault_getmany_handler_def vault_query_handler_def
      vault_search_handler_def vault_verify_handler_def Let_def
    by (rule keeps_reading, blast)+
  show "keeps c vault_append_handler"
  proof (rule keeps_writing [OF vault_append_handler_def])
    fix env ca payload f v r v'
    assume c: "ve_crypto env = c" and v: "vault_ok c v" and run: "f v = (r, v')"
      and "res_bind (append_request ca payload)
         (\<lambda>a. Inr (\<lambda>v. case appendObject (ve_crypto env) v a of (r, v') \<Rightarrow> (res_bind r (\<lambda>x. Inr (append_reply x)), v'))) = Inr f"
    then obtain a where a: "append_request ca payload = Inr a"
      and f: "f v = (res_bind (fst (appendObject c v a)) (\<lambda>x. Inr (append_reply x)), snd (appendObject c v a))"
      by (auto simp: res_bind_Inr split_def)
    from append_cases [OF assms v a, of "fst (appendObject c v a)" "snd (appendObject c v a)"] f run
    show "vault_ok c v' \<and> (case r of Inl _ \<Rightarrow> v' = v | Inr _ \<Rightarrow> True)"
      by (auto simp: res_bind_def split: sum.splits)
  qed
  show "keeps c vault_compact_handler"
  proof (rule keeps_writing [OF vault_compact_handler_def [unfolded Let_def]])
    fix env payload f v r v'
    assume v: "vault_ok c v" and run: "f v = (r, v')"
      and "res_bind (requireObject ''vault.compact@1'' payload) (\<lambda>q.
         res_bind (requireName ''vault.compact@1'' ''ns'' (json_field q ''ns'')) (\<lambda>ns.
         res_bind (requireInt ''vault.compact@1'' ''keep'' (json_field q ''keep'') 1) (\<lambda>keep.
           Inr (\<lambda>v. case compact (ve_now env) v ns keep of (r, v') \<Rightarrow> (res_bind r (\<lambda>x. Inr (compact_reply x)), v'))))) = Inr f"
    then obtain ns keep where f: "f v = (res_bind (fst (compact (ve_now env) v ns keep)) (\<lambda>x. Inr (compact_reply x)),
        snd (compact (ve_now env) v ns keep))"
      by (auto simp: res_bind_Inr split_def)
    from compact_cases [OF v, of "ve_now env" ns keep "fst (compact (ve_now env) v ns keep)" "snd (compact (ve_now env) v ns keep)"] f run
    show "vault_ok c v' \<and> (case r of Inl _ \<Rightarrow> v' = v | Inr _ \<Rightarrow> True)"
      by (auto simp: res_bind_def split: sum.splits)
  qed
  show "keeps c vault_roundtrip_handler"
  proof (rule keepsI)
    fix env ca payload p r p'
    assume c: "ve_crypto env = c" and ok: "plugin_ok c p" and run: "vault_roundtrip_handler env ca payload p = (r, p')"
    from run show "plugin_ok c p' \<and> vp_open p' = vp_open p \<and> (case r of Inl _ \<Rightarrow> open_vault p' = open_vault p | Inr _ \<Rightarrow> True)"
    proof (cases rule: roundtrip_handler_cases)
      case (thrown e)
      then show ?thesis using ok by simp
    next
      case (copied d t)
      have "vault_ok c (snd (roundtrip c True (dir_vault p d) (dir_vault p t)))"
        using ok by (intro roundtrip_ok) (simp_all add: plugin_ok_def)
      then show ?thesis using copied c plugin_ok_put [OF ok]
        by (auto simp: open_vault_def put_vault_def dir_vault_def split: sum.split)
    qed
  qed
qed

lemma handler_keeps: "sha_hex c \<Longrightarrow> map_get vault_handlers op = Some h \<Longrightarrow> keeps c h"
  by (auto simp: vault_handlers_def handlers_keep split: if_splits)

lemma deliver_keeps:
  assumes "sha_hex c" and "ve_crypto env = c" and "plugin_ok c p"
  shows "plugin_ok c (snd (vault_deliver env ca op payload p)) \<and>
    vp_open (snd (vault_deliver env ca op payload p)) = vp_open p \<and>
    (\<not> is_ok (fst (vault_deliver env ca op payload p)) \<longrightarrow> open_vault (snd (vault_deliver env ca op payload p)) = open_vault p)"
proof (cases "map_get vault_handlers op")
  case None
  then show ?thesis using assms(3) by (simp add: vault_deliver_def)
next
  case (Some h)
  obtain r p' where run: "h env ca payload p = (r, p')" by fastforce
  have "plugin_ok c p' \<and> vp_open p' = vp_open p \<and> (case r of Inl _ \<Rightarrow> open_vault p' = open_vault p | Inr _ \<Rightarrow> True)"
    using handler_keeps [OF assms(1) Some, unfolded keeps_def, rule_format, OF assms(2,3), of ca payload] run by simp
  then show ?thesis using Some run
    by (auto simp: vault_deliver_def shim_result_def is_ok_def split: sum.splits)
qed

lemma plugin_run_ok:
  assumes "sha_hex c"
  shows "list_all (call_crypto c) xs \<Longrightarrow> plugin_ok c (plugin_run xs)"
proof -
  have "plugin_ok c p \<Longrightarrow> call_crypto c x \<Longrightarrow> plugin_ok c (plugin_step p x)" for p x
  proof (cases x)
    case (Init env config)
    then show "plugin_ok c p \<Longrightarrow> plugin_ok c (plugin_step p x)"
      by (auto simp: vault_onInit_def res_bind_def plugin_ok_def dir_vault_def split: sum.splits)
  qed (use deliver_keeps [OF assms] in \<open>auto simp: vault_onShutdown_def plugin_ok_def dir_vault_def\<close>)
  then have "plugin_ok c p \<Longrightarrow> list_all (call_crypto c) xs \<Longrightarrow> plugin_ok c (foldl plugin_step p xs)" for p
    by (induction xs arbitrary: p) simp_all
  moreover have "plugin_ok c fresh_plugin"
    by (simp add: plugin_ok_def fresh_plugin_def dir_vault_def vault_ok_empty)
  ultimately show "list_all (call_crypto c) xs \<Longrightarrow> plugin_ok c (plugin_run xs)" by (simp add: plugin_run_def)
qed

section \<open>Properties\<close>

definition sample_env :: vault_env where
  "sample_env = \<lparr>ve_crypto = hex_crypto, ve_now = 7, ve_fts = (\<lambda>_ _. None), ve_cwd = ''/srv'', ve_expand = (\<lambda>s. s),
     ve_error_text = (\<lambda>_. ''Error'')\<rparr>"

definition sample_calls :: "vault_call list" where
  "sample_calls =
     [Deliver sample_env ''c_1'' ''vault.verify@1'' (JObj []),
      Init sample_env (JObj [(''dataDir'', JStr ''/srv/a'')]),
      Deliver sample_env ''c_2'' ''vault.append@1'' (JObj [(''ns'', JStr ''note''), (''id'', JStr ''n1''), (''data'', JNum 4)]),
      Deliver sample_env ''c_3'' ''vault.append@1'' (JObj [(''ns'', JStr ''a|b''), (''id'', JStr ''n1''), (''data'', JNum 4)]),
      Deliver sample_env ''c_4'' ''vault.roundtrip@1'' (JObj [(''targetDir'', JStr ''/srv/b'')])]"

lemma sample_calls_crypto: "list_all (call_crypto hex_crypto) sample_calls"
  by (simp add: sample_calls_def sample_env_def)

text \<open>(C6) Whatever is delivered to the plugin, in any order and with any payload, malformed requests,
  restarts and round trips into directories already in use included: the vault of every data
  directory verifies, at the full length of its changelog.\<close>

theorem vault_service_sound:
  assumes "sha_hex c" and "list_all (call_crypto c) xs"
  shows "vr_ok (verify c (dir_vault (plugin_run xs) d)) \<and>
    vr_entries (verify c (dir_vault (plugin_run xs) d)) = length (v_log (dir_vault (plugin_run xs) d))"
  using plugin_run_ok [OF assms] by (simp add: plugin_ok_def vault_verifies)

lemma vault_service_sound_witness:
  "vr_ok (verify hex_crypto (dir_vault (plugin_run sample_calls) [''srv'', ''b'']))"
  using vault_service_sound [OF hex_crypto_hex sample_calls_crypto] by blast

text \<open>A refusal has no effect: whenever a delivery is answered with an error, whichever the op, the open
  vault is exactly what it was before, tables, blobs and all; and the ops that read never change
  anything.\<close>

theorem vault_refusal_harmless:
  assumes "sha_hex c" and "list_all (call_crypto c) xs" and "ve_crypto env = c"
    and "vault_deliver env causationId op payload (plugin_run xs) = (r, p')"
  shows "vp_open p' = vp_open (plugin_run xs) \<and>
    (\<not> is_ok r \<longrightarrow> open_vault p' = open_vault (plugin_run xs)) \<and>
    (op \<in> {''vault.get@1'', ''vault.getmany@1'', ''vault.query@1'', ''vault.search@1'', ''vault.verify@1''} \<longrightarrow>
      p' = plugin_run xs)"
proof -
  note k = deliver_keeps [OF assms(1,3) plugin_run_ok [OF assms(1,2)], of causationId op payload, unfolded assms(4) fst_conv snd_conv]
  have "p' = plugin_run xs"
    if "op \<in> {''vault.get@1'', ''vault.getmany@1'', ''vault.query@1'', ''vault.search@1'', ''vault.verify@1''}"
  proof -
    have "\<exists>h \<in> {vault_get_handler, vault_getmany_handler, vault_query_handler, vault_search_handler, vault_verify_handler}.
        map_get vault_handlers op = Some h"
      using that by (elim insertE emptyE) (simp_all add: vault_handlers_def)
    then obtain h where h: "map_get vault_handlers op = Some h"
      and mem: "h \<in> {vault_get_handler, vault_getmany_handler, vault_query_handler, vault_search_handler, vault_verify_handler}"
      by blast
    obtain q where "h env causationId payload (plugin_run xs) = reading (plugin_run xs) q"
      using mem unfolding vault_get_handler_def vault_getmany_handler_def vault_query_handler_def
        vault_search_handler_def vault_verify_handler_def Let_def by blast
    with h show ?thesis using assms(4) by (simp add: vault_deliver_def split_def prod_eq_iff)
  qed
  with k show ?thesis by blast
qed

lemma vault_refusal_harmless_witness:
  "\<exists>r p'. vault_deliver sample_env ''c_9'' ''vault.get@1'' (JObj []) (plugin_run sample_calls) = (r, p') \<and> p' = plugin_run sample_calls"
proof -
  obtain r p' where run: "vault_deliver sample_env ''c_9'' ''vault.get@1'' (JObj []) (plugin_run sample_calls) = (r, p')"
    by fastforce
  have "ve_crypto sample_env = hex_crypto" by (simp add: sample_env_def)
  from vault_refusal_harmless [OF hex_crypto_hex sample_calls_crypto this run] run show ?thesis by blast
qed

lemma join_dotdot: "starts_with (join_with ''/'' ss) ''..'' \<longleftrightarrow> ss \<noteq> [] \<and> starts_with (hd ss) ''..''"
proof (cases ss)
  case (Cons a rest)
  then show ?thesis
    by (cases rest; cases a; cases "tl a") (auto simp: starts_with_def)
qed (simp add: starts_with_def)

text \<open>What the guard measures: the path leads into the directory, unless its first step down has a name
  that starts with two dots.\<close>

definition guarded_below :: "string list \<Rightarrow> string list \<Rightarrow> bool" where
  "guarded_below dir p \<longleftrightarrow> take (length dir) p = dir \<and>
     list_all (\<lambda>s. \<not> starts_with s ''..'') (take 1 (drop (length dir) p))"

lemma path_inside_relative: "path_inside (path_relative dir p) \<longleftrightarrow> guarded_below dir p"
proof -
  have dots: "starts_with ''..'' ''..''" by (simp add: starts_with_def)
  show ?thesis
  proof (induction dir p rule: path_relative.induct, goal_cases)
  case (1 a as b bs)
  then show ?case
    using dots by (auto simp: guarded_below_def path_inside_def join_dotdot)
next
  case (2 bs)
  then show ?case by (cases bs) (simp_all add: guarded_below_def path_inside_def join_dotdot)
next
  case (3 as)
  then show ?case by (cases as) (use dots in \<open>auto simp: guarded_below_def path_inside_def join_dotdot\<close>)
  qed
qed

text \<open>The round trip's guard, exactly: a target is accepted when it is an absolute path and neither
  directory lies in the other. The source's test of containment takes a relative path that starts
  with two dots for one that leads outside, so a child such as \<open>/data/..copy\<close> of the data directory
  is accepted although it lies inside.\<close>

theorem roundtrip_guard:
  "roundtrip_target cwd dir (JStr p) =
     (if is_absolute p \<and> \<not> guarded_below dir (path_resolve cwd p) \<and> \<not> guarded_below (path_resolve cwd p) dir
      then Some (path_resolve cwd p) else None) \<and>
   roundtrip_target ''/'' [''data''] (JStr ''/data/..copy'') = Some [''data'', ''..copy'']"
proof -
  have "\<not> is_absolute []" by (simp add: is_absolute_def starts_with_def)
  then have "roundtrip_target cwd dir (JStr p) =
     (if is_absolute p \<and> \<not> guarded_below dir (path_resolve cwd p) \<and> \<not> guarded_below (path_resolve cwd p) dir
      then Some (path_resolve cwd p) else None)" for cwd dir p
    by (auto simp: roundtrip_target_def path_inside_relative Let_def)
  moreover have "roundtrip_target ''/'' [''data''] (JStr ''/data/..copy'') = Some [''data'', ''..copy'']" by code_simp
  ultimately show ?thesis by blast
qed

end
