(* ===== verification/Consent_Id.thy ===== *)
theory Consent_Id
  imports Omega_Prelude "HOL-Library.Word"
begin

unbundle bit_operations_syntax

text \<open>
  The stable consent identifier (\<open>contracts/src/consent.ts\<close>): an FNV-derived hash of
  \<open>principal\<close>, a NUL and \<open>op\<close>, printed as sixteen hexadecimal digits. \<open>Math.imul\<close> and
  \<open>>>> 0\<close> are multiplication on 32-bit words.
\<close>

type_synonym u32 = "32 word"

section \<open>The hash\<close>

definition char_code :: "char \<Rightarrow> nat" where
  "char_code c = of_char c"

definition mix1 :: "u32 \<Rightarrow> nat \<Rightarrow> u32" where
  "mix1 h c = (h XOR of_nat c) * 0x01000193"

definition mix2 :: "u32 \<Rightarrow> nat \<Rightarrow> nat \<Rightarrow> u32" where
  "mix2 h i c = (h XOR of_nat (i + c + 1)) * 0x85ebca6b"

fun stable_loop :: "nat \<Rightarrow> u32 \<Rightarrow> u32 \<Rightarrow> string \<Rightarrow> u32 \<times> u32" where
  "stable_loop i h1 h2 [] = (h1, h2)"
| "stable_loop i h1 h2 (c # cs) =
     stable_loop (Suc i) (mix1 h1 (char_code c)) (mix2 h2 i (char_code c)) cs"

definition hex8 :: "u32 \<Rightarrow> string" where
  "hex8 w = pad_zero 8 (show_base 16 (unat w))"

definition stableHash :: "string \<Rightarrow> string" where
  "stableHash s =
     (let (h1, h2) = stable_loop 0 0x811c9dc5 0x01000193 s in hex8 h1 @ hex8 h2)"

definition consentIdFor :: "string \<Rightarrow> string \<Rightarrow> string" where
  "consentIdFor who op = ''consent_'' @ stableHash (who @ CHR 0x00 # op)"

text \<open>\<open>CONSENT_ID_RE\<close>: \<open>/^consent_[0-9a-f]{16}$/\<close>.\<close>

definition CONSENT_ID_RE :: "string \<Rightarrow> bool" where
  "CONSENT_ID_RE s \<longleftrightarrow>
     starts_with s ''consent_'' \<and> length s = 24 \<and> (\<forall>c\<in>set (drop 8 s). digit_val c \<noteq> None)"

section \<open>Shape\<close>

lemma hex8_shape: "length (hex8 w) = 8 \<and> (\<forall>c\<in>set (hex8 w). digit_val c \<noteq> None)"
proof -
  have "unat w < 16 ^ 8" using unsigned_less [of w] by simp
  then have "length (show_base 16 (unat w)) \<le> 8" by (intro show_base_length) auto
  moreover have "digit_val c \<noteq> None" if "c \<in> set (show_base 16 (unat w))" for c
    using show_base_digits [OF _ _ that] by auto
  moreover have "digit_val (CHR ''0'') \<noteq> None" by (simp add: digit_val_def)
  ultimately show ?thesis by (auto simp: hex8_def length_pad_zero pad_zero_def)
qed

lemma hex8_inj: "hex8 v = hex8 w \<longleftrightarrow> v = w"
proof
  assume "hex8 v = hex8 w"
  then have "read_base 16 (hex8 v) = read_base 16 (hex8 w)" by simp
  then show "v = w"
    unfolding hex8_def read_base_pad_zero by (simp add: read_show_base unsigned_word_eqI)
qed simp

section \<open>The first half is injective in every single character\<close>

lemma fnv_prime_inverse: "(0x01000193 :: u32) * 0x359c449b = 1"
  by simp

lemma mult_prime_inj: "x * 0x01000193 = y * 0x01000193 \<longleftrightarrow> x = y" for x y :: u32
proof
  assume "x * 0x01000193 = y * 0x01000193"
  then have "x * 0x01000193 * 0x359c449b = y * 0x01000193 * 0x359c449b" by simp
  then show "x = y"
    by (simp only: mult.assoc fnv_prime_inverse mult_1_right)
qed simp

lemma xor_cancel: "x XOR z = y XOR z \<longleftrightarrow> x = y" for x y z :: u32
proof
  assume "x XOR z = y XOR z"
  then have "(x XOR z) XOR z = (y XOR z) XOR z" by simp
  then show "x = y" by (simp only: xor.assoc xor_self_eq xor.right_neutral)
qed simp

lemma xor_cancel_left: "z XOR x = z XOR y \<longleftrightarrow> x = y" for x y z :: u32
  by (simp only: xor.commute [of z] xor_cancel)

lemma mix1_inj_hash: "mix1 h c = mix1 h' c \<longleftrightarrow> h = h'"
  by (simp add: mix1_def mult_prime_inj xor_cancel)

lemma mix1_inj_char: "mix1 h (char_code c) = mix1 h (char_code d) \<longleftrightarrow> c = d"
proof -
  have small: "char_code x < 2 ^ LENGTH(32)" for x
    using nat_of_char_less_256 [of x] unfolding char_code_def by (simp add: less_trans [OF nat_of_char_less_256])
  have "(of_nat (char_code c) :: u32) = of_nat (char_code d) \<longleftrightarrow> char_code c = char_code d"
    using of_nat_inverse [OF refl small] by metis
  then show ?thesis by (simp add: mix1_def mult_prime_inj xor_cancel_left char_code_def)
qed

lemma stable_loop_append:
  "stable_loop i h1 h2 (s @ t) =
     (let (a, b) = stable_loop i h1 h2 s in stable_loop (i + length s) a b t)"
  by (induction s arbitrary: i h1 h2) auto

lemma stable_loop_fst_inj:
  "fst (stable_loop i h1 h2 s) = fst (stable_loop j h1' h2' s) \<longleftrightarrow> h1 = h1'"
  by (induction s arbitrary: i j h1 h2 h1' h2') (auto simp: mix1_inj_hash)

lemma stable_loop_fst: "fst (stable_loop i h a s) = fst (stable_loop j h b s)"
  by (simp add: stable_loop_fst_inj)

lemma stable_fst_one_char:
  "fst (stable_loop i h a (s @ c # t)) = fst (stable_loop i h a (s @ d # t)) \<longleftrightarrow> c = d"
  by (auto simp: stable_loop_append stable_loop_fst_inj mix1_inj_char split: prod.splits)

lemma stableHash_fst: "stableHash s = stableHash t \<Longrightarrow>
    fst (stable_loop 0 0x811c9dc5 0x01000193 s) = fst (stable_loop 0 0x811c9dc5 0x01000193 t)"
  using hex8_shape by (auto simp: stableHash_def hex8_inj split: prod.splits)

lemma consentId_shape: "CONSENT_ID_RE (consentIdFor who op)"
proof -
  obtain a b where "stable_loop 0 0x811c9dc5 0x01000193 (who @ CHR 0x00 # op) = (a, b)"
    by fastforce
  then show ?thesis
    using hex8_shape [of a] hex8_shape [of b]
    by (auto simp: CONSENT_ID_RE_def consentIdFor_def stableHash_def starts_with_def)
qed

section \<open>Properties\<close>

text \<open>Every derived consent id has the shape \<open>CONSENT_ID_RE\<close> demands, so
  the id a refusal names is always one \<open>consent.grant\<close> accepts.\<close>

theorem consentIdFor_wellformed: "CONSENT_ID_RE (consentIdFor who op)"
  by (rule consentId_shape)

text \<open>No consent carries over to an op or a principal that differs in a single character:
  the FNV half of the hash is injective in each character, because the multiplier is odd.\<close>

theorem consentIdFor_one_char:
  assumes "c \<noteq> d"
  shows "consentIdFor who (s @ c # t) \<noteq> consentIdFor who (s @ d # t) \<and>
    consentIdFor (s @ c # t) op \<noteq> consentIdFor (s @ d # t) op"
proof -
  have "stableHash (p @ c # q) \<noteq> stableHash (p @ d # q)" for p q
    using stableHash_fst stable_fst_one_char assms by blast
  from this [of "who @ CHR 0x00 # s" t] this [of s "t @ CHR 0x00 # op"]
  show ?thesis by (simp add: consentIdFor_def)
qed

lemma consentIdFor_one_char_witness:
  "consentIdFor ''agent:a'' ''message.send@1'' \<noteq> consentIdFor ''agent:b'' ''message.send@1''"
  using consentIdFor_one_char [where c = "CHR ''a''" and d = "CHR ''b''" and s = "''agent:''" and t = "[]"] by simp

end
