(* ===== verification/Law_Consent.thy ===== *)
theory Law_Consent
  imports Consent_Id
begin

text \<open>
  The consent table (\<open>plugins/vivim-law/src/consent.ts\<close>): revocable grants keyed by the consent id
  of a principal and an op, with one generation counter. The clock is an argument.
\<close>

record consent_record =
  cr_consentId :: string
  cr_principal :: "string option"
  cr_scope :: "string option"
  cr_grantedAt :: int
  cr_generation :: nat
  cr_active :: bool
  cr_revokedAt :: "int option"

record consent_table =
  ct_grants :: "(string, consent_record) jsmap"
  ct_gen :: nat

datatype consent_error = MalformedConsentId string

definition empty_consents :: consent_table where
  "empty_consents = \<lparr>ct_grants = [], ct_gen = 0\<rparr>"

section \<open>Operations\<close>

definition requireConsent :: "string \<Rightarrow> string \<Rightarrow> string" where
  "requireConsent who op = consentIdFor who op"

definition consent_grant_op ::
    "int \<Rightarrow> consent_table \<Rightarrow> string \<Rightarrow> string option \<Rightarrow> string option \<Rightarrow>
     consent_error + consent_table \<times> consent_record" where
  "consent_grant_op now t consentId who scope =
     (if \<not> CONSENT_ID_RE consentId then Inl (MalformedConsentId consentId)
      else
        (let gen = ct_gen t + 1;
             rec = \<lparr>cr_consentId = consentId, cr_principal = who, cr_scope = scope,
                    cr_grantedAt = now, cr_generation = gen, cr_active = True, cr_revokedAt = None\<rparr>
         in Inr (t\<lparr>ct_gen := gen, ct_grants := map_set consentId rec (ct_grants t)\<rparr>, rec)))"

definition consent_revoke_op :: "int \<Rightarrow> consent_table \<Rightarrow> string \<Rightarrow> consent_table \<times> bool" where
  "consent_revoke_op now t consentId =
     (case map_get (ct_grants t) consentId of
        None \<Rightarrow> (t, False)
      | Some rec \<Rightarrow>
          if \<not> cr_active rec then (t, False)
          else (t\<lparr>ct_grants := map_set consentId (rec\<lparr>cr_active := False, cr_revokedAt := Some now\<rparr>) (ct_grants t),
                  ct_gen := ct_gen t + 1\<rparr>, True))"

definition hasMatchingGrant :: "consent_table \<Rightarrow> string \<Rightarrow> string \<Rightarrow> consent_record option" where
  "hasMatchingGrant t who op =
     (case map_get (ct_grants t) (consentIdFor who op) of
        None \<Rightarrow> None
      | Some rec \<Rightarrow>
          if \<not> cr_active rec then None
          else if cr_principal rec \<noteq> None \<and> cr_principal rec \<noteq> Some who then None
          else if cr_scope rec \<noteq> None \<and> cr_scope rec \<noteq> Some op then None
          else Some rec)"

definition activeCount :: "consent_table \<Rightarrow> nat" where
  "activeCount t = fold (\<lambda>rec n. if cr_active rec then n + 1 else n) (map snd (ct_grants t)) 0"

definition consent_list :: "consent_table \<Rightarrow> consent_record list" where
  "consent_list t = map snd (ct_grants t)"

definition listFor :: "consent_table \<Rightarrow> string \<Rightarrow> consent_record list" where
  "listFor t who = filter (\<lambda>r. cr_active r \<and> cr_principal r = Some who) (map snd (ct_grants t))"

section \<open>What a table promises\<close>

text \<open>The abstract contract of a consent store: the narrowing of the active grant of each id.\<close>

type_synonym consent_view = "string \<Rightarrow> (string option \<times> string option) option"

definition consent_abs :: "consent_table \<Rightarrow> consent_view" where
  "consent_abs t i =
     (case map_get (ct_grants t) i of
        Some r \<Rightarrow> if cr_active r then Some (cr_principal r, cr_scope r) else None
      | None \<Rightarrow> None)"

definition view_allows :: "consent_view \<Rightarrow> string \<Rightarrow> string \<Rightarrow> bool" where
  "view_allows v who op \<longleftrightarrow>
     (case v (consentIdFor who op) of
        None \<Rightarrow> False
      | Some (p, s) \<Rightarrow> (p = None \<or> p = Some who) \<and> (s = None \<or> s = Some op))"

lemma abs_grant:
  "consent_grant_op now t i p s = Inr (t', r) \<Longrightarrow> consent_abs t' = (consent_abs t)(i := Some (p, s))"
  by (auto simp: consent_grant_op_def consent_abs_def Let_def fun_eq_iff split: if_splits)

lemma abs_revoke: "consent_abs (fst (consent_revoke_op now t i)) = (consent_abs t)(i := None)"
  by (auto simp: consent_revoke_op_def consent_abs_def fun_eq_iff split: option.splits)

lemma abs_match: "hasMatchingGrant t who op \<noteq> None \<longleftrightarrow> view_allows (consent_abs t) who op"
  by (auto simp: hasMatchingGrant_def view_allows_def consent_abs_def split: option.splits)

datatype consent_op =
    CGrant int string "string option" "string option"
  | CRevoke int string

fun consent_step :: "consent_table \<Rightarrow> consent_op \<Rightarrow> consent_table" where
  "consent_step t (CGrant now i p s) =
     (case consent_grant_op now t i p s of Inl _ \<Rightarrow> t | Inr (t', _) \<Rightarrow> t')"
| "consent_step t (CRevoke now i) = fst (consent_revoke_op now t i)"

fun view_step :: "consent_view \<Rightarrow> consent_op \<Rightarrow> consent_view" where
  "view_step v (CGrant now i p s) = (if CONSENT_ID_RE i then v(i := Some (p, s)) else v)"
| "view_step v (CRevoke now i) = v(i := None)"

lemma step_simulates: "consent_abs (consent_step t x) = view_step (consent_abs t) x"
proof (cases x)
  case (CGrant now i p s)
  show ?thesis
  proof (cases "consent_grant_op now t i p s")
    case (Inl e)
    then show ?thesis using CGrant by (auto simp: consent_grant_op_def Let_def split: if_splits)
  next
    case (Inr r)
    then have "CONSENT_ID_RE i" by (auto simp: consent_grant_op_def split: if_splits)
    moreover obtain t' rec where "r = (t', rec)" by (cases r)
    ultimately show ?thesis using CGrant Inr abs_grant by simp
  qed
next
  case (CRevoke now i)
  then show ?thesis by (simp add: abs_revoke)
qed

lemma run_simulates: "consent_abs (foldl consent_step t xs) = foldl view_step (consent_abs t) xs"
  by (induction xs arbitrary: t) (simp_all add: step_simulates)

text \<open>Every generation a record carries is one the counter has reached, and no two are equal.\<close>

definition gen_of :: "consent_table \<Rightarrow> string \<Rightarrow> nat option" where
  "gen_of t i = map_option cr_generation (map_get (ct_grants t) i)"

definition gens_ok :: "consent_table \<Rightarrow> bool" where
  "gens_ok t \<longleftrightarrow> distinct (map_keys (ct_grants t)) \<and>
     (\<forall>i g. gen_of t i = Some g \<longrightarrow> 0 < g \<and> g \<le> ct_gen t) \<and>
     (\<forall>i j g. gen_of t i = Some g \<longrightarrow> gen_of t j = Some g \<longrightarrow> i = j)"

lemma gens_grant:
  assumes "gens_ok t" and "consent_grant_op now t i p s = Inr (t', r)"
  shows "gens_ok t'"
proof -
  have g: "gen_of t' = (gen_of t)(i := Some (ct_gen t + 1))" and n: "ct_gen t' = ct_gen t + 1"
    and d: "distinct (map_keys (ct_grants t'))"
    using assms by (auto simp: consent_grant_op_def gen_of_def gens_ok_def Let_def distinct_update fun_eq_iff split: if_splits)
  have "gen_of t j \<noteq> Some (Suc (ct_gen t))" for j
    using assms(1) unfolding gens_ok_def by (metis not_less_eq_eq order_refl)
  then show ?thesis
    using assms(1) d unfolding gens_ok_def g n by (auto simp: le_Suc_eq)
qed

lemma gens_revoke:
  assumes "gens_ok t"
  shows "gens_ok (fst (consent_revoke_op now t i))"
proof -
  have g: "gen_of (fst (consent_revoke_op now t i)) = gen_of t"
    by (auto simp: consent_revoke_op_def gen_of_def fun_eq_iff split: option.splits)
  have "ct_gen t \<le> ct_gen (fst (consent_revoke_op now t i))"
    and "distinct (map_keys (ct_grants (fst (consent_revoke_op now t i))))"
    using assms by (auto simp: consent_revoke_op_def gens_ok_def distinct_update split: option.splits)
  then show ?thesis
    using assms unfolding gens_ok_def g by (auto intro: order_trans)
qed

lemma gens_step: "gens_ok t \<Longrightarrow> gens_ok (consent_step t x) \<and> ct_gen t \<le> ct_gen (consent_step t x)"
proof (cases x)
  case (CGrant now i p s)
  assume t: "gens_ok t"
  show ?thesis
  proof (cases "consent_grant_op now t i p s")
    case (Inr r)
    then obtain t' rec where r: "consent_grant_op now t i p s = Inr (t', rec)" by (cases r) auto
    then have "ct_gen t \<le> ct_gen t'" by (auto simp: consent_grant_op_def Let_def split: if_splits)
    with r CGrant gens_grant [OF t r] show ?thesis by simp
  qed (simp add: CGrant t)
next
  case (CRevoke now i)
  moreover assume "gens_ok t"
  ultimately show ?thesis
    using gens_revoke by (auto simp: consent_revoke_op_def split: option.splits)
qed

lemma gens_run: "gens_ok t \<Longrightarrow> gens_ok (foldl consent_step t xs) \<and> ct_gen t \<le> ct_gen (foldl consent_step t xs)"
proof (induction xs arbitrary: t)
  case (Cons x xs)
  then show ?case using gens_step [of t x] by (fastforce dest: Cons.IH)
qed simp

lemma gens_empty: "gens_ok empty_consents"
  by (simp add: gens_ok_def gen_of_def empty_consents_def)

lemma consent_abs_empty [simp]: "consent_abs empty_consents = (\<lambda>_. None)"
  by (simp add: consent_abs_def empty_consents_def fun_eq_iff)

lemma fold_count: "fold (\<lambda>rec n. if P rec then n + 1 else n) xs k = k + length (filter P xs)" for k :: nat
  by (induction xs arbitrary: k) auto

lemma gens_bound:
  assumes "gens_ok t"
  shows "filter (\<lambda>q. ct_gen t + 1 \<le> cr_generation q) (map snd (ct_grants t)) = []"
proof -
  have "cr_generation r \<le> ct_gen t" if "(i, r) \<in> set (ct_grants t)" for i r
  proof -
    have "map_get (ct_grants t) i = Some r" using assms that by (simp add: gens_ok_def)
    then have "gen_of t i = Some (cr_generation r)" by (simp add: gen_of_def)
    then show ?thesis using assms unfolding gens_ok_def by blast
  qed
  then show ?thesis by (fastforce simp: filter_empty_conv)
qed

section \<open>Properties\<close>

text \<open>(C29) The table refines the abstract store: whatever grants and revocations arrive, malformed ones
  included, a call is matched exactly when the last thing that happened to its consent id was a
  well-formed grant whose narrowing admits the principal and the op.\<close>

theorem consent_refines_view:
  "(hasMatchingGrant (foldl consent_step empty_consents xs) who op \<noteq> None) =
   view_allows (foldl view_step (\<lambda>_. None) xs) who op"
  by (simp only: abs_match run_simulates consent_abs_empty)

text \<open>Revocation is effective and granting again is possible: in every reachable table, after a
  revoke the call it covered is unmatched and a second revoke answers false; a fresh grant of the
  id a refusal names is accepted, the call is matched by exactly that record, and its generation is
  larger than every generation the table holds.\<close>

theorem consent_revoke_effective:
  assumes "t = foldl consent_step empty_consents xs"
  shows "hasMatchingGrant (fst (consent_revoke_op now t (requireConsent who op))) who op = None \<and>
    snd (consent_revoke_op now' (fst (consent_revoke_op now t (requireConsent who op))) (requireConsent who op)) = False \<and>
    (\<exists>t' r. consent_grant_op now t (requireConsent who op) (Some who) (Some op) = Inr (t', r) \<and>
       hasMatchingGrant t' who op = Some r \<and>
       filter (\<lambda>q. cr_generation r \<le> cr_generation q) (consent_list t) = [])"
proof (intro conjI)
  show "hasMatchingGrant (fst (consent_revoke_op now t (requireConsent who op))) who op = None"
    using abs_match [of "fst (consent_revoke_op now t (requireConsent who op))" who op]
    by (simp add: abs_revoke view_allows_def requireConsent_def)
  show "snd (consent_revoke_op now' (fst (consent_revoke_op now t (requireConsent who op))) (requireConsent who op)) = False"
    by (auto simp: consent_revoke_op_def split: option.splits)
  have "CONSENT_ID_RE (consentIdFor who op)" by (rule consentId_shape)
  moreover have "filter (\<lambda>q. ct_gen t + 1 \<le> cr_generation q) (map snd (ct_grants t)) = []"
    using gens_run [OF gens_empty, of xs] gens_bound by (simp add: assms)
  ultimately show "\<exists>t' r. consent_grant_op now t (requireConsent who op) (Some who) (Some op) = Inr (t', r) \<and>
       hasMatchingGrant t' who op = Some r \<and>
       filter (\<lambda>q. cr_generation r \<le> cr_generation q) (consent_list t) = []"
    by (simp add: consent_grant_op_def requireConsent_def hasMatchingGrant_def consent_list_def Let_def)
qed

lemma consent_revoke_effective_witness:
  "hasMatchingGrant (fst (consent_revoke_op 5 (foldl consent_step empty_consents
      [CGrant 1 (consentIdFor ''user:u'' ''mail.send@1'') None None]) (requireConsent ''user:u'' ''mail.send@1'')))
     ''user:u'' ''mail.send@1'' = None"
  using consent_revoke_effective [OF refl] by blast

end
