(* ===== verification/Law_Tokens.thy ===== *)
theory Law_Tokens
  imports Omega_Prelude
begin

text \<open>
  The capability-handle algebra (\<open>plugins/vivim-law/src/tokens.ts\<close>): scopes as dotted paths with
  constraint clauses, the attenuation order, and the handles minted and attenuated along it.
\<close>

section \<open>The interface: a narrowing order\<close>

text \<open>A provider gives the valid scopes and the order "at most as broad as", a preorder on them.
  The client attenuates step by step; however long the chain, nothing broadens.\<close>

locale narrowing =
  fixes valid :: "'s \<Rightarrow> bool"
    and le :: "'s \<Rightarrow> 's \<Rightarrow> bool"
  assumes le_valid: "le a b \<Longrightarrow> valid a \<and> valid b"
    and le_refl: "valid a \<Longrightarrow> le a a"
    and le_trans: "le a b \<Longrightarrow> le b d \<Longrightarrow> le a d"
begin

fun narrows :: "'s \<Rightarrow> 's list \<Rightarrow> bool" where
  "narrows p [] = True"
| "narrows p (x # xs) = (le x p \<and> narrows x xs)"

lemma narrows_below: "narrows p xs \<Longrightarrow> x \<in> set xs \<Longrightarrow> le x p"
proof (induction xs arbitrary: p)
  case (Cons y ys)
  then show ?case using le_trans by (metis narrows.simps(2) set_ConsD)
qed simp

lemma narrows_last: "narrows p xs \<Longrightarrow> valid p \<Longrightarrow> le (last (p # xs)) p"
  using narrows_below [of p xs "last xs"] le_refl by (cases "xs = []") auto

lemma narrows_sorted: "narrows p xs \<Longrightarrow> sorted_wrt (\<lambda>a b. le b a) xs"
  by (induction xs arbitrary: p) (auto intro: narrows_below)

end

section \<open>Scopes\<close>

record cap =
  cap_scope :: string
  cap_generation :: int
  cap_parent :: "string option"

record parsed_scope =
  ps_path :: "string list"
  ps_constraints :: "string list"

datatype token_error =
    MalformedScope string
  | MalformedPath string
  | MalformedConstraint string string
  | AttenuationViolation string string

text \<open>The character classes of the two regular expressions.\<close>

definition word_char :: "char \<Rightarrow> bool" where
  "word_char c \<longleftrightarrow>
     (let n = of_char c :: nat in
      97 \<le> n \<and> n \<le> 122 \<or> 65 \<le> n \<and> n \<le> 90 \<or> 48 \<le> n \<and> n \<le> 57 \<or> c = CHR ''_'' \<or> c = CHR ''-'')"

definition space_char :: "char \<Rightarrow> bool" where
  "space_char c \<longleftrightarrow> (let n = of_char c :: nat in 9 \<le> n \<and> n \<le> 13 \<or> n = 32 \<or> n = 160)"

definition SEGMENT_RE :: "string \<Rightarrow> bool" where
  "SEGMENT_RE s \<longleftrightarrow> s \<noteq> [] \<and> list_all word_char s"

definition CONSTRAINT_RE :: "string \<Rightarrow> bool" where
  "CONSTRAINT_RE s \<longleftrightarrow>
     (case split_on (CHR ''='') s of
        [k, v] \<Rightarrow> k \<noteq> [] \<and> list_all word_char k \<and> v \<noteq> [] \<and>
                  list_all (\<lambda>c. \<not> space_char c \<and> c \<noteq> CHR '':'') v
      | _ \<Rightarrow> False)"

definition parseScope :: "string \<Rightarrow> token_error + parsed_scope" where
  "parseScope scope =
     (if length scope = 0 \<or> length scope > 512 then Inl (MalformedScope scope)
      else
        (let parts = split_on (CHR '':'') scope;
             path = split_on (CHR ''.'') (hd parts)
         in if list_ex (\<lambda>s. \<not> SEGMENT_RE s) path then Inl (MalformedPath scope)
            else
              (let constraints = sort (uniq (tl parts))
               in case find (\<lambda>c. \<not> CONSTRAINT_RE c) constraints of
                    Some c \<Rightarrow> Inl (MalformedConstraint c scope)
                  | None \<Rightarrow> Inr \<lparr>ps_path = path, ps_constraints = constraints\<rparr>)))"

definition pathPrefixOf :: "string list \<Rightarrow> string list \<Rightarrow> bool" where
  "pathPrefixOf a b = (if length b > length a then False else list_all (\<lambda>i. b ! i = a ! i) [0..<length b])"

definition isSubset :: "string \<Rightarrow> string \<Rightarrow> token_error + bool" where
  "isSubset a b =
     res_bind (parseScope a) (\<lambda>pa. res_bind (parseScope b) (\<lambda>pb.
       if \<not> pathPrefixOf (ps_path pa) (ps_path pb) then Inr False
       else Inr (list_all (\<lambda>c. c \<in> set (ps_constraints pa)) (ps_constraints pb))))"

definition mintCap :: "string \<Rightarrow> int \<Rightarrow> token_error + cap" where
  "mintCap scope generation =
     res_bind (parseScope scope) (\<lambda>_. Inr \<lparr>cap_scope = scope, cap_generation = generation, cap_parent = None\<rparr>)"

definition attenuate :: "cap \<Rightarrow> string \<Rightarrow> token_error + cap" where
  "attenuate parent narrowed =
     res_bind (isSubset narrowed (cap_scope parent)) (\<lambda>ok.
       if \<not> ok then Inl (AttenuationViolation narrowed (cap_scope parent))
       else Inr \<lparr>cap_scope = narrowed, cap_generation = cap_generation parent,
                 cap_parent = (if cap_scope parent \<noteq> narrowed then Some (cap_scope parent) else None)\<rparr>)"

definition canonicalScope :: "string \<Rightarrow> token_error + string" where
  "canonicalScope scope =
     res_bind (parseScope scope) (\<lambda>p.
       Inr (join_with '':'' (join_with ''.'' (ps_path p) # ps_constraints p)))"

text \<open>A handle attenuated again and again.\<close>

fun attenuate_all :: "cap \<Rightarrow> string list \<Rightarrow> token_error + cap" where
  "attenuate_all h [] = Inr h"
| "attenuate_all h (s # ss) = res_bind (attenuate h s) (\<lambda>h'. attenuate_all h' ss)"

section \<open>The order\<close>

lemma take_eq_nth: "length b \<le> length a \<Longrightarrow> take (length b) a = b \<longleftrightarrow> (\<forall>i<length b. b ! i = a ! i)"
  by (auto simp: list_eq_iff_nth_eq)

lemma pathPrefixOf_take: "pathPrefixOf a b \<longleftrightarrow> length b \<le> length a \<and> take (length b) a = b"
  by (auto simp: pathPrefixOf_def list_all_iff take_eq_nth)

definition scope_valid :: "string \<Rightarrow> bool" where
  "scope_valid s \<longleftrightarrow> (\<exists>p. parseScope s = Inr p)"

definition scope_le :: "string \<Rightarrow> string \<Rightarrow> bool" where
  "scope_le a b \<longleftrightarrow> isSubset a b = Inr True"

lemma scope_le_iff:
  "scope_le a b \<longleftrightarrow> (\<exists>p q. parseScope a = Inr p \<and> parseScope b = Inr q \<and>
     length (ps_path q) \<le> length (ps_path p) \<and> take (length (ps_path q)) (ps_path p) = ps_path q \<and>
     set (ps_constraints q) \<subseteq> set (ps_constraints p))"
  by (auto simp: scope_le_def isSubset_def res_bind_def pathPrefixOf_take list_all_iff split: sum.splits)

lemma take_prefix_trans:
  "take m xs = ys \<Longrightarrow> take k ys = zs \<Longrightarrow> k \<le> m \<Longrightarrow> take k xs = zs"
  by (metis min_absorb1 take_take)

interpretation scopes: narrowing scope_valid scope_le
proof
  fix a b d
  show "scope_le a b \<Longrightarrow> scope_valid a \<and> scope_valid b"
    by (auto simp: scope_le_iff scope_valid_def)
  show "scope_valid a \<Longrightarrow> scope_le a a"
    by (auto simp: scope_le_iff scope_valid_def)
  show "scope_le a d" if ab: "scope_le a b" and bd: "scope_le b d"
  proof -
    from ab obtain p q where 1: "parseScope a = Inr p" "parseScope b = Inr q"
      "length (ps_path q) \<le> length (ps_path p)" "take (length (ps_path q)) (ps_path p) = ps_path q"
      "set (ps_constraints q) \<subseteq> set (ps_constraints p)"
      unfolding scope_le_iff by auto
    from bd 1(2) obtain r where 2: "parseScope d = Inr r"
      "length (ps_path r) \<le> length (ps_path q)" "take (length (ps_path r)) (ps_path q) = ps_path r"
      "set (ps_constraints r) \<subseteq> set (ps_constraints q)"
      unfolding scope_le_iff by auto
    have "take (length (ps_path r)) (ps_path p) = ps_path r"
      using 1(4) 2(3,2) by (rule take_prefix_trans)
    with 1 2 show ?thesis unfolding scope_le_iff by (meson order_trans)
  qed
qed

lemma isSubset_valid: "scope_valid a \<Longrightarrow> scope_valid b \<Longrightarrow> isSubset a b = Inr (scope_le a b)"
  by (auto simp: isSubset_def scope_le_def scope_valid_def res_bind_def)

lemma attenuate_Inr:
  "attenuate h s = Inr h' \<longleftrightarrow> scope_le s (cap_scope h) \<and>
     h' = \<lparr>cap_scope = s, cap_generation = cap_generation h,
           cap_parent = (if cap_scope h \<noteq> s then Some (cap_scope h) else None)\<rparr>"
  by (auto simp: attenuate_def scope_le_def res_bind_def split: sum.splits if_splits)

lemma attenuate_all_Inr:
  "attenuate_all h ss = Inr h' \<Longrightarrow> scopes.narrows (cap_scope h) ss \<and>
     cap_scope h' = last (cap_scope h # ss) \<and> cap_generation h' = cap_generation h"
proof (induction ss arbitrary: h)
  case (Cons s ss)
  then obtain k where k: "attenuate h s = Inr k" "attenuate_all k ss = Inr h'"
    by (auto simp: res_bind_def split: sum.splits)
  with Cons.IH [OF k(2)] show ?case by (auto simp: attenuate_Inr)
qed simp

section \<open>Canonical form\<close>

lemma length_join: "Suc (length (join_with [c] (x # xs))) = sum_list (map length (x # xs)) + length (x # xs)"
  by (induction xs arbitrary: x) auto

lemma uniq_sum: "sum_list (map f (uniq xs)) \<le> sum_list (map f xs)" for f :: "'a \<Rightarrow> nat"
proof -
  have "sum_list (map f (fold set_add xs acc)) \<le> sum_list (map f acc) + sum_list (map f xs)" for acc
  proof (induction xs arbitrary: acc)
    case (Cons x xs)
    show ?case using Cons [of "set_add x acc"] by (auto simp: set_add_def split: if_splits)
  qed simp
  from this [of "[]"] show ?thesis by (simp add: uniq_def)
qed

lemma uniq_length: "length (uniq xs) \<le> length xs"
  using uniq_sum [of "\<lambda>_. 1" xs] by (simp add: sum_list_triv)

lemma sum_sort: "sum_list (map f (sort xs)) = sum_list (map f xs)" for f :: "'a::linorder \<Rightarrow> nat"
proof (induction xs)
  case (Cons x xs)
  have "sum_list (map f (insort x ys)) = f x + sum_list (map f ys)" for ys
    by (induction ys) auto
  with Cons show ?case by simp
qed simp

lemma find_SomeD: "find P xs = Some x \<Longrightarrow> x \<in> set xs \<and> P x"
  by (auto simp: find_Some_iff)

lemma parseScope_Inr:
  "parseScope s = Inr p \<longleftrightarrow> s \<noteq> [] \<and> length s \<le> 512 \<and>
     p = \<lparr>ps_path = split_on (CHR ''.'') (hd (split_on (CHR '':'') s)),
          ps_constraints = sort (uniq (tl (split_on (CHR '':'') s)))\<rparr> \<and>
     list_all SEGMENT_RE (ps_path p) \<and> list_all CONSTRAINT_RE (ps_constraints p)"
  by (auto simp: parseScope_def Let_def list_ex_iff list_all_iff find_None_iff
      split: option.splits if_splits)
    (use find_SomeD in force)

lemma parse_canonical_scope:
  assumes "parseScope s = Inr p"
  shows "parseScope (join_with '':'' (join_with ''.'' (ps_path p) # ps_constraints p)) = Inr p"
proof -
  let ?parts = "split_on (CHR '':'') s"
  obtain h cs where parts: "?parts = h # cs" by (cases ?parts) auto
  let ?ks = "sort (uniq cs)"
  let ?t = "join_with '':'' (h # ?ks)"
  have p: "p = \<lparr>ps_path = split_on (CHR ''.'') h, ps_constraints = ?ks\<rparr>"
    and s: "s \<noteq> []" "length s \<le> 512"
    and ok: "list_all SEGMENT_RE (split_on (CHR ''.'') h)" "list_all CONSTRAINT_RE ?ks"
    using assms by (auto simp: parseScope_Inr parts)
  have split: "split_on (CHR '':'') ?t = h # ?ks"
    by (rule split_join) (use split_on_parts [of _ "CHR '':''" s] parts in auto)
  have "Suc (length s) = sum_list (map length (h # cs)) + length (h # cs)"
    using length_join [of "CHR '':''" h cs] join_split [of "CHR '':''" s] parts by simp
  moreover have "Suc (length ?t) = sum_list (map length (h # ?ks)) + length (h # ?ks)"
    by (rule length_join)
  moreover have "sum_list (map length ?ks) \<le> sum_list (map length cs)"
    using uniq_sum [of length cs] by (simp add: sum_sort)
  moreover have "length ?ks \<le> length cs" using uniq_length [of cs] by simp
  ultimately have "length ?t \<le> length s" by simp
  moreover have "h \<noteq> []"
    using ok(1) by (auto simp: SEGMENT_RE_def)
  then have "?t \<noteq> []" by (cases ?ks) auto
  moreover have "sort (uniq ?ks) = ?ks" by (simp add: sorted_sort_id)
  ultimately have "parseScope ?t = Inr p"
    unfolding parseScope_Inr split using s ok p by simp
  then show ?thesis by (simp add: p join_split)
qed

lemma canonicalScope_Inr:
  "canonicalScope s = Inr t \<longleftrightarrow> (\<exists>p. parseScope s = Inr p \<and>
     t = join_with '':'' (join_with ''.'' (ps_path p) # ps_constraints p))"
  by (auto simp: canonicalScope_def res_bind_def split: sum.splits)

lemma scope_le_antisym:
  assumes "scope_le a b" and "scope_le b a"
  shows "parseScope a = parseScope b"
proof -
  obtain p q where pq: "parseScope a = Inr p" "parseScope b = Inr q"
    and "ps_path p = ps_path q" and cs: "set (ps_constraints p) = set (ps_constraints q)"
    using assms unfolding scope_le_iff by fastforce
  moreover have "ps_constraints p = ps_constraints q"
    using pq cs by (intro sorted_distinct_set_unique) (auto simp: parseScope_Inr)
  ultimately show ?thesis by simp
qed

section \<open>Properties\<close>



text \<open>The canonical text is the identity of a scope: canonicalising is idempotent, and two scopes
  have the same canonical text exactly when each is at most as broad as the other.\<close>

theorem canonicalScope_identity:
  assumes "canonicalScope a = Inr s" and "canonicalScope b = Inr t"
  shows "canonicalScope s = Inr s \<and>
    (s = t) = (isSubset a b = Inr True \<and> isSubset b a = Inr True)"
proof -
  obtain p q where p: "parseScope a = Inr p" "s = join_with '':'' (join_with ''.'' (ps_path p) # ps_constraints p)"
    and q: "parseScope b = Inr q" "t = join_with '':'' (join_with ''.'' (ps_path q) # ps_constraints q)"
    using assms unfolding canonicalScope_Inr by auto
  have s: "parseScope s = Inr p" and t: "parseScope t = Inr q"
    using parse_canonical_scope [OF p(1)] parse_canonical_scope [OF q(1)] p(2) q(2) by simp_all
  have "canonicalScope s = Inr s"
    using s p(2) by (simp add: canonicalScope_def res_bind_def)
  moreover have "s = t" if "scope_le a b" "scope_le b a"
    using scope_le_antisym [OF that] p q by simp
  moreover have "scope_le a b \<and> scope_le b a" if "s = t"
    using that s t p(1) q(1) by (simp add: scope_le_iff)
  ultimately show ?thesis unfolding scope_le_def by blast
qed

lemma canonicalScope_identity_witness:
  "canonicalScope ''a.b:x=1:y=2'' = Inr ''a.b:x=1:y=2'' \<and> isSubset ''a.b:y=2:x=1:y=2'' ''a.b:x=1:y=2'' = Inr True"
proof -
  have "canonicalScope ''a.b:y=2:x=1:y=2'' = Inr ''a.b:x=1:y=2''"
    and "canonicalScope ''a.b:x=1:y=2'' = Inr ''a.b:x=1:y=2''" by code_simp+
  then show ?thesis using canonicalScope_identity by blast
qed

end
