(* ===== verification/Law_Forbidden.thy ===== *)
theory Law_Forbidden
  imports Canonical_Json
begin

text \<open>
  The per-principal forbidden-action overlay (\<open>plugins/vivim-law/src/forbidden.ts\<close>): the table, and
  the mapping of its entries to vault records and back.
\<close>

section \<open>Fields of untyped values\<close>

text \<open>\<open>asObj\<close>, \<open>str\<close> and \<open>optStr\<close> of \<open>index.ts\<close>; reading a field of a value that has none is
  \<open>undefined\<close>. An array read as an object has its indices as keys.\<close>

fun asObj :: "json \<Rightarrow> (string \<times> json) list" where
  "asObj (JObj kvs) = kvs"
| "asObj (JArr xs) = map (\<lambda>(i, x). (show_nat i, x)) (enumerate 0 xs)"
| "asObj _ = []"

definition jfield :: "(string \<times> json) list \<Rightarrow> string \<Rightarrow> json" where
  "jfield kvs k = (case map_get kvs k of Some v \<Rightarrow> v | None \<Rightarrow> JUndefined)"

fun str_of :: "json \<Rightarrow> string" where
  "str_of (JStr s) = s"
| "str_of _ = []"

fun optStr :: "json \<Rightarrow> string option" where
  "optStr (JStr s) = (if length s > 0 then Some s else None)"
| "optStr _ = None"

section \<open>Validation\<close>

datatype forbidden_error = BadPrincipal json | OpsNotArray | BadOp json

definition FORBIDDEN_NS :: string where "FORBIDDEN_NS = ''law''"
definition FORBIDDEN_ID_PREFIX :: string where "FORBIDDEN_ID_PREFIX = ''forbidden:''"

fun requirePrincipal :: "json \<Rightarrow> forbidden_error + string" where
  "requirePrincipal (JStr p) = (if length p = 0 then Inl (BadPrincipal (JStr p)) else Inr p)"
| "requirePrincipal v = Inl (BadPrincipal v)"

fun require_op :: "json \<Rightarrow> forbidden_error + string" where
  "require_op (JStr q) = (if length q = 0 then Inl (BadOp (JStr q)) else Inr q)"
| "require_op v = Inl (BadOp v)"

fun requireOps :: "json \<Rightarrow> forbidden_error + string list" where
  "requireOps (JArr xs) = res_bind (res_map require_op xs) (\<lambda>out. Inr (sort (uniq out)))"
| "requireOps _ = Inl OpsNotArray"

definition forbiddenVaultId :: "string \<Rightarrow> forbidden_error + string" where
  "forbiddenVaultId who = res_bind (requirePrincipal (JStr who)) (\<lambda>p. Inr (FORBIDDEN_ID_PREFIX @ p))"

record forbidden_entry =
  fe_principal :: string
  fe_ops :: "string list"

definition forbidden_toRecord :: "int \<Rightarrow> forbidden_entry \<Rightarrow> forbidden_error + json" where
  "forbidden_toRecord now e =
     res_bind (requirePrincipal (JStr (fe_principal e))) (\<lambda>p.
       res_bind (requireOps (JArr (map JStr (fe_ops e)))) (\<lambda>qs.
         Inr (JObj [(''principal'', JStr p), (''ops'', JArr (map JStr qs)), (''updatedAt'', JNum now)])))"

definition forbidden_fromRecord :: "json \<Rightarrow> forbidden_entry option" where
  "forbidden_fromRecord d =
     (case d of
        JObj r \<Rightarrow>
          (case (jfield r ''principal'', jfield r ''ops'') of
             (JStr p, JArr qs) \<Rightarrow>
               if length p = 0 then None
               else (case requirePrincipal (JStr p) of
                       Inl _ \<Rightarrow> None
                     | Inr q \<Rightarrow> (case requireOps (JArr qs) of
                                  Inl _ \<Rightarrow> None
                                | Inr l \<Rightarrow> Some \<lparr>fe_principal = q, fe_ops = l\<rparr>))
           | _ \<Rightarrow> None)
      | _ \<Rightarrow> None)"

section \<open>The table\<close>

type_synonym forbidden_table = "(string, string list) jsmap"

definition forbidden_set :: "forbidden_table \<Rightarrow> json \<Rightarrow> json \<Rightarrow> forbidden_error + forbidden_table \<times> forbidden_entry" where
  "forbidden_set t who ops =
     res_bind (requirePrincipal who) (\<lambda>p.
       res_bind (requireOps ops) (\<lambda>l.
         Inr (if length l = 0 then map_del p t else map_set p l t, \<lparr>fe_principal = p, fe_ops = l\<rparr>)))"

definition isForbidden :: "forbidden_table \<Rightarrow> string \<Rightarrow> string \<Rightarrow> bool" where
  "isForbidden t who op = (case map_get t who of Some l \<Rightarrow> op \<in> set l | None \<Rightarrow> False)"

definition forbidden_clear :: "forbidden_table \<Rightarrow> json \<Rightarrow> forbidden_error + forbidden_table \<times> bool" where
  "forbidden_clear t who =
     res_bind (requirePrincipal who) (\<lambda>p. Inr (map_del p t, map_has t p))"

definition forbidden_list :: "forbidden_table \<Rightarrow> forbidden_entry list" where
  "forbidden_list t = map (\<lambda>(p, l). \<lparr>fe_principal = p, fe_ops = l\<rparr>) t"

section \<open>What a table promises\<close>

text \<open>A reachable table: keys once each, every list sorted, distinct, not empty, of non-empty ops.\<close>

definition ops_ok :: "string list \<Rightarrow> bool" where
  "ops_ok l \<longleftrightarrow> sorted l \<and> distinct l \<and> [] \<notin> set l"

definition row_ok :: "string \<Rightarrow> string list \<Rightarrow> bool" where
  "row_ok p l \<longleftrightarrow> p \<noteq> [] \<and> l \<noteq> [] \<and> ops_ok l"

definition forbidden_ok :: "forbidden_table \<Rightarrow> bool" where
  "forbidden_ok t \<longleftrightarrow> distinct (map_keys t) \<and>
     (\<forall>p l. map_get t p = Some l \<longrightarrow> row_ok p l)"

lemma require_op_Inr: "require_op v = Inr q \<longleftrightarrow> v = JStr q \<and> q \<noteq> []"
  by (cases v) auto

lemma requirePrincipal_Inr: "requirePrincipal v = Inr p \<longleftrightarrow> v = JStr p \<and> p \<noteq> []"
  by (cases v) auto

lemma res_map_ops: "res_map require_op xs = Inr out \<longleftrightarrow> xs = map JStr out \<and> [] \<notin> set out"
  unfolding res_map_Inr_iff require_op_Inr
proof (induction xs arbitrary: out)
  case (Cons x xs)
  show ?case by (cases out) (auto simp: Cons.IH)
qed auto

lemma res_map_JStr: "[] \<notin> set out \<Longrightarrow> res_map require_op (map JStr out) = Inr out"
  by (simp add: res_map_ops)

lemma requireOps_Inr:
  "requireOps v = Inr l \<longleftrightarrow> (\<exists>out. v = JArr (map JStr out) \<and> [] \<notin> set out \<and> l = sort (uniq out))"
proof
  assume r: "requireOps v = Inr l"
  then obtain xs out where "v = JArr xs" and "res_map require_op xs = Inr out" and "l = sort (uniq out)"
    by (cases v) (auto simp: res_bind_def split: sum.splits)
  then show "\<exists>out. v = JArr (map JStr out) \<and> [] \<notin> set out \<and> l = sort (uniq out)"
    by (auto simp: res_map_ops)
qed (auto simp: res_bind_def res_map_JStr)

lemma requireOps_ok: "requireOps v = Inr l \<Longrightarrow> ops_ok l"
  by (auto simp: requireOps_Inr ops_ok_def)

lemma requireOps_again: "ops_ok l \<Longrightarrow> requireOps (JArr (map JStr l)) = Inr l"
  by (auto simp: res_map_JStr res_bind_def ops_ok_def sorted_sort_id)

lemma forbidden_set_Inr:
  "forbidden_set t who ops = Inr (t', e) \<longleftrightarrow> (\<exists>p l. who = JStr p \<and> p \<noteq> [] \<and> requireOps ops = Inr l \<and>
     e = \<lparr>fe_principal = p, fe_ops = l\<rparr> \<and> t' = (if l = [] then map_del p t else map_set p l t))"
  by (auto simp: forbidden_set_def res_bind_def requirePrincipal_Inr split: sum.splits)

lemma forbidden_set_ok:
  assumes "forbidden_ok t" and "forbidden_set t who ops = Inr (t', e)"
  shows "forbidden_ok t'"
proof -
  obtain p l where pl: "p \<noteq> []" "requireOps ops = Inr l" and t': "t' = (if l = [] then map_del p t else map_set p l t)"
    using assms(2) by (auto simp: forbidden_set_Inr)
  then have "l \<noteq> [] \<Longrightarrow> row_ok p l" using requireOps_ok by (simp add: row_ok_def)
  then show ?thesis
    using assms(1) unfolding forbidden_ok_def t' by (simp add: distinct_update distinct_delete del: map_of_eq_Some_iff)
qed

section \<open>Properties\<close>

text \<open>Setting a list forbids exactly its ops to exactly that principal: afterwards a pair is
  forbidden if the principal is the one named and the op is in the list, or the principal is another
  and the pair was forbidden before; the table stays well-formed; a malformed list is refused.\<close>

theorem forbidden_set_exact:
  assumes "forbidden_ok t" and "forbidden_set t who ops = Inr (t', e)"
  shows "forbidden_ok t' \<and> who = JStr (fe_principal e) \<and>
    set (fe_ops e) = (case ops of JArr xs \<Rightarrow> {q. JStr q \<in> set xs} | _ \<Rightarrow> {}) \<and>
    isForbidden t' p op = (if p = fe_principal e then op \<in> set (fe_ops e) else isForbidden t p op)"
proof (intro conjI)
  show "forbidden_ok t'" by (rule forbidden_set_ok [OF assms])
  show "who = JStr (fe_principal e)" using assms(2) by (auto simp: forbidden_set_Inr)
  show "set (fe_ops e) = (case ops of JArr xs \<Rightarrow> {q. JStr q \<in> set xs} | _ \<Rightarrow> {})"
    using assms(2) by (auto simp: forbidden_set_Inr requireOps_Inr)
  show "isForbidden t' p op = (if p = fe_principal e then op \<in> set (fe_ops e) else isForbidden t p op)"
    using assms(2) by (cases "fe_ops e = []") (auto simp: forbidden_set_Inr isForbidden_def)
qed

lemma forbidden_set_exact_witness:
  "\<exists>t'. isForbidden t' ''agent:a'' ''mail.send@1'' \<and> \<not> isForbidden t' ''agent:b'' ''mail.send@1''"
proof -
  have "forbidden_set [] (JStr ''agent:a'') (JArr [JStr ''mail.send@1'']) =
      Inr ([(''agent:a'', [''mail.send@1''])], \<lparr>fe_principal = ''agent:a'', fe_ops = [''mail.send@1'']\<rparr>)"
    by (simp add: forbidden_set_def res_bind_def uniq_def set_add_def)
  moreover have "forbidden_ok []" by (simp add: forbidden_ok_def)
  ultimately show ?thesis
    using forbidden_set_exact by (fastforce simp: isForbidden_def)
qed

text \<open>Persistence round trip: the vault record of any entry the table accepted is read back as
  that entry, and setting it again leaves the decisions of the table unchanged.\<close>

theorem forbidden_record_roundtrip:
  assumes "forbidden_set t who ops = Inr (t', e)"
  shows "\<exists>r. forbidden_toRecord now e = Inr r \<and> forbidden_fromRecord r = Some e \<and>
    (\<exists>t''. forbidden_set t' (JStr (fe_principal e)) (JArr (map JStr (fe_ops e))) = Inr (t'', e) \<and>
       isForbidden t'' = isForbidden t')"
proof -
  obtain p l where e: "e = \<lparr>fe_principal = p, fe_ops = l\<rparr>" "p \<noteq> []" and l: "requireOps ops = Inr l"
    and t': "t' = (if l = [] then map_del p t else map_set p l t)"
    using assms by (auto simp: forbidden_set_Inr)
  have again: "requireOps (JArr (map JStr l)) = Inr l"
    using requireOps_again requireOps_ok l by blast
  have "forbidden_toRecord now e = Inr (JObj [(''principal'', JStr p), (''ops'', JArr (map JStr l)), (''updatedAt'', JNum now)])"
    using again e by (simp add: forbidden_toRecord_def res_bind_def)
  moreover have "forbidden_fromRecord (JObj [(''principal'', JStr p), (''ops'', JArr (map JStr l)), (''updatedAt'', JNum now)]) = Some e"
    using again e by (simp add: forbidden_fromRecord_def jfield_def)
  moreover have "isForbidden (if l = [] then map_del p t' else map_set p l t') = isForbidden t'"
    by (auto simp: t' isForbidden_def fun_eq_iff)
  moreover have "forbidden_set t' (JStr p) (JArr (map JStr l)) = Inr (if l = [] then map_del p t' else map_set p l t', e)"
    using again e by (simp only: forbidden_set_Inr) blast
  ultimately show ?thesis using e by auto
qed

lemma forbidden_record_roundtrip_witness:
  "\<exists>r. forbidden_toRecord 7 \<lparr>fe_principal = ''agent:a'', fe_ops = [''mail.send@1'']\<rparr> = Inr r \<and>
     forbidden_fromRecord r = Some \<lparr>fe_principal = ''agent:a'', fe_ops = [''mail.send@1'']\<rparr>"
proof -
  have "forbidden_set [] (JStr ''agent:a'') (JArr [JStr ''mail.send@1'']) =
      Inr ([(''agent:a'', [''mail.send@1''])], \<lparr>fe_principal = ''agent:a'', fe_ops = [''mail.send@1'']\<rparr>)"
    by (simp add: forbidden_set_def res_bind_def uniq_def set_add_def)
  from forbidden_record_roundtrip [OF this] show ?thesis by blast
qed

end
