(* ===== verification/Law_Principal.thy ===== *)
theory Law_Principal
  imports Law_Forbidden Port_Contracts
begin

text \<open>
  The principal-identity rows (\<open>plugins/vivim-law/src/principal.ts\<close>): validation of a principal
  string, the active and the retired record, and the mapping to vault data and back.
\<close>

definition PRINCIPAL_NS :: string where "PRINCIPAL_NS = ''principal''"

datatype principal_state = PActive | PRetired

record principal_record =
  pr_principal :: string
  pr_kind :: string
  pr_registeredAt :: int
  pr_state :: principal_state
  pr_retiredAt :: "int option"
  pr_generation :: int

datatype principal_error =
    PrincipalEmpty
  | PrincipalTooLong string
  | PrincipalControlChars
  | CannotRetire

definition kind_text :: "principal_kind \<Rightarrow> string" where
  "kind_text k = (case k of AgentKind \<Rightarrow> ''agent'' | UserKind \<Rightarrow> ''user'' | HostKind \<Rightarrow> ''host''
     | CompositionKind \<Rightarrow> ''composition'')"

definition control_char :: "char \<Rightarrow> bool" where
  "control_char c \<longleftrightarrow> (of_char c :: nat) \<le> 31 \<or> (of_char c :: nat) = 127"

fun require_principal_id :: "json \<Rightarrow> principal_error + string" where
  "require_principal_id (JStr p) =
     (if length p = 0 then Inl PrincipalEmpty
      else if length p > 200 then Inl (PrincipalTooLong (take 24 p))
      else if list_ex control_char p then Inl PrincipalControlChars
      else Inr p)"
| "require_principal_id _ = Inl PrincipalEmpty"

definition principalVaultId :: "string \<Rightarrow> principal_error + string" where
  "principalVaultId p = require_principal_id (JStr p)"

definition newRecord :: "int \<Rightarrow> string \<Rightarrow> principal_error + principal_record" where
  "newRecord now who =
     res_bind (require_principal_id (JStr who)) (\<lambda>p.
       Inr \<lparr>pr_principal = p, pr_kind = kind_text (principalKind p), pr_registeredAt = now,
            pr_state = PActive, pr_retiredAt = None, pr_generation = 1\<rparr>)"

definition retireRecord :: "int \<Rightarrow> principal_record \<Rightarrow> principal_error + principal_record" where
  "retireRecord now rec =
     (if pr_state rec \<noteq> PActive then Inl CannotRetire
      else Inr (rec\<lparr>pr_state := PRetired, pr_retiredAt := Some now, pr_generation := pr_generation rec + 1\<rparr>))"

definition state_text :: "principal_state \<Rightarrow> string" where
  "state_text s = (case s of PActive \<Rightarrow> ''active'' | PRetired \<Rightarrow> ''retired'')"

definition principal_json :: "principal_record \<Rightarrow> json" where
  "principal_json r = JObj
     ([(''principal'', JStr (pr_principal r)), (''kind'', JStr (pr_kind r)),
       (''registeredAt'', JNum (pr_registeredAt r)), (''state'', JStr (state_text (pr_state r)))] @
      (case pr_retiredAt r of Some t \<Rightarrow> [(''retiredAt'', JNum t)] | None \<Rightarrow> []) @
      [(''generation'', JNum (pr_generation r))])"

definition principal_fromRecord :: "json \<Rightarrow> principal_record option" where
  "principal_fromRecord d =
     (case d of
        JObj r \<Rightarrow>
          (case (jfield r ''principal'', jfield r ''state'', jfield r ''registeredAt'', jfield r ''generation'') of
             (JStr p, JStr s, JNum at, JNum g) \<Rightarrow>
               if length p = 0 then None
               else if s \<noteq> ''active'' \<and> s \<noteq> ''retired'' then None
               else Some \<lparr>pr_principal = p,
                          pr_kind = (case jfield r ''kind'' of JStr k \<Rightarrow> k | _ \<Rightarrow> ''unknown''),
                          pr_registeredAt = at,
                          pr_state = (if s = ''active'' then PActive else PRetired),
                          pr_retiredAt = (case jfield r ''retiredAt'' of JNum t \<Rightarrow> Some t | _ \<Rightarrow> None),
                          pr_generation = g\<rparr>
           | _ \<Rightarrow> None)
      | _ \<Rightarrow> None)"

lemma state_text_cases:
  "state_text s = ''active'' \<longleftrightarrow> s = PActive" "state_text s = ''retired'' \<longleftrightarrow> s = PRetired"
  by (cases s; simp add: state_text_def)+

lemma principal_json_read:
  "pr_principal r \<noteq> [] \<Longrightarrow> principal_fromRecord (principal_json r) = Some r"
  by (cases r; cases "pr_retiredAt r"; cases "pr_state r")
    (simp_all add: principal_fromRecord_def principal_json_def jfield_def state_text_def)

text \<open>The one-way life of a record: active to retired, never back.\<close>

inductive principal_life :: "principal_record \<Rightarrow> principal_record \<Rightarrow> bool" where
  life_same: "principal_life r r"
| life_retire: "principal_life r s \<Longrightarrow> retireRecord now s = Inr s' \<Longrightarrow> principal_life r s'"

lemma life_props: "principal_life r s \<Longrightarrow> pr_state r = PActive \<Longrightarrow> pr_generation r = 1 \<Longrightarrow>
    pr_principal s = pr_principal r \<and> pr_kind s = pr_kind r \<and> pr_registeredAt s = pr_registeredAt r \<and>
    (pr_generation s = 1 \<and> pr_state s = PActive \<or> pr_generation s = 2 \<and> pr_state s = PRetired)"
  by (induction rule: principal_life.induct) (auto simp: retireRecord_def split: if_splits)

section \<open>Properties\<close>

text \<open>From registration on a record keeps its principal, kind and registration time, has generation
  1 while active and 2 once retired; a retired record cannot be retired again, and every such
  record is read back from its vault data as itself.\<close>

theorem principal_record_life:
  assumes "newRecord now who = Inr r" and "principal_life r s"
  shows "pr_principal s = who \<and> pr_kind s = kind_text (principalKind who) \<and> pr_registeredAt s = now \<and>
    (if pr_state s = PActive then pr_generation s = 1
     else pr_generation s = 2 \<and> retireRecord later s = Inl CannotRetire) \<and>
    principal_fromRecord (principal_json s) = Some s"
proof -
  have r: "pr_principal r = who" "pr_kind r = kind_text (principalKind who)" "pr_registeredAt r = now"
    "pr_state r = PActive" "pr_generation r = 1" "who \<noteq> []"
    using assms(1) by (auto simp: newRecord_def res_bind_def split: sum.splits if_splits)
  note s = life_props [OF assms(2) r(4,5)]
  then have "pr_principal s \<noteq> []" using r by simp
  then have "principal_fromRecord (principal_json s) = Some s" by (rule principal_json_read)
  with s r show ?thesis by (auto simp: retireRecord_def)
qed

lemma principal_record_life_witness:
  "\<exists>r s. newRecord 5 ''user:u1'' = Inr r \<and> retireRecord 9 r = Inr s \<and> pr_principal s = ''user:u1'' \<and>
     retireRecord 11 s = Inl CannotRetire"
proof -
  obtain r where r: "newRecord 5 ''user:u1'' = Inr r" and a: "pr_state r = PActive"
    by (simp add: newRecord_def res_bind_def control_char_def)
  let ?s = "r\<lparr>pr_state := PRetired, pr_retiredAt := Some 9, pr_generation := pr_generation r + 1\<rparr>"
  have s: "retireRecord 9 r = Inr ?s" using a by (simp add: retireRecord_def)
  have "principal_life r ?s" by (rule life_retire [OF life_same s])
  from principal_record_life [OF r this, of 11] r s show ?thesis by auto
qed

end
