(* ===== verification/Law_Policy.thy ===== *)
theory Law_Policy
  imports Port_Contracts
begin

text \<open>
  The versioned policy document and its interpreter (\<open>plugins/vivim-law/src/policy.ts\<close>): risk
  classification by exact rows and longest prefix, the three passes of \<open>evalPolicy\<close>, the shipped
  document, and the normalisation of a shadow document.
\<close>

record policy_rule =
  ru_principal :: "string option"
  ru_op :: "string option"
  ru_decision :: law_action
  ru_reason :: string

record risk_entry =
  re_op :: string
  re_risk :: risk_class

record risk_default =
  rd_decision :: law_action
  rd_journal :: bool
  rd_reason :: string

record policy_doc =
  pd_policyId :: string
  pd_version :: string
  pd_description :: "string option"
  pd_riskTable :: "risk_entry list"
  pd_defaultRisk :: risk_class
  pd_riskDefaults :: "(risk_class, risk_default) jsmap"
  pd_rules :: "policy_rule list"

text \<open>The action is \<open>None\<close> when a document lacks the risk default (\<open>undefined\<close> in the source).\<close>

record policy_eval =
  pe_action :: "risk_default option"
  pe_risk :: risk_class
  pe_rule :: "policy_rule option"

section \<open>The shipped document\<close>

text \<open>The Greek letter and the dash of three descriptive texts are spelled in ASCII.\<close>

definition mutation_rows :: "string list" where
  "mutation_rows =
     [''vault.*'', ''note.*'', ''credential.put@1'', ''chat.open@1'', ''chat.append@1'',
      ''run.process.call@1'', ''forge.author.init@1'', ''intent.submit@1'', ''intent.resolve@1'',
      ''intent.step.execute@1'', ''intent.cancel@1'', ''intent.resolution@1'',
      ''law.principal.register@1'', ''law.principal.retire@1'', ''law.audit.drain@1'']"

definition risk_row :: "risk_class \<Rightarrow> string \<Rightarrow> risk_entry" where
  "risk_row r o' = \<lparr>re_op = o', re_risk = r\<rparr>"

definition LAW_POLICY_V1 :: policy_doc where
  "LAW_POLICY_V1 =
     \<lparr>pd_policyId = ''law.policy'', pd_version = ''1.8.0'',
      pd_description = Some ''Omega-1 baseline: risk-class defaults, mutation journaling, principal deny-list, credential-consent rule'',
      pd_riskTable =
        [risk_row EXTERNAL_MUTATION ''risky.op@1'', risk_row READ ''risky.read@1'',
         risk_row EXTERNAL_MUTATION ''vault.roundtrip@1'',
         risk_row MUTATION ''providers.session.start@1''] @ map (risk_row MUTATION) mutation_rows,
      pd_defaultRisk = EXTERNAL_MUTATION,
      pd_riskDefaults =
        [(READ, \<lparr>rd_decision = Allow, rd_journal = False, rd_reason = ''read-class: not gated''\<rparr>),
         (MUTATION, \<lparr>rd_decision = Allow, rd_journal = True,
            rd_reason = ''mutation-class: allowed and journaled''\<rparr>),
         (EXTERNAL_MUTATION, \<lparr>rd_decision = RequireConsent, rd_journal = True,
            rd_reason = ''external mutation: consent required''\<rparr>)],
      pd_rules =
        [\<lparr>ru_principal = Some ''omega.attacker'', ru_op = None, ru_decision = Deny,
           ru_reason = ''principal deny-listed (adversarial fixture, Omega-0 runtime suite)''\<rparr>,
         \<lparr>ru_principal = None, ru_op = Some ''credential.put@1'', ru_decision = RequireConsent,
           ru_reason = ''storing a credential is the security-sensitive bar -- consent required even though the class is vault-internal (D-356)''\<rparr>]\<rparr>"

section \<open>Classification\<close>

definition opMatches :: "string \<Rightarrow> string \<Rightarrow> bool" where
  "opMatches pattern op =
     (if pattern = ''*'' \<or> pattern = op then True
      else if ends_with pattern ''*'' then starts_with op (butlast pattern)
      else False)"

text \<open>\<open>riskIndex\<close>: the loop keeps the first exact row and collects the prefix rows; the stable
  sort puts long patterns first. The \<open>WeakMap\<close> cache is keyed by the document object, which is
  replaced and never mutated once live, so it returns what the loop would.\<close>

record risk_index =
  ri_exact :: "(string, risk_class) jsmap"
  ri_prefixes :: "risk_entry list"

definition index_row :: "risk_entry \<Rightarrow> risk_index \<Rightarrow> risk_index" where
  "index_row r x =
     (if ends_with (re_op r) ''*'' then x\<lparr>ri_prefixes := ri_prefixes x @ [r]\<rparr>
      else if \<not> map_has (ri_exact x) (re_op r) then x\<lparr>ri_exact := map_set (re_op r) (re_risk r) (ri_exact x)\<rparr>
      else x)"

definition riskIndex :: "policy_doc \<Rightarrow> risk_index" where
  "riskIndex doc =
     (let x = fold index_row (pd_riskTable doc) \<lparr>ri_exact = [], ri_prefixes = []\<rparr>
      in x\<lparr>ri_prefixes := sort_key (\<lambda>r. - int (length (re_op r))) (ri_prefixes x)\<rparr>)"

definition classifyRisk :: "policy_doc \<Rightarrow> string \<Rightarrow> risk_class" where
  "classifyRisk doc op =
     (let idx = riskIndex doc in
      case map_get (ri_exact idx) op of
        Some r \<Rightarrow> r
      | None \<Rightarrow>
          (case find (\<lambda>r. opMatches (re_op r) op) (ri_prefixes idx) of
             Some r \<Rightarrow> re_risk r
           | None \<Rightarrow> pd_defaultRisk doc))"

definition ruleMatches :: "policy_rule \<Rightarrow> string \<Rightarrow> string \<Rightarrow> bool" where
  "ruleMatches rule who op =
     (case ru_principal rule of
        Some p \<Rightarrow> if p \<noteq> who then False
                  else (case ru_op rule of Some q \<Rightarrow> opMatches q op | None \<Rightarrow> True)
      | None \<Rightarrow> (case ru_op rule of Some q \<Rightarrow> opMatches q op | None \<Rightarrow> True))"

definition rule_eval :: "policy_doc \<Rightarrow> string \<Rightarrow> policy_rule \<Rightarrow> policy_eval" where
  "rule_eval doc op rule =
     \<lparr>pe_action = Some \<lparr>rd_decision = ru_decision rule, rd_journal = True, rd_reason = ru_reason rule\<rparr>,
      pe_risk = classifyRisk doc op, pe_rule = Some rule\<rparr>"

definition evalPolicy :: "policy_doc \<Rightarrow> string \<Rightarrow> string \<Rightarrow> policy_eval" where
  "evalPolicy doc who op =
     (case find (\<lambda>rule. ru_decision rule = Deny \<and> ruleMatches rule who op) (pd_rules doc) of
        Some rule \<Rightarrow> rule_eval doc op rule
      | None \<Rightarrow>
          (case find (\<lambda>rule. ru_decision rule \<noteq> Deny \<and> ruleMatches rule who op) (pd_rules doc) of
             Some rule \<Rightarrow> rule_eval doc op rule
           | None \<Rightarrow>
               (let risk = classifyRisk doc op in
                \<lparr>pe_action = map_get (pd_riskDefaults doc) risk, pe_risk = risk, pe_rule = None\<rparr>)))"

section \<open>Shadow documents\<close>

record shadow_spec =
  ss_policyId :: "string option"
  ss_description :: "string option"
  ss_denyExternalMutations :: bool
  ss_policy :: "policy_doc option"

datatype policy_error = MissingRiskDefault risk_class

text \<open>\<open>cloneDoc\<close> goes through JSON; on documents, which are plain data, it is the identity. The
  final loop throws at the first risk class without a default.\<close>

definition cloneDoc :: "policy_doc \<Rightarrow> policy_doc" where
  "cloneDoc doc = doc"

definition normalizeShadowSpec :: "policy_doc \<Rightarrow> shadow_spec \<Rightarrow> policy_error + policy_doc" where
  "normalizeShadowSpec primary spec =
     (let d0 = (case ss_policy spec of Some p \<Rightarrow> cloneDoc p | None \<Rightarrow> cloneDoc primary);
          d1 = (case ss_policyId spec of Some i \<Rightarrow> d0\<lparr>pd_policyId := i\<rparr> | None \<Rightarrow> d0);
          d2 = (case ss_description spec of Some t \<Rightarrow> d1\<lparr>pd_description := Some t\<rparr> | None \<Rightarrow> d1);
          d3 = (if ss_denyExternalMutations spec
                then d2\<lparr>pd_riskDefaults := map_set EXTERNAL_MUTATION
                       \<lparr>rd_decision = Deny, rd_journal = True,
                        rd_reason = ''shadow: external mutations denied''\<rparr> (pd_riskDefaults d2)\<rparr>
                else d2)
      in case find (\<lambda>rc. \<not> map_has (pd_riskDefaults d3) rc) [EXTERNAL_MUTATION, MUTATION, READ] of
           Some rc \<Rightarrow> Inl (MissingRiskDefault rc)
         | None \<Rightarrow> Inr d3)"

section \<open>What the index computes\<close>

lemma ri_exact_fold:
  "map_get (ri_exact (fold index_row rs x)) op =
     (case map_get (ri_exact x) op of
        Some r \<Rightarrow> Some r
      | None \<Rightarrow> map_option re_risk (find (\<lambda>r. \<not> ends_with (re_op r) ''*'' \<and> re_op r = op) rs))"
  by (induction rs arbitrary: x) (auto simp: index_row_def split: option.splits)

lemma ri_prefixes_fold:
  "ri_prefixes (fold index_row rs x) = ri_prefixes x @ filter (\<lambda>r. ends_with (re_op r) ''*'') rs"
  by (induction rs arbitrary: x) (auto simp: index_row_def)

text \<open>The most specific of a list of rows: the longest pattern, the earliest among equals.\<close>

fun most_specific :: "risk_entry list \<Rightarrow> risk_entry option" where
  "most_specific [] = None"
| "most_specific (r # rs) =
     (case most_specific rs of
        Some q \<Rightarrow> if length (re_op r) < length (re_op q) then Some q else Some r
      | None \<Rightarrow> Some r)"

lemma find_hd: "find P xs = (case filter P xs of [] \<Rightarrow> None | x # _ \<Rightarrow> Some x)"
  by (induction xs) auto

lemma hd_sort_specific:
  "(case sort_key (\<lambda>r. - int (length (re_op r))) xs of [] \<Rightarrow> None | x # _ \<Rightarrow> Some x) = most_specific xs"
proof (induction xs)
  case (Cons r xs)
  show ?case
  proof (cases "sort_key (\<lambda>r. - int (length (re_op r))) xs")
    case Nil
    then show ?thesis using Cons.IH [symmetric] by simp
  next
    case (Cons y ys)
    then show ?thesis using Cons.IH [symmetric] by simp
  qed
qed simp

lemma find_sorted:
  "find P (sort_key (\<lambda>r. - int (length (re_op r))) xs) = most_specific (filter P xs)"
  by (simp add: find_hd filter_sort hd_sort_specific)

lemma most_specific_longest:
  "most_specific rs = Some r \<Longrightarrow> r \<in> set rs \<and> (\<forall>q\<in>set rs. length (re_op q) \<le> length (re_op r))"
proof (induction rs arbitrary: r)
  case (Cons a rs)
  then show ?case
  proof (cases "most_specific rs")
    case None
    then have "rs = []" by (cases rs) (auto split: option.splits if_splits)
    with Cons.prems show ?thesis by simp
  next
    case (Some q)
    with Cons.IH [OF Some] Cons.prems show ?thesis by (auto split: if_splits)
  qed
qed simp

lemma most_specific_None: "most_specific rs = None \<longleftrightarrow> rs = []"
  by (cases rs) (auto split: option.splits)

definition exact_row :: "policy_doc \<Rightarrow> string \<Rightarrow> risk_entry option" where
  "exact_row doc op = find (\<lambda>r. \<not> ends_with (re_op r) ''*'' \<and> re_op r = op) (pd_riskTable doc)"

definition prefix_rows :: "policy_doc \<Rightarrow> string \<Rightarrow> risk_entry list" where
  "prefix_rows doc op =
     filter (\<lambda>r. ends_with (re_op r) ''*'' \<and> starts_with op (butlast (re_op r))) (pd_riskTable doc)"

lemma opMatches_star: "ends_with p ''*'' \<Longrightarrow> opMatches p op \<longleftrightarrow> starts_with op (butlast p)"
  by (auto simp: opMatches_def ends_with_iff starts_with_iff)

lemma classify_rows:
  "classifyRisk doc op =
     (case exact_row doc op of
        Some r \<Rightarrow> re_risk r
      | None \<Rightarrow> (case most_specific (prefix_rows doc op) of
                   Some r \<Rightarrow> re_risk r
                 | None \<Rightarrow> pd_defaultRisk doc))"
proof -
  have "filter (\<lambda>r. opMatches (re_op r) op) (filter (\<lambda>r. ends_with (re_op r) ''*'') (pd_riskTable doc)) =
      prefix_rows doc op"
    by (auto simp: prefix_rows_def filter_filter opMatches_star intro: filter_cong)
  then show ?thesis
    by (simp add: classifyRisk_def riskIndex_def Let_def ri_exact_fold ri_prefixes_fold find_sorted
        exact_row_def split: option.splits)
qed

section \<open>Properties\<close>

text \<open>The precomputed index decides as a scan of the table does: an exact row outranks every
  prefix row and the first exact row wins; else the longest matching prefix wins, the earliest of
  equal length; an op no row matches has the default risk of the document.\<close>

theorem classifyRisk_scan:
  "(exact_row doc op = Some r \<longrightarrow> classifyRisk doc op = re_risk r) \<and>
   (exact_row doc op = None \<longrightarrow> most_specific (prefix_rows doc op) = Some q \<longrightarrow>
      classifyRisk doc op = re_risk q \<and> q \<in> set (prefix_rows doc op) \<and>
      filter (\<lambda>p. length (re_op q) < length (re_op p)) (prefix_rows doc op) = []) \<and>
   (exact_row doc op = None \<longrightarrow> prefix_rows doc op = [] \<longrightarrow> classifyRisk doc op = pd_defaultRisk doc)"
proof (intro conjI impI)
  assume "exact_row doc op = Some r"
  then show "classifyRisk doc op = re_risk r" by (simp add: classify_rows)
next
  assume "exact_row doc op = None" and q: "most_specific (prefix_rows doc op) = Some q"
  then show "classifyRisk doc op = re_risk q" by (simp add: classify_rows)
  show "q \<in> set (prefix_rows doc op)"
    and "filter (\<lambda>p. length (re_op q) < length (re_op p)) (prefix_rows doc op) = []"
    using most_specific_longest [OF q] by (auto simp: filter_empty_conv not_less)
next
  assume "exact_row doc op = None" and "prefix_rows doc op = []"
  then show "classifyRisk doc op = pd_defaultRisk doc" by (simp add: classify_rows)
qed

lemma classifyRisk_scan_witness:
  "classifyRisk LAW_POLICY_V1 ''vault.roundtrip@1'' = EXTERNAL_MUTATION \<and>
   classifyRisk LAW_POLICY_V1 ''vault.append@1'' = MUTATION \<and>
   classifyRisk LAW_POLICY_V1 ''mail.send@1'' = EXTERNAL_MUTATION"
proof (intro conjI)
  note defs = exact_row_def prefix_rows_def LAW_POLICY_V1_def risk_row_def mutation_rows_def
    ends_with_def starts_with_def
  show "classifyRisk LAW_POLICY_V1 ''vault.roundtrip@1'' = EXTERNAL_MUTATION"
    using classifyRisk_scan [of LAW_POLICY_V1 "''vault.roundtrip@1''"] by (simp add: defs)
  show "classifyRisk LAW_POLICY_V1 ''vault.append@1'' = MUTATION"
    using classifyRisk_scan [of LAW_POLICY_V1 "''vault.append@1''"] by (simp add: defs)
  show "classifyRisk LAW_POLICY_V1 ''mail.send@1'' = EXTERNAL_MUTATION"
    using classifyRisk_scan [of LAW_POLICY_V1 "''mail.send@1''"] by (simp add: defs)
qed

lemma find_None_filter: "find P xs = None \<longleftrightarrow> filter P xs = []"
  by (induction xs) auto

text \<open>Deny is sticky whatever the order of the rows: the interpreter denies exactly when some
  deny row matches, or no row matches and the default of the op's risk class is deny; and no row of
  any kind matching, the answer is that default.\<close>

theorem evalPolicy_deny_sticky:
  "(map_option rd_decision (pe_action (evalPolicy doc who op)) = Some Deny \<longleftrightarrow>
      list_ex (\<lambda>r. ru_decision r = Deny \<and> ruleMatches r who op) (pd_rules doc) \<or>
      filter (\<lambda>r. ruleMatches r who op) (pd_rules doc) = [] \<and>
        map_option rd_decision (map_get (pd_riskDefaults doc) (classifyRisk doc op)) = Some Deny) \<and>
   (filter (\<lambda>r. ruleMatches r who op) (pd_rules doc) = [] \<longleftrightarrow>
      pe_rule (evalPolicy doc who op) = None) \<and>
   pe_risk (evalPolicy doc who op) = classifyRisk doc op"
proof (cases "find (\<lambda>rule. ru_decision rule = Deny \<and> ruleMatches rule who op) (pd_rules doc)")
  case (Some r)
  then have "ru_decision r = Deny \<and> ruleMatches r who op \<and> r \<in> set (pd_rules doc)"
    by (auto simp: find_Some_iff)
  with Some show ?thesis
    by (auto simp: evalPolicy_def rule_eval_def filter_empty_conv list_ex_iff)
next
  case None
  note deny = None
  then have nod: "filter (\<lambda>r. ru_decision r = Deny \<and> ruleMatches r who op) (pd_rules doc) = []"
    by (simp add: find_None_filter)
  show ?thesis
  proof (cases "find (\<lambda>rule. ru_decision rule \<noteq> Deny \<and> ruleMatches rule who op) (pd_rules doc)")
    case (Some r)
    then have "ru_decision r \<noteq> Deny \<and> ruleMatches r who op \<and> r \<in> set (pd_rules doc)"
      by (auto simp: find_Some_iff)
    with Some deny nod show ?thesis
      by (auto simp: evalPolicy_def rule_eval_def filter_empty_conv list_ex_iff)
  next
    case None
    then have "filter (\<lambda>r. ru_decision r \<noteq> Deny \<and> ruleMatches r who op) (pd_rules doc) = []"
      by (simp add: find_None_filter)
    with nod have "filter (\<lambda>r. ruleMatches r who op) (pd_rules doc) = []"
      by (auto simp: filter_empty_conv list_ex_iff)
    moreover have ne: "\<not> list_ex (\<lambda>r. ru_decision r = Deny \<and> ruleMatches r who op) (pd_rules doc)"
      using nod by (auto simp: list_ex_iff filter_empty_conv)
    ultimately show ?thesis using None deny nod by (simp add: ne evalPolicy_def Let_def)
  qed
qed

text \<open>The ops the shipped table classes as mutations.\<close>

definition v1_mutation :: "string \<Rightarrow> bool" where
  "v1_mutation op \<longleftrightarrow> op = ''providers.session.start@1'' \<or> op \<in> set (drop 2 mutation_rows) \<or>
     (starts_with op ''vault.'' \<and> op \<noteq> ''vault.roundtrip@1'') \<or> starts_with op ''note.''"

lemma v1_exact:
  "map_option re_risk (exact_row LAW_POLICY_V1 op) =
     (if op = ''risky.op@1'' \<or> op = ''vault.roundtrip@1'' then Some EXTERNAL_MUTATION
      else if op = ''risky.read@1'' then Some READ
      else if op = ''providers.session.start@1'' \<or> op \<in> set (drop 2 mutation_rows) then Some MUTATION
      else None)"
  by (simp add: exact_row_def LAW_POLICY_V1_def risk_row_def mutation_rows_def ends_with_def eq_commute [of _ op])

lemma v1_prefix:
  "map re_risk (prefix_rows LAW_POLICY_V1 op) =
     (if starts_with op ''vault.'' then [MUTATION] else []) @
     (if starts_with op ''note.'' then [MUTATION] else [])"
  by (simp add: prefix_rows_def LAW_POLICY_V1_def risk_row_def mutation_rows_def ends_with_def)

lemma v1_specific:
  "map_option re_risk (most_specific (prefix_rows LAW_POLICY_V1 op)) =
     (if starts_with op ''vault.'' \<or> starts_with op ''note.'' then Some MUTATION else None)"
proof (cases "most_specific (prefix_rows LAW_POLICY_V1 op)")
  case None
  then show ?thesis using v1_prefix [of op] by (simp add: most_specific_None split: if_splits)
next
  case (Some r)
  then have "re_risk r \<in> set (map re_risk (prefix_rows LAW_POLICY_V1 op))"
    using most_specific_longest by auto
  with Some show ?thesis unfolding v1_prefix by (auto split: if_splits)
qed

lemma classify_v1:
  "classifyRisk LAW_POLICY_V1 op =
     (if v1_mutation op then MUTATION else if op = ''risky.read@1'' then READ else EXTERNAL_MUTATION)"
proof (cases "exact_row LAW_POLICY_V1 op")
  case (Some r)
  then show ?thesis
    using v1_exact [of op]
    by (auto simp: classify_rows v1_mutation_def mutation_rows_def starts_with_def split: if_splits)
next
  case None
  have d: "pd_defaultRisk LAW_POLICY_V1 = EXTERNAL_MUTATION" by (simp add: LAW_POLICY_V1_def)
  from None have "op \<noteq> ''risky.op@1'' \<and> op \<noteq> ''vault.roundtrip@1'' \<and> op \<noteq> ''risky.read@1'' \<and>
      op \<noteq> ''providers.session.start@1'' \<and> op \<notin> set (drop 2 mutation_rows)"
    using v1_exact [of op] by (metis option.distinct(1) option.simps(8))
  then show ?thesis
    using None v1_specific [of op]
    by (cases "most_specific (prefix_rows LAW_POLICY_V1 op)")
      (auto simp: classify_rows v1_mutation_def d split: if_splits)
qed

lemma v1_rules:
  "pd_rules LAW_POLICY_V1 =
     [\<lparr>ru_principal = Some ''omega.attacker'', ru_op = None, ru_decision = Deny,
        ru_reason = ru_reason (hd (pd_rules LAW_POLICY_V1))\<rparr>,
      \<lparr>ru_principal = None, ru_op = Some ''credential.put@1'', ru_decision = RequireConsent,
        ru_reason = ru_reason (pd_rules LAW_POLICY_V1 ! 1)\<rparr>]"
  by (simp add: LAW_POLICY_V1_def)

lemma v1_defaults:
  "map_option (\<lambda>a. (rd_decision a, rd_journal a)) (map_get (pd_riskDefaults LAW_POLICY_V1) r) =
     Some (case r of READ \<Rightarrow> (Allow, False) | MUTATION \<Rightarrow> (Allow, True)
       | EXTERNAL_MUTATION \<Rightarrow> (RequireConsent, True))"
  by (cases r) (simp_all add: LAW_POLICY_V1_def)

definition v1_verdict :: "string \<Rightarrow> string \<Rightarrow> law_action \<times> bool" where
  "v1_verdict who op =
     (if who = ''omega.attacker'' then (Deny, True)
      else if op = ''credential.put@1'' then (RequireConsent, True)
      else if v1_mutation op then (Allow, True)
      else if op = ''risky.read@1'' then (Allow, False)
      else (RequireConsent, True))"

lemma v1_decides:
  "map_option (\<lambda>a. (rd_decision a, rd_journal a)) (pe_action (evalPolicy LAW_POLICY_V1 who op)) =
     Some (v1_verdict who op)"
proof -
  have star: "opMatches ''credential.put@1'' op \<longleftrightarrow> op = ''credential.put@1''"
    by (auto simp: opMatches_def ends_with_def)
  show ?thesis
    using v1_defaults [of READ] v1_defaults [of MUTATION] v1_defaults [of EXTERNAL_MUTATION]
    unfolding evalPolicy_def v1_verdict_def
    by (subst (1 2) v1_rules) (simp add: ruleMatches_def rule_eval_def star Let_def classify_v1)
qed

text \<open>What the shipped document answers, for every principal and op: the deny-listed principal
  is denied everything; storing a credential needs consent; the listed mutations are allowed and
  journaled; one read op is allowed silently; every other op of every other principal needs
  consent (fail-closed).\<close>

theorem shipped_policy_decides:
  "map_option (\<lambda>a. (rd_decision a, rd_journal a)) (pe_action (evalPolicy LAW_POLICY_V1 who op)) =
     Some (if who = ''omega.attacker'' then (Deny, True)
           else if op = ''credential.put@1'' then (RequireConsent, True)
           else if v1_mutation op then (Allow, True)
           else if op = ''risky.read@1'' then (Allow, False)
           else (RequireConsent, True))"
  by (simp only: v1_decides v1_verdict_def)

text \<open>Normalising a shadow returns a document with all three risk defaults, or refuses naming a
  class whose default is missing; a shadow never touches the rules, the risk table or the default
  class of the document it is derived from, and the deny switch only turns the external-mutation
  default into a denial.\<close>

theorem normalizeShadow_total:
  "(case normalizeShadowSpec primary spec of
      Inl (MissingRiskDefault rc) \<Rightarrow>
        \<not> map_has (pd_riskDefaults (case ss_policy spec of Some p \<Rightarrow> p | None \<Rightarrow> primary)) rc
    | Inr d \<Rightarrow>
        (let base = (case ss_policy spec of Some p \<Rightarrow> p | None \<Rightarrow> primary) in
         pd_rules d = pd_rules base \<and> pd_riskTable d = pd_riskTable base \<and>
         pd_defaultRisk d = pd_defaultRisk base \<and>
         map_has (pd_riskDefaults d) READ \<and> map_has (pd_riskDefaults d) MUTATION \<and>
         map_has (pd_riskDefaults d) EXTERNAL_MUTATION \<and>
         map_get (pd_riskDefaults d) READ = map_get (pd_riskDefaults base) READ \<and>
         map_get (pd_riskDefaults d) MUTATION = map_get (pd_riskDefaults base) MUTATION \<and>
         (if ss_denyExternalMutations spec
          then map_option rd_decision (map_get (pd_riskDefaults d) EXTERNAL_MUTATION) = Some Deny
          else map_get (pd_riskDefaults d) EXTERNAL_MUTATION = map_get (pd_riskDefaults base) EXTERNAL_MUTATION)))"
  by (cases "ss_policy spec"; cases "ss_policyId spec"; cases "ss_description spec";
      cases "ss_denyExternalMutations spec")
    (simp_all add: normalizeShadowSpec_def cloneDoc_def Let_def)

end
