(* ===== verification/Law_Amendment.thy ===== *)
theory Law_Amendment
  imports Law_Policy
begin

text \<open>
  Shadow mode (\<open>plugins/vivim-law/src/amendment.ts\<close>): a second policy document evaluated beside the
  live one, and the ledger of the calls on which the two disagree.
\<close>

type_synonym verdict = "law_action \<times> string"

record divergence =
  dv_ts :: int
  dv_principal :: string
  dv_op :: string
  dv_causationId :: "string option"
  dv_primary :: verdict
  dv_shadow :: verdict
  dv_shadowPolicyId :: string

record amendment =
  am_primary :: policy_doc
  am_shadow :: "policy_doc option"
  am_registeredAt :: int
  am_divergences :: "divergence list"

datatype shadow_status =
    Unregistered
  | Registered string string "string option" int

definition new_amendment :: "policy_doc \<Rightarrow> amendment" where
  "new_amendment p = \<lparr>am_primary = p, am_shadow = None, am_registeredAt = 0, am_divergences = []\<rparr>"

definition shadow_status_of :: "amendment \<Rightarrow> shadow_status" where
  "shadow_status_of a =
     (case am_shadow a of
        None \<Rightarrow> Unregistered
      | Some d \<Rightarrow> Registered (pd_policyId d) (pd_version d) (pd_description d) (am_registeredAt a))"

definition registerShadow :: "int \<Rightarrow> amendment \<Rightarrow> shadow_spec \<Rightarrow> policy_error + amendment \<times> shadow_status" where
  "registerShadow now a spec =
     res_bind (normalizeShadowSpec (am_primary a) spec) (\<lambda>d.
       let a' = a\<lparr>am_shadow := Some d, am_registeredAt := now, am_divergences := []\<rparr>
       in Inr (a', shadow_status_of a'))"

definition clearShadow :: "amendment \<Rightarrow> amendment \<times> shadow_status" where
  "clearShadow a = (a\<lparr>am_shadow := None\<rparr>, Unregistered)"

definition shadow_isRegistered :: "amendment \<Rightarrow> bool" where
  "shadow_isRegistered a \<longleftrightarrow> am_shadow a \<noteq> None"

definition shadow_doc :: "amendment \<Rightarrow> policy_doc option" where
  "shadow_doc a = map_option cloneDoc (am_shadow a)"

definition shadow_observe ::
    "int \<Rightarrow> amendment \<Rightarrow> string \<Rightarrow> string \<Rightarrow> verdict \<Rightarrow> verdict \<Rightarrow> string option \<Rightarrow> amendment \<times> divergence option" where
  "shadow_observe now a who op primary shadow causationId =
     (if fst primary = fst shadow then (a, None)
      else
        (let rec = \<lparr>dv_ts = now, dv_principal = who, dv_op = op, dv_causationId = causationId,
                    dv_primary = primary, dv_shadow = shadow,
                    dv_shadowPolicyId = (case am_shadow a of Some d \<Rightarrow> pd_policyId d | None \<Rightarrow> ''none'')\<rparr>
         in (a\<lparr>am_divergences := am_divergences a @ [rec]\<rparr>, Some rec)))"

record amendment_report =
  ar_shadow :: shadow_status
  ar_divergences :: "divergence list"
  ar_count :: nat

definition amendment_report_of :: "amendment \<Rightarrow> amendment_report" where
  "amendment_report_of a =
     \<lparr>ar_shadow = shadow_status_of a, ar_divergences = am_divergences a, ar_count = length (am_divergences a)\<rparr>"

section \<open>Runs\<close>

datatype amendment_op =
    ARegister int shadow_spec
  | AClear
  | AObserve int string string verdict verdict "string option"

fun amendment_step :: "amendment \<Rightarrow> amendment_op \<Rightarrow> amendment" where
  "amendment_step a (ARegister now spec) =
     (case registerShadow now a spec of Inl _ \<Rightarrow> a | Inr (a', _) \<Rightarrow> a')"
| "amendment_step a AClear = fst (clearShadow a)"
| "amendment_step a (AObserve now who op p s c) = fst (shadow_observe now a who op p s c)"

text \<open>A document every class of risk has a default in.\<close>

definition doc_complete :: "policy_doc \<Rightarrow> bool" where
  "doc_complete d \<longleftrightarrow> map_has (pd_riskDefaults d) READ \<and> map_has (pd_riskDefaults d) MUTATION \<and>
     map_has (pd_riskDefaults d) EXTERNAL_MUTATION"

lemma v1_complete: "doc_complete LAW_POLICY_V1"
  by (simp add: doc_complete_def LAW_POLICY_V1_def)

lemma doc_complete_has: "doc_complete d \<Longrightarrow> map_has (pd_riskDefaults d) r"
  by (cases r) (simp_all add: doc_complete_def)

lemma doc_complete_eval:
  assumes "doc_complete d"
  shows "\<exists>a. pe_action (evalPolicy d who op) = Some a"
proof (cases "pe_action (evalPolicy d who op)")
  case None
  then have "map_get (pd_riskDefaults d) (classifyRisk d op) = None"
    by (simp add: evalPolicy_def rule_eval_def Let_def split: option.splits)
  with doc_complete_has [OF assms] show ?thesis by blast
qed auto

lemma normalizeShadow_complete: "normalizeShadowSpec p spec = Inr d \<Longrightarrow> doc_complete d"
  by (auto simp: normalizeShadowSpec_def doc_complete_def Let_def split: option.splits if_splits)

definition amendment_ok :: "amendment \<Rightarrow> bool" where
  "amendment_ok a \<longleftrightarrow> (\<forall>d. am_shadow a = Some d \<longrightarrow> doc_complete d) \<and>
     list_all (\<lambda>v. fst (dv_primary v) \<noteq> fst (dv_shadow v)) (am_divergences a)"

lemma amendment_step_ok: "amendment_ok a \<Longrightarrow> amendment_ok (amendment_step a x) \<and> am_primary (amendment_step a x) = am_primary a"
  using normalizeShadow_complete
  by (cases x) (auto simp: amendment_ok_def registerShadow_def res_bind_def clearShadow_def shadow_observe_def
      Let_def split: sum.splits)

lemma amendment_run_ok:
  "amendment_ok a \<Longrightarrow> amendment_ok (foldl amendment_step a xs) \<and> am_primary (foldl amendment_step a xs) = am_primary a"
proof (induction xs arbitrary: a)
  case (Cons x xs)
  then show ?case using amendment_step_ok [of a x] Cons.IH [of "amendment_step a x"] by simp
qed simp

section \<open>Properties\<close>

text \<open>Whatever is registered, cleared and observed, the live policy is the one the object was made
  with, a registered shadow always has its three risk defaults (so evaluating it cannot fail), and
  every entry of the ledger is a real disagreement; a registration starts the ledger anew, and an
  observation adds an entry exactly when the decisions differ.\<close>

theorem shadow_only_observes:
  "am_primary (foldl amendment_step (new_amendment p) xs) = p \<and>
   list_all (\<lambda>v. fst (dv_primary v) \<noteq> fst (dv_shadow v))
     (ar_divergences (amendment_report_of (foldl amendment_step (new_amendment p) xs))) \<and>
   (case shadow_doc (foldl amendment_step (new_amendment p) xs) of
      None \<Rightarrow> True
    | Some d \<Rightarrow> (\<exists>a. pe_action (evalPolicy d who op) = Some a)) \<and>
   ar_count (amendment_report_of (amendment_step (foldl amendment_step (new_amendment p) xs) (AObserve now who op v w c))) =
     ar_count (amendment_report_of (foldl amendment_step (new_amendment p) xs)) + (if fst v = fst w then 0 else 1) \<and>
   (case registerShadow now (foldl amendment_step (new_amendment p) xs) spec of
      Inl _ \<Rightarrow> True
    | Inr (a', _) \<Rightarrow> shadow_isRegistered a' \<and> ar_count (amendment_report_of a') = 0)"
proof -
  let ?a = "foldl amendment_step (new_amendment p) xs"
  have "amendment_ok (new_amendment p)" by (simp add: amendment_ok_def new_amendment_def)
  then have ok: "amendment_ok ?a" and pr: "am_primary ?a = p"
    using amendment_run_ok [of "new_amendment p" xs] by (simp_all add: new_amendment_def)
  have "case shadow_doc ?a of None \<Rightarrow> True | Some d \<Rightarrow> (\<exists>a. pe_action (evalPolicy d who op) = Some a)"
    using ok doc_complete_eval by (auto simp: shadow_doc_def cloneDoc_def amendment_ok_def split: option.splits)
  moreover have "case registerShadow now ?a spec of Inl _ \<Rightarrow> True
      | Inr (a', _) \<Rightarrow> shadow_isRegistered a' \<and> ar_count (amendment_report_of a') = 0"
    by (auto simp: registerShadow_def res_bind_def shadow_isRegistered_def amendment_report_of_def Let_def split: sum.splits)
  moreover have "ar_count (amendment_report_of (amendment_step ?a (AObserve now who op v w c))) =
     ar_count (amendment_report_of ?a) + (if fst v = fst w then 0 else 1)"
    by (simp add: amendment_report_of_def shadow_observe_def Let_def)
  ultimately show ?thesis
    using ok pr by (simp add: amendment_report_of_def amendment_ok_def)
qed

end
