(* ===== verification/Law_Registry.thy ===== *)
theory Law_Registry
  imports Law_Forbidden Port_Contracts
begin

text \<open>
  The law's lifecycle registry (\<open>plugins/vivim-law/src/registry.ts\<close>): what it has observed, how it
  absorbs the journal file and the vault's journal rows, and the snapshot it serves. Reading the
  file is a parameter (the text, or \<open>None\<close> when it is absent or unreadable), and so is
  \<open>JSON.parse\<close>; the clock is an argument.
\<close>

definition RESERVED_PRINCIPALS :: "string list" where
  "RESERVED_PRINCIPALS = [''root'', micro_host @ ''-gate'', ''host'', ''all'', []]"

record observation =
  ob_id :: string
  ob_state :: lifecycle_state
  ob_firstSeen :: int
  ob_lastSeen :: int
  ob_seenVia :: "string list"

record law_registry =
  lr_observations :: "(string, observation) jsmap"
  lr_journalPath :: string
  lr_replayed :: nat
  lr_absorbed :: nat
  lr_cursor :: nat
  lr_observed :: nat
  lr_selfId :: string
  lr_vaultSeen :: "string list"
  lr_vaultAbsorbed :: nat

definition new_registry :: law_registry where
  "new_registry = \<lparr>lr_observations = [], lr_journalPath = [], lr_replayed = 0, lr_absorbed = 0,
     lr_cursor = 0, lr_observed = 0, lr_selfId = [], lr_vaultSeen = [], lr_vaultAbsorbed = 0\<rparr>"

section \<open>Operations\<close>

definition js_trim :: "string \<Rightarrow> string" where
  "js_trim s =
     (let ws = (\<lambda>c. let n = of_char c :: nat in 9 \<le> n \<and> n \<le> 13 \<or> n = 32 \<or> n = 160)
      in rev (dropWhile ws (rev (dropWhile ws s))))"

fun parse_lines :: "(string \<Rightarrow> json option) \<Rightarrow> string list \<Rightarrow> json list" where
  "parse_lines parse [] = []"
| "parse_lines parse (line # lines) =
     (let t = js_trim line in
      if t = [] then parse_lines parse lines
      else (case parse t of
              Some e \<Rightarrow> e # parse_lines parse lines
            | None \<Rightarrow> parse_lines parse lines))"

definition readJournalLines ::
    "(string \<Rightarrow> json option) \<Rightarrow> (string \<Rightarrow> string option) \<Rightarrow> string \<Rightarrow> json list" where
  "readJournalLines parse file path =
     (if path = [] then []
      else (case file path of
              None \<Rightarrow> []
            | Some text \<Rightarrow> parse_lines parse (split_on (CHR 0x0A) text)))"

definition registry_observe :: "int \<Rightarrow> json \<Rightarrow> lifecycle_state \<Rightarrow> string \<Rightarrow> law_registry \<Rightarrow> law_registry" where
  "registry_observe now i st via r =
     (case i of
        JStr x \<Rightarrow>
          if x \<in> set RESERVED_PRINCIPALS then r
          else (case map_get (lr_observations r) x of
                  Some rec \<Rightarrow>
                    r\<lparr>lr_observations := map_set x
                        (rec\<lparr>ob_lastSeen := now, ob_state := st,
                             ob_seenVia := (if via \<notin> set (ob_seenVia rec) then ob_seenVia rec @ [via] else ob_seenVia rec)\<rparr>)
                        (lr_observations r)\<rparr>
                | None \<Rightarrow>
                    r\<lparr>lr_observations := map_set x
                        \<lparr>ob_id = x, ob_state = st, ob_firstSeen = now, ob_lastSeen = now, ob_seenVia = [via]\<rparr>
                        (lr_observations r)\<rparr>)
      | _ \<Rightarrow> r)"

definition absorbEntry :: "int \<Rightarrow> json \<Rightarrow> string \<Rightarrow> law_registry \<Rightarrow> law_registry" where
  "absorbEntry now e via r =
     registry_observe now (jfield (asObj e) ''pluginId'') Active via
       (registry_observe now (jfield (asObj e) ''scope'') Active via
         (registry_observe now (jfield (asObj e) ''principal'') Active via r))"

definition registry_init ::
    "(string \<Rightarrow> json option) \<Rightarrow> (string \<Rightarrow> string option) \<Rightarrow> int \<Rightarrow> json \<Rightarrow> string \<Rightarrow> law_registry \<Rightarrow> law_registry \<times> nat" where
  "registry_init parse file now journalPath selfId r0 =
     (let path = str_of journalPath;
          r1 = registry_observe now (JStr selfId) Active ''self''
                 (r0\<lparr>lr_selfId := selfId, lr_journalPath := path\<rparr>)
      in if path = [] then (r1, 0)
         else (let lines = readJournalLines parse file path;
                   r2 = r1\<lparr>lr_replayed := length lines, lr_cursor := length lines\<rparr>
               in (fold (\<lambda>e. absorbEntry now e ''journal-replay'') lines r2, length lines)))"

definition registry_countEvent :: "law_registry \<Rightarrow> law_registry" where
  "registry_countEvent r = r\<lparr>lr_observed := lr_observed r + 1\<rparr>"

definition vaultRowSeen :: "law_registry \<Rightarrow> string \<Rightarrow> bool" where
  "vaultRowSeen r i \<longleftrightarrow> i \<in> set (lr_vaultSeen r)"

definition absorbVaultRow :: "int \<Rightarrow> string \<Rightarrow> json \<Rightarrow> law_registry \<Rightarrow> law_registry \<times> bool" where
  "absorbVaultRow now i e r =
     (if i \<in> set (lr_vaultSeen r) then (r, False)
      else (absorbEntry now e ''vault-journal''
              (r\<lparr>lr_vaultSeen := set_add i (lr_vaultSeen r), lr_vaultAbsorbed := lr_vaultAbsorbed r + 1\<rparr>), True))"

definition registry_refresh ::
    "(string \<Rightarrow> json option) \<Rightarrow> (string \<Rightarrow> string option) \<Rightarrow> int \<Rightarrow> law_registry \<Rightarrow> law_registry \<times> nat" where
  "registry_refresh parse file now r =
     (if lr_journalPath r = [] then (r, lr_replayed r + lr_absorbed r)
      else
        (let lines = readJournalLines parse file (lr_journalPath r);
             cur = (if length lines < lr_cursor r then 0 else lr_cursor r);
             r1 = fold (\<lambda>e. absorbEntry now e ''journal-live'') (drop cur lines) (r\<lparr>lr_cursor := cur\<rparr>);
             r2 = (if length lines > cur
                   then r1\<lparr>lr_absorbed := lr_absorbed r1 + (length lines - cur)\<rparr> else r1);
             r3 = r2\<lparr>lr_cursor := max cur (length lines)\<rparr>
         in (r3, lr_replayed r3 + lr_absorbed r3)))"

record registry_snapshot =
  rs_plugins :: "string list"
  rs_events :: nat
  rs_consents :: nat
  rs_generation :: nat
  rs_replayed :: nat
  rs_observed :: nat
  rs_states :: "(string, observation) jsmap"

definition registry_snapshot_of ::
    "(string \<Rightarrow> json option) \<Rightarrow> (string \<Rightarrow> string option) \<Rightarrow> int \<Rightarrow> nat \<Rightarrow> nat \<Rightarrow> law_registry \<Rightarrow> law_registry \<times> registry_snapshot" where
  "registry_snapshot_of parse file now consents gen r =
     (let (r', n) = registry_refresh parse file now r in
      (r', \<lparr>rs_plugins = sort (map_keys (lr_observations r')), rs_events = n + lr_vaultAbsorbed r',
            rs_consents = consents, rs_generation = gen, rs_replayed = lr_replayed r',
            rs_observed = lr_observed r', rs_states = lr_observations r'\<rparr>))"

section \<open>Observing\<close>

definition named_ids :: "json \<Rightarrow> string set" where
  "named_ids v = (case v of JStr x \<Rightarrow> if x \<in> set RESERVED_PRINCIPALS then {} else {x} | _ \<Rightarrow> {})"

definition entry_ids :: "json \<Rightarrow> string set" where
  "entry_ids e = named_ids (jfield (asObj e) ''principal'') \<union> named_ids (jfield (asObj e) ''scope'') \<union>
     named_ids (jfield (asObj e) ''pluginId'')"

definition known :: "law_registry \<Rightarrow> string set" where
  "known r = set (map_keys (lr_observations r))"

lemma known_iff: "x \<in> known r \<longleftrightarrow> map_has (lr_observations r) x"
  unfolding known_def by (rule map_has_keys [symmetric])

lemma known_upd [simp]:
  "known (lr_journalPath_update f r) = known r" "known (lr_selfId_update g r) = known r"
  "known (lr_replayed_update h r) = known r" "known (lr_cursor_update h r) = known r"
  "known (lr_absorbed_update h r) = known r" "known (lr_observed_update h r) = known r"
  "known (lr_vaultSeen_update k r) = known r" "known (lr_vaultAbsorbed_update h r) = known r"
  by (simp_all add: known_def)

lemma known_observe [simp]: "known (registry_observe now i st via r) = known r \<union> named_ids i"
proof -
  have "x \<in> known (registry_observe now i st via r) \<longleftrightarrow> x \<in> known r \<union> named_ids i" for x
    by (auto simp: known_iff registry_observe_def named_ids_def split: json.splits option.splits)
  then show ?thesis by blast
qed

lemma observe_other [simp]:
  "lr_journalPath (registry_observe now i st via r) = lr_journalPath r"
  "lr_replayed (registry_observe now i st via r) = lr_replayed r"
  "lr_absorbed (registry_observe now i st via r) = lr_absorbed r"
  "lr_cursor (registry_observe now i st via r) = lr_cursor r"
  "lr_observed (registry_observe now i st via r) = lr_observed r"
  "lr_vaultSeen (registry_observe now i st via r) = lr_vaultSeen r"
  "lr_vaultAbsorbed (registry_observe now i st via r) = lr_vaultAbsorbed r"
  by (simp_all add: registry_observe_def split: json.splits option.splits)

lemma known_absorb [simp]: "known (absorbEntry now e via r) = known r \<union> entry_ids e"
  by (auto simp: absorbEntry_def entry_ids_def)

lemma absorb_other [simp]:
  "lr_journalPath (absorbEntry now e via r) = lr_journalPath r"
  "lr_replayed (absorbEntry now e via r) = lr_replayed r"
  "lr_absorbed (absorbEntry now e via r) = lr_absorbed r"
  "lr_cursor (absorbEntry now e via r) = lr_cursor r"
  "lr_observed (absorbEntry now e via r) = lr_observed r"
  "lr_vaultSeen (absorbEntry now e via r) = lr_vaultSeen r"
  "lr_vaultAbsorbed (absorbEntry now e via r) = lr_vaultAbsorbed r"
  by (simp_all add: absorbEntry_def)

lemma known_absorb_fold [simp]:
  "known (fold (\<lambda>e. absorbEntry now e via) es r) = known r \<union> (\<Union>e\<in>set es. entry_ids e)"
  by (induction es arbitrary: r) auto

lemma absorb_fold_other [simp]:
  "lr_journalPath (fold (\<lambda>e. absorbEntry now e via) es r) = lr_journalPath r"
  "lr_replayed (fold (\<lambda>e. absorbEntry now e via) es r) = lr_replayed r"
  "lr_absorbed (fold (\<lambda>e. absorbEntry now e via) es r) = lr_absorbed r"
  "lr_cursor (fold (\<lambda>e. absorbEntry now e via) es r) = lr_cursor r"
  "lr_vaultSeen (fold (\<lambda>e. absorbEntry now e via) es r) = lr_vaultSeen r"
  "lr_vaultAbsorbed (fold (\<lambda>e. absorbEntry now e via) es r) = lr_vaultAbsorbed r"
  by (induction es arbitrary: r) simp_all

lemma named_ids_reserved: "named_ids v \<inter> set RESERVED_PRINCIPALS = {}"
  by (cases v) (simp_all add: named_ids_def)

lemma entry_ids_reserved: "entry_ids e \<inter> set RESERVED_PRINCIPALS = {}"
  by (simp only: entry_ids_def Int_Un_distrib2 named_ids_reserved Un_empty_left)

text \<open>A page of vault rows, absorbed in order.\<close>

fun absorb_rows :: "int \<Rightarrow> (string \<times> json) list \<Rightarrow> law_registry \<Rightarrow> law_registry" where
  "absorb_rows now [] r = r"
| "absorb_rows now ((i, e) # rows) r = absorb_rows now rows (fst (absorbVaultRow now i e r))"

text \<open>The first row of each id not seen before.\<close>

fun fresh_rows :: "string list \<Rightarrow> (string \<times> json) list \<Rightarrow> (string \<times> json) list" where
  "fresh_rows seen [] = []"
| "fresh_rows seen ((i, e) # rows) =
     (if i \<in> set seen then fresh_rows seen rows else (i, e) # fresh_rows (set_add i seen) rows)"

lemma absorb_rows_fresh:
  "lr_vaultAbsorbed (absorb_rows now rows r) = lr_vaultAbsorbed r + length (fresh_rows (lr_vaultSeen r) rows)"
  "set (lr_vaultSeen (absorb_rows now rows r)) = set (lr_vaultSeen r) \<union> fst ` set rows"
  "known (absorb_rows now rows r) = known r \<union> (\<Union>(i, e)\<in>set (fresh_rows (lr_vaultSeen r) rows). entry_ids e)"
proof (induction rows arbitrary: r rule: list.induct)
  case (Cons row rows)
  obtain i e where row: "row = (i, e)" by (cases row)
  {
    case 1
    show ?case using Cons(1) by (simp add: row absorbVaultRow_def)
  next
    case 2
    show ?case using Cons(2) by (auto simp: row absorbVaultRow_def)
  next
    case 3
    show ?case using Cons(3) by (simp add: row absorbVaultRow_def Un_assoc)
  }
qed simp_all

lemma fresh_again: "fst ` set rows \<subseteq> set seen \<Longrightarrow> fresh_rows seen rows = []"
  by (induction rows) auto

section \<open>Properties\<close>

text \<open>Absorbing vault rows is idempotent by id and exact: absorbing any rows counts each new id
  once, and makes known exactly the plugins that the first row of each new id names, never a
  reserved one; absorbing the same rows again, in any order, changes nothing.\<close>

theorem absorb_rows_idempotent:
  assumes "set rows' \<subseteq> set rows"
  shows "lr_vaultAbsorbed (absorb_rows now rows r) = lr_vaultAbsorbed r + length (fresh_rows (lr_vaultSeen r) rows) \<and>
    known (absorb_rows now rows r) = known r \<union> (\<Union>(i, e)\<in>set (fresh_rows (lr_vaultSeen r) rows). entry_ids e) \<and>
    (\<Union>(i, e)\<in>set (fresh_rows (lr_vaultSeen r) rows). entry_ids e) \<inter> set RESERVED_PRINCIPALS = {} \<and>
    absorb_rows now' rows' (absorb_rows now rows r) = absorb_rows now rows r"
proof -
  have same: "fst ` set xs \<subseteq> set (lr_vaultSeen q) \<Longrightarrow> absorb_rows now' xs q = q" for xs q
  proof (induction xs)
    case (Cons x xs)
    then show ?case by (cases x) (simp add: absorbVaultRow_def)
  qed simp
  have "fst ` set rows' \<subseteq> set (lr_vaultSeen (absorb_rows now rows r))"
    unfolding absorb_rows_fresh(2) using assms by auto
  then have "absorb_rows now' rows' (absorb_rows now rows r) = absorb_rows now rows r" by (rule same)
  moreover have "(\<Union>(i, e)\<in>set (fresh_rows (lr_vaultSeen r) rows). entry_ids e) \<inter> set RESERVED_PRINCIPALS = {}"
    using entry_ids_reserved by auto
  ultimately show ?thesis by (intro conjI absorb_rows_fresh(1,3))
qed

lemma absorb_rows_idempotent_witness:
  "lr_vaultAbsorbed (absorb_rows 1 [(''journal:1'', JObj [(''principal'', JStr ''vivim.vault'')]),
     (''journal:1'', JObj [])] new_registry) = 1"
  by (subst absorb_rows_idempotent [OF subset_refl, THEN conjunct1]) (simp add: new_registry_def)

text \<open>While the journal file only grows, no event is lost or counted twice: after a refresh the
  event total grows by exactly the lines added since, and a refresh of an unchanged file changes
  nothing at all.\<close>

theorem refresh_counts_once:
  assumes "lr_journalPath r \<noteq> []" and "lr_cursor r = length (readJournalLines parse file (lr_journalPath r))"
    and "readJournalLines parse file' (lr_journalPath r) = readJournalLines parse file (lr_journalPath r) @ added"
  shows "snd (registry_refresh parse file' now r) = lr_replayed r + lr_absorbed r + length added \<and>
    known (fst (registry_refresh parse file' now r)) = known r \<union> (\<Union>e\<in>set added. entry_ids e) \<and>
    lr_cursor (fst (registry_refresh parse file' now r)) = length (readJournalLines parse file' (lr_journalPath r)) \<and>
    registry_refresh parse file' now' (fst (registry_refresh parse file' now r)) = registry_refresh parse file' now r"
  using assms by (simp add: registry_refresh_def Let_def)

lemma refresh_counts_once_witness:
  "snd (registry_refresh (\<lambda>_. Some JNull) (\<lambda>_. Some ''x'') 5
     (fst (registry_init (\<lambda>_. Some JNull) (\<lambda>_. None) 1 (JStr ''j'') ''vivim.law'' new_registry))) = 1"
proof -
  let ?r = "fst (registry_init (\<lambda>_. Some JNull) (\<lambda>_. None) 1 (JStr ''j'') ''vivim.law'' new_registry)"
  have r: "lr_journalPath ?r = ''j''" "lr_cursor ?r = 0" "lr_replayed ?r = 0" "lr_absorbed ?r = 0"
    by (simp_all add: registry_init_def readJournalLines_def new_registry_def Let_def)
  have "readJournalLines (\<lambda>_. Some JNull) (\<lambda>_. Some ''x'') ''j'' = [JNull]"
    by (simp add: readJournalLines_def js_trim_def)
  then show ?thesis
    using refresh_counts_once [of ?r "\<lambda>_. Some JNull" "\<lambda>_. None" "\<lambda>_. Some ''x''" "[JNull]" 5] r
    by (simp add: readJournalLines_def)
qed

end
