(* ===== verification/Law_Gate.thy ===== *)
theory Law_Gate
  imports Law_Consent Law_Tokens Law_Principal Law_Amendment Law_Registry
begin

text \<open>
  The gate (\<open>plugins/vivim-law/src/index.ts\<close>): the law's state, the journal, the resolver, and one
  handler per op. A handler takes the environment (clock, plugin context, port), the payload and
  the caller, and returns its result or the exception, with the state and the world as they are
  then: an exception undoes nothing.

  The port is a parameter: \<open>en_port op payload world\<close> is the port result, or the text of a thrown
  error, and the world after the call. Dashes in message texts are spelled in ASCII.
\<close>

section \<open>State and environment\<close>

record law_state =
  ls_consents :: consent_table
  ls_forbidden :: forbidden_table
  ls_shadow :: amendment
  ls_registry :: law_registry
  ls_generation :: nat
  ls_journalBoot :: string
  ls_journalSeq :: nat
  ls_drainSeq :: nat
  ls_persistence :: bool
  ls_loaded :: bool
  ls_loadedCount :: nat
  ls_lastError :: "string option"

record plugin_ctx =
  cx_manifestId :: string
  cx_capabilities :: "string list"

type_synonym 'w port = "string \<Rightarrow> json \<Rightarrow> 'w \<Rightarrow> (string + port_result) \<times> 'w"

record 'w law_env =
  en_now :: int
  en_ctx :: "plugin_ctx option"
  en_port :: "'w port"
  en_parse :: "string \<Rightarrow> json option"
  en_file :: "string \<Rightarrow> string option"

record call_meta =
  cm_from :: string
  cm_causationId :: string

datatype law_error =
    PayloadRequires string
  | CrossPrincipal string string
  | EConsent consent_error
  | EForbidden forbidden_error
  | EPrincipal principal_error
  | EToken token_error
  | EPolicy policy_error
  | NoContext string
  | MissingCaps string
  | VaultAppend string port_error_code
  | ThrownInCall string
  | SetAborted
  | GrantAborted
  | PrincipalReused string
  | PrincipalUnknown string
  | PrincipalRetired string
  | EmptyShadowSpec
  | PolicyTypeError
  | VaultUnqueryable string
  | ChainExport port_error_code

type_synonym ('w, 'a) handler = "'w law_env \<Rightarrow> json \<Rightarrow> call_meta \<Rightarrow> law_state \<times> 'w \<Rightarrow>
  (law_error + 'a) \<times> law_state \<times> 'w"

definition JOURNAL_NS :: string where "JOURNAL_NS = ''law''"
definition JOURNAL_ID_PREFIX :: string where "JOURNAL_ID_PREFIX = ''journal:''"
definition AUDIT_NS :: string where "AUDIT_NS = ''audit''"
definition AUDIT_ID_PREFIX :: string where "AUDIT_ID_PREFIX = ''audit-chain:''"

definition vault_append_op :: string where "vault_append_op = ''vault.append@1''"
definition vault_get_op :: string where "vault_get_op = ''vault.get@1''"
definition vault_query_op :: string where "vault_query_op = ''vault.query@1''"

definition initial_law :: "string \<Rightarrow> law_state" where
  "initial_law boot =
     \<lparr>ls_consents = empty_consents, ls_forbidden = [], ls_shadow = new_amendment LAW_POLICY_V1,
      ls_registry = new_registry, ls_generation = 1, ls_journalBoot = boot, ls_journalSeq = 0,
      ls_drainSeq = 0, ls_persistence = False, ls_loaded = False, ls_loadedCount = 0,
      ls_lastError = None\<rparr>"

definition has_cap :: "'w law_env \<Rightarrow> string \<Rightarrow> bool" where
  "has_cap env c \<longleftrightarrow> (case en_ctx env of None \<Rightarrow> False | Some cx \<Rightarrow> c \<in> set (cx_capabilities cx))"

definition hasVaultCaps :: "'w law_env \<Rightarrow> bool" where
  "hasVaultCaps env \<longleftrightarrow> has_cap env ''port:vault.append@1'' \<and> has_cap env ''port:vault.query@1''"

definition bump :: "law_state \<Rightarrow> law_state" where
  "bump s = s\<lparr>ls_generation := ls_generation s + 1\<rparr>"

definition count_event :: "law_state \<Rightarrow> law_state" where
  "count_event s = s\<lparr>ls_registry := registry_countEvent (ls_registry s)\<rparr>"

definition observe_id :: "'w law_env \<Rightarrow> string \<Rightarrow> lifecycle_state \<Rightarrow> string \<Rightarrow> law_state \<Rightarrow> law_state" where
  "observe_id env i st via s = s\<lparr>ls_registry := registry_observe (en_now env) (JStr i) st via (ls_registry s)\<rparr>"

section \<open>The journal\<close>

definition seq36 :: "string \<Rightarrow> nat \<Rightarrow> string" where
  "seq36 boot n = boot @ ''-'' @ pad_zero 9 (show_base 36 n)"

definition append_payload :: "string \<Rightarrow> string \<Rightarrow> json \<Rightarrow> json" where
  "append_payload ns i d = JObj [(''ns'', JStr ns), (''id'', JStr i), (''data'', d)]"

definition get_payload :: "string \<Rightarrow> string \<Rightarrow> json" where
  "get_payload ns i = JObj [(''ns'', JStr ns), (''id'', JStr i)]"

text \<open>Whether the entry is the gate row of the law's own append, which the journal never writes.\<close>

definition own_append_row :: "plugin_ctx \<Rightarrow> (string \<times> json) list \<Rightarrow> bool" where
  "own_append_row cx entry \<longleftrightarrow> jfield entry ''op'' = JStr ''law.check'' \<and>
     jfield entry ''targetOp'' = JStr vault_append_op \<and>
     jfield entry ''principal'' = JStr (cx_manifestId cx)"

definition journal :: "'w law_env \<Rightarrow> (string \<times> json) list \<Rightarrow> law_state \<times> 'w \<Rightarrow> law_state \<times> 'w" where
  "journal env entry sw =
     (case en_ctx env of
        None \<Rightarrow> sw
      | Some cx \<Rightarrow>
          if ''port:vault.append@1'' \<in> set (cx_capabilities cx) then
            if own_append_row cx entry then sw
            else
              (let s = fst sw; n = ls_journalSeq s + 1;
                   i = JOURNAL_ID_PREFIX @ seq36 (ls_journalBoot s) n
               in (s\<lparr>ls_journalSeq := n\<rparr>,
                   snd (en_port env vault_append_op
                     (append_payload JOURNAL_NS i (JObj ((''ts'', JNum (en_now env)) # entry))) (snd sw))))
          else (fst sw, snd (en_port env op_journal (JObj entry) (snd sw))))"

definition opt_field :: "string \<Rightarrow> string option \<Rightarrow> (string \<times> json) list" where
  "opt_field k v = (case v of None \<Rightarrow> [] | Some x \<Rightarrow> [(k, JStr x)])"

section \<open>The gate\<close>

record resolved =
  rv_decision :: law_action
  rv_reason :: string
  rv_journal :: bool
  rv_consentId :: "string option"

text \<open>\<open>None\<close> is the \<open>TypeError\<close> of a document without the risk default.\<close>

definition resolve_doc :: "law_state \<Rightarrow> policy_doc \<Rightarrow> string \<Rightarrow> string \<Rightarrow> resolved option" where
  "resolve_doc s doc who op =
     (case pe_action (evalPolicy doc who op) of
        None \<Rightarrow> None
      | Some a \<Rightarrow>
          if rd_decision a = RequireConsent then
            (case hasMatchingGrant (ls_consents s) who op of
               Some g \<Rightarrow> Some \<lparr>rv_decision = Allow,
                 rv_reason = rd_reason a @ '' -- consent '' @ cr_consentId g @ '' active (gen '' @ show_nat (cr_generation g) @ '')'',
                 rv_journal = rd_journal a, rv_consentId = None\<rparr>
             | None \<Rightarrow> Some \<lparr>rv_decision = RequireConsent, rv_reason = rd_reason a, rv_journal = rd_journal a,
                 rv_consentId = Some (requireConsent who op)\<rparr>)
          else Some \<lparr>rv_decision = rd_decision a, rv_reason = rd_reason a, rv_journal = rd_journal a, rv_consentId = None\<rparr>)"

definition action_text :: "law_action \<Rightarrow> string" where
  "action_text a = (case a of Allow \<Rightarrow> ''allow'' | Deny \<Rightarrow> ''deny'' | RequireConsent \<Rightarrow> ''require-consent'')"

definition forbidden_verdict :: "string \<Rightarrow> resolved" where
  "forbidden_verdict who = \<lparr>rv_decision = Deny,
     rv_reason = ''forbidden action for principal '' @ json_quote who @ '' (behavior-contract policy overlay)'',
     rv_journal = True, rv_consentId = None\<rparr>"

text \<open>The shadow half of a check: the ledger after it, and what it adds to the journal row.\<close>

definition shadow_half ::
    "int \<Rightarrow> law_state \<Rightarrow> string \<Rightarrow> string \<Rightarrow> resolved \<Rightarrow> string \<Rightarrow> (law_state \<times> (string \<times> json) list) option" where
  "shadow_half now s who op primary causationId =
     (case shadow_doc (ls_shadow s) of
        None \<Rightarrow> Some (s, [])
      | Some d \<Rightarrow>
          (case resolve_doc s d who op of
             None \<Rightarrow> None
           | Some sh \<Rightarrow>
               (let (am, dv) = shadow_observe now (ls_shadow s) who op
                      (rv_decision primary, rv_reason primary) (rv_decision sh, rv_reason sh) (Some causationId)
                in Some (s\<lparr>ls_shadow := am\<rparr>,
                     [(''shadow'', JObj
                        [(''decision'', JStr (action_text (case dv of Some v \<Rightarrow> fst (dv_shadow v) | None \<Rightarrow> rv_decision primary))),
                         (''diverged'', JBool (dv \<noteq> None))])]))))"

definition law_check :: "('w, law_decision) handler" where
  "law_check env payload meta sw =
     (let p = asObj payload; s = fst sw;
          who = str_of (jfield p ''principal''); op = str_of (jfield p ''op'');
          causationId = (case optStr (jfield p ''causationId'') of Some c \<Rightarrow> c | None \<Rightarrow> cm_causationId meta);
          intentRef = optStr (jfield p ''intentRef''); payloadHash = optStr (jfield p ''payloadHash'')
      in case resolve_doc s LAW_POLICY_V1 who op of
           None \<Rightarrow> (Inl PolicyTypeError, sw)
         | Some r \<Rightarrow>
             (let primary = (if isForbidden (ls_forbidden s) who op then forbidden_verdict who else r);
                  decision = \<lparr>ld_decision = rv_decision primary, ld_reason = Some (rv_reason primary),
                              ld_who = Some who, ld_consentId = rv_consentId primary\<rparr>
              in case shadow_half (en_now env) s who op primary causationId of
                   None \<Rightarrow> (Inl PolicyTypeError, sw)
                 | Some (s1, extra) \<Rightarrow>
                     (let s2 = observe_id env who Active ''law.check'' (count_event s1);
                          sw' = (if rv_journal primary
                                 then journal env
                                   ([(''source'', JStr ''vivim.law''), (''op'', JStr ''law.check''),
                                     (''principal'', JStr who), (''targetOp'', JStr op),
                                     (''decision'', JStr (action_text (rv_decision primary))),
                                     (''reason'', JStr (rv_reason primary))] @
                                    opt_field ''consentId'' (rv_consentId primary) @
                                    [(''causationId'', JStr causationId)] @
                                    opt_field ''intentRef'' intentRef @ opt_field ''payloadHash'' payloadHash @ extra)
                                   (s2, snd sw)
                                 else (s2, snd sw))
                      in (Inr decision, sw'))))"

section \<open>Principal rows\<close>

text \<open>\<open>readPrincipalRecord\<close> swallows every failure: a bad id, a thrown call and a refused call all
  read as absent.\<close>

definition readPrincipalRecord :: "'w law_env \<Rightarrow> string \<Rightarrow> 'w \<Rightarrow> principal_record option \<times> 'w" where
  "readPrincipalRecord env who w =
     (case principalVaultId who of
        Inl _ \<Rightarrow> (None, w)
      | Inr i \<Rightarrow>
          (case en_port env vault_get_op (get_payload PRINCIPAL_NS i) w of
             (Inr (POk v _ _), w') \<Rightarrow> (principal_fromRecord (jfield (asObj v) ''data''), w')
           | (_, w') \<Rightarrow> (None, w')))"

text \<open>An append through the port: the exception the handlers build from its result.\<close>

definition vault_append :: "'w law_env \<Rightarrow> string \<Rightarrow> string \<Rightarrow> json \<Rightarrow> 'w \<Rightarrow> (law_error + unit) \<times> 'w" where
  "vault_append env ns i d w =
     (case en_port env vault_append_op (append_payload ns i d) w of
        (Inr (POk _ _ _), w') \<Rightarrow> (Inr (), w')
      | (Inr (PErr c _ _), w') \<Rightarrow> (Inl (VaultAppend ns c), w')
      | (Inl t, w') \<Rightarrow> (Inl (ThrownInCall t), w'))"

definition ensurePrincipalRecord :: "'w law_env \<Rightarrow> string \<Rightarrow> 'w \<Rightarrow> (law_error + principal_record) \<times> 'w" where
  "ensurePrincipalRecord env who w =
     (case readPrincipalRecord env who w of
        (Some rec, w') \<Rightarrow> (Inr rec, w')
      | (None, w') \<Rightarrow>
          (case newRecord (en_now env) who of
             Inl e \<Rightarrow> (Inl (EPrincipal e), w')
           | Inr rec \<Rightarrow>
               (case vault_append env PRINCIPAL_NS who (principal_json rec) w' of
                  (Inl e, w'') \<Rightarrow> (Inl e, w'')
                | (Inr _, w'') \<Rightarrow> (Inr rec, w''))))"

record register_reply =
  rp_record :: principal_record
  rp_already :: bool

definition principal_register :: "('w, register_reply) handler" where
  "principal_register env payload meta sw =
     (let who = str_of (jfield (asObj payload) ''principal'') in
      if who = [] then (Inl (PayloadRequires ''principal''), sw)
      else
        (let s1 = count_event (fst sw) in
         if \<not> has_cap env ''port:vault.append@1'' \<or> \<not> has_cap env ''port:vault.get@1''
         then (Inl (MissingCaps ''port:vault.append@1 + port:vault.get@1''), s1, snd sw)
         else
           (case readPrincipalRecord env who (snd sw) of
              (Some rec, w1) \<Rightarrow>
                if pr_state rec = PRetired then (Inl (PrincipalReused who), s1, w1)
                else (Inr \<lparr>rp_record = rec, rp_already = True\<rparr>, s1, w1)
            | (None, w1) \<Rightarrow>
                (case newRecord (en_now env) who of
                   Inl e \<Rightarrow> (Inl (EPrincipal e), s1, w1)
                 | Inr rec \<Rightarrow>
                     (case vault_append env PRINCIPAL_NS who (principal_json rec) w1 of
                        (Inl e, w2) \<Rightarrow> (Inl e, s1, w2)
                      | (Inr _, w2) \<Rightarrow>
                          (Inr \<lparr>rp_record = rec, rp_already = False\<rparr>,
                           journal env
                             [(''source'', JStr ''vivim.law''), (''op'', JStr ''law.principal.register''),
                              (''principal'', JStr who), (''kind'', JStr (pr_kind rec)),
                              (''caller'', JStr (cm_from meta)), (''causationId'', JStr (cm_causationId meta))]
                             (observe_id env who Active ''principal.register'' s1, w2)))))))"

definition principal_retire :: "('w, principal_record) handler" where
  "principal_retire env payload meta sw =
     (let who = str_of (jfield (asObj payload) ''principal'') in
      if who = [] then (Inl (PayloadRequires ''principal''), sw)
      else
        (let s1 = count_event (fst sw) in
         if \<not> has_cap env ''port:vault.append@1'' \<or> \<not> has_cap env ''port:vault.get@1''
         then (Inl (MissingCaps ''port:vault.append@1 + port:vault.get@1''), s1, snd sw)
         else
           (case readPrincipalRecord env who (snd sw) of
              (None, w1) \<Rightarrow> (Inl (PrincipalUnknown who), s1, w1)
            | (Some rec, w1) \<Rightarrow>
                if pr_state rec = PRetired then (Inl (PrincipalRetired who), s1, w1)
                else
                  (case retireRecord (en_now env) rec of
                     Inl e \<Rightarrow> (Inl (EPrincipal e), s1, w1)
                   | Inr rec' \<Rightarrow>
                       (case vault_append env PRINCIPAL_NS who (principal_json rec') w1 of
                          (Inl e, w2) \<Rightarrow> (Inl e, s1, w2)
                        | (Inr _, w2) \<Rightarrow>
                            (Inr rec',
                             journal env
                               [(''source'', JStr ''vivim.law''), (''op'', JStr ''law.principal.retire''),
                                (''principal'', JStr who), (''caller'', JStr (cm_from meta)),
                                (''causationId'', JStr (cm_causationId meta))]
                               (observe_id env who Retired ''principal.retire'' s1, w2)))))))"

definition principal_get :: "('w, principal_record option) handler" where
  "principal_get env payload meta sw =
     (let who = str_of (jfield (asObj payload) ''principal'') in
      if who = [] then (Inl (PayloadRequires ''principal''), sw)
      else
        (let s1 = count_event (fst sw) in
         if \<not> has_cap env ''port:vault.get@1''
         then (Inl (MissingCaps ''port:vault.get@1''), s1, snd sw)
         else (case readPrincipalRecord env who (snd sw) of (r, w1) \<Rightarrow> (Inr r, s1, w1))))"

section \<open>Consents\<close>

record grant_reply =
  gy_revoke :: bool
  gy_revoked :: bool
  gy_grant :: "consent_record option"
  gy_generation :: nat
  gy_active :: nat
  gy_cap :: "cap option"
  gy_principal :: "principal_record option"

definition rootConsentCap :: cap where
  "rootConsentCap = \<lparr>cap_scope = ''law.consent'', cap_generation = 1, cap_parent = None\<rparr>"

definition consent_scope :: "string \<Rightarrow> string" where
  "consent_scope consentId = ''law.consent:id='' @ consentId"

text \<open>The revoking half.\<close>

definition consent_revoke_half :: "'w law_env \<Rightarrow> string \<Rightarrow> call_meta \<Rightarrow> law_state \<times> 'w \<Rightarrow>
    (law_error + grant_reply) \<times> law_state \<times> 'w" where
  "consent_revoke_half env consentId meta sw =
     (let (t, revoked) = consent_revoke_op (en_now env) (ls_consents (fst sw)) consentId;
          s1 = count_event (bump ((fst sw)\<lparr>ls_consents := t\<rparr>));
          sw' = journal env
            [(''source'', JStr ''vivim.law''), (''op'', JStr ''law.consent.grant''), (''action'', JStr ''revoke''),
             (''consentId'', JStr consentId), (''revoked'', JBool revoked), (''principal'', JStr (cm_from meta)),
             (''causationId'', JStr (cm_causationId meta))] (s1, snd sw)
      in (Inr \<lparr>gy_revoke = True, gy_revoked = revoked, gy_grant = None, gy_generation = ls_generation s1,
              gy_active = activeCount t, gy_cap = None, gy_principal = None\<rparr>, sw'))"

text \<open>After the table has the grant: make sure of the principal row when one is named and the vault
  is granted; a failure revokes the id and aborts.\<close>

definition consent_row_half :: "'w law_env \<Rightarrow> string \<Rightarrow> string option \<Rightarrow> law_state \<times> 'w \<Rightarrow>
    (law_error + principal_record option) \<times> law_state \<times> 'w" where
  "consent_row_half env consentId who sw =
     (case who of
        None \<Rightarrow> (Inr None, sw)
      | Some p \<Rightarrow>
          if \<not> ls_persistence (fst sw) then (Inr None, sw)
          else if en_ctx env = None then (Inl (NoContext ''law.consent.grant''), sw)
          else
            (case ensurePrincipalRecord env p (snd sw) of
               (Inr rec, w1) \<Rightarrow> (Inr (Some rec), fst sw, w1)
             | (Inl e, w1) \<Rightarrow>
                 (Inl GrantAborted,
                  (fst sw)\<lparr>ls_consents := fst (consent_revoke_op (en_now env) (ls_consents (fst sw)) consentId)\<rparr>, w1)))"

definition law_consent_grant :: "('w, grant_reply) handler" where
  "law_consent_grant env payload meta sw =
     (let p = asObj payload;
          consentId = str_of (jfield p ''consentId'');
          revoking = (jfield p ''action'' = JStr ''revoke'' \<or> jfield p ''action'' = JStr ''deny-revoke'');
          who = optStr (jfield p ''principal'');
          scope = optStr (jfield p ''scope'')
      in if who \<noteq> None \<and> cm_from meta \<noteq> ''root'' \<and> who \<noteq> Some (cm_from meta)
         then (Inl (CrossPrincipal (cm_from meta) (the who)), sw)
         else if revoking then consent_revoke_half env consentId meta sw
         else
           (case consent_grant_op (en_now env) (ls_consents (fst sw)) consentId who scope of
              Inl e \<Rightarrow> (Inl (EConsent e), sw)
            | Inr (t, rec) \<Rightarrow>
                (case consent_row_half env consentId who ((fst sw)\<lparr>ls_consents := t\<rparr>, snd sw) of
                   (Inl e, sw1) \<Rightarrow> (Inl e, sw1)
                 | (Inr row, s1, w1) \<Rightarrow>
                     (let s2 = bump s1 in
                      case attenuate rootConsentCap (consent_scope consentId) of
                        Inl e \<Rightarrow> (Inl (EToken e), s2, w1)
                      | Inr h \<Rightarrow>
                          (let s3 = count_event s2;
                               sw' = journal env
                                 ([(''source'', JStr ''vivim.law''), (''op'', JStr ''law.consent.grant''),
                                   (''action'', JStr ''grant''), (''consentId'', JStr consentId)] @
                                  opt_field ''principal'' who @ opt_field ''scope'' scope @
                                  [(''grantGeneration'', JNum (int (cr_generation rec))),
                                   (''caller'', JStr (cm_from meta)), (''causationId'', JStr (cm_causationId meta))])
                                 (s3, w1)
                           in (Inr \<lparr>gy_revoke = False, gy_revoked = False, gy_grant = Some rec,
                                    gy_generation = ls_generation s3, gy_active = activeCount t,
                                    gy_cap = Some h, gy_principal = row\<rparr>, sw'))))))"

end
