(* ===== verification/Law_Ops.thy ===== *)
theory Law_Ops
  imports Law_Gate
begin

text \<open>
  The other handlers of the law (\<open>plugins/vivim-law/src/index.ts\<close>): the forbidden overlay with its
  durability, token revocation, the shadow amendment, the audit drain, the registry and describe
  reads, and the boot-time reload.
\<close>

section \<open>The forbidden overlay\<close>

record forbidden_reply =
  fy_entry :: forbidden_entry
  fy_count :: nat
  fy_generation :: nat
  fy_persisted :: bool

text \<open>\<open>list().find(e => e.principal === raw)?.ops\<close>, and the roll-back to what was there.\<close>

definition prior_ops :: "forbidden_table \<Rightarrow> json \<Rightarrow> string list option" where
  "prior_ops t who = map_option fe_ops (find (\<lambda>e. JStr (fe_principal e) = who) (forbidden_list t))"

definition roll_back :: "forbidden_table \<Rightarrow> string \<Rightarrow> string list option \<Rightarrow> forbidden_table" where
  "roll_back t who prior =
     (case prior of
        None \<Rightarrow> (case forbidden_clear t (JStr who) of Inl _ \<Rightarrow> t | Inr (t', _) \<Rightarrow> t')
      | Some l \<Rightarrow> (case forbidden_set t (JStr who) (JArr (map JStr l)) of Inl _ \<Rightarrow> t | Inr (t', _) \<Rightarrow> t'))"

definition forbidden_persist :: "'w law_env \<Rightarrow> forbidden_entry \<Rightarrow> 'w \<Rightarrow> (law_error + unit) \<times> 'w" where
  "forbidden_persist env e w =
     (case (forbiddenVaultId (fe_principal e), forbidden_toRecord (en_now env) e) of
        (Inr i, Inr d) \<Rightarrow> vault_append env FORBIDDEN_NS i d w
      | (Inl x, _) \<Rightarrow> (Inl (EForbidden x), w)
      | (_, Inl x) \<Rightarrow> (Inl (EForbidden x), w))"

definition law_forbidden_set :: "('w, forbidden_reply) handler" where
  "law_forbidden_set env payload meta sw =
     (let p = asObj payload; s = fst sw;
          raw = jfield p ''principal''; prior = prior_ops (ls_forbidden s) raw
      in case forbidden_set (ls_forbidden s) raw (jfield p ''ops'') of
           Inl e \<Rightarrow> (Inl (EForbidden e), sw)
         | Inr (t, entry) \<Rightarrow>
             (let s1 = count_event (bump (s\<lparr>ls_forbidden := t\<rparr>));
                  undone = s1\<lparr>ls_forbidden := roll_back t (fe_principal entry) prior\<rparr>;
                  done = (\<lambda>w. (Inr \<lparr>fy_entry = entry, fy_count = length (fe_ops entry),
                                   fy_generation = ls_generation s1, fy_persisted = ls_persistence s1\<rparr>,
                     journal env
                       [(''source'', JStr ''vivim.law''), (''op'', JStr ''law.forbidden.set''), (''action'', JStr ''set''),
                        (''principal'', JStr (fe_principal entry)), (''ops'', JArr (map JStr (fe_ops entry))),
                        (''caller'', JStr (cm_from meta)), (''causationId'', JStr (cm_causationId meta))] (s1, w)))
              in if \<not> ls_persistence s1 then done (snd sw)
                 else if en_ctx env = None then (Inl (NoContext ''law.forbidden.set''), undone, snd sw)
                 else (case forbidden_persist env entry (snd sw) of
                         (Inr _, w1) \<Rightarrow> done w1
                       | (Inl _, w1) \<Rightarrow> (Inl SetAborted, undone, w1))))"

text \<open>The loop of \<open>reloadForbidden\<close> over the rows of the query: the table, and how many entries had ops.
  A thrown call ends the reload with what was set so far.\<close>

fun reload_rows :: "'w law_env \<Rightarrow> json list \<Rightarrow> forbidden_table \<Rightarrow> nat \<Rightarrow> 'w \<Rightarrow>
    (string + nat) \<times> forbidden_table \<times> 'w" where
  "reload_rows env [] t n w = (Inr n, t, w)"
| "reload_rows env (row # rows) t n w =
     (case jfield (asObj row) ''id'' of
        JStr i \<Rightarrow>
          if \<not> starts_with i FORBIDDEN_ID_PREFIX then reload_rows env rows t n w
          else
            (case en_port env vault_get_op (get_payload FORBIDDEN_NS i) w of
               (Inl msg, w') \<Rightarrow> (Inl msg, t, w')
             | (Inr (PErr _ _ _), w') \<Rightarrow> reload_rows env rows t n w'
             | (Inr (POk v _ _), w') \<Rightarrow>
                 (case forbidden_fromRecord (jfield (asObj v) ''data'') of
                    None \<Rightarrow> reload_rows env rows t n w'
                  | Some e \<Rightarrow>
                      (case forbidden_set t (JStr (fe_principal e)) (JArr (map JStr (fe_ops e))) of
                         Inl _ \<Rightarrow> (Inl ''forbidden'', t, w')
                       | Inr (t', _) \<Rightarrow>
                           reload_rows env rows t' (if length (fe_ops e) > 0 then n + 1 else n) w')))
      | _ \<Rightarrow> reload_rows env rows t n w)"

definition reloadForbidden :: "'w law_env \<Rightarrow> law_state \<times> 'w \<Rightarrow> (string + nat) \<times> law_state \<times> 'w" where
  "reloadForbidden env sw =
     (case en_port env vault_query_op
             (JObj [(''ns'', JStr FORBIDDEN_NS), (''filter'', JObj [(''idPrefix'', JStr FORBIDDEN_ID_PREFIX)])]) (snd sw) of
        (Inl msg, w) \<Rightarrow> (Inl msg, fst sw, w)
      | (Inr (PErr c d _), w) \<Rightarrow>
          (Inl (''vivim.law: forbidden persistence requires vivim.vault queryable (vault.query@1 '' @ err_code_text c @
                '': '' @ (case d of Some x \<Rightarrow> x | None \<Rightarrow> ''no detail'') @ '')''), fst sw, w)
      | (Inr (POk v _ _), w) \<Rightarrow>
          (case reload_rows env (case v of JArr rows \<Rightarrow> rows | _ \<Rightarrow> []) (ls_forbidden (fst sw)) 0 w of
             (Inl msg, t, w') \<Rightarrow> (Inl msg, (fst sw)\<lparr>ls_forbidden := t\<rparr>, w')
           | (Inr n, t, w') \<Rightarrow>
               (Inr n, (fst sw)\<lparr>ls_forbidden := t, ls_loaded := True, ls_loadedCount := n, ls_lastError := None\<rparr>, w')))"

definition str_includes :: "string \<Rightarrow> string \<Rightarrow> bool" where
  "str_includes s t \<longleftrightarrow> list_ex (\<lambda>i. starts_with (drop i s) t) [0..<Suc (length s)]"

text \<open>\<open>reloadForbiddenAtBoot\<close>: at most \<open>MAX_ATTEMPTS\<close> tries, the rest of the world given the chance to
  move between them (\<open>tick\<close>); the log is not modelled.\<close>

fun reload_boot :: "nat \<Rightarrow> ('w \<Rightarrow> 'w) \<Rightarrow> 'w law_env \<Rightarrow> law_state \<times> 'w \<Rightarrow> law_state \<times> 'w" where
  "reload_boot 0 tick env sw = sw"
| "reload_boot (Suc n) tick env sw =
     (case reloadForbidden env sw of
        (Inr _, sw') \<Rightarrow> sw'
      | (Inl msg, s', w') \<Rightarrow>
          (let s'' = s'\<lparr>ls_lastError := Some msg\<rparr>
           in if str_includes msg ''no routed implementation'' then (s'', w')
              else if n = 0 then (s'', w')
              else reload_boot n tick env (s'', tick w')))"

definition law_onInit :: "('w \<Rightarrow> 'w) \<Rightarrow> 'w law_env \<Rightarrow> string \<Rightarrow> json \<Rightarrow> law_state \<times> 'w \<Rightarrow> law_state \<times> 'w" where
  "law_onInit tick env selfId journalPath sw =
     (let s = fst sw;
          s1 = s\<lparr>ls_registry := fst (registry_init (en_parse env) (en_file env) (en_now env) journalPath selfId (ls_registry s)),
                 ls_persistence := hasVaultCaps env\<rparr>
      in if \<not> ls_persistence s1 then (s1\<lparr>ls_loaded := True\<rparr>, snd sw)
         else reload_boot 40 tick env (s1\<lparr>ls_loaded := False\<rparr>, snd sw))"

record reload_reply =
  ry_persistence :: bool
  ry_count :: nat

definition live_entries :: "forbidden_table \<Rightarrow> nat" where
  "live_entries t = length (filter (\<lambda>e. length (fe_ops e) > 0) (forbidden_list t))"

definition law_forbidden_reload :: "('w, reload_reply) handler" where
  "law_forbidden_reload env payload meta sw =
     (let s1 = count_event (fst sw) in
      if \<not> ls_persistence s1 then (Inr \<lparr>ry_persistence = False, ry_count = live_entries (ls_forbidden s1)\<rparr>, s1, snd sw)
      else if en_ctx env = None then (Inl (NoContext ''law.forbidden.reload''), s1, snd sw)
      else (case reloadForbidden env (s1, snd sw) of
              (Inl msg, sw') \<Rightarrow> (Inl (VaultUnqueryable msg), sw')
            | (Inr n, sw') \<Rightarrow> (Inr \<lparr>ry_persistence = True, ry_count = n\<rparr>, sw')))"

section \<open>Tokens, amendment, drain\<close>

record revoke_reply =
  vy_revoked :: bool
  vy_pluginId :: string
  vy_value :: json

definition law_tokens_revoke :: "('w, revoke_reply) handler" where
  "law_tokens_revoke env payload meta sw =
     (let pluginId = str_of (jfield (asObj payload) ''pluginId'') in
      if pluginId = [] then (Inl (PayloadRequires ''pluginId''), sw)
      else
        (let s1 = observe_id env pluginId Active ''tokens.revoke'' (fst sw);
             (s2, w2) = journal env
               [(''source'', JStr ''vivim.law''), (''op'', JStr ''law.tokens.revoke''), (''principal'', JStr (cm_from meta)),
                (''pluginId'', JStr pluginId), (''causationId'', JStr (cm_causationId meta))] (s1, snd sw)
         in if en_ctx env = None then (Inl (NoContext ''law.tokens.revoke''), s2, w2)
            else
              (case en_port env op_revoke (JObj [(''pluginId'', JStr pluginId)]) w2 of
                 (Inl msg, w3) \<Rightarrow> (Inl (ThrownInCall msg), s2, w3)
               | (Inr (PErr _ _ _), w3) \<Rightarrow>
                   (Inr \<lparr>vy_revoked = False, vy_pluginId = pluginId, vy_value = JNull\<rparr>, count_event (bump s2), w3)
               | (Inr (POk v _ _), w3) \<Rightarrow>
                   (Inr \<lparr>vy_revoked = True, vy_pluginId = pluginId, vy_value = v\<rparr>, count_event (bump s2), w3))))"

text \<open>The payload's \<open>policy\<close> object read as a shadow spec is a parameter of the model (\<open>spec_of\<close>): the
  source casts it. What the handler itself checks is that it has a key.\<close>

datatype amendment_action = Registering | Clearing | Reporting

definition amendment_action_of :: "(string \<times> json) list \<Rightarrow> amendment_action" where
  "amendment_action_of p =
     (let a = str_of (case jfield p ''action'' of JUndefined \<Rightarrow> JStr ''report'' | JNull \<Rightarrow> JStr ''report'' | v \<Rightarrow> v)
      in if a = ''register-shadow'' then Registering else if a = ''clear-shadow'' then Clearing else Reporting)"

definition law_amendment :: "((string \<times> json) list \<Rightarrow> shadow_spec) \<Rightarrow> ('w, amendment_report) handler" where
  "law_amendment spec_of env payload meta sw =
     (let p = asObj payload; s = fst sw in
      case amendment_action_of p of
        Registering \<Rightarrow>
          (let spec = asObj (jfield p ''policy'') in
           if length spec = 0 then (Inl EmptyShadowSpec, sw)
           else (case registerShadow (en_now env) (ls_shadow s) (spec_of spec) of
                   Inl e \<Rightarrow> (Inl (EPolicy e), sw)
                 | Inr (a, status) \<Rightarrow>
                     (let sw' = journal env
                        ([(''source'', JStr ''vivim.law''), (''op'', JStr ''law.amendment''), (''action'', JStr ''register-shadow'')] @
                         (case status of Registered i _ _ _ \<Rightarrow> [(''shadowPolicyId'', JStr i)] | Unregistered \<Rightarrow> []) @
                         [(''principal'', JStr (cm_from meta)), (''causationId'', JStr (cm_causationId meta))])
                        (count_event (bump (s\<lparr>ls_shadow := a\<rparr>)), snd sw)
                      in (Inr (amendment_report_of (ls_shadow (fst sw'))), sw'))))
      | Clearing \<Rightarrow>
          (let sw' = journal env
             [(''source'', JStr ''vivim.law''), (''op'', JStr ''law.amendment''), (''action'', JStr ''clear-shadow''),
              (''principal'', JStr (cm_from meta)), (''causationId'', JStr (cm_causationId meta))]
             (count_event (bump (s\<lparr>ls_shadow := fst (clearShadow (ls_shadow s))\<rparr>)), snd sw)
           in (Inr (amendment_report_of (ls_shadow (fst sw'))), sw'))
      | Reporting \<Rightarrow> (Inr (amendment_report_of (ls_shadow s)), count_event s, snd sw))"

record drain_reply =
  dy_value :: json
  dy_id :: string

definition law_audit_drain :: "('w, drain_reply) handler" where
  "law_audit_drain env payload meta sw =
     (let s1 = count_event (fst sw) in
      if \<not> has_cap env ''host.kernel.lens'' \<or> \<not> has_cap env ''port:vault.append@1''
      then (Inl (MissingCaps ''host.kernel.lens + port:vault.append@1''), s1, snd sw)
      else
        (case en_port env op_audit (JObj []) (snd sw) of
           (Inl msg, w1) \<Rightarrow> (Inl (ThrownInCall msg), s1, w1)
         | (Inr (PErr c _ _), w1) \<Rightarrow> (Inl (ChainExport c), s1, w1)
         | (Inr (POk v _ _), w1) \<Rightarrow>
             (let n = ls_drainSeq s1 + 1; s2 = s1\<lparr>ls_drainSeq := n\<rparr>;
                  i = AUDIT_ID_PREFIX @ seq36 (ls_journalBoot s1) n
              in case vault_append env AUDIT_NS i v w1 of
                   (Inl e, w2) \<Rightarrow> (Inl e, s2, w2)
                 | (Inr _, w2) \<Rightarrow> (Inr \<lparr>dy_value = v, dy_id = i\<rparr>, s2, w2))))"

section \<open>Reads\<close>

definition REGISTRY_PAGE :: nat where "REGISTRY_PAGE = 200"

definition vault_getmany_op :: string where "vault_getmany_op = ''vault.getmany@1''"

fun pages :: "nat \<Rightarrow> 'a list \<Rightarrow> 'a list list" where
  "pages k xs = (if xs = [] \<or> k = 0 then [] else take k xs # pages k (drop k xs))"

declare pages.simps [simp del]

definition page_rows :: "json \<Rightarrow> (string \<times> json) list" where
  "page_rows v =
     (case v of
        JArr rows \<Rightarrow>
          concat (map (\<lambda>row. case (jfield (asObj row) ''id'', jfield (asObj row) ''found'', jfield (asObj row) ''data'') of
             (JStr i, JBool True, JObj d) \<Rightarrow> [(i, JObj d)]
           | (JStr i, JBool True, JArr d) \<Rightarrow> [(i, JArr d)]
           | _ \<Rightarrow> []) rows)
      | _ \<Rightarrow> [])"

fun absorb_pages :: "'w law_env \<Rightarrow> string list list \<Rightarrow> law_registry \<times> 'w \<Rightarrow> law_registry \<times> 'w" where
  "absorb_pages env [] rw = rw"
| "absorb_pages env (page # ps) rw =
     (case en_port env vault_getmany_op
             (JObj [(''ns'', JStr JOURNAL_NS), (''ids'', JArr (map JStr page))]) (snd rw) of
        (Inr (POk v _ _), w) \<Rightarrow> absorb_pages env ps (absorb_rows (en_now env) (page_rows v) (fst rw), w)
      | (_, w) \<Rightarrow> (fst rw, w))"

definition registry_absorb :: "'w law_env \<Rightarrow> law_registry \<times> 'w \<Rightarrow> law_registry \<times> 'w" where
  "registry_absorb env rw =
     (case en_port env vault_query_op
             (JObj [(''ns'', JStr JOURNAL_NS), (''filter'', JObj [(''idPrefix'', JStr JOURNAL_ID_PREFIX)])]) (snd rw) of
        (Inr (POk v _ _), w) \<Rightarrow>
          (let rows = (case v of JArr rs \<Rightarrow> rs | _ \<Rightarrow> []);
               ids = concat (map (\<lambda>r. case jfield (asObj r) ''id'' of JStr i \<Rightarrow> [i] | _ \<Rightarrow> []) rows);
               fresh = filter (\<lambda>i. \<not> vaultRowSeen (fst rw) i) ids
           in absorb_pages env (pages REGISTRY_PAGE fresh) (fst rw, w))
      | (_, w) \<Rightarrow> (fst rw, w))"

record overlay_status =
  oy_persistence :: bool
  oy_loaded :: bool
  oy_count :: nat
  oy_lastError :: "string option"

definition law_registry_read :: "('w, registry_snapshot \<times> overlay_status) handler" where
  "law_registry_read env payload meta sw =
     (let s1 = count_event (observe_id env (cm_from meta) Active ''op'' (fst sw));
          (r, w) = (if has_cap env ''port:vault.query@1'' \<and> has_cap env ''port:vault.getmany@1''
                    then registry_absorb env (ls_registry s1, snd sw) else (ls_registry s1, snd sw));
          (r', snap) = registry_snapshot_of (en_parse env) (en_file env) (en_now env)
                         (activeCount (ls_consents s1)) (ls_generation s1) r
      in (Inr (snap, \<lparr>oy_persistence = ls_persistence s1, oy_loaded = ls_loaded s1,
                      oy_count = (if ls_loaded s1 then live_entries (ls_forbidden s1) else ls_loadedCount s1),
                      oy_lastError = ls_lastError s1\<rparr>),
          s1\<lparr>ls_registry := r'\<rparr>, w))"

record describe_reply =
  de_principal :: string
  de_kind :: principal_kind
  de_forbidden :: "string list"
  de_persisted :: bool
  de_consents :: "consent_record list"
  de_generation :: nat

definition law_describe :: "('w, describe_reply) handler" where
  "law_describe env payload meta sw =
     (let who = str_of (jfield (asObj payload) ''principal'') in
      if who = [] then (Inl (PayloadRequires ''principal''), sw)
      else
        (let s1 = count_event (fst sw) in
         (Inr \<lparr>de_principal = who, de_kind = principalKind who,
               de_forbidden = (case prior_ops (ls_forbidden s1) (JStr who) of Some l \<Rightarrow> l | None \<Rightarrow> []),
               de_persisted = ls_persistence s1, de_consents = listFor (ls_consents s1) who,
               de_generation = ls_generation s1\<rparr>, s1, snd sw)))"

end
