(* ===== verification/Law_Safety.thy ===== *)
theory Law_Safety
  imports Law_Ops
begin

text \<open>
  What the gate guarantees: the decision as a function of the overlay, the policy and the consents
  alone; who may manage which consent; what an aborted write leaves behind.
\<close>

section \<open>The journal touches nothing but its own counter\<close>

lemma journal_state [simp]:
  "ls_consents (fst (journal env e sw)) = ls_consents (fst sw)"
  "ls_forbidden (fst (journal env e sw)) = ls_forbidden (fst sw)"
  "ls_shadow (fst (journal env e sw)) = ls_shadow (fst sw)"
  "ls_registry (fst (journal env e sw)) = ls_registry (fst sw)"
  "ls_generation (fst (journal env e sw)) = ls_generation (fst sw)"
  "ls_persistence (fst (journal env e sw)) = ls_persistence (fst sw)"
  by (auto simp: journal_def Let_def split: option.splits)

lemma small_steps [simp]:
  "ls_consents (bump s) = ls_consents s" "ls_forbidden (bump s) = ls_forbidden s"
  "ls_shadow (bump s) = ls_shadow s" "ls_persistence (bump s) = ls_persistence s"
  "ls_generation (bump s) = ls_generation s + 1"
  "ls_consents (count_event s) = ls_consents s" "ls_forbidden (count_event s) = ls_forbidden s"
  "ls_shadow (count_event s) = ls_shadow s" "ls_persistence (count_event s) = ls_persistence s"
  "ls_generation (count_event s) = ls_generation s"
  "ls_consents (observe_id env i st via s) = ls_consents s"
  "ls_forbidden (observe_id env i st via s) = ls_forbidden s"
  "ls_shadow (observe_id env i st via s) = ls_shadow s"
  "ls_persistence (observe_id env i st via s) = ls_persistence s"
  "ls_generation (observe_id env i st via s) = ls_generation s"
  by (simp_all add: bump_def count_event_def observe_id_def)

section \<open>The decision\<close>

definition gate_decision :: "law_state \<Rightarrow> string \<Rightarrow> string \<Rightarrow> law_action" where
  "gate_decision s who op =
     (if isForbidden (ls_forbidden s) who op then Deny
      else if fst (v1_verdict who op) = RequireConsent \<and> hasMatchingGrant (ls_consents s) who op \<noteq> None then Allow
      else fst (v1_verdict who op))"

lemma resolve_v1:
  "\<exists>r. resolve_doc s LAW_POLICY_V1 who op = Some r \<and>
     rv_decision r = (if fst (v1_verdict who op) = RequireConsent \<and> hasMatchingGrant (ls_consents s) who op \<noteq> None
                      then Allow else fst (v1_verdict who op)) \<and>
     rv_consentId r = (if rv_decision r = RequireConsent then Some (consentIdFor who op) else None)"
proof -
  obtain a where a: "pe_action (evalPolicy LAW_POLICY_V1 who op) = Some a"
    and d: "rd_decision a = fst (v1_verdict who op)"
    using v1_decides [of who op] by (auto simp: prod_eq_iff)
  show ?thesis
    unfolding resolve_doc_def a d [symmetric]
    by (cases "hasMatchingGrant (ls_consents s) who op") (simp_all add: requireConsent_def)
qed

lemma resolve_complete:
  assumes "doc_complete d"
  shows "\<exists>r. resolve_doc s d who op = Some r"
proof -
  obtain a where "pe_action (evalPolicy d who op) = Some a" using doc_complete_eval [OF assms] by auto
  then show ?thesis by (auto simp: resolve_doc_def split: option.splits)
qed

lemma shadow_half_total:
  assumes "amendment_ok (ls_shadow s)"
  shows "\<exists>s1 x. shadow_half now s who op p c = Some (s1, x) \<and> ls_consents s1 = ls_consents s \<and>
    ls_forbidden s1 = ls_forbidden s \<and> ls_generation s1 = ls_generation s \<and> ls_persistence s1 = ls_persistence s \<and>
    amendment_ok (ls_shadow s1) \<and> am_primary (ls_shadow s1) = am_primary (ls_shadow s) \<and>
    am_shadow (ls_shadow s1) = am_shadow (ls_shadow s)"
proof (cases "am_shadow (ls_shadow s)")
  case None
  then show ?thesis using assms by (simp add: shadow_half_def shadow_doc_def)
next
  case (Some d)
  then have "doc_complete d" using assms by (simp add: amendment_ok_def)
  then obtain r where r: "resolve_doc s d who op = Some r" using resolve_complete by blast
  have "amendment_ok (fst (shadow_observe now (ls_shadow s) who op v w q))" for v w q
    using assms by (simp add: shadow_observe_def amendment_ok_def Let_def)
  moreover have "am_shadow (fst (shadow_observe now (ls_shadow s) who op v w q)) = am_shadow (ls_shadow s)"
    and "am_primary (fst (shadow_observe now (ls_shadow s) who op v w q)) = am_primary (ls_shadow s)" for v w q
    by (simp_all add: shadow_observe_def Let_def)
  ultimately show ?thesis
    using Some r by (simp add: shadow_half_def shadow_doc_def cloneDoc_def split_def Let_def)
qed

abbreviation check_who :: "json \<Rightarrow> string" where
  "check_who payload \<equiv> str_of (jfield (asObj payload) ''principal'')"

abbreviation check_op :: "json \<Rightarrow> string" where
  "check_op payload \<equiv> str_of (jfield (asObj payload) ''op'')"

lemma law_check_decides:
  assumes "amendment_ok (ls_shadow s)"
  shows "\<exists>d s' w'. law_check env payload meta (s, w) = (Inr d, s', w') \<and>
    ld_decision d = gate_decision s (check_who payload) (check_op payload) \<and>
    ld_consentId d = (if ld_decision d = RequireConsent then Some (consentIdFor (check_who payload) (check_op payload)) else None) \<and>
    ls_consents s' = ls_consents s \<and> ls_forbidden s' = ls_forbidden s \<and> ls_generation s' = ls_generation s \<and>
    amendment_ok (ls_shadow s') \<and> am_shadow (ls_shadow s') = am_shadow (ls_shadow s)"
proof -
  let ?who = "check_who payload" and ?op = "check_op payload"
  let ?c = "case optStr (jfield (asObj payload) ''causationId'') of Some c \<Rightarrow> c | None \<Rightarrow> cm_causationId meta"
  obtain r where r: "resolve_doc s LAW_POLICY_V1 ?who ?op = Some r"
    "rv_decision r = (if fst (v1_verdict ?who ?op) = RequireConsent \<and> hasMatchingGrant (ls_consents s) ?who ?op \<noteq> None
                      then Allow else fst (v1_verdict ?who ?op))"
    "rv_consentId r = (if rv_decision r = RequireConsent then Some (consentIdFor ?who ?op) else None)"
    using resolve_v1 by blast
  let ?p = "if isForbidden (ls_forbidden s) ?who ?op then forbidden_verdict ?who else r"
  obtain s1 x where sh: "shadow_half (en_now env) s ?who ?op ?p ?c = Some (s1, x)"
    and s1: "ls_consents s1 = ls_consents s" "ls_forbidden s1 = ls_forbidden s" "ls_generation s1 = ls_generation s"
      "amendment_ok (ls_shadow s1)" "am_shadow (ls_shadow s1) = am_shadow (ls_shadow s)"
    using shadow_half_total [OF assms] by blast
  have p: "rv_decision ?p = gate_decision s ?who ?op"
    "rv_consentId ?p = (if rv_decision ?p = RequireConsent then Some (consentIdFor ?who ?op) else None)"
    using r by (simp_all add: gate_decision_def forbidden_verdict_def)
  obtain d sw' where run: "law_check env payload meta (s, w) = (Inr d, sw')"
    and d: "ld_decision d = rv_decision ?p" "ld_consentId d = rv_consentId ?p"
    and sw': "sw' = (observe_id env ?who Active ''law.check'' (count_event s1), w) \<or>
      (\<exists>e. sw' = journal env e (observe_id env ?who Active ''law.check'' (count_event s1), w))"
    unfolding law_check_def Let_def fst_conv snd_conv r(1) option.case sh prod.case
    by (cases "rv_journal ?p") auto
  from sw' have "ls_consents (fst sw') = ls_consents s" "ls_forbidden (fst sw') = ls_forbidden s"
    "ls_generation (fst sw') = ls_generation s" "ls_shadow (fst sw') = ls_shadow s1"
    using s1 by auto
  with run d p s1 show ?thesis by (cases sw') simp
qed

section \<open>The capability a grant returns\<close>

lemma hex_digit_char: "digit_val c \<noteq> None \<Longrightarrow> c \<noteq> CHR '':'' \<and> c \<noteq> CHR ''='' \<and> \<not> space_char c"
  by (auto simp: digit_val_def space_char_def Let_def split: if_splits)

lemma consent_id_chars:
  assumes "CONSENT_ID_RE i" and "c \<in> set i"
  shows "c \<noteq> CHR '':'' \<and> c \<noteq> CHR ''='' \<and> \<not> space_char c"
proof -
  have i: "i = ''consent_'' @ drop 8 i"
    using assms(1) by (auto simp: CONSENT_ID_RE_def starts_with_iff)
  have "c \<in> set ''consent_'' \<or> c \<in> set (drop 8 i)"
    using assms(2) by (subst (asm) i) (simp only: set_append Un_iff)
  then show ?thesis
  proof
    assume "c \<in> set ''consent_''"
    then show ?thesis by (auto simp: space_char_def)
  next
    assume "c \<in> set (drop 8 i)"
    then have "digit_val c \<noteq> None" using assms(1) unfolding CONSENT_ID_RE_def by blast
    then show ?thesis by (rule hex_digit_char)
  qed
qed

lemma consent_scope_parses:
  assumes "CONSENT_ID_RE i"
  shows "parseScope (consent_scope i) = Inr \<lparr>ps_path = [''law'', ''consent''], ps_constraints = [''id='' @ i]\<rparr>"
proof -
  note ok = consent_id_chars [OF assms]
  have len: "length i = 24" using assms by (simp add: CONSENT_ID_RE_def)
  have "split_on (CHR '':'') (''id='' @ i) = [''id='' @ i]"
    by (rule split_on_clean) (use ok in auto)
  then have colon: "split_on (CHR '':'') (''law.consent:id='' @ i) = [''law.consent'', ''id='' @ i]" by simp
  have "split_on (CHR ''='') (''id='' @ i) = [''id'', i]"
    using split_on_clean [of "CHR ''=''" i] ok by auto
  moreover have "list_all (\<lambda>c. \<not> space_char c \<and> c \<noteq> CHR '':'') i" using ok by (auto simp: list_all_iff)
  ultimately have "CONSTRAINT_RE (''id='' @ i)"
    using len by (auto simp: CONSTRAINT_RE_def word_char_def)
  then show ?thesis
    unfolding parseScope_Inr consent_scope_def colon
    using len by (simp add: SEGMENT_RE_def word_char_def uniq_def set_add_def)
qed

lemma root_scope_parses: "parseScope ''law.consent'' = Inr \<lparr>ps_path = [''law'', ''consent''], ps_constraints = []\<rparr>"
  by code_simp

lemma consent_cap:
  assumes "CONSENT_ID_RE i"
  shows "attenuate rootConsentCap (consent_scope i) =
    Inr \<lparr>cap_scope = consent_scope i, cap_generation = 1, cap_parent = Some ''law.consent''\<rparr>"
proof -
  have "''law.consent'' \<noteq> consent_scope i" by (simp add: consent_scope_def)
  then show ?thesis
    by (simp add: attenuate_Inr scope_le_iff rootConsentCap_def consent_scope_parses [OF assms] root_scope_parses)
qed

section \<open>Consents\<close>

lemma grant_op_wf:
  "CONSENT_ID_RE i \<Longrightarrow> \<exists>t' r. consent_grant_op now t i p q = Inr (t', r) \<and> cr_consentId r = i \<and>
     cr_principal r = p \<and> cr_scope r = q \<and> cr_active r \<and> ct_grants t' = map_set i r (ct_grants t)"
  by (simp add: consent_grant_op_def Let_def)

text \<open>A grant that names no principal, or whose row needs no vault, always goes through.\<close>

lemma unnamed_grant:
  assumes "CONSENT_ID_RE i" and "jfield (asObj payload) ''consentId'' = JStr i"
    and "jfield (asObj payload) ''action'' \<notin> {JStr ''revoke'', JStr ''deny-revoke''}"
    and "optStr (jfield (asObj payload) ''principal'') = None"
  shows "\<exists>y s' w'. law_consent_grant env payload meta (s, w) = (Inr y, s', w') \<and>
    ls_forbidden s' = ls_forbidden s \<and> ls_shadow s' = ls_shadow s \<and>
    consent_abs (ls_consents s') = (consent_abs (ls_consents s))(i := Some (None, optStr (jfield (asObj payload) ''scope'')))"
proof -
  obtain t r where t: "consent_grant_op (en_now env) (ls_consents s) i None (optStr (jfield (asObj payload) ''scope'')) = Inr (t, r)"
    using grant_op_wf [OF assms(1)] by blast
  note a = abs_grant [OF t]
  have "\<exists>y e. law_consent_grant env payload meta (s, w) =
      (Inr y, journal env e (count_event (bump (s\<lparr>ls_consents := t\<rparr>)), w))"
    using assms t consent_cap [OF assms(1)]
    by (simp add: law_consent_grant_def consent_row_half_def Let_def) (rule exI, rule refl)
  then obtain y sw' where run: "law_consent_grant env payload meta (s, w) = (Inr y, sw')"
    and sw': "\<exists>e. sw' = journal env e (count_event (bump (s\<lparr>ls_consents := t\<rparr>)), w)"
    by blast
  from sw' have "ls_consents (fst sw') = t" "ls_forbidden (fst sw') = ls_forbidden s" "ls_shadow (fst sw') = ls_shadow s"
    by auto
  with run a show ?thesis by (cases sw') simp
qed

lemma gate_after_grant:
  assumes "consent_abs (ls_consents s') = (consent_abs (ls_consents s))(consentIdFor who op := Some (None, None))"
    and "ls_forbidden s' = ls_forbidden s"
  shows "gate_decision s' who op = (if gate_decision s who op = RequireConsent then Allow else gate_decision s who op)"
proof -
  have "hasMatchingGrant (ls_consents s') who op \<noteq> None"
    unfolding abs_match assms(1) by (simp add: view_allows_def)
  then show ?thesis using assms(2) by (simp add: gate_decision_def)
qed

text \<open>The overlay's roll-back restores every decision.\<close>

lemma roll_back_isForbidden:
  assumes "forbidden_ok t" and "forbidden_set t raw ops = Inr (t', e)"
  shows "isForbidden (roll_back t' (fe_principal e) (prior_ops t raw)) = isForbidden t \<and>
    forbidden_ok (roll_back t' (fe_principal e) (prior_ops t raw))"
proof -
  obtain p l where raw: "raw = JStr p" "p \<noteq> []" and el: "e = \<lparr>fe_principal = p, fe_ops = l\<rparr>"
    and t': "t' = (if l = [] then map_del p t else map_set p l t)"
    using assms(2) unfolding forbidden_set_Inr by blast
  have e: "fe_principal e = p" by (simp add: el)
  have ok': "forbidden_ok t'" by (rule forbidden_set_ok [OF assms])
  have pr: "prior_ops t raw = map_get t p"
  proof -
    have "map_option fe_ops (find (\<lambda>e. fe_principal e = p) (map (\<lambda>(p, l). \<lparr>fe_principal = p, fe_ops = l\<rparr>) q)) = map_get q p" for q
      by (induction q) auto
    then show ?thesis by (simp add: prior_ops_def forbidden_list_def raw(1))
  qed
  show ?thesis
  proof (cases "map_get t p")
    case None
    then have "roll_back t' p None = map_del p t'" using raw by (simp add: roll_back_def forbidden_clear_def res_bind_def)
    moreover have "forbidden_ok (map_del p t')"
      using ok' by (simp add: forbidden_ok_def distinct_delete del: map_of_eq_Some_iff)
    moreover have "isForbidden (map_del p t') = isForbidden t"
      using None by (auto simp: t' isForbidden_def fun_eq_iff)
    ultimately show ?thesis using None e pr by simp
  next
    case (Some k)
    then have k: "row_ok p k" using assms(1) unfolding forbidden_ok_def by blast
    then have "requireOps (JArr (map JStr k)) = Inr k" unfolding row_ok_def by (blast intro: requireOps_again)
    then have set: "forbidden_set t' (JStr p) (JArr (map JStr k)) = Inr (map_set p k t', \<lparr>fe_principal = p, fe_ops = k\<rparr>)"
      using k raw by (simp add: forbidden_set_Inr row_ok_def)
    then have "roll_back t' p (Some k) = map_set p k t'" by (simp add: roll_back_def)
    moreover have "isForbidden (map_set p k t') = isForbidden t"
      using Some by (auto simp: t' isForbidden_def fun_eq_iff)
    ultimately show ?thesis using forbidden_set_ok [OF ok' set] Some e pr by simp
  qed
qed

section \<open>Properties\<close>


lemma initial_shadow_ok: "amendment_ok (ls_shadow (initial_law boot))"
  by (simp add: initial_law_def amendment_ok_def new_amendment_def)


text \<open>A caller other than \<open>root\<close> that names a principal other than itself is refused before anything
  changes, for grants and revocations alike.\<close>

theorem consent_cross_principal:
  assumes "optStr (jfield (asObj payload) ''principal'') = Some p"
    and "cm_from meta \<noteq> ''root''" and "p \<noteq> cm_from meta"
  shows "law_consent_grant env payload meta sw = (Inl (CrossPrincipal (cm_from meta) p), sw)"
  using assms by (simp add: law_consent_grant_def Let_def)

lemma consent_cross_principal_witness:
  "law_consent_grant \<lparr>en_now = 3, en_ctx = None, en_port = (\<lambda>_ _ w. (Inl ''down'', w)), en_parse = (\<lambda>_. None), en_file = (\<lambda>_. None)\<rparr>
     (JObj [(''principal'', JStr ''user:u'')]) \<lparr>cm_from = ''plugin.x'', cm_causationId = ''c''\<rparr> (initial_law ''b'', ()) =
   (Inl (CrossPrincipal ''plugin.x'' ''user:u''), initial_law ''b'', ())"
  using consent_cross_principal [of "JObj [(''principal'', JStr ''user:u'')]" "''user:u''"
      "\<lparr>cm_from = ''plugin.x'', cm_causationId = ''c''\<rparr>"]
  by (simp add: jfield_def)

text \<open>(C37) That refusal is all there is: a caller that leaves the principal out may name any consent id,
  ids are computable by anyone, and such a grant is not bound to its maker. So for every caller,
  every victim and every op that needs consent, one grant without a principal makes the gate allow
  the victim's op.\<close>

theorem unnamed_grant_forges_consent:
  assumes "amendment_ok (ls_shadow s)" and "gate_decision s victim op = RequireConsent"
    and "payload = JObj [(''consentId'', JStr (consentIdFor victim op))]"
  shows "\<exists>y s' w'. law_consent_grant env payload meta (s, w) = (Inr y, s', w') \<and>
    (\<exists>d s'' w''. law_check env' (JObj [(''principal'', JStr victim), (''op'', JStr op)]) meta' (s', w') = (Inr d, s'', w'') \<and>
       ld_decision d = Allow)"
proof -
  obtain y s' w' where run: "law_consent_grant env payload meta (s, w) = (Inr y, s', w')"
    and s': "ls_forbidden s' = ls_forbidden s" "ls_shadow s' = ls_shadow s"
      "consent_abs (ls_consents s') = (consent_abs (ls_consents s))(consentIdFor victim op := Some (None, None))"
    using unnamed_grant [OF consentId_shape, of payload victim op env meta s w] by (auto simp: assms(3) jfield_def)
  have "gate_decision s' victim op = Allow"
    using gate_after_grant [OF s'(3,1)] assms(2) by simp
  then show ?thesis
    using run law_check_decides [of s' env' "JObj [(''principal'', JStr victim), (''op'', JStr op)]" meta' w'] assms(1) s'(2)
    by (fastforce simp: jfield_def)
qed

lemma unnamed_grant_forges_consent_witness:
  "\<exists>y s' w'. law_consent_grant \<lparr>en_now = 3, en_ctx = None, en_port = (\<lambda>_ _ w. (Inl ''down'', w)), en_parse = (\<lambda>_. None), en_file = (\<lambda>_. None)\<rparr>
     (JObj [(''consentId'', JStr (consentIdFor ''user:u'' ''mail.send@1''))]) \<lparr>cm_from = ''plugin.x'', cm_causationId = ''c''\<rparr>
     (initial_law ''b'', ()) = (Inr y, s', w')"
proof -
  have "gate_decision (initial_law ''b'') ''user:u'' ''mail.send@1'' = RequireConsent"
    by (simp add: gate_decision_def v1_verdict_def v1_mutation_def starts_with_def mutation_rows_def initial_law_def
        isForbidden_def hasMatchingGrant_def empty_consents_def)
  from unnamed_grant_forges_consent [OF initial_shadow_ok this refl, of "\<lparr>en_now = 3, en_ctx = None, en_port = (\<lambda>_ _ w. (Inl ''down'', w)), en_parse = (\<lambda>_. None), en_file = (\<lambda>_. None)\<rparr>"
      "\<lparr>cm_from = ''plugin.x'', cm_causationId = ''c''\<rparr>" "()"]
  show ?thesis by blast
qed

text \<open>Setting an overlay is all or nothing towards the decisions: when the handler answers, exactly
  the named principal's list was replaced; when it throws, for whatever reason (malformed list, no
  context, a vault that refuses or throws), every decision of the overlay is what it was, and no
  consent and no policy changed either way.\<close>

theorem forbidden_set_all_or_nothing:
  assumes "forbidden_ok (ls_forbidden s)" and "law_forbidden_set env payload meta (s, w) = (r, s', w')"
  shows "forbidden_ok (ls_forbidden s') \<and> ls_consents s' = ls_consents s \<and> ls_shadow s' = ls_shadow s \<and>
    (case r of
       Inl _ \<Rightarrow> isForbidden (ls_forbidden s') = isForbidden (ls_forbidden s)
     | Inr y \<Rightarrow> JStr (fe_principal (fy_entry y)) = jfield (asObj payload) ''principal'' \<and>
         isForbidden (ls_forbidden s') = (\<lambda>p op. if p = fe_principal (fy_entry y) then op \<in> set (fe_ops (fy_entry y))
                                             else isForbidden (ls_forbidden s) p op))"
proof (cases "forbidden_set (ls_forbidden s) (jfield (asObj payload) ''principal'') (jfield (asObj payload) ''ops'')")
  case (Inl e)
  then show ?thesis using assms by (auto simp: law_forbidden_set_def Let_def)
next
  case (Inr te)
  obtain t e where te: "te = (t, e)" by (cases te)
  note set = Inr [unfolded te]
  note rb = roll_back_isForbidden [OF assms(1) set]
  have ok: "forbidden_ok t" by (rule forbidden_set_ok [OF assms(1) set])
  have who: "JStr (fe_principal e) = jfield (asObj payload) ''principal''"
    using set by (auto simp: forbidden_set_Inr)
  have isf: "isForbidden t = (\<lambda>p op. if p = fe_principal e then op \<in> set (fe_ops e) else isForbidden (ls_forbidden s) p op)"
    using set by (auto simp: forbidden_set_Inr isForbidden_def fun_eq_iff split: option.splits if_splits)
  let ?s1 = "count_event (bump (s\<lparr>ls_forbidden := t\<rparr>))"
  have "(\<exists>y. r = Inr y \<and> fy_entry y = e \<and> ls_forbidden s' = t \<and> ls_consents s' = ls_consents s \<and> ls_shadow s' = ls_shadow s) \<or>
    (\<exists>x. r = Inl x \<and> s' = ?s1\<lparr>ls_forbidden := roll_back t (fe_principal e) (prior_ops (ls_forbidden s) (jfield (asObj payload) ''principal''))\<rparr>)"
    using assms(2) set
    by (auto simp: law_forbidden_set_def Let_def prod_eq_iff split: if_splits prod.splits sum.splits)
  then show ?thesis using rb ok who isf by auto
qed

lemma forbidden_set_all_or_nothing_witness:
  "\<exists>s' w'. law_forbidden_set \<lparr>en_now = 3, en_ctx = None, en_port = (\<lambda>_ _ w. (Inl ''down'', w)), en_parse = (\<lambda>_. None), en_file = (\<lambda>_. None)\<rparr>
       (JObj [(''principal'', JStr ''agent:x''), (''ops'', JArr [JStr ''mail.send@1''])]) \<lparr>cm_from = ''root'', cm_causationId = ''c''\<rparr>
       ((initial_law ''b'')\<lparr>ls_persistence := True\<rparr>, ()) = (Inl (NoContext ''law.forbidden.set''), s', w') \<and>
     \<not> isForbidden (ls_forbidden s') ''agent:x'' ''mail.send@1''"
proof -
  let ?env = "\<lparr>en_now = 3, en_ctx = None, en_port = (\<lambda>_ _ w. (Inl ''down'', w)), en_parse = (\<lambda>_. None), en_file = (\<lambda>_. None)\<rparr> :: unit law_env"
  let ?p = "JObj [(''principal'', JStr ''agent:x''), (''ops'', JArr [JStr ''mail.send@1''])]"
  let ?m = "\<lparr>cm_from = ''root'', cm_causationId = ''c''\<rparr>"
  let ?s = "(initial_law ''b'')\<lparr>ls_persistence := True\<rparr>"
  have "fst (law_forbidden_set ?env ?p ?m (?s, ())) = Inl (NoContext ''law.forbidden.set'')" by code_simp
  then obtain s' w' where run: "law_forbidden_set ?env ?p ?m (?s, ()) = (Inl (NoContext ''law.forbidden.set''), s', w')"
    by (metis prod.collapse)
  have "forbidden_ok (ls_forbidden ?s)" by (simp add: initial_law_def forbidden_ok_def)
  from forbidden_set_all_or_nothing [OF this run]
  have "\<not> isForbidden (ls_forbidden s') ''agent:x'' ''mail.send@1''"
    by (simp add: initial_law_def isForbidden_def)
  with run show ?thesis by blast
qed

end
