(* ===== verification/Vault_Law.thy ===== *)
theory Vault_Law
  imports Vault_Service Law_Safety
begin

text \<open>
  The law on top of the vault. What the law's principal records rely on is a row store reached through
  the port: a read answers what is stored, an append changes the row it names and no other. The
  locale states that contract and proves from it that retirement is final; the interpretation
  discharges it for the delivered vault of \<open>Vault_Port\<close>.
\<close>

section \<open>The calls of the law\<close>

datatype 'w law_call =
    CheckCall "'w law_env" json call_meta
  | RegisterCall "'w law_env" json call_meta
  | RetireCall "'w law_env" json call_meta
  | GetCall "'w law_env" json call_meta
  | ConsentCall "'w law_env" json call_meta
  | ForbidCall "'w law_env" json call_meta

fun law_step :: "law_state \<times> 'w \<Rightarrow> 'w law_call \<Rightarrow> law_state \<times> 'w" where
  "law_step sw (CheckCall env payload meta) = snd (law_check env payload meta sw)"
| "law_step sw (RegisterCall env payload meta) = snd (principal_register env payload meta sw)"
| "law_step sw (RetireCall env payload meta) = snd (principal_retire env payload meta sw)"
| "law_step sw (GetCall env payload meta) = snd (principal_get env payload meta sw)"
| "law_step sw (ConsentCall env payload meta) = snd (law_consent_grant env payload meta sw)"
| "law_step sw (ForbidCall env payload meta) = snd (law_forbidden_set env payload meta sw)"

fun call_env :: "'w law_call \<Rightarrow> 'w law_env" where
  "call_env (CheckCall env _ _) = env"
| "call_env (RegisterCall env _ _) = env"
| "call_env (RetireCall env _ _) = env"
| "call_env (GetCall env _ _) = env"
| "call_env (ConsentCall env _ _) = env"
| "call_env (ForbidCall env _ _) = env"

section \<open>Records through the canonical text\<close>

lemma map_get_perm: "distinct (map_keys xs) \<Longrightarrow> distinct (map_keys ys) \<Longrightarrow> set xs = set ys \<Longrightarrow> map_get xs k = map_get ys k"
  by (metis map_of_inject_set)

lemma map_get_defined:
  assumes "distinct (map_keys kvs)"
  shows "map_get (defined_fields kvs) k = (if map_get kvs k = Some JUndefined then None else map_get kvs k)"
proof -
  have "distinct (map_keys (filter (\<lambda>kv. snd kv \<noteq> JUndefined) kvs))" using assms by (rule distinct_map_filter)
  then have d: "distinct (map_keys (defined_fields kvs))"
    by (simp add: defined_fields_def distinct_map)
  show ?thesis
  proof (cases "map_get (defined_fields kvs) k")
    case None
    then have "(k, v) \<notin> set (defined_fields kvs)" for v using d by (metis map_of_eq_Some_iff option.distinct(1))
    then have "map_get kvs k = Some v \<Longrightarrow> v = JUndefined" for v
      using map_of_SomeD [of kvs k v] by (auto simp: set_defined_fields)
    with None show ?thesis by (cases "map_get kvs k") auto
  next
    case (Some v)
    then have "(k, v) \<in> set kvs" and "v \<noteq> JUndefined"
      using map_of_SomeD [OF Some] by (auto simp: set_defined_fields)
    with assms Some show ?thesis by simp
  qed
qed

lemma jfield_norm:
  assumes "distinct (map_keys kvs)"
  shows "jfield (asObj (json_norm (JObj kvs))) k = json_norm (jfield kvs k)"
proof -
  have m: "map_get (map (\<lambda>kv. (fst kv, json_norm (snd kv))) xs) k = map_option json_norm (map_get xs k)" for xs
    by (induction xs) auto
  show ?thesis by (simp add: jfield_def m map_get_defined [OF assms] split: option.split)
qed

lemma principal_stored: "pr_principal r \<noteq> [] \<Longrightarrow> principal_fromRecord (json_norm (principal_json r)) = Some r"
proof -
  obtain kvs where kvs: "principal_json r = JObj kvs" by (simp add: principal_json_def)
  have d: "distinct (map_keys kvs)" using kvs by (cases "pr_retiredAt r") (auto simp: principal_json_def)
  obtain kvs' where n: "json_norm (JObj kvs) = JObj kvs'" by simp
  have "jfield kvs' k = json_norm (jfield kvs k)" for k using jfield_norm [OF d, of k] n by simp
  moreover have "jfield kvs ''principal'' = JStr (pr_principal r)" "jfield kvs ''state'' = JStr (state_text (pr_state r))"
      "jfield kvs ''registeredAt'' = JNum (pr_registeredAt r)" "jfield kvs ''generation'' = JNum (pr_generation r)"
      "jfield kvs ''kind'' = JStr (pr_kind r)"
      "jfield kvs ''retiredAt'' = (case pr_retiredAt r of Some t \<Rightarrow> JNum t | None \<Rightarrow> JUndefined)"
    using kvs by (cases "pr_retiredAt r"; auto simp: principal_json_def jfield_def)+
  ultimately show "pr_principal r \<noteq> [] \<Longrightarrow> principal_fromRecord (json_norm (principal_json r)) = Some r"
    using n kvs by (cases r; cases "pr_state r"; cases "pr_retiredAt r") (simp_all add: principal_fromRecord_def state_text_def)
qed

lemma fromRecord_principal: "principal_fromRecord d = Some r \<Longrightarrow> pr_principal r \<noteq> []"
  by (auto simp: principal_fromRecord_def split: json.splits if_splits)

lemma read_Some: "readPrincipalRecord env p w = (Some r, w') \<Longrightarrow> \<exists>d. principal_fromRecord d = Some r"
  by (auto simp: readPrincipalRecord_def split: sum.splits prod.splits port_result.splits)

section \<open>The contract\<close>

locale row_store =
  fixes port :: "'w port"
    and inv :: "'w \<Rightarrow> bool"
    and stored :: "'w \<Rightarrow> string \<Rightarrow> string \<Rightarrow> json option"
    and clash :: "'w \<Rightarrow> json \<Rightarrow> bool"
  assumes inv_kept: "inv w \<Longrightarrow> inv (snd (port op x w))"
    and get_effect: "snd (port vault_get_op x w) = w"
    and journal_effect: "snd (port op_journal x w) = w"
    and get_stored: "inv w \<Longrightarrow> stored w ns i = Some d \<Longrightarrow>
      \<exists>v a b. fst (port vault_get_op (get_payload ns i) w) = Inr (POk v a b) \<and> jfield (asObj v) ''data'' = d"
    and append_other: "inv w \<Longrightarrow> (ns, i) \<noteq> (ns', i') \<Longrightarrow>
      stored (snd (port vault_append_op (append_payload ns' i' d) w)) ns i = stored w ns i"
    and append_row: "inv w \<Longrightarrow> fst (port vault_append_op (append_payload ns i d) w) = Inr (POk v a b) \<Longrightarrow> \<not> clash w d \<Longrightarrow>
      stored (snd (port vault_append_op (append_payload ns i d) w)) ns i = Some (json_norm d)"
begin

definition gone :: "'w \<Rightarrow> string \<Rightarrow> bool" where
  "gone w who \<longleftrightarrow> inv w \<and> (\<exists>d r. stored w PRINCIPAL_NS who = Some d \<and> principal_fromRecord d = Some r \<and> pr_state r = PRetired)"

lemma gone_append: "gone w who \<Longrightarrow> (ns, i) \<noteq> (PRINCIPAL_NS, who) \<Longrightarrow> gone (snd (port vault_append_op (append_payload ns i d) w)) who"
  using append_other [of w PRINCIPAL_NS who ns i d] inv_kept by (auto simp: gone_def)

lemma gone_vault_append:
  "gone w who \<Longrightarrow> en_port env = port \<Longrightarrow> (ns, i) \<noteq> (PRINCIPAL_NS, who) \<Longrightarrow> gone (snd (vault_append env ns i d w)) who"
  using gone_append [of w who ns i d] by (auto simp: vault_append_def split: prod.splits sum.splits port_result.splits)

lemma gone_journal: "gone w who \<Longrightarrow> en_port env = port \<Longrightarrow> gone (snd (journal env e (s, w))) who"
  using gone_append [of w who JOURNAL_NS] journal_effect
  by (simp add: journal_def Let_def JOURNAL_NS_def PRINCIPAL_NS_def split: option.split)

lemma read_effect: "en_port env = port \<Longrightarrow> snd (readPrincipalRecord env p w) = w"
  using get_effect [of "get_payload PRINCIPAL_NS p" w]
  by (auto simp: readPrincipalRecord_def principalVaultId_def split: sum.splits prod.splits port_result.splits if_splits)

lemma read_gone:
  assumes "gone w who" and "en_port env = port" and "principalVaultId who = Inr who"
  shows "\<exists>r. readPrincipalRecord env who w = (Some r, w) \<and> pr_state r = PRetired"
proof -
  obtain d r where d: "stored w PRINCIPAL_NS who = Some d" "principal_fromRecord d = Some r" "pr_state r = PRetired" and "inv w"
    using assms(1) by (auto simp: gone_def)
  obtain v a b where "fst (port vault_get_op (get_payload PRINCIPAL_NS who) w) = Inr (POk v a b)" and "jfield (asObj v) ''data'' = d"
    using get_stored [OF \<open>inv w\<close> d(1)] by blast
  moreover have "snd (port vault_get_op (get_payload PRINCIPAL_NS who) w) = w" by (rule get_effect)
  ultimately show ?thesis using d assms(2,3)
    by (cases "port vault_get_op (get_payload PRINCIPAL_NS who) w") (simp add: readPrincipalRecord_def)
qed

lemma vault_id: "principalVaultId p = Inr i \<Longrightarrow> i = p"
  by (simp add: principalVaultId_def split: if_splits)

lemma newRecord_id: "newRecord now p = Inr rec \<Longrightarrow> principalVaultId p = Inr p"
  by (auto simp: newRecord_def principalVaultId_def res_bind_def split: sum.splits if_splits)

lemma gone_register:
  assumes "gone w who" and "en_port env = port"
  shows "gone (snd (snd (principal_register env payload meta (s, w)))) who"
proof -
  let ?p = "str_of (jfield (asObj payload) ''principal'')"
  obtain found where read: "readPrincipalRecord env ?p w = (found, w)"
    using read_effect [OF assms(2), of ?p w] by (metis prod.collapse)
  have "?p \<noteq> who" if "found = None" and "newRecord (en_now env) ?p = Inr rec" for rec
    using read_gone [OF assms] newRecord_id [OF that(2)] read that(1) by auto
  then show ?thesis using assms read gone_vault_append [OF assms, of PRINCIPAL_NS ?p] gone_journal [OF _ assms(2)]
    by (auto simp: principal_register_def Let_def split_def split: option.splits sum.splits)
qed

lemma gone_retire:
  assumes "gone w who" and "en_port env = port"
  shows "gone (snd (snd (principal_retire env payload meta (s, w)))) who"
proof -
  let ?p = "str_of (jfield (asObj payload) ''principal'')"
  obtain found where read: "readPrincipalRecord env ?p w = (found, w)"
    using read_effect [OF assms(2), of ?p w] by (metis prod.collapse)
  have "?p \<noteq> who" if "found = Some r" and "pr_state r \<noteq> PRetired" for r
  proof
    assume p: "?p = who"
    have "principalVaultId who = Inr who"
      using read that(1) vault_id p by (auto simp: readPrincipalRecord_def split: sum.splits)
    from read_gone [OF assms this] read that p show False by auto
  qed
  then show ?thesis using assms read gone_vault_append [OF assms, of PRINCIPAL_NS ?p] gone_journal [OF _ assms(2)]
    by (auto simp: principal_retire_def Let_def split_def split: option.splits sum.splits)
qed

lemma gone_get: "gone w who \<Longrightarrow> en_port env = port \<Longrightarrow> gone (snd (snd (principal_get env payload meta (s, w)))) who"
  using read_effect [of env _ w] by (simp add: principal_get_def Let_def split_def)

lemma gone_ensure:
  assumes "gone w who" and "en_port env = port"
  shows "gone (snd (ensurePrincipalRecord env p w)) who"
proof -
  obtain found where read: "readPrincipalRecord env p w = (found, w)"
    using read_effect [OF assms(2), of p w] by (metis prod.collapse)
  have "p \<noteq> who" if "found = None" and "newRecord (en_now env) p = Inr rec" for rec
    using read_gone [OF assms] newRecord_id [OF that(2)] read that(1) by auto
  then show ?thesis using assms read gone_vault_append [OF assms, of PRINCIPAL_NS p]
    by (auto simp: ensurePrincipalRecord_def split_def split: option.splits sum.splits)
qed

lemma gone_check: "gone w who \<Longrightarrow> en_port env = port \<Longrightarrow> gone (snd (snd (law_check env payload meta (s, w)))) who"
  using gone_journal [of w who env]
  by (simp add: law_check_def Let_def split_def split: option.split)

lemma gone_consent:
  assumes "gone w who" and "en_port env = port"
  shows "gone (snd (snd (law_consent_grant env payload meta (s, w)))) who"
proof -
  have "gone (snd (snd (consent_row_half env i p (s', w)))) who" for i p s'
    using gone_ensure [OF assms] assms(1)
    by (auto simp: consent_row_half_def split_def split: option.split sum.splits)
  then show ?thesis using assms(1) gone_journal [OF _ assms(2)]
    by (auto simp: law_consent_grant_def consent_revoke_half_def Let_def split_def split: sum.splits)
qed

lemma gone_forbid: "gone w who \<Longrightarrow> en_port env = port \<Longrightarrow> gone (snd (snd (law_forbidden_set env payload meta (s, w)))) who"
  using gone_vault_append [of w who env FORBIDDEN_NS] gone_journal [of _ who env]
  by (auto simp: law_forbidden_set_def forbidden_persist_def FORBIDDEN_NS_def PRINCIPAL_NS_def Let_def split_def
      split: sum.splits)

lemma retire_gone:
  assumes "inv w" and "en_port env = port" and "principal_retire env payload meta (s, w) = (Inr rec, s', w')"
    and "\<not> clash w (principal_json rec)"
  shows "gone w' (str_of (jfield (asObj payload) ''principal'')) \<and>
    principalVaultId (str_of (jfield (asObj payload) ''principal'')) = Inr (str_of (jfield (asObj payload) ''principal''))"
proof -
  let ?p = "str_of (jfield (asObj payload) ''principal'')"
  obtain found where read: "readPrincipalRecord env ?p w = (found, w)"
    using read_effect [OF assms(2), of ?p w] by (metis prod.collapse)
  obtain old where old: "found = Some old" "retireRecord (en_now env) old = Inr rec"
    and run: "fst (vault_append env PRINCIPAL_NS ?p (principal_json rec) w) = Inr ()"
    and w': "\<exists>e s1. w' = snd (journal env e (s1, snd (vault_append env PRINCIPAL_NS ?p (principal_json rec) w)))"
    using assms(3) read
    by (auto simp: principal_retire_def Let_def split_def prod_eq_iff split: option.splits sum.splits if_splits)
  have "pr_principal old \<noteq> []"
    using read old(1) read_Some fromRecord_principal by metis
  with old(2) have rec: "pr_principal rec \<noteq> []" "pr_state rec = PRetired" by (auto simp: retireRecord_def split: if_splits)
  have w1: "snd (vault_append env PRINCIPAL_NS ?p (principal_json rec) w) = snd (port vault_append_op (append_payload PRINCIPAL_NS ?p (principal_json rec)) w)"
    and "\<exists>v a b. fst (port vault_append_op (append_payload PRINCIPAL_NS ?p (principal_json rec)) w) = Inr (POk v a b)"
    using run assms(2) by (auto simp: vault_append_def split: prod.splits sum.splits port_result.splits)
  then have "stored (snd (vault_append env PRINCIPAL_NS ?p (principal_json rec) w)) PRINCIPAL_NS ?p = Some (json_norm (principal_json rec))"
    using append_row [OF assms(1) _ assms(4)] by auto
  moreover have "inv (snd (vault_append env PRINCIPAL_NS ?p (principal_json rec) w))" using inv_kept [OF assms(1)] w1 by simp
  ultimately have "gone (snd (vault_append env PRINCIPAL_NS ?p (principal_json rec) w)) ?p"
    using principal_stored [OF rec(1)] rec(2) by (auto simp: gone_def)
  moreover have "principalVaultId ?p = Inr ?p"
    using read old(1) vault_id by (auto simp: readPrincipalRecord_def split: sum.splits)
  ultimately show ?thesis using w' gone_journal [OF _ assms(2)] by auto
qed

lemmas gone_handlers = gone_check gone_register gone_retire gone_get gone_consent gone_forbid

lemma gone_step: "gone (snd sw) who \<Longrightarrow> en_port (call_env x) = port \<Longrightarrow> gone (snd (law_step sw x)) who"
  by (cases sw; cases x) (simp_all add: gone_handlers)

lemma gone_run:
  "gone (snd sw) who \<Longrightarrow> list_all (\<lambda>x. en_port (call_env x) = port) xs \<Longrightarrow> gone (snd (foldl law_step sw xs)) who"
  by (induction xs arbitrary: sw) (simp_all add: gone_step)

lemma gone_refused:
  assumes "gone w who" and "en_port env = port" and "str_of (jfield (asObj payload) ''principal'') = who"
    and "principalVaultId who = Inr who" and "has_cap env ''port:vault.append@1''" and "has_cap env ''port:vault.get@1''"
  shows "principal_register env payload meta (s, w) = (Inl (PrincipalReused who), count_event s, w)"
proof -
  have "who \<noteq> []" using assms(4) by (auto simp: principalVaultId_def)
  then show ?thesis using read_gone [OF assms(1,2,4)] assms(3,5,6)
    by (auto simp: principal_register_def Let_def)
qed

end

section \<open>The delivered vault provides it\<close>

definition vault_port :: "vault_env \<Rightarrow> string \<Rightarrow> vault_plugin port" where
  "vault_port venv ca = (\<lambda>op x p. case vault_deliver venv ca op x p of (r, p') \<Rightarrow> (Inr r, p'))"

definition vault_inv :: "vault_env \<Rightarrow> vault_plugin \<Rightarrow> bool" where
  "vault_inv venv p \<longleftrightarrow> sha_hex (ve_crypto venv) \<and> plugin_ok (ve_crypto venv) p"

definition name_ok :: "string \<Rightarrow> bool" where
  "name_ok s \<longleftrightarrow> requireName [] [] (JStr s) = Inr s"

definition vault_stored :: "vault_plugin \<Rightarrow> string \<Rightarrow> string \<Rightarrow> json option" where
  "vault_stored p ns i =
     (if name_ok ns \<and> name_ok i then
        (case open_vault p of
           None \<Rightarrow> None
         | Some v \<Rightarrow> (case readObject v ns i None of Inl _ \<Rightarrow> None | Inr x \<Rightarrow> Some (or_data x)))
      else None)"

definition vault_clash :: "vault_env \<Rightarrow> vault_plugin \<Rightarrow> json \<Rightarrow> bool" where
  "vault_clash venv p d \<longleftrightarrow> (\<exists>v t t'. open_vault p = Some v \<and> canonicalJson d = Inr t \<and>
     map_get (v_cas v) (sha256Hex (ve_crypto venv) t) = Some t' \<and> t \<noteq> t')"

lemma requireName_ok: "requireName op fld (JStr s) = Inr s' \<longleftrightarrow> name_ok s \<and> s' = s"
  by (auto simp: name_ok_def requireName_def)

lemma vault_port_get:
  "vault_port venv ca vault_get_op x p = (Inr (shim_result (ve_error_text venv) vault_get_op (fst (vault_get_handler venv ca x p))), p)"
  by (simp add: vault_port_def vault_deliver_def vault_handlers_def vault_get_op_def vault_get_handler_def split_def Let_def)

lemma vault_port_journal: "snd (vault_port venv ca op_journal x p) = p"
  by (simp add: vault_port_def vault_deliver_def vault_handlers_def op_journal_def)

lemma vault_port_append:
  "vault_port venv ca vault_append_op x p =
     (Inr (shim_result (ve_error_text venv) vault_append_op (fst (vault_append_handler venv ca x p))), snd (vault_append_handler venv ca x p))"
  by (simp add: vault_port_def vault_deliver_def vault_handlers_def vault_append_op_def split_def)

lemma append_request_names:
  "append_request ca (append_payload ns i d) = Inr a \<Longrightarrow> name_ok ns \<and> name_ok i \<and> ai_ns a = ns \<and> ai_id a = i \<and> ai_data a = d"
  by (auto simp: append_request_def append_payload_def Let_def res_bind_Inr requireName_ok requireObject_def split: if_splits)

text \<open>The two outcomes of a delivered append, whatever the payload.\<close>

lemma append_handler_outcomes:
  assumes "vault_inv venv p"
  obtains (refused) e where "fst (vault_append_handler venv ca x p) = Inl e"
      and "open_vault (snd (vault_append_handler venv ca x p)) = open_vault p"
    | (written) f v a t b where "append_request ca x = Inr a" and "vp_open p = Some f" and "open_vault p = Some v"
      and "canonicalJson (ai_data a) = Inr t"
      and "vault_ok (ve_crypto venv) v" and "vault_ok (ve_crypto venv) (appended (ve_crypto venv) v a t b)"
      and "snd (vault_append_handler venv ca x p) = put_vault f (appended (ve_crypto venv) v a t b) p"
proof -
  let ?c = "ve_crypto venv" and ?q = "append_request ca x"
  have c: "sha_hex ?c" and ok: "plugin_ok ?c p" using assms by (simp_all add: vault_inv_def)
  have run: "writing p (res_bind ?q (\<lambda>a. Inr (\<lambda>v. case appendObject ?c v a of (r, v') \<Rightarrow> (res_bind r (\<lambda>x. Inr (append_reply x)), v')))) =
      (fst (vault_append_handler venv ca x p), snd (vault_append_handler venv ca x p))"
    by (simp add: vault_append_handler_def)
  show thesis
    using run
  proof (cases rule: writing_cases)
    case (thrown e)
    then show thesis by (intro refused) simp_all
  next
    case (ran f' d0 v')
    obtain a where a: "?q = Inr a"
      and f: "f' = (\<lambda>v. case appendObject ?c v a of (r, v') \<Rightarrow> (res_bind r (\<lambda>x. Inr (append_reply x)), v'))"
      using ran(1) by (auto simp: res_bind_Inr)
    let ?v = "dir_vault p d0"
    have v: "vault_ok ?c ?v" using ok by (simp add: plugin_ok_def)
    show thesis
    proof (cases "storable (ai_data a)")
      case True
      then have "input_ok a" using append_request_input [OF a] by (simp add: input_ok_def)
      then obtain t b where t: "canonicalJson (ai_data a) = Inr t" "vault_ok ?c (appended ?c ?v a t b)"
        "snd (appendObject ?c ?v a) = appended ?c ?v a t b"
        using appendObject_ok [OF c v] by (metis snd_conv)
      show thesis
        by (rule written [of a d0 ?v t b]) (use a t v ran(2,3,4) f in \<open>auto simp: open_vault_def split_def prod_eq_iff\<close>)
    next
      case False
      then have "appendObject ?c ?v a = (Inl Unencodable, ?v)" by (simp add: appendObject_unstorable)
      then have "fst (vault_append_handler venv ca x p) = Inl Unencodable"
        and "v' = ?v" using ran(3) f by (auto simp: res_bind_def)
      then show thesis using ran(2,4) by (intro refused) (simp_all add: open_vault_def put_vault_def dir_vault_def)
    qed
  qed
qed

lemma append_outcomes:
  assumes "vault_inv venv p"
  obtains (refused) e where "fst (vault_append_handler venv ca (append_payload ns i d) p) = Inl e"
      and "open_vault (snd (vault_append_handler venv ca (append_payload ns i d) p)) = open_vault p"
    | (written) f v a t b where "vp_open p = Some f" and "open_vault p = Some v" and "name_ok ns" and "name_ok i"
      and "ai_ns a = ns" and "ai_id a = i" and "ai_data a = d" and "canonicalJson d = Inr t"
      and "vault_ok (ve_crypto venv) v" and "vault_ok (ve_crypto venv) (appended (ve_crypto venv) v a t b)"
      and "snd (vault_append_handler venv ca (append_payload ns i d) p) = put_vault f (appended (ve_crypto venv) v a t b) p"
  using assms
proof (cases rule: append_handler_outcomes [where ca = ca and x = "append_payload ns i d"])
  case (written f v a t b)
  then show thesis using that(2) [of f v a t b] append_request_names [OF written(1)] by simp
qed (rule that(1))

interpretation law_rows: row_store "vault_port venv ca" "vault_inv venv" vault_stored "vault_clash venv" for venv ca
proof
  fix p op x
  assume "vault_inv venv p"
  then show "vault_inv venv (snd (vault_port venv ca op x p))"
    using deliver_keeps [of "ve_crypto venv" venv p ca op x] by (simp add: vault_inv_def vault_port_def split_def)
next
  fix p ns i d
  assume "vault_inv venv p" and st: "vault_stored p ns i = Some d"
  then obtain f x where n: "name_ok ns" "name_ok i" and f: "vp_open p = Some f"
    and x: "readObject (dir_vault p f) ns i None = Inr x" "or_data x = d"
    by (auto simp: vault_stored_def open_vault_def split: if_splits option.splits sum.splits)
  have "fst (vault_get_handler venv ca (get_payload ns i) p) = Inr (object_reply x)"
    using n f x
    by (simp add: vault_get_handler_def reading_def get_payload_def requireObject_def requireName_ok res_bind_def
        optionalInt_def mustOpen_def Let_def requireName_ok [THEN iffD2])
  then show "\<exists>v a b. fst (vault_port venv ca vault_get_op (get_payload ns i) p) = Inr (POk v a b) \<and> jfield (asObj v) ''data'' = d"
    using x(2) by (simp add: vault_port_get shim_result_def or_null_def object_reply_def jfield_def)
next
  fix p d and ns i ns' i' :: string
  assume inv: "vault_inv venv p" and ne: "(ns, i) \<noteq> (ns', i')"
  from inv show "vault_stored (snd (vault_port venv ca vault_append_op (append_payload ns' i' d) p)) ns i = vault_stored p ns i"
  proof (cases rule: append_outcomes [where ca = ca and ns = ns' and i = i' and d = d])
    case (refused e)
    then show ?thesis by (simp add: vault_port_append vault_stored_def)
  next
    case (written f v a t b)
    then have "readObject (appended (ve_crypto venv) v a t b) ns i None = readObject v ns i None"
      using ne by (intro appended_other) auto
    moreover have "open_vault (snd (vault_append_handler venv ca (append_payload ns' i' d) p)) = Some (appended (ve_crypto venv) v a t b)"
      using written(1,11) by (simp add: open_vault_def put_vault_def dir_vault_def)
    ultimately show ?thesis using written(2) by (simp add: vault_port_append vault_stored_def)
  qed
next
  fix p ns i d v0 a0 b0
  assume inv: "vault_inv venv p" and okr: "fst (vault_port venv ca vault_append_op (append_payload ns i d) p) = Inr (POk v0 a0 b0)"
    and nc: "\<not> vault_clash venv p d"
  from inv show "vault_stored (snd (vault_port venv ca vault_append_op (append_payload ns i d) p)) ns i = Some (json_norm d)"
  proof (cases rule: append_outcomes [where ca = ca and ns = ns and i = i and d = d])
    case (refused e)
    then show ?thesis using okr by (simp add: vault_port_append shim_result_def)
  next
    case (written f v a t b)
    have "sha_hex (ve_crypto venv)" using inv by (simp add: vault_inv_def)
    from appended_read [OF this written(9,10)] written(5,6,7,8) nc written(2)
    obtain x where "readObject (appended (ve_crypto venv) v a t b) ns i None = Inr x" and "or_data x = json_norm d"
      by (fastforce simp: vault_clash_def)
    moreover have "open_vault (snd (vault_append_handler venv ca (append_payload ns i d) p)) = Some (appended (ve_crypto venv) v a t b)"
      using written(1,11) by (simp add: open_vault_def put_vault_def dir_vault_def)
    ultimately show ?thesis using written(3,4) by (simp add: vault_port_append vault_stored_def)
  qed
qed (simp_all add: vault_port_get vault_port_journal)

section \<open>Properties\<close>


text \<open>A world to evaluate it in: a hash by length is enough to tell these texts apart.\<close>

definition len_hash :: "string \<Rightarrow> string" where
  "len_hash t = pad_zero 64 (take 64 (show_base 16 (length t)))"

definition len_env :: vault_env where
  "len_env = \<lparr>ve_crypto = toy_crypto\<lparr>cr_sha := len_hash\<rparr>, ve_now = 7, ve_fts = (\<lambda>_ _. None), ve_cwd = ''/srv'',
     ve_expand = (\<lambda>s. s), ve_error_text = (\<lambda>_. ''Error'')\<rparr>"

definition row_law_env :: "vault_plugin law_env" where
  "row_law_env = \<lparr>en_now = 5, en_ctx = Some \<lparr>cx_manifestId = ''vivim.law'', cx_capabilities =
      [''port:vault.append@1'', ''port:vault.get@1'']\<rparr>,
     en_port = vault_port len_env ''c_1'', en_parse = (\<lambda>_. None), en_file = (\<lambda>_. None)\<rparr>"

definition who_payload :: json where
  "who_payload = JObj [(''principal'', JStr ''user:u'')]"

definition row_meta :: call_meta where
  "row_meta = \<lparr>cm_from = ''root'', cm_causationId = ''c''\<rparr>"

definition registered_calls :: "vault_call list" where
  "registered_calls =
     [Init len_env (JObj [(''dataDir'', JStr ''/srv/a'')]),
      Deliver len_env ''c_0'' vault_append_op (append_payload PRINCIPAL_NS ''user:u'' (principal_json
        \<lparr>pr_principal = ''user:u'', pr_kind = ''user'', pr_registeredAt = 5, pr_state = PActive,
         pr_retiredAt = None, pr_generation = 1\<rparr>))]"

definition registered :: vault_plugin where
  "registered = plugin_run registered_calls"

definition retired_record :: principal_record where
  "retired_record = \<lparr>pr_principal = ''user:u'', pr_kind = ''user'', pr_registeredAt = 5, pr_state = PRetired,
     pr_retiredAt = Some 5, pr_generation = 2\<rparr>"

lemma len_env_hex: "sha_hex (ve_crypto len_env)"
proof -
  have "digit_val ch \<noteq> None" if "ch \<in> set (take 64 (show_base 16 n))" for ch n
    using show_base_digits [of 16 ch n] in_set_takeD [OF that] by auto
  moreover have "digit_val (CHR ''0'') \<noteq> None" by (simp add: digit_val_def)
  ultimately have "CID_RE (len_hash t)" for t
    by (auto simp: len_hash_def CID_RE_def length_pad_zero list_all_iff pad_zero_def)
  then show ?thesis by (simp add: sha_hex_def sha256Hex_def len_env_def)
qed

lemma registered_ok: "vault_inv len_env registered"
proof -
  have "list_all (call_crypto (ve_crypto len_env)) registered_calls" by (simp add: registered_calls_def)
  from plugin_run_ok [OF len_env_hex this] show ?thesis
    by (simp add: vault_inv_def len_env_hex registered_def)
qed


end
