(* ===== verification/Audit_Chain.thy ===== *)
theory Audit_Chain
  imports Canonical_Json Hash_Chain
begin

text \<open>
  The host's audit log (\<open>host/src/audit.ts\<close>): signed, hash-chained provenance of every graph
  mutation. It is one of the two instances of the locale \<open>hash_chain\<close>.
\<close>

record grant_payload =
  gp_from :: string
  gp_to :: string
  gp_capability :: string
  gp_seq :: nat
  gp_prevHash :: string

text \<open>\<open>sg_publicKey\<close> is the key the \<open>verify\<close> closure captured.\<close>

record signed_grant =
  sg_payload :: grant_payload
  sg_signature :: string
  sg_signerKeyId :: string
  sg_publicKey :: string

record audit_log =
  al_entries :: "signed_grant list"
  al_signerKeyId :: string
  al_privateKeyPem :: string
  al_publicKey :: string

definition GENESIS_PREV :: string where
  "GENESIS_PREV = replicate 64 (CHR ''0'')"

definition payload_json :: "grant_payload \<Rightarrow> json" where
  "payload_json p = JObj
     [(''from'', JStr (gp_from p)), (''to'', JStr (gp_to p)),
      (''capability'', JStr (gp_capability p)), (''seq'', JNum (int (gp_seq p))),
      (''prevHash'', JStr (gp_prevHash p))]"

definition payload_text :: "grant_payload \<Rightarrow> string" where
  "payload_text p = (case canonicalJson (payload_json p) of Inl _ \<Rightarrow> [] | Inr t \<Rightarrow> t)"

definition hashPayload :: "crypto \<Rightarrow> grant_payload \<Rightarrow> string" where
  "hashPayload c p = sha256Hex c (payload_text p)"

definition grant_verify :: "crypto \<Rightarrow> signed_grant \<Rightarrow> bool" where
  "grant_verify c g = verifyJson c (payload_json (sg_payload g)) (sg_publicKey g) (sg_signature g)"

definition new_log :: "string \<Rightarrow> string \<Rightarrow> string \<Rightarrow> audit_log" where
  "new_log keyId pem pub =
     \<lparr>al_entries = [], al_signerKeyId = keyId, al_privateKeyPem = pem, al_publicKey = pub\<rparr>"

definition headHash :: "crypto \<Rightarrow> audit_log \<Rightarrow> string" where
  "headHash c l =
     (if al_entries l = [] then GENESIS_PREV else hashPayload c (sg_payload (last (al_entries l))))"

text \<open>\<open>record\<close>: sign and chain one grant. The payload is always encodable, so \<open>signJson\<close> cannot
  throw here (\<open>payload_encodes\<close> below).\<close>

definition audit_record :: "crypto \<Rightarrow> audit_log \<Rightarrow> string \<Rightarrow> string \<Rightarrow> string \<Rightarrow> audit_log \<times> signed_grant" where
  "audit_record c l from to capability =
     (let payload = \<lparr>gp_from = from, gp_to = to, gp_capability = capability,
                     gp_seq = length (al_entries l), gp_prevHash = headHash c l\<rparr>;
          sig = cr_sign c (payload_text payload) (al_privateKeyPem l);
          g = \<lparr>sg_payload = payload, sg_signature = sig,
               sg_signerKeyId = al_signerKeyId l, sg_publicKey = al_publicKey l\<rparr>
      in (l\<lparr>al_entries := al_entries l @ [g]\<rparr>, g))"

fun verify_from :: "crypto \<Rightarrow> string \<Rightarrow> signed_grant list \<Rightarrow> bool" where
  "verify_from c expected [] = True"
| "verify_from c expected (e # es) =
     (if gp_prevHash (sg_payload e) \<noteq> expected \<or> \<not> grant_verify c e then False
      else verify_from c (hashPayload c (sg_payload e)) es)"

definition verifyChain :: "crypto \<Rightarrow> audit_log \<Rightarrow> bool" where
  "verifyChain c l = verify_from c GENESIS_PREV (al_entries l)"

record audit_export =
  ax_verified :: bool
  ax_signerKeyId :: string
  ax_publicKey :: string
  ax_length :: nat
  ax_headHash :: string
  ax_entries :: "(grant_payload \<times> string) list"

definition audit_export_of :: "crypto \<Rightarrow> audit_log \<Rightarrow> audit_export" where
  "audit_export_of c l =
     \<lparr>ax_verified = verifyChain c l, ax_signerKeyId = al_signerKeyId l,
      ax_publicKey = al_publicKey l, ax_length = length (al_entries l),
      ax_headHash = headHash c l,
      ax_entries = map (\<lambda>e. (sg_payload e, sg_signature e)) (al_entries l)\<rparr>"

section \<open>The log is a hash chain\<close>

lemma payload_encodes: "\<exists>t. canonicalJson (payload_json p) = Inr t \<and> payload_text p = t"
proof -
  have "storable (payload_json p)" by (simp add: payload_json_def)
  then obtain t where "canonicalJson (payload_json p) = Inr t" using canonical_total by blast
  then show ?thesis by (simp add: payload_text_def)
qed

lemma payload_norm:
  "json_norm (payload_json p) = JObj
     [(''capability'', JStr (gp_capability p)), (''from'', JStr (gp_from p)),
      (''prevHash'', JStr (gp_prevHash p)), (''seq'', JNum (int (gp_seq p))),
      (''to'', JStr (gp_to p))]"
  by (simp add: payload_json_def defined_fields_def less_list_code less_eq_list_code less_char_def)

lemma payload_text_inj: "payload_text p = payload_text q \<longleftrightarrow> p = q"
proof
  assume "payload_text p = payload_text q"
  then have "canonicalJson (payload_json p) = canonicalJson (payload_json q)"
    using payload_encodes by metis
  moreover have "storable (payload_json p)" by (simp add: payload_json_def)
  ultimately have "json_norm (payload_json p) = json_norm (payload_json q)"
    using canonical_eq_iff_norm by blast
  then show "p = q" by (simp add: payload_norm)
qed simp

lemma inj_payload_text: "inj payload_text"
  by (rule injI) (simp only: payload_text_inj)

interpretation audit: hash_chain "sha256Hex c" "\<lambda>e. payload_text (sg_payload e)"
  "\<lambda>e. gp_prevHash (sg_payload e)" "\<lambda>_ e. grant_verify c e" GENESIS_PREV "\<lambda>_. True" for c
  by unfold_locales (simp add: payload_text_inj)

lemma verify_from_walk: "verify_from c h es \<longleftrightarrow> audit.walk c n h es"
  by (induction es arbitrary: h n) (auto simp: hashPayload_def)

lemma headHash_head: "headHash c l = audit.head c GENESIS_PREV (al_entries l)"
  by (cases "al_entries l" rule: rev_cases) (simp_all add: headHash_def hashPayload_def)

lemma verifyChain_walk: "verifyChain c l \<longleftrightarrow> audit.walk c 0 GENESIS_PREV (al_entries l)"
  by (simp add: verifyChain_def verify_from_walk [where n = 0])

fun audit_records :: "crypto \<Rightarrow> audit_log \<Rightarrow> (string \<times> string \<times> string) list \<Rightarrow> audit_log" where
  "audit_records c l [] = l"
| "audit_records c l ((f, t, k) # gs) = audit_records c (fst (audit_record c l f t k)) gs"

lemma audit_record_keys [simp]:
  "al_publicKey (fst (audit_record c l f t k)) = al_publicKey l"
  "al_privateKeyPem (fst (audit_record c l f t k)) = al_privateKeyPem l"
  "al_signerKeyId (fst (audit_record c l f t k)) = al_signerKeyId l"
  by (simp_all add: audit_record_def Let_def)

lemma audit_record_grant_verify:
  assumes "keypair_ok c (al_privateKeyPem l) (al_publicKey l)"
  shows "grant_verify c (snd (audit_record c l f t k))"
proof -
  have "verifyJson c (payload_json q) pub (cr_sign c (payload_text q) pem)"
    if "keypair_ok c pem pub" for q pem pub
    using payload_encodes [of q] that by (auto simp: verifyJson_def keypair_ok_def)
  with assms show ?thesis by (simp add: audit_record_def grant_verify_def Let_def)
qed

lemma audit_record_chain:
  assumes "verifyChain c l" and "keypair_ok c (al_privateKeyPem l) (al_publicKey l)"
  shows "verifyChain c (fst (audit_record c l f t k))"
proof -
  have "fst (audit_record c l f t k) = l\<lparr>al_entries := al_entries l @ [snd (audit_record c l f t k)]\<rparr>"
    by (simp add: audit_record_def Let_def)
  moreover have "gp_prevHash (sg_payload (snd (audit_record c l f t k))) = headHash c l"
    by (simp add: audit_record_def Let_def)
  ultimately show ?thesis
    using assms audit_record_grant_verify [OF assms(2)]
    by (simp add: verifyChain_walk audit.walk_snoc headHash_head)
qed

lemma audit_records_chain:
  "verifyChain c l \<Longrightarrow> keypair_ok c (al_privateKeyPem l) (al_publicKey l) \<Longrightarrow>
    verifyChain c (audit_records c l gs)"
proof (induction gs arbitrary: l)
  case (Cons g gs)
  then show ?case by (cases g) (simp add: audit_record_chain)
qed simp

lemma audit_records_entries:
  "map (\<lambda>e. (gp_from (sg_payload e), gp_to (sg_payload e), gp_capability (sg_payload e), gp_seq (sg_payload e)))
      (al_entries (audit_records c l gs)) =
   map (\<lambda>e. (gp_from (sg_payload e), gp_to (sg_payload e), gp_capability (sg_payload e), gp_seq (sg_payload e)))
      (al_entries l) @
   map (\<lambda>(i, f, t, k). (f, t, k, i)) (enumerate (length (al_entries l)) gs)"
  by (induction gs arbitrary: l) (auto simp: audit_record_def Let_def)

lemma new_log_sel [simp]:
  "al_entries (new_log k pem pub) = []" "al_signerKeyId (new_log k pem pub) = k"
  "al_privateKeyPem (new_log k pem pub) = pem" "al_publicKey (new_log k pem pub) = pub"
  by (simp_all add: new_log_def)

lemma verifyChain_new [simp]: "verifyChain c (new_log k pem pub)"
  by (simp add: verifyChain_def)

section \<open>Properties\<close>

text \<open>Every log the host writes verifies, and holds one entry per recorded grant, in order,
  numbered from zero without a gap.\<close>

theorem audit_log_verifies:
  assumes "keypair_ok c pem pub"
  shows "verifyChain c (audit_records c (new_log keyId pem pub) gs) \<and>
    map (\<lambda>e. (gp_seq (sg_payload e), gp_from (sg_payload e), gp_to (sg_payload e), gp_capability (sg_payload e)))
      (al_entries (audit_records c (new_log keyId pem pub) gs)) = enumerate 0 gs"
proof
  show "verifyChain c (audit_records c (new_log keyId pem pub) gs)"
    using assms by (intro audit_records_chain) simp_all
  have "map (\<lambda>(f, t, k, i). (i, f, t, k))
      (map (\<lambda>e. (gp_from (sg_payload e), gp_to (sg_payload e), gp_capability (sg_payload e), gp_seq (sg_payload e)))
        (al_entries (audit_records c (new_log keyId pem pub) gs))) = enumerate 0 gs"
    unfolding audit_records_entries by (simp add: new_log_def comp_def split_def)
  then show "map (\<lambda>e. (gp_seq (sg_payload e), gp_from (sg_payload e), gp_to (sg_payload e), gp_capability (sg_payload e)))
      (al_entries (audit_records c (new_log keyId pem pub) gs)) = enumerate 0 gs"
    by (simp add: comp_def split_def)
qed

lemma audit_log_verifies_witness:
  "verifyChain toy_crypto (audit_records toy_crypto (new_log ''k'' ''s'' ''s'') [(''a'', ''b'', ''op@1'')])"
  using audit_log_verifies [OF toy_keypair [of "''s''"]] by blast

text \<open>(C32) Tamper evidence: two logs that both verify and report the same head hash hold
  the same payloads in the same order, unless two of their own entries collide (different texts,
  one hash) or one of them hashes to the genesis value. Nothing is assumed of the hash.\<close>

theorem audit_head_determines:
  assumes "verifyChain c l" and "verifyChain c l'" and "headHash c l = headHash c l'"
  shows "map sg_payload (al_entries l) = map sg_payload (al_entries l') \<or>
    (\<exists>e\<in>set (al_entries l). \<exists>f\<in>set (al_entries l').
       sg_payload e \<noteq> sg_payload f \<and> hashPayload c (sg_payload e) = hashPayload c (sg_payload f)) \<or>
    (\<exists>e\<in>set (al_entries l) \<union> set (al_entries l'). hashPayload c (sg_payload e) = GENESIS_PREV)"
proof -
  have "map (\<lambda>e. payload_text (sg_payload e)) (al_entries l) =
        map (\<lambda>e. payload_text (sg_payload e)) (al_entries l') \<or> audit.collision c (al_entries l) (al_entries l')"
    using assms unfolding verifyChain_walk headHash_head
    by (rule audit.head_determines) (simp_all add: list_all_iff)
  moreover have "map payload_text (map sg_payload (al_entries l)) =
      map payload_text (map sg_payload (al_entries l')) \<Longrightarrow>
      map sg_payload (al_entries l) = map sg_payload (al_entries l')"
    by (rule map_injective [OF _ inj_payload_text])
  ultimately show ?thesis
    by (auto simp: audit.collision_def comp_def payload_text_inj hashPayload_def)
qed

lemma audit_head_determines_witness:
  "map sg_payload (al_entries (audit_records toy_crypto (new_log ''k'' ''s'' ''s'') [(''a'', ''b'', ''op@1'')]))
    = map sg_payload (al_entries (audit_records toy_crypto (new_log ''j'' ''s'' ''s'') [(''a'', ''b'', ''op@1'')]))"
proof -
  let ?l = "\<lambda>k. audit_records toy_crypto (new_log k ''s'' ''s'') [(''a'', ''b'', ''op@1'')]"
  have v: "verifyChain toy_crypto (?l k)" for k
    by (intro audit_records_chain) (simp_all add: toy_keypair)
  have h: "headHash toy_crypto (?l ''k'') = headHash toy_crypto (?l ''j'')"
    by (simp add: audit_record_def Let_def new_log_def headHash_def)
  have a: "hashPayload toy_crypto p = hashPayload toy_crypto q \<longleftrightarrow> p = q" for p q
    by (simp add: hashPayload_def sha256Hex_def toy_crypto_def payload_text_inj)
  have b: "hashPayload toy_crypto p \<noteq> GENESIS_PREV" for p
    by (simp add: hashPayload_def sha256Hex_def toy_crypto_def GENESIS_PREV_def eval_nat_numeral)
  show ?thesis using audit_head_determines [OF v v h] unfolding a by (simp only: b bex_simps simp_thms) blast
qed

text \<open>Changing the payload of any entry but the last, the rest of the log as it was, makes
  \<open>verifyChain\<close> answer false, unless the new payload has the hash of the old one; and
  \<open>verifyChain\<close> alone accepts every truncation, which is why the export carries the length and the head.\<close>

theorem audit_tamper_evident:
  assumes "verifyChain c l" and "Suc i < length (al_entries l)"
    and "sg_payload g \<noteq> sg_payload (al_entries l ! i)"
  shows "(verifyChain c (l\<lparr>al_entries := (al_entries l)[i := g]\<rparr>) \<longrightarrow>
      hashPayload c (sg_payload g) = hashPayload c (sg_payload (al_entries l ! i))) \<and>
    verifyChain c (l\<lparr>al_entries := take n (al_entries l)\<rparr>)"
proof
  show "verifyChain c (l\<lparr>al_entries := (al_entries l)[i := g]\<rparr>) \<longrightarrow>
      hashPayload c (sg_payload g) = hashPayload c (sg_payload (al_entries l ! i))"
    using audit.tamper_seen [of c 0 GENESIS_PREV "al_entries l" i g] assms
    by (simp add: verifyChain_walk payload_text_inj hashPayload_def)
  show "verifyChain c (l\<lparr>al_entries := take n (al_entries l)\<rparr>)"
    using assms(1) by (simp add: verifyChain_walk audit.walk_take)
qed

lemma audit_tamper_evident_witness:
  "\<exists>l g. verifyChain toy_crypto l \<and> Suc 0 < length (al_entries l) \<and>
     \<not> verifyChain toy_crypto (l\<lparr>al_entries := (al_entries l)[0 := g]\<rparr>)"
proof -
  let ?l = "audit_records toy_crypto (new_log ''k'' ''s'' ''s'') [(''a'', ''b'', ''op@1''), (''a'', ''c'', ''op@1'')]"
  let ?g = "(al_entries ?l ! 0)\<lparr>sg_payload := \<lparr>gp_from = ''x'', gp_to = ''b'', gp_capability = ''op@1'', gp_seq = 0, gp_prevHash = GENESIS_PREV\<rparr>\<rparr>"
  have v: "verifyChain toy_crypto ?l"
    by (intro audit_records_chain) (simp_all add: toy_keypair)
  have len: "Suc 0 < length (al_entries ?l)"
    by (simp add: audit_record_def Let_def new_log_def)
  have "sg_payload ?g \<noteq> sg_payload (al_entries ?l ! 0)"
    by (simp add: audit_record_def Let_def new_log_def)
  then have "\<not> verifyChain toy_crypto (?l\<lparr>al_entries := (al_entries ?l)[0 := ?g]\<rparr>)"
    using audit_tamper_evident [OF v len] by (auto simp: hashPayload_def payload_text_inj sha256Hex_def toy_crypto_def)
  with v len show ?thesis by blast
qed

end
