(* ===== verification/Capability_Graph.thy ===== *)
theory Capability_Graph
  imports Audit_Chain Port_Contracts
begin

text \<open>
  The capability graph (\<open>host/src/graph.ts\<close>): nodes, the offer and hold indexes the dispatcher
  reads, the signed edges, and the breadth-first blast radius.
\<close>

datatype node_kind = Principal | Capability

datatype edge_kind = Offer | Hold

record graph_node =
  n_id :: string
  n_kind :: node_kind
  n_granularity :: "granularity option"
  n_extraction :: "bool option"

record edge =
  e_to :: string
  e_capability :: string
  e_kind :: edge_kind
  e_grant :: signed_grant

record graph =
  gr_nodes :: "(string, graph_node) jsmap"
  gr_offerors :: "(string, string list) jsmap"
  gr_holders :: "(string, string list) jsmap"
  gr_outgoing :: "(string, string list) jsmap"
  gr_edges :: "edge list"

datatype graph_error =
    UnknownPrincipal string
  | UnknownCapability string
  | UnverifiedGrant string string string
  | MissingIndex string

definition empty_graph :: graph where
  "empty_graph = \<lparr>gr_nodes = [], gr_offerors = [], gr_holders = [], gr_outgoing = [], gr_edges = []\<rparr>"

section \<open>Operations\<close>

definition ensure_set :: "string \<Rightarrow> (string, string list) jsmap \<Rightarrow> (string, string list) jsmap" where
  "ensure_set i m = (if map_has m i then m else map_set i [] m)"

definition upsertNode :: "graph \<Rightarrow> graph_node \<Rightarrow> graph" where
  "upsertNode g n =
     g\<lparr>gr_nodes := map_set (n_id n) n (gr_nodes g),
       gr_offerors := ensure_set (n_id n) (gr_offerors g),
       gr_holders := ensure_set (n_id n) (gr_holders g),
       gr_outgoing := ensure_set (n_id n) (gr_outgoing g)\<rparr>"

definition graph_node_of :: "graph \<Rightarrow> string \<Rightarrow> graph_node option" where
  "graph_node_of g i = map_get (gr_nodes g) i"

text \<open>\<open>m.get(k)!.add(x)\<close>; a missing key is the \<open>TypeError\<close> the \<open>!\<close> suppresses at compile time.\<close>

definition index_add :: "string \<Rightarrow> string \<Rightarrow> (string, string list) jsmap \<Rightarrow> graph_error + (string, string list) jsmap" where
  "index_add k x m = (case map_get m k of None \<Rightarrow> Inl (MissingIndex k) | Some s \<Rightarrow> Inr (map_set k (set_add x s) m))"

definition grant_edge :: "crypto \<Rightarrow> graph \<Rightarrow> string \<Rightarrow> string \<Rightarrow> string \<Rightarrow> signed_grant \<Rightarrow> edge_kind \<Rightarrow> graph_error + graph" where
  "grant_edge c g from to capability sg kind =
     (if \<not> map_has (gr_nodes g) from then Inl (UnknownPrincipal from)
      else if \<not> map_has (gr_nodes g) to then Inl (UnknownPrincipal to)
      else if \<not> map_has (gr_nodes g) capability then Inl (UnknownCapability capability)
      else if \<not> grant_verify c sg then Inl (UnverifiedGrant from to capability)
      else
        (let g1 = g\<lparr>gr_edges := gr_edges g @
               [\<lparr>e_to = to, e_capability = capability, e_kind = kind, e_grant = sg\<rparr>]\<rparr>
         in res_bind
              (if kind = Offer
               then res_bind (index_add capability to (gr_offerors g1)) (\<lambda>m. Inr (g1\<lparr>gr_offerors := m\<rparr>))
               else res_bind (index_add capability to (gr_holders g1)) (\<lambda>m. Inr (g1\<lparr>gr_holders := m\<rparr>)))
              (\<lambda>g2. res_bind (index_add to capability (gr_outgoing g2))
                 (\<lambda>m. Inr (g2\<lparr>gr_outgoing := m\<rparr>)))))"

definition set_of :: "(string, string list) jsmap \<Rightarrow> string \<Rightarrow> string list" where
  "set_of m k = (case map_get m k of None \<Rightarrow> [] | Some s \<Rightarrow> s)"

definition whoOffers :: "graph \<Rightarrow> string \<Rightarrow> string list" where
  "whoOffers g capability = set_of (gr_offerors g) capability"

definition whoHolds :: "graph \<Rightarrow> string \<Rightarrow> string list" where
  "whoHolds g capability = set_of (gr_holders g) capability"

definition fanIn :: "graph \<Rightarrow> string \<Rightarrow> nat" where
  "fanIn g i = length (set_of (gr_offerors g) i) + length (set_of (gr_holders g) i)"

definition neighbours :: "graph \<Rightarrow> string \<Rightarrow> string list" where
  "neighbours g i = set_of (gr_outgoing g) i @ set_of (gr_offerors g) i @ set_of (gr_holders g) i"

text \<open>Everything the walk can ever push: what the three indexes hold.\<close>

definition universe :: "graph \<Rightarrow> string set" where
  "universe g = (\<Union>s\<in>set (map snd (gr_outgoing g) @ map snd (gr_offerors g) @ map snd (gr_holders g)). set s)"

lemma set_of_mem: "x \<in> set (set_of m k) \<Longrightarrow> \<exists>s\<in>set (map snd m). x \<in> set s"
proof -
  assume x: "x \<in> set (set_of m k)"
  then obtain s where "map_get m k = Some s" and "x \<in> set s"
    by (cases "map_get m k") (auto simp: set_of_def)
  then have "s \<in> snd ` set m" by (metis map_of_SomeD rev_image_eqI snd_conv)
  with \<open>x \<in> set s\<close> show ?thesis by auto
qed

lemma neighbours_universe: "set (neighbours g i) \<subseteq> universe g"
  using set_of_mem by (fastforce simp: neighbours_def universe_def)

lemma finite_universe: "finite (universe g)"
  by (simp add: universe_def)

text \<open>The \<open>while\<close> loop of \<open>blastRadius\<close>: what shrinks is the part of the universe not yet seen,
  then the queue.\<close>

function bfs :: "graph \<Rightarrow> string list \<Rightarrow> string list \<Rightarrow> string list" where
  "bfs g seen [] = seen"
| "bfs g seen (next # queue) =
     (if next \<in> set seen then bfs g seen queue
      else bfs g (set_add next seen) (queue @ neighbours g next))"
  by pat_completeness auto
termination
proof (relation "measures [\<lambda>(g, seen, queue). card ((universe g \<union> set queue) - set seen),
    \<lambda>(g, seen, queue). length queue]", goal_cases)
  case 1
  then show ?case by simp
next
  case (2 g seen x queue)
  then have "(universe g \<union> set (x # queue)) - set seen = (universe g \<union> set queue) - set seen" by auto
  then show ?case by simp
next
  case (3 g seen x queue)
  have "(universe g \<union> set (queue @ neighbours g x)) - set (set_add x seen)
      \<subset> (universe g \<union> set (x # queue)) - set seen"
    using 3 neighbours_universe [of g x] by auto
  then have "card ((universe g \<union> set (queue @ neighbours g x)) - set (set_add x seen))
      < card ((universe g \<union> set (x # queue)) - set seen)"
    by (intro psubset_card_mono) (simp_all add: finite_universe)
  then show ?case by simp
qed

definition blastRadius :: "graph \<Rightarrow> string \<Rightarrow> nat" where
  "blastRadius g i =
     (if \<not> map_has (gr_nodes g) i then 0
      else length (set_del i (bfs g [i] (neighbours g i))))"

record graph_snapshot =
  sn_nodes :: "graph_node list"
  sn_edges :: "(string \<times> string \<times> edge_kind) list"

definition graph_snapshot_of :: "graph \<Rightarrow> graph_snapshot" where
  "graph_snapshot_of g =
     \<lparr>sn_nodes = map snd (gr_nodes g),
      sn_edges = map (\<lambda>e. (e_to e, e_capability e, e_kind e)) (gr_edges g)\<rparr>"

section \<open>The walk reaches exactly what the edges reach\<close>

inductive reaches :: "graph \<Rightarrow> string \<Rightarrow> string \<Rightarrow> bool" for g where
  reaches_refl: "reaches g x x"
| reaches_step: "reaches g x y \<Longrightarrow> z \<in> set (neighbours g y) \<Longrightarrow> reaches g x z"

lemma reaches_trans: "reaches g x y \<Longrightarrow> reaches g y z \<Longrightarrow> reaches g x z"
  by (rotate_tac 1, induction rule: reaches.induct) (auto intro: reaches.intros)

lemma bfs_sound:
  "\<forall>x\<in>set seen \<union> set queue. reaches g i x \<Longrightarrow> y \<in> set (bfs g seen queue) \<Longrightarrow> reaches g i y"
proof (induction g seen queue rule: bfs.induct)
  case (2 g seen x queue)
  then show ?case
    by (auto intro: reaches_step split: if_splits)
qed auto

lemma bfs_seen: "set seen \<subseteq> set (bfs g seen queue)"
  by (induction g seen queue rule: bfs.induct) auto

lemma bfs_queue: "set queue \<subseteq> set (bfs g seen queue)"
proof (induction g seen queue rule: bfs.induct)
  case (2 g seen x queue)
  then show ?case
    using bfs_seen [of seen g queue] bfs_seen [of "set_add x seen" g "queue @ neighbours g x"] by auto
qed auto

lemma bfs_closed:
  "\<forall>x\<in>set seen. set (neighbours g x) \<subseteq> set seen \<union> set queue \<Longrightarrow>
    x \<in> set (bfs g seen queue) \<Longrightarrow> set (neighbours g x) \<subseteq> set (bfs g seen queue)"
proof (induction g seen queue rule: bfs.induct)
  case (2 g seen n queue)
  show ?case
  proof (cases "n \<in> set seen")
    case True
    then have "\<forall>x\<in>set seen. set (neighbours g x) \<subseteq> set seen \<union> set queue"
      using "2.prems"(1) by auto
    then show ?thesis using 2 True by simp
  next
    case False
    have "\<forall>x\<in>set (set_add n seen). set (neighbours g x) \<subseteq>
        set (set_add n seen) \<union> set (queue @ neighbours g n)"
      using "2.prems"(1) by auto
    then show ?thesis using 2 False by simp
  qed
qed auto

lemma distinct_bfs: "distinct seen \<Longrightarrow> distinct (bfs g seen queue)"
  by (induction g seen queue rule: bfs.induct) auto

lemma bfs_reaches: "set (bfs g [i] (neighbours g i)) = {y. reaches g i y}"
proof
  show "set (bfs g [i] (neighbours g i)) \<subseteq> {y. reaches g i y}"
  proof -
    have "\<forall>x\<in>set [i] \<union> set (neighbours g i). reaches g i x"
      using reaches_refl [of g i] reaches_step [OF reaches_refl [of g i]] by simp
    then show ?thesis using bfs_sound [of "[i]" "neighbours g i" g i] by blast
  qed
  have "reaches g i y \<Longrightarrow> y \<in> set (bfs g [i] (neighbours g i))" for y
  proof (induction rule: reaches.induct)
    case (reaches_refl x)
    then show ?case using bfs_seen [of "[x]" g "neighbours g x"] by simp
  next
    case (reaches_step x y z)
    then show ?case using bfs_closed [of "[x]" g "neighbours g x" y] by auto
  qed
  then show "{y. reaches g i y} \<subseteq> set (bfs g [i] (neighbours g i))" by auto
qed

lemma blastRadius_card:
  assumes "map_has (gr_nodes g) i"
  shows "blastRadius g i = card ({y. reaches g i y} - {i})"
proof -
  have "distinct (set_del i (bfs g [i] (neighbours g i)))"
    by (simp add: distinct_bfs)
  then have "length (set_del i (bfs g [i] (neighbours g i))) = card ({y. reaches g i y} - {i})"
    using distinct_card bfs_reaches set_set_del by fastforce
  with assms show ?thesis by (simp add: blastRadius_def)
qed

section \<open>The invariant of the graph\<close>

definition edges_to :: "graph \<Rightarrow> edge_kind \<Rightarrow> string \<Rightarrow> string set" where
  "edges_to g k cap = {e_to e |e. e \<in> set (gr_edges g) \<and> e_capability e = cap \<and> e_kind e = k}"

definition edges_from :: "graph \<Rightarrow> string \<Rightarrow> string set" where
  "edges_from g x = {e_capability e |e. e \<in> set (gr_edges g) \<and> e_to e = x}"

lemma edges_to_filter:
  "edges_to g k cap = set (map e_to (filter (\<lambda>e. e_capability e = cap \<and> e_kind e = k) (gr_edges g)))"
  by (auto simp: edges_to_def)

lemma edges_from_filter:
  "edges_from g x = set (map e_capability (filter (\<lambda>e. e_to e = x) (gr_edges g)))"
  by (auto simp: edges_from_def)

text \<open>The indexes have a set for every node, the sets are what the edges say, and every edge has
  a grant that verifies.\<close>

definition indexed :: "graph \<Rightarrow> bool" where
  "indexed g \<longleftrightarrow> (\<forall>i. map_has (gr_nodes g) i \<longrightarrow>
     map_has (gr_offerors g) i \<and> map_has (gr_holders g) i \<and> map_has (gr_outgoing g) i)"

definition consistent :: "graph \<Rightarrow> bool" where
  "consistent g \<longleftrightarrow> (\<forall>k.
     set (set_of (gr_offerors g) k) = edges_to g Offer k \<and> distinct (set_of (gr_offerors g) k) \<and>
     set (set_of (gr_holders g) k) = edges_to g Hold k \<and> distinct (set_of (gr_holders g) k) \<and>
     set (set_of (gr_outgoing g) k) = edges_from g k)"

definition provenance :: "crypto \<Rightarrow> graph \<Rightarrow> bool" where
  "provenance c g \<longleftrightarrow> (\<forall>e. e \<in> set (gr_edges g) \<longrightarrow> grant_verify c (e_grant e) \<and>
     map_has (gr_nodes g) (e_to e) \<and> map_has (gr_nodes g) (e_capability e))"

definition graph_ok :: "crypto \<Rightarrow> graph \<Rightarrow> bool" where
  "graph_ok c g \<longleftrightarrow> indexed g \<and> consistent g \<and> provenance c g"

lemma set_of_set [simp]: "set_of (map_set k s m) k' = (if k' = k then s else set_of m k')"
  by (simp add: set_of_def)

lemma map_has_ensure [simp]: "map_has (ensure_set i m) j \<longleftrightarrow> j = i \<or> map_has m j"
  by (auto simp: ensure_set_def)

lemma set_of_ensure [simp]: "set_of (ensure_set i m) k = set_of m k"
  by (auto simp: ensure_set_def set_of_def)

lemma graph_ok_empty: "graph_ok c empty_graph"
  by (simp add: graph_ok_def indexed_def consistent_def provenance_def empty_graph_def set_of_def
      edges_to_def edges_from_def)

lemma edges_upsert [simp]:
  "edges_to (upsertNode g n) k cap = edges_to g k cap" "edges_from (upsertNode g n) x = edges_from g x"
  by (simp_all add: edges_to_def edges_from_def upsertNode_def)

lemma upsertNode_ok: "graph_ok c g \<Longrightarrow> graph_ok c (upsertNode g n)"
  unfolding graph_ok_def
proof (intro conjI; elim conjE)
  assume "indexed g"
  then show "indexed (upsertNode g n)"
    unfolding indexed_def by (simp add: upsertNode_def del: not_None_eq)
next
  assume "consistent g"
  then show "consistent (upsertNode g n)"
    unfolding consistent_def edges_upsert by (simp add: upsertNode_def)
next
  assume "provenance c g"
  then show "provenance c (upsertNode g n)"
    unfolding provenance_def by (simp add: upsertNode_def)
qed

text \<open>On an indexed graph the \<open>TypeError\<close> cannot happen; the new graph is the old one plus one
  edge in the list and in the two indexes.\<close>

lemma grant_edge_Inr:
  assumes "indexed g"
  shows "grant_edge c g from to cap sg kind = Inr g' \<longleftrightarrow>
    map_has (gr_nodes g) from \<and> map_has (gr_nodes g) to \<and> map_has (gr_nodes g) cap \<and> grant_verify c sg \<and>
    g' = g\<lparr>gr_edges := gr_edges g @ [\<lparr>e_to = to, e_capability = cap, e_kind = kind, e_grant = sg\<rparr>],
      gr_offerors := (if kind = Offer then map_set cap (set_add to (set_of (gr_offerors g) cap)) (gr_offerors g) else gr_offerors g),
      gr_holders := (if kind = Offer then gr_holders g else map_set cap (set_add to (set_of (gr_holders g) cap)) (gr_holders g)),
      gr_outgoing := map_set to (set_add cap (set_of (gr_outgoing g) to)) (gr_outgoing g)\<rparr>"
proof (cases "map_has (gr_nodes g) from \<and> map_has (gr_nodes g) to \<and> map_has (gr_nodes g) cap \<and> grant_verify c sg")
  case True
  with assms obtain a b d where "map_get (gr_offerors g) cap = Some a" "map_get (gr_holders g) cap = Some b"
    "map_get (gr_outgoing g) to = Some d"
    unfolding indexed_def by blast
  with True show ?thesis
    by (auto simp: grant_edge_def index_add_def res_bind_def set_of_def Let_def)
next
  case False
  then show ?thesis by (auto simp: grant_edge_def)
qed

lemma grant_edge_ok:
  assumes "graph_ok c g" and "grant_edge c g from to cap sg kind = Inr g'"
  shows "graph_ok c g'"
proof -
  have ix: "indexed g" and cs: "consistent g" and pv: "provenance c g"
    using assms(1) by (auto simp: graph_ok_def)
  let ?e = "\<lparr>e_to = to, e_capability = cap, e_kind = kind, e_grant = sg\<rparr>"
  have g': "g' = g\<lparr>gr_edges := gr_edges g @ [?e],
      gr_offerors := (if kind = Offer then map_set cap (set_add to (set_of (gr_offerors g) cap)) (gr_offerors g) else gr_offerors g),
      gr_holders := (if kind = Offer then gr_holders g else map_set cap (set_add to (set_of (gr_holders g) cap)) (gr_holders g)),
      gr_outgoing := map_set to (set_add cap (set_of (gr_outgoing g) to)) (gr_outgoing g)\<rparr>"
    and nodes: "map_has (gr_nodes g) to" "map_has (gr_nodes g) cap" "grant_verify c sg"
    using assms(2) unfolding grant_edge_Inr [OF ix] by auto
  have "indexed g'"
    using ix unfolding indexed_def g' by (cases kind) simp_all
  moreover have "edges_to g' k x = (if k = kind \<and> x = cap then insert to (edges_to g k x) else edges_to g k x)"
    and "edges_from g' x = (if x = to then insert cap (edges_from g x) else edges_from g x)" for k x
    unfolding g' edges_to_filter edges_from_filter by simp_all
  then have "consistent g'"
    using cs unfolding consistent_def by (cases kind) (simp_all add: g')
  moreover have "provenance c g'"
    using pv nodes unfolding provenance_def g' by auto
  ultimately show ?thesis by (simp add: graph_ok_def)
qed

section \<open>Runs\<close>

datatype graph_op =
    Upsert graph_node
  | Grant string string string signed_grant edge_kind

text \<open>A refused grant throws and leaves the graph as it was.\<close>

fun graph_step :: "crypto \<Rightarrow> graph \<Rightarrow> graph_op \<Rightarrow> graph" where
  "graph_step c g (Upsert n) = upsertNode g n"
| "graph_step c g (Grant f t cap sg k) =
     (case grant_edge c g f t cap sg k of Inl _ \<Rightarrow> g | Inr g' \<Rightarrow> g')"

definition graph_run :: "crypto \<Rightarrow> graph_op list \<Rightarrow> graph" where
  "graph_run c xs = foldl (graph_step c) empty_graph xs"

lemma graph_step_ok: "graph_ok c g \<Longrightarrow> graph_ok c (graph_step c g x)"
  by (cases x) (auto simp: upsertNode_ok grant_edge_ok split: sum.splits)

lemma graph_run_ok: "graph_ok c (graph_run c xs)"
proof -
  have "graph_ok c g \<Longrightarrow> graph_ok c (foldl (graph_step c) g xs)" for g
    by (induction xs arbitrary: g) (auto intro: graph_step_ok)
  then show ?thesis by (simp add: graph_run_def graph_ok_empty)
qed

section \<open>Properties\<close>

text \<open>No capability without provenance: in every graph any sequence of operations builds,
  the routed implementations and the holders of a capability are exactly the targets of its
  edges, listed once each, and the grant of every edge verifies.\<close>

theorem graph_provenance:
  "set (whoOffers (graph_run c xs) cap) = edges_to (graph_run c xs) Offer cap \<and>
   set (whoHolds (graph_run c xs) cap) = edges_to (graph_run c xs) Hold cap \<and>
   distinct (whoOffers (graph_run c xs) cap) \<and> distinct (whoHolds (graph_run c xs) cap) \<and>
   filter (\<lambda>e. \<not> grant_verify c (e_grant e)) (gr_edges (graph_run c xs)) = []"
  using graph_run_ok [of c xs]
  by (auto simp: graph_ok_def consistent_def provenance_def whoOffers_def whoHolds_def filter_empty_conv)

text \<open>(C40) The blast radius of a node is the number of other nodes reachable from it over the
  grant edges, walked in both directions; the walk always ends.\<close>

theorem blastRadius_reachable:
  assumes "g = graph_run c xs" and "map_has (gr_nodes g) i"
  shows "blastRadius g i = card ({y. reaches g i y} - {i}) \<and>
    (y \<in> set (neighbours g x) \<longleftrightarrow>
       (\<exists>e. e \<in> set (gr_edges g) \<and>
          (e_to e = x \<and> e_capability e = y \<or> e_capability e = x \<and> e_to e = y)))"
proof
  show "blastRadius g i = card ({y. reaches g i y} - {i})"
    by (rule blastRadius_card [OF assms(2)])
  have "consistent g" using graph_run_ok [of c xs] by (simp add: assms(1) graph_ok_def)
  then have "set (neighbours g x) = edges_from g x \<union> edges_to g Offer x \<union> edges_to g Hold x"
    by (auto simp: neighbours_def consistent_def)
  moreover have "edges_to g Offer x \<union> edges_to g Hold x = {e_to e |e. e \<in> set (gr_edges g) \<and> e_capability e = x}"
    unfolding edges_to_def using edge_kind.exhaust by blast
  ultimately have "set (neighbours g x) = edges_from g x \<union> {e_to e |e. e \<in> set (gr_edges g) \<and> e_capability e = x}"
    by (simp only: Un_assoc)
  then show "y \<in> set (neighbours g x) \<longleftrightarrow>
       (\<exists>e. e \<in> set (gr_edges g) \<and>
          (e_to e = x \<and> e_capability e = y \<or> e_capability e = x \<and> e_to e = y))"
    by (auto simp: edges_from_def)
qed

lemma blastRadius_reachable_witness:
  "blastRadius (graph_run toy_crypto [Upsert \<lparr>n_id = ''a'', n_kind = Principal, n_granularity = None, n_extraction = None\<rparr>]) ''a''
    = card ({y. reaches (graph_run toy_crypto [Upsert \<lparr>n_id = ''a'', n_kind = Principal, n_granularity = None, n_extraction = None\<rparr>]) ''a'' y} - {''a''})"
  using blastRadius_reachable [OF refl, of toy_crypto
      "[Upsert \<lparr>n_id = ''a'', n_kind = Principal, n_granularity = None, n_extraction = None\<rparr>]" "''a''"]
  by (simp add: graph_run_def upsertNode_def)

end
