(* ===== verification/State_Arbiter.thy ===== *)
theory State_Arbiter
  imports Omega_Prelude
begin

text \<open>
  State arbitration (\<open>host/src/state.ts\<close>): the one lock table of the host. The interface a client
  may rely on is the locale \<open>lock_table\<close>; the model of \<open>StateArbitrator\<close> interprets it.
\<close>

datatype lock_mode = Shared | Exclusive

text \<open>Two requests fit together when both are shared.\<close>

definition compatible :: "('p \<times> lock_mode) list \<Rightarrow> lock_mode \<Rightarrow> bool" where
  "compatible hs m \<longleftrightarrow> (if m = Exclusive then hs = [] else \<forall>h\<in>set hs. snd h = Shared)"

definition exclusive_alone :: "('p \<times> lock_mode) list \<Rightarrow> bool" where
  "exclusive_alone hs \<longleftrightarrow> (\<forall>h\<in>set hs. snd h = Exclusive \<longrightarrow> hs = [h])"

datatype ('k, 'p) lock_op = Acquire 'k 'p lock_mode | Release 'k 'p

section \<open>The interface\<close>

locale lock_table =
  fixes holds :: "'s \<Rightarrow> 'k \<Rightarrow> ('p \<times> lock_mode) list"
    and acquire :: "'s \<Rightarrow> 'k \<Rightarrow> 'p \<Rightarrow> lock_mode \<Rightarrow> 's option"
    and release :: "'s \<Rightarrow> 'k \<Rightarrow> 'p \<Rightarrow> 's"
  assumes acquire_iff: "acquire s k p m \<noteq> None \<longleftrightarrow> compatible (holds s k) m"
    and acquire_adds: "acquire s k p m = Some s' \<Longrightarrow> holds s' = (holds s)(k := holds s k @ [(p, m)])"
    and release_drops: "holds (release s k p) = (holds s)(k := filter (\<lambda>h. fst h \<noteq> p) (holds s k))"
begin

fun step :: "'s \<Rightarrow> ('k, 'p) lock_op \<Rightarrow> 's" where
  "step s (Acquire k p m) = (case acquire s k p m of None \<Rightarrow> s | Some s' \<Rightarrow> s')"
| "step s (Release k p) = release s k p"

definition safe :: "'s \<Rightarrow> bool" where
  "safe s \<longleftrightarrow> (\<forall>k. exclusive_alone (holds s k))"

lemma safe_step:
  assumes "safe s"
  shows "safe (step s x)"
proof (cases x)
  case (Acquire k p m)
  show ?thesis
  proof (cases "acquire s k p m")
    case None
    with Acquire assms show ?thesis by simp
  next
    case (Some s')
    then have "compatible (holds s k) m" using acquire_iff by blast
    then have "exclusive_alone (holds s k @ [(p, m)])"
      by (cases m) (auto simp: compatible_def exclusive_alone_def)
    with assms acquire_adds [OF Some] show ?thesis
      by (simp add: Acquire Some safe_def)
  qed
next
  case (Release k p)
  have "exclusive_alone (filter (\<lambda>h. fst h \<noteq> p) hs)" if "exclusive_alone hs" for hs
    using that unfolding exclusive_alone_def by fastforce
  with assms show ?thesis by (simp add: Release safe_def release_drops)
qed

lemma safe_run: "safe s \<Longrightarrow> safe (foldl step s xs)"
  by (induction xs arbitrary: s) (auto intro: safe_step)

lemma released: "fst h = p \<Longrightarrow> h \<notin> set (holds (release s k p) k)"
  by (simp add: release_drops)

lemma exclusive_release_frees:
  assumes "safe s" and "(p, Exclusive) \<in> set (holds s k)"
  shows "acquire (release s k p) k q m \<noteq> None"
proof -
  from assms have "holds s k = [(p, Exclusive)]"
    unfolding safe_def exclusive_alone_def by (metis snd_conv)
  then have "compatible (holds (release s k p) k) m"
    by (simp add: release_drops compatible_def)
  then show ?thesis using acquire_iff by blast
qed

lemma exclusive_blocks:
  assumes "(p, Exclusive) \<in> set (holds s k)"
  shows "acquire s k q m = None"
  using assms acquire_iff [of s k q m] by (cases m) (auto simp: compatible_def)

end

section \<open>\<open>StateArbitrator\<close>\<close>

record holder =
  h_who :: string
  h_mode :: lock_mode

type_synonym arbiter = "(string, holder list) jsmap"

definition mode_text :: "lock_mode \<Rightarrow> string" where
  "mode_text m = (case m of Shared \<Rightarrow> ''shared'' | Exclusive \<Rightarrow> ''exclusive'')"

definition quoted :: "string \<Rightarrow> string" where
  "quoted s = [CHR 0x27] @ s @ [CHR 0x27]"

definition holdersOf :: "arbiter \<Rightarrow> string \<Rightarrow> holder list" where
  "holdersOf a key = (case map_get a key of None \<Rightarrow> [] | Some hs \<Rightarrow> hs)"

text \<open>\<open>Inl\<close> is \<open>{ok: false, error}\<close>, \<open>Inr\<close> the table after \<open>{ok: true}\<close>.\<close>

definition tryAcquire :: "arbiter \<Rightarrow> string \<Rightarrow> string \<Rightarrow> lock_mode \<Rightarrow> string + arbiter" where
  "tryAcquire a key who mode =
     (let holders = holdersOf a key;
          conflict = (\<exists>h\<in>set holders. h_mode h = Exclusive) \<or> (mode = Exclusive \<and> length holders > 0)
      in if conflict then
           Inl (''state key '' @ quoted key @ '' held ('' @
                join_with '', '' (map (\<lambda>h. h_who h @ ''/'' @ mode_text (h_mode h)) holders) @
                ''); '' @ quoted who @ '' must wait'')
         else Inr (map_set key (holders @ [\<lparr>h_who = who, h_mode = mode\<rparr>]) a))"

definition release :: "arbiter \<Rightarrow> string \<Rightarrow> string \<Rightarrow> arbiter" where
  "release a key who =
     (case map_get a key of
        None \<Rightarrow> a
      | Some holders \<Rightarrow> map_set key (filter (\<lambda>h. h_who h \<noteq> who) holders) a)"

text \<open>The interface's view of the table.\<close>

definition arb_holds :: "arbiter \<Rightarrow> string \<Rightarrow> (string \<times> lock_mode) list" where
  "arb_holds a key = map (\<lambda>h. (h_who h, h_mode h)) (holdersOf a key)"

definition arb_acquire :: "arbiter \<Rightarrow> string \<Rightarrow> string \<Rightarrow> lock_mode \<Rightarrow> arbiter option" where
  "arb_acquire a key who mode = (case tryAcquire a key who mode of Inl _ \<Rightarrow> None | Inr a' \<Rightarrow> Some a')"

lemma lock_mode_not [simp]: "m \<noteq> Exclusive \<longleftrightarrow> m = Shared" "m \<noteq> Shared \<longleftrightarrow> m = Exclusive"
  by (cases m; simp)+

interpretation arb: lock_table arb_holds arb_acquire release
proof
  fix s k p m s'
  show "arb_acquire s k p m \<noteq> None \<longleftrightarrow> compatible (arb_holds s k) m"
    by (auto simp: arb_acquire_def tryAcquire_def compatible_def arb_holds_def Let_def)
  show "arb_acquire s k p m = Some s' \<Longrightarrow>
      arb_holds s' = (arb_holds s)(k := arb_holds s k @ [(p, m)])"
    by (auto simp: arb_acquire_def tryAcquire_def arb_holds_def holdersOf_def Let_def fun_eq_iff
        split: if_splits)
  show "arb_holds (release s k p) = (arb_holds s)(k := filter (\<lambda>h. fst h \<noteq> p) (arb_holds s k))"
    by (auto simp: release_def arb_holds_def holdersOf_def fun_eq_iff filter_map comp_def
        split: option.splits)
qed

section \<open>Runs\<close>

text \<open>One call of the arbiter: a refused acquisition leaves the table as it was.\<close>

fun arb_step :: "arbiter \<Rightarrow> (string, string) lock_op \<Rightarrow> arbiter" where
  "arb_step a (Acquire k p m) = (case tryAcquire a k p m of Inl _ \<Rightarrow> a | Inr a' \<Rightarrow> a')"
| "arb_step a (Release k p) = release a k p"

definition arb_run :: "arbiter \<Rightarrow> (string, string) lock_op list \<Rightarrow> arbiter" where
  "arb_run a xs = foldl arb_step a xs"

lemma arb_step_eq: "arb_step a x = arb.step a x"
  by (cases x) (auto simp: arb_acquire_def split: sum.splits)

lemma arb_run_eq: "arb_run a xs = foldl arb.step a xs"
proof -
  have "arb_step = arb.step" by (intro ext) (rule arb_step_eq)
  then show ?thesis by (simp add: arb_run_def)
qed

lemma arb_safe_run: "arb.safe (arb_run [] xs)"
  unfolding arb_run_eq
  by (rule arb.safe_run) (simp add: arb.safe_def arb_holds_def holdersOf_def exclusive_alone_def)

section \<open>Properties\<close>

text \<open>Mutual exclusion: after any sequence of acquisitions and releases by any principals,
  a key with an exclusive holder has that one holder and no other.\<close>

theorem arbiter_mutual_exclusion:
  assumes "h \<in> set (holdersOf (arb_run [] xs) key)" and "h_mode h = Exclusive"
  shows "holdersOf (arb_run [] xs) key = [h]"
proof -
  have "exclusive_alone (arb_holds (arb_run [] xs) key)"
    using arb_safe_run arb.safe_def by blast
  moreover have "(h_who h, Exclusive) \<in> set (arb_holds (arb_run [] xs) key)"
    using assms by (force simp: arb_holds_def)
  ultimately have "arb_holds (arb_run [] xs) key = [(h_who h, Exclusive)]"
    by (auto simp: exclusive_alone_def)
  with assms(1) show ?thesis
    by (auto simp: arb_holds_def)
qed

lemma arbiter_mutual_exclusion_witness:
  "holdersOf (arb_run [] [Acquire ''k'' ''a'' Exclusive, Acquire ''k'' ''b'' Shared]) ''k''
     = [\<lparr>h_who = ''a'', h_mode = Exclusive\<rparr>]"
  by (rule arbiter_mutual_exclusion) (simp_all add: arb_run_def tryAcquire_def holdersOf_def)

text \<open>Fail-closed and live: a request is refused exactly when it conflicts, a refused
  request changes nothing, and once the exclusive holder of a reachable table releases, the next
  request of any principal succeeds.\<close>

theorem arbiter_acquire_release:
  assumes "a = arb_run [] xs" and "h \<in> set (holdersOf a key)" and "h_mode h = Exclusive"
  shows "arb_step a (Acquire key q m) = a \<and>
    (\<exists>a'. tryAcquire (release a key (h_who h)) key q m = Inr a' \<and>
          \<lparr>h_who = q, h_mode = m\<rparr> \<in> set (holdersOf a' key))"
proof -
  have h: "(h_who h, Exclusive) \<in> set (arb_holds a key)"
    using assms by (force simp: arb_holds_def)
  have "arb_step a (Acquire key q m) = a"
    using arb.exclusive_blocks [OF h, of q m] by (auto simp: arb_acquire_def split: sum.splits)
  moreover have "arb_acquire (release a key (h_who h)) key q m \<noteq> None"
    using arb.exclusive_release_frees [OF _ h, of q m] arb_safe_run assms(1) by blast
  then obtain a' where a': "tryAcquire (release a key (h_who h)) key q m = Inr a'"
    by (auto simp: arb_acquire_def split: sum.splits)
  moreover from a' have "\<lparr>h_who = q, h_mode = m\<rparr> \<in> set (holdersOf a' key)"
    by (auto simp: tryAcquire_def holdersOf_def Let_def split: if_splits)
  ultimately show ?thesis by blast
qed

lemma arbiter_acquire_release_witness:
  "arb_step (arb_run [] [Acquire ''k'' ''a'' Exclusive]) (Acquire ''k'' ''b'' Shared)
     = arb_run [] [Acquire ''k'' ''a'' Exclusive]"
  using arbiter_acquire_release [OF refl, of "\<lparr>h_who = ''a'', h_mode = Exclusive\<rparr>"
      "[Acquire ''k'' ''a'' Exclusive]" "''k''" "''b''" Shared]
  by (simp add: arb_run_def tryAcquire_def holdersOf_def)

end
