(* ===== verification/Tool_Registry.thy ===== *)
theory Tool_Registry
  imports Omega_Prelude
begin

text \<open>
  Versioned tool contracts (\<open>host/src/contract.ts\<close>): the append-only registry of generations and
  the newest-match resolution with the range grammar \<open>*\<close>, \<open>1.x\<close> and exact versions.
\<close>

record generation_pin =
  pin_version :: string
  pin_impl :: string

type_synonym tool_registry = "(string, generation_pin list) jsmap"

definition matchesRange :: "string \<Rightarrow> string \<Rightarrow> bool" where
  "matchesRange version rng =
     (if rng = ''*'' \<or> rng = '''' \<or> rng = ''latest'' then True
      else if ends_with rng ''.x'' then
        hd (split_on (CHR ''.'') version) = take (length rng - 2) rng
      else version = rng)"

definition generations :: "tool_registry \<Rightarrow> string \<Rightarrow> generation_pin list" where
  "generations t name = (case map_get t name of None \<Rightarrow> [] | Some l \<Rightarrow> l)"

definition publish :: "tool_registry \<Rightarrow> string \<Rightarrow> string \<Rightarrow> string \<Rightarrow> tool_registry" where
  "publish t name version impl =
     map_set name (generations t name @ [\<lparr>pin_version = version, pin_impl = impl\<rparr>]) t"

text \<open>The loop of \<open>resolve\<close>, from the newest generation down.\<close>

fun resolve_from :: "generation_pin list \<Rightarrow> string \<Rightarrow> nat \<Rightarrow> generation_pin option" where
  "resolve_from l rng 0 = None"
| "resolve_from l rng (Suc i) =
     (if matchesRange (pin_version (l ! i)) rng then Some (l ! i) else resolve_from l rng i)"

definition resolve :: "tool_registry \<Rightarrow> string \<Rightarrow> string \<Rightarrow> generation_pin option" where
  "resolve t name rng =
     (case map_get t name of
        None \<Rightarrow> None
      | Some l \<Rightarrow> resolve_from l rng (length l))"

definition latest :: "tool_registry \<Rightarrow> string \<Rightarrow> generation_pin option" where
  "latest t name =
     (case map_get t name of
        None \<Rightarrow> None
      | Some l \<Rightarrow> if l = [] then None else Some (l ! (length l - 1)))"

definition generationCount :: "tool_registry \<Rightarrow> string \<Rightarrow> nat" where
  "generationCount t name = (case map_get t name of None \<Rightarrow> 0 | Some l \<Rightarrow> length l)"

section \<open>Lemmas\<close>

lemma generations_publish [simp]:
  "generations (publish t n v i) m =
     (if m = n then generations t n @ [\<lparr>pin_version = v, pin_impl = i\<rparr>] else generations t m)"
  by (simp add: publish_def generations_def)

lemma resolve_from_Some:
  "resolve_from l rng k = Some g \<longleftrightarrow>
     (\<exists>i<k. g = l ! i \<and> matchesRange (pin_version g) rng \<and>
        (\<forall>j. i < j \<and> j < k \<longrightarrow> \<not> matchesRange (pin_version (l ! j)) rng))"
proof (induction k)
  case (Suc k)
  show ?case
  proof (cases "matchesRange (pin_version (l ! k)) rng")
    case True
    then show ?thesis by (auto simp: less_Suc_eq)
  next
    case False
    then have "(\<exists>i<Suc k. g = l ! i \<and> matchesRange (pin_version g) rng \<and>
          (\<forall>j. i < j \<and> j < Suc k \<longrightarrow> \<not> matchesRange (pin_version (l ! j)) rng)) \<longleftrightarrow>
        (\<exists>i<k. g = l ! i \<and> matchesRange (pin_version g) rng \<and>
          (\<forall>j. i < j \<and> j < k \<longrightarrow> \<not> matchesRange (pin_version (l ! j)) rng))"
      by (metis less_Suc_eq)
    with False Suc.IH show ?thesis by simp
  qed
qed simp

lemma resolve_from_append: "k \<le> length l \<Longrightarrow> resolve_from (l @ m) rng k = resolve_from l rng k"
  by (induction k) (auto simp: nth_append)

lemma resolve_generations: "resolve t n r = resolve_from (generations t n) r (length (generations t n))"
  by (simp add: resolve_def generations_def split: option.split)

lemma resolve_publish:
  "resolve (publish t n v i) m r =
     (if m = n \<and> matchesRange v r then Some \<lparr>pin_version = v, pin_impl = i\<rparr> else resolve t m r)"
  by (simp add: resolve_generations resolve_from_append)

text \<open>A range \<open>M.x\<close> matches the versions whose major component is \<open>M\<close>.\<close>

lemma matchesRange_major:
  assumes "CHR ''.'' \<notin> set major"
  shows "matchesRange v (major @ ''.x'') \<longleftrightarrow> v = major \<or> (\<exists>rest. v = major @ CHR ''.'' # rest)"
proof -
  have "major @ ''.x'' \<noteq> ''*''" "major @ ''.x'' \<noteq> ''latest''"
    using ends_with_iff [of _ "''.x''"] by (auto simp: append_eq_Cons_conv)
  then have *: "matchesRange v (major @ ''.x'') \<longleftrightarrow> hd (split_on (CHR ''.'') v) = major"
    by (simp add: matchesRange_def ends_with_def)
  show ?thesis
  proof
    assume m: "matchesRange v (major @ ''.x'')"
    with * have hd: "hd (split_on (CHR ''.'') v) = major" by simp
    obtain ys where ys: "split_on (CHR ''.'') v = major # ys"
      using hd by (cases "split_on (CHR ''.'') v") auto
    then have "v = join_with ''.'' (major # ys)"
      using join_split [of "CHR ''.''" v] by simp
    then show "v = major \<or> (\<exists>rest. v = major @ CHR ''.'' # rest)"
      by (cases ys) auto
  next
    assume "v = major \<or> (\<exists>rest. v = major @ CHR ''.'' # rest)"
    then show "matchesRange v (major @ ''.x'')"
      unfolding * using assms by (auto simp: split_on_clean split_on_append)
  qed
qed

section \<open>Properties\<close>

text \<open>Resolution returns the newest generation in rng: the pin is one that was published,
  it matches, and everything published after it does not; nothing is returned exactly when no
  generation matches.\<close>

theorem resolve_newest:
  "resolve t name rng = Some g \<longleftrightarrow>
     (\<exists>older newer. generations t name = older @ [g] @ newer \<and> matchesRange (pin_version g) rng \<and>
        filter (\<lambda>h. matchesRange (pin_version h) rng) newer = [])"
proof -
  let ?l = "generations t name"
  have "resolve t name rng = Some g \<longleftrightarrow>
     (\<exists>i<length ?l. g = ?l ! i \<and> matchesRange (pin_version g) rng \<and>
        (\<forall>j. i < j \<and> j < length ?l \<longrightarrow> \<not> matchesRange (pin_version (?l ! j)) rng))" (is "?L \<longleftrightarrow> ?R")
    by (simp add: resolve_generations resolve_from_Some)
  also have "?R \<longleftrightarrow> (\<exists>older newer. ?l = older @ [g] @ newer \<and> matchesRange (pin_version g) rng \<and>
        filter (\<lambda>h. matchesRange (pin_version h) rng) newer = [])"
  proof
    assume ?R
    then obtain i where i: "i < length ?l" "g = ?l ! i" "matchesRange (pin_version g) rng"
      and later: "\<And>j. i < j \<Longrightarrow> j < length ?l \<Longrightarrow> \<not> matchesRange (pin_version (?l ! j)) rng" by blast
    have "?l = take i ?l @ [g] @ drop (Suc i) ?l"
      using i by (simp add: id_take_nth_drop)
    moreover have "filter (\<lambda>h. matchesRange (pin_version h) rng) (drop (Suc i) ?l) = []"
      using later by (auto simp: filter_empty_conv in_set_conv_nth)
    ultimately show "\<exists>older newer. ?l = older @ [g] @ newer \<and> matchesRange (pin_version g) rng \<and>
        filter (\<lambda>h. matchesRange (pin_version h) rng) newer = []" using i(3) by blast
  next
    assume "\<exists>older newer. ?l = older @ [g] @ newer \<and> matchesRange (pin_version g) rng \<and>
        filter (\<lambda>h. matchesRange (pin_version h) rng) newer = []"
    then obtain older newer where l: "?l = older @ [g] @ newer" and m: "matchesRange (pin_version g) rng"
      and n: "\<And>h. h \<in> set newer \<Longrightarrow> \<not> matchesRange (pin_version h) rng"
      by (auto simp: filter_empty_conv)
    have "\<not> matchesRange (pin_version (?l ! j)) rng" if "length older < j" "j < length ?l" for j
      using that n [of "newer ! (j - Suc (length older))"] by (simp add: l nth_append)
    with l m show ?R by (intro exI [of _ "length older"]) auto
  qed
  finally show ?thesis .
qed

text \<open>Publishing is append-only: it moves only the callers whose range the new version
  satisfies, of that tool; every other resolution, and every earlier generation, stays.\<close>

theorem publish_append_only:
  "resolve (publish t n v i) m r =
      (if m = n \<and> matchesRange v r then Some \<lparr>pin_version = v, pin_impl = i\<rparr> else resolve t m r) \<and>
   take (generationCount t m) (generations (publish t n v i) m) = generations t m \<and>
   latest (publish t n v i) n = Some \<lparr>pin_version = v, pin_impl = i\<rparr>"
proof -
  have "generationCount t m = length (generations t m)"
    by (simp add: generationCount_def generations_def split: option.split)
  moreover have "latest (publish t n v i) n = Some \<lparr>pin_version = v, pin_impl = i\<rparr>"
    by (simp add: latest_def publish_def nth_append)
  ultimately show ?thesis by (simp add: resolve_publish)
qed

end
