(* ===== verification/Genesis_Kernel.thy ===== *)
theory Genesis_Kernel
  imports Capability_Graph State_Arbiter Tool_Registry
begin

text \<open>
  The closed bootstrap (\<open>host/src/genesis.ts\<close>): five fixed nodes, two self-referential grants, and
  the kernel record (graph, audit chain, arbiter, generation registry) the router carries.
\<close>

definition SCHEMA :: string where "SCHEMA = ''genesis:schema''"
definition KERNEL :: string where "KERNEL = ''genesis:kernel''"
definition EVERYONE :: string where "EVERYONE = ''genesis:everyone''"
definition STATE_ARBITRATOR :: string where "STATE_ARBITRATOR = ''core:state-arbitrator''"
definition CAP_SELF_DESCRIBE :: string where "CAP_SELF_DESCRIBE = ''cap:self-describe''"

lemmas genesis_ids = SCHEMA_def KERNEL_def EVERYONE_def STATE_ARBITRATOR_def CAP_SELF_DESCRIBE_def

record kernel =
  k_graph :: graph
  k_audit :: audit_log
  k_state :: arbiter
  k_tools :: tool_registry

text \<open>The nodes in the order they are written; a field the source leaves out is \<open>None\<close>.\<close>

definition plain_node :: "string \<Rightarrow> node_kind \<Rightarrow> graph_node" where
  "plain_node i k = \<lparr>n_id = i, n_kind = k, n_granularity = None, n_extraction = None\<rparr>"

definition genesis_nodes :: "graph_node list" where
  "genesis_nodes =
     [plain_node SCHEMA Capability,
      (plain_node KERNEL Principal)\<lparr>n_granularity := Some Atomic\<rparr>,
      plain_node EVERYONE Principal,
      (plain_node STATE_ARBITRATOR Principal)\<lparr>n_granularity := Some Atomic, n_extraction := Some False\<rparr>,
      plain_node CAP_SELF_DESCRIBE Capability]"

text \<open>One recorded grant: sign it into the chain, then add the edge (the graph refuses a grant
  that does not verify).\<close>

definition record_and_grant ::
    "crypto \<Rightarrow> graph \<times> audit_log \<Rightarrow> string \<Rightarrow> string \<Rightarrow> string \<Rightarrow> edge_kind \<Rightarrow> graph_error + graph \<times> audit_log" where
  "record_and_grant c s from to capability kind =
     (let (log, sg) = audit_record c (snd s) from to capability
      in res_bind (grant_edge c (fst s) from to capability sg kind) (\<lambda>g. Inr (g, log)))"

definition bootstrapKernel :: "crypto \<Rightarrow> string \<Rightarrow> string \<Rightarrow> string \<Rightarrow> graph_error + kernel" where
  "bootstrapKernel c keyId pem pub =
     res_bind (record_and_grant c (foldl upsertNode empty_graph genesis_nodes, new_log keyId pem pub)
                 KERNEL KERNEL CAP_SELF_DESCRIBE Hold)
       (\<lambda>s. res_bind (record_and_grant c s KERNEL SCHEMA CAP_SELF_DESCRIBE Hold)
         (\<lambda>(g, log). Inr \<lparr>k_graph = g, k_audit = log, k_state = [], k_tools = []\<rparr>))"

section \<open>Graph and chain together\<close>

text \<open>The invariant of the pair: the graph is sound, the chain verifies, and every edge's grant is
  an entry of the chain that names the edge's target and capability.\<close>

definition recorded :: "graph \<times> audit_log \<Rightarrow> bool" where
  "recorded s \<longleftrightarrow> (\<forall>e. e \<in> set (gr_edges (fst s)) \<longrightarrow> e_grant e \<in> set (al_entries (snd s)) \<and>
     gp_to (sg_payload (e_grant e)) = e_to e \<and> gp_capability (sg_payload (e_grant e)) = e_capability e)"

definition chain_ok :: "crypto \<Rightarrow> graph \<times> audit_log \<Rightarrow> bool" where
  "chain_ok c s \<longleftrightarrow> graph_ok c (fst s) \<and> verifyChain c (snd s) \<and> recorded s \<and>
     keypair_ok c (al_privateKeyPem (snd s)) (al_publicKey (snd s))"

lemma record_and_grant_Inr:
  assumes "chain_ok c s"
    and "map_has (gr_nodes (fst s)) f" and "map_has (gr_nodes (fst s)) t" and "map_has (gr_nodes (fst s)) k"
  shows "\<exists>g log. record_and_grant c s f t k kind = Inr (g, log)"
proof -
  have "grant_verify c (snd (audit_record c (snd s) f t k))"
    using assms(1) by (simp add: chain_ok_def audit_record_grant_verify)
  then have "\<exists>g. grant_edge c (fst s) f t k (snd (audit_record c (snd s) f t k)) kind = Inr g"
    using assms by (subst grant_edge_Inr) (auto simp: chain_ok_def graph_ok_def)
  then show ?thesis by (auto simp: record_and_grant_def res_bind_def split_def Let_def)
qed

lemma record_and_grant_step:
  assumes "record_and_grant c s f t k kind = Inr s'" and "indexed (fst s)"
  shows "snd s' = fst (audit_record c (snd s) f t k)"
    and "gr_nodes (fst s') = gr_nodes (fst s)"
    and "gr_edges (fst s') = gr_edges (fst s) @
      [\<lparr>e_to = t, e_capability = k, e_kind = kind, e_grant = snd (audit_record c (snd s) f t k)\<rparr>]"
proof -
  obtain g where s': "s' = (g, fst (audit_record c (snd s) f t k))"
    and g: "grant_edge c (fst s) f t k (snd (audit_record c (snd s) f t k)) kind = Inr g"
    using assms(1) by (auto simp: record_and_grant_def res_bind_def split_def Let_def split: sum.splits)
  note g = g [unfolded grant_edge_Inr [OF assms(2)]]
  show "snd s' = fst (audit_record c (snd s) f t k)" by (simp add: s')
  show "gr_nodes (fst s') = gr_nodes (fst s)" using g by (simp add: s')
  show "gr_edges (fst s') = gr_edges (fst s) @
      [\<lparr>e_to = t, e_capability = k, e_kind = kind, e_grant = snd (audit_record c (snd s) f t k)\<rparr>]"
    using g by (simp add: s')
qed

lemma record_and_grant_ok:
  assumes "chain_ok c s" and "record_and_grant c s f t k kind = Inr s'"
  shows "chain_ok c s'"
proof -
  have ix: "indexed (fst s)" using assms(1) by (simp add: chain_ok_def graph_ok_def)
  note st = record_and_grant_step [OF assms(2) ix]
  have "\<exists>g. grant_edge c (fst s) f t k (snd (audit_record c (snd s) f t k)) kind = Inr g \<and> fst s' = g"
    using assms(2) by (auto simp: record_and_grant_def res_bind_def split_def Let_def split: sum.splits)
  then have "graph_ok c (fst s')" using grant_edge_ok assms(1) by (auto simp: chain_ok_def)
  moreover have "recorded s'"
    using assms(1) unfolding recorded_def st chain_ok_def
    by (auto simp: audit_record_def Let_def)
  ultimately show ?thesis
    using assms(1) by (simp add: chain_ok_def st audit_record_chain)
qed

lemma graph_ok_nodes: "graph_ok c g \<Longrightarrow> graph_ok c (foldl upsertNode g ns)"
  by (induction ns arbitrary: g) (simp_all add: upsertNode_ok)

lemma chain_ok_start:
  "keypair_ok c pem pub \<Longrightarrow> chain_ok c (foldl upsertNode empty_graph ns, new_log k pem pub)"
proof -
  have "gr_edges (foldl upsertNode g ns) = gr_edges g" for g
    by (induction ns arbitrary: g) (simp_all add: upsertNode_def)
  then have "recorded (foldl upsertNode empty_graph ns, new_log k pem pub)"
    by (simp add: recorded_def empty_graph_def)
  moreover assume "keypair_ok c pem pub"
  ultimately show ?thesis
    by (simp add: chain_ok_def graph_ok_nodes graph_ok_empty)
qed

section \<open>Properties\<close>

text \<open>With a key pair that works the bootstrap returns a kernel: exactly the five fixed nodes,
  the two closing edges held by the kernel and the schema, an empty arbiter and registry, a chain
  of two entries that verifies, and every edge recorded in it.\<close>

theorem bootstrap_kernel:
  assumes "keypair_ok c pem pub"
  shows "\<exists>k. bootstrapKernel c keyId pem pub = Inr k \<and>
    map_keys (gr_nodes (k_graph k)) = [SCHEMA, KERNEL, EVERYONE, STATE_ARBITRATOR, CAP_SELF_DESCRIBE] \<and>
    map (\<lambda>e. (e_to e, e_capability e, e_kind e)) (gr_edges (k_graph k)) =
      [(KERNEL, CAP_SELF_DESCRIBE, Hold), (SCHEMA, CAP_SELF_DESCRIBE, Hold)] \<and>
    map e_grant (gr_edges (k_graph k)) = al_entries (k_audit k) \<and>
    k_state k = [] \<and> k_tools k = [] \<and> chain_ok c (k_graph k, k_audit k)"
proof -
  let ?s = "(foldl upsertNode empty_graph genesis_nodes, new_log keyId pem pub)"
  have s: "chain_ok c ?s" using assms by (rule chain_ok_start)
  have nodes: "map_keys (gr_nodes (fst ?s)) = [SCHEMA, KERNEL, EVERYONE, STATE_ARBITRATOR, CAP_SELF_DESCRIBE]"
    and edges: "gr_edges (fst ?s) = []"
    by (simp_all add: genesis_nodes_def upsertNode_def empty_graph_def plain_node_def genesis_ids)
  have hK: "map_has (gr_nodes (fst ?s)) KERNEL" and hS: "map_has (gr_nodes (fst ?s)) SCHEMA"
    and hC: "map_has (gr_nodes (fst ?s)) CAP_SELF_DESCRIBE"
    unfolding map_has_keys nodes by auto
  obtain s1 where s1: "record_and_grant c ?s KERNEL KERNEL CAP_SELF_DESCRIBE Hold = Inr s1"
    using record_and_grant_Inr [OF s hK hK hC] by blast
  note ok1 = record_and_grant_ok [OF s s1]
  have ix: "indexed (fst ?s)" "indexed (fst s1)"
    using s ok1 unfolding chain_ok_def graph_ok_def by blast+
  note st1 = record_and_grant_step [OF s1 ix(1)]
  obtain g log where s2: "record_and_grant c s1 KERNEL SCHEMA CAP_SELF_DESCRIBE Hold = Inr (g, log)"
    using record_and_grant_Inr [OF ok1, unfolded st1, OF hK hS hC] by blast
  note ok2 = record_and_grant_ok [OF ok1 s2] and st2 = record_and_grant_step [OF s2 ix(2)]
  have "bootstrapKernel c keyId pem pub =
      Inr \<lparr>k_graph = g, k_audit = log, k_state = [], k_tools = []\<rparr>"
    using s1 s2 by (simp add: bootstrapKernel_def res_bind_def)
  moreover have "map e_grant (gr_edges g) = al_entries log"
    using st1 st2 edges by (simp add: audit_record_def Let_def)
  ultimately show ?thesis
    using ok2 st1 st2 nodes edges by simp
qed

lemma bootstrap_kernel_witness:
  "\<exists>k. bootstrapKernel toy_crypto ''k'' ''s'' ''s'' = Inr k"
  using bootstrap_kernel [OF toy_keypair [of "''s''"], of "''k''"] by blast

end
