(* ===== verification/Port_Router.thy ===== *)
theory Port_Router
  imports Genesis_Kernel
begin

text \<open>
  The port router (\<open>host/src/ports.ts\<close>) and the state of the compartment handles it drives
  (\<open>host/src/worker.ts\<close>): tokens, the routing tables, the kernel graph, the gate, the delivery queue,
  lazy spawns, host ops and crashes.

  The router is event driven. What runs between two awaits of the source is one step here; what an
  await holds is a continuation: a call stopped at the gate, at the spawn of its target, or at its
  delivery. Resolving a promise queues its continuation in \<open>rt_ready\<close>, and a step takes the first one
  from the queue; any other event may come between. The calls that wait for a spawn go on in the step
  that wakes them, where the source takes a few more turns of the event loop. The steps record what
  leaves the router in \<open>rt_out\<close>: messages to workers, answers, journal entries, and a call whose
  handler threw (\<open>Unhandled\<close>). Random tokens, the clock, the workers and the writing of the journal
  file are outside.
\<close>

section \<open>State\<close>

datatype compartment_state = Booting | Running | Unwell | Stopped

record handle =
  h_state :: compartment_state
  h_delivered :: nat
  h_calls :: nat
  h_errors :: nat
  h_crashes :: nat
  h_bootedAt :: int
  h_lastError :: "string option"

record token_record =
  tr_token :: string
  tr_pluginId :: string
  tr_cap :: string
  tr_gen :: nat
  tr_revoked :: bool

record dormant_entry =
  do_entry :: composition_entry
  do_manifest :: manifest
  do_tokens :: "(string, string) jsmap"

text \<open>Where the answer of a call goes: the worker that asked, under its own call id, or the root caller.\<close>

datatype sink = ToWorker string string | ToRoot

text \<open>The locals of one \<open>dispatch\<close>.\<close>

record call_ctx =
  cc_causation :: string
  cc_who :: string
  cc_op :: string
  cc_impl :: string
  cc_payload :: json
  cc_deadline :: int
  cc_stream :: bool
  cc_sink :: sink

datatype kont = AtGate call_ctx | AtTarget call_ctx

fun kont_ctx :: "kont \<Rightarrow> call_ctx" where
  "kont_ctx (AtGate cc) = cc"
| "kont_ctx (AtTarget cc) = cc"

record deliver_msg =
  dm_causation :: string
  dm_op :: string
  dm_payload :: json
  dm_deadline :: int
  dm_from :: string

record queued =
  q_msg :: deliver_msg
  q_stream :: bool
  q_kont :: kont
  q_priority :: port_priority
  q_at :: int

record pending_call =
  pc_target :: string
  pc_kont :: kont
  pc_msg :: deliver_msg
  pc_stream :: bool

datatype waiter = BootWaiter | SpawnWaiter

datatype effect =
    PostDeliver string deliver_msg
  | PostResult string string port_result
  | PostInit string
  | RootResult string port_result
  | RelayChunk string stream_chunk
  | GateLine string string law_action json "json option" string
  | JournalLine json
  | Terminate string bool
  | Woken string bool
  | Unhandled sink

record router =
  rt_compartments :: "(string, handle) jsmap"
  rt_manifests :: "(string, manifest) jsmap"
  rt_opRoute :: "(string, string) jsmap"
  rt_opRisk :: "(string, risk_class) jsmap"
  rt_opPriority :: "(string, port_priority) jsmap"
  rt_tokens :: "(string, token_record) jsmap"
  rt_generation :: nat
  rt_callSeq :: nat
  rt_pending :: "(string, pending_call) jsmap"
  rt_inflight :: "(string, string list) jsmap"
  rt_waiting :: "(string, queued list) jsmap"
  rt_dormant :: "(string, dormant_entry) jsmap"
  rt_spawning :: "(string, call_ctx list) jsmap"
  rt_waiters :: "(string, waiter list) jsmap"
  rt_kernel :: "kernel option"
  rt_graphSeen :: "string list"
  rt_ready :: "(kont \<times> port_result) list"
  rt_out :: "effect list"

definition new_router :: "kernel option \<Rightarrow> router" where
  "new_router k = \<lparr>rt_compartments = [], rt_manifests = [], rt_opRoute = [], rt_opRisk = [], rt_opPriority = [],
     rt_tokens = [], rt_generation = 1, rt_callSeq = 0, rt_pending = [], rt_inflight = [], rt_waiting = [],
     rt_dormant = [], rt_spawning = [], rt_waiters = [], rt_kernel = k, rt_graphSeen = [], rt_ready = [], rt_out = []\<rparr>"

definition emit :: "effect \<Rightarrow> router \<Rightarrow> router" where
  "emit e s = s\<lparr>rt_out := rt_out s @ [e]\<rparr>"

definition resolve_kont :: "kont \<Rightarrow> port_result \<Rightarrow> router \<Rightarrow> router" where
  "resolve_kont k r s = s\<lparr>rt_ready := rt_ready s @ [(k, r)]\<rparr>"

definition list_of :: "(string, 'a list) jsmap \<Rightarrow> string \<Rightarrow> 'a list" where
  "list_of m k = (case map_get m k of None \<Rightarrow> [] | Some l \<Rightarrow> l)"

section \<open>Tokens\<close>

text \<open>\<open>key.slice("port:".length)\<close> when the key starts with it.\<close>

definition port_alias :: "string \<Rightarrow> string option" where
  "port_alias key = (if starts_with key ''port:'' then Some (drop 5 key) else None)"

definition effectiveCap :: "string \<Rightarrow> string" where
  "effectiveCap key =
     (case port_alias key of
        None \<Rightarrow> key
      | Some op \<Rightarrow> (case map_get HOST_OP_TO_CAP op of None \<Rightarrow> key | Some c \<Rightarrow> c))"

definition installTokens :: "string \<Rightarrow> (string, string) jsmap \<Rightarrow> router \<Rightarrow> router" where
  "installTokens pid tokens s =
     fold (\<lambda>(key, tok) s1.
         if map_has (rt_tokens s1) tok then s1
         else s1\<lparr>rt_tokens := map_set tok
                \<lparr>tr_token = tok, tr_pluginId = pid, tr_cap = effectiveCap key, tr_gen = rt_generation s1, tr_revoked = False\<rparr>
                (rt_tokens s1)\<rparr>)
       tokens s"

text \<open>\<open>fresh i\<close> is the token of the \<open>i\<close>-th call of \<open>mintToken\<close>.\<close>

definition mintTokensFor :: "(nat \<Rightarrow> string) \<Rightarrow> composition_entry \<Rightarrow> (string, string) jsmap" where
  "mintTokensFor fresh entry =
     fold (\<lambda>(i, cap) tokens.
         fold (\<lambda>(op, capName) ts. if capName = cap then map_set (''port:'' @ op) (fresh i) ts else ts)
           HOST_OP_TO_CAP (map_set cap (fresh i) tokens))
       (enumerate 0 (g_capabilities (ce_grant entry))) []"

definition isHostOp :: "string \<Rightarrow> bool" where
  "isHostOp op \<longleftrightarrow> op \<in> set HOST_OPS"

definition hostCapFor :: "string \<Rightarrow> string" where
  "hostCapFor op = (case map_get HOST_OP_TO_CAP op of None \<Rightarrow> [] | Some c \<Rightarrow> c)"

definition checkToken :: "router \<Rightarrow> string \<Rightarrow> string \<Rightarrow> string \<Rightarrow> port_result option" where
  "checkToken s pid tok op =
     (case map_get (rt_tokens s) tok of
        None \<Rightarrow> Some (err_detail REFUSED ''unknown capability token'')
      | Some rec \<Rightarrow>
          if tr_pluginId rec \<noteq> pid then Some (err_detail REFUSED ''token not issued to this compartment'')
          else if tr_revoked rec then Some (err_detail REVOKED ''token revoked'')
          else if tr_gen rec < rt_generation s then
            Some (err_detail REVOKED (''generation '' @ show_nat (tr_gen rec) @ '' revoked (current '' @
              show_nat (rt_generation s) @ '')''))
          else if isHostOp op then
            (if tr_cap rec \<noteq> hostCapFor op
             then Some (err_detail SCOPE (''op '' @ op @ '' requires '' @ hostCapFor op)) else None)
          else if tr_cap rec \<noteq> ''port:'' @ op
          then Some (err_detail SCOPE (''op '' @ op @ '' requires capability port:'' @ op))
          else None)"

section \<open>Registration\<close>

definition opName :: "string \<Rightarrow> string" where
  "opName op = (case last_index (CHR ''@'') op of Some n \<Rightarrow> if n > 0 then take n op else op | None \<Rightarrow> op)"

definition opVersion :: "string \<Rightarrow> string" where
  "opVersion op = (case last_index (CHR ''@'') op of Some n \<Rightarrow> if n > 0 then drop (n + 1) op else ''1'' | None \<Rightarrow> ''1'')"

fun res_fold :: "('a \<Rightarrow> 's \<Rightarrow> 'e + 's) \<Rightarrow> 'a list \<Rightarrow> 's \<Rightarrow> 'e + 's" where
  "res_fold f [] s = Inr s"
| "res_fold f (x # xs) s = res_bind (f x s) (res_fold f xs)"

text \<open>One loop body each of \<open>registerGraph\<close>: an offered contract and a held capability.\<close>

definition kernel_grant :: "crypto \<Rightarrow> string \<Rightarrow> string \<Rightarrow> edge_kind \<Rightarrow> kernel \<Rightarrow> graph_error + kernel" where
  "kernel_grant c i capability kind k =
     res_bind (record_and_grant c (k_graph k, k_audit k) i i capability kind) (\<lambda>(g, log).
       Inr (k\<lparr>k_graph := g, k_audit := log\<rparr>))"

definition offer_op :: "crypto \<Rightarrow> string \<Rightarrow> string \<Rightarrow> kernel \<Rightarrow> graph_error + kernel" where
  "offer_op c i op k =
     res_bind (kernel_grant c i op Offer (k\<lparr>k_graph := upsertNode (k_graph k) (plain_node op Capability)\<rparr>)) (\<lambda>k1.
       Inr (k1\<lparr>k_tools := publish (k_tools k1) (opName op) (opVersion op) i\<rparr>))"

definition hold_cap :: "crypto \<Rightarrow> string \<Rightarrow> string \<Rightarrow> kernel \<Rightarrow> graph_error + kernel" where
  "hold_cap c i cap k =
     (let held = (case port_alias cap of None \<Rightarrow> cap | Some op \<Rightarrow> op);
          g = (if graph_node_of (k_graph k) held = None then upsertNode (k_graph k) (plain_node held Capability) else k_graph k)
      in kernel_grant c i held Hold (k\<lparr>k_graph := g\<rparr>))"

definition registerGraph :: "crypto \<Rightarrow> composition_entry \<Rightarrow> manifest \<Rightarrow> router \<Rightarrow> graph_error + router" where
  "registerGraph c entry m s =
     (case rt_kernel s of
        None \<Rightarrow> Inr s
      | Some k \<Rightarrow>
          if ce_id entry \<in> set (rt_graphSeen s) then Inr s
          else
            (let node = \<lparr>n_id = ce_id entry, n_kind = Principal,
                         n_granularity = Some (case m_granularity m of None \<Rightarrow> Atomic | Some g \<Rightarrow> g),
                         n_extraction = m_extractionCandidate m\<rparr>;
                 k0 = k\<lparr>k_graph := upsertNode (k_graph k) node\<rparr>
             in res_bind (res_fold (offer_op c (ce_id entry)) (g_contracts (ce_grant entry)) k0) (\<lambda>k1.
                res_bind (res_fold (hold_cap c (ce_id entry)) (g_capabilities (ce_grant entry)) k1) (\<lambda>k2.
                  Inr (s\<lparr>rt_kernel := Some k2, rt_graphSeen := set_add (ce_id entry) (rt_graphSeen s)\<rparr>)))))"

text \<open>The part the two registrations share.\<close>

definition install_entry :: "composition_entry \<Rightarrow> manifest \<Rightarrow> router \<Rightarrow> router" where
  "install_entry entry m s =
     s\<lparr>rt_manifests := map_set (ce_id entry) m (rt_manifests s),
       rt_opRoute := fold (\<lambda>op r. map_set op (ce_id entry) r) (g_contracts (ce_grant entry)) (rt_opRoute s),
       rt_opRisk := fold (\<lambda>(op, risk) r. map_set op risk r) (riskyOps m) (rt_opRisk s),
       rt_opPriority := fold (\<lambda>x r. map_set (op_ref x) (case c_priority x of None \<Rightarrow> Normal | Some p \<Rightarrow> p) r)
         (contributions_of m KContract) (rt_opPriority s)\<rparr>"

definition new_handle :: "int \<Rightarrow> handle" where
  "new_handle now = \<lparr>h_state = Booting, h_delivered = 0, h_calls = 0, h_errors = 0, h_crashes = 0,
     h_bootedAt = now, h_lastError = None\<rparr>"

definition register :: "crypto \<Rightarrow> int \<Rightarrow> composition_entry \<Rightarrow> manifest \<Rightarrow> (string, string) jsmap \<Rightarrow> router \<Rightarrow> graph_error + router" where
  "register c now entry m tokens s =
     res_bind (registerGraph c entry m
         (install_entry entry m (s\<lparr>rt_compartments := map_set (ce_id entry) (new_handle now) (rt_compartments s)\<rparr>)))
       (\<lambda>s1. Inr (installTokens (ce_id entry) tokens s1))"

definition registerDormant :: "crypto \<Rightarrow> composition_entry \<Rightarrow> manifest \<Rightarrow> (string, string) jsmap \<Rightarrow> router \<Rightarrow> graph_error + router" where
  "registerDormant c entry m tokens s =
     res_bind (registerGraph c entry m (install_entry entry m s)) (\<lambda>s1.
       let s2 = installTokens (ce_id entry) tokens s1 in
       Inr (s2\<lparr>rt_dormant := map_set (ce_id entry) \<lparr>do_entry = entry, do_manifest = m, do_tokens = tokens\<rparr> (rt_dormant s2)\<rparr>))"

section \<open>Resolution\<close>

definition strip_contract :: "string \<Rightarrow> string" where
  "strip_contract r = (if starts_with r ''contract:'' then drop 9 r else r)"

definition names_op :: "string \<Rightarrow> dependency_ref \<Rightarrow> bool" where
  "names_op op d \<longleftrightarrow> dep_ref d = ''contract:'' @ op \<or> dep_ref d = ''contract:'' @ opName op \<or>
     opName (strip_contract (dep_ref d)) = opName op"

definition callerRange :: "router \<Rightarrow> string \<Rightarrow> string \<Rightarrow> string option" where
  "callerRange s who op =
     (case map_get (rt_manifests s) who of
        None \<Rightarrow> None
      | Some m \<Rightarrow> map_option (\<lambda>d. if dep_range d = [] then ''*'' else dep_range d) (find (names_op op) (m_dependencies m)))"

definition pinned_op :: "string \<Rightarrow> generation_pin \<Rightarrow> string" where
  "pinned_op op pin = opName op @ CHR ''@'' # pin_version pin"

definition resolveTarget :: "router \<Rightarrow> string \<Rightarrow> string \<Rightarrow> (string \<times> string) option" where
  "resolveTarget s who op =
     (case rt_kernel s of
        None \<Rightarrow> map_option (\<lambda>t. (t, op)) (map_get (rt_opRoute s) op)
      | Some k \<Rightarrow>
          (case whoOffers (k_graph k) op of
             [] \<Rightarrow>
               (case callerRange s who op of
                  None \<Rightarrow> None
                | Some rng \<Rightarrow> map_option (\<lambda>pin. (pin_impl pin, pinned_op op pin)) (resolve (k_tools k) (opName op) rng))
           | [only] \<Rightarrow> Some (only, op)
           | offerors \<Rightarrow>
               (case resolve (k_tools k) (opName op) (case callerRange s who op of None \<Rightarrow> ''*'' | Some rng \<Rightarrow> rng) of
                  Some pin \<Rightarrow> if pin_impl pin \<in> set offerors then Some (pin_impl pin, pinned_op op pin)
                              else Some (last offerors, op)
                | None \<Rightarrow> Some (last offerors, op))))"

section \<open>Delivery\<close>

definition maxInflight :: "router \<Rightarrow> string \<Rightarrow> nat" where
  "maxInflight s t =
     (case map_get (rt_manifests s) t of
        None \<Rightarrow> 4
      | Some m \<Rightarrow> (case m_maxConcurrentCalls m of None \<Rightarrow> 4 | Some n \<Rightarrow> n))"

definition q_ctx :: "queued \<Rightarrow> call_ctx" where
  "q_ctx q = kont_ctx (q_kont q)"

definition expired :: "int \<Rightarrow> queued \<Rightarrow> bool" where
  "expired now q \<longleftrightarrow> dm_deadline (q_msg q) > 0 \<and> now - q_at q \<ge> dm_deadline (q_msg q)"

definition deadline_error :: "string \<Rightarrow> deliver_msg \<Rightarrow> port_result" where
  "deadline_error spot m = err_detail BUDGET
     (''deadline '' @ show_int (dm_deadline m) @ ''ms exceeded'' @ spot @ '' (op '' @ dm_op m @ '')'')"

definition decInflight :: "string \<Rightarrow> string \<Rightarrow> router \<Rightarrow> router" where
  "decInflight t key s =
     (case map_get (rt_inflight s) t of
        None \<Rightarrow> s
      | Some ks \<Rightarrow> s\<lparr>rt_inflight := map_set t (set_del key ks) (rt_inflight s)\<rparr>)"

text \<open>\<open>admit\<close> past its first guard.\<close>

definition admit_now :: "string \<Rightarrow> queued \<Rightarrow> router \<Rightarrow> router" where
  "admit_now t q s =
     (let key = dm_causation (q_msg q);
          comps = (case map_get (rt_compartments s) t of
                     None \<Rightarrow> rt_compartments s
                   | Some h \<Rightarrow> map_set t (h\<lparr>h_delivered := h_delivered h + 1\<rparr>) (rt_compartments s))
      in emit (PostDeliver t (q_msg q))
           (s\<lparr>rt_compartments := comps,
              rt_pending := map_set key \<lparr>pc_target = t, pc_kont = q_kont q, pc_msg = q_msg q,
                 pc_stream = q_stream q\<rparr> (rt_pending s),
              rt_inflight := map_set t (set_add key (list_of (rt_inflight s) t)) (rt_inflight s)\<rparr>))"

text \<open>\<open>release\<close> takes the head of the queue and admits it; an item that expired in the queue is
  answered and releases in turn, so the recursion is down the queue. The list is \<open>rt_waiting\<close> of the
  target, which is written back as what is left of it.\<close>

fun drain_queue :: "int \<Rightarrow> string \<Rightarrow> queued list \<Rightarrow> router \<Rightarrow> router" where
  "drain_queue now t [] s = s"
| "drain_queue now t (q # qs) s =
     (let s1 = s\<lparr>rt_waiting := map_set t qs (rt_waiting s)\<rparr> in
      if expired now q
      then drain_queue now t qs (decInflight t [] (resolve_kont (q_kont q) (deadline_error '' in queue'' (q_msg q)) s1))
      else admit_now t q s1)"

definition release_slot :: "int \<Rightarrow> string \<Rightarrow> string \<Rightarrow> router \<Rightarrow> router" where
  "release_slot now t key s = drain_queue now t (list_of (rt_waiting s) t) (decInflight t key s)"

definition admit :: "int \<Rightarrow> string \<Rightarrow> queued \<Rightarrow> router \<Rightarrow> router" where
  "admit now t q s =
     (if expired now q
      then release_slot now t [] (resolve_kont (q_kont q) (deadline_error '' in queue'' (q_msg q)) s)
      else admit_now t q s)"

text \<open>A gate item goes before the first normal one.\<close>

fun queue_insert :: "queued \<Rightarrow> queued list \<Rightarrow> queued list" where
  "queue_insert q [] = [q]"
| "queue_insert q (w # ws) =
     (if q_priority w = Normal \<and> q_priority q = Gate then q # w # ws else w # queue_insert q ws)"

definition enqueue :: "int \<Rightarrow> string \<Rightarrow> queued \<Rightarrow> router \<Rightarrow> router" where
  "enqueue now t q s =
     (if length (list_of (rt_inflight s) t) < maxInflight s t then admit now t q s
      else s\<lparr>rt_waiting := map_set t (queue_insert q (list_of (rt_waiting s) t)) (rt_waiting s)\<rparr>)"

definition law_op :: string where "law_op = ''law.check@1''"

definition deliver :: "int \<Rightarrow> string \<Rightarrow> deliver_msg \<Rightarrow> bool \<Rightarrow> kont \<Rightarrow> router \<Rightarrow> router" where
  "deliver now t m stream k s =
     (if \<not> map_has (rt_compartments s) t then resolve_kont k (err_detail REFUSED (''no compartment '' @ t)) s
      else
        (let priority = (case map_get (rt_opPriority s) (dm_op m) of
                           Some p \<Rightarrow> p
                         | None \<Rightarrow> if dm_op m = law_op then Gate else Normal)
         in enqueue now t \<lparr>q_msg = m, q_stream = stream, q_kont = k, q_priority = priority, q_at = now\<rparr> s))"

section \<open>Dispatch\<close>

text \<open>\<open>callLaw\<close>, the first await of \<open>dispatch\<close>.\<close>

definition gate_msg :: "call_ctx \<Rightarrow> deliver_msg" where
  "gate_msg cc = \<lparr>dm_causation = cc_causation cc, dm_op = law_op,
     dm_payload = JObj [(''principal'', JStr (cc_who cc)), (''op'', JStr (cc_op cc)), (''payload'', cc_payload cc),
                        (''causationId'', JStr (cc_causation cc))],
     dm_deadline = 500, dm_from = micro_host @ ''-gate''\<rparr>"

definition callLaw :: "int \<Rightarrow> call_ctx \<Rightarrow> router \<Rightarrow> router" where
  "callLaw now cc s =
     (case map_get (rt_opRoute s) law_op of
        None \<Rightarrow> resolve_kont (AtGate cc)
          (err_detail DEGRADED ''law.check@1 not routed -- refusing risky op (fail-closed)'') s
      | Some lawId \<Rightarrow> deliver now lawId (gate_msg cc) False (AtGate cc) s)"

definition state_text_of :: "compartment_state \<Rightarrow> string" where
  "state_text_of st = (case st of Booting \<Rightarrow> ''booting'' | Running \<Rightarrow> ''active'' | Unwell \<Rightarrow> ''degraded'' | Stopped \<Rightarrow> ''stopped'')"

definition target_msg :: "call_ctx \<Rightarrow> deliver_msg" where
  "target_msg cc = \<lparr>dm_causation = cc_causation cc, dm_op = cc_op cc, dm_payload = cc_payload cc,
     dm_deadline = cc_deadline cc, dm_from = cc_who cc\<rparr>"

text \<open>The last part of \<open>dispatch\<close>: the health of the target, then its delivery.\<close>

definition to_target :: "int \<Rightarrow> call_ctx \<Rightarrow> router \<Rightarrow> router" where
  "to_target now cc s =
     (case map_get (rt_compartments s) (cc_impl cc) of
        None \<Rightarrow> resolve_kont (AtTarget cc) (err_detail DEGRADED (''implementation '' @ cc_impl cc @ '' is absent'')) s
      | Some h \<Rightarrow>
          if h_state h = Stopped \<or> h_state h = Unwell
          then resolve_kont (AtTarget cc)
                 (err_detail DEGRADED (''implementation '' @ cc_impl cc @ '' is '' @ state_text_of (h_state h))) s
          else deliver now (cc_impl cc) (target_msg cc) (cc_stream cc) (AtTarget cc) s)"

text \<open>Past the gate. A dormant target without a compartment is spawned first: the call waits in
  \<open>rt_spawning\<close>, and the first one to wait starts the checkout (one spawn per id at a time).\<close>

definition past_gate :: "int \<Rightarrow> call_ctx \<Rightarrow> router \<Rightarrow> router" where
  "past_gate now cc s =
     (if \<not> map_has (rt_compartments s) (cc_impl cc) \<and> map_has (rt_dormant s) (cc_impl cc)
      then s\<lparr>rt_spawning := map_set (cc_impl cc) (list_of (rt_spawning s) (cc_impl cc) @ [cc]) (rt_spawning s)\<rparr>
      else to_target now cc s)"

definition dispatch :: "int \<Rightarrow> string \<Rightarrow> string \<Rightarrow> json \<Rightarrow> int \<Rightarrow> string \<Rightarrow> bool \<Rightarrow> sink \<Rightarrow> router \<Rightarrow> router" where
  "dispatch now who op payload deadline causation stream snk s =
     (case resolveTarget s who op of
        None \<Rightarrow>
          resolve_kont (AtTarget \<lparr>cc_causation = causation, cc_who = who, cc_op = op, cc_impl = [], cc_payload = payload,
              cc_deadline = deadline, cc_stream = stream, cc_sink = snk\<rparr>)
            (err_detail REFUSED (''no routed implementation for '' @ op)) s
      | Some (impl, rop) \<Rightarrow>
          (let cc = \<lparr>cc_causation = causation, cc_who = who, cc_op = rop, cc_impl = impl, cc_payload = payload,
                     cc_deadline = deadline, cc_stream = stream, cc_sink = snk\<rparr>
           in if map_has (rt_opRisk s) rop then callLaw now cc s else past_gate now cc s))"

text \<open>Property access on a value that may be \<open>null\<close>: \<open>None\<close> is the \<open>TypeError\<close>.\<close>

fun get_prop :: "json \<Rightarrow> string \<Rightarrow> json option" where
  "get_prop JUndefined k = None"
| "get_prop JNull k = None"
| "get_prop (JObj kvs) k = Some (case map_get kvs k of Some v \<Rightarrow> v | None \<Rightarrow> JUndefined)"
| "get_prop _ k = Some JUndefined"

fun prop_of :: "json \<Rightarrow> string \<Rightarrow> json" where
  "prop_of (JObj kvs) k = (case map_get kvs k of Some v \<Rightarrow> v | None \<Rightarrow> JUndefined)"
| "prop_of _ k = JUndefined"

fun str_opt :: "json \<Rightarrow> string option" where
  "str_opt (JStr x) = Some x"
| "str_opt _ = None"

definition text_or_empty :: "json \<Rightarrow> string" where
  "text_or_empty v = (case str_opt v of None \<Rightarrow> [] | Some x \<Rightarrow> x)"

definition gate_refusal :: "call_ctx \<Rightarrow> json \<Rightarrow> json option \<Rightarrow> refusal_report" where
  "gate_refusal cc reason consentId =
     \<lparr>rr_rule = law_op, rr_who = Some (cc_who cc), rr_op = Some (cc_op cc), rr_reason = str_opt reason,
      rr_consentId = (case consentId of None \<Rightarrow> None | Some v \<Rightarrow> str_opt v), rr_bar = None\<rparr>"

text \<open>The continuation after the gate's answer. The verdict is read from whatever value came back: only
  the two texts \<open>deny\<close> and \<open>require-consent\<close> stop the call. A value that is \<open>null\<close> throws in the
  awaiting function and nobody is answered.\<close>

definition after_gate :: "int \<Rightarrow> call_ctx \<Rightarrow> port_result \<Rightarrow> router \<Rightarrow> router" where
  "after_gate now cc r s =
     (case r of
        PErr _ _ _ \<Rightarrow> resolve_kont (AtTarget cc) r s
      | POk v _ _ \<Rightarrow>
          (case get_prop v ''decision'' of
             None \<Rightarrow> emit (Unhandled (cc_sink cc)) s
           | Some d \<Rightarrow>
               (let reason = prop_of v ''reason''; consent = prop_of v ''consentId''
                in if d = JStr ''deny'' then
                     resolve_kont (AtTarget cc)
                       (PErr REFUSED (Some (''denied by law: '' @ text_or_empty reason)) (Some (gate_refusal cc reason None)))
                       (emit (GateLine (cc_who cc) (cc_op cc) Deny reason None (cc_causation cc)) s)
                   else if d = JStr ''require-consent'' then
                     resolve_kont (AtTarget cc)
                       (PErr REFUSED (Some (''consent required'' @ (if text_or_empty consent = [] then [] else '': '' @ text_or_empty consent)))
                         (Some (gate_refusal cc reason (Some consent))))
                       (emit (GateLine (cc_who cc) (cc_op cc) RequireConsent reason (Some consent) (cc_causation cc)) s)
                   else past_gate now cc
                     (emit (GateLine (cc_who cc) (cc_op cc) Allow reason None (cc_causation cc)) s))))"

definition answer :: "call_ctx \<Rightarrow> port_result \<Rightarrow> router \<Rightarrow> router" where
  "answer cc r s =
     (case cc_sink cc of
        ToWorker pid callId \<Rightarrow> emit (PostResult pid callId r) s
      | ToRoot \<Rightarrow> emit (RootResult (cc_causation cc) r) s)"

fun run_kont :: "int \<Rightarrow> kont \<Rightarrow> port_result \<Rightarrow> router \<Rightarrow> router" where
  "run_kont now (AtGate cc) r s = after_gate now cc r s"
| "run_kont now (AtTarget cc) r s = answer cc r s"

end
