(* ===== verification/Router_Events.thy ===== *)
theory Router_Events
  imports Port_Router
begin

text \<open>
  What drives the router (\<open>host/src/ports.ts\<close>, with the on-demand spawner of \<open>boot.ts\<close> and the crash
  callbacks of \<open>worker.ts\<close>): worker messages, host ops, root calls, deadlines, crashes and spawns, as
  one step relation over \<open>Port_Router\<close>.
\<close>

section \<open>Readiness (\<open>waitActive\<close>, \<open>wakeReady\<close>)\<close>

text \<open>The waiter of a spawn stands for every call in \<open>rt_spawning\<close>: on success the id is no longer
  dormant and the calls go on to their target; on failure they are answered and it stays dormant.\<close>

definition spawn_failed :: "string \<Rightarrow> string \<Rightarrow> router \<Rightarrow> router" where
  "spawn_failed i e s =
     fold (\<lambda>cc. resolve_kont (AtTarget cc) (err_detail DEGRADED (''dormant '' @ i @ '' failed to spawn on first touch: '' @ e)))
       (list_of (rt_spawning s) i) (s\<lparr>rt_spawning := map_del i (rt_spawning s)\<rparr>)"

definition spawn_done :: "int \<Rightarrow> string \<Rightarrow> router \<Rightarrow> router" where
  "spawn_done now i s =
     fold (to_target now) (list_of (rt_spawning s) i)
       (s\<lparr>rt_spawning := map_del i (rt_spawning s), rt_dormant := map_del i (rt_dormant s)\<rparr>)"

text \<open>\<open>err\<close> is the message of the error a waiter is rejected with, if any.\<close>

fun wake_one :: "int \<Rightarrow> string \<Rightarrow> string option \<Rightarrow> waiter \<Rightarrow> router \<Rightarrow> router" where
  "wake_one now i err BootWaiter s = emit (Woken i (err = None)) s"
| "wake_one now i None SpawnWaiter s = spawn_done now i s"
| "wake_one now i (Some e) SpawnWaiter s = spawn_failed i (''Error: '' @ e) s"

definition wakeReady :: "int \<Rightarrow> string \<Rightarrow> string option \<Rightarrow> router \<Rightarrow> router" where
  "wakeReady now i err s =
     fold (wake_one now i err) (list_of (rt_waiters s) i) (s\<lparr>rt_waiters := map_del i (rt_waiters s)\<rparr>)"

definition waitActive :: "int \<Rightarrow> string \<Rightarrow> waiter \<Rightarrow> router \<Rightarrow> router" where
  "waitActive now i w s =
     (case map_option h_state (map_get (rt_compartments s) i) of
        Some Running \<Rightarrow> wake_one now i None w s
      | Some Unwell \<Rightarrow> wake_one now i (Some (''compartment '' @ i @ '' degraded before ready'')) w s
      | _ \<Rightarrow> s\<lparr>rt_waiters := map_set i (list_of (rt_waiters s) i @ [w]) (rt_waiters s)\<rparr>)"

text \<open>The ten seconds are over.\<close>

definition wait_timeout :: "int \<Rightarrow> string \<Rightarrow> waiter \<Rightarrow> router \<Rightarrow> router" where
  "wait_timeout now i w s =
     (if w \<in> set (list_of (rt_waiters s) i)
      then wake_one now i (Some (''compartment '' @ i @ '' not active within 10000ms'')) w (s\<lparr>rt_waiters := map_set i (remove1 w (list_of (rt_waiters s) i)) (rt_waiters s)\<rparr>)
      else s)"

text \<open>What the checkout of a worker for a dormant id comes to (\<open>onDemandSpawn\<close> of \<open>boot.ts\<close>): a
  registration, the init message and the wait; or the error \<open>err\<close>. The graph knows the id since it was
  registered dormant, so the registration cannot fail there (\<open>registerGraph_seen\<close>).\<close>

definition checkout_done :: "crypto \<Rightarrow> int \<Rightarrow> string \<Rightarrow> string option \<Rightarrow> router \<Rightarrow> router" where
  "checkout_done c now i err s =
     (if list_of (rt_spawning s) i = [] \<or> map_has (rt_compartments s) i then s
      else if err \<noteq> None then spawn_failed i (the err) s
      else
        (case map_get (rt_dormant s) i of
           None \<Rightarrow> spawn_done now i s
         | Some d \<Rightarrow>
             (case register c now (do_entry d) (do_manifest d) (do_tokens d) s of
                Inl _ \<Rightarrow> spawn_failed i ''Error'' s
              | Inr s1 \<Rightarrow> waitActive now i SpawnWaiter (emit (PostInit i) s1))))"

section \<open>Crashes (\<open>failInflight\<close>)\<close>

text \<open>The calls in flight at a compartment: their promises resolve, their pending entries go.\<close>

definition fail_key :: "string \<Rightarrow> string \<Rightarrow> router \<Rightarrow> router" where
  "fail_key reason key s =
     (case map_get (rt_pending s) key of
        None \<Rightarrow> s
      | Some p \<Rightarrow> resolve_kont (pc_kont p) (err_detail DEGRADED reason) (s\<lparr>rt_pending := map_del key (rt_pending s)\<rparr>))"

definition fail_waiting :: "string \<Rightarrow> string \<Rightarrow> router \<Rightarrow> router" where
  "fail_waiting pid reason s =
     fold (\<lambda>q. resolve_kont (q_kont q) (err_detail DEGRADED reason)) (list_of (rt_waiting s) pid)
       (s\<lparr>rt_waiting := map_del pid (rt_waiting s)\<rparr>)"

definition fail_keys :: "string \<Rightarrow> string \<Rightarrow> router \<Rightarrow> router" where
  "fail_keys pid reason s =
     (case map_get (rt_inflight s) pid of
        None \<Rightarrow> s
      | Some keys \<Rightarrow>
          (let s1 = fold (fail_key reason) keys s in s1\<lparr>rt_inflight := map_set pid [] (rt_inflight s1)\<rparr>))"

definition failInflight :: "int \<Rightarrow> string \<Rightarrow> string \<Rightarrow> router \<Rightarrow> router" where
  "failInflight now pid reason s = fail_keys pid reason (fail_waiting pid reason (wakeReady now pid (Some reason) s))"

definition set_state :: "string \<Rightarrow> (handle \<Rightarrow> handle) \<Rightarrow> router \<Rightarrow> router" where
  "set_state i f s =
     (case map_get (rt_compartments s) i of
        None \<Rightarrow> s
      | Some h \<Rightarrow> s\<lparr>rt_compartments := map_set i (f h) (rt_compartments s)\<rparr>)"

text \<open>\<open>onCrash\<close> of \<open>worker.ts\<close>: the handle is marked, then the router told. An exit counts only when the
  handle was not stopped and the code is not zero.\<close>

definition crashed :: "int \<Rightarrow> string \<Rightarrow> string \<Rightarrow> router \<Rightarrow> router" where
  "crashed now pid reason s =
     failInflight now pid (''compartment '' @ pid @ '' crashed'')
       (set_state pid (\<lambda>h. h\<lparr>h_state := Unwell, h_crashes := h_crashes h + 1, h_lastError := Some reason\<rparr>) s)"

definition exited :: "int \<Rightarrow> string \<Rightarrow> int \<Rightarrow> router \<Rightarrow> router" where
  "exited now pid code s =
     (case map_get (rt_compartments s) pid of
        None \<Rightarrow> s
      | Some h \<Rightarrow> if h_state h \<noteq> Stopped \<and> code \<noteq> 0 then crashed now pid (''worker exit code '' @ show_int code) s else s)"

section \<open>Host ops\<close>

definition nat_json :: "nat \<Rightarrow> json" where "nat_json n = JNum (int n)"

definition stats_json :: "string \<Rightarrow> handle \<Rightarrow> nat \<Rightarrow> json" where
  "stats_json st h inflight =
     JObj ([(''state'', JStr st), (''delivered'', nat_json (h_delivered h)), (''calls'', nat_json (h_calls h)),
        (''errors'', nat_json (h_errors h)), (''crashes'', nat_json (h_crashes h)), (''bootedAt'', JNum (h_bootedAt h))] @
       (case h_lastError h of None \<Rightarrow> [] | Some e \<Rightarrow> [(''lastError'', JStr e)]) @
       [(''inflight'', nat_json inflight)])"

definition all_stats :: "router \<Rightarrow> json" where
  "all_stats s =
     JObj (map (\<lambda>(i, h). (i, stats_json (state_text_of (h_state h)) h (length (list_of (rt_inflight s) i)))) (rt_compartments s) @
       map (\<lambda>i. (i, stats_json ''dormant'' (new_handle 0) 0))
         (filter (\<lambda>i. \<not> map_has (rt_compartments s) i) (map_keys (rt_dormant s))))"

definition truthy_str :: "json \<Rightarrow> string option" where
  "truthy_str v = (case v of JStr (c # cs) \<Rightarrow> Some (c # cs) | _ \<Rightarrow> None)"

definition revoke_tokens :: "(token_record \<Rightarrow> bool) \<Rightarrow> (string, token_record) jsmap \<Rightarrow> (string, token_record) jsmap" where
  "revoke_tokens P ts = map (\<lambda>(k, r). (k, if P r then r\<lparr>tr_revoked := True\<rparr> else r)) ts"

definition tokens_revoke :: "string \<Rightarrow> json \<Rightarrow> router \<Rightarrow> json \<times> router" where
  "tokens_revoke callerId pid s =
     (let hit = (case truthy_str pid of
                   Some p \<Rightarrow> (\<lambda>r. tr_pluginId r = p \<and> \<not> tr_revoked r)
                 | None \<Rightarrow> (\<lambda>r. \<not> tr_revoked r));
          gen = (if truthy_str pid = None then rt_generation s + 1 else rt_generation s);
          affected = length (filter (\<lambda>(_, r). hit r) (rt_tokens s));
          s1 = s\<lparr>rt_generation := gen, rt_tokens := revoke_tokens hit (rt_tokens s)\<rparr>
      in (JObj [(''generation'', nat_json gen), (''affectedTokens'', nat_json affected)],
          emit (JournalLine (JObj [(''principal'', JStr callerId), (''op'', JStr ''host.tokens.revoke''),
             (''decision'', JStr ''allow''),
             (''reason'', JStr (case truthy_str pid of
                Some p \<Rightarrow> ''scoped revoke: '' @ show_nat affected @ '' token(s) of '' @ p
              | None \<Rightarrow> ''revoke-all: generation bumped to '' @ show_nat gen)),
             (''affected'', nat_json affected),
             (''scope'', case truthy_str pid of Some p \<Rightarrow> JStr p | None \<Rightarrow> JStr ''all'')])) s1))"

definition node_json :: "graph_node \<Rightarrow> json" where
  "node_json n = JObj ([(''id'', JStr (n_id n)), (''kind'', JStr (case n_kind n of Principal \<Rightarrow> ''principal'' | Capability \<Rightarrow> ''capability''))] @
     (case n_granularity n of None \<Rightarrow> [] | Some g \<Rightarrow> [(''granularity'', JStr (case g of Coarse \<Rightarrow> ''coarse'' | Atomic \<Rightarrow> ''atomic''))]) @
     (case n_extraction n of None \<Rightarrow> [] | Some b \<Rightarrow> [(''extractionCandidate'', JBool b)]))"

definition snapshot_json :: "graph_snapshot \<Rightarrow> json" where
  "snapshot_json g = JObj [(''nodes'', JArr (map node_json (sn_nodes g))),
     (''edges'', JArr (map (\<lambda>(to, cap, k). JObj [(''to'', JStr to), (''capability'', JStr cap),
        (''kind'', JStr (case k of Offer \<Rightarrow> ''offer'' | Hold \<Rightarrow> ''hold''))]) (sn_edges g)))]"

definition chain_json :: "audit_export \<Rightarrow> json" where
  "chain_json x = JObj [(''verified'', JBool (ax_verified x)), (''signerKeyId'', JStr (ax_signerKeyId x)),
     (''publicKey'', JStr (ax_publicKey x)), (''length'', nat_json (ax_length x)), (''headHash'', JStr (ax_headHash x)),
     (''entries'', JArr (map (\<lambda>(p, sig). JObj [(''payload'', payload_json p), (''signature'', JStr sig)]) (ax_entries x)))]"

definition no_kernel :: port_result where
  "no_kernel = err_detail DEGRADED ''no kernel attached''"

text \<open>\<open>None\<close> is the \<open>TypeError\<close> of destructuring a \<open>null\<close> payload: the caller is not answered.\<close>

definition hostOp :: "crypto \<Rightarrow> int \<Rightarrow> string \<Rightarrow> string \<Rightarrow> json \<Rightarrow> router \<Rightarrow> port_result option \<times> router" where
  "hostOp c now callerId op payload s =
     (if op = op_stats then (Some (ok_value (all_stats s)), s)
      else if op = op_terminate then
        (case get_prop payload ''pluginId'' of
           None \<Rightarrow> (None, s)
         | Some v \<Rightarrow>
             (case str_opt v of
                None \<Rightarrow> (Some (err_detail SCOPE ''unknown compartment''), s)
              | Some pid \<Rightarrow>
                  if \<not> map_has (rt_compartments s) pid then (Some (err_detail SCOPE (''unknown compartment '' @ pid)), s)
                  else
                    (let fast = (prop_of payload ''fast'' = JBool True);
                         s1 = failInflight now pid (''terminated by '' @ callerId @ (if fast then '' (fast)'' else [])) s
                     in (Some (ok_value (JObj [(''terminated'', JStr pid)])),
                         emit (Terminate pid fast) (set_state pid (\<lambda>h. h\<lparr>h_state := Stopped\<rparr>) s1)))))
      else if op = op_spawn then
        (case get_prop payload ''pluginId'' of
           None \<Rightarrow> (None, s)
         | Some v \<Rightarrow> (Some (err_detail REFUSED (''compartment.spawn of '' @ text_or_empty v @
             '' requires reboot via recipe (v1: restart = reboot composition)'')), s))
      else if op = op_journal then (Some (ok_value (JObj [(''appended'', JBool True)])), emit (JournalLine payload) s)
      else if op = op_revoke then
        (case get_prop payload ''pluginId'' of
           None \<Rightarrow> (None, s)
         | Some v \<Rightarrow> (case tokens_revoke callerId v s of (r, s1) \<Rightarrow> (Some (ok_value r), s1)))
      else if op = op_acquire then
        (case rt_kernel s of
           None \<Rightarrow> (Some no_kernel, s)
         | Some k \<Rightarrow>
             (case get_prop payload ''key'' of
                None \<Rightarrow> (None, s)
              | Some v \<Rightarrow>
                  (case truthy_str v of
                     None \<Rightarrow> (Some (err_detail SCOPE ''state.acquire requires a key''), s)
                   | Some key \<Rightarrow>
                       (let m = (if prop_of payload ''mode'' = JStr ''shared'' then Shared else Exclusive)
                        in case tryAcquire (k_state k) key callerId m of
                             Inl e \<Rightarrow> (Some (err_detail REFUSED e), s)
                           | Inr a \<Rightarrow> (Some (ok_value (JObj [(''key'', JStr key), (''mode'', JStr (mode_text m)), (''holder'', JStr callerId)])),
                               s\<lparr>rt_kernel := Some (k\<lparr>k_state := a\<rparr>)\<rparr>)))))
      else if op = op_release then
        (case rt_kernel s of
           None \<Rightarrow> (Some no_kernel, s)
         | Some k \<Rightarrow>
             (case get_prop payload ''key'' of
                None \<Rightarrow> (None, s)
              | Some v \<Rightarrow>
                  (case truthy_str v of
                     None \<Rightarrow> (Some (err_detail SCOPE ''state.release requires a key''), s)
                   | Some key \<Rightarrow> (Some (ok_value (JObj [(''released'', JStr key), (''by'', JStr callerId)])),
                       s\<lparr>rt_kernel := Some (k\<lparr>k_state := State_Arbiter.release (k_state k) key callerId\<rparr>)\<rparr>))))
      else if op = op_graph then
        (case rt_kernel s of
           None \<Rightarrow> (Some no_kernel, s)
         | Some k \<Rightarrow> (Some (ok_value (snapshot_json (graph_snapshot_of (k_graph k)))), s))
      else if op = op_audit then
        (case rt_kernel s of
           None \<Rightarrow> (Some no_kernel, s)
         | Some k \<Rightarrow> (Some (ok_value (chain_json (audit_export_of c (k_audit k)))), s))
      else (Some (err_detail REFUSED (''unknown host op '' @ op)), s))"

section \<open>Calls\<close>

definition nextCausation :: "router \<Rightarrow> string \<times> router" where
  "nextCausation s = (''c_'' @ show_nat (rt_callSeq s + 1), s\<lparr>rt_callSeq := rt_callSeq s + 1\<rparr>)"

record call_msg =
  cl_callId :: string
  cl_token :: string
  cl_op :: string
  cl_payload :: json
  cl_deadline :: int

text \<open>\<open>fail\<close> posts through the handle, which is dropped when the compartment is not there.\<close>

definition post_result :: "router \<Rightarrow> string \<Rightarrow> string \<Rightarrow> port_result \<Rightarrow> router" where
  "post_result s callerId callId r = (if map_has (rt_compartments s) callerId then emit (PostResult callerId callId r) s else s)"

definition compartmentCall :: "crypto \<Rightarrow> int \<Rightarrow> string \<Rightarrow> call_msg \<Rightarrow> router \<Rightarrow> router" where
  "compartmentCall c now callerId m s =
     (case checkToken s callerId (cl_token m) (cl_op m) of
        Some refusal \<Rightarrow> post_result s callerId (cl_callId m) refusal
      | None \<Rightarrow>
          if isHostOp (cl_op m) then
            (case hostOp c now callerId (cl_op m) (cl_payload m) s of
               (None, s1) \<Rightarrow> emit (Unhandled (ToWorker callerId (cl_callId m))) s1
             | (Some r, s1) \<Rightarrow> post_result s1 callerId (cl_callId m) r)
          else
            (case nextCausation s of
               (causation, s1) \<Rightarrow>
                 dispatch now callerId (cl_op m) (cl_payload m) (cl_deadline m) causation False
                   (ToWorker callerId (cl_callId m)) s1))"

definition callAsRoot :: "crypto \<Rightarrow> int \<Rightarrow> string \<Rightarrow> json \<Rightarrow> int \<Rightarrow> bool \<Rightarrow> router \<Rightarrow> router" where
  "callAsRoot c now op payload deadline stream s =
     (if isHostOp op then
        (case hostOp c now ''root'' op payload s of
           (None, s1) \<Rightarrow> emit (Unhandled ToRoot) s1
         | (Some r, s1) \<Rightarrow> emit (RootResult ''n/a'' r) s1)
      else
        (case nextCausation s of
           (causation, s1) \<Rightarrow> dispatch now ''root'' op payload deadline causation stream ToRoot s1))"

section \<open>Events\<close>

datatype from_worker =
    MCall call_msg
  | MReturn string port_result
  | MChunk string stream_chunk
  | MReady

definition onReturn :: "int \<Rightarrow> string \<Rightarrow> string \<Rightarrow> port_result \<Rightarrow> router \<Rightarrow> router" where
  "onReturn now pid causation r s =
     (case map_get (rt_pending s) causation of
        None \<Rightarrow> s
      | Some p \<Rightarrow>
          resolve_kont (pc_kont p) r
            (release_slot now pid causation (s\<lparr>rt_pending := map_del causation (rt_pending s)\<rparr>)))"

fun onWorkerMessage :: "crypto \<Rightarrow> int \<Rightarrow> string \<Rightarrow> from_worker \<Rightarrow> router \<Rightarrow> router" where
  "onWorkerMessage c now pid (MChunk causation chunk) s =
     (case map_get (rt_pending s) causation of
        Some p \<Rightarrow> if pc_stream p then emit (RelayChunk causation chunk) s else s
      | None \<Rightarrow> s)"
| "onWorkerMessage c now pid (MReturn causation r) s = onReturn now pid causation r s"
| "onWorkerMessage c now pid (MCall m) s =
     compartmentCall c now pid m (set_state pid (\<lambda>h. h\<lparr>h_calls := h_calls h + 1\<rparr>) s)"
| "onWorkerMessage c now pid MReady s =
     wakeReady now pid None (set_state pid (\<lambda>h. if h_state h = Booting then h\<lparr>h_state := Running\<rparr> else h) s)"

text \<open>The timer of a delivered call.\<close>

definition deadline_fired :: "int \<Rightarrow> string \<Rightarrow> router \<Rightarrow> router" where
  "deadline_fired now key s =
     (case map_get (rt_pending s) key of
        None \<Rightarrow> s
      | Some p \<Rightarrow>
          if dm_deadline (pc_msg p) > 0 then
            resolve_kont (pc_kont p) (deadline_error [] (pc_msg p))
              (release_slot now (pc_target p) key (s\<lparr>rt_pending := map_del key (rt_pending s)\<rparr>))
          else s)"

datatype event =
    Message string from_worker
  | Deadline string
  | Crash string string
  | Exit string int
  | RootCall string json int bool
  | Checkout string "string option"
  | WaitTimeout string waiter
  | Resume

fun router_step :: "crypto \<Rightarrow> router \<Rightarrow> int \<times> event \<Rightarrow> router" where
  "router_step c s (now, Message pid m) = (if map_has (rt_compartments s) pid then onWorkerMessage c now pid m s else s)"
| "router_step c s (now, Deadline key) = deadline_fired now key s"
| "router_step c s (now, Crash pid reason) = (if map_has (rt_compartments s) pid then crashed now pid reason s else s)"
| "router_step c s (now, Exit pid code) = exited now pid code s"
| "router_step c s (now, RootCall op payload deadline stream) = callAsRoot c now op payload deadline stream s"
| "router_step c s (now, Checkout i err) = checkout_done c now i err s"
| "router_step c s (now, WaitTimeout i w) = wait_timeout now i w s"
| "router_step c s (now, Resume) =
     (case rt_ready s of
        [] \<Rightarrow> s
      | (k, r) # rest \<Rightarrow> run_kont now k r (s\<lparr>rt_ready := rest\<rparr>))"

definition router_run :: "crypto \<Rightarrow> router \<Rightarrow> (int \<times> event) list \<Rightarrow> router" where
  "router_run c s es = foldl (router_step c) s es"

section \<open>The table\<close>

record router_status =
  rs_compartments :: "(string \<times> handle) list"
  rs_dormant :: "string list"
  rs_generation :: nat
  rs_routedOps :: "string list"

definition status_of :: "router \<Rightarrow> router_status" where
  "status_of s = \<lparr>rs_compartments = rt_compartments s, rs_dormant = sort (map_keys (rt_dormant s)),
     rs_generation = rt_generation s, rs_routedOps = map_keys (rt_opRoute s)\<rparr>"

definition router_shutdown :: "router \<Rightarrow> router" where
  "router_shutdown s =
     fold (\<lambda>i s1. emit (Terminate i False) (set_state i (\<lambda>h. h\<lparr>h_state := Stopped\<rparr>) s1)) (map_keys (rt_compartments s)) s"

datatype routing_error = NoManifest string | Undeclared string string | Unsatisfied string string

definition route_grants :: "string \<Rightarrow> string list \<Rightarrow> string list \<Rightarrow> (string, string) jsmap \<times> routing_error list \<Rightarrow>
    (string, string) jsmap \<times> routing_error list" where
  "route_grants i ops declared acc =
     fold (\<lambda>d (r, es). if d \<notin> set ops then (r, es @ [Undeclared i d]) else (map_set d i r, es)) declared acc"

definition unsatisfied :: "recipe \<Rightarrow> string \<Rightarrow> dependency_ref list \<Rightarrow> routing_error list" where
  "unsatisfied rc i deps =
     map (\<lambda>d. Unsatisfied i (dep_ref d))
       (filter (\<lambda>d. starts_with (dep_ref d) ''contract:'' \<and>
          \<not> list_ex (\<lambda>x. drop 9 (dep_ref d) \<in> set (g_contracts (ce_grant x))) (r_composition rc)) deps)"

definition buildRoutingTable :: "recipe \<Rightarrow> (string, manifest) jsmap \<Rightarrow> (string, string) jsmap \<times> routing_error list" where
  "buildRoutingTable rc manifests =
     fold (\<lambda>e acc.
         case map_get manifests (ce_id e) of
           None \<Rightarrow> (fst acc, snd acc @ [NoManifest (ce_id e)])
         | Some m \<Rightarrow>
             (case route_grants (ce_id e) (routableOps m) (g_contracts (ce_grant e)) acc of
                (r, es) \<Rightarrow> (r, es @ unsatisfied rc (ce_id e) (m_dependencies m))))
       (r_composition rc) ([], [])"

end
