(* ===== verification/Router_Machine.thy ===== *)
theory Router_Machine
  imports Router_Events "HOL-Library.Multiset"
begin

text \<open>
  The interface between the router and its invariants. A step of the router moves calls between the
  hands of the running code, the queues, the spawns, the table of pending deliveries and the ready
  continuations; whatever is said of the state has to survive those moves only. The locale
  \<open>router_laws\<close> names the moves, with the calls in hand as a multiset, and its lemmas carry them to
  every operation, every event and every run. Each invariant is one interpretation of it.
\<close>

section \<open>Calls in hand\<close>

text \<open>A caller not yet answered, a call that got its number, a call that may be delivered.\<close>

datatype held = Caller sink | Held call_ctx | Cleared call_ctx

fun hand :: "kont \<Rightarrow> held" where
  "hand (AtGate cc) = Held cc"
| "hand (AtTarget cc) = Cleared cc"

fun kont_msg :: "kont \<Rightarrow> deliver_msg" where
  "kont_msg (AtGate cc) = gate_msg cc"
| "kont_msg (AtTarget cc) = target_msg cc"

definition q_ok :: "queued \<Rightarrow> bool" where
  "q_ok q \<longleftrightarrow> q_msg q = kont_msg (q_kont q)"

text \<open>Effects no invariant looks at.\<close>

fun neutral :: "effect \<Rightarrow> bool" where
  "neutral (PostInit i) = True"
| "neutral (RelayChunk k x) = True"
| "neutral (JournalLine x) = True"
| "neutral (Terminate i b) = True"
| "neutral (Woken i b) = True"
| "neutral e = False"

fun reply :: "sink \<Rightarrow> string \<Rightarrow> port_result \<Rightarrow> effect" where
  "reply (ToWorker pid callId) causation r = PostResult pid callId r"
| "reply ToRoot causation r = RootResult causation r"

lemma set_queue_insert [simp]: "set (queue_insert q qs) = insert q (set qs)"
  by (induction qs) auto

lemma answer_reply: "answer cc r s = emit (reply (cc_sink cc) (cc_causation cc) r) s"
  by (cases "cc_sink cc") (simp_all add: answer_def)

section \<open>Fields an operation leaves alone\<close>

lemma emit_fields [simp]:
  "rt_waiting (emit e s) = rt_waiting s" "rt_pending (emit e s) = rt_pending s"
  "rt_inflight (emit e s) = rt_inflight s" "rt_compartments (emit e s) = rt_compartments s"
  "rt_spawning (emit e s) = rt_spawning s" "rt_ready (emit e s) = rt_ready s"
  "rt_opRisk (emit e s) = rt_opRisk s" "rt_callSeq (emit e s) = rt_callSeq s"
  "rt_dormant (emit e s) = rt_dormant s" "rt_tokens (emit e s) = rt_tokens s"
  "rt_generation (emit e s) = rt_generation s" "rt_out (emit e s) = rt_out s @ [e]"
  "rt_kernel (emit e s) = rt_kernel s" "rt_graphSeen (emit e s) = rt_graphSeen s" "rt_opRoute (emit e s) = rt_opRoute s" "rt_waiters (emit e s) = rt_waiters s"
  by (simp_all add: emit_def)

lemma resolve_fields [simp]:
  "rt_waiting (resolve_kont k r s) = rt_waiting s" "rt_pending (resolve_kont k r s) = rt_pending s"
  "rt_inflight (resolve_kont k r s) = rt_inflight s" "rt_compartments (resolve_kont k r s) = rt_compartments s"
  "rt_spawning (resolve_kont k r s) = rt_spawning s" "rt_ready (resolve_kont k r s) = rt_ready s @ [(k, r)]"
  "rt_opRisk (resolve_kont k r s) = rt_opRisk s" "rt_callSeq (resolve_kont k r s) = rt_callSeq s"
  "rt_dormant (resolve_kont k r s) = rt_dormant s" "rt_tokens (resolve_kont k r s) = rt_tokens s"
  "rt_generation (resolve_kont k r s) = rt_generation s" "rt_out (resolve_kont k r s) = rt_out s"
  "rt_kernel (resolve_kont k r s) = rt_kernel s" "rt_graphSeen (resolve_kont k r s) = rt_graphSeen s" "rt_opRoute (resolve_kont k r s) = rt_opRoute s"
  "rt_waiters (resolve_kont k r s) = rt_waiters s"
  by (simp_all add: resolve_kont_def)

lemma dec_fields [simp]:
  "rt_waiting (decInflight t k s) = rt_waiting s" "rt_pending (decInflight t k s) = rt_pending s"
  "rt_compartments (decInflight t k s) = rt_compartments s"
  "rt_spawning (decInflight t k s) = rt_spawning s" "rt_ready (decInflight t k s) = rt_ready s"
  "rt_opRisk (decInflight t k s) = rt_opRisk s" "rt_callSeq (decInflight t k s) = rt_callSeq s"
  "rt_dormant (decInflight t k s) = rt_dormant s" "rt_tokens (decInflight t k s) = rt_tokens s"
  "rt_generation (decInflight t k s) = rt_generation s" "rt_kernel (decInflight t k s) = rt_kernel s"
  "rt_graphSeen (decInflight t k s) = rt_graphSeen s" "rt_opRoute (decInflight t k s) = rt_opRoute s" "rt_out (decInflight t k s) = rt_out s"
  by (simp_all add: decInflight_def split: option.split)

lemma list_of_set [simp]: "list_of (map_set t l m) u = (if u = t then l else list_of m u)"
  by (simp add: list_of_def)

lemma list_of_del [simp]: "list_of (map_del t m) u = (if u = t then [] else list_of m u)"
  by (simp add: list_of_def)

lemma list_of_empty [simp]: "list_of [] t = []"
  by (simp add: list_of_def)

lemma dec_list_of: "list_of (rt_inflight (decInflight t k s)) u =
    (if u = t then set_del k (list_of (rt_inflight s) u) else list_of (rt_inflight s) u)"
  by (simp add: decInflight_def list_of_def set_del_def split: option.split)

lemma set_state_fields [simp]:
  "rt_waiting (set_state i f s) = rt_waiting s" "rt_pending (set_state i f s) = rt_pending s"
  "rt_inflight (set_state i f s) = rt_inflight s"
  "rt_spawning (set_state i f s) = rt_spawning s" "rt_ready (set_state i f s) = rt_ready s"
  "rt_opRisk (set_state i f s) = rt_opRisk s" "rt_callSeq (set_state i f s) = rt_callSeq s"
  "rt_dormant (set_state i f s) = rt_dormant s" "rt_tokens (set_state i f s) = rt_tokens s"
  "rt_generation (set_state i f s) = rt_generation s" "rt_kernel (set_state i f s) = rt_kernel s"
  "rt_graphSeen (set_state i f s) = rt_graphSeen s" "rt_opRoute (set_state i f s) = rt_opRoute s" "rt_out (set_state i f s) = rt_out s"
  by (simp_all add: set_state_def split: option.split)

lemma admit_fields [simp]:
  "rt_waiting (admit_now t q s) = rt_waiting s" "rt_spawning (admit_now t q s) = rt_spawning s"
  "rt_ready (admit_now t q s) = rt_ready s" "rt_opRisk (admit_now t q s) = rt_opRisk s"
  "rt_callSeq (admit_now t q s) = rt_callSeq s" "rt_dormant (admit_now t q s) = rt_dormant s"
  "rt_tokens (admit_now t q s) = rt_tokens s" "rt_generation (admit_now t q s) = rt_generation s"
  "rt_out (admit_now t q s) = rt_out s @ [PostDeliver t (q_msg q)]"
  "rt_kernel (admit_now t q s) = rt_kernel s" "rt_graphSeen (admit_now t q s) = rt_graphSeen s" "rt_opRoute (admit_now t q s) = rt_opRoute s"
  by (simp_all add: admit_now_def Let_def)

text \<open>No operation drops a compartment.\<close>

declare not_None_eq [iff del]

lemma set_state_has [simp]: "map_get (rt_compartments (set_state i f s)) j = None \<longleftrightarrow> map_get (rt_compartments s) j = None"
  by (simp add: set_state_def split: option.split)

lemma admit_has [simp]: "map_get (rt_compartments (admit_now t q s)) j = None \<longleftrightarrow> map_get (rt_compartments s) j = None"
  by (simp add: admit_now_def Let_def split: option.split)

lemma drain_has [simp]: "map_get (rt_compartments (drain_queue now t l s)) j = None \<longleftrightarrow> map_get (rt_compartments s) j = None"
  by (induction l arbitrary: s) (simp_all add: Let_def)

lemma fold_has:
  "(\<And>x s. map_get (rt_compartments (f x s)) j = None \<longleftrightarrow> map_get (rt_compartments s) j = None) \<Longrightarrow>
   map_get (rt_compartments (fold f l s)) j = None \<longleftrightarrow> map_get (rt_compartments s) j = None"
  by (induction l arbitrary: s) simp_all

lemma to_target_has [simp]: "map_get (rt_compartments (to_target now cc s)) j = None \<longleftrightarrow> map_get (rt_compartments s) j = None"
  by (simp add: to_target_def deliver_def enqueue_def admit_def release_slot_def Let_def split: option.split)

lemma wake_has [simp]: "map_get (rt_compartments (wake_one now i err w s)) j = None \<longleftrightarrow> map_get (rt_compartments s) j = None"
  by (cases "(now, i, err, w, s)" rule: wake_one.cases) (simp_all add: spawn_done_def spawn_failed_def fold_has)

lemma fail_key_has [simp]: "rt_compartments (fail_key reason key s) = rt_compartments s"
  by (simp add: fail_key_def split: option.split)

lemma fail_key_inflight [simp]: "rt_inflight (fail_key reason key s) = rt_inflight s"
  by (simp add: fail_key_def split: option.split)

lemma fail_key_pending: "map_get (rt_pending (fail_key reason key s)) k = (if k = key then None else map_get (rt_pending s) k)"
  by (simp add: fail_key_def split: option.split)

lemma fail_fold_inflight: "rt_inflight (fold (fail_key reason) keys s) = rt_inflight s"
  by (induction keys arbitrary: s) simp_all

lemma fail_fold_get:
  "map_get (rt_pending (fold (fail_key reason) keys s)) k = (if k \<in> set keys then None else map_get (rt_pending s) k)"
  by (induction keys arbitrary: s) (auto simp: fail_key_pending)

lemma fail_fold_pending: "k \<in> set keys \<Longrightarrow> map_get (rt_pending (fold (fail_key reason) keys s)) k = None"
  by (simp add: fail_fold_get)

lemma failInflight_has [simp]:
  "map_get (rt_compartments (failInflight now pid reason s)) j = None \<longleftrightarrow> map_get (rt_compartments s) j = None"
  by (simp add: failInflight_def fail_keys_def fail_waiting_def wakeReady_def Let_def fold_has split: option.split)

lemma tokens_revoke_has [simp]: "rt_compartments (snd (tokens_revoke who v s)) = rt_compartments s"
  by (simp add: tokens_revoke_def Let_def)

text \<open>What a host op can do to the state.\<close>

lemma snd_if: "(b \<Longrightarrow> P (snd x)) \<Longrightarrow> (\<not> b \<Longrightarrow> P (snd y)) \<Longrightarrow> P (snd (if b then x else y))"
  by simp

lemma snd_option:
  "(v = None \<Longrightarrow> P (snd n)) \<Longrightarrow> (\<And>x. v = Some x \<Longrightarrow> P (snd (f x))) \<Longrightarrow> P (snd (case v of None \<Rightarrow> n | Some x \<Rightarrow> f x))"
  by (simp split: option.split)

lemma snd_sum:
  "(\<And>e. v = Inl e \<Longrightarrow> P (snd (g e))) \<Longrightarrow> (\<And>x. v = Inr x \<Longrightarrow> P (snd (f x))) \<Longrightarrow>
   P (snd (case v of Inl e \<Rightarrow> g e | Inr x \<Rightarrow> f x))"
  by (simp split: sum.split)

lemma hostOp_state:
  assumes "P s"
    and "\<And>pid fast reason. P (emit (Terminate pid fast) (set_state pid (\<lambda>h. h\<lparr>h_state := Stopped\<rparr>) (failInflight now pid reason s)))"
    and "P (emit (JournalLine payload) s)"
    and "\<And>v. P (snd (tokens_revoke callerId v s))"
    and "\<And>k a. rt_kernel s = Some k \<Longrightarrow> P (s\<lparr>rt_kernel := Some (k\<lparr>k_state := a\<rparr>)\<rparr>)"
  shows "P (snd (hostOp c now callerId op payload s))"
  unfolding hostOp_def Let_def
  by (intro snd_if [where P = P] snd_option [where P = P] snd_sum [where P = P]; simp add: assms split_def)

lemma hostOp_has:
  "map_get (rt_compartments (snd (hostOp c now callerId op payload s))) j = None \<longleftrightarrow> map_get (rt_compartments s) j = None"
  by (rule hostOp_state) simp_all

section \<open>The callers an event brings\<close>

definition asks :: "router \<Rightarrow> event \<Rightarrow> held multiset" where
  "asks s e =
     (case e of
        Message pid (MCall m) \<Rightarrow> if map_has (rt_compartments s) pid then {#Caller (ToWorker pid (cl_callId m))#} else {#}
      | RootCall op payload deadline stream \<Rightarrow> {#Caller ToRoot#}
      | _ \<Rightarrow> {#})"

section \<open>The laws\<close>

locale router_laws =
  fixes I :: "held multiset \<Rightarrow> router \<Rightarrow> bool"
  assumes forget: "I (add_mset (Held cc) H) s \<Longrightarrow> I (add_mset (Caller (cc_sink cc)) H) s"
    and unclear: "I (add_mset (Cleared cc) H) s \<Longrightarrow> I (add_mset (Held cc) H) s"
    and riskless: "\<not> map_has (rt_opRisk s) (cc_op cc) \<Longrightarrow> I (add_mset (Held cc) H) s \<Longrightarrow> I (add_mset (Cleared cc) H) s"
    and allow: "I (add_mset (Held cc) H) s \<Longrightarrow>
        I (add_mset (Cleared cc) H) (emit (GateLine (cc_who cc) (cc_op cc) Allow reason None (cc_causation cc)) s)"
    and stop: "verdict \<noteq> Allow \<Longrightarrow> I H s \<Longrightarrow> I H (emit (GateLine who op verdict reason consent causation) s)"
    and quiet: "neutral e \<Longrightarrow> I H s \<Longrightarrow> I H (emit e s)"
    and number: "I (add_mset (Caller (cc_sink cc)) H) s \<Longrightarrow> cc_causation cc = fst (nextCausation s) \<Longrightarrow>
        I (add_mset (Held cc) H) (snd (nextCausation s))"
    and replied: "I (add_mset (Caller snk) H) s \<Longrightarrow> I H (emit (reply snk causation r) s)"
    and thrown: "I (add_mset (Caller snk) H) s \<Longrightarrow> I H (emit (Unhandled snk) s)"
    and resolved: "I (add_mset (Held (kont_ctx k)) H) s \<Longrightarrow> I H (resolve_kont k r s)"
    and resumed: "rt_ready s = (k, r) # rest \<Longrightarrow> I H s \<Longrightarrow> I (add_mset (Held (kont_ctx k)) H) (s\<lparr>rt_ready := rest\<rparr>)"
    and admitted: "q_ok q \<Longrightarrow> I (add_mset (hand (q_kont q)) H) s \<Longrightarrow> I H (admit_now t q s)"
    and taken: "map_get (rt_pending s) key = Some p \<Longrightarrow> I H s \<Longrightarrow>
        I (add_mset (Held (kont_ctx (pc_kont p))) H) (s\<lparr>rt_pending := map_del key (rt_pending s)\<rparr>)"
    and unslotted: "I H s \<Longrightarrow> I H (decInflight t [] s)"
    and freed: "\<not> map_has (rt_pending s) key \<Longrightarrow> I H s \<Longrightarrow> I H (decInflight t key s)"
    and cleared: "\<forall>k \<in> set (list_of (rt_inflight s) t). \<not> map_has (rt_pending s) k \<Longrightarrow> I H s \<Longrightarrow>
        I H (s\<lparr>rt_inflight := map_set t [] (rt_inflight s)\<rparr>)"
    and queued: "q_ok q \<Longrightarrow> I (add_mset (hand (q_kont q)) H) s \<Longrightarrow>
        I H (s\<lparr>rt_waiting := map_set t (queue_insert q (list_of (rt_waiting s) t)) (rt_waiting s)\<rparr>)"
    and popped: "list_of (rt_waiting s) t = q # qs \<Longrightarrow> I H s \<Longrightarrow>
        q_ok q \<and> I (add_mset (hand (q_kont q)) H) (s\<lparr>rt_waiting := map_set t qs (rt_waiting s)\<rparr>)"
    and flushed: "I H s \<Longrightarrow> I (image_mset (\<lambda>q. hand (q_kont q)) (mset (list_of (rt_waiting s) t)) + H)
        (s\<lparr>rt_waiting := map_del t (rt_waiting s)\<rparr>)"
    and parked: "I (add_mset (Cleared cc) H) s \<Longrightarrow>
        I H (s\<lparr>rt_spawning := map_set i (list_of (rt_spawning s) i @ [cc]) (rt_spawning s)\<rparr>)"
    and unparked: "I H s \<Longrightarrow> I (image_mset Cleared (mset (list_of (rt_spawning s) i)) + H)
        (s\<lparr>rt_spawning := map_del i (rt_spawning s)\<rparr>)"
    and marked: "I H s \<Longrightarrow> I H (set_state i f s)"
    and waits: "I H s \<Longrightarrow> I H (s\<lparr>rt_waiters := w\<rparr>)"
    and arbiter: "rt_kernel s = Some k0 \<Longrightarrow> I H s \<Longrightarrow> I H (s\<lparr>rt_kernel := Some (k0\<lparr>k_state := a\<rparr>)\<rparr>)"
    and awake: "I H s \<Longrightarrow> I H (s\<lparr>rt_dormant := map_del i (rt_dormant s)\<rparr>)"
    and revoked: "I H s \<Longrightarrow> I H (snd (tokens_revoke who v s))"
    and spawned: "map_get (rt_dormant s) i = Some d \<Longrightarrow>
        register c now (do_entry d) (do_manifest d) (do_tokens d) s = Inr s1 \<Longrightarrow> I H s \<Longrightarrow> I H s1"
begin

lemma hand_held: "I (add_mset (hand k) H) s \<Longrightarrow> I (add_mset (Held (kont_ctx k)) H) s"
  by (cases k) (auto intro: unclear)

lemma resolved_hand: "I (add_mset (hand k) H) s \<Longrightarrow> I H (resolve_kont k r s)"
  by (intro resolved hand_held)

lemma fold_calls:
  assumes f: "\<And>x H s. I (add_mset (g x) H) s \<Longrightarrow> I H (f x s)"
  shows "I (image_mset g (mset l) + H) s \<Longrightarrow> I H (fold f l s)"
  by (induction l arbitrary: s) (auto intro: f)

lemma fold_keeps: "(\<And>x s. I H s \<Longrightarrow> I H (f x s)) \<Longrightarrow> I H s \<Longrightarrow> I H (fold f l s)"
  by (induction l arbitrary: s) auto

subsection \<open>Delivery\<close>

lemma drain_keeps: "list_of (rt_waiting s) t = l \<Longrightarrow> I H s \<Longrightarrow> I H (drain_queue now t l s)"
proof (induction l arbitrary: s)
  case (Cons q qs)
  note p = popped [OF Cons.prems]
  show ?case
  proof (cases "expired now q")
    case True
    let ?s = "decInflight t [] (resolve_kont (q_kont q) (deadline_error '' in queue'' (q_msg q))
        (s\<lparr>rt_waiting := map_set t qs (rt_waiting s)\<rparr>))"
    have "I H ?s" using p by (intro unslotted resolved_hand) simp
    moreover have "list_of (rt_waiting ?s) t = qs" by simp
    ultimately show ?thesis using True Cons.IH by (simp add: Let_def)
  qed (use p in \<open>simp add: Let_def admitted\<close>)
qed simp

lemma release_keeps: "\<not> map_has (rt_pending s) key \<Longrightarrow> I H s \<Longrightarrow> I H (release_slot now t key s)"
  unfolding release_slot_def by (intro drain_keeps freed) simp_all

lemma release_none_keeps: "I H s \<Longrightarrow> I H (release_slot now t [] s)"
  unfolding release_slot_def by (intro drain_keeps unslotted) simp_all

lemma admit_keeps: "q_ok q \<Longrightarrow> I (add_mset (hand (q_kont q)) H) s \<Longrightarrow> I H (admit now t q s)"
  unfolding admit_def
  by (auto intro!: release_none_keeps resolved_hand admitted)

lemma enqueue_keeps: "q_ok q \<Longrightarrow> I (add_mset (hand (q_kont q)) H) s \<Longrightarrow> I H (enqueue now t q s)"
  unfolding enqueue_def by (simp add: admit_keeps queued)

lemma delivery_keeps:
  "I (add_mset (hand k) H) s \<Longrightarrow> m = kont_msg k \<Longrightarrow> I H (deliver now t m stream k s)"
  unfolding deliver_def by (auto simp: Let_def q_ok_def intro!: resolved_hand enqueue_keeps)

subsection \<open>Dispatch\<close>

lemma callLaw_keeps: "I (add_mset (Held cc) H) s \<Longrightarrow> I H (callLaw now cc s)"
  unfolding callLaw_def by (auto split: option.split intro!: resolved delivery_keeps)

lemma to_target_keeps: "I (add_mset (Cleared cc) H) s \<Longrightarrow> I H (to_target now cc s)"
  unfolding to_target_def by (auto split: option.split intro!: resolved_hand delivery_keeps)

lemma past_gate_keeps: "I (add_mset (Cleared cc) H) s \<Longrightarrow> I H (past_gate now cc s)"
  unfolding past_gate_def by (auto intro!: parked to_target_keeps)

lemma dispatch_keeps:
  assumes "I (add_mset (Caller snk) H) s" and "nextCausation s = (causation, s1)"
  shows "I H (dispatch now who op payload deadline causation stream snk s1)"
proof -
  have held: "I (add_mset (Held cc) H) s1" if "cc_sink cc = snk" "cc_causation cc = causation" for cc
    using number [of cc H s] assms that by simp
  show ?thesis
  proof (cases "resolveTarget s1 who op")
    case None
    then show ?thesis by (simp add: dispatch_def resolved held)
  next
    case (Some t)
    then show ?thesis
      by (cases t) (simp add: dispatch_def Let_def callLaw_keeps past_gate_keeps riskless held del: not_None_eq)
  qed
qed

lemma answer_keeps: "I (add_mset (Held cc) H) s \<Longrightarrow> I H (answer cc r s)"
  unfolding answer_reply by (intro replied forget)

lemma after_gate_keeps: "I (add_mset (Held cc) H) s \<Longrightarrow> I H (after_gate now cc r s)"
  unfolding after_gate_def
  by (auto split: port_result.split option.split simp: Let_def intro!: resolved thrown forget stop past_gate_keeps allow)

lemma run_kont_keeps: "I (add_mset (Held (kont_ctx k)) H) s \<Longrightarrow> I H (run_kont now k r s)"
  by (cases k) (auto intro: after_gate_keeps answer_keeps)

subsection \<open>Readiness and crashes\<close>

lemma spawn_failed_keeps: "I H s \<Longrightarrow> I H (spawn_failed i e s)"
  unfolding spawn_failed_def
  by (rule fold_calls [where g = Cleared]) (auto intro: resolved_hand dest: unparked [where i = i])

lemma spawn_done_keeps: "I H s \<Longrightarrow> I H (spawn_done now i s)"
proof -
  assume "I H s"
  from awake [OF unparked [OF this, of i], of i] show ?thesis
    unfolding spawn_done_def by (intro fold_calls [where g = Cleared]) (auto intro: to_target_keeps)
qed

lemma wake_one_keeps: "I H s \<Longrightarrow> I H (wake_one now i err w s)"
  by (cases "(now, i, err, w, s)" rule: wake_one.cases) (auto intro: quiet spawn_done_keeps spawn_failed_keeps)

lemma wakeReady_keeps: "I H s \<Longrightarrow> I H (wakeReady now i err s)"
  unfolding wakeReady_def by (intro fold_keeps wake_one_keeps waits)

lemma waitActive_keeps: "I H s \<Longrightarrow> I H (waitActive now i w s)"
  unfolding waitActive_def by (auto split: option.split compartment_state.split intro: wake_one_keeps waits)

lemma wait_timeout_keeps: "I H s \<Longrightarrow> I H (wait_timeout now i w s)"
  unfolding wait_timeout_def by (auto intro: wake_one_keeps waits)

lemma checkout_keeps: "I H s \<Longrightarrow> I H (checkout_done c now i err s)"
  unfolding checkout_done_def
  by (auto split: option.split sum.split intro!: spawn_failed_keeps spawn_done_keeps waitActive_keeps quiet elim: spawned)

lemma fail_key_keeps: "I H s \<Longrightarrow> I H (fail_key reason key s)"
  unfolding fail_key_def by (auto split: option.split intro!: resolved taken)

lemma fail_waiting_keeps: "I H s \<Longrightarrow> I H (fail_waiting pid reason s)"
  unfolding fail_waiting_def
  by (rule fold_calls [where g = "\<lambda>q. hand (q_kont q)"]) (auto intro: resolved_hand dest: flushed)

lemma fail_keys_keeps:
  assumes "I H s" shows "I H (fail_keys pid reason s)"
proof (cases "map_get (rt_inflight s) pid")
  case (Some keys)
  let ?s = "fold (fail_key reason) keys s"
  have "I H ?s" using assms by (intro fold_keeps fail_key_keeps)
  moreover have "map_get (rt_pending ?s) k = None" if "k \<in> set keys" for k
    using that by (rule fail_fold_pending)
  ultimately have "I H (?s\<lparr>rt_inflight := map_set pid [] (rt_inflight ?s)\<rparr>)"
    using Some by (intro cleared) (auto simp: list_of_def fail_fold_inflight)
  then show ?thesis using Some by (simp add: fail_keys_def Let_def)
qed (use assms in \<open>simp add: fail_keys_def\<close>)

lemma failInflight_keeps: "I H s \<Longrightarrow> I H (failInflight now pid reason s)"
  unfolding failInflight_def by (intro fail_keys_keeps fail_waiting_keeps wakeReady_keeps)

lemma crashed_keeps: "I H s \<Longrightarrow> I H (crashed now pid reason s)"
  unfolding crashed_def by (intro failInflight_keeps marked)

lemma exited_keeps: "I H s \<Longrightarrow> I H (exited now pid code s)"
  unfolding exited_def by (auto split: option.split intro: crashed_keeps)

subsection \<open>Host ops and calls\<close>

lemma hostOp_keeps: "I H s \<Longrightarrow> I H (snd (hostOp c now callerId op payload s))"
  by (rule hostOp_state) (auto intro!: quiet marked failInflight_keeps arbiter revoked)

lemma post_result_keeps:
  "map_get (rt_compartments s) pid = Some h \<Longrightarrow> I (add_mset (Caller (ToWorker pid callId)) H) s \<Longrightarrow>
   I H (post_result s pid callId r)"
  using replied [of "ToWorker pid callId" H s "[]" r] by (simp add: post_result_def)

lemma compartmentCall_keeps:
  assumes I: "I (add_mset (Caller (ToWorker pid (cl_callId m))) H) s"
    and has: "map_has (rt_compartments s) pid"
  shows "I H (compartmentCall c now pid m s)"
proof -
  obtain r s1 where h: "hostOp c now pid (cl_op m) (cl_payload m) s = (r, s1)" by (cases "hostOp c now pid (cl_op m) (cl_payload m) s")
  have I1: "I (add_mset (Caller (ToWorker pid (cl_callId m))) H) s1"
    using hostOp_keeps [OF I, of c now pid "cl_op m" "cl_payload m"] h by simp
  have has1: "map_has (rt_compartments s1) pid"
    using hostOp_has [of c now pid "cl_op m" "cl_payload m" s pid] h has by simp
  show ?thesis
    using has has1
    by (auto simp: compartmentCall_def h not_None_eq split: option.split prod.split
        intro: post_result_keeps [OF _ I] post_result_keeps [OF _ I1] thrown [OF I1] dispatch_keeps [OF I])
qed

lemma callAsRoot_keeps:
  assumes I: "I (add_mset (Caller ToRoot) H) s"
  shows "I H (callAsRoot c now op payload deadline stream s)"
proof -
  obtain r s1 where h: "hostOp c now ''root'' op payload s = (r, s1)" by (cases "hostOp c now ''root'' op payload s")
  have I1: "I (add_mset (Caller ToRoot) H) s1"
    using hostOp_keeps [OF I, of c now "''root''" op payload] h by simp
  show ?thesis
    using replied [OF I1, of "''n/a''"]
    by (auto simp: callAsRoot_def h split: option.split prod.split intro: thrown [OF I1] dispatch_keeps [OF I])
qed

lemma onReturn_keeps: "I H s \<Longrightarrow> I H (onReturn now pid causation r s)"
  unfolding onReturn_def
  by (auto split: option.split intro!: resolved release_keeps taken)

lemma deadline_keeps: "I H s \<Longrightarrow> I H (deadline_fired now key s)"
  unfolding deadline_fired_def
  by (auto split: option.split intro!: resolved release_keeps taken)

subsection \<open>Events and runs\<close>

lemma step_keeps:
  assumes "I (asks s e + H) s" shows "I H (router_step c s (now, e))"
proof (cases e)
  case (Message pid m)
  then show ?thesis
    using assms
    by (cases m) (auto simp: asks_def intro!: onReturn_keeps quiet wakeReady_keeps marked compartmentCall_keeps split: option.split)
qed (use assms in \<open>auto simp: asks_def intro!: deadline_keeps crashed_keeps exited_keeps callAsRoot_keeps
    checkout_keeps wait_timeout_keeps run_kont_keeps resumed split: list.split\<close>)

end

text \<open>An invariant that does not count callers survives every run.\<close>

locale router_safety = router_laws +
  assumes asked: "I H s \<Longrightarrow> I (add_mset (Caller snk) H) s"
begin

lemma run_keeps: "I {#} s \<Longrightarrow> I {#} (router_run c s es)"
proof (induction es arbitrary: s)
  case (Cons te es)
  obtain now e where te: "te = (now, e)" by (cases te)
  have "I (asks s e + {#}) s"
    using Cons.prems by (auto simp: asks_def intro: asked split: event.split from_worker.split)
  from step_keeps [OF this] te Cons.IH show ?case by (simp add: router_run_def)
qed (simp add: router_run_def)

end

end
