(* ===== verification/Router_Boot.thy ===== *)
theory Router_Boot
  imports Router_Machine
begin

text \<open>
  The boot of the router (\<open>bootComposition\<close> of \<open>host/src/boot.ts\<close>): entries are taken in phase order,
  phase 0 is spawned and registered, the rest is registered dormant, and the boot then waits for the
  spawned ones. The checkout of a worker is assumed to succeed; an error of the graph ends the boot.
  The lemmas say what a booted router looks like before its first event.
\<close>

section \<open>Boot\<close>

text \<open>\<open>fresh\<close> supplies the random tokens; the state is the number drawn so far and the router.\<close>

definition boot_entry :: "crypto \<Rightarrow> int \<Rightarrow> (nat \<Rightarrow> string) \<Rightarrow> composition_entry \<times> manifest \<Rightarrow> nat \<times> router \<Rightarrow> graph_error + nat \<times> router" where
  "boot_entry c now fresh em ns =
     (let tokens = mintTokensFor (\<lambda>i. fresh (fst ns + i)) (fst em);
          n = fst ns + length (g_capabilities (ce_grant (fst em)))
      in if ce_bootPhase (fst em) = 0
         then res_bind (register c now (fst em) (snd em) tokens (snd ns)) (\<lambda>s. Inr (n, emit (PostInit (ce_id (fst em))) s))
         else res_bind (registerDormant c (fst em) (snd em) tokens (snd ns)) (\<lambda>s. Inr (n, s)))"

definition boot_router ::
    "crypto \<Rightarrow> int \<Rightarrow> (nat \<Rightarrow> string) \<Rightarrow> kernel option \<Rightarrow> (composition_entry \<times> manifest) list \<Rightarrow> graph_error + router" where
  "boot_router c now fresh k entries =
     (let phases = sort_key (\<lambda>em. ce_bootPhase (fst em)) entries in
      res_bind (res_fold (boot_entry c now fresh) phases (0, new_router k)) (\<lambda>ns.
        Inr (fold (\<lambda>em. waitActive now (ce_id (fst em)) BootWaiter) (filter (\<lambda>em. ce_bootPhase (fst em) = 0) phases) (snd ns))))"

section \<open>What registration changes\<close>

lemma res_bind_InrE: "res_bind m f = Inr y \<Longrightarrow> (\<And>x. m = Inr x \<Longrightarrow> f x = Inr y \<Longrightarrow> thesis) \<Longrightarrow> thesis"
  by (cases m) (auto simp: res_bind_def)

lemma registerGraph_shape:
  assumes "registerGraph c e m s = Inr s1"
  obtains k g where "s1 = s\<lparr>rt_kernel := k, rt_graphSeen := g\<rparr>" and "set (rt_graphSeen s) \<subseteq> set g"
    and "k = None \<or> ce_id e \<in> set g" and "k = None \<longleftrightarrow> rt_kernel s = None"
proof (cases "rt_kernel s")
  case None
  then show thesis using assms that [where k = "rt_kernel s" and g = "rt_graphSeen s"] by (simp add: registerGraph_def)
next
  case (Some k)
  show thesis
  proof (cases "ce_id e \<in> set (rt_graphSeen s)")
    case True
    then show thesis using Some assms that [where k = "rt_kernel s" and g = "rt_graphSeen s"] by (simp add: registerGraph_def)
  next
    case False
    then obtain k2 where "s1 = s\<lparr>rt_kernel := Some k2, rt_graphSeen := set_add (ce_id e) (rt_graphSeen s)\<rparr>"
      using Some assms by (auto simp: registerGraph_def elim!: res_bind_InrE)
    then show thesis using Some that [where k = "Some k2" and g = "set_add (ce_id e) (rt_graphSeen s)"] by auto
  qed
qed

lemma registerGraph_seen: "rt_kernel s = None \<or> ce_id e \<in> set (rt_graphSeen s) \<Longrightarrow> registerGraph c e m s = Inr s"
  by (auto simp: registerGraph_def split: option.split)

definition add_token :: "string \<Rightarrow> nat \<Rightarrow> string \<times> string \<Rightarrow> (string, token_record) jsmap \<Rightarrow> (string, token_record) jsmap" where
  "add_token pid gen kt ts =
     (if map_has ts (snd kt) then ts
      else map_set (snd kt)
        \<lparr>tr_token = snd kt, tr_pluginId = pid, tr_cap = effectiveCap (fst kt), tr_gen = gen, tr_revoked = False\<rparr> ts)"

definition install_tokens_map :: "string \<Rightarrow> nat \<Rightarrow> (string, string) jsmap \<Rightarrow> (string, token_record) jsmap \<Rightarrow> (string, token_record) jsmap" where
  "install_tokens_map pid gen tokens ts = fold (add_token pid gen) tokens ts"

lemma installTokens_eq:
  "installTokens pid tokens s = s\<lparr>rt_tokens := install_tokens_map pid (rt_generation s) tokens (rt_tokens s)\<rparr>"
proof -
  have one: "(\<lambda>(key, tok) s1.
        if map_has (rt_tokens s1) tok then s1
        else s1\<lparr>rt_tokens := map_set tok
          \<lparr>tr_token = tok, tr_pluginId = pid, tr_cap = effectiveCap key, tr_gen = rt_generation s1, tr_revoked = False\<rparr>
          (rt_tokens s1)\<rparr>) kt s = s\<lparr>rt_tokens := add_token pid (rt_generation s) kt (rt_tokens s)\<rparr>" for kt s
    by (cases kt) (simp add: add_token_def)
  show ?thesis
    unfolding installTokens_def install_tokens_map_def
    by (induction tokens arbitrary: s) (simp_all add: one)
qed

lemma add_token_keep: "map_get ts tok = Some r \<Longrightarrow> map_get (add_token pid gen kt ts) tok = Some r"
  by (auto simp: add_token_def)

lemma install_tokens_keep: "map_get ts tok = Some r \<Longrightarrow> map_get (install_tokens_map pid gen tokens ts) tok = Some r"
  unfolding install_tokens_map_def by (induction tokens arbitrary: ts) (simp_all add: add_token_keep)

lemma install_tokens_has: "map_has ts tok \<Longrightarrow> map_has (install_tokens_map pid gen tokens ts) tok"
  using install_tokens_keep [of ts tok _ pid gen tokens] by (auto simp: not_None_eq)

lemma install_tokens_covers: "(key, tok) \<in> set tokens \<Longrightarrow> map_has (install_tokens_map pid gen tokens ts) tok"
proof (induction tokens arbitrary: ts)
  case (Cons kt tokens)
  have step: "install_tokens_map pid gen (kt # tokens) ts = install_tokens_map pid gen tokens (add_token pid gen kt ts)"
    by (simp add: install_tokens_map_def)
  show ?case
  proof (cases "(key, tok) = kt")
    case True
    then have "map_has (add_token pid gen kt ts) tok" by (auto simp: add_token_def)
    then show ?thesis unfolding step by (rule install_tokens_has)
  next
    case False
    then show ?thesis using Cons step by simp
  qed
qed simp

lemma install_tokens_absorb:
  "\<forall>kt \<in> set tokens. map_has ts (snd kt) \<Longrightarrow> install_tokens_map pid gen tokens ts = ts"
  unfolding install_tokens_map_def by (induction tokens arbitrary: ts) (auto simp: add_token_def)

lemma fold_map_set_has:
  "map_has (fold (\<lambda>(k, v). map_set k v) l m) x \<longleftrightarrow> map_has m x \<or> x \<in> set (map_keys l)"
  by (induction l arbitrary: m) (auto simp: split_def)

definition risk_after :: "manifest \<Rightarrow> (string, risk_class) jsmap \<Rightarrow> (string, risk_class) jsmap" where
  "risk_after m r = fold (\<lambda>(op, risk). map_set op risk) (riskyOps m) r"

lemma risk_after_has: "map_has (risk_after m r) x \<longleftrightarrow> map_has r x \<or> x \<in> set (map_keys (riskyOps m))"
  by (simp add: risk_after_def fold_map_set_has)

text \<open>The fields a registration does not touch, and those it does.\<close>

lemma register_shape:
  assumes "register c now e m tokens s = Inr s1"
  shows "rt_waiting s1 = rt_waiting s" "rt_pending s1 = rt_pending s" "rt_inflight s1 = rt_inflight s"
    "rt_spawning s1 = rt_spawning s" "rt_ready s1 = rt_ready s" "rt_out s1 = rt_out s" "rt_callSeq s1 = rt_callSeq s"
    "rt_dormant s1 = rt_dormant s" "rt_generation s1 = rt_generation s" "rt_opRisk s1 = risk_after m (rt_opRisk s)"
    "rt_tokens s1 = install_tokens_map (ce_id e) (rt_generation s) tokens (rt_tokens s)"
    "rt_compartments s1 = map_set (ce_id e) (new_handle now) (rt_compartments s)"
    "rt_opRoute s1 = fold (\<lambda>op r. map_set op (ce_id e) r) (g_contracts (ce_grant e)) (rt_opRoute s)"
    "set (rt_graphSeen s) \<subseteq> set (rt_graphSeen s1)" "rt_kernel s1 = None \<or> ce_id e \<in> set (rt_graphSeen s1)"
    "rt_kernel s1 = None \<longleftrightarrow> rt_kernel s = None"
  using assms unfolding register_def
  by (auto simp: installTokens_eq install_entry_def risk_after_def elim!: res_bind_InrE registerGraph_shape)

lemma registerDormant_shape:
  assumes "registerDormant c e m tokens s = Inr s1"
  shows "rt_waiting s1 = rt_waiting s" "rt_pending s1 = rt_pending s" "rt_inflight s1 = rt_inflight s"
    "rt_spawning s1 = rt_spawning s" "rt_ready s1 = rt_ready s" "rt_out s1 = rt_out s" "rt_callSeq s1 = rt_callSeq s"
    "rt_dormant s1 = map_set (ce_id e) \<lparr>do_entry = e, do_manifest = m, do_tokens = tokens\<rparr> (rt_dormant s)"
    "rt_generation s1 = rt_generation s" "rt_opRisk s1 = risk_after m (rt_opRisk s)"
    "rt_tokens s1 = install_tokens_map (ce_id e) (rt_generation s) tokens (rt_tokens s)"
    "rt_compartments s1 = rt_compartments s"
    "rt_opRoute s1 = fold (\<lambda>op r. map_set op (ce_id e) r) (g_contracts (ce_grant e)) (rt_opRoute s)"
    "set (rt_graphSeen s) \<subseteq> set (rt_graphSeen s1)" "rt_kernel s1 = None \<or> ce_id e \<in> set (rt_graphSeen s1)"
    "rt_kernel s1 = None \<longleftrightarrow> rt_kernel s = None"
  using assms unfolding registerDormant_def
  by (auto simp: installTokens_eq install_entry_def risk_after_def Let_def elim!: res_bind_InrE registerGraph_shape)

section \<open>Dormant entries\<close>

text \<open>A dormant entry was registered whole: its risky ops, its tokens and its graph node are there.\<close>

definition dormant_ok :: "router \<Rightarrow> bool" where
  "dormant_ok s \<longleftrightarrow>
     (\<forall>i d. map_get (rt_dormant s) i = Some d \<longrightarrow>
        ce_id (do_entry d) = i \<and>
        (\<forall>op \<in> set (map_keys (riskyOps (do_manifest d))). map_has (rt_opRisk s) op) \<and>
        (\<forall>(key, tok) \<in> set (do_tokens d). map_has (rt_tokens s) tok) \<and>
        (rt_kernel s = None \<or> i \<in> set (rt_graphSeen s)))"

text \<open>What survives of it when registrations add to the tables.\<close>

lemma dormant_ok_grow:
  assumes "dormant_ok s" and "\<And>i d. map_get (rt_dormant s1) i = Some d \<Longrightarrow> map_get (rt_dormant s) i = Some d"
    and "\<And>op. map_has (rt_opRisk s) op \<Longrightarrow> map_has (rt_opRisk s1) op"
    and "\<And>tok. map_has (rt_tokens s) tok \<Longrightarrow> map_has (rt_tokens s1) tok"
    and "set (rt_graphSeen s) \<subseteq> set (rt_graphSeen s1)" and "rt_kernel s = None \<Longrightarrow> rt_kernel s1 = None"
  shows "dormant_ok s1"
  using assms unfolding dormant_ok_def by (fast)

lemma dormant_ok_same:
  assumes "dormant_ok s" and "rt_dormant s1 = rt_dormant s" and "rt_opRisk s1 = rt_opRisk s"
    and "rt_tokens s1 = rt_tokens s" and "rt_graphSeen s1 = rt_graphSeen s" and "rt_kernel s1 = rt_kernel s"
  shows "dormant_ok s1"
  using assms by (simp add: dormant_ok_def)

lemma register_dormant_ok:
  assumes "register c now e m tokens s = Inr s1" and "dormant_ok s"
  shows "dormant_ok s1"
  by (rule dormant_ok_grow [OF assms(2)])
    (use register_shape [OF assms(1)] in \<open>auto simp: risk_after_has install_tokens_has\<close>)

lemma registerDormant_dormant_ok:
  assumes "registerDormant c e m tokens s = Inr s1" and "dormant_ok s"
  shows "dormant_ok s1"
proof -
  note sh = registerDormant_shape [OF assms(1)]
  have old: "dormant_ok (s1\<lparr>rt_dormant := rt_dormant s\<rparr>)"
    by (rule dormant_ok_grow [OF assms(2)]) (use sh in \<open>auto simp: risk_after_has install_tokens_has\<close>)
  have "map_has (rt_tokens s1) tok" if "(key, tok) \<in> set tokens" for key tok
    using install_tokens_covers [OF that] sh by simp
  then show ?thesis
    using old sh by (auto simp: dormant_ok_def risk_after_has)
qed

text \<open>The registration of a dormant entry, at its first touch.\<close>

lemma respawn_shape:
  assumes ok: "dormant_ok s" and d: "map_get (rt_dormant s) i = Some d"
    and r: "register c now (do_entry d) (do_manifest d) (do_tokens d) s = Inr s1"
  shows "rt_tokens s1 = rt_tokens s" and "map_has (rt_opRisk s1) op \<longleftrightarrow> map_has (rt_opRisk s) op"
    and "dormant_ok s1"
proof -
  have toks: "\<forall>kt \<in> set (do_tokens d). map_has (rt_tokens s) (snd kt)"
    and risks: "\<forall>x \<in> set (map_keys (riskyOps (do_manifest d))). map_has (rt_opRisk s) x"
    using ok d unfolding dormant_ok_def split_def by blast+
  show "rt_tokens s1 = rt_tokens s" using register_shape(11) [OF r] toks by (simp add: install_tokens_absorb)
  show "map_has (rt_opRisk s1) op \<longleftrightarrow> map_has (rt_opRisk s) op"
    unfolding register_shape(10) [OF r] risk_after_has using risks by blast
  show "dormant_ok s1" by (rule register_dormant_ok [OF r ok])
qed

lemma respawn_registers:
  assumes "dormant_ok s" and "map_get (rt_dormant s) i = Some d"
  obtains s1 where "register c now (do_entry d) (do_manifest d) (do_tokens d) s = Inr s1"
  using assms by (force simp: dormant_ok_def register_def res_bind_def registerGraph_seen install_entry_def)

text \<open>What a revoke does to the table.\<close>

lemma revoke_tokens_get:
  "map_get (revoke_tokens P ts) tok = map_option (\<lambda>r. if P r then r\<lparr>tr_revoked := True\<rparr> else r) (map_get ts tok)"
  by (induction ts) (auto simp: revoke_tokens_def)

lemma tokens_revoke_shape:
  "\<exists>gen hit line. snd (tokens_revoke who v s) =
     emit (JournalLine line) (s\<lparr>rt_generation := gen, rt_tokens := revoke_tokens hit (rt_tokens s)\<rparr>)"
  unfolding tokens_revoke_def Let_def snd_conv by (intro exI) (rule refl)

section \<open>The booted router\<close>

definition boot_ok :: "router \<Rightarrow> bool" where
  "boot_ok s \<longleftrightarrow> rt_waiting s = [] \<and> rt_pending s = [] \<and> rt_inflight s = [] \<and> rt_spawning s = [] \<and>
     rt_ready s = [] \<and> rt_callSeq s = 0 \<and> list_all neutral (rt_out s) \<and> dormant_ok s"

lemma dormant_ok_emit [simp]: "dormant_ok (emit e s) \<longleftrightarrow> dormant_ok s"
  by (simp add: dormant_ok_def emit_def)

lemma dormant_ok_waiters [simp]: "dormant_ok (s\<lparr>rt_waiters := w\<rparr>) \<longleftrightarrow> dormant_ok s"
  by (simp add: dormant_ok_def)

lemma register_boot_ok: "register c now e m tokens s = Inr s1 \<Longrightarrow> boot_ok s \<Longrightarrow> boot_ok s1"
  by (simp add: boot_ok_def register_shape register_dormant_ok)

lemma registerDormant_boot_ok: "registerDormant c e m tokens s = Inr s1 \<Longrightarrow> boot_ok s \<Longrightarrow> boot_ok s1"
  by (simp add: boot_ok_def registerDormant_shape registerDormant_dormant_ok)

lemma emit_boot_ok: "neutral e \<Longrightarrow> boot_ok s \<Longrightarrow> boot_ok (emit e s)"
  by (simp add: boot_ok_def)

lemma boot_entry_ok: "boot_entry c now fresh em ns = Inr ns1 \<Longrightarrow> boot_ok (snd ns) \<Longrightarrow> boot_ok (snd ns1)"
  unfolding boot_entry_def Let_def
  by (auto split: if_splits elim!: res_bind_InrE intro!: emit_boot_ok intro: register_boot_ok registerDormant_boot_ok)

lemma res_fold_keeps:
  "res_fold f xs s = Inr s1 \<Longrightarrow> P s \<Longrightarrow> (\<And>x s s1. f x s = Inr s1 \<Longrightarrow> P s \<Longrightarrow> P s1) \<Longrightarrow> P s1"
  by (induction xs arbitrary: s) (auto elim!: res_bind_InrE)

lemma waitActive_boot_ok: "boot_ok s \<Longrightarrow> boot_ok (waitActive now i BootWaiter s)"
  unfolding waitActive_def
  by (auto split: option.split compartment_state.split intro!: emit_boot_ok simp: boot_ok_def)

lemma fold_boot_ok: "(\<And>x s. boot_ok s \<Longrightarrow> boot_ok (f x s)) \<Longrightarrow> boot_ok s \<Longrightarrow> boot_ok (fold f xs s)"
  by (induction xs arbitrary: s) auto

lemma new_router_boot_ok: "boot_ok (new_router k)"
  by (simp add: boot_ok_def new_router_def dormant_ok_def)

lemma boot_router_ok:
  assumes "boot_router c now fresh k entries = Inr s" shows "boot_ok s"
proof -
  have fold_ok: "boot_ok (snd ns)" if "res_fold (boot_entry c now fresh) xs (0, new_router k) = Inr ns" for xs ns
    by (rule res_fold_keeps [OF that]) (auto intro: boot_entry_ok simp: new_router_boot_ok)
  show ?thesis
    using assms unfolding boot_router_def Let_def
    by (auto elim!: res_bind_InrE intro!: fold_boot_ok waitActive_boot_ok intro: fold_ok)
qed

section \<open>A small composition\<close>

text \<open>For the witnesses: the law, a plugin with a risky op, and a plugin that may call it.\<close>

definition sample_manifest :: "string \<Rightarrow> string \<Rightarrow> risk_class option \<Rightarrow> manifest" where
  "sample_manifest i opn risk = \<lparr>m_id = i, m_version = ''1'', m_entry = ''index.ts'',
     m_contributions = [(KContract, [\<lparr>c_kind = KContract, c_id = opn, c_version = ''1'', c_risk = risk, c_priority = None,
       c_idempotent = None, c_cancellable = None, c_estimatedCostMs = None\<rparr>])],
     m_dependencies = [], m_requested = [], m_tier = WorkerThread, m_maxConcurrentCalls = None, m_contentHash = [],
     m_granularity = None, m_internalSeams = None, m_extractionCandidate = None\<rparr>"

definition sample_entry :: "string \<Rightarrow> string \<Rightarrow> string list \<Rightarrow> nat \<Rightarrow> composition_entry" where
  "sample_entry i op caps phase = \<lparr>ce_id = i, ce_version = ''1'', ce_source = [], ce_manifestPath = [],
     ce_manifestHash = [], ce_contentHash = [], ce_grant = \<lparr>g_capabilities = caps, g_contracts = [op]\<rparr>,
     ce_bootPhase = phase, ce_config = None\<rparr>"

definition sample_entries :: "(composition_entry \<times> manifest) list" where
  "sample_entries =
     [(sample_entry ''mail'' ''mail.send@1'' [] 1, sample_manifest ''mail'' ''mail.send'' (Some EXTERNAL_MUTATION)),
      (sample_entry ''bot'' ''bot.go@1'' [''port:mail.send@1''] 1, sample_manifest ''bot'' ''bot.go'' None),
      (sample_entry ''vivim.law'' law_op [] 0, sample_manifest ''vivim.law'' ''law.check'' None)]"

definition sample_token :: "nat \<Rightarrow> string" where
  "sample_token n = replicate (Suc n) CHR ''t''"

definition sample_boot :: "graph_error + router" where
  "sample_boot = boot_router toy_crypto 0 sample_token None sample_entries"

definition sample_router :: router where
  "sample_router = (case sample_boot of Inr s \<Rightarrow> s | Inl _ \<Rightarrow> new_router None)"

lemma sample_boots: "boot_router toy_crypto 0 sample_token None sample_entries = Inr sample_router"
proof -
  have "\<not> isl sample_boot" by code_simp
  then show ?thesis by (cases sample_boot) (simp_all add: sample_router_def sample_boot_def)
qed

end
