(* ===== verification/Router_Gate.thy ===== *)
theory Router_Gate
  imports Router_Boot
begin

text \<open>
  The gate: in every run of a booted router, a risky op reaches a compartment only after a journal
  line of the gate that allows it, for the same caller, op and causation id. The invariant is the
  first interpretation of \<open>router_laws\<close>; a second one says that revoked tokens stay dead.
\<close>

section \<open>Allow lines\<close>

fun is_allow :: "string \<Rightarrow> string \<Rightarrow> string \<Rightarrow> effect \<Rightarrow> bool" where
  "is_allow who op causation (GateLine w p Allow reason consent k) \<longleftrightarrow> w = who \<and> p = op \<and> k = causation"
| "is_allow who op causation e \<longleftrightarrow> False"

fun posted_ok :: "(string, risk_class) jsmap \<Rightarrow> effect list \<Rightarrow> effect \<Rightarrow> bool" where
  "posted_ok risk before (PostDeliver t m) \<longleftrightarrow>
     dm_op m = law_op \<or> map_get risk (dm_op m) = None \<or>
     list_ex (is_allow (dm_from m) (dm_op m) (dm_causation m)) before"
| "posted_ok risk before e \<longleftrightarrow> True"

fun vouched :: "(string, risk_class) jsmap \<Rightarrow> effect list \<Rightarrow> effect list \<Rightarrow> bool" where
  "vouched risk before [] \<longleftrightarrow> True"
| "vouched risk before (e # es) \<longleftrightarrow> posted_ok risk before e \<and> vouched risk (before @ [e]) es"

lemma vouched_append:
  "vouched risk before (es @ fs) \<longleftrightarrow> vouched risk before es \<and> vouched risk (before @ es) fs"
  by (induction es arbitrary: before) auto

lemma vouched_snoc [simp]: "vouched risk before (es @ [e]) \<longleftrightarrow> vouched risk before es \<and> posted_ok risk (before @ es) e"
  by (simp add: vouched_append)

lemma vouched_cong:
  assumes "\<And>op. map_get r1 op = None \<longleftrightarrow> map_get r2 op = None" and "vouched r1 before es"
  shows "vouched r2 before es"
proof -
  have "posted_ok r1 b e = posted_ok r2 b e" for b e by (cases e) (simp_all add: assms(1))
  with assms(2) show ?thesis by (induction es arbitrary: before) auto
qed

lemma vouched_neutral: "list_all neutral es \<Longrightarrow> vouched risk before es"
proof (induction es arbitrary: before)
  case (Cons e es) then show ?case by (cases e) simp_all
qed simp

definition vouch :: "router \<Rightarrow> call_ctx \<Rightarrow> bool" where
  "vouch s cc \<longleftrightarrow> map_get (rt_opRisk s) (cc_op cc) = None \<or>
     list_ex (is_allow (cc_who cc) (cc_op cc) (cc_causation cc)) (rt_out s)"

lemma vouch_cong:
  "rt_opRisk s1 = rt_opRisk s \<Longrightarrow> rt_out s1 = rt_out s \<Longrightarrow> vouch s1 cc \<longleftrightarrow> vouch s cc"
  by (simp add: vouch_def)

lemma vouch_emit: "vouch s cc \<Longrightarrow> vouch (emit e s) cc"
  by (auto simp: vouch_def)

text \<open>A queued delivery is the message of its continuation, and to a target only with a voucher.\<close>

definition queued_ok :: "router \<Rightarrow> queued \<Rightarrow> bool" where
  "queued_ok s q \<longleftrightarrow> q_ok q \<and> (case q_kont q of AtGate cc \<Rightarrow> True | AtTarget cc \<Rightarrow> vouch s cc)"

lemma queued_ok_emit: "queued_ok s q \<Longrightarrow> queued_ok (emit e s) q"
  by (cases "q_kont q") (simp_all add: queued_ok_def vouch_emit)

definition gated :: "held multiset \<Rightarrow> router \<Rightarrow> bool" where
  "gated H s \<longleftrightarrow>
     (\<forall>cc. Cleared cc \<in># H \<longrightarrow> vouch s cc) \<and>
     (\<forall>t. \<forall>q \<in> set (list_of (rt_waiting s) t). queued_ok s q) \<and>
     (\<forall>i. \<forall>cc \<in> set (list_of (rt_spawning s) i). vouch s cc) \<and>
     vouched (rt_opRisk s) [] (rt_out s) \<and> dormant_ok s"

lemma gated_emit:
  assumes "gated H s" and "posted_ok (rt_opRisk s) (rt_out s) e"
  shows "gated H (emit e s)"
  using assms by (auto simp: gated_def queued_ok_emit vouch_emit)

lemma gated_hand: "gated (add_mset h H) s \<longleftrightarrow> (\<forall>cc. h = Cleared cc \<longrightarrow> vouch s cc) \<and> gated H s"
  by (auto simp: gated_def)

lemma gated_frame:
  assumes "gated H s" and "rt_opRisk s1 = rt_opRisk s" and "rt_out s1 = rt_out s"
    and "\<And>t q. q \<in> set (list_of (rt_waiting s1) t) \<Longrightarrow> queued_ok s q"
    and "\<And>i cc. cc \<in> set (list_of (rt_spawning s1) i) \<Longrightarrow> vouch s cc"
    and "dormant_ok s1"
  shows "gated H s1"
proof -
  have v: "vouch s1 cc \<longleftrightarrow> vouch s cc" for cc using assms(2,3) by (rule vouch_cong)
  then have "queued_ok s1 q \<longleftrightarrow> queued_ok s q" for q by (simp add: queued_ok_def split: kont.split)
  with v assms show ?thesis by (auto simp: gated_def)
qed

lemma gated_same:
  assumes "gated H s" and "rt_opRisk s1 = rt_opRisk s" and "rt_out s1 = rt_out s"
    and "\<And>t q. q \<in> set (list_of (rt_waiting s1) t) \<Longrightarrow> queued_ok s q"
    and "\<And>i cc. cc \<in> set (list_of (rt_spawning s1) i) \<Longrightarrow> vouch s cc"
    and "rt_dormant s1 = rt_dormant s" and "rt_tokens s1 = rt_tokens s"
    and "rt_graphSeen s1 = rt_graphSeen s" and "rt_kernel s1 = rt_kernel s"
  shows "gated H s1"
  by (rule gated_frame [OF assms(1-5)]) (use assms in \<open>auto simp: gated_def intro: dormant_ok_same [of s]\<close>)

lemma gated_queue: "gated H s \<Longrightarrow> q \<in> set (list_of (rt_waiting s) t) \<Longrightarrow> queued_ok s q"
  by (simp add: gated_def)

lemma gated_spawns: "gated H s \<Longrightarrow> cc \<in> set (list_of (rt_spawning s) i) \<Longrightarrow> vouch s cc"
  by (simp add: gated_def)

lemma gated_posts:
  assumes "queued_ok s q" shows "posted_ok (rt_opRisk s) (rt_out s) (PostDeliver t (q_msg q))"
  using assms by (cases "q_kont q") (auto simp: queued_ok_def q_ok_def gate_msg_def target_msg_def vouch_def)

lemma queued_hand: "q_ok q \<Longrightarrow> queued_ok s q \<longleftrightarrow> (\<forall>cc. hand (q_kont q) = Cleared cc \<longrightarrow> vouch s cc)"
  by (cases "q_kont q") (simp_all add: queued_ok_def)

lemma gated_admit:
  assumes "gated (add_mset (hand (q_kont q)) H) s" and "q_ok q"
  shows "gated H (admit_now t q s)"
proof -
  have g: "gated H s" and "queued_ok s q" using assms by (simp_all add: gated_hand queued_hand)
  then have g1: "gated H (emit (PostDeliver t (q_msg q)) s)" by (intro gated_emit gated_posts)
  show ?thesis
    by (rule gated_same [OF g1]) (use g in \<open>auto intro: queued_ok_emit vouch_emit gated_queue gated_spawns\<close>)
qed

text \<open>The moves keep the gate.\<close>

interpretation gate: router_safety gated
proof unfold_locales
  fix H s cc i k w
  show "gated (add_mset (Held cc) H) s \<Longrightarrow> gated (add_mset (Caller (cc_sink cc)) H) s"
    and "gated (add_mset (Cleared cc) H) s \<Longrightarrow> gated (add_mset (Held cc) H) s"
    and "gated H s \<Longrightarrow> gated (add_mset (Caller w) H) s"
    by (simp_all add: gated_hand)
  show "\<not> map_has (rt_opRisk s) (cc_op cc) \<Longrightarrow> gated (add_mset (Held cc) H) s \<Longrightarrow> gated (add_mset (Cleared cc) H) s"
    by (simp add: gated_hand vouch_def)
next
  fix H s cc reason
  assume "gated (add_mset (Held cc) H) s"
  then show "gated (add_mset (Cleared cc) H) (emit (GateLine (cc_who cc) (cc_op cc) Allow reason None (cc_causation cc)) s)"
    by (simp add: gated_hand gated_emit) (simp add: vouch_def)
next
  fix H s verdict who op reason consent causation
  assume "gated H s"
  then show "gated H (emit (GateLine who op verdict reason consent causation) s)" by (simp add: gated_emit)
next
  fix H s e
  assume "gated H s" and "neutral e"
  then show "gated H (emit e s)" by (cases e) (simp_all add: gated_emit)
next
  fix H s snk causation r
  assume "gated (add_mset (Caller snk) H) s"
  then show "gated H (emit (reply snk causation r) s)" and "gated H (emit (Unhandled snk) s)"
    by (cases snk; simp add: gated_hand gated_emit)+
next
  fix H s k r
  assume "gated (add_mset (Held (kont_ctx k)) H) s"
  then have g: "gated H s" by (simp add: gated_hand)
  show "gated H (resolve_kont k r s)"
    by (rule gated_same [OF g]) (use g in \<open>auto intro: gated_queue gated_spawns\<close>)
next
  fix H s k r rest
  assume g: "gated H s"
  have "gated H (s\<lparr>rt_ready := rest\<rparr>)"
    by (rule gated_same [OF g]) (use g in \<open>auto intro: gated_queue gated_spawns\<close>)
  then show "gated (add_mset (Held (kont_ctx k)) H) (s\<lparr>rt_ready := rest\<rparr>)" by (simp add: gated_hand)
next
  show "q_ok q \<Longrightarrow> gated (add_mset (hand (q_kont q)) H) s \<Longrightarrow> gated H (admit_now t q s)" for q H s t
    by (rule gated_admit)
next
  fix H s p key
  assume g: "gated H s"
  have "gated H (s\<lparr>rt_pending := map_del key (rt_pending s)\<rparr>)"
    by (rule gated_same [OF g]) (use g in \<open>auto intro: gated_queue gated_spawns\<close>)
  then show "gated (add_mset (Held (kont_ctx (pc_kont p))) H) (s\<lparr>rt_pending := map_del key (rt_pending s)\<rparr>)"
    by (simp add: gated_hand)
next
  fix H s t and key :: string and f i w k
  assume g: "gated H s"
  show "gated H (decInflight t key s)" and "gated H (decInflight t [] s)"
    and "gated H (s\<lparr>rt_inflight := map_set t [] (rt_inflight s)\<rparr>)" and "gated H (set_state i f s)"
    and "gated H (s\<lparr>rt_waiters := w\<rparr>)"
    by (rule gated_same [OF g]; use g in \<open>auto intro: gated_queue gated_spawns\<close>)+
next
  fix q H s t
  assume "q_ok q" and "gated (add_mset (hand (q_kont q)) H) s"
  then have g: "gated H s" and q: "queued_ok s q" by (simp_all add: gated_hand queued_hand)
  show "gated H (s\<lparr>rt_waiting := map_set t (queue_insert q (list_of (rt_waiting s) t)) (rt_waiting s)\<rparr>)"
    by (rule gated_same [OF g]) (use g q in \<open>auto intro: gated_queue gated_spawns split: if_splits\<close>)
next
  fix H s t q qs
  assume w: "list_of (rt_waiting s) t = q # qs" and g: "gated H s"
  have q: "queued_ok s q" using gated_queue [OF g, of q t] w by simp
  then have ok: "q_ok q" by (simp add: queued_ok_def)
  let ?s = "s\<lparr>rt_waiting := map_set t qs (rt_waiting s)\<rparr>"
  have "gated H ?s"
    by (rule gated_same [OF g]) (use g w in \<open>auto intro: gated_queue gated_spawns gated_queue [of _ _ _ t] split: if_splits\<close>)
  moreover have "vouch ?s cc \<longleftrightarrow> vouch s cc" for cc by (simp add: vouch_def)
  ultimately show "q_ok q \<and> gated (add_mset (hand (q_kont q)) H) ?s"
    using q ok by (simp add: gated_hand queued_hand)
next
  fix H s t
  assume g: "gated H s"
  let ?s = "s\<lparr>rt_waiting := map_del t (rt_waiting s)\<rparr>"
  have "gated H ?s"
    by (rule gated_same [OF g]) (use g in \<open>auto intro: gated_queue gated_spawns split: if_splits\<close>)
  moreover have "vouch ?s cc" if "q \<in> set (list_of (rt_waiting s) t)" "hand (q_kont q) = Cleared cc" for q cc
    using gated_queue [OF g that(1)] that(2) by (cases "q_kont q") (simp_all add: queued_ok_def vouch_def)
  ultimately show "gated (image_mset (\<lambda>q. hand (q_kont q)) (mset (list_of (rt_waiting s) t)) + H) ?s"
    by (auto simp: gated_def)
next
  fix H s cc i
  assume "gated (add_mset (Cleared cc) H) s"
  then have g: "gated H s" and v: "vouch s cc" by (simp_all add: gated_hand)
  show "gated H (s\<lparr>rt_spawning := map_set i (list_of (rt_spawning s) i @ [cc]) (rt_spawning s)\<rparr>)"
    by (rule gated_same [OF g]) (use g v in \<open>auto intro: gated_queue gated_spawns split: if_splits\<close>)
next
  fix H s i
  assume g: "gated H s"
  let ?s = "s\<lparr>rt_spawning := map_del i (rt_spawning s)\<rparr>"
  have "gated H ?s"
    by (rule gated_same [OF g]) (use g in \<open>auto intro: gated_queue gated_spawns split: if_splits\<close>)
  moreover have "vouch ?s cc" if "cc \<in> set (list_of (rt_spawning s) i)" for cc
    using gated_spawns [OF g that] by (simp add: vouch_def)
  ultimately show "gated (image_mset Cleared (mset (list_of (rt_spawning s) i)) + H) ?s"
    by (auto simp: gated_def)
next
  fix H s k a
  assume g: "gated H s" and "rt_kernel s = Some k"
  then show "gated H (s\<lparr>rt_kernel := Some (k\<lparr>k_state := a\<rparr>)\<rparr>)"
    by (intro gated_frame [OF g]) (auto intro: gated_queue gated_spawns simp: gated_def dormant_ok_def)
next
  fix H s i
  assume g: "gated H s"
  show "gated H (s\<lparr>rt_dormant := map_del i (rt_dormant s)\<rparr>)"
    by (rule gated_frame [OF g]) (use g in \<open>auto intro: gated_queue gated_spawns simp: gated_def dormant_ok_def\<close>)
next
  fix H s who v
  assume g: "gated H s"
  obtain gen hit line where r: "snd (tokens_revoke who v s) =
      emit (JournalLine line) (s\<lparr>rt_generation := gen, rt_tokens := revoke_tokens hit (rt_tokens s)\<rparr>)"
    using tokens_revoke_shape [of who v s] by blast
  have "gated H (s\<lparr>rt_generation := gen, rt_tokens := revoke_tokens hit (rt_tokens s)\<rparr>)"
    by (rule gated_frame [OF g])
      (use g in \<open>auto intro: gated_queue gated_spawns simp: gated_def dormant_ok_def revoke_tokens_get\<close>)
  then show "gated H (snd (tokens_revoke who v s))" unfolding r by (simp add: gated_emit)
next
  fix H s i d c now s1
  assume d: "map_get (rt_dormant s) i = Some d"
    and r: "register c now (do_entry d) (do_manifest d) (do_tokens d) s = Inr s1" and g: "gated H s"
  note sh = register_shape [OF r] and re = respawn_shape [OF _ d r]
  have "dormant_ok s" using g by (simp add: gated_def)
  from re [OF this] have risk: "\<And>op. map_get (rt_opRisk s1) op = None \<longleftrightarrow> map_get (rt_opRisk s) op = None"
    and ok: "dormant_ok s1" by blast+
  then have v: "vouch s1 cc \<longleftrightarrow> vouch s cc" for cc using sh by (simp add: vouch_def)
  then have "queued_ok s1 q \<longleftrightarrow> queued_ok s q" for q by (simp add: queued_ok_def split: kont.split)
  then show "gated H s1"
    using g v sh ok vouched_cong [of "rt_opRisk s" "rt_opRisk s1"] risk by (auto simp: gated_def)
next
  fix cc :: call_ctx and H s
  assume "gated (add_mset (Caller (cc_sink cc)) H) s"
  then have g: "gated H s" by (simp add: gated_hand)
  have "gated H (snd (nextCausation s))"
    by (rule gated_same [OF g]) (use g in \<open>auto simp: nextCausation_def intro: gated_queue gated_spawns\<close>)
  then show "gated (add_mset (Held cc) H) (snd (nextCausation s))" by (simp add: gated_hand)
qed

lemma boot_gated: "boot_ok s \<Longrightarrow> gated {#} s"
  by (simp add: boot_ok_def gated_def list_of_def vouched_neutral)

text \<open>(C1) The gate is never bypassed. In every run of a booted router, whatever the workers send and in
  whatever order calls, answers, deadlines, crashes and lazy spawns come, a message that delivers a
  risky op to a compartment is preceded by a gate line that allows this op to this caller under this
  causation id. Only the question to the gate itself goes ungated.\<close>

theorem gate_safety:
  assumes "boot_router c now fresh k entries = Inr s"
  shows "vouched (rt_opRisk (router_run c s es)) [] (rt_out (router_run c s es))"
  using gate.run_keeps [OF boot_gated [OF boot_router_ok [OF assms]]] by (simp add: gated_def)

text \<open>A run in which a compartment answers for the law: \<open>bot\<close> is called, calls the risky op, and returns
  under the causation id of its own call, which is then waiting at the gate.\<close>

definition forged_run :: "(int \<times> event) list" where
  "forged_run =
     [(1, RootCall ''bot.go@1'' JNull 0 False), (2, Checkout ''bot'' None), (3, Message ''bot'' MReady),
      (4, Message ''bot'' (MCall \<lparr>cl_callId = ''1'', cl_token = ''t'', cl_op = ''mail.send@1'', cl_payload = JNull, cl_deadline = 0\<rparr>)),
      (5, Message ''bot'' (MReturn ''c_2'' (POk (JObj [(''decision'', JStr ''allow'')]) None None))),
      (6, Resume), (7, Checkout ''mail'' None), (8, Message ''mail'' MReady)]"

definition heard_from :: "string \<Rightarrow> int \<times> event \<Rightarrow> bool" where
  "heard_from pid te = (case snd te of Message p m \<Rightarrow> p = pid | _ \<Rightarrow> False)"

definition posted_to :: "string \<Rightarrow> string \<Rightarrow> effect \<Rightarrow> bool" where
  "posted_to pid op e = (case e of PostDeliver t m \<Rightarrow> t = pid \<and> dm_op m = op | _ \<Rightarrow> False)"

theorem gate_safety_witness:
  "vouched (rt_opRisk (router_run toy_crypto sample_router forged_run)) [] (rt_out (router_run toy_crypto sample_router forged_run))"
  by (rule gate_safety [OF sample_boots])


lemma return_sender_unchecked:
  assumes "map_get (rt_pending s) key = Some p" and "map_has (rt_compartments s) pid"
  shows "\<exists>front. rt_ready (router_step c s (now, Message pid (MReturn key r))) = front @ [(pc_kont p, r)]"
  using assms by (simp add: onReturn_def)

text \<open>A verdict without a decision lets the call through.\<close>

lemma empty_verdict_allows:
  "after_gate now cc (POk (JObj []) x y) s =
     past_gate now cc (emit (GateLine (cc_who cc) (cc_op cc) Allow JUndefined None (cc_causation cc)) s)"
  by (simp add: after_gate_def)

section \<open>Revoked tokens\<close>

definition dead :: "string \<Rightarrow> held multiset \<Rightarrow> router \<Rightarrow> bool" where
  "dead p H s \<longleftrightarrow> dormant_ok s \<and> (\<forall>t. \<forall>q \<in> set (list_of (rt_waiting s) t). q_ok q) \<and>
     (\<forall>tok r. map_get (rt_tokens s) tok = Some r \<longrightarrow> tr_pluginId r = p \<longrightarrow> tr_revoked r \<or> tr_gen r < rt_generation s)"

lemma dead_same:
  assumes "dead p H s" and "rt_tokens s1 = rt_tokens s" and "rt_generation s1 = rt_generation s" and "dormant_ok s1"
    and "\<And>t q. q \<in> set (list_of (rt_waiting s1) t) \<Longrightarrow> q_ok q"
  shows "dead p H1 s1"
  using assms unfolding dead_def by auto

lemma dead_frame:
  assumes "dead p H s" and "rt_tokens s1 = rt_tokens s" and "rt_generation s1 = rt_generation s"
    and "rt_dormant s1 = rt_dormant s" and "rt_opRisk s1 = rt_opRisk s"
    and "rt_graphSeen s1 = rt_graphSeen s" and "rt_kernel s1 = rt_kernel s"
    and "\<And>t q. dead p H s \<Longrightarrow> q \<in> set (list_of (rt_waiting s1) t) \<Longrightarrow> q_ok q"
  shows "dead p H1 s1"
  by (rule dead_same [OF assms(1-3)]) (use assms in \<open>auto simp: dead_def intro: dormant_ok_same [of s]\<close>)

lemma dead_queue: "dead p H s \<Longrightarrow> q \<in> set (list_of (rt_waiting s) t) \<Longrightarrow> q_ok q"
  by (simp add: dead_def)

lemma dead_hand: "dead p H s \<Longrightarrow> dead p H1 s"
  by (simp add: dead_def)

lemma tokens_revoke_grows:
  "\<exists>gen hit line. rt_generation s \<le> gen \<and> snd (tokens_revoke who v s) =
     emit (JournalLine line) (s\<lparr>rt_generation := gen, rt_tokens := revoke_tokens hit (rt_tokens s)\<rparr>)"
  unfolding tokens_revoke_def Let_def snd_conv by (intro exI conjI, rule_tac [2] refl) simp

lemma revoke_tokens_rec:
  assumes "map_get (revoke_tokens hit ts) tok = Some r"
  shows "\<exists>z. map_get ts tok = Some z \<and> tr_pluginId r = tr_pluginId z \<and> tr_gen r = tr_gen z \<and> (tr_revoked z \<longrightarrow> tr_revoked r)"
proof -
  obtain z where "map_get ts tok = Some z" and "r = (if hit z then z\<lparr>tr_revoked := True\<rparr> else z)"
    using assms by (auto simp: revoke_tokens_get)
  then show ?thesis by (cases "hit z") auto
qed

interpretation dead: router_safety "dead p" for p
proof unfold_locales
  fix H s who v
  assume a: "dead p H s"
  obtain gen hit line where g: "rt_generation s \<le> gen" and r: "snd (tokens_revoke who v s) =
      emit (JournalLine line) (s\<lparr>rt_generation := gen, rt_tokens := revoke_tokens hit (rt_tokens s)\<rparr>)"
    using tokens_revoke_grows [of s who v] by blast
  have "dormant_ok (s\<lparr>rt_generation := gen, rt_tokens := revoke_tokens hit (rt_tokens s)\<rparr>)"
    using a by (simp add: dead_def dormant_ok_def revoke_tokens_get)
  then show "dead p H (snd (tokens_revoke who v s))"
    unfolding r using a g by (fastforce simp: dead_def dest: revoke_tokens_rec)
next
  fix H s i d c now s1
  assume d: "map_get (rt_dormant s) i = Some d"
    and r: "register c now (do_entry d) (do_manifest d) (do_tokens d) s = Inr s1" and a: "dead p H s"
  have ok: "dormant_ok s" using a by (simp add: dead_def)
  show "dead p H s1"
    by (rule dead_same [OF a respawn_shape(1) [OF ok d r] register_shape(9) [OF r] respawn_shape(3) [OF ok d r]])
      (simp add: register_shape(1) [OF r] dead_queue [OF a])
next
  fix H s i
  assume a: "dead p H s"
  show "dead p H (s\<lparr>rt_dormant := map_del i (rt_dormant s)\<rparr>)"
    by (rule dead_same [OF a]) (use a in \<open>auto simp: dead_def dormant_ok_def\<close>)
next
  fix H s k0 ar
  assume a: "dead p H s" and "rt_kernel s = Some k0"
  then show "dead p H (s\<lparr>rt_kernel := Some (k0\<lparr>k_state := ar\<rparr>)\<rparr>)"
    by (intro dead_same [OF a]) (auto simp: dead_def dormant_ok_def)
next
  fix H s t q qs
  assume w: "list_of (rt_waiting s) t = q # qs" and a: "dead p H s"
  have "q_ok q" using dead_queue [OF a, of q t] w by simp
  moreover have "dead p (add_mset (hand (q_kont q)) H) (s\<lparr>rt_waiting := map_set t qs (rt_waiting s)\<rparr>)"
    by (rule dead_frame [OF a]) (use w in \<open>auto intro: dead_queue [OF a] dead_queue [OF a, of _ t] split: if_splits\<close>)
  ultimately show "q_ok q \<and> dead p (add_mset (hand (q_kont q)) H) (s\<lparr>rt_waiting := map_set t qs (rt_waiting s)\<rparr>)" by blast
qed (auto elim: dead_hand elim!: dead_frame intro: dead_queue simp: nextCausation_def split: if_splits)

lemma dead_refuses: "dead p H s \<Longrightarrow> checkToken s p tok op \<noteq> None"
  unfolding dead_def checkToken_def by (auto split: option.split simp: not_None_eq)

text \<open>What one revoke does: every token of the plugin dies, or every token when no plugin is named.\<close>

lemma revoke_kills:
  assumes ok: "dormant_ok s" and queue: "\<And>t q. q \<in> set (list_of (rt_waiting s) t) \<Longrightarrow> q_ok q"
    and v: "v = JStr p \<or> truthy_str v = None"
  shows "dead p H (snd (tokens_revoke who v s))"
proof -
  obtain gen hit line where r: "snd (tokens_revoke who v s) =
      emit (JournalLine line) (s\<lparr>rt_generation := gen, rt_tokens := revoke_tokens hit (rt_tokens s)\<rparr>)"
    and hit: "\<And>r. tr_pluginId r = p \<Longrightarrow> hit r \<or> tr_revoked r"
  proof -
    define hit :: "token_record \<Rightarrow> bool" where "hit = (case truthy_str v of Some p' \<Rightarrow> (\<lambda>r. tr_pluginId r = p' \<and> \<not> tr_revoked r) | None \<Rightarrow> (\<lambda>r. \<not> tr_revoked r))"
    have "hit r \<or> tr_revoked r" if "tr_pluginId r = p" for r :: token_record
      using v that by (cases p) (auto simp: hit_def truthy_str_def split: option.split)
    moreover have "\<exists>gen line. snd (tokens_revoke who v s) =
      emit (JournalLine line) (s\<lparr>rt_generation := gen, rt_tokens := revoke_tokens hit (rt_tokens s)\<rparr>)"
      unfolding tokens_revoke_def Let_def snd_conv hit_def by (intro exI) (rule refl)
    ultimately show thesis using that by blast
  qed
  have "tr_revoked r" if "map_get (revoke_tokens hit (rt_tokens s)) tok = Some r" "tr_pluginId r = p" for tok r
  proof -
    from that(1) obtain z where "map_get (rt_tokens s) tok = Some z" and z: "(if hit z then z\<lparr>tr_revoked := True\<rparr> else z) = r"
      unfolding revoke_tokens_get by (cases "map_get (rt_tokens s) tok") simp_all
    then show ?thesis using hit [of z] that(2) by (cases "hit z") auto
  qed
  moreover have "dormant_ok (s\<lparr>rt_generation := gen, rt_tokens := revoke_tokens hit (rt_tokens s)\<rparr>)"
    using ok by (simp add: dormant_ok_def revoke_tokens_get)
  ultimately show ?thesis unfolding r using queue by (auto simp: dead_def)
qed



text \<open>A scoped revoke touches nobody else: the check of every other plugin, whatever token it presents,
  answers as before, and a caller that presents a revoked token of another plugin learns nothing of
  the revocation.\<close>

theorem revocation_scoped:
  assumes "p \<noteq> []" and "q \<noteq> p"
  shows "checkToken (snd (tokens_revoke who (JStr p) s)) q tok op = checkToken s q tok op"
proof -
  obtain ch cs where p: "p = ch # cs" using assms(1) by (cases p) auto
  have "checkToken (emit e (s\<lparr>rt_generation := rt_generation s, rt_tokens := revoke_tokens
      (\<lambda>r. tr_pluginId r = p \<and> \<not> tr_revoked r) (rt_tokens s)\<rparr>)) q tok op = checkToken s q tok op" for e
    using assms(2) by (auto simp: checkToken_def revoke_tokens_get split: option.split)
  then show ?thesis by (simp add: tokens_revoke_def truthy_str_def p Let_def)
qed

theorem revocation_scoped_witness:
  "checkToken (snd (tokens_revoke ''vivim.run'' (JStr ''bot'') sample_router)) ''mail'' ''t'' ''mail.send@1'' =
   checkToken sample_router ''mail'' ''t'' ''mail.send@1''"
  by (rule revocation_scoped) simp_all

end
