(* ===== verification/Router_Ledger.thy ===== *)
theory Router_Ledger
  imports Router_Gate
begin

text \<open>
  The books of the router: every call that came in is live in exactly one place (in a queue, waiting
  for a spawn, pending at a compartment, or with its answer ready) or was answered exactly once. The
  invariant is an interpretation of \<open>router_laws\<close>; what a crash leaves behind follows from it.
\<close>

section \<open>Lists under keys\<close>

definition lists_of :: "(string, 'a list) jsmap \<Rightarrow> 'a multiset" where
  "lists_of m = mset (concat (map snd m))"

lemma lists_of_Nil [simp]: "lists_of [] = {#}"
  by (simp add: lists_of_def)

lemma lists_of_fresh: "map_get m t = None \<Longrightarrow> lists_of (map_set t l m) = lists_of m + mset l"
  by (induction m) (auto simp: lists_of_def split: if_splits)

lemma lists_of_set: "distinct (map fst m) \<Longrightarrow> lists_of (map_set t l m) + mset (list_of m t) = lists_of m + mset l"
proof (induction m)
  case (Cons kv m)
  obtain k v where kv: "kv = (k, v)" by (cases kv)
  show ?case
  proof (cases "k = t")
    case True
    then show ?thesis using kv by (simp add: lists_of_def list_of_def)
  next
    case False
    then show ?thesis using Cons kv by (simp add: lists_of_def list_of_def ac_simps)
  qed
qed (simp add: list_of_def lists_of_def)

lemma map_del_absent: "k \<notin> set (map fst m) \<Longrightarrow> map_del k m = m"
  by (induction m) auto

lemma lists_of_del: "distinct (map fst m) \<Longrightarrow> lists_of (map_del t m) + mset (list_of m t) = lists_of m"
proof (induction m)
  case (Cons kv m)
  obtain k v where kv: "kv = (k, v)" by (cases kv)
  show ?case
  proof (cases "k = t")
    case True
    then show ?thesis using kv Cons.prems map_del_absent [of t m] by (simp add: lists_of_def list_of_def ac_simps)
  next
    case False
    then show ?thesis using Cons kv by (simp add: lists_of_def list_of_def ac_simps)
  qed
qed (simp add: list_of_def lists_of_def)

lemma values_del:
  "distinct (map fst m) \<Longrightarrow> map_get m k = Some v \<Longrightarrow> mset (map f m) = add_mset (f (k, v)) (mset (map f (map_del k m)))"
proof (induction m)
  case (Cons kv m)
  obtain k1 v1 where kv: "kv = (k1, v1)" by (cases kv)
  show ?case
  proof (cases "k1 = k")
    case True
    then show ?thesis using kv Cons.prems map_del_absent [of k m] by simp
  next
    case False
    then show ?thesis using Cons kv by simp
  qed
qed simp

lemma values_fresh: "map_get m k = None \<Longrightarrow> mset (map f (map_set k v m)) = add_mset (f (k, v)) (mset (map f m))"
  by (induction m) (auto split: if_splits)

lemma distinct_del: "distinct (map fst m) \<Longrightarrow> distinct (map fst (map_del k m))"
  by (rule distinct_delete)

section \<open>Live calls\<close>

definition pending_ctx :: "string \<times> pending_call \<Rightarrow> call_ctx" where
  "pending_ctx kp = kont_ctx (pc_kont (snd kp))"

definition ready_ctx :: "kont \<times> port_result \<Rightarrow> call_ctx" where
  "ready_ctx kr = kont_ctx (fst kr)"

definition live :: "router \<Rightarrow> call_ctx multiset" where
  "live s = mset (map ready_ctx (rt_ready s)) + mset (map pending_ctx (rt_pending s)) +
     image_mset q_ctx (lists_of (rt_waiting s)) + lists_of (rt_spawning s)"

fun held_call :: "held \<Rightarrow> call_ctx multiset" where
  "held_call (Caller snk) = {#}"
| "held_call (Held cc) = {#cc#}"
| "held_call (Cleared cc) = {#cc#}"

fun held_caller :: "held \<Rightarrow> sink multiset" where
  "held_caller (Caller snk) = {#snk#}"
| "held_caller (Held cc) = {#}"
| "held_caller (Cleared cc) = {#}"

definition all_calls :: "held multiset \<Rightarrow> router \<Rightarrow> call_ctx multiset" where
  "all_calls H s = live s + \<Sum>\<^sub># (image_mset held_call H)"

definition callers :: "held multiset \<Rightarrow> sink multiset" where
  "callers H = \<Sum>\<^sub># (image_mset held_caller H)"

text \<open>The effects that settle a call: its answer, or the exception that ends its handler.\<close>

fun settles :: "sink \<Rightarrow> effect \<Rightarrow> bool" where
  "settles snk (PostResult pid callId r) \<longleftrightarrow> snk = ToWorker pid callId"
| "settles snk (RootResult causation r) \<longleftrightarrow> snk = ToRoot"
| "settles snk (Unhandled snk') \<longleftrightarrow> snk' = snk"
| "settles snk e \<longleftrightarrow> False"

definition answered :: "sink \<Rightarrow> effect list \<Rightarrow> nat" where
  "answered snk out = length (filter (settles snk) out)"

lemma answered_snoc [simp]: "answered snk (out @ [e]) = answered snk out + (if settles snk e then 1 else 0)"
  by (simp add: answered_def)

text \<open>The structure: keyed tables without duplicate keys, pending entries under their own causation and
  in flight at their target, queued messages that are those of their continuation.\<close>

definition well_kept :: "router \<Rightarrow> bool" where
  "well_kept s \<longleftrightarrow> distinct (map fst (rt_pending s)) \<and> distinct (map fst (rt_waiting s)) \<and> distinct (map fst (rt_spawning s)) \<and>
     (\<forall>key p. map_get (rt_pending s) key = Some p \<longrightarrow>
        cc_causation (kont_ctx (pc_kont p)) = key \<and> key \<in> set (list_of (rt_inflight s) (pc_target p))) \<and>
     (\<forall>t. \<forall>q \<in> set (list_of (rt_waiting s) t). q_ok q)"

text \<open>The accounts: each live call has a number that was issued, no number twice; and for each caller
  the calls in the works and those settled add up.\<close>

definition account :: "(sink \<Rightarrow> nat) \<Rightarrow> call_ctx multiset \<Rightarrow> sink multiset \<Rightarrow> nat \<Rightarrow> effect list \<Rightarrow> bool" where
  "account T C S n out \<longleftrightarrow>
     (\<forall>cc \<in># C. \<exists>i. i \<noteq> 0 \<and> i \<le> n \<and> cc_causation cc = ''c_'' @ show_nat i) \<and>
     (\<forall>x. count (image_mset cc_causation C) x \<le> 1) \<and>
     (\<forall>snk. count (image_mset cc_sink C + S) snk + answered snk out = T snk)"

definition books :: "(sink \<Rightarrow> nat) \<Rightarrow> held multiset \<Rightarrow> router \<Rightarrow> bool" where
  "books T H s \<longleftrightarrow> well_kept s \<and> dormant_ok s \<and> account T (all_calls H s) (callers H) (rt_callSeq s) (rt_out s)"

section \<open>The moves\<close>

lemma all_calls_add [simp]: "all_calls (add_mset h H) s = held_call h + all_calls H s"
  by (simp add: all_calls_def)

lemma callers_add [simp]: "callers (add_mset h H) = held_caller h + callers H"
  by (simp add: callers_def)

lemma all_calls_same:
  "rt_ready s1 = rt_ready s \<Longrightarrow> rt_pending s1 = rt_pending s \<Longrightarrow> rt_waiting s1 = rt_waiting s \<Longrightarrow>
   rt_spawning s1 = rt_spawning s \<Longrightarrow> all_calls H s1 = all_calls H s"
  by (simp add: all_calls_def live_def)

lemma held_hand [simp]: "held_call (hand k) = {#kont_ctx k#}" "held_caller (hand k) = {#}"
  by (cases k; simp)+

lemma account_quiet:
  "account T C S n out \<Longrightarrow> (\<And>snk. \<not> settles snk e) \<Longrightarrow> account T C S n (out @ [e])"
  by (simp add: account_def)

lemma account_settle:
  assumes "account T C (add_mset snk S) n out" and "\<And>snk'. settles snk' e \<longleftrightarrow> snk' = snk"
  shows "account T C S n (out @ [e])"
proof -
  have "count (image_mset cc_sink C + S) snk' + answered snk' (out @ [e]) = T snk'" for snk'
  proof -
    have "count (image_mset cc_sink C + add_mset snk S) snk' + answered snk' out = T snk'"
      using assms(1) unfolding account_def by blast
    then show ?thesis using assms(2) [of snk'] by (simp split: if_splits)
  qed
  then show ?thesis using assms(1) unfolding account_def by blast
qed

lemma account_forget:
  assumes "account T (add_mset cc C) S n out"
  shows "account T C (add_mset (cc_sink cc) S) n out"
proof -
  have "count (image_mset cc_causation C) x \<le> 1" for x
  proof -
    have "count (image_mset cc_causation (add_mset cc C)) x \<le> 1" using assms unfolding account_def by blast
    then show ?thesis by (simp split: if_splits)
  qed
  then show ?thesis using assms by (simp add: account_def)
qed

lemma account_number:
  assumes a: "account T C (add_mset (cc_sink cc) S) n out" and c: "cc_causation cc = ''c_'' @ show_nat (n + 1)"
  shows "account T (add_mset cc C) S (n + 1) out"
proof -
  have old: "\<exists>i. i \<noteq> 0 \<and> i \<le> n \<and> cc_causation d = ''c_'' @ show_nat i" if "d \<in># C" for d
    using a that unfolding account_def by blast
  have fresh: "cc_causation cc \<notin># image_mset cc_causation C"
  proof
    assume "cc_causation cc \<in># image_mset cc_causation C"
    then obtain d where "d \<in># C" "cc_causation d = cc_causation cc" by auto
    with old [of d] c show False by (auto simp: show_base_inj)
  qed
  have "count (image_mset cc_causation (add_mset cc C)) x \<le> 1" for x
  proof (cases "x = cc_causation cc")
    case True
    then show ?thesis using fresh by (simp add: count_eq_zero_iff)
  next
    case False
    moreover have "count (image_mset cc_causation C) x \<le> 1" using a unfolding account_def by blast
    ultimately show ?thesis by simp
  qed
  moreover have "\<exists>i. i \<noteq> 0 \<and> i \<le> n + 1 \<and> cc_causation d = ''c_'' @ show_nat i" if "d \<in># add_mset cc C" for d
    using that old [of d] c by (auto intro: le_SucI)
  ultimately show ?thesis using a by (simp add: account_def)
qed

lemma account_unique:
  "account T C S n out \<Longrightarrow> C = add_mset a (add_mset b D) \<Longrightarrow> cc_causation a \<noteq> cc_causation b"
proof
  assume a: "account T C S n out" and C: "C = add_mset a (add_mset b D)" and e: "cc_causation a = cc_causation b"
  have "count (image_mset cc_causation C) (cc_causation a) \<le> 1" using a unfolding account_def by blast
  then show False using C e by simp
qed

lemma books_account: "books T H s \<Longrightarrow> account T (all_calls H s) (callers H) (rt_callSeq s) (rt_out s)"
  by (simp add: books_def)

text \<open>Most moves only carry a call from one place to another.\<close>

lemma books_move:
  assumes "books T H s" and "well_kept s1" and "dormant_ok s1" and "all_calls H1 s1 = all_calls H s"
    and "callers H1 = callers H" and "rt_callSeq s1 = rt_callSeq s" and "rt_out s1 = rt_out s"
  shows "books T H1 s1"
  using assms by (simp add: books_def)

lemma books_emit:
  assumes "books T H s" and "\<And>snk. \<not> settles snk e"
  shows "books T H (emit e s)"
proof -
  have "well_kept (emit e s)" using assms(1) by (simp add: books_def well_kept_def)
  moreover have "all_calls H (emit e s) = all_calls H s" by (rule all_calls_same) simp_all
  ultimately show ?thesis using assms by (simp add: books_def account_quiet)
qed

lemma books_settle:
  assumes "books T (add_mset (Caller snk) H) s" and "\<And>snk'. settles snk' e \<longleftrightarrow> snk' = snk"
  shows "books T H (emit e s)"
proof -
  have "well_kept (emit e s)" using assms(1) by (simp add: books_def well_kept_def)
  moreover have "all_calls H (emit e s) = all_calls H s" by (rule all_calls_same) simp_all
  moreover have "account T (all_calls H s) (callers H) (rt_callSeq s) (rt_out s @ [e])"
    by (rule account_settle [of _ _ snk]) (use assms in \<open>simp_all add: books_def\<close>)
  ultimately show ?thesis using assms(1) by (simp add: books_def)
qed

lemma pending_key:
  assumes "books T H s" and "map_get (rt_pending s) key = Some p"
  shows "\<exists>i. key = ''c_'' @ show_nat i" and "kont_ctx (pc_kont p) \<in># live s" and "cc_causation (kont_ctx (pc_kont p)) = key"
proof -
  have d: "distinct (map fst (rt_pending s))" and k: "cc_causation (kont_ctx (pc_kont p)) = key"
    using assms by (auto simp: books_def well_kept_def)
  from values_del [OF d assms(2), of pending_ctx]
  show l: "kont_ctx (pc_kont p) \<in># live s" by (simp add: live_def pending_ctx_def)
  show "cc_causation (kont_ctx (pc_kont p)) = key" by (rule k)
  have "kont_ctx (pc_kont p) \<in># all_calls H s" using l by (simp add: all_calls_def)
  then show "\<exists>i. key = ''c_'' @ show_nat i"
    using books_account [OF assms(1)] k unfolding account_def by blast
qed

lemma well_kept_admit:
  assumes w: "well_kept s" and q: "q_ok q" and fresh: "map_get (rt_pending s) (cc_causation (q_ctx q)) = None"
  shows "well_kept (admit_now t q s)"
    and "live (admit_now t q s) = add_mset (q_ctx q) (live s)"
proof -
  have key: "dm_causation (q_msg q) = cc_causation (q_ctx q)"
    using q by (cases "q_kont q") (simp_all add: q_ok_def q_ctx_def gate_msg_def target_msg_def)
  have p: "rt_pending (admit_now t q s) = map_set (cc_causation (q_ctx q))
      \<lparr>pc_target = t, pc_kont = q_kont q, pc_msg = q_msg q, pc_stream = q_stream q\<rparr> (rt_pending s)"
    by (simp add: admit_now_def key Let_def)
  have i: "list_of (rt_inflight (admit_now t q s)) u =
      (if u = t then set_add (cc_causation (q_ctx q)) (list_of (rt_inflight s) t) else list_of (rt_inflight s) u)" for u
    by (simp add: admit_now_def key Let_def)
  have kept: "cc_causation (kont_ctx (pc_kont p1)) = k1 \<and> k1 \<in> set (list_of (rt_inflight s) (pc_target p1))"
    if "map_get (rt_pending s) k1 = Some p1" for k1 p1
    using w that unfolding well_kept_def by blast
  then have "k1 \<in> set (list_of (rt_inflight (admit_now t q s)) (pc_target p1)) \<and> cc_causation (kont_ctx (pc_kont p1)) = k1"
    if "map_get (rt_pending (admit_now t q s)) k1 = Some p1" for k1 p1
    using that unfolding p i by (auto simp: q_ctx_def split: if_splits)
  then show "well_kept (admit_now t q s)"
    using w by (auto simp: well_kept_def p distinct_update)
  show "live (admit_now t q s) = add_mset (q_ctx q) (live s)"
    using values_fresh [OF fresh, of pending_ctx] by (simp add: live_def p pending_ctx_def q_ctx_def)
qed

lemma books_admit:
  assumes q: "q_ok q" and b: "books T (add_mset (hand (q_kont q)) H) s"
  shows "books T H (admit_now t q s)"
proof -
  have fresh: "map_get (rt_pending s) (cc_causation (q_ctx q)) = None"
  proof (rule ccontr)
    assume "map_get (rt_pending s) (cc_causation (q_ctx q)) \<noteq> None"
    then obtain p where p: "map_get (rt_pending s) (cc_causation (q_ctx q)) = Some p" by (auto simp: not_None_eq)
    note pk = pending_key [OF b p]
    obtain D where "live s = add_mset (kont_ctx (pc_kont p)) D" using multi_member_split [OF pk(2)] by blast
    then have "all_calls (add_mset (hand (q_kont q)) H) s =
        add_mset (q_ctx q) (add_mset (kont_ctx (pc_kont p)) (D + \<Sum>\<^sub># (image_mset held_call H)))"
      by (simp add: all_calls_def q_ctx_def)
    from account_unique [OF books_account [OF b] this] pk(3) show False by simp
  qed
  have w: "well_kept s" and d: "dormant_ok s" using b by (simp_all add: books_def)
  note a = well_kept_admit [OF w q fresh, of t]
  have e: "books T H (emit (PostDeliver t (q_msg q)) s)" if "books T H s" using that by (rule books_emit) simp
  have "all_calls H (admit_now t q s) = all_calls (add_mset (hand (q_kont q)) H) s"
    using a(2) by (simp add: all_calls_def q_ctx_def)
  moreover have "account T (all_calls (add_mset (hand (q_kont q)) H) s) (callers H) (rt_callSeq s) (rt_out s @ [PostDeliver t (q_msg q)])"
    using books_account [OF b] by (intro account_quiet) simp_all
  moreover have "dormant_ok (admit_now t q s)" by (rule dormant_ok_same [OF d]) simp_all
  ultimately show ?thesis using a(1) by (simp add: books_def)
qed

lemma well_kept_same:
  assumes "well_kept s" and "rt_pending s1 = rt_pending s" and "rt_waiting s1 = rt_waiting s"
    and "rt_spawning s1 = rt_spawning s" and "rt_inflight s1 = rt_inflight s"
  shows "well_kept s1"
  using assms by (simp add: well_kept_def)

lemma books_same:
  assumes b: "books T H s" and "rt_pending s1 = rt_pending s" and "rt_waiting s1 = rt_waiting s"
    and "rt_spawning s1 = rt_spawning s" and "rt_inflight s1 = rt_inflight s" and "rt_ready s1 = rt_ready s"
    and "rt_callSeq s1 = rt_callSeq s" and "rt_out s1 = rt_out s" and "dormant_ok s1"
  shows "books T H s1"
proof (rule books_move [OF b])
  show "well_kept s1" by (rule well_kept_same [of s]) (use assms in \<open>simp_all add: books_def\<close>)
  show "all_calls H s1 = all_calls H s" by (rule all_calls_same) (use assms in simp_all)
qed (use assms in simp_all)

lemma books_frame:
  assumes b: "books T H s" and "rt_pending s1 = rt_pending s" and "rt_waiting s1 = rt_waiting s"
    and "rt_spawning s1 = rt_spawning s" and "rt_inflight s1 = rt_inflight s" and "rt_ready s1 = rt_ready s"
    and "rt_callSeq s1 = rt_callSeq s" and "rt_out s1 = rt_out s" and "rt_dormant s1 = rt_dormant s"
    and "rt_opRisk s1 = rt_opRisk s" and "rt_tokens s1 = rt_tokens s"
    and "rt_graphSeen s1 = rt_graphSeen s" and "rt_kernel s1 = rt_kernel s"
  shows "books T H s1"
proof -
  have "dormant_ok s" using b by (simp add: books_def)
  then have "dormant_ok s1" by (rule dormant_ok_same) (use assms in simp_all)
  with assms show ?thesis by (intro books_same [OF b])
qed

lemma books_inflight:
  assumes b: "books T H s" and "\<And>key p. map_get (rt_pending s) key = Some p \<Longrightarrow>
      key \<in> set (list_of (rt_inflight s) (pc_target p)) \<Longrightarrow> key \<in> set (list_of f (pc_target p))"
  shows "books T H (s\<lparr>rt_inflight := f\<rparr>)"
proof (rule books_move [OF b])
  show "well_kept (s\<lparr>rt_inflight := f\<rparr>)" using assms by (simp add: books_def well_kept_def)
  have "dormant_ok s" using b by (simp add: books_def)
  then show "dormant_ok (s\<lparr>rt_inflight := f\<rparr>)" by (rule dormant_ok_same) simp_all
  show "all_calls H (s\<lparr>rt_inflight := f\<rparr>) = all_calls H s" by (rule all_calls_same) simp_all
qed simp_all

lemma dec_eq: "\<exists>f. decInflight t key s = s\<lparr>rt_inflight := f\<rparr> \<and>
    (\<forall>u. list_of f u = (if u = t then set_del key (list_of (rt_inflight s) u) else list_of (rt_inflight s) u))"
proof -
  have "decInflight t key s = s\<lparr>rt_inflight := rt_inflight (decInflight t key s)\<rparr>"
    by (simp add: decInflight_def split: option.split)
  then show ?thesis using dec_list_of [of t key s] by blast
qed

lemma books_freed: "map_get (rt_pending s) key = None \<Longrightarrow> books T H s \<Longrightarrow> books T H (decInflight t key s)"
proof -
  assume n: "map_get (rt_pending s) key = None" and b: "books T H s"
  obtain f where "decInflight t key s = s\<lparr>rt_inflight := f\<rparr>"
    and "\<And>u. list_of f u = (if u = t then set_del key (list_of (rt_inflight s) u) else list_of (rt_inflight s) u)"
    using dec_eq [of t key s] by blast
  then show ?thesis using n by (auto intro!: books_inflight [OF b])
qed

lemma books_no_empty: "books T H s \<Longrightarrow> map_get (rt_pending s) [] = None"
proof (cases "map_get (rt_pending s) []")
  case (Some p)
  assume "books T H s"
  from pending_key(1) [OF this Some] show ?thesis by simp
qed simp

lemma books_waiting:
  assumes b: "books T H s" and "\<And>q u. q \<in> set (list_of w u) \<Longrightarrow> q_ok q" and "distinct (map fst w)"
    and "image_mset q_ctx (lists_of w) + \<Sum>\<^sub># (image_mset held_call H1) =
      image_mset q_ctx (lists_of (rt_waiting s)) + \<Sum>\<^sub># (image_mset held_call H)"
    and "callers H1 = callers H"
  shows "books T H1 (s\<lparr>rt_waiting := w\<rparr>)"
proof (rule books_move [OF b])
  show "well_kept (s\<lparr>rt_waiting := w\<rparr>)" using assms by (auto simp: books_def well_kept_def)
  have "dormant_ok s" using b by (simp add: books_def)
  then show "dormant_ok (s\<lparr>rt_waiting := w\<rparr>)" by (rule dormant_ok_same) simp_all
  show "all_calls H1 (s\<lparr>rt_waiting := w\<rparr>) = all_calls H s"
    using assms(4) by (simp add: all_calls_def live_def ac_simps)
qed (simp_all add: assms)

lemma books_spawning:
  assumes b: "books T H s" and "distinct (map fst w)"
    and "lists_of w + \<Sum>\<^sub># (image_mset held_call H1) = lists_of (rt_spawning s) + \<Sum>\<^sub># (image_mset held_call H)"
    and "callers H1 = callers H"
  shows "books T H1 (s\<lparr>rt_spawning := w\<rparr>)"
proof (rule books_move [OF b])
  show "well_kept (s\<lparr>rt_spawning := w\<rparr>)" using assms by (simp add: books_def well_kept_def)
  have "dormant_ok s" using b by (simp add: books_def)
  then show "dormant_ok (s\<lparr>rt_spawning := w\<rparr>)" by (rule dormant_ok_same) simp_all
  show "all_calls H1 (s\<lparr>rt_spawning := w\<rparr>) = all_calls H s"
    using assms(3) by (simp add: all_calls_def live_def ac_simps)
qed (simp_all add: assms)

lemma books_queue: "books T H s \<Longrightarrow> q \<in> set (list_of (rt_waiting s) t) \<Longrightarrow> q_ok q"
  by (simp add: books_def well_kept_def)

lemma books_keys: "books T H s \<Longrightarrow> distinct (map fst (rt_waiting s)) \<and> distinct (map fst (rt_spawning s)) \<and> distinct (map fst (rt_pending s))"
  by (simp add: books_def well_kept_def)

lemma mset_queue_insert [simp]: "mset (queue_insert q qs) = add_mset q (mset qs)"
  by (induction qs) auto

lemma held_hands [simp]:
  "\<Sum>\<^sub># (image_mset held_call (image_mset (\<lambda>q. hand (q_kont q)) Q)) = image_mset q_ctx Q"
  "callers (image_mset (\<lambda>q. hand (q_kont q)) Q + H) = callers H"
  "\<Sum>\<^sub># (image_mset held_call (image_mset Cleared C)) = C"
  "callers (image_mset Cleared C + H) = callers H"
  by (induction Q) (simp_all add: q_ctx_def callers_def multiset.map_comp comp_def)

section \<open>The interpretation\<close>

interpretation ledger: router_laws "books T" for T
proof unfold_locales
  fix cc :: call_ctx and H s reason
  assume b: "books T (add_mset (Held cc) H) s"
  then show "books T (add_mset (Caller (cc_sink cc)) H) s"
    by (auto simp: books_def dest: account_forget)
  from b have c: "books T (add_mset (Cleared cc) H) s" by (simp add: books_def)
  then show "books T (add_mset (Cleared cc) H) (emit (GateLine (cc_who cc) (cc_op cc) Allow reason None (cc_causation cc)) s)"
    by (rule books_emit) simp
  show "books T (add_mset (Cleared cc) H) s" if "\<not> map_has (rt_opRisk s) (cc_op cc)" by (rule c)
next
  show "books T (add_mset (Cleared cc) H) s \<Longrightarrow> books T (add_mset (Held cc) H) s" for cc H s
    by (simp add: books_def)
  show "books T H s \<Longrightarrow> books T H (emit (GateLine who op verdict reason consent causation) s)"
    for H s who op verdict reason consent causation by (erule books_emit) simp
  show "neutral e \<Longrightarrow> books T H s \<Longrightarrow> books T H (emit e s)" for e H s
    by (cases e) (auto intro: books_emit)
next
  fix cc :: call_ctx and H s
  assume b: "books T (add_mset (Caller (cc_sink cc)) H) s" and c: "cc_causation cc = fst (nextCausation s)"
  let ?s = "snd (nextCausation s)"
  have eq: "?s = s\<lparr>rt_callSeq := rt_callSeq s + 1\<rparr>" by (simp add: nextCausation_def)
  have "account T (all_calls H s) (add_mset (cc_sink cc) (callers H)) (rt_callSeq s) (rt_out s)"
    using books_account [OF b] by simp
  then have "account T (add_mset cc (all_calls H s)) (callers H) (rt_callSeq s + 1) (rt_out s)"
    by (rule account_number) (simp add: c nextCausation_def)
  moreover have "all_calls H ?s = all_calls H s" by (rule all_calls_same) (simp_all add: eq)
  moreover have "well_kept ?s" by (rule well_kept_same [of s]) (use b in \<open>simp_all add: eq books_def\<close>)
  moreover have "dormant_ok ?s" by (rule dormant_ok_same [of s]) (use b in \<open>simp_all add: eq books_def\<close>)
  ultimately show "books T (add_mset (Held cc) H) ?s" by (simp add: books_def eq)
next
  show "books T (add_mset (Caller snk) H) s \<Longrightarrow> books T H (emit (reply snk causation r) s)" for snk H s causation r
    by (erule books_settle) (cases snk; auto)
  show "books T (add_mset (Caller snk) H) s \<Longrightarrow> books T H (emit (Unhandled snk) s)" for snk H s
    by (erule books_settle) auto
next
  fix k r H s
  assume b: "books T (add_mset (Held (kont_ctx k)) H) s"
  show "books T H (resolve_kont k r s)"
  proof (rule books_move [OF b])
    show "well_kept (resolve_kont k r s)" by (rule well_kept_same [of s]) (use b in \<open>simp_all add: books_def\<close>)
    show "dormant_ok (resolve_kont k r s)" by (rule dormant_ok_same [of s]) (use b in \<open>simp_all add: books_def\<close>)
    show "all_calls H (resolve_kont k r s) = all_calls (add_mset (Held (kont_ctx k)) H) s"
      by (simp add: all_calls_def live_def ready_ctx_def)
  qed simp_all
next
  fix s k r rest H
  assume e: "rt_ready s = (k, r) # rest" and b: "books T H s"
  let ?s = "s\<lparr>rt_ready := rest\<rparr>"
  show "books T (add_mset (Held (kont_ctx k)) H) ?s"
  proof (rule books_move [OF b])
    show "well_kept ?s" by (rule well_kept_same [of s]) (use b in \<open>simp_all add: books_def\<close>)
    show "dormant_ok ?s" by (rule dormant_ok_same [of s]) (use b in \<open>simp_all add: books_def\<close>)
    show "all_calls (add_mset (Held (kont_ctx k)) H) ?s = all_calls H s"
      by (simp add: all_calls_def live_def ready_ctx_def e)
  qed simp_all
next
  show "q_ok q \<Longrightarrow> books T (add_mset (hand (q_kont q)) H) s \<Longrightarrow> books T H (admit_now t q s)" for q H s t
    by (rule books_admit)
next
  fix s key p H
  assume p: "map_get (rt_pending s) key = Some p" and b: "books T H s"
  let ?s = "s\<lparr>rt_pending := map_del key (rt_pending s)\<rparr>"
  have d: "distinct (map fst (rt_pending s))" using b by (simp add: books_def well_kept_def)
  show "books T (add_mset (Held (kont_ctx (pc_kont p))) H) ?s"
  proof (rule books_move [OF b])
    show "well_kept ?s" using b by (auto simp: books_def well_kept_def distinct_del split: if_splits)
    show "dormant_ok ?s" by (rule dormant_ok_same [of s]) (use b in \<open>simp_all add: books_def\<close>)
    show "all_calls (add_mset (Held (kont_ctx (pc_kont p))) H) ?s = all_calls H s"
      using values_del [OF d p, of pending_ctx] by (simp add: all_calls_def live_def pending_ctx_def)
  qed simp_all
next
  show "books T H s \<Longrightarrow> books T H (decInflight t [] s)" for H s t
    by (rule books_freed) (rule books_no_empty)
  show "\<not> map_has (rt_pending s) key \<Longrightarrow> books T H s \<Longrightarrow> books T H (decInflight t key s)" for s key H t
    by (simp add: books_freed)
  show "\<forall>k \<in> set (list_of (rt_inflight s) t). \<not> map_has (rt_pending s) k \<Longrightarrow> books T H s \<Longrightarrow>
      books T H (s\<lparr>rt_inflight := map_set t [] (rt_inflight s)\<rparr>)" for s t H
    by (rule books_inflight) (auto split: if_splits)
next
  fix q H s t
  assume q: "q_ok q" and b: "books T (add_mset (hand (q_kont q)) H) s"
  let ?l = "list_of (rt_waiting s) t"
  have l: "lists_of (map_set t (queue_insert q ?l) (rt_waiting s)) + mset ?l = lists_of (rt_waiting s) + add_mset q (mset ?l)"
    using lists_of_set [of "rt_waiting s" t "queue_insert q ?l"] books_keys [OF b] by simp
  then have "lists_of (map_set t (queue_insert q ?l) (rt_waiting s)) = add_mset q (lists_of (rt_waiting s))" by simp
  then show "books T H (s\<lparr>rt_waiting := map_set t (queue_insert q ?l) (rt_waiting s)\<rparr>)"
    by (intro books_waiting [OF b]) (use q books_queue [OF b] books_keys [OF b] in
      \<open>auto simp: q_ctx_def distinct_update split: if_splits\<close>)
next
  fix s t q qs H
  assume w: "list_of (rt_waiting s) t = q # qs" and b: "books T H s"
  have "lists_of (map_set t qs (rt_waiting s)) + mset (q # qs) = lists_of (rt_waiting s) + mset qs"
    using lists_of_set [of "rt_waiting s" t qs] books_keys [OF b] w by simp
  then have l: "add_mset q (lists_of (map_set t qs (rt_waiting s))) = lists_of (rt_waiting s)" by simp
  then have l1: "image_mset q_ctx (lists_of (rt_waiting s)) = add_mset (q_ctx q) (image_mset q_ctx (lists_of (map_set t qs (rt_waiting s))))"
    by (metis image_mset_add_mset)
  have ok: "q_ok q1" if "q1 \<in> set (q # qs)" for q1 using books_queue [OF b, of q1 t] that w by simp
  then have "books T (add_mset (hand (q_kont q)) H) (s\<lparr>rt_waiting := map_set t qs (rt_waiting s)\<rparr>)"
    by (intro books_waiting [OF b]) (use l1 books_queue [OF b] books_keys [OF b] in
      \<open>auto simp: q_ctx_def distinct_update split: if_splits\<close>)
  with ok show "q_ok q \<and> books T (add_mset (hand (q_kont q)) H) (s\<lparr>rt_waiting := map_set t qs (rt_waiting s)\<rparr>)" by simp
next
  fix H s t
  assume b: "books T H s"
  have l: "lists_of (rt_waiting s) = lists_of (map_del t (rt_waiting s)) + mset (list_of (rt_waiting s) t)"
    using lists_of_del [of "rt_waiting s" t] books_keys [OF b] by simp
  show "books T (image_mset (\<lambda>q. hand (q_kont q)) (mset (list_of (rt_waiting s) t)) + H) (s\<lparr>rt_waiting := map_del t (rt_waiting s)\<rparr>)"
    by (intro books_waiting [OF b]) (use l books_queue [OF b] books_keys [OF b] in
      \<open>auto simp: distinct_del split: if_splits\<close>)
next
  fix cc H s i
  assume b: "books T (add_mset (Cleared cc) H) s"
  have "lists_of (map_set i (list_of (rt_spawning s) i @ [cc]) (rt_spawning s)) = add_mset cc (lists_of (rt_spawning s))"
    using lists_of_set [of "rt_spawning s" i "list_of (rt_spawning s) i @ [cc]"] books_keys [OF b] by simp
  then show "books T H (s\<lparr>rt_spawning := map_set i (list_of (rt_spawning s) i @ [cc]) (rt_spawning s)\<rparr>)"
    by (intro books_spawning [OF b]) (use books_keys [OF b] in \<open>auto simp: distinct_update\<close>)
next
  fix H s i
  assume b: "books T H s"
  have l: "lists_of (rt_spawning s) = lists_of (map_del i (rt_spawning s)) + mset (list_of (rt_spawning s) i)"
    using lists_of_del [of "rt_spawning s" i] books_keys [OF b] by simp
  show "books T (image_mset Cleared (mset (list_of (rt_spawning s) i)) + H) (s\<lparr>rt_spawning := map_del i (rt_spawning s)\<rparr>)"
    by (intro books_spawning [OF b]) (use l books_keys [OF b] in \<open>auto simp: distinct_del\<close>)
next
  show "books T H s \<Longrightarrow> books T H (set_state i f s)" for H s i f by (erule books_frame) simp_all
  show "books T H s \<Longrightarrow> books T H (s\<lparr>rt_waiters := w\<rparr>)" for H s w by (erule books_frame) simp_all
next
  fix s k0 H a i
  assume b: "books T H s"
  then have ok: "dormant_ok s" by (simp add: books_def)
  show "books T H (s\<lparr>rt_kernel := Some (k0\<lparr>k_state := a\<rparr>)\<rparr>)" if "rt_kernel s = Some k0"
    by (rule books_same [OF b]) (use ok that in \<open>simp_all add: dormant_ok_def\<close>)
  show "books T H (s\<lparr>rt_dormant := map_del i (rt_dormant s)\<rparr>)"
    by (rule books_same [OF b]) (use ok in \<open>simp_all add: dormant_ok_def\<close>)
next
  fix H s who v
  assume b: "books T H s"
  obtain gen hit line where r: "snd (tokens_revoke who v s) =
      emit (JournalLine line) (s\<lparr>rt_generation := gen, rt_tokens := revoke_tokens hit (rt_tokens s)\<rparr>)"
    using tokens_revoke_shape [of who v s] by blast
  have "books T H (s\<lparr>rt_generation := gen, rt_tokens := revoke_tokens hit (rt_tokens s)\<rparr>)"
    by (rule books_same [OF b]) (use b in \<open>auto simp: books_def dormant_ok_def revoke_tokens_get\<close>)
  then show "books T H (snd (tokens_revoke who v s))" unfolding r by (rule books_emit) simp
next
  fix H s i d c now s1
  assume d: "map_get (rt_dormant s) i = Some d"
    and r: "register c now (do_entry d) (do_manifest d) (do_tokens d) s = Inr s1" and b: "books T H s"
  have "dormant_ok s" using b by (simp add: books_def)
  then have "dormant_ok s1" by (rule respawn_shape(3) [OF _ d r])
  then show "books T H s1" by (intro books_same [OF b]) (simp_all add: register_shape [OF r])
qed

section \<open>Every call is answered once\<close>

text \<open>How often a caller asked in a run.\<close>

fun asked :: "crypto \<Rightarrow> router \<Rightarrow> (int \<times> event) list \<Rightarrow> sink \<Rightarrow> nat" where
  "asked c s [] snk = 0"
| "asked c s (te # es) snk = count (callers (asks s (snd te))) snk + asked c (router_step c s te) es snk"

definition live_for :: "sink \<Rightarrow> router \<Rightarrow> nat" where
  "live_for snk s = count (image_mset cc_sink (live s)) snk"

lemma books_ask:
  assumes "books T {#} s"
  shows "books (\<lambda>snk. T snk + count (callers (asks s e)) snk) (asks s e) s"
proof -
  have "all_calls (asks s e) s = all_calls {#} s"
    by (auto simp: asks_def all_calls_def split: event.split from_worker.split)
  then show ?thesis
    using assms by (simp add: books_def account_def callers_def)
qed

lemma books_run: "books T {#} s \<Longrightarrow> books (\<lambda>snk. T snk + asked c s es snk) {#} (router_run c s es)"
proof (induction es arbitrary: s T)
  case (Cons te es)
  obtain now e where te: "te = (now, e)" by (cases te)
  from ledger.step_keeps [where H = "{#}" and s = s and e = e and now = now and c = c] books_ask [OF Cons.prems, of e]
  have "books (\<lambda>snk. T snk + count (callers (asks s e)) snk) {#} (router_step c s te)" by (simp add: te)
  from Cons.IH [OF this] show ?case by (simp add: te router_run_def add.assoc)
qed (simp add: router_run_def)

lemma boot_books: "boot_ok s \<Longrightarrow> books (\<lambda>snk. 0) {#} s"
proof -
  assume b: "boot_ok s"
  have "answered snk es = 0" if "list_all neutral es" for snk es
    using that unfolding answered_def
  proof (induction es)
    case (Cons e es) then show ?case by (cases e) simp_all
  qed simp
  then show ?thesis
    using b by (simp add: books_def boot_ok_def well_kept_def account_def all_calls_def live_def callers_def)
qed

lemma booted_books:
  "boot_router c now fresh k entries = Inr s \<Longrightarrow> books (\<lambda>snk. asked c s es snk) {#} (router_run c s es)"
  using books_run [OF boot_books [OF boot_router_ok], of c now fresh k entries s c es] by simp

text \<open>(C4) No call is lost and none is answered twice. After every run of a booted router, for every caller
  and call id (and for the root caller) the calls still live and those settled, by one answer or by
  the exception that ended their handler, add up to the calls that were made; and no two live calls
  share a causation id. Forged returns, expired queues, crashes and failed spawns included.\<close>

theorem calls_conserved:
  assumes "boot_router c now fresh k entries = Inr s"
  shows "live_for snk (router_run c s es) + answered snk (rt_out (router_run c s es)) = asked c s es snk \<and>
         count (image_mset cc_causation (live (router_run c s es))) x \<le> 1"
  using booted_books [OF assms, of es]
  by (simp add: books_def account_def all_calls_def callers_def live_for_def)

theorem calls_conserved_witness:
  "live_for ToRoot (router_run toy_crypto sample_router forged_run) +
     answered ToRoot (rt_out (router_run toy_crypto sample_router forged_run)) = asked toy_crypto sample_router forged_run ToRoot \<and>
   count (image_mset cc_causation (live (router_run toy_crypto sample_router forged_run))) ''c_2'' \<le> 1"
  by (rule calls_conserved [OF sample_boots])

section \<open>Crashes\<close>

lemma fail_keys_pending:
  "map_get (rt_pending (fail_keys pid reason s)) k =
    (if k \<in> set (list_of (rt_inflight s) pid) then None else map_get (rt_pending s) k)"
  by (simp add: fail_keys_def list_of_def Let_def fail_fold_get split: option.split)

lemma fail_keys_inflight: "list_of (rt_inflight (fail_keys pid reason s)) pid = []"
  by (auto simp: fail_keys_def list_of_def Let_def split: option.split)

lemma fail_keys_waiting [simp]: "rt_waiting (fail_keys pid reason s) = rt_waiting s"
proof -
  have "rt_waiting (fail_key reason k s) = rt_waiting s" for k s by (simp add: fail_key_def split: option.split)
  then have "rt_waiting (fold (fail_key reason) ks s) = rt_waiting s" for ks s by (induction ks arbitrary: s) simp_all
  then show ?thesis by (simp add: fail_keys_def Let_def split: option.split)
qed

lemma fail_fold_ready:
  "(kr \<in> set (rt_ready s) \<or> (\<exists>key \<in> set keys. \<exists>p. map_get (rt_pending s) key = Some p \<and> kr = (pc_kont p, err_detail DEGRADED reason))) \<Longrightarrow>
   kr \<in> set (rt_ready (fold (fail_key reason) keys s))"
proof (induction keys arbitrary: s)
  case (Cons key keys)
  show ?case
  proof (cases "map_get (rt_pending s) key")
    case None
    then have "fail_key reason key s = s" by (simp add: fail_key_def)
    then show ?thesis using Cons None by auto
  next
    case (Some p)
    have fk: "rt_ready (fail_key reason key s) = rt_ready s @ [(pc_kont p, err_detail DEGRADED reason)]"
      using Some by (simp add: fail_key_def)
    from Cons.prems consider "kr \<in> set (rt_ready s)"
      | k p' where "k \<in> set (key # keys)" "map_get (rt_pending s) k = Some p'" "kr = (pc_kont p', err_detail DEGRADED reason)"
      by blast
    then have "kr \<in> set (rt_ready (fail_key reason key s)) \<or>
        (\<exists>k \<in> set keys. \<exists>p. map_get (rt_pending (fail_key reason key s)) k = Some p \<and> kr = (pc_kont p, err_detail DEGRADED reason))"
    proof cases
      case (2 k p')
      then show ?thesis using Some fk by (cases "k = key") (auto simp: fail_key_pending)
    qed (simp add: fk)
    then show ?thesis using Cons.IH [of "fail_key reason key s"] by simp
  qed
qed simp

lemma fold_resolve [simp]:
  "rt_pending (fold (\<lambda>x. resolve_kont (g x) (h x)) l s) = rt_pending s"
  "rt_inflight (fold (\<lambda>x. resolve_kont (g x) (h x)) l s) = rt_inflight s"
  "rt_waiting (fold (\<lambda>x. resolve_kont (g x) (h x)) l s) = rt_waiting s"
  by (induction l arbitrary: s) simp_all

lemma wake_one_rejects:
  "rt_pending (wake_one now i (Some e) w s) = rt_pending s \<and> rt_inflight (wake_one now i (Some e) w s) = rt_inflight s"
  by (cases w) (simp_all add: spawn_failed_def)

lemma wakeReady_rejects:
  "rt_pending (wakeReady now i (Some e) s) = rt_pending s \<and> rt_inflight (wakeReady now i (Some e) s) = rt_inflight s"
proof -
  have "rt_pending (fold (wake_one now i (Some e)) ws s) = rt_pending s \<and> rt_inflight (fold (wake_one now i (Some e)) ws s) = rt_inflight s" for ws s
    by (induction ws arbitrary: s) (simp_all add: wake_one_rejects)
  then show ?thesis by (simp add: wakeReady_def)
qed

lemma fail_waiting_fields:
  "rt_pending (fail_waiting pid reason s) = rt_pending s" "rt_inflight (fail_waiting pid reason s) = rt_inflight s"
  "list_of (rt_waiting (fail_waiting pid reason s)) pid = []"
  by (simp_all add: fail_waiting_def)

text \<open>What a crash leaves. Nothing waits for the crashed compartment, nothing is in flight or pending
  there, and each call that was pending there has a DEGRADED answer ready.\<close>

theorem crash_settles:
  assumes boot: "boot_router c now fresh k entries = Inr s0" and s: "s = router_run c s0 es"
    and here: "map_has (rt_compartments s) pid"
  shows "list_of (rt_waiting (router_step c s (t, Crash pid why))) pid = [] \<and>
     list_of (rt_inflight (router_step c s (t, Crash pid why))) pid = [] \<and>
     (\<forall>key p. map_get (rt_pending (router_step c s (t, Crash pid why))) key = Some p \<longrightarrow> pc_target p \<noteq> pid) \<and>
     (\<forall>key p. map_get (rt_pending s) key = Some p \<and> pc_target p = pid \<longrightarrow>
        (pc_kont p, err_detail DEGRADED (''compartment '' @ pid @ '' crashed'')) \<in> set (rt_ready (router_step c s (t, Crash pid why))))"
proof -
  let ?reason = "''compartment '' @ pid @ '' crashed''"
  define s1 where "s1 = fail_waiting pid ?reason (wakeReady t pid (Some ?reason)
      (set_state pid (\<lambda>h. h\<lparr>h_state := Unwell, h_crashes := h_crashes h + 1, h_lastError := Some why\<rparr>) s))"
  have step: "router_step c s (t, Crash pid why) = fail_keys pid ?reason s1"
    using here by (simp add: crashed_def failInflight_def s1_def)
  have f: "rt_pending s1 = rt_pending s" "rt_inflight s1 = rt_inflight s" "list_of (rt_waiting s1) pid = []"
    by (simp_all add: s1_def fail_waiting_fields wakeReady_rejects)
  have "well_kept s" using booted_books [OF boot] s by (simp add: books_def)
  then have kept: "key \<in> set (list_of (rt_inflight s) (pc_target p))" if "map_get (rt_pending s) key = Some p" for key p
    using that by (simp add: well_kept_def)
  have "(pc_kont p, err_detail DEGRADED ?reason) \<in> set (rt_ready (fail_keys pid ?reason s1))"
    if p: "map_get (rt_pending s) key = Some p" and t: "pc_target p = pid" for key p
  proof -
    obtain keys where keys: "map_get (rt_inflight s1) pid = Some keys" "key \<in> set keys"
      using kept [OF p] t f(2) by (cases "map_get (rt_inflight s) pid") (auto simp: list_of_def)
    then have "(pc_kont p, err_detail DEGRADED ?reason) \<in> set (rt_ready (fold (fail_key ?reason) keys s1))"
      using p f(1) by (intro fail_fold_ready) auto
    then show ?thesis using keys by (simp add: fail_keys_def Let_def)
  qed
  moreover have "pc_target p \<noteq> pid" if "map_get (rt_pending (fail_keys pid ?reason s1)) key = Some p" for key p
    using that kept [of key p] f by (auto simp: fail_keys_pending split: if_splits)
  moreover have "list_of (rt_waiting (fail_keys pid ?reason s1)) pid = []" using f by simp
  ultimately show ?thesis unfolding step using fail_keys_inflight by blast
qed

theorem crash_settles_witness:
  "list_of (rt_waiting (router_step toy_crypto (router_run toy_crypto sample_router (take 4 forged_run)) (5, Crash ''bot'' ''boom''))) ''bot'' = []"
proof -
  have here: "map_has (rt_compartments (router_run toy_crypto sample_router (take 4 forged_run))) ''bot''" by code_simp
  show ?thesis by (rule conjunct1 [OF crash_settles [OF sample_boots refl here]])
qed

end
