(* ===== verification/Router_Bounds.thy ===== *)
theory Router_Bounds
  imports Router_Ledger
begin

text \<open>
  The bound on concurrency (\<open>maxInflight\<close> in \<open>host/src/ports.ts\<close>): a compartment is handed at most the
  calls its manifest allows, as long as compartments answer only calls that were delivered to them. The
  last section shows that a compartment that answers for another one takes itself past its own bound.
\<close>

section \<open>The bound\<close>

definition cap_ok :: "router \<Rightarrow> bool" where
  "cap_ok s \<longleftrightarrow> (\<forall>t. length (list_of (rt_inflight s) t) \<le> maxInflight s t)"

text \<open>A dormant entry is registered under the manifest it will be spawned with.\<close>

definition manifests_ok :: "router \<Rightarrow> bool" where
  "manifests_ok s \<longleftrightarrow> (\<forall>i d. map_get (rt_dormant s) i = Some d \<longrightarrow>
     ce_id (do_entry d) = i \<and> map_get (rt_manifests s) i = Some (do_manifest d))"

definition bounded :: "router \<Rightarrow> bool" where
  "bounded s \<longleftrightarrow> cap_ok s \<and> manifests_ok s"

lemma bounded_frame:
  assumes "bounded s" and "rt_inflight s1 = rt_inflight s" and "rt_manifests s1 = rt_manifests s" and "rt_dormant s1 = rt_dormant s"
  shows "bounded s1"
  using assms by (simp add: bounded_def cap_ok_def manifests_ok_def maxInflight_def)

lemma manifests_fields [simp]:
  "rt_manifests (emit e s) = rt_manifests s" "rt_manifests (resolve_kont k r s) = rt_manifests s"
  "rt_manifests (decInflight t key s) = rt_manifests s" "rt_manifests (set_state i f s) = rt_manifests s"
  "rt_manifests (admit_now t q s) = rt_manifests s" "rt_manifests (fail_key reason key s) = rt_manifests s"
  by (simp_all add: emit_def resolve_kont_def decInflight_def set_state_def admit_now_def fail_key_def Let_def split: option.split)

lemma maxInflight_same: "rt_manifests s1 = rt_manifests s \<Longrightarrow> maxInflight s1 t = maxInflight s t"
  by (simp add: maxInflight_def)

text \<open>A free slot at a compartment.\<close>

definition slack :: "string \<Rightarrow> router \<Rightarrow> bool" where
  "slack t s \<longleftrightarrow> bounded s \<and> length (list_of (rt_inflight s) t) < maxInflight s t"

lemma slack_frame:
  assumes "slack t s" and "rt_inflight s1 = rt_inflight s" and "rt_manifests s1 = rt_manifests s" and "rt_dormant s1 = rt_dormant s"
  shows "slack t s1"
  using assms bounded_frame [of s s1] by (simp add: slack_def maxInflight_same [of s1 s])

lemma set_del_shorter: "length (set_del k xs) \<le> length xs"
  by (simp add: set_del_def)

lemma dec_bounded: "bounded s \<Longrightarrow> bounded (decInflight t key s)"
proof -
  assume b: "bounded s"
  have "length (list_of (rt_inflight (decInflight t key s)) u) \<le> maxInflight (decInflight t key s) u" for u
  proof -
    have "length (list_of (rt_inflight (decInflight t key s)) u) \<le> length (list_of (rt_inflight s) u)"
      by (simp add: dec_list_of set_del_shorter)
    also have "\<dots> \<le> maxInflight s u" using b by (simp add: bounded_def cap_ok_def)
    also have "\<dots> = maxInflight (decInflight t key s) u" by (rule maxInflight_same [symmetric]) simp
    finally show ?thesis .
  qed
  then show ?thesis using b by (simp add: bounded_def cap_ok_def manifests_ok_def)
qed

lemma dec_slack: "slack t s \<Longrightarrow> slack t (decInflight t key s)"
  using dec_bounded [of s t key] set_del_shorter [of key "list_of (rt_inflight s) t"]
  by (auto simp: slack_def dec_list_of maxInflight_same [of "decInflight t key s" s])

lemma dec_frees: "bounded s \<Longrightarrow> key \<in> set (list_of (rt_inflight s) t) \<Longrightarrow> slack t (decInflight t key s)"
proof -
  assume b: "bounded s" and k: "key \<in> set (list_of (rt_inflight s) t)"
  have "length (set_del key (list_of (rt_inflight s) t)) < length (list_of (rt_inflight s) t)"
    unfolding set_del_def by (rule length_filter_less [OF k]) simp
  moreover have "length (list_of (rt_inflight s) t) \<le> maxInflight s t" using b by (simp add: bounded_def cap_ok_def)
  ultimately show ?thesis using dec_bounded [OF b] by (simp add: slack_def dec_list_of maxInflight_same [of "decInflight t key s" s])
qed

section \<open>Delivery keeps it\<close>

lemma admit_now_bounded: "slack t s \<Longrightarrow> bounded (admit_now t q s)"
proof -
  assume s: "slack t s"
  let ?s = "admit_now t q s"
  have "list_of (rt_inflight ?s) u = (if u = t then set_add (dm_causation (q_msg q)) (list_of (rt_inflight s) t) else list_of (rt_inflight s) u)" for u
    by (simp add: admit_now_def Let_def)
  moreover have "length (set_add (dm_causation (q_msg q)) (list_of (rt_inflight s) t)) \<le> maxInflight s t"
    using s by (simp add: set_add_length slack_def)
  ultimately have "length (list_of (rt_inflight ?s) u) \<le> maxInflight ?s u" for u
    using s by (simp add: slack_def bounded_def cap_ok_def maxInflight_same [of ?s s])
  moreover have "manifests_ok ?s" using s by (simp add: slack_def bounded_def manifests_ok_def)
  ultimately show ?thesis by (simp add: bounded_def cap_ok_def)
qed

lemma drain_bounded: "slack t s \<Longrightarrow> bounded (drain_queue now t l s)"
proof (induction l arbitrary: s)
  case (Cons q qs)
  let ?s = "s\<lparr>rt_waiting := map_set t qs (rt_waiting s)\<rparr>"
  have w: "slack t ?s" by (rule slack_frame [OF Cons.prems]) simp_all
  have "slack t (decInflight t [] (resolve_kont (q_kont q) (deadline_error '' in queue'' (q_msg q)) ?s))"
    by (intro dec_slack slack_frame [OF w]) simp_all
  then show ?case using Cons.IH admit_now_bounded [OF w] by (simp add: Let_def)
qed (simp add: slack_def)

lemma release_bounded: "bounded s \<Longrightarrow> key \<in> set (list_of (rt_inflight s) t) \<Longrightarrow> bounded (release_slot now t key s)"
  unfolding release_slot_def by (intro drain_bounded dec_frees)

lemma enqueue_bounded: "bounded s \<Longrightarrow> bounded (enqueue now t q s)"
proof -
  assume b: "bounded s"
  have "bounded (admit now t q s)" if "slack t s"
    unfolding admit_def release_slot_def
    using that admit_now_bounded by (auto intro!: drain_bounded dec_slack slack_frame [OF that])
  moreover have "bounded (s\<lparr>rt_waiting := w\<rparr>)" for w by (rule bounded_frame [OF b]) simp_all
  ultimately show ?thesis using b by (simp add: enqueue_def slack_def)
qed

lemma resolve_bounded: "bounded s \<Longrightarrow> bounded (resolve_kont k r s)"
  by (erule bounded_frame) simp_all

lemma emit_bounded: "bounded s \<Longrightarrow> bounded (emit e s)"
  by (erule bounded_frame) simp_all

lemma state_bounded: "bounded s \<Longrightarrow> bounded (set_state i f s)"
  by (erule bounded_frame) simp_all

lemma deliver_bounded: "bounded s \<Longrightarrow> bounded (deliver now t m stream k s)"
  unfolding deliver_def by (simp add: Let_def resolve_bounded enqueue_bounded)

lemma to_target_bounded: "bounded s \<Longrightarrow> bounded (to_target now cc s)"
  unfolding to_target_def by (auto split: option.split intro: resolve_bounded deliver_bounded)

lemma callLaw_bounded: "bounded s \<Longrightarrow> bounded (callLaw now cc s)"
  unfolding callLaw_def by (auto split: option.split intro: resolve_bounded deliver_bounded)

lemma past_gate_bounded: "bounded s \<Longrightarrow> bounded (past_gate now cc s)"
  unfolding past_gate_def by (auto intro: to_target_bounded bounded_frame)

lemma dispatch_bounded: "bounded s \<Longrightarrow> bounded (dispatch now who op payload deadline causation stream snk s)"
  unfolding dispatch_def by (auto simp: Let_def split: option.split prod.split intro: resolve_bounded callLaw_bounded past_gate_bounded)

lemma after_gate_bounded: "bounded s \<Longrightarrow> bounded (after_gate now cc r s)"
  unfolding after_gate_def
  by (auto split: port_result.split option.split simp: Let_def intro!: resolve_bounded emit_bounded past_gate_bounded)

lemma run_kont_bounded: "bounded s \<Longrightarrow> bounded (run_kont now k r s)"
  by (cases k) (auto simp: answer_reply intro: after_gate_bounded emit_bounded)

lemma fold_bounded: "(\<And>x s. bounded s \<Longrightarrow> bounded (f x s)) \<Longrightarrow> bounded s \<Longrightarrow> bounded (fold f l s)"
  by (induction l arbitrary: s) auto

lemma next_bounded: "bounded s \<Longrightarrow> nextCausation s = (x, s1) \<Longrightarrow> bounded s1"
  by (auto simp: nextCausation_def elim: bounded_frame)

section \<open>Every event keeps it\<close>

lemma spawn_failed_bounded: "bounded s \<Longrightarrow> bounded (spawn_failed i e s)"
  unfolding spawn_failed_def by (intro fold_bounded resolve_bounded) (auto elim: bounded_frame)

lemma undormant_bounded: "bounded s \<Longrightarrow> bounded (s\<lparr>rt_spawning := w, rt_dormant := map_del i (rt_dormant s)\<rparr>)"
  by (simp add: bounded_def cap_ok_def manifests_ok_def maxInflight_def)

lemma wake_one_bounded: "bounded s \<Longrightarrow> bounded (wake_one now i err w s)"
  by (cases "(now, i, err, w, s)" rule: wake_one.cases)
    (auto simp: spawn_done_def intro!: emit_bounded spawn_failed_bounded fold_bounded to_target_bounded undormant_bounded)

lemma waiters_bounded: "bounded s \<Longrightarrow> bounded (s\<lparr>rt_waiters := w\<rparr>)"
  by (erule bounded_frame) simp_all

lemma wakeReady_bounded: "bounded s \<Longrightarrow> bounded (wakeReady now i err s)"
  unfolding wakeReady_def by (intro fold_bounded wake_one_bounded waiters_bounded)

lemma waitActive_bounded: "bounded s \<Longrightarrow> bounded (waitActive now i w s)"
  unfolding waitActive_def by (auto split: option.split compartment_state.split intro: wake_one_bounded waiters_bounded)

lemma wait_timeout_bounded: "bounded s \<Longrightarrow> bounded (wait_timeout now i w s)"
  unfolding wait_timeout_def by (auto intro: wake_one_bounded waiters_bounded)

lemma register_manifests: "register c now e m tokens s = Inr s1 \<Longrightarrow> rt_manifests s1 = map_set (ce_id e) m (rt_manifests s)"
  unfolding register_def by (auto simp: installTokens_eq install_entry_def elim!: res_bind_InrE registerGraph_shape)

lemma registerDormant_manifests: "registerDormant c e m tokens s = Inr s1 \<Longrightarrow> rt_manifests s1 = map_set (ce_id e) m (rt_manifests s)"
  unfolding registerDormant_def by (auto simp: installTokens_eq install_entry_def Let_def elim!: res_bind_InrE registerGraph_shape)

lemma respawn_bounded:
  assumes b: "bounded s" and d: "map_get (rt_dormant s) i = Some d"
    and r: "register c now (do_entry d) (do_manifest d) (do_tokens d) s = Inr s1"
  shows "bounded s1"
proof -
  have same: "map_get (rt_manifests s1) j = map_get (rt_manifests s) j" for j
    using b d by (auto simp: register_manifests [OF r] bounded_def manifests_ok_def)
  then show ?thesis
    using b register_shape(3,8) [OF r] by (simp add: bounded_def cap_ok_def manifests_ok_def maxInflight_def)
qed

lemma checkout_bounded: "bounded s \<Longrightarrow> bounded (checkout_done c now i err s)"
  unfolding checkout_done_def
  by (auto simp: spawn_done_def split: option.split sum.split elim: respawn_bounded
      intro!: spawn_failed_bounded waitActive_bounded emit_bounded fold_bounded to_target_bounded undormant_bounded)

lemma fail_key_bounded: "bounded s \<Longrightarrow> bounded (fail_key reason key s)"
  by (erule bounded_frame) (simp_all add: fail_key_def split: option.split)

lemma fail_waiting_bounded: "bounded s \<Longrightarrow> bounded (fail_waiting pid reason s)"
  unfolding fail_waiting_def by (intro fold_bounded resolve_bounded) (auto elim: bounded_frame)

lemma fail_keys_bounded: "bounded s \<Longrightarrow> bounded (fail_keys pid reason s)"
proof (cases "map_get (rt_inflight s) pid")
  case (Some keys)
  assume b: "bounded s"
  have "bounded (s1\<lparr>rt_inflight := map_set pid [] (rt_inflight s1)\<rparr>)" if "bounded s1" for s1
    using that by (auto simp: bounded_def cap_ok_def manifests_ok_def maxInflight_def)
  then show ?thesis using b Some by (simp add: fail_keys_def Let_def fold_bounded fail_key_bounded)
qed (simp add: fail_keys_def)

lemma failInflight_bounded: "bounded s \<Longrightarrow> bounded (failInflight now pid reason s)"
  unfolding failInflight_def by (intro fail_keys_bounded fail_waiting_bounded wakeReady_bounded)

lemma crashed_bounded: "bounded s \<Longrightarrow> bounded (crashed now pid reason s)"
  unfolding crashed_def by (intro failInflight_bounded state_bounded)

lemma exited_bounded: "bounded s \<Longrightarrow> bounded (exited now pid code s)"
  unfolding exited_def by (auto split: option.split intro: crashed_bounded)

lemma revoke_bounded: "bounded s \<Longrightarrow> bounded (snd (tokens_revoke who v s))"
  using tokens_revoke_shape [of who v s] by (auto elim: bounded_frame)

lemma hostOp_bounded: "bounded s \<Longrightarrow> bounded (snd (hostOp c now callerId op payload s))"
  by (rule hostOp_state) (auto intro!: emit_bounded state_bounded failInflight_bounded revoke_bounded elim: bounded_frame)

lemma compartmentCall_bounded: "bounded s \<Longrightarrow> bounded (compartmentCall c now pid m s)"
  using hostOp_bounded [of s c now pid "cl_op m" "cl_payload m"]
  by (auto simp: compartmentCall_def post_result_def split: option.split prod.split
      intro: emit_bounded dispatch_bounded next_bounded)

lemma callAsRoot_bounded: "bounded s \<Longrightarrow> bounded (callAsRoot c now op payload deadline stream s)"
  using hostOp_bounded [of s c now "''root''" op payload]
  by (auto simp: callAsRoot_def split: option.split prod.split intro: emit_bounded dispatch_bounded next_bounded)

text \<open>A return is honest when it comes from the compartment its call was delivered to.\<close>

definition honest_event :: "router \<Rightarrow> event \<Rightarrow> bool" where
  "honest_event s e =
     (case e of
        Message pid (MReturn causation r) \<Rightarrow>
          (case map_get (rt_pending s) causation of None \<Rightarrow> True | Some p \<Rightarrow> pc_target p = pid)
      | _ \<Rightarrow> True)"

fun honest_run :: "crypto \<Rightarrow> router \<Rightarrow> (int \<times> event) list \<Rightarrow> bool" where
  "honest_run c s [] = True"
| "honest_run c s (te # es) = (honest_event s (snd te) \<and> honest_run c (router_step c s te) es)"

lemma settle_bounded:
  assumes "bounded s" and "well_kept s" and "map_get (rt_pending s) key = Some p"
  shows "bounded (resolve_kont (pc_kont p) r (release_slot now (pc_target p) key (s\<lparr>rt_pending := map_del key (rt_pending s)\<rparr>)))"
proof -
  have "key \<in> set (list_of (rt_inflight s) (pc_target p))" using assms(2,3) by (simp add: well_kept_def)
  moreover have "bounded (s\<lparr>rt_pending := map_del key (rt_pending s)\<rparr>)" by (rule bounded_frame [OF assms(1)]) simp_all
  ultimately show ?thesis by (intro resolve_bounded release_bounded) simp_all
qed

lemma step_bounded:
  assumes "bounded s" and "well_kept s" and "honest_event s e"
  shows "bounded (router_step c s (now, e))"
proof (cases e)
  case (Message pid m)
  show ?thesis
  proof (cases m)
    case (MReturn causation r)
    then show ?thesis
      using assms settle_bounded [OF assms(1,2), of causation] Message
      by (auto simp: onReturn_def honest_event_def split: option.splits)
  qed (use assms Message in \<open>auto intro!: emit_bounded wakeReady_bounded state_bounded compartmentCall_bounded split: option.split\<close>)
next
  case (Deadline key)
  then show ?thesis using assms settle_bounded [OF assms(1,2), of key] by (auto simp: deadline_fired_def split: option.split)
next
  case Resume
  then show ?thesis using assms by (auto split: list.split intro!: run_kont_bounded elim: bounded_frame)
qed (use assms in \<open>auto intro: crashed_bounded exited_bounded callAsRoot_bounded checkout_bounded wait_timeout_bounded\<close>)

lemma run_bounded:
  "bounded s \<Longrightarrow> books T {#} s \<Longrightarrow> honest_run c s es \<Longrightarrow> bounded (router_run c s es)"
proof (induction es arbitrary: s T)
  case (Cons te es)
  obtain now e where te: "te = (now, e)" by (cases te)
  have "bounded (router_step c s te)"
    unfolding te by (rule step_bounded) (use Cons.prems te in \<open>simp_all add: books_def\<close>)
  moreover have "books (\<lambda>snk. T snk + asked c s [te] snk) {#} (router_run c s [te])" by (rule books_run [OF Cons.prems(2)])
  ultimately show ?case using Cons.IH [of "router_step c s te"] Cons.prems(3) by (simp add: router_run_def)
qed (simp add: router_run_def)

section \<open>The booted router\<close>

lemma boot_entry_bounded:
  assumes "boot_entry c now fresh em ns = Inr ns1" and "rt_inflight (snd ns) = []" and "manifests_ok (snd ns)"
    and late: "ce_bootPhase (fst em) = 0 \<Longrightarrow> rt_dormant (snd ns) = []"
  shows "rt_inflight (snd ns1) = [] \<and> manifests_ok (snd ns1) \<and> (ce_bootPhase (fst em) = 0 \<longrightarrow> rt_dormant (snd ns1) = [])"
proof (cases "ce_bootPhase (fst em) = 0")
  case True
  then show ?thesis
    using assms late by (auto simp: boot_entry_def Let_def register_shape manifests_ok_def emit_def elim!: res_bind_InrE)
next
  case False
  then obtain s1 toks where "registerDormant c (fst em) (snd em) toks (snd ns) = Inr s1" "snd ns1 = s1"
    using assms(1) by (auto simp: boot_entry_def Let_def elim!: res_bind_InrE)
  then show ?thesis
    using assms False by (auto simp: registerDormant_shape registerDormant_manifests manifests_ok_def)
qed

lemma boot_fold_bounded:
  "res_fold (boot_entry c now fresh) xs ns = Inr ns1 \<Longrightarrow> sorted (map (\<lambda>em. ce_bootPhase (fst em)) xs) \<Longrightarrow>
   rt_inflight (snd ns) = [] \<Longrightarrow> manifests_ok (snd ns) \<Longrightarrow>
   rt_dormant (snd ns) = [] \<or> (\<forall>em \<in> set xs. ce_bootPhase (fst em) \<noteq> 0) \<Longrightarrow>
   rt_inflight (snd ns1) = [] \<and> manifests_ok (snd ns1)"
proof (induction xs arbitrary: ns)
  case (Cons em xs)
  obtain ns2 where one: "boot_entry c now fresh em ns = Inr ns2" and rest: "res_fold (boot_entry c now fresh) xs ns2 = Inr ns1"
    using Cons.prems(1) by (auto elim!: res_bind_InrE)
  have b: "rt_inflight (snd ns2) = [] \<and> manifests_ok (snd ns2) \<and> (ce_bootPhase (fst em) = 0 \<longrightarrow> rt_dormant (snd ns2) = [])"
    by (rule boot_entry_bounded [OF one Cons.prems(3,4)]) (use Cons.prems(5) in auto)
  moreover have "\<forall>x \<in> set xs. ce_bootPhase (fst x) \<noteq> 0" if "ce_bootPhase (fst em) \<noteq> 0"
    using Cons.prems(2) that by (fastforce)
  ultimately show ?case using Cons.IH [OF rest] Cons.prems(2) by auto
qed simp

lemma booted_bounded:
  assumes "boot_router c now fresh k entries = Inr s" shows "bounded s"
proof -
  let ?phases = "sort_key (\<lambda>em. ce_bootPhase (fst em)) entries"
  obtain ns where f: "res_fold (boot_entry c now fresh) ?phases (0, new_router k) = Inr ns"
    and s: "s = fold (\<lambda>em. waitActive now (ce_id (fst em)) BootWaiter) (filter (\<lambda>em. ce_bootPhase (fst em) = 0) ?phases) (snd ns)"
    using assms by (auto simp: boot_router_def Let_def elim!: res_bind_InrE)
  have "rt_inflight (snd ns) = [] \<and> manifests_ok (snd ns)"
    by (rule boot_fold_bounded [OF f]) (simp_all add: new_router_def manifests_ok_def)
  then have "bounded (snd ns)" by (simp add: bounded_def cap_ok_def)
  then show ?thesis unfolding s by (intro fold_bounded waitActive_bounded)
qed

section \<open>Properties\<close>

text \<open>(C9) The declared concurrency is a bound. In every run of a booted router in which compartments return
  only calls that were delivered to them, no compartment ever has more calls in flight than the
  \<open>maxConcurrentCalls\<close> of its manifest, or four where it names none.\<close>

theorem inflight_bounded:
  assumes "boot_router c now fresh k entries = Inr s" and "honest_run c s es"
  shows "length (list_of (rt_inflight (router_run c s es)) t) \<le> maxInflight (router_run c s es) t"
proof -
  have "books (\<lambda>snk. 0) {#} s" by (rule boot_books [OF boot_router_ok [OF assms(1)]])
  then have "bounded (router_run c s es)" using booted_bounded [OF assms(1)] assms(2) run_bounded by blast
  then show ?thesis by (simp add: bounded_def cap_ok_def)
qed

text \<open>Six calls to \<open>bot\<close>, which takes four; it calls \<open>mail.send@1\<close>, whose gate question goes to the law.\<close>

definition busy_run :: "(int \<times> event) list" where
  "busy_run = map (\<lambda>i. (i, RootCall ''bot.go@1'' JNull 0 False)) [1, 2, 3, 4, 5, 6] @
     [(7, Checkout ''bot'' None), (8, Message ''bot'' MReady),
      (9, Message ''bot'' (MCall \<lparr>cl_callId = ''1'', cl_token = ''t'', cl_op = ''mail.send@1'', cl_payload = JNull, cl_deadline = 0\<rparr>))]"

theorem inflight_bounded_witness:
  "length (list_of (rt_inflight (router_run toy_crypto sample_router busy_run)) ''bot'') \<le> maxInflight (router_run toy_crypto sample_router busy_run) ''bot''"
proof -
  have "honest_run toy_crypto sample_router busy_run" by code_simp
  from inflight_bounded [OF sample_boots this] show ?thesis .
qed


end
