(* ===== verification/Content_Hash.thy ===== *)
theory Content_Hash
  imports Canonical_Json "HOL-Library.Multiset"
begin

text \<open>
  The content hash of a plugin directory (\<open>contentHashDir\<close> and its asynchronous twin in
  \<open>host/src/canon.ts\<close>): the walk that skips the excluded names and refuses symlinks, the sorted list of
  files, and the digest over their paths and digests. The file system is a tree; digests are the
  parameter of \<open>Canonical_Json\<close>.
\<close>

datatype fs_node = FileN string | DirN "(string \<times> fs_node) list" | LinkN

definition EXCLUDE_CONTENT :: "string list" where
  "EXCLUDE_CONTENT = [''node_modules'', ''.git'', ''plugin.json'', ''package.json'', ''package.json.orig'', ''.DS_Store'']"

text \<open>The walk collects relative paths with their bytes; \<open>Inl\<close> is the exception at a symlink.\<close>

fun walk_entries :: "string \<Rightarrow> (string \<times> fs_node) list \<Rightarrow> string + (string \<times> string) list"
  and walk_node :: "string \<Rightarrow> fs_node \<Rightarrow> string + (string \<times> string) list" where
  "walk_entries pre [] = Inr []"
| "walk_entries pre ((name, node) # rest) =
     (if name \<in> set EXCLUDE_CONTENT then walk_entries pre rest
      else res_bind (walk_node (pre @ name) node) (\<lambda>fs.
           res_bind (walk_entries pre rest) (\<lambda>gs. Inr (fs @ gs))))"
| "walk_node p (FileN b) = Inr [(p, b)]"
| "walk_node p LinkN = Inl p"
| "walk_node p (DirN es) = walk_entries (p @ ''/'') es"

definition hash_stream :: "crypto \<Rightarrow> (string \<times> string) list \<Rightarrow> string" where
  "hash_stream c files = concat (map (\<lambda>(p, b). p @ sha256Hex c b) (sort_key fst files))"

definition hash_files :: "crypto \<Rightarrow> (string \<times> string) list \<Rightarrow> string" where
  "hash_files c files = ''sha256:'' @ sha256Hex c (hash_stream c files)"

definition contentHashDir :: "crypto \<Rightarrow> (string \<times> fs_node) list \<Rightarrow> string + string" where
  "contentHashDir c es = res_bind (walk_entries [] es) (\<lambda>files. Inr (hash_files c files))"

text \<open>The twin reads directories and files concurrently: \<open>order\<close> is the order in which the files
  happened to be collected. A symlink rejects the whole, whichever is met first.\<close>

definition contentHashDirAsync ::
    "crypto \<Rightarrow> ((string \<times> string) list \<Rightarrow> (string \<times> string) list) \<Rightarrow> (string \<times> fs_node) list \<Rightarrow> string + string" where
  "contentHashDirAsync c order es = res_bind (walk_entries [] es) (\<lambda>files. Inr (hash_files c (order files)))"

section \<open>Lemmas\<close>

text \<open>What a directory can hold: distinct names without a separator.\<close>

fun tree_wf :: "(string \<times> fs_node) list \<Rightarrow> bool"
  and node_wf :: "fs_node \<Rightarrow> bool" where
  "tree_wf [] \<longleftrightarrow> True"
| "tree_wf ((name, node) # rest) \<longleftrightarrow> CHR ''/'' \<notin> set name \<and> name \<notin> fst ` set rest \<and> node_wf node \<and> tree_wf rest"
| "node_wf (FileN b) \<longleftrightarrow> True"
| "node_wf LinkN \<longleftrightarrow> True"
| "node_wf (DirN es) \<longleftrightarrow> tree_wf es"

definition first_name :: "string \<Rightarrow> string" where
  "first_name s = takeWhile (\<lambda>x. x \<noteq> CHR ''/'') s"

lemma first_name_plain: "CHR ''/'' \<notin> set name \<Longrightarrow> first_name name = name"
  unfolding first_name_def by (rule takeWhile_eq_all_conv [THEN iffD2]) auto

lemma first_name_dir: "CHR ''/'' \<notin> set name \<Longrightarrow> first_name (name @ CHR ''/'' # r) = name"
  unfolding first_name_def by (subst takeWhile_append2) auto

lemma walk_paths:
  "walk_entries pre es = Inr fs \<Longrightarrow> tree_wf es \<Longrightarrow>
     distinct (map fst fs) \<and> (\<forall>x \<in> set fs. \<exists>r. fst x = pre @ r \<and> first_name r \<in> fst ` set es)"
  "walk_node p n = Inr fs \<Longrightarrow> node_wf n \<Longrightarrow>
     distinct (map fst fs) \<and> (\<forall>x \<in> set fs. fst x = p \<or> (\<exists>r. fst x = p @ CHR ''/'' # r))"
proof (induction pre es and p n arbitrary: fs and fs rule: walk_entries_walk_node.induct)
  case (2 pre name node rest)
  show ?case
  proof (cases "name \<in> set EXCLUDE_CONTENT")
    case True
    then have "distinct (map fst fs)" and "\<forall>x \<in> set fs. \<exists>r. fst x = pre @ r \<and> first_name r \<in> fst ` set rest"
      using "2.IH"(1) [OF True, of fs] "2.prems" by auto
    then show ?thesis by fastforce
  next
    case False
    then obtain as bs where a: "walk_node (pre @ name) node = Inr as" and b: "walk_entries pre rest = Inr bs" and fs: "fs = as @ bs"
      using "2.prems"(1) by (auto simp: res_bind_Inr)
    have na: "CHR ''/'' \<notin> set name" "name \<notin> fst ` set rest" using "2.prems"(2) by auto
    have A: "distinct (map fst as)" "\<forall>x \<in> set as. fst x = pre @ name \<or> (\<exists>r. fst x = (pre @ name) @ CHR ''/'' # r)"
      using "2.IH"(2) [OF False a] "2.prems"(2) by auto
    have B: "distinct (map fst bs)" "\<forall>x \<in> set bs. \<exists>r. fst x = pre @ r \<and> first_name r \<in> fst ` set rest"
      using "2.IH"(3) [OF False b] "2.prems"(2) by auto
    have A': "\<exists>r. fst x = pre @ r \<and> first_name r = name" if "x \<in> set as" for x
      using A(2) that na(1) first_name_plain [OF na(1)] first_name_dir [OF na(1)] by fastforce
    have "fst x \<noteq> fst y" if x: "x \<in> set as" and y: "y \<in> set bs" for x y
    proof -
      obtain r where "fst x = pre @ r" "first_name r = name" using A' [OF x] by blast
      moreover obtain q where "fst y = pre @ q" "first_name q \<in> fst ` set rest" using B(2) y by blast
      ultimately show ?thesis using na(2) by auto
    qed
    then have "distinct (map fst fs)" using A(1) B(1) fs by auto
    moreover have "\<exists>r. fst x = pre @ r \<and> first_name r \<in> fst ` set ((name, node) # rest)" if "x \<in> set fs" for x
      using that fs A' [of x] B(2) by fastforce
    ultimately show ?thesis by blast
  qed
next
  case (5 p es)
  then have ih: "distinct (map fst fs)" "\<forall>x \<in> set fs. \<exists>r. fst x = (p @ ''/'') @ r" by fastforce+
  then show ?case by auto
qed auto

lemma sort_unique:
  assumes "mset xs = mset ys" and "distinct (map fst xs)"
  shows "sort_key fst xs = sort_key fst ys"
  by (rule sort_key_inj_key_eq) (use assms in \<open>simp_all add: distinct_map\<close>)

lemma hash_unique:
  "mset xs = mset ys \<Longrightarrow> distinct (map fst xs) \<Longrightarrow> hash_files c xs = hash_files c ys"
  by (simp add: hash_files_def hash_stream_def sort_unique [of xs ys])

lemma async_hash_same:
  assumes "tree_wf es" and "\<And>files. mset (order files) = mset files"
  shows "contentHashDirAsync c order es = contentHashDir c es"
proof (cases "walk_entries [] es")
  case (Inr files)
  then have "distinct (map fst files)" using walk_paths(1) [OF Inr assms(1)] by blast
  then have "hash_files c files = hash_files c (order files)"
    by (intro hash_unique) (simp_all add: assms(2))
  then show ?thesis using Inr by (simp add: contentHashDirAsync_def contentHashDir_def res_bind_def)
qed (simp add: contentHashDirAsync_def contentHashDir_def res_bind_def)

section \<open>Properties\<close>

text \<open>The twins agree. In whatever order the concurrent reads complete, the asynchronous hash of a
  directory is the synchronous one, and it is refused exactly when the synchronous one is.\<close>

theorem async_hash_equal:
  assumes "tree_wf es" and "\<And>files. mset (order files) = mset files"
  shows "contentHashDirAsync c order es = contentHashDir c es"
  using assms by (rule async_hash_same)

theorem async_hash_equal_witness:
  "contentHashDirAsync toy_crypto rev [(''b'', FileN ''2''), (''a'', DirN [(''c'', FileN ''1'')])] =
   contentHashDir toy_crypto [(''b'', FileN ''2''), (''a'', DirN [(''c'', FileN ''1'')])]"
  by (rule async_hash_equal) simp_all

lemma concat_equal_length:
  "length xs = length ys \<Longrightarrow> (\<And>i. i < length xs \<Longrightarrow> length (xs ! i) = length (ys ! i)) \<Longrightarrow> concat xs = concat ys \<Longrightarrow> xs = ys"
proof (induction xs ys rule: list_induct2)
  case (Cons x xs y ys)
  from Cons.prems(1) [of 0] have "length x = length y" by simp
  moreover from this Cons.prems(2) have "x = y" "concat xs = concat ys" by simp_all
  moreover have "length (xs ! i) = length (ys ! i)" if "i < length xs" for i using Cons.prems(1) [of "Suc i"] that by simp
  ultimately show ?case using Cons.IH by simp
qed simp

text \<open>Over the same paths the hash pins down every byte: with a digest of fixed length that does not
  collide on the texts hashed, two directories with the same files and the same hash have the same contents.\<close>

theorem content_hash_covers:
  assumes a: "walk_entries [] es = Inr fs" and b: "walk_entries [] ds = Inr gs"
    and inj: "inj_on (sha256Hex c) (snd ` set fs \<union> snd ` set gs \<union> {hash_stream c fs, hash_stream c gs})"
    and len: "\<And>x y. length (sha256Hex c x) = length (sha256Hex c y)"
    and paths: "map fst (sort_key fst fs) = map fst (sort_key fst gs)"
    and eq: "contentHashDir c es = contentHashDir c ds"
  shows "sort_key fst fs = sort_key fst gs"
proof -
  let ?f = "\<lambda>px. fst px @ sha256Hex c (snd px)"
  let ?A = "sort_key fst fs" and ?B = "sort_key fst gs"
  have "sha256Hex c (hash_stream c fs) = sha256Hex c (hash_stream c gs)"
    using eq by (simp add: contentHashDir_def a b res_bind_def hash_files_def)
  then have "hash_stream c fs = hash_stream c gs" by (rule inj_onD [OF inj]) simp_all
  then have "concat (map ?f ?A) = concat (map ?f ?B)" by (simp add: hash_stream_def split_def)
  moreover have l: "length ?A = length ?B" using arg_cong [OF paths, of length] by simp
  moreover have p: "fst (?A ! i) = fst (?B ! i)" if "i < length ?A" for i
    using arg_cong [OF paths, of "\<lambda>l. l ! i"] that l by simp
  ultimately have m: "map ?f ?A = map ?f ?B"
    by (intro concat_equal_length) (use len in \<open>simp_all add: p\<close>)
  show ?thesis
  proof (rule nth_equalityI [OF l])
    fix i assume i: "i < length ?A"
    have "?f (?A ! i) = ?f (?B ! i)" using arg_cong [OF m, of "\<lambda>l. l ! i"] i l by simp
    then have h: "sha256Hex c (snd (?A ! i)) = sha256Hex c (snd (?B ! i))" using p [OF i] by simp
    have "?A ! i \<in> set fs" "?B ! i \<in> set gs" using nth_mem [of i ?A] nth_mem [of i ?B] i l by simp_all
    then have "snd (?A ! i) = snd (?B ! i)" by (intro inj_onD [OF inj h]) auto
    then show "?A ! i = ?B ! i" by (intro prod_eqI p [OF i])
  qed
qed

text \<open>A digest of one character, for the witness.\<close>

definition tiny_crypto :: crypto where
  "tiny_crypto = \<lparr>cr_sha = (\<lambda>t. if length t \<le> 1 then ''p'' else ''q''), cr_sign = (\<lambda>t pem. []), cr_verify = (\<lambda>t pub sig. True)\<rparr>"

theorem content_hash_covers_witness:
  "sort_key fst [(''a'', ''x'')] = sort_key fst [(''a'', ''x'')]"
  by (rule content_hash_covers [where c = tiny_crypto and es = "[(''a'', FileN ''x'')]" and ds = "[(''a'', FileN ''x'')]"])
    (simp_all add: EXCLUDE_CONTENT_def res_bind_def tiny_crypto_def sha256Hex_def hash_stream_def)

text \<open>But the paths themselves are not delimited from the digests: for every digest there is a
  directory of one file with the hash of a directory of two.\<close>

theorem content_hash_ambiguous:
  "contentHashDir c [(''a'', FileN x), (''b'', FileN y)] = contentHashDir c [(''a'' @ sha256Hex c x @ ''b'', FileN y)]"
  by (simp add: contentHashDir_def res_bind_def EXCLUDE_CONTENT_def hash_files_def hash_stream_def)

end
