(* ===== verification/Json_Text.thy ===== *)
theory Json_Text
  imports Canonical_Json
begin

text \<open>
  Indented JSON: \<open>JSON.stringify(v, null, 2)\<close>, with which the host writes its recipes, manifests and
  key files, and \<open>JSON.parse\<close> on any text with white space between the tokens, with which it reads
  them. \<open>Canonical_Json\<close> has the compact writer and the tokens. The last section proves that what the
  writer wrote is read back, and that signatures survive the trip.
\<close>

section \<open>The writer\<close>

definition newline :: "nat \<Rightarrow> string" where
  "newline d = CHR 0x0A # replicate (2 * d) (CHR 0x20)"

fun json_pretty :: "nat \<Rightarrow> json \<Rightarrow> string" where
  "json_pretty d JUndefined = ''null''"
| "json_pretty d JNull = ''null''"
| "json_pretty d (JBool b) = show_bool b"
| "json_pretty d (JNum i) = show_int i"
| "json_pretty d (JStr s) = json_quote s"
| "json_pretty d (JArr xs) =
     (if xs = [] then ''[]''
      else CHR ''['' # join_with '','' (map (\<lambda>x. newline (Suc d) @ json_pretty (Suc d) x) xs) @ newline d @ '']'')"
| "json_pretty d (JObj kvs) =
     (let fs = filter (\<lambda>kv. snd kv \<noteq> JUndefined) kvs in
      if fs = [] then ''{}''
      else CHR ''{'' # join_with '','' (map (\<lambda>kv. newline (Suc d) @ json_quote (fst kv) @ '': '' @ json_pretty (Suc d) (snd kv)) fs)
             @ newline d @ ''}'')"

text \<open>What a written value stands for: the \<open>undefined\<close> fields are gone, one in an array is \<open>null\<close>.\<close>

fun json_strip :: "json \<Rightarrow> json" where
  "json_strip JUndefined = JNull"
| "json_strip (JArr xs) = JArr (map json_strip xs)"
| "json_strip (JObj kvs) = JObj (map (\<lambda>kv. (fst kv, json_strip (snd kv))) (filter (\<lambda>kv. snd kv \<noteq> JUndefined) kvs))"
| "json_strip v = v"

section \<open>The parser\<close>

definition is_ws :: "char \<Rightarrow> bool" where
  "is_ws c \<longleftrightarrow> c = CHR 0x20 \<or> c = CHR 0x0A \<or> c = CHR 0x0D \<or> c = CHR 0x09"

definition skip_ws :: "string \<Rightarrow> string" where
  "skip_ws s = dropWhile is_ws s"

text \<open>A key that occurs twice keeps its place and takes the last value.\<close>

definition fields_of :: "(string \<times> json) list \<Rightarrow> (string \<times> json) list" where
  "fields_of kvs = fold (\<lambda>kv m. map_set (fst kv) (snd kv) m) kvs []"

fun text_value :: "nat \<Rightarrow> string \<Rightarrow> (json \<times> string) option"
  and text_elems :: "nat \<Rightarrow> string \<Rightarrow> (json list \<times> string) option"
  and text_fields :: "nat \<Rightarrow> string \<Rightarrow> ((string \<times> json) list \<times> string) option" where
  "text_value 0 s = None"
| "text_value (Suc n) s =
     (case skip_ws s of
        [] \<Rightarrow> None
      | c # cs \<Rightarrow>
          if c = CHR 0x22 then map_option (\<lambda>(t, r). (JStr t, r)) (parse_str cs)
          else if c = CHR ''['' then
            (if starts_with (skip_ws cs) '']'' then Some (JArr [], tl (skip_ws cs))
             else map_option (\<lambda>(vs, r). (JArr vs, r)) (text_elems n cs))
          else if c = CHR ''{'' then
            (if starts_with (skip_ws cs) ''}'' then Some (JObj [], tl (skip_ws cs))
             else map_option (\<lambda>(kvs, r). (JObj (fields_of kvs), r)) (text_fields n cs))
          else if starts_with (c # cs) ''null'' then Some (JNull, drop 4 (c # cs))
          else if starts_with (c # cs) ''true'' then Some (JBool True, drop 4 (c # cs))
          else if starts_with (c # cs) ''false'' then Some (JBool False, drop 5 (c # cs))
          else parse_num (c # cs))"
| "text_elems 0 s = None"
| "text_elems (Suc n) s =
     (case text_value n s of
        None \<Rightarrow> None
      | Some (v, r0) \<Rightarrow>
          let r = skip_ws r0 in
          if starts_with r '','' then map_option (\<lambda>(vs, q). (v # vs, q)) (text_elems n (tl r))
          else if starts_with r '']'' then Some ([v], tl r)
          else None)"
| "text_fields 0 s = None"
| "text_fields (Suc n) s =
     (if \<not> starts_with (skip_ws s) [CHR 0x22] then None
      else case parse_str (tl (skip_ws s)) of
        None \<Rightarrow> None
      | Some (k, r0) \<Rightarrow>
          if \<not> starts_with (skip_ws r0) '':'' then None
          else case text_value n (tl (skip_ws r0)) of
            None \<Rightarrow> None
          | Some (v, r1) \<Rightarrow>
              let r = skip_ws r1 in
              if starts_with r '','' then map_option (\<lambda>(kvs, q). ((k, v) # kvs, q)) (text_fields n (tl r))
              else if starts_with r ''}'' then Some ([(k, v)], tl r)
              else None)"

definition json_read :: "string \<Rightarrow> json option" where
  "json_read s = (case text_value (Suc (length s)) s of Some (v, r) \<Rightarrow> (if skip_ws r = [] then Some v else None) | None \<Rightarrow> None)"

section \<open>Reading back what the writer wrote\<close>

lemma skip_ws_append: "list_all is_ws w \<Longrightarrow> skip_ws (w @ s) = skip_ws s"
  unfolding skip_ws_def by (rule dropWhile_append2) (simp add: list_all_iff)

lemma newline_ws: "list_all is_ws (newline d)"
  by (simp add: newline_def is_ws_def list_all_iff)

lemma no_digit_newline: "no_digit (newline d @ r)"
  by (simp add: newline_def no_digit_def is_digit_def)

text \<open>The first character of a written value starts a value.\<close>

definition starts_value :: "string \<Rightarrow> bool" where
  "starts_value s \<longleftrightarrow> (case s of [] \<Rightarrow> False | c # _ \<Rightarrow> \<not> is_ws c \<and> c \<noteq> CHR '']'' \<and> c \<noteq> CHR ''}'')"

lemma starts_value_show_int: "starts_value (show_int i @ r)"
  using show_int_Cons [of i] by (auto simp: starts_value_def is_ws_def is_digit_def)

lemma pretty_starts: "starts_value (json_pretty d v @ r)"
  by (cases v)
    (use starts_value_show_int in \<open>simp_all add: starts_value_def is_ws_def show_bool_def json_quote_def Let_def\<close>)

lemma starts_value_facts:
  assumes "starts_value s"
  shows "skip_ws s = s" "\<not> starts_with s '']''" "\<not> starts_with s ''}''" "s \<noteq> []"
  using assms by (cases s; simp add: starts_value_def skip_ws_def starts_with_def)+

lemma skip_pretty: "list_all is_ws w \<Longrightarrow> skip_ws (w @ json_pretty d v @ r) = json_pretty d v @ r"
  by (simp add: skip_ws_append starts_value_facts [OF pretty_starts])

lemma join_Cons_map: "join_with sep (map f (x # xs)) = f x @ (if xs = [] then [] else sep @ join_with sep (map f xs))"
  by (cases xs) simp_all

lemma text_elems_pretty:
  assumes "\<And>x n r. x \<in> set xs \<Longrightarrow> length (json_pretty d x) \<le> n \<Longrightarrow> no_digit r \<Longrightarrow>
      text_value n (newline d @ json_pretty d x @ r) = Some (json_strip x, r)"
    and "xs \<noteq> []" and "length (join_with '','' (map (\<lambda>x. newline d @ json_pretty d x) xs)) < n" and w: "list_all is_ws w" "no_digit (w @ '']'' @ r)"
  shows "text_elems n (join_with '','' (map (\<lambda>x. newline d @ json_pretty d x) xs) @ w @ '']'' @ r) = Some (map json_strip xs, r)"
  using assms(1-3)
proof (induction xs arbitrary: n)
  case (Cons x xs)
  let ?f = "\<lambda>x. newline d @ json_pretty d x"
  obtain m where n: "n = Suc m" using Cons.prems by (cases n) auto
  have len: "length (json_pretty d x) \<le> m" using Cons.prems(3) by (simp add: n join_Cons_map del: list.map)
  have sk: "skip_ws (w @ '']'' @ r) = '']'' @ r" using skip_ws_append [OF w(1)] by (simp add: skip_ws_def is_ws_def)
  show ?case
  proof (cases "xs = []")
    case True
    have "text_value m (newline d @ json_pretty d x @ w @ '']'' @ r) = Some (json_strip x, w @ '']'' @ r)"
      by (intro Cons.prems(1)) (use len w in auto)
    then show ?thesis using True sk by (simp add: n Let_def starts_with_def)
  next
    case False
    let ?t = "join_with '','' (map ?f xs) @ w @ '']'' @ r"
    have "text_value m (newline d @ json_pretty d x @ '','' @ ?t) = Some (json_strip x, '','' @ ?t)"
      by (intro Cons.prems(1)) (use len in \<open>auto simp: no_digit_def is_digit_def\<close>)
    moreover have "text_elems m ?t = Some (map json_strip xs, r)"
      by (intro Cons.IH Cons.prems(1) False) (use Cons.prems(3) False in \<open>auto simp: n join_Cons_map simp del: list.map\<close>)
    ultimately show ?thesis
      using False by (simp add: n join_Cons_map Let_def skip_ws_def is_ws_def starts_with_def del: list.map(2)) simp
  qed
qed simp

lemma text_fields_pretty:
  assumes "\<And>k v n r. (k, v) \<in> set fs \<Longrightarrow> length (json_pretty d v) \<le> n \<Longrightarrow> no_digit r \<Longrightarrow>
      text_value n ('' '' @ json_pretty d v @ r) = Some (json_strip v, r)"
    and "fs \<noteq> []" and "length (join_with '','' (map (\<lambda>kv. newline d @ json_quote (fst kv) @ '': '' @ json_pretty d (snd kv)) fs)) < n"
    and w: "list_all is_ws w" "no_digit (w @ ''}'' @ r)"
  shows "text_fields n (join_with '','' (map (\<lambda>kv. newline d @ json_quote (fst kv) @ '': '' @ json_pretty d (snd kv)) fs) @ w @ ''}'' @ r)
    = Some (map (\<lambda>kv. (fst kv, json_strip (snd kv))) fs, r)"
  using assms(1-3)
proof (induction fs arbitrary: n)
  case (Cons kv fs)
  obtain k v where kv: "kv = (k, v)" by (cases kv)
  let ?f = "\<lambda>kv. newline d @ json_quote (fst kv) @ '': '' @ json_pretty d (snd kv)"
  obtain m where n: "n = Suc m" using Cons.prems by (cases n) auto
  have len: "length (json_pretty d v) \<le> m" using Cons.prems(3) by (simp add: n kv join_Cons_map del: list.map)
  have sk: "skip_ws (w @ ''}'' @ r) = ''}'' @ r" using skip_ws_append [OF w(1)] by (simp add: skip_ws_def is_ws_def)
  have key: "skip_ws (newline d @ json_quote k @ q) = json_quote k @ q" "starts_with (json_quote k @ q) [CHR 0x22]"
    "parse_str (tl (json_quote k @ q)) = Some (k, q)" for q
    using skip_ws_append [OF newline_ws] by (simp_all add: json_quote_def starts_with_def parse_str_quote skip_ws_def is_ws_def)
  have colon: "skip_ws ('': '' @ q) = '': '' @ q" "starts_with ('': '' @ q) '':''" "tl ('': '' @ q) = '' '' @ q" for q
    by (simp_all add: skip_ws_def is_ws_def starts_with_def)
  show ?case
  proof (cases "fs = []")
    case True
    have "text_value m ('' '' @ json_pretty d v @ w @ ''}'' @ r) = Some (json_strip v, w @ ''}'' @ r)"
      by (intro Cons.prems(1) [of k]) (use len w kv in auto)
    then show ?thesis using True sk key colon by (simp add: n kv Let_def starts_with_def)
  next
    case False
    let ?t = "join_with '','' (map ?f fs) @ w @ ''}'' @ r"
    have "text_value m ('' '' @ json_pretty d v @ '','' @ ?t) = Some (json_strip v, '','' @ ?t)"
      by (intro Cons.prems(1) [of k]) (use len kv in \<open>auto simp: no_digit_def is_digit_def\<close>)
    moreover have "text_fields m ?t = Some (map (\<lambda>kv. (fst kv, json_strip (snd kv))) fs, r)"
      by (intro Cons.IH Cons.prems(1) False) (use Cons.prems(3) False in \<open>auto simp: n join_Cons_map simp del: list.map\<close>)
    moreover have "skip_ws ('','' @ ?t) = '','' @ ?t" "starts_with ('','' @ ?t) '',''"
      by (simp_all add: skip_ws_def is_ws_def starts_with_def)
    ultimately show ?thesis
      using False key colon by (simp add: n kv join_Cons_map Let_def del: list.map(2)) simp
  qed
qed simp

lemma fields_of_distinct: "distinct (map fst kvs) \<Longrightarrow> fields_of kvs = kvs"
proof -
  have new: "k \<notin> fst ` set m \<Longrightarrow> map_set k v m = m @ [(k, v)]" for k and v :: json and m
    by (induction m) auto
  have "distinct (map fst (m @ kvs)) \<Longrightarrow> fold (\<lambda>kv m. map_set (fst kv) (snd kv) m) kvs m = m @ kvs" for m
  proof (induction kvs arbitrary: m)
    case (Cons kv kvs)
    then show ?case by (simp add: new)
  qed simp
  from this [of "[]"] show "distinct (map fst kvs) \<Longrightarrow> fields_of kvs = kvs" by (simp add: fields_of_def)
qed

lemma list_pretty_length: "x \<in> set xs \<Longrightarrow> length (f x) \<le> length (join_with sep (map f xs))"
  by (induction xs) (auto simp: join_Cons_map simp del: list.map(2))

lemma text_value_starts:
  "list_all is_ws w \<Longrightarrow> text_value (Suc n) (w @ json_pretty d v @ r) = text_value (Suc n) (json_pretty d v @ r)"
  using skip_pretty [of w d v r] skip_pretty [of "[]" d v r] by simp

lemma text_value_num: "no_digit r \<Longrightarrow> text_value (Suc m) (show_int i @ r) = Some (JNum i, r)"
proof -
  assume r: "no_digit r"
  obtain c cs where c: "show_int i = c # cs" and h: "c = CHR ''-'' \<or> is_digit c" using show_int_Cons by blast
  have "\<not> is_ws c" and "c \<noteq> CHR 0x22" "c \<noteq> CHR ''[''" "c \<noteq> CHR ''{''" "c \<noteq> CHR ''n''" "c \<noteq> CHR ''t''" "c \<noteq> CHR ''f''"
    using h by (auto simp: is_digit_def is_ws_def)
  then show ?thesis
    using parse_num_show_int [OF r, of i] c by (simp add: skip_ws_def starts_with_def)
qed

lemma pretty_length: "length (json_pretty d v) \<le> n \<Longrightarrow> 0 < n"
  using starts_value_facts(4) [OF pretty_starts [of d v "[]"]] by (cases n) auto

lemma skip_bracket:
  assumes "xs \<noteq> []" and "\<And>x r. starts_value (f x @ r)"
  shows "\<not> starts_with (skip_ws (join_with '','' (map (\<lambda>x. newline d @ f x) xs) @ r)) '']''"
    and "\<not> starts_with (skip_ws (join_with '','' (map (\<lambda>x. newline d @ f x) xs) @ r)) ''}''"
proof -
  obtain x ys where xs: "xs = x # ys" using assms(1) by (cases xs) auto
  obtain q where q: "join_with '','' (map (\<lambda>x. newline d @ f x) xs) @ r = newline d @ f x @ q"
    unfolding xs join_Cons_map by auto
  have "skip_ws (newline d @ f x @ q) = f x @ q"
    by (simp add: skip_ws_append [OF newline_ws] starts_value_facts(1) [OF assms(2)])
  then show "\<not> starts_with (skip_ws (join_with '','' (map (\<lambda>x. newline d @ f x) xs) @ r)) '']''"
    and "\<not> starts_with (skip_ws (join_with '','' (map (\<lambda>x. newline d @ f x) xs) @ r)) ''}''"
    unfolding q using starts_value_facts(2,3) [OF assms(2) [of x q]] by simp_all
qed

lemma starts_value_quote: "starts_value (json_quote k @ r)"
  by (simp add: starts_value_def json_quote_def is_ws_def)

lemma text_scalar:
  "(\<And>xs. v \<noteq> JArr xs) \<Longrightarrow> (\<And>kvs. v \<noteq> JObj kvs) \<Longrightarrow> no_digit r \<Longrightarrow>
    text_value (Suc m) (json_pretty d v @ r) = Some (json_strip v, r)"
  using text_value_num [of r m]
  by (cases v)
    (auto simp del: text_value.simps, auto simp: show_bool_def json_quote_def skip_ws_def is_ws_def starts_with_def parse_str_quote)

lemma text_pretty_value:
  "json_wf v \<Longrightarrow> list_all is_ws w \<Longrightarrow> length (json_pretty d v) \<le> n \<Longrightarrow> no_digit r \<Longrightarrow>
    text_value n (w @ json_pretty d v @ r) = Some (json_strip v, r)"
proof (induction d v arbitrary: n r w rule: json_pretty.induct)
  case (6 d xs)
  obtain m where n: "n = Suc m" using pretty_length [OF "6.prems"(3)] by (cases n) auto
  show ?case unfolding n text_value_starts [OF "6.prems"(2)]
  proof (cases "xs = []")
    case True
    then show "text_value (Suc m) (json_pretty d (JArr xs) @ r) = Some (json_strip (JArr xs), r)"
      by (simp add: skip_ws_def is_ws_def starts_with_def)
  next
    case False
    let ?j = "join_with '','' (map (\<lambda>x. newline (Suc d) @ json_pretty (Suc d) x) xs)"
    have "text_elems m (?j @ newline d @ '']'' @ r) = Some (map json_strip xs, r)"
      by (rule text_elems_pretty [OF "6.IH"])
        (use False "6.prems" newline_ws no_digit_newline in \<open>auto simp: n list_all_iff\<close>)
    then show "text_value (Suc m) (json_pretty d (JArr xs) @ r) = Some (json_strip (JArr xs), r)"
      using False skip_bracket(1) [OF False pretty_starts] by (simp add: skip_ws_def [of "_ # _"] is_ws_def)
  qed
next
  case (7 d kvs)
  obtain m where n: "n = Suc m" using pretty_length [OF "7.prems"(3)] by (cases n) auto
  define fs where "fs = filter (\<lambda>kv. snd kv \<noteq> JUndefined) kvs"
  show ?case unfolding n text_value_starts [OF "7.prems"(2)]
  proof (cases "fs = []")
    case True
    then show "text_value (Suc m) (json_pretty d (JObj kvs) @ r) = Some (json_strip (JObj kvs), r)"
      by (simp add: skip_ws_def is_ws_def starts_with_def fs_def)
  next
    case False
    let ?g = "\<lambda>kv. json_quote (fst kv) @ '': '' @ json_pretty (Suc d) (snd kv)"
    let ?j = "join_with '','' (map (\<lambda>kv. newline (Suc d) @ ?g kv) fs)"
    have wf: "distinct (map fst fs)" "\<And>k v. (k, v) \<in> set fs \<Longrightarrow> json_wf v"
      using "7.prems"(1) by (auto simp: fs_def list_all_iff distinct_map_filter)
    have fld: "text_value i ('' '' @ json_pretty (Suc d) v @ q) = Some (json_strip v, q)"
      if "(k, v) \<in> set fs" "length (json_pretty (Suc d) v) \<le> i" "no_digit q" for k v i q
      using "7.IH" [OF fs_def, of "(k, v)" "'' ''" i q] that wf False by (simp add: is_ws_def)
    have "text_fields m (?j @ newline d @ ''}'' @ r) = Some (map (\<lambda>kv. (fst kv, json_strip (snd kv))) fs, r)"
      by (rule text_fields_pretty [OF fld])
        (use False "7.prems"(3) newline_ws no_digit_newline in \<open>auto simp: n fs_def [symmetric] Let_def\<close>)
    moreover have "fields_of (map (\<lambda>kv. (fst kv, json_strip (snd kv))) fs) = map (\<lambda>kv. (fst kv, json_strip (snd kv))) fs"
      by (rule fields_of_distinct) (use wf(1) in \<open>simp add: comp_def\<close>)
    ultimately show "text_value (Suc m) (json_pretty d (JObj kvs) @ r) = Some (json_strip (JObj kvs), r)"
      using False skip_bracket(2) [OF False, of ?g] starts_value_quote
      by (simp add: skip_ws_def [of "_ # _"] is_ws_def Let_def fs_def [symmetric])
  qed
qed (auto dest!: pretty_length simp: gr0_conv_Suc text_value_starts text_scalar simp del: json_pretty.simps json_strip.simps text_value.simps)

lemma json_read_pretty: "json_wf v \<Longrightarrow> json_read (json_pretty d v) = Some (json_strip v)"
  using text_pretty_value [of v "[]" d "Suc (length (json_pretty d v))" "[]"]
  by (simp add: json_read_def no_digit_def skip_ws_def)

lemma json_strip_undefined [simp]: "json_strip v = JUndefined \<longleftrightarrow> False"
  by (cases v) simp_all

lemma defined_strip:
  "defined_fields (map (\<lambda>kv. (fst kv, json_strip (snd kv))) (filter (\<lambda>kv. snd kv \<noteq> JUndefined) kvs)) =
   map (\<lambda>kv. (fst kv, json_strip (snd kv))) (defined_fields kvs)"
proof -
  have "insort_key fst (fst x, json_strip (snd x)) (map (\<lambda>kv. (fst kv, json_strip (snd kv))) ys) =
      map (\<lambda>kv. (fst kv, json_strip (snd kv))) (insort_key fst x ys)" for x :: "string \<times> json" and ys
    by (induction ys) auto
  then have "sort_key fst (map (\<lambda>kv. (fst kv, json_strip (snd kv))) ys) =
      map (\<lambda>kv. (fst kv, json_strip (snd kv))) (sort_key fst ys)" for ys :: "(string \<times> json) list"
    by (induction ys) simp_all
  moreover have "filter (\<lambda>kv. snd kv \<noteq> JUndefined) (map (\<lambda>kv. (fst kv, json_strip (snd kv))) ys) =
      map (\<lambda>kv. (fst kv, json_strip (snd kv))) ys" for ys :: "(string \<times> json) list"
    by (induction ys) auto
  ultimately show ?thesis unfolding defined_fields_def by simp
qed

text \<open>A signature covers the canonical text, and that survives writing and reading.\<close>

lemma canonical_strip: "storable v \<Longrightarrow> canonicalJson (json_strip v) = canonicalJson v"
proof (induction v rule: canonicalJson.induct)
  case (5 xs)
  then have "res_map canonicalJson (map json_strip xs) = res_map canonicalJson xs"
    unfolding res_map_map by (intro res_map_cong refl) (simp add: list_all_iff)
  then show ?case by simp
next
  case (6 kvs)
  let ?f = "\<lambda>kv. case canonicalJson (snd kv) of
                    Inl e \<Rightarrow> Inl e
                  | Inr t \<Rightarrow> Inr (json_quote (fst kv) @ '':'' @ t)"
  have "res_map ?f (map (\<lambda>kv. (fst kv, json_strip (snd kv))) (defined_fields kvs)) = res_map ?f (defined_fields kvs)"
    unfolding res_map_map
    by (intro res_map_cong refl) (use 6 in \<open>fastforce simp: set_defined_fields list_all_iff split: sum.split\<close>)
  then show ?case by (simp add: defined_strip)
qed auto

lemma json_wf_strip: "json_wf v \<Longrightarrow> json_wf (json_strip v)"
  by (induction v rule: json_wf.induct) (auto simp: list_all_iff distinct_map_filter comp_def)

lemma json_strip_fields:
  "distinct (map fst kvs) \<Longrightarrow> map_get (map (\<lambda>kv. (fst kv, json_strip (snd kv))) (filter (\<lambda>kv. snd kv \<noteq> JUndefined) kvs)) k =
     (case map_get kvs k of None \<Rightarrow> None | Some v \<Rightarrow> if v = JUndefined then None else Some (json_strip v))"
proof (induction kvs)
  case (Cons kv kvs)
  show ?case
  proof (cases "fst kv = k")
    case True
    then have "map_get kvs k = None" using Cons.prems by (auto simp: map_of_eq_None_iff)
    then show ?thesis using Cons True by (cases kv) simp
  next
    case False
    then show ?thesis using Cons by (cases kv) simp
  qed
qed simp

lemma json_strip_idem: "json_strip (json_strip v) = json_strip v"
  by (induction v rule: json_strip.induct) (auto simp: comp_def filter_map)

text \<open>What the parser returns has distinct keys and no \<open>undefined\<close>: writing it changes nothing.\<close>

lemma fields_of_all: "list_all (\<lambda>kv. P (snd kv)) kvs \<Longrightarrow> list_all (\<lambda>kv. P (snd kv)) (fields_of kvs)"
proof -
  have upd: "list_all (\<lambda>kv. P (snd kv)) m \<Longrightarrow> P v \<Longrightarrow> list_all (\<lambda>kv. P (snd kv)) (map_set k v m)" for m :: "(string \<times> json) list" and k v
    by (induction m) auto
  have "list_all (\<lambda>kv. P (snd kv)) kvs \<Longrightarrow> list_all (\<lambda>kv. P (snd kv)) m \<Longrightarrow>
      list_all (\<lambda>kv. P (snd kv)) (fold (\<lambda>kv m. map_set (fst kv) (snd kv) m) kvs m)" for m
    by (induction kvs arbitrary: m) (auto simp: upd)
  then show "list_all (\<lambda>kv. P (snd kv)) kvs \<Longrightarrow> list_all (\<lambda>kv. P (snd kv)) (fields_of kvs)"
    by (simp add: fields_of_def)
qed

lemma fields_of_keys: "distinct (map fst (fields_of kvs))"
proof -
  have "distinct (map fst m) \<Longrightarrow> distinct (map fst (fold (\<lambda>kv m. map_set (fst kv) (snd kv) m) kvs m))" for m :: "(string \<times> json) list"
    by (induction kvs arbitrary: m) (auto simp: distinct_update)
  from this [of "[]"] show ?thesis by (simp add: fields_of_def)
qed

definition json_clean :: "json \<Rightarrow> bool" where
  "json_clean v \<longleftrightarrow> json_wf v \<and> json_strip v = v"

lemma json_clean_obj:
  "json_clean (JObj kvs) \<longleftrightarrow> distinct (map fst kvs) \<and> list_all (\<lambda>kv. json_clean (snd kv)) kvs"
proof -
  have "map (\<lambda>kv. (fst kv, json_strip (snd kv))) (filter (\<lambda>kv. snd kv \<noteq> JUndefined) kvs) = kvs \<longleftrightarrow>
      list_all (\<lambda>kv. json_strip (snd kv) = snd kv) kvs" (is "?l = kvs \<longleftrightarrow> _")
  proof
    assume l: "?l = kvs"
    show "list_all (\<lambda>kv. json_strip (snd kv) = snd kv) kvs"
      unfolding list_all_iff
    proof
      fix kv assume "kv \<in> set kvs"
      then have "kv \<in> set ?l" by (simp only: l)
      then show "json_strip (snd kv) = snd kv" by (auto simp: json_strip_idem)
    qed
  next
    assume a: "list_all (\<lambda>kv. json_strip (snd kv) = snd kv) kvs"
    then have "filter (\<lambda>kv. snd kv \<noteq> JUndefined) kvs = kvs"
      by (auto simp: filter_id_conv list_all_iff dest: bspec)
    then show "?l = kvs" using a by (simp add: map_idI list_all_iff)
  qed
  then show ?thesis by (auto simp: json_clean_def list_all_iff)
qed

lemma json_clean_arr: "json_clean (JArr xs) \<longleftrightarrow> list_all json_clean xs"
proof -
  have "map f xs = xs \<longleftrightarrow> list_all (\<lambda>x. f x = x) xs" for f :: "json \<Rightarrow> json"
    by (induction xs) auto
  then show ?thesis by (auto simp: json_clean_def list_all_iff)
qed

lemma parse_num_JNum: "parse_num s = Some (v, r) \<Longrightarrow> \<exists>n. v = JNum n"
  by (auto simp: parse_num_def Let_def split: if_splits)

lemma text_clean:
  "text_value n s = Some (v, r) \<Longrightarrow> json_clean v"
  "text_elems n s = Some (vs, r) \<Longrightarrow> list_all json_clean vs"
  "text_fields n s = Some (kvs, r) \<Longrightarrow> list_all (\<lambda>kv. json_clean (snd kv)) kvs"
proof (induction n s and n s and n s arbitrary: v r and vs r and kvs r rule: text_value_text_elems_text_fields.induct)
  case (2 n s)
  obtain c cs where c: "skip_ws s = c # cs" using "2.prems" by (cases "skip_ws s") auto
  show ?case
    using "2.prems" "2.IH" [OF c] parse_num_JNum
    by (fastforce simp: c json_clean_obj json_clean_arr fields_of_keys fields_of_all json_clean_def [of "JStr _"]
        json_clean_def [of JNull] json_clean_def [of "JBool _"] json_clean_def [of "JNum _"] split: if_splits)
next
  case (4 n s)
  then show ?case by (fastforce simp: Let_def split: option.splits if_splits)
next
  case (6 n s)
  then show ?case by (fastforce simp: Let_def split: option.splits if_splits)
qed auto

lemma json_read_clean: "json_read s = Some v \<Longrightarrow> json_clean v"
  by (auto simp: json_read_def simp del: text_value.simps split: option.splits if_splits intro: text_clean(1))

lemma json_reread: "json_read s = Some v \<Longrightarrow> json_read (json_pretty d v) = Some v"
  using json_read_clean [of s v] json_read_pretty [of v d] by (simp add: json_clean_def)

lemma clean_prop: "json_clean v \<Longrightarrow> map_get kvs k = Some x \<Longrightarrow> v = JObj kvs \<Longrightarrow> json_clean x"
  by (auto simp: json_clean_obj list_all_iff dest: map_of_SomeD)

lemma clean_storable: "json_clean v \<Longrightarrow> storable v"
proof (induction v rule: storable.induct)
  case (3 kvs)
  then show ?case by (auto simp: json_clean_obj list_all_iff)
qed (auto simp: json_clean_arr list_all_iff json_clean_def [of JUndefined])

end
