(* ===== verification/Recipe_Verify.thy ===== *)
theory Recipe_Verify
  imports Router_Events Content_Hash Json_Text Node_Path
begin

text \<open>
  The recipe and its verification (\<open>host/src/recipe.ts\<close>, and \<open>verifyComposition\<close> of \<open>host/src/boot.ts\<close>).
  Recipes and manifests are the JSON values the code parses, because their signatures cover every
  field; \<open>recipe_of\<close> and \<open>manifest_of\<close> read them at the types the code casts them to. Where a value does
  not have the type of the cast (an op that is not a text, a contribution that is not an object) the
  code's behaviour is that of the operators it meets and is not modelled: the reading is \<open>None\<close> and the
  function ends with \<open>IllTyped\<close>. An exception is the \<open>Inl\<close> side of a sum. The file system is the record
  \<open>disk\<close>: the texts the host reads and writes, and the source trees it hashes.
\<close>

section \<open>Parsing a recipe\<close>

datatype recipe_error =
    NotJson | NullValue | BadRecipeVersion | BadHashAlgo | MissingName | EmptyComposition | EntryMissingId
  | BadManifestHash string | BadContentHash string | BadGrant string | BadBootPhase string | MissingSource string
  | BadRootOfTrust | MissingSignature

fun is_text :: "json \<Rightarrow> bool" where
  "is_text (JStr s) = True"
| "is_text _ = False"

fun is_array :: "json \<Rightarrow> bool" where
  "is_array (JArr xs) = True"
| "is_array _ = False"

fun js_truthy :: "json \<Rightarrow> bool" where
  "js_truthy JUndefined = False"
| "js_truthy JNull = False"
| "js_truthy (JBool b) = b"
| "js_truthy (JNum n) = (n \<noteq> 0)"
| "js_truthy (JStr s) = (s \<noteq> [])"
| "js_truthy _ = True"

definition sha_text :: "json \<Rightarrow> bool" where
  "sha_text v \<longleftrightarrow> is_text v \<and> starts_with (text_or_empty v) ''sha256:''"

definition whole_number :: "json \<Rightarrow> bool" where
  "whole_number v = (case v of JNum n \<Rightarrow> 0 \<le> n | _ \<Rightarrow> False)"

text \<open>The checks of one entry, in order; the first that fails is the exception.\<close>

definition check_entry :: "json \<Rightarrow> recipe_error option" where
  "check_entry e =
     (case get_prop e ''id'' of
        None \<Rightarrow> Some NullValue
      | Some i \<Rightarrow>
          let nm = text_or_empty i; g = prop_of e ''grant'' in
          if nm = [] then Some EntryMissingId
          else if \<not> sha_text (prop_of e ''manifestHash'') then Some (BadManifestHash nm)
          else if \<not> sha_text (prop_of e ''contentHash'') then Some (BadContentHash nm)
          else if \<not> js_truthy g \<or> \<not> is_array (prop_of g ''capabilities'') \<or> \<not> is_array (prop_of g ''contracts'')
            then Some (BadGrant nm)
          else if \<not> whole_number (prop_of e ''bootPhase'') then Some (BadBootPhase nm)
          else if \<not> is_text (prop_of e ''source'') \<or> \<not> is_text (prop_of e ''manifestPath'') then Some (MissingSource nm)
          else None)"

fun first_error :: "('a \<Rightarrow> 'e option) \<Rightarrow> 'a list \<Rightarrow> 'e option" where
  "first_error f [] = None"
| "first_error f (x # xs) = (case f x of Some e \<Rightarrow> Some e | None \<Rightarrow> first_error f xs)"

definition check_recipe :: "json \<Rightarrow> recipe_error option" where
  "check_recipe r =
     (case get_prop r ''recipeVersion'' of
        None \<Rightarrow> Some NullValue
      | Some v \<Rightarrow>
          if v \<noteq> JNum 1 then Some BadRecipeVersion
          else if prop_of r ''hashAlgo'' \<noteq> JStr ''sha256'' then Some BadHashAlgo
          else if text_or_empty (prop_of r ''name'') = [] then Some MissingName
          else (case prop_of r ''composition'' of
              JArr (e # es) \<Rightarrow>
                (case first_error check_entry (e # es) of
                   Some err \<Rightarrow> Some err
                 | None \<Rightarrow>
                     let root = prop_of r ''rootOfTrust'' in
                     if \<not> js_truthy root \<or> \<not> is_text (prop_of root ''publicKey'') \<or> \<not> is_text (prop_of root ''keyId'')
                     then Some BadRootOfTrust
                     else if \<not> is_text (prop_of r ''signature'') then Some MissingSignature
                     else None)
            | _ \<Rightarrow> Some EmptyComposition))"

definition parseRecipe :: "string \<Rightarrow> recipe_error + json" where
  "parseRecipe text =
     (case json_read text of
        None \<Rightarrow> Inl NotJson
      | Some r \<Rightarrow> (case check_recipe r of Some e \<Rightarrow> Inl e | None \<Rightarrow> Inr r))"

section \<open>Typed readings\<close>

fun opt_all :: "('a \<Rightarrow> 'b option) \<Rightarrow> 'a list \<Rightarrow> 'b list option" where
  "opt_all f [] = Some []"
| "opt_all f (x # xs) =
     (case f x of None \<Rightarrow> None | Some y \<Rightarrow> (case opt_all f xs of None \<Rightarrow> None | Some ys \<Rightarrow> Some (y # ys)))"

text \<open>An array under a type; absent and \<open>null\<close> read as the empty one where the code says \<open>?? []\<close>.\<close>

definition items_of :: "(json \<Rightarrow> 'a option) \<Rightarrow> json \<Rightarrow> 'a list option" where
  "items_of f v = (case v of JArr xs \<Rightarrow> opt_all f xs | JUndefined \<Rightarrow> Some [] | JNull \<Rightarrow> Some [] | _ \<Rightarrow> None)"

definition entry_of :: "json \<Rightarrow> composition_entry option" where
  "entry_of e =
     (case (items_of str_opt (prop_of (prop_of e ''grant'') ''capabilities''),
            items_of str_opt (prop_of (prop_of e ''grant'') ''contracts''), prop_of e ''bootPhase'') of
        (Some caps, Some ops, JNum n) \<Rightarrow>
          Some \<lparr>ce_id = text_or_empty (prop_of e ''id''), ce_version = text_or_empty (prop_of e ''version''),
            ce_source = text_or_empty (prop_of e ''source''), ce_manifestPath = text_or_empty (prop_of e ''manifestPath''),
            ce_manifestHash = text_or_empty (prop_of e ''manifestHash''), ce_contentHash = text_or_empty (prop_of e ''contentHash''),
            ce_grant = \<lparr>g_capabilities = caps, g_contracts = ops\<rparr>, ce_bootPhase = nat n,
            ce_config = (if js_truthy (prop_of e ''config'') then Some (prop_of e ''config'') else None)\<rparr>
      | _ \<Rightarrow> None)"

definition recipe_of :: "json \<Rightarrow> recipe option" where
  "recipe_of r =
     (case items_of entry_of (prop_of r ''composition'') of
        None \<Rightarrow> None
      | Some es \<Rightarrow>
          Some \<lparr>r_name = text_or_empty (prop_of r ''name''), r_composition = es,
            r_keyId = text_or_empty (prop_of (prop_of r ''rootOfTrust'') ''keyId''),
            r_publicKey = text_or_empty (prop_of (prop_of r ''rootOfTrust'') ''publicKey''),
            r_signature = text_or_empty (prop_of r ''signature'')\<rparr>)"

definition risk_of :: "json \<Rightarrow> risk_class option option" where
  "risk_of v =
     (if \<not> js_truthy v then Some None
      else if v = JStr ''READ'' then Some (Some READ)
      else if v = JStr ''MUTATION'' then Some (Some MUTATION)
      else if v = JStr ''EXTERNAL_MUTATION'' then Some (Some EXTERNAL_MUTATION)
      else None)"

definition bool_opt :: "json \<Rightarrow> bool option" where
  "bool_opt v = (case v of JBool b \<Rightarrow> Some b | _ \<Rightarrow> None)"

definition contribution_of :: "contribution_kind \<Rightarrow> json \<Rightarrow> contribution option" where
  "contribution_of k v =
     (case (prop_of v ''id'', prop_of v ''version'', risk_of (prop_of v ''risk'')) of
        (JStr i, JStr n, Some risk) \<Rightarrow>
          Some \<lparr>c_kind = k, c_id = i, c_version = n, c_risk = risk,
            c_priority = (if prop_of v ''priority'' = JStr ''gate'' then Some Gate else None),
            c_idempotent = bool_opt (prop_of v ''idempotent''), c_cancellable = bool_opt (prop_of v ''cancellable''),
            c_estimatedCostMs = (case prop_of v ''estimatedCostMs'' of JNum n \<Rightarrow> Some n | _ \<Rightarrow> None)\<rparr>
      | _ \<Rightarrow> None)"

definition dependency_of :: "json \<Rightarrow> dependency_ref option" where
  "dependency_of v =
     (case prop_of v ''ref'' of JStr x \<Rightarrow> Some \<lparr>dep_ref = x, dep_range = text_or_empty (prop_of v ''range'')\<rparr> | _ \<Rightarrow> None)"

text \<open>Only the routable kinds are read: the host looks at no other.\<close>

definition manifest_of :: "json \<Rightarrow> manifest option" where
  "manifest_of m =
     (let cs = prop_of m ''contributions'' in
      case (items_of (contribution_of KContract) (prop_of cs ''contract''), items_of (contribution_of KEngine) (prop_of cs ''engine''),
            items_of (contribution_of KProvider) (prop_of cs ''provider''), items_of dependency_of (prop_of m ''dependencies''),
            items_of str_opt (prop_of m ''internalSeams'')) of
        (Some con, Some eng, Some pro, Some deps, Some seams) \<Rightarrow>
          Some \<lparr>m_id = text_or_empty (prop_of m ''id''), m_version = text_or_empty (prop_of m ''version''),
            m_entry = text_or_empty (prop_of m ''entry''),
            m_contributions = [(KContract, con), (KEngine, eng), (KProvider, pro)], m_dependencies = deps,
            m_requested = (case items_of str_opt (prop_of (prop_of m ''capabilities'') ''requested'') of Some rs \<Rightarrow> rs | None \<Rightarrow> []),
            m_tier = (if prop_of (prop_of m ''runtime'') ''tier'' = JStr ''process'' then Process
                      else if prop_of (prop_of m ''runtime'') ''tier'' = JStr ''wasm'' then Wasm else WorkerThread),
            m_maxConcurrentCalls = (case prop_of (prop_of (prop_of m ''runtime'') ''budget'') ''maxConcurrentCalls'' of
                JNum n \<Rightarrow> Some (nat n) | _ \<Rightarrow> None),
            m_contentHash = text_or_empty (prop_of m ''contentHash''),
            m_granularity = (if prop_of m ''granularity'' = JStr ''atomic'' \<or> prop_of m ''granularity'' = JUndefined
                then Some Atomic else Some Coarse),
            m_internalSeams = Some seams, m_extractionCandidate = bool_opt (prop_of m ''extractionCandidate'')\<rparr>
      | _ \<Rightarrow> None)"

section \<open>Manifests\<close>

datatype manifest_error = ManifestNotJson | ManifestNull | BadManifestVersion | ManifestMissingId | ManifestMissingEntry

fun set_field :: "string \<Rightarrow> json \<Rightarrow> json \<Rightarrow> json" where
  "set_field k v (JObj kvs) = JObj (map_set k v kvs)"
| "set_field k v x = x"

definition default_field :: "string \<Rightarrow> json \<Rightarrow> json \<Rightarrow> json" where
  "default_field k v m = (if prop_of m k = JUndefined \<or> prop_of m k = JNull then set_field k v m else m)"

definition publisher_json :: "json \<Rightarrow> string \<Rightarrow> json" where
  "publisher_json keyId sig = JObj [(''keyId'', keyId), (''signature'', JStr sig)]"

definition manifest_defaults :: "json \<Rightarrow> json" where
  "manifest_defaults m =
     default_field ''granularity'' (JStr ''atomic'')
       (default_field ''runtime'' (JObj [(''tier'', JStr ''worker-thread''), (''budget'', JObj [])])
         (default_field ''capabilities'' (JObj [(''requested'', JArr [])])
           (default_field ''dependencies'' (JArr [])
             (default_field ''contributions'' (JObj [])
               (default_field ''publisher'' (publisher_json (JStr []) [])
                 (if is_text (prop_of m ''contentHash'') then m else set_field ''contentHash'' (JStr []) m))))))"

definition parseManifest :: "string \<Rightarrow> manifest_error + json" where
  "parseManifest text =
     (case json_read text of
        None \<Rightarrow> Inl ManifestNotJson
      | Some m \<Rightarrow>
          (case get_prop m ''manifestVersion'' of
             None \<Rightarrow> Inl ManifestNull
           | Some v \<Rightarrow>
               if v \<noteq> JStr ''1'' then Inl BadManifestVersion
               else if text_or_empty (prop_of m ''id'') = [] then Inl ManifestMissingId
               else if text_or_empty (prop_of m ''entry'') = [] then Inl ManifestMissingEntry
               else Inr (manifest_defaults m)))"

section \<open>Signature and structure\<close>

fun drop_field :: "string \<Rightarrow> json \<Rightarrow> json" where
  "drop_field k (JObj kvs) = JObj (map_del k kvs)"
| "drop_field k x = x"

definition unsignedRecipe :: "json \<Rightarrow> json" where
  "unsignedRecipe r = drop_field ''signature'' r"

definition verifyRecipeSignature :: "crypto \<Rightarrow> json \<Rightarrow> bool" where
  "verifyRecipeSignature c r =
     verifyJson c (unsignedRecipe r) (text_or_empty (prop_of (prop_of r ''rootOfTrust'') ''publicKey''))
       (text_or_empty (prop_of r ''signature''))"

datatype invariant_error = PhaseZero | OpConflict string string string

definition conflict_scan :: "composition_entry \<Rightarrow> (string, string) jsmap \<times> invariant_error list \<Rightarrow>
    (string, string) jsmap \<times> invariant_error list" where
  "conflict_scan e acc =
     fold (\<lambda>op (seen, errs).
         (map_set op (ce_id e) seen,
          case map_get seen op of Some w \<Rightarrow> errs @ [OpConflict op w (ce_id e)] | None \<Rightarrow> errs))
       (g_contracts (ce_grant e)) acc"

definition verifyCompositionInvariants :: "recipe \<Rightarrow> invariant_error list" where
  "verifyCompositionInvariants r =
     (let phase0 = filter (\<lambda>e. ce_bootPhase e = 0) (r_composition r) in
      (if length phase0 \<noteq> 1 \<or> ce_id (hd phase0) \<noteq> ''vivim.law'' then [PhaseZero] else []) @
      snd (fold conflict_scan (r_composition r) ([], [])))"

section \<open>Lemmas\<close>

definition granted_ops :: "composition_entry list \<Rightarrow> string list" where
  "granted_ops es = concat (map (\<lambda>e. g_contracts (ce_grant e)) es)"

lemma scan_entry:
  "fold (\<lambda>op (seen, errs). (map_set op i seen, case map_get seen op of Some w \<Rightarrow> errs @ [OpConflict op w i] | None \<Rightarrow> errs)) ops (seen, errs)
     = (seen', errs') \<Longrightarrow>
   (\<forall>x. map_get seen' x = None \<longleftrightarrow> map_get seen x = None \<and> x \<notin> set ops) \<and>
   (errs' = [] \<longleftrightarrow> errs = [] \<and> distinct ops \<and> (\<forall>x \<in> set ops. map_get seen x = None))"
proof (induction ops arbitrary: seen errs)
  case (Cons op ops)
  let ?e = "case map_get seen op of Some w \<Rightarrow> errs @ [OpConflict op w i] | None \<Rightarrow> errs"
  have "(\<forall>x. map_get seen' x = None \<longleftrightarrow> map_get (map_set op i seen) x = None \<and> x \<notin> set ops) \<and>
      (errs' = [] \<longleftrightarrow> ?e = [] \<and> distinct ops \<and> (\<forall>x \<in> set ops. map_get (map_set op i seen) x = None))"
    by (rule Cons.IH) (use Cons.prems in simp)
  moreover have "?e = [] \<longleftrightarrow> errs = [] \<and> map_get seen op = None" by (cases "map_get seen op") auto
  ultimately show ?case by auto
qed auto

lemma scan_entries:
  "fold conflict_scan es (seen, errs) = (seen', errs') \<Longrightarrow>
   errs' = [] \<longleftrightarrow> errs = [] \<and> distinct (granted_ops es) \<and> (\<forall>x \<in> set (granted_ops es). map_get seen x = None)"
proof (induction es arbitrary: seen errs)
  case (Cons e es)
  obtain seen1 errs1 where one: "conflict_scan e (seen, errs) = (seen1, errs1)" by (cases "conflict_scan e (seen, errs)")
  have "(\<forall>x. map_get seen1 x = None \<longleftrightarrow> map_get seen x = None \<and> x \<notin> set (g_contracts (ce_grant e))) \<and>
     (errs1 = [] \<longleftrightarrow> errs = [] \<and> distinct (g_contracts (ce_grant e)) \<and> (\<forall>x \<in> set (g_contracts (ce_grant e)). map_get seen x = None))"
    using one unfolding conflict_scan_def by (rule scan_entry)
  moreover have "errs' = [] \<longleftrightarrow> errs1 = [] \<and> distinct (granted_ops es) \<and> (\<forall>x \<in> set (granted_ops es). map_get seen1 x = None)"
    by (rule Cons.IH) (use Cons.prems one in simp)
  ultimately show ?case by (auto simp: granted_ops_def)
qed (auto simp: granted_ops_def)

text \<open>The structure a recipe must have.\<close>

definition well_structured :: "recipe \<Rightarrow> bool" where
  "well_structured r \<longleftrightarrow>
     map ce_id (filter (\<lambda>e. ce_bootPhase e = 0) (r_composition r)) = [''vivim.law''] \<and> distinct (granted_ops (r_composition r))"

lemma invariants_iff: "verifyCompositionInvariants r = [] \<longleftrightarrow> well_structured r"
proof -
  let ?p = "filter (\<lambda>e. ce_bootPhase e = 0) (r_composition r)"
  have "(length ?p \<noteq> 1 \<or> ce_id (hd ?p) \<noteq> ''vivim.law'') \<longleftrightarrow> map ce_id ?p \<noteq> [''vivim.law'']"
    by (cases ?p rule: list.exhaust; cases "tl ?p") auto
  moreover have "snd (fold conflict_scan (r_composition r) ([], [])) = [] \<longleftrightarrow> distinct (granted_ops (r_composition r))"
    using scan_entries [of "r_composition r" "[]" "[]"] by (cases "fold conflict_scan (r_composition r) ([], [])") auto
  ultimately show ?thesis by (simp add: verifyCompositionInvariants_def well_structured_def Let_def)
qed

text \<open>Parsed recipes are written back unchanged, so the pin is read as what was pinned.\<close>

lemma recipe_reload: "parseRecipe t = Inr r \<Longrightarrow> parseRecipe (json_pretty 0 r) = Inr r"
  by (auto simp: parseRecipe_def json_reread split: option.splits)

section \<open>Properties\<close>

text \<open>The structural law is decided exactly: a recipe passes when its only entry of boot phase 0 is
  \<open>vivim.law\<close> and no op is granted twice.\<close>

theorem composition_invariants_exact:
  "verifyCompositionInvariants r = [] \<longleftrightarrow>
     map ce_id (filter (\<lambda>e. ce_bootPhase e = 0) (r_composition r)) = [''vivim.law''] \<and>
     distinct (concat (map (\<lambda>e. g_contracts (ce_grant e)) (r_composition r)))"
  by (simp add: invariants_iff well_structured_def granted_ops_def)

end
