(* ===== verification/Recipe_Compose.thy ===== *)
theory Recipe_Compose
  imports Recipe_Verify
begin

text \<open>
  The two ceremonies over recipes: \<open>compileComposition\<close> turns a specification into signed manifests and
  a signed recipe (\<open>host/src/recipe.ts\<close>), \<open>verifyComposition\<close> and its asynchronous twin check one against
  the files (\<open>host/src/boot.ts\<close>). What is stored is text: the compiler writes it with \<open>JSON.stringify\<close>
  and the verifier parses it again.
\<close>

section \<open>Files and errors\<close>

record disk =
  dk_files :: "(string list, string) jsmap"
  dk_dirs :: "string list \<Rightarrow> fs_node option"

definition read_file :: "disk \<Rightarrow> string list \<Rightarrow> string option" where
  "read_file d p = map_get (dk_files d) p"

text \<open>\<open>atomicWrite\<close> of \<open>host/src/canon.ts\<close>: after the rename the path has the new text.\<close>

definition atomicWrite :: "string list \<Rightarrow> string \<Rightarrow> disk \<Rightarrow> disk" where
  "atomicWrite p t d = d\<lparr>dk_files := map_set p t (dk_files d)\<rparr>"

datatype entry_error =
    ManifestUnreadable string | ManifestHashMismatch string | PublisherInvalid string | SourceMissing string
  | ContentMismatch string | ContentHashError string

datatype composition_error =
  RecipeSignature | RootMismatch | Structure invariant_error | Entry entry_error | Routing routing_error

datatype host_exn =
    RecipeExn recipe_error | ManifestExn manifest_error | Unreadable "string list" | HashExn "string list"
  | IdMismatch string string | Dishonest "honesty_error list" | SignExn canon_error | IllTyped
  | BootRefused "composition_error list" | KernelExn graph_error | KeyFileExn

text \<open>\<open>contentHashDir\<close> of a path: reading a file as a directory throws, and so does a symlink.\<close>

definition hash_path :: "crypto \<Rightarrow> string list \<Rightarrow> fs_node \<Rightarrow> host_exn + string" where
  "hash_path c p n =
     (case n of
        DirN es \<Rightarrow> (case contentHashDir c es of Inl _ \<Rightarrow> Inl (HashExn p) | Inr h \<Rightarrow> Inr h)
      | _ \<Rightarrow> Inl (HashExn p))"

definition hash_path_async ::
    "crypto \<Rightarrow> ((string \<times> string) list \<Rightarrow> (string \<times> string) list) \<Rightarrow> string list \<Rightarrow> fs_node \<Rightarrow> host_exn + string" where
  "hash_path_async c order p n =
     (case n of
        DirN es \<Rightarrow> (case contentHashDirAsync c order es of Inl _ \<Rightarrow> Inl (HashExn p) | Inr h \<Rightarrow> Inr h)
      | _ \<Rightarrow> Inl (HashExn p))"

definition parse_manifest :: "string \<Rightarrow> host_exn + json" where
  "parse_manifest t = (case parseManifest t of Inl e \<Rightarrow> Inl (ManifestExn e) | Inr m \<Rightarrow> Inr m)"

definition sign_json :: "crypto \<Rightarrow> json \<Rightarrow> string \<Rightarrow> host_exn + string" where
  "sign_json c v pem = (case signJson c v pem of Inl e \<Rightarrow> Inl (SignExn e) | Inr s \<Rightarrow> Inr s)"

section \<open>Verifying one entry\<close>

text \<open>A publisher signature that is not a text is an exception inside \<open>verifyJson\<close>, which answers \<open>false\<close>.\<close>

definition publisher_ok :: "crypto \<Rightarrow> json \<Rightarrow> string \<Rightarrow> bool" where
  "publisher_ok c m pub =
     (case prop_of (prop_of m ''publisher'') ''signature'' of
        JStr sig \<Rightarrow>
          verifyJson c (set_field ''publisher'' (publisher_json (prop_of (prop_of m ''publisher'') ''keyId'') []) m) pub sig
      | _ \<Rightarrow> False)"

definition verifyEntryWithRoot ::
    "crypto \<Rightarrow> disk \<Rightarrow> composition_entry \<Rightarrow> string list \<Rightarrow> string \<Rightarrow> host_exn + (json option \<times> entry_error list)" where
  "verifyEntryWithRoot c d e buildDir pub =
     (case read_file d (join_in buildDir (ce_manifestPath e)) of
        None \<Rightarrow> Inr (None, [ManifestUnreadable (ce_manifestPath e)])
      | Some text \<Rightarrow>
          res_bind (parse_manifest text) (\<lambda>m.
            let srcDir = resolve_in buildDir (ce_source e);
                errs = (if ''sha256:'' @ sha256Hex c text \<noteq> ce_manifestHash e then [ManifestHashMismatch (ce_id e)] else []) @
                       (if publisher_ok c m pub then [] else [PublisherInvalid (ce_id e)])
            in (case dk_dirs d srcDir of
                  None \<Rightarrow> Inr (Some m, errs @ [SourceMissing (ce_source e)])
                | Some n \<Rightarrow>
                    res_bind (hash_path c srcDir n) (\<lambda>h.
                      Inr (Some m, errs @ (if h \<noteq> ce_contentHash e then [ContentMismatch (ce_id e)] else []))))))"

definition verifyEntryWithRootAsync ::
    "crypto \<Rightarrow> ((string \<times> string) list \<Rightarrow> (string \<times> string) list) \<Rightarrow> disk \<Rightarrow> composition_entry \<Rightarrow> string list \<Rightarrow> string \<Rightarrow>
     host_exn + (json option \<times> entry_error list)" where
  "verifyEntryWithRootAsync c order d e buildDir pub =
     (case read_file d (join_in buildDir (ce_manifestPath e)) of
        None \<Rightarrow> Inr (None, [ManifestUnreadable (ce_manifestPath e)])
      | Some text \<Rightarrow>
          res_bind (parse_manifest text) (\<lambda>m.
            let srcDir = resolve_in buildDir (ce_source e);
                errs = (if ''sha256:'' @ sha256Hex c text \<noteq> ce_manifestHash e then [ManifestHashMismatch (ce_id e)] else []) @
                       (if publisher_ok c m pub then [] else [PublisherInvalid (ce_id e)])
            in (case dk_dirs d srcDir of
                  None \<Rightarrow> Inr (Some m, errs @ [SourceMissing (ce_source e)])
                | Some n \<Rightarrow>
                    (case hash_path_async c order srcDir n of
                       Inl _ \<Rightarrow> Inr (Some m, errs @ [ContentHashError (ce_id e)])
                     | Inr h \<Rightarrow> Inr (Some m, errs @ (if h \<noteq> ce_contentHash e then [ContentMismatch (ce_id e)] else []))))))"

section \<open>Verifying a composition\<close>

definition recipe_errors :: "crypto \<Rightarrow> json \<Rightarrow> recipe \<Rightarrow> string \<Rightarrow> composition_error list" where
  "recipe_errors c raw rc vaultPub =
     (if verifyRecipeSignature c raw then [] else [RecipeSignature]) @
     (if r_publicKey rc \<noteq> vaultPub then [RootMismatch] else []) @
     map Structure (verifyCompositionInvariants rc)"

text \<open>The manifests under the ids of their entries; a later entry of the same id replaces an earlier one.\<close>

definition collect_manifests :: "composition_entry list \<Rightarrow> (json option \<times> entry_error list) list \<Rightarrow> (string, json) jsmap" where
  "collect_manifests es outs =
     fold (\<lambda>(e, out) ms. case fst out of Some m \<Rightarrow> map_set (ce_id e) m ms | None \<Rightarrow> ms) (zip es outs) []"

definition typed_manifests :: "(string, json) jsmap \<Rightarrow> (string, manifest) jsmap option" where
  "typed_manifests ms = opt_all (\<lambda>(i, m). case manifest_of m of None \<Rightarrow> None | Some t \<Rightarrow> Some (i, t)) ms"

text \<open>The routing table is built only when nothing else is wrong.\<close>

definition with_routing ::
    "recipe \<Rightarrow> (string, json) jsmap \<Rightarrow> composition_error list \<Rightarrow> host_exn + ((string, json) jsmap \<times> composition_error list)" where
  "with_routing rc ms errs =
     (if errs \<noteq> [] then Inr (ms, errs)
      else (case typed_manifests ms of
              None \<Rightarrow> Inl IllTyped
            | Some tm \<Rightarrow> Inr (ms, map Routing (snd (buildRoutingTable rc tm)))))"

definition verifyComposition ::
    "crypto \<Rightarrow> disk \<Rightarrow> json \<Rightarrow> recipe \<Rightarrow> string list \<Rightarrow> string \<Rightarrow> host_exn + ((string, json) jsmap \<times> composition_error list)" where
  "verifyComposition c d raw rc buildDir vaultPub =
     res_bind (res_map (\<lambda>e. verifyEntryWithRoot c d e buildDir (r_publicKey rc)) (r_composition rc)) (\<lambda>outs.
       with_routing rc (collect_manifests (r_composition rc) outs)
         (recipe_errors c raw rc vaultPub @ map Entry (concat (map snd outs))))"

definition verifyCompositionAsync ::
    "crypto \<Rightarrow> ((string \<times> string) list \<Rightarrow> (string \<times> string) list) \<Rightarrow> disk \<Rightarrow> json \<Rightarrow> recipe \<Rightarrow> string list \<Rightarrow> string \<Rightarrow>
     host_exn + ((string, json) jsmap \<times> composition_error list)" where
  "verifyCompositionAsync c order d raw rc buildDir vaultPub =
     res_bind (res_map (\<lambda>e. verifyEntryWithRootAsync c order d e buildDir (r_publicKey rc)) (r_composition rc)) (\<lambda>outs.
       with_routing rc (collect_manifests (r_composition rc) outs)
         (recipe_errors c raw rc vaultPub @ map Entry (concat (map snd outs))))"

section \<open>Compiling a specification\<close>

record spec_entry =
  sp_id :: string
  sp_source :: string
  sp_bootPhase :: nat
  sp_grant :: entry_grant
  sp_config :: "json option"

record composition_spec =
  cs_name :: string
  cs_entries :: "spec_entry list"

record root_key =
  rk_keyId :: string
  rk_publicKey :: string
  rk_pem :: string

definition file_char :: "char \<Rightarrow> char" where
  "file_char x =
     (if (CHR ''a'' \<le> x \<and> x \<le> CHR ''z'') \<or> (CHR ''A'' \<le> x \<and> x \<le> CHR ''Z'') \<or> (CHR ''0'' \<le> x \<and> x \<le> CHR ''9'') \<or>
         x = CHR ''.'' \<or> x = CHR ''-'' then x else CHR ''_'')"

definition manifest_file :: "string list \<Rightarrow> string \<Rightarrow> string list" where
  "manifest_file buildDir i = buildDir @ [''manifests'', map file_char i @ ''.json'']"

definition grant_json :: "entry_grant \<Rightarrow> json" where
  "grant_json g = JObj [(''capabilities'', JArr (map JStr (g_capabilities g))), (''contracts'', JArr (map JStr (g_contracts g)))]"

text \<open>The manifest as it is written: hash and publisher filled in, then signed.\<close>

definition sign_manifest :: "crypto \<Rightarrow> root_key \<Rightarrow> string \<Rightarrow> json \<Rightarrow> host_exn + json" where
  "sign_manifest c k h m =
     (let unsigned = set_field ''publisher'' (publisher_json (JStr (rk_keyId k)) []) (set_field ''contentHash'' (JStr h) m)
      in res_bind (sign_json c unsigned (rk_pem k)) (\<lambda>sig.
           Inr (set_field ''publisher'' (publisher_json (JStr (rk_keyId k)) sig) unsigned)))"

definition entry_json :: "crypto \<Rightarrow> string list \<Rightarrow> string list \<Rightarrow> spec_entry \<Rightarrow> json \<Rightarrow> string \<Rightarrow> string \<Rightarrow> json" where
  "entry_json c buildDir srcDir se m text h =
     JObj ([(''id'', prop_of m ''id''), (''version'', prop_of m ''version''), (''source'', JStr (relative_text buildDir srcDir)),
        (''manifestPath'', JStr (relative_text buildDir (manifest_file buildDir (sp_id se)))),
        (''manifestHash'', JStr (''sha256:'' @ sha256Hex c text)), (''contentHash'', JStr h),
        (''grant'', grant_json (sp_grant se)), (''bootPhase'', JNum (int (sp_bootPhase se)))] @
       (case sp_config se of Some v \<Rightarrow> if js_truthy v then [(''config'', v)] else [] | None \<Rightarrow> []))"

definition compile_entry ::
    "crypto \<Rightarrow> string list \<Rightarrow> string list \<Rightarrow> root_key \<Rightarrow> spec_entry \<Rightarrow> disk \<times> json list \<Rightarrow> host_exn + (disk \<times> json list)" where
  "compile_entry c specDir buildDir k se acc =
     (let srcDir = resolve_in specDir (sp_source se); d = fst acc in
      case read_file d (srcDir @ [''plugin.json'']) of
        None \<Rightarrow> Inl (Unreadable (srcDir @ [''plugin.json'']))
      | Some text \<Rightarrow>
          res_bind (parse_manifest text) (\<lambda>m.
            if prop_of m ''id'' \<noteq> JStr (sp_id se) then Inl (IdMismatch (sp_id se) (text_or_empty (prop_of m ''id'')))
            else case manifest_of m of
              None \<Rightarrow> Inl IllTyped
            | Some tm \<Rightarrow>
                if validateManifestHonesty tm \<noteq> [] then Inl (Dishonest (validateManifestHonesty tm))
                else case dk_dirs d srcDir of
                  None \<Rightarrow> Inl (HashExn srcDir)
                | Some n \<Rightarrow>
                    res_bind (hash_path c srcDir n) (\<lambda>h.
                      res_bind (sign_manifest c k h m) (\<lambda>signed.
                        let out = json_pretty 0 signed in
                        Inr (atomicWrite (manifest_file buildDir (sp_id se)) out d,
                             snd acc @ [entry_json c buildDir srcDir se m out h])))))"

definition unsigned_recipe :: "composition_spec \<Rightarrow> root_key \<Rightarrow> json list \<Rightarrow> (string \<times> json) list" where
  "unsigned_recipe spec k entries =
     [(''recipeVersion'', JNum 1), (''hashAlgo'', JStr ''sha256''), (''name'', JStr (cs_name spec)), (''composition'', JArr entries),
      (''rootOfTrust'', JObj [(''keyId'', JStr (rk_keyId k)), (''publicKey'', JStr (rk_publicKey k))])]"

definition build_dir :: "string list \<Rightarrow> string \<Rightarrow> string list" where
  "build_dir vaultDir name = join_in vaultDir (''build/'' @ name)"

definition compileComposition ::
    "crypto \<Rightarrow> disk \<Rightarrow> composition_spec \<Rightarrow> string list \<Rightarrow> string list \<Rightarrow> root_key \<Rightarrow> host_exn + (disk \<times> json \<times> string list)" where
  "compileComposition c d spec specDir vaultDir k =
     (let buildDir = build_dir vaultDir (cs_name spec) in
      res_bind (res_fold (compile_entry c specDir buildDir k) (cs_entries spec) (d, [])) (\<lambda>(d1, entries).
        res_bind (sign_json c (JObj (unsigned_recipe spec k entries)) (rk_pem k)) (\<lambda>sig.
          let raw = JObj (unsigned_recipe spec k entries @ [(''signature'', JStr sig)])
          in Inr (atomicWrite (buildDir @ [''recipe.json'']) (json_pretty 0 raw) d1, raw, buildDir))))"

end
