(* ===== verification/Boot_Recovery.thy ===== *)
theory Boot_Recovery
  imports Recipe_Compose Router_Boot
begin

text \<open>
  The one boot path (\<open>ensureVault\<close> and \<open>bootComposition\<close> of \<open>host/src/boot.ts\<close>, \<open>host/src/recovery.ts\<close>):
  an incoming recipe is verified, pinned and booted; when it is refused the pinned one is. What the boot
  leaves on disk survives an exception, so a step returns the disk beside its result. The clock, the
  random key and tokens, and the order in which concurrent reads complete are in the record \<open>host_env\<close>.
\<close>

section \<open>The vault directory\<close>

record host_env =
  he_crypto :: crypto
  he_newKey :: root_key
  he_now :: int
  he_token :: "nat \<Rightarrow> string"
  he_order :: "(string \<times> string) list \<Rightarrow> (string \<times> string) list"

definition key_json :: "root_key \<Rightarrow> json" where
  "key_json k = JObj [(''keyId'', JStr (rk_keyId k)), (''publicKey'', JStr (rk_publicKey k)), (''privateKeyPem'', JStr (rk_pem k))]"

definition loadRootKeyPem :: "disk \<Rightarrow> string list \<Rightarrow> host_exn + root_key" where
  "loadRootKeyPem d p =
     (case read_file d p of
        None \<Rightarrow> Inl (Unreadable p)
      | Some text \<Rightarrow>
          (case json_read text of
             None \<Rightarrow> Inl KeyFileExn
           | Some j \<Rightarrow>
               (case (prop_of j ''keyId'', prop_of j ''publicKey'', prop_of j ''privateKeyPem'') of
                  (JStr i, JStr pub, JStr pem) \<Rightarrow> Inr \<lparr>rk_keyId = i, rk_publicKey = pub, rk_pem = pem\<rparr>
                | _ \<Rightarrow> Inl IllTyped)))"

definition key_file :: "string list \<Rightarrow> string list" where
  "key_file vaultDir = vaultDir @ [''keys'', ''root-of-trust'']"

definition write_missing :: "string list \<Rightarrow> string \<Rightarrow> disk \<Rightarrow> disk" where
  "write_missing p t d = (if read_file d p = None then atomicWrite p t d else d)"

definition ensureVault :: "host_env \<Rightarrow> string list \<Rightarrow> disk \<Rightarrow> disk \<times> (host_exn + root_key)" where
  "ensureVault env vaultDir d =
     (let d1 = write_missing (key_file vaultDir) (json_pretty 0 (key_json (he_newKey env))) d;
          d2 = write_missing (vaultDir @ [''format.json'']) (json_pretty 0 (JObj [(''vaultFormat'', JNum 1)])) d1
      in (d2, loadRootKeyPem d2 (key_file vaultDir)))"

section \<open>The pin\<close>

definition pin_path :: "string list \<Rightarrow> string list" where
  "pin_path vaultDir = vaultDir @ [''recipe.pinned'']"

definition loadPinnedRecipe :: "disk \<Rightarrow> string list \<Rightarrow> recipe_error + json option" where
  "loadPinnedRecipe d vaultDir =
     (case read_file d (pin_path vaultDir) of
        None \<Rightarrow> Inr None
      | Some text \<Rightarrow> (case parseRecipe text of Inl e \<Rightarrow> Inl e | Inr r \<Rightarrow> Inr (Some r)))"

definition pinRecipe :: "string list \<Rightarrow> json \<Rightarrow> disk \<Rightarrow> disk" where
  "pinRecipe vaultDir r d = atomicWrite (pin_path vaultDir) (json_pretty 0 r) d"

text \<open>The sweep of files a crash in the middle of a swap left behind.\<close>

definition stale_swap :: "string list \<Rightarrow> string list \<Rightarrow> bool" where
  "stale_swap vaultDir p \<longleftrightarrow> p = vaultDir @ [''recipe.pinned.tmp''] \<or>
     (p \<noteq> [] \<and> butlast p = vaultDir \<and> starts_with (last p) ''recipe.pinned.tmp-'')"

definition cleanupStaleSwap :: "string list \<Rightarrow> disk \<Rightarrow> bool \<times> disk" where
  "cleanupStaleSwap vaultDir d =
     (list_ex (stale_swap vaultDir) (map_keys (dk_files d)),
      d\<lparr>dk_files := filter (\<lambda>f. \<not> stale_swap vaultDir (fst f)) (dk_files d)\<rparr>)"

section \<open>Boot\<close>

record booted =
  bh_raw :: json
  bh_recipe :: recipe
  bh_buildDir :: "string list"
  bh_manifests :: "(string, manifest) jsmap"
  bh_router :: router

text \<open>The entries with the manifests of their ids; the routing table has seen one for each.\<close>

definition boot_entries :: "recipe \<Rightarrow> (string, manifest) jsmap \<Rightarrow> (composition_entry \<times> manifest) list option" where
  "boot_entries rc tm =
     opt_all (\<lambda>e. case map_get tm (ce_id e) of None \<Rightarrow> None | Some m \<Rightarrow> Some (e, m)) (r_composition rc)"

definition start_router ::
    "host_env \<Rightarrow> root_key \<Rightarrow> json \<Rightarrow> recipe \<Rightarrow> string list \<Rightarrow> (string, json) jsmap \<Rightarrow> host_exn + booted" where
  "start_router env k raw rc buildDir ms =
     (case typed_manifests ms of
        None \<Rightarrow> Inl IllTyped
      | Some tm \<Rightarrow>
          (case boot_entries rc tm of
             None \<Rightarrow> Inl IllTyped
           | Some entries \<Rightarrow>
               (case bootstrapKernel (he_crypto env) (rk_keyId k) (rk_pem k) (rk_publicKey k) of
                  Inl e \<Rightarrow> Inl (KernelExn e)
                | Inr kern \<Rightarrow>
                    (case boot_router (he_crypto env) (he_now env) (he_token env) (Some kern) entries of
                       Inl e \<Rightarrow> Inl (KernelExn e)
                     | Inr s \<Rightarrow> Inr \<lparr>bh_raw = raw, bh_recipe = rc, bh_buildDir = buildDir, bh_manifests = tm, bh_router = s\<rparr>))))"

definition bootComposition ::
    "host_env \<Rightarrow> disk \<Rightarrow> json \<Rightarrow> recipe \<Rightarrow> string list \<Rightarrow> string list \<Rightarrow> disk \<times> (host_exn + booted)" where
  "bootComposition env d raw rc buildDir vaultDir =
     (let (d1, key) = ensureVault env vaultDir d in
      (d1, res_bind key (\<lambda>k.
             res_bind (verifyCompositionAsync (he_crypto env) (he_order env) d1 raw rc buildDir (rk_publicKey k)) (\<lambda>(ms, errs).
               if errs \<noteq> [] then Inl (BootRefused errs) else start_router env k raw rc buildDir ms))))"

section \<open>Recovery\<close>

datatype problem = ProblemSignature | ProblemRoot | ProblemStructure "invariant_error list" | ProblemEntry string "entry_error list"

fun try_entries :: "crypto \<Rightarrow> disk \<Rightarrow> string list \<Rightarrow> string \<Rightarrow> composition_entry list \<Rightarrow> host_exn + problem option" where
  "try_entries c d buildDir pub [] = Inr None"
| "try_entries c d buildDir pub (e # es) =
     res_bind (verifyEntryWithRoot c d e buildDir pub) (\<lambda>(m, errs).
       if errs \<noteq> [] then Inr (Some (ProblemEntry (ce_id e) errs)) else try_entries c d buildDir pub es)"

definition tryRecipe :: "crypto \<Rightarrow> disk \<Rightarrow> string \<Rightarrow> json \<Rightarrow> string list \<Rightarrow> host_exn + problem option" where
  "tryRecipe c d rootPub raw buildDir =
     (if \<not> verifyRecipeSignature c raw then Inr (Some ProblemSignature)
      else case recipe_of raw of
        None \<Rightarrow> Inl IllTyped
      | Some rc \<Rightarrow>
          if r_publicKey rc \<noteq> rootPub then Inr (Some ProblemRoot)
          else if verifyCompositionInvariants rc \<noteq> [] then Inr (Some (ProblemStructure (verifyCompositionInvariants rc)))
          else try_entries c d buildDir (r_publicKey rc) (r_composition rc))"

datatype boot_source = IncomingSource | PinnedSource | NoSource

datatype reason =
    IncomingRejected problem | IncomingUnparseable host_exn
  | NoPin "reason option" | PinUnparseable recipe_error | PinCorrupt problem

record recovery_report =
  rp_booted :: bool
  rp_source :: boot_source
  rp_cleaned :: bool
  rp_reason :: "reason option"

definition boot_parsed ::
    "host_env \<Rightarrow> disk \<Rightarrow> json \<Rightarrow> string list \<Rightarrow> string list \<Rightarrow> disk \<times> (host_exn + booted)" where
  "boot_parsed env d raw buildDir vaultDir =
     (case recipe_of raw of
        None \<Rightarrow> (d, Inl IllTyped)
      | Some rc \<Rightarrow> bootComposition env d raw rc buildDir vaultDir)"

text \<open>The body of the \<open>try\<close>: the host, or the problem; an exception keeps what was written.\<close>

definition boot_incoming ::
    "host_env \<Rightarrow> disk \<Rightarrow> root_key \<Rightarrow> string list \<Rightarrow> string \<Rightarrow> string list \<Rightarrow> disk \<times> (host_exn + booted + problem)" where
  "boot_incoming env d k vaultDir text buildDir =
     (case parseRecipe text of
        Inl e \<Rightarrow> (d, Inl (RecipeExn e))
      | Inr raw \<Rightarrow>
          (case tryRecipe (he_crypto env) d (rk_publicKey k) raw buildDir of
             Inl e \<Rightarrow> (d, Inl e)
           | Inr (Some p) \<Rightarrow> (d, Inr (Inr p))
           | Inr None \<Rightarrow>
               (case boot_parsed env (pinRecipe vaultDir raw d) raw buildDir vaultDir of
                  (d1, Inl e) \<Rightarrow> (d1, Inl e)
                | (d1, Inr h) \<Rightarrow> (d1, Inr (Inl h)))))"

definition boot_pinned ::
    "host_env \<Rightarrow> disk \<Rightarrow> root_key \<Rightarrow> string list \<Rightarrow> bool \<Rightarrow> reason option \<Rightarrow>
     disk \<times> (host_exn + (booted option \<times> recovery_report))" where
  "boot_pinned env d k vaultDir cleaned reason =
     (let refuse = (\<lambda>r. (d, Inr (None, \<lparr>rp_booted = False, rp_source = NoSource, rp_cleaned = cleaned, rp_reason = Some r\<rparr>))) in
      case loadPinnedRecipe d vaultDir of
        Inl e \<Rightarrow> refuse (PinUnparseable e)
      | Inr None \<Rightarrow> refuse (NoPin reason)
      | Inr (Some raw) \<Rightarrow>
          (let buildDir = build_dir vaultDir (text_or_empty (prop_of raw ''name'')) in
           case tryRecipe (he_crypto env) d (rk_publicKey k) raw buildDir of
             Inl e \<Rightarrow> (d, Inl e)
           | Inr (Some p) \<Rightarrow> refuse (PinCorrupt p)
           | Inr None \<Rightarrow>
               (case boot_parsed env d raw buildDir vaultDir of
                  (d1, Inl e) \<Rightarrow> (d1, Inl e)
                | (d1, Inr h) \<Rightarrow>
                    (d1, Inr (Some h, \<lparr>rp_booted = True, rp_source = PinnedSource, rp_cleaned = cleaned, rp_reason = reason\<rparr>)))))"

definition bootWithRecovery ::
    "host_env \<Rightarrow> disk \<Rightarrow> string list \<Rightarrow> string list option \<Rightarrow> disk \<times> (host_exn + (booted option \<times> recovery_report))" where
  "bootWithRecovery env d0 vaultDir incoming =
     (let (d1, key) = ensureVault env vaultDir d0 in
      case key of
        Inl e \<Rightarrow> (d1, Inl e)
      | Inr k \<Rightarrow>
          (let (cleaned, d2) = cleanupStaleSwap vaultDir d1 in
           case (case incoming of None \<Rightarrow> None | Some p \<Rightarrow> map_option (\<lambda>t. (p, t)) (read_file d2 p)) of
             None \<Rightarrow> boot_pinned env d2 k vaultDir cleaned None
           | Some (p, text) \<Rightarrow>
               (case boot_incoming env d2 k vaultDir text (butlast p) of
                  (d3, Inr (Inl h)) \<Rightarrow>
                    (d3, Inr (Some h, \<lparr>rp_booted = True, rp_source = IncomingSource, rp_cleaned = cleaned, rp_reason = None\<rparr>))
                | (d3, Inr (Inr pr)) \<Rightarrow> boot_pinned env d3 k vaultDir cleaned (Some (IncomingRejected pr))
                | (d3, Inl e) \<Rightarrow> boot_pinned env d3 k vaultDir cleaned (Some (IncomingUnparseable e)))))"

end
