(* ===== verification/Router_Routing.thy ===== *)
theory Router_Routing
  imports Router_Boot
begin

text \<open>
  Where calls go: the order of the delivery queue, the routing table, and the resolution of an op to
  an implementation. The last interpretation of \<open>router_laws\<close> says that the composition is the only
  grantor: whatever happens in a run, an op resolves only to a plugin whose entry was granted it.
\<close>

section \<open>The delivery queue\<close>

text \<open>The splice keeps one queue per target; it is a stable partition into the gate's items and the
  others.\<close>

lemma queue_insert_normal: "q_priority q = Normal \<Longrightarrow> queue_insert q qs = qs @ [q]"
  by (induction qs) auto

lemma queue_insert_gate:
  "q_priority q = Gate \<Longrightarrow> \<forall>w \<in> set gs. q_priority w = Gate \<Longrightarrow> \<forall>w \<in> set ns. q_priority w = Normal \<Longrightarrow>
   queue_insert q (gs @ ns) = gs @ q # ns"
proof (induction gs)
  case Nil then show ?case by (cases ns) auto
next
  case (Cons g gs) then show ?case by simp
qed

text \<open>Gate items are served before all others, and each class in the order of arrival.\<close>

theorem queue_order:
  "fold queue_insert items [] = filter (\<lambda>q. q_priority q = Gate) items @ filter (\<lambda>q. q_priority q = Normal) items"
proof (induction items rule: rev_induct)
  case (snoc q items)
  show ?case
  proof (cases "q_priority q")
    case Gate
    then show ?thesis using snoc by (simp add: queue_insert_gate)
  next
    case Normal
    then show ?thesis using snoc by (simp add: queue_insert_normal)
  qed
qed simp

section \<open>The routing table\<close>

lemma route_grants_shape:
  "snd (route_grants i ops declared (r, es)) = es @ map (Undeclared i) (filter (\<lambda>d. d \<notin> set ops) declared) \<and>
   fst (route_grants i ops declared (r, es)) = fold (\<lambda>d r. map_set d i r) (filter (\<lambda>d. d \<in> set ops) declared) r"
proof (induction declared arbitrary: r es)
  case (Cons d declared)
  then show ?case by (cases "d \<in> set ops") (simp_all add: route_grants_def)
qed (simp add: route_grants_def)

lemma fold_route_get:
  "map_get (fold (\<lambda>d r. map_set d i r) l r) x = (if x \<in> set l then Some i else map_get r x)"
  by (induction l arbitrary: r) auto

definition table_step :: "recipe \<Rightarrow> (string, manifest) jsmap \<Rightarrow> composition_entry \<Rightarrow>
    (string, string) jsmap \<times> routing_error list \<Rightarrow> (string, string) jsmap \<times> routing_error list" where
  "table_step rc manifests e acc =
     (case map_get manifests (ce_id e) of
        None \<Rightarrow> (fst acc, snd acc @ [NoManifest (ce_id e)])
      | Some m \<Rightarrow>
          (case route_grants (ce_id e) (routableOps m) (g_contracts (ce_grant e)) acc of
             (r, es) \<Rightarrow> (r, es @ unsatisfied rc (ce_id e) (m_dependencies m))))"

lemma buildRoutingTable_fold: "buildRoutingTable rc manifests = fold (table_step rc manifests) (r_composition rc) ([], [])"
  unfolding buildRoutingTable_def table_step_def [abs_def] ..

text \<open>An entry is sound when it has a manifest that declares all it is granted and what it depends on
  is granted to somebody.\<close>

definition entry_sound :: "recipe \<Rightarrow> (string, manifest) jsmap \<Rightarrow> composition_entry \<Rightarrow> bool" where
  "entry_sound rc manifests e \<longleftrightarrow>
     (case map_get manifests (ce_id e) of
        None \<Rightarrow> False
      | Some m \<Rightarrow> set (g_contracts (ce_grant e)) \<subseteq> set (routableOps m) \<and>
          (\<forall>d \<in> set (m_dependencies m). starts_with (dep_ref d) ''contract:'' \<longrightarrow>
             list_ex (\<lambda>x. drop 9 (dep_ref d) \<in> set (g_contracts (ce_grant x))) (r_composition rc)))"

lemma table_step_errors:
  "snd (table_step rc manifests e acc) = [] \<longleftrightarrow> snd acc = [] \<and> entry_sound rc manifests e"
proof (cases "map_get manifests (ce_id e)")
  case None
  then show ?thesis by (simp add: table_step_def entry_sound_def)
next
  case (Some m)
  have "snd (table_step rc manifests e acc) = snd acc @
      map (Undeclared (ce_id e)) (filter (\<lambda>d. d \<notin> set (routableOps m)) (g_contracts (ce_grant e))) @
      unsatisfied rc (ce_id e) (m_dependencies m)"
    using Some route_grants_shape [of "ce_id e" "routableOps m" "g_contracts (ce_grant e)" "fst acc" "snd acc"]
    by (simp add: table_step_def split_def)
  then show ?thesis
    using Some by (auto simp: entry_sound_def unsatisfied_def filter_empty_conv)
qed

lemma table_step_route:
  "entry_sound rc manifests e \<Longrightarrow> map_get (fst (table_step rc manifests e acc)) op =
     (if op \<in> set (g_contracts (ce_grant e)) then Some (ce_id e) else map_get (fst acc) op)"
proof -
  assume ok: "entry_sound rc manifests e"
  then obtain m where m: "map_get manifests (ce_id e) = Some m" and sub: "set (g_contracts (ce_grant e)) \<subseteq> set (routableOps m)"
    by (auto simp: entry_sound_def split: option.splits)
  have "filter (\<lambda>d. d \<in> set (routableOps m)) (g_contracts (ce_grant e)) = g_contracts (ce_grant e)"
    using sub by (intro filter_True) auto
  then show ?thesis
    using m route_grants_shape [of "ce_id e" "routableOps m" "g_contracts (ce_grant e)" "fst acc" "snd acc"]
    by (simp add: table_step_def split_def fold_route_get)
qed

lemma table_fold:
  "snd (fold (table_step rc manifests) es acc) = [] \<longleftrightarrow> snd acc = [] \<and> (\<forall>e \<in> set es. entry_sound rc manifests e)"
  by (induction es arbitrary: acc) (auto simp: table_step_errors)

lemma table_route:
  "\<forall>e \<in> set es. entry_sound rc manifests e \<Longrightarrow> map_get (fst (fold (table_step rc manifests) es acc)) op =
     (case find (\<lambda>e. op \<in> set (g_contracts (ce_grant e))) (rev es) of None \<Rightarrow> map_get (fst acc) op | Some e \<Rightarrow> Some (ce_id e))"
proof (induction es rule: rev_induct)
  case (snoc e es)
  then show ?case by (simp add: table_step_route)
qed simp

text \<open>The table has no errors exactly when every entry is sound, and then an op is routed to the last
  entry that was granted it; an op nobody was granted is not routed.\<close>

theorem routing_table_exact:
  "(snd (buildRoutingTable rc manifests) = []) = list_all (entry_sound rc manifests) (r_composition rc) \<and>
   (if list_all (entry_sound rc manifests) (r_composition rc)
    then map_get (fst (buildRoutingTable rc manifests)) op =
      map_option ce_id (find (\<lambda>e. op \<in> set (g_contracts (ce_grant e))) (rev (r_composition rc)))
    else True)"
  unfolding buildRoutingTable_fold
  by (simp add: table_fold table_route list_all_iff split: option.split)

section \<open>Granted routes\<close>

definition granted :: "(composition_entry \<times> manifest) list \<Rightarrow> string \<Rightarrow> string \<Rightarrow> bool" where
  "granted entries i op \<longleftrightarrow> list_ex (\<lambda>em. ce_id (fst em) = i \<and> op \<in> set (g_contracts (ce_grant (fst em)))) entries"

text \<open>The kernel of a router whose grants all come from the composition: the chain verifies and holds
  every edge, and offers and generations are granted ops.\<close>

definition kernel_ok :: "crypto \<Rightarrow> (composition_entry \<times> manifest) list \<Rightarrow> kernel \<Rightarrow> bool" where
  "kernel_ok c entries k \<longleftrightarrow> chain_ok c (k_graph k, k_audit k) \<and>
     (\<forall>op i. i \<in> set (whoOffers (k_graph k) op) \<longrightarrow> granted entries i op) \<and>
     (\<forall>n. \<forall>pin \<in> set (generations (k_tools k) n).
        \<exists>op. granted entries (pin_impl pin) op \<and> opName op = n \<and> opVersion op = pin_version pin)"

lemma grant_edge_offers:
  assumes "grant_edge c g f t cap sg kind = Inr g'"
  shows "set (whoOffers g' op) = (if kind = Offer \<and> op = cap then insert t (set (whoOffers g op)) else set (whoOffers g op))"
  using assms unfolding grant_edge_def Let_def
  by (auto simp: index_add_def whoOffers_def set_of_def split: if_splits option.splits elim!: res_bind_InrE)

lemma upsert_offers [simp]: "whoOffers (upsertNode g n) op = whoOffers g op"
  by (simp add: whoOffers_def upsertNode_def)

lemma upsert_chain_ok: "chain_ok c (g, log) \<Longrightarrow> chain_ok c (upsertNode g n, log)"
  by (simp add: chain_ok_def upsertNode_ok recorded_def) (simp add: upsertNode_def)

lemma kernel_grant_ok:
  assumes ok: "kernel_ok c entries k" and r: "kernel_grant c i cap kind k = Inr k'"
    and g: "kind = Offer \<Longrightarrow> granted entries i cap"
  shows "kernel_ok c entries k'"
proof -
  obtain gr log where rg: "record_and_grant c (k_graph k, k_audit k) i i cap kind = Inr (gr, log)"
    and k': "k' = k\<lparr>k_graph := gr, k_audit := log\<rparr>"
    using r unfolding kernel_grant_def by (auto elim!: res_bind_InrE)
  have "chain_ok c (gr, log)" using record_and_grant_ok [OF _ rg] ok by (simp add: kernel_ok_def)
  moreover obtain sg where "grant_edge c (k_graph k) i i cap sg kind = Inr gr"
    using rg unfolding record_and_grant_def Let_def split_def by (auto elim!: res_bind_InrE)
  note off = grant_edge_offers [OF this]
  ultimately show ?thesis using ok g k' by (auto simp: kernel_ok_def off split: if_splits)
qed

lemma kernel_grant_succeeds:
  assumes "kernel_ok c entries k" and "map_has (gr_nodes (k_graph k)) i" and "map_has (gr_nodes (k_graph k)) cap"
  shows "\<exists>k'. kernel_grant c i cap kind k = Inr k' \<and> gr_nodes (k_graph k') = gr_nodes (k_graph k)"
proof -
  have ch: "chain_ok c (k_graph k, k_audit k)" using assms(1) by (simp add: kernel_ok_def)
  then obtain g log where rg: "record_and_grant c (k_graph k, k_audit k) i i cap kind = Inr (g, log)"
    using record_and_grant_Inr [OF ch, of i i cap kind] assms(2,3) by auto
  have "indexed (k_graph k)" using ch by (simp add: chain_ok_def graph_ok_def)
  then have "gr_nodes g = gr_nodes (k_graph k)" using record_and_grant_step(2) [OF rg] by simp
  then show ?thesis using rg by (simp add: kernel_grant_def res_bind_def)
qed

lemma upsert_kernel_ok: "kernel_ok c entries k \<Longrightarrow> kernel_ok c entries (k\<lparr>k_graph := upsertNode (k_graph k) n\<rparr>)"
  by (simp add: kernel_ok_def upsert_chain_ok)

lemma publish_kernel_ok:
  "kernel_ok c entries k \<Longrightarrow> granted entries i op \<Longrightarrow>
   kernel_ok c entries (k\<lparr>k_tools := publish (k_tools k) (opName op) (opVersion op) i\<rparr>)"
  by (auto simp: kernel_ok_def)

lemma offer_op_ok:
  assumes "offer_op c i op k = Inr k'" and "kernel_ok c entries k" and "granted entries i op"
  shows "kernel_ok c entries k'"
  using assms unfolding offer_op_def
  by (auto elim!: res_bind_InrE intro!: publish_kernel_ok intro: kernel_grant_ok [OF upsert_kernel_ok])

lemma hold_cap_ok:
  assumes "hold_cap c i cap k = Inr k'" and "kernel_ok c entries k"
  shows "kernel_ok c entries k'"
proof -
  have "kernel_ok c entries (k\<lparr>k_graph := if b then upsertNode (k_graph k) n else k_graph k\<rparr>)" for b n
    using assms(2) upsert_kernel_ok [OF assms(2)] by simp
  then show ?thesis using assms(1) unfolding hold_cap_def Let_def by (rule kernel_grant_ok) simp
qed

lemma res_fold_keeps_in:
  "res_fold f xs s = Inr s1 \<Longrightarrow> P s \<Longrightarrow> (\<And>x s s1. x \<in> set xs \<Longrightarrow> f x s = Inr s1 \<Longrightarrow> P s \<Longrightarrow> P s1) \<Longrightarrow> P s1"
proof (induction xs arbitrary: s)
  case (Cons x xs)
  from Cons.prems(1) obtain s2 where "f x s = Inr s2" and "res_fold f xs s2 = Inr s1" by (auto elim: res_bind_InrE)
  then show ?case using Cons.IH [of s2] Cons.prems(2,3) by (metis list.set_intros)
qed simp

lemma registerGraph_kernel_ok:
  assumes r: "registerGraph c e m s = Inr s1" and g: "\<And>op. op \<in> set (g_contracts (ce_grant e)) \<Longrightarrow> granted entries (ce_id e) op"
    and k: "\<And>k. rt_kernel s = Some k \<Longrightarrow> kernel_ok c entries k" and k1: "rt_kernel s1 = Some k'"
  shows "kernel_ok c entries k'"
proof (cases "rt_kernel s")
  case None
  then show ?thesis using r k1 by (simp add: registerGraph_def)
next
  case (Some k0)
  show ?thesis
  proof (cases "ce_id e \<in> set (rt_graphSeen s)")
    case True
    then show ?thesis using r Some k k1 by (simp add: registerGraph_def)
  next
    case False
    let ?n = "\<lparr>n_id = ce_id e, n_kind = Principal, n_granularity = Some (case m_granularity m of None \<Rightarrow> Atomic | Some g \<Rightarrow> g),
        n_extraction = m_extractionCandidate m\<rparr>"
    obtain k2 where f1: "res_fold (offer_op c (ce_id e)) (g_contracts (ce_grant e)) (k0\<lparr>k_graph := upsertNode (k_graph k0) ?n\<rparr>) = Inr k2"
      and f2: "res_fold (hold_cap c (ce_id e)) (g_capabilities (ce_grant e)) k2 = Inr k'"
      using r Some False k1 unfolding registerGraph_def by (auto elim!: res_bind_InrE)
    have "kernel_ok c entries k2"
      by (rule res_fold_keeps_in [OF f1]) (auto intro: upsert_kernel_ok k Some offer_op_ok g)
    then show ?thesis by (rule res_fold_keeps_in [OF f2]) (auto intro: hold_cap_ok)
  qed
qed

text \<open>A registration cannot be refused by the graph: its nodes are there before its edges.\<close>

lemma upsert_has: "map_has (gr_nodes (upsertNode g n)) x \<longleftrightarrow> x = n_id n \<or> map_has (gr_nodes g) x"
  by (simp add: upsertNode_def)

lemma offer_op_succeeds:
  assumes ok: "kernel_ok c entries k" and "map_has (gr_nodes (k_graph k)) i"
  shows "\<exists>k'. offer_op c i op k = Inr k' \<and> map_has (gr_nodes (k_graph k')) i"
proof -
  let ?k = "k\<lparr>k_graph := upsertNode (k_graph k) (plain_node op Capability)\<rparr>"
  have "kernel_ok c entries ?k" by (rule upsert_kernel_ok [OF ok])
  then obtain k' where "kernel_grant c i op Offer ?k = Inr k'" and n: "gr_nodes (k_graph k') = gr_nodes (k_graph ?k)"
    using kernel_grant_succeeds [of c entries ?k i op Offer] assms(2) by (auto simp: upsert_has plain_node_def)
  moreover have "map_has (gr_nodes (k_graph k')) i"
    using assms(2) by (simp add: n upsert_has)
  ultimately show ?thesis by (simp add: offer_op_def res_bind_def)
qed

lemma hold_cap_succeeds:
  assumes ok: "kernel_ok c entries k" and "map_has (gr_nodes (k_graph k)) i"
  shows "\<exists>k'. hold_cap c i cap k = Inr k' \<and> map_has (gr_nodes (k_graph k')) i"
proof -
  define held where "held = (case port_alias cap of None \<Rightarrow> cap | Some op \<Rightarrow> op)"
  define k1 where "k1 = k\<lparr>k_graph := if graph_node_of (k_graph k) held = None then upsertNode (k_graph k) (plain_node held Capability) else k_graph k\<rparr>"
  have "kernel_ok c entries k1" using ok upsert_kernel_ok [OF ok] by (simp add: k1_def)
  moreover have h: "map_has (gr_nodes (k_graph k1)) held" and i: "map_has (gr_nodes (k_graph k1)) i"
    using assms(2) by (simp_all add: k1_def graph_node_of_def upsert_has plain_node_def)
  ultimately obtain k' where "kernel_grant c i held Hold k1 = Inr k'" and n: "gr_nodes (k_graph k') = gr_nodes (k_graph k1)"
    using kernel_grant_succeeds by blast
  moreover have "map_has (gr_nodes (k_graph k')) i" using i by (simp add: n)
  moreover have "hold_cap c i cap k = kernel_grant c i held Hold k1"
    unfolding hold_cap_def held_def k1_def Let_def ..
  ultimately show ?thesis by simp
qed

lemma res_fold_succeeds:
  assumes "\<And>x s. x \<in> set xs \<Longrightarrow> P s \<Longrightarrow> \<exists>s1. f x s = Inr s1 \<and> P s1" and "P s"
  shows "\<exists>s1. res_fold f xs s = Inr s1 \<and> P s1"
  using assms
proof (induction xs arbitrary: s)
  case (Cons x xs)
  from Cons.prems obtain s1 where "f x s = Inr s1" "P s1" by (meson list.set_intros(1))
  moreover have "\<exists>s2. res_fold f xs s1 = Inr s2 \<and> P s2" using Cons.IH [of s1] Cons.prems(1) \<open>P s1\<close> by simp
  ultimately show ?case by (simp add: res_bind_def)
qed simp

lemma registerGraph_succeeds:
  assumes k: "\<And>k. rt_kernel s = Some k \<Longrightarrow> kernel_ok c entries k"
    and g: "\<And>op. op \<in> set (g_contracts (ce_grant e)) \<Longrightarrow> granted entries (ce_id e) op"
  shows "\<exists>s1. registerGraph c e m s = Inr s1"
proof (cases "rt_kernel s = None \<or> ce_id e \<in> set (rt_graphSeen s)")
  case True
  then show ?thesis by (simp add: registerGraph_seen)
next
  case False
  then obtain k0 where k0: "rt_kernel s = Some k0" by (auto simp: not_None_eq)
  let ?n = "\<lparr>n_id = ce_id e, n_kind = Principal, n_granularity = Some (case m_granularity m of None \<Rightarrow> Atomic | Some g \<Rightarrow> g),
      n_extraction = m_extractionCandidate m\<rparr>"
  let ?P = "\<lambda>k. kernel_ok c entries k \<and> map_has (gr_nodes (k_graph k)) (ce_id e)"
  have "?P (k0\<lparr>k_graph := upsertNode (k_graph k0) ?n\<rparr>)"
    using upsert_kernel_ok [OF k [OF k0], of ?n] by (simp add: upsert_has)
  then have "\<exists>k1. res_fold (offer_op c (ce_id e)) (g_contracts (ce_grant e)) (k0\<lparr>k_graph := upsertNode (k_graph k0) ?n\<rparr>) = Inr k1 \<and> ?P k1"
    by (intro res_fold_succeeds) (use offer_op_succeeds offer_op_ok g in blast)+
  then obtain k1 where k1: "res_fold (offer_op c (ce_id e)) (g_contracts (ce_grant e)) (k0\<lparr>k_graph := upsertNode (k_graph k0) ?n\<rparr>) = Inr k1"
    and p1: "?P k1" by blast
  have "\<exists>k2. res_fold (hold_cap c (ce_id e)) (g_capabilities (ce_grant e)) k1 = Inr k2 \<and> ?P k2"
    by (rule res_fold_succeeds [where P = ?P]) (use hold_cap_succeeds hold_cap_ok p1 in blast)+
  then show ?thesis using k1 k0 False by (auto simp: registerGraph_def res_bind_def Let_def)
qed

definition routes_ok :: "crypto \<Rightarrow> (composition_entry \<times> manifest) list \<Rightarrow> held multiset \<Rightarrow> router \<Rightarrow> bool" where
  "routes_ok c entries H s \<longleftrightarrow> dormant_ok s \<and>
     (\<forall>op i. map_get (rt_opRoute s) op = Some i \<longrightarrow> granted entries i op) \<and>
     (\<forall>k. rt_kernel s = Some k \<longrightarrow> kernel_ok c entries k) \<and>
     (\<forall>i d. map_get (rt_dormant s) i = Some d \<longrightarrow> (\<forall>op \<in> set (g_contracts (ce_grant (do_entry d))). granted entries i op)) \<and>
     (\<forall>t. \<forall>q \<in> set (list_of (rt_waiting s) t). q_ok q)"

lemma routes_hand: "routes_ok c entries H s \<Longrightarrow> routes_ok c entries H1 s"
  by (simp add: routes_ok_def)

lemma routes_queue: "routes_ok c entries H s \<Longrightarrow> q \<in> set (list_of (rt_waiting s) t) \<Longrightarrow> q_ok q"
  by (simp add: routes_ok_def)

lemma routes_frame:
  assumes r: "routes_ok c entries H s" and "rt_opRoute s1 = rt_opRoute s" and "rt_kernel s1 = rt_kernel s"
    and "rt_dormant s1 = rt_dormant s" and "rt_opRisk s1 = rt_opRisk s" and "rt_tokens s1 = rt_tokens s"
    and "rt_graphSeen s1 = rt_graphSeen s"
    and "\<And>t q. routes_ok c entries H s \<Longrightarrow> q \<in> set (list_of (rt_waiting s1) t) \<Longrightarrow> q_ok q"
  shows "routes_ok c entries H1 s1"
proof -
  have "dormant_ok s" using r by (simp add: routes_ok_def)
  then have "dormant_ok s1" by (rule dormant_ok_same) (use assms in simp_all)
  with assms show ?thesis by (simp add: routes_ok_def)
qed

interpretation routes: router_safety "routes_ok c entries" for c entries
proof unfold_locales
  fix H s who v
  assume a: "routes_ok c entries H s"
  obtain gen hit line where r: "snd (tokens_revoke who v s) =
      emit (JournalLine line) (s\<lparr>rt_generation := gen, rt_tokens := revoke_tokens hit (rt_tokens s)\<rparr>)"
    using tokens_revoke_shape [of who v s] by blast
  have "dormant_ok (s\<lparr>rt_generation := gen, rt_tokens := revoke_tokens hit (rt_tokens s)\<rparr>)"
    using a by (simp add: routes_ok_def dormant_ok_def revoke_tokens_get)
  then show "routes_ok c entries H (snd (tokens_revoke who v s))"
    unfolding r using a by (simp add: routes_ok_def)
next
  fix H s i d c' now s1
  assume d: "map_get (rt_dormant s) i = Some d"
    and r: "register c' now (do_entry d) (do_manifest d) (do_tokens d) s = Inr s1" and a: "routes_ok c entries H s"
  have ok: "dormant_ok s" using a by (simp add: routes_ok_def)
  have i: "ce_id (do_entry d) = i" "rt_kernel s = None \<or> ce_id (do_entry d) \<in> set (rt_graphSeen s)"
    using ok d unfolding dormant_ok_def by blast+
  have "rt_kernel s1 = rt_kernel s"
    using r registerGraph_seen i(2) by (auto simp: register_def install_entry_def registerGraph_seen installTokens_eq elim!: res_bind_InrE)
  then show "routes_ok c entries H s1"
    using a respawn_shape(3) [OF ok d r] register_shape [OF r] i(1) d
    by (auto simp: routes_ok_def fold_route_get split: if_splits)
next
  fix H s i
  assume a: "routes_ok c entries H s"
  then have "dormant_ok (s\<lparr>rt_dormant := map_del i (rt_dormant s)\<rparr>)"
    by (simp add: routes_ok_def dormant_ok_def)
  then show "routes_ok c entries H (s\<lparr>rt_dormant := map_del i (rt_dormant s)\<rparr>)"
    using a by (simp add: routes_ok_def)
next
  fix H s k0 ar
  assume a: "routes_ok c entries H s" and k: "rt_kernel s = Some k0"
  then have "dormant_ok (s\<lparr>rt_kernel := Some (k0\<lparr>k_state := ar\<rparr>)\<rparr>)" by (simp add: routes_ok_def dormant_ok_def)
  then show "routes_ok c entries H (s\<lparr>rt_kernel := Some (k0\<lparr>k_state := ar\<rparr>)\<rparr>)"
    using a k by (simp add: routes_ok_def kernel_ok_def)
next
  fix H s t q qs
  assume w: "list_of (rt_waiting s) t = q # qs" and a: "routes_ok c entries H s"
  have "q_ok q" using routes_queue [OF a, of q t] w by simp
  moreover have "routes_ok c entries (add_mset (hand (q_kont q)) H) (s\<lparr>rt_waiting := map_set t qs (rt_waiting s)\<rparr>)"
    by (rule routes_frame [OF a]) (use w in \<open>auto intro: routes_queue [OF a] routes_queue [OF a, of _ t] split: if_splits\<close>)
  ultimately show "q_ok q \<and> routes_ok c entries (add_mset (hand (q_kont q)) H) (s\<lparr>rt_waiting := map_set t qs (rt_waiting s)\<rparr>)" by blast
qed (auto elim: routes_hand elim!: routes_frame intro: routes_queue simp: nextCausation_def split: if_splits)

text \<open>The boot establishes it, and never fails.\<close>

lemma register_routes:
  assumes r: "register c now e m tokens s = Inr s1 \<or> registerDormant c e m tokens s = Inr s1"
    and a: "routes_ok c entries H s" and g: "\<And>op. op \<in> set (g_contracts (ce_grant e)) \<Longrightarrow> granted entries (ce_id e) op"
  shows "routes_ok c entries H s1"
proof -
  have ok: "dormant_ok s" using a by (simp add: routes_ok_def)
  then have ok1: "dormant_ok s1" using r register_dormant_ok registerDormant_dormant_ok by blast
  have k1: "kernel_ok c entries k'" if k': "rt_kernel s1 = Some k'" for k'
  proof -
    have "\<exists>sa sb. registerGraph c e m sa = Inr sb \<and> rt_kernel sa = rt_kernel s \<and> rt_kernel sb = rt_kernel s1"
      using r
    proof
      assume "register c now e m tokens s = Inr s1"
      then obtain sb where "registerGraph c e m (install_entry e m
          (s\<lparr>rt_compartments := map_set (ce_id e) (new_handle now) (rt_compartments s)\<rparr>)) = Inr sb"
        and "s1 = installTokens (ce_id e) tokens sb"
        unfolding register_def by (auto elim: res_bind_InrE)
      then show ?thesis by (intro exI conjI) (assumption, simp_all add: install_entry_def installTokens_eq)
    next
      assume "registerDormant c e m tokens s = Inr s1"
      then obtain sb where "registerGraph c e m (install_entry e m s) = Inr sb" and "rt_kernel s1 = rt_kernel sb"
        unfolding registerDormant_def Let_def by (auto elim!: res_bind_InrE simp: installTokens_eq)
      then show ?thesis by (intro exI conjI) (assumption, simp_all add: install_entry_def)
    qed
    then obtain sa sb where b: "registerGraph c e m sa = Inr sb" and "rt_kernel sa = rt_kernel s" "rt_kernel sb = rt_kernel s1" by blast
    note ks = this
    show ?thesis
      by (rule registerGraph_kernel_ok [OF b g]) (use ks a k' in \<open>simp_all add: routes_ok_def\<close>)
  qed
  from r show ?thesis
  proof
    assume "register c now e m tokens s = Inr s1"
    from register_shape [OF this] show ?thesis
      using a g ok1 k1 by (auto simp: routes_ok_def fold_route_get split: if_splits)
  next
    assume "registerDormant c e m tokens s = Inr s1"
    from registerDormant_shape [OF this] show ?thesis
      using a g ok1 k1 by (auto simp: routes_ok_def fold_route_get split: if_splits)
  qed
qed

lemma register_succeeds:
  assumes a: "routes_ok c entries H s" and g: "\<And>op. op \<in> set (g_contracts (ce_grant e)) \<Longrightarrow> granted entries (ce_id e) op"
  shows "\<exists>s1. register c now e m tokens s = Inr s1" and "\<exists>s1. registerDormant c e m tokens s = Inr s1"
proof -
  have r: "\<exists>s1. registerGraph c e m (install_entry e m (s\<lparr>rt_compartments := cs\<rparr>)) = Inr s1" for cs
    by (rule registerGraph_succeeds [OF _ g]) (use a in \<open>simp_all add: routes_ok_def install_entry_def\<close>)
  obtain s1 where "registerGraph c e m (install_entry e m
      (s\<lparr>rt_compartments := map_set (ce_id e) (new_handle now) (rt_compartments s)\<rparr>)) = Inr s1" using r by blast
  then show "\<exists>s1. register c now e m tokens s = Inr s1" by (simp add: register_def res_bind_def)
  obtain s2 where "registerGraph c e m (install_entry e m s) = Inr s2" using r [of "rt_compartments s"] by auto
  then show "\<exists>s1. registerDormant c e m tokens s = Inr s1" by (simp add: registerDormant_def res_bind_def Let_def)
qed

lemma emit_routes: "routes_ok c entries H s \<Longrightarrow> routes_ok c entries H (emit e s)"
  by (rule routes_frame) (auto intro: routes_queue)

lemma boot_entry_routes:
  assumes a: "routes_ok c entries {#} (snd ns)" and em: "em \<in> set entries"
  shows "\<exists>ns1. boot_entry c now fresh em ns = Inr ns1 \<and> routes_ok c entries {#} (snd ns1) \<and>
     (rt_kernel (snd ns1) = None \<longleftrightarrow> rt_kernel (snd ns) = None)"
proof -
  have g: "granted entries (ce_id (fst em)) op" if "op \<in> set (g_contracts (ce_grant (fst em)))" for op
    using em that by (auto simp: granted_def list_ex_iff)
  let ?tokens = "mintTokensFor (\<lambda>i. fresh (fst ns + i)) (fst em)"
  obtain s1 where s1: "register c now (fst em) (snd em) ?tokens (snd ns) = Inr s1" using register_succeeds(1) [OF a g] by blast
  obtain s2 where s2: "registerDormant c (fst em) (snd em) ?tokens (snd ns) = Inr s2" using register_succeeds(2) [OF a g] by blast
  have "routes_ok c entries {#} s1" using register_routes [OF disjI1 [OF s1] a g] .
  moreover have "routes_ok c entries {#} s2" using register_routes [OF disjI2 [OF s2] a g] .
  ultimately show ?thesis
    using s1 s2 register_shape(16) [OF s1] registerDormant_shape(16) [OF s2]
    by (simp add: boot_entry_def res_bind_def Let_def emit_routes)
qed

lemma new_router_routes: "(\<And>k0. k = Some k0 \<Longrightarrow> kernel_ok c entries k0) \<Longrightarrow> routes_ok c entries {#} (new_router k)"
  by (simp add: routes_ok_def new_router_def dormant_ok_def)

lemma boot_routes:
  assumes k: "\<And>k0. k = Some k0 \<Longrightarrow> kernel_ok c entries k0"
  shows "\<exists>s. boot_router c now fresh k entries = Inr s \<and> routes_ok c entries {#} s \<and> (rt_kernel s = None \<longleftrightarrow> k = None)"
proof -
  let ?phases = "sort_key (\<lambda>em. ce_bootPhase (fst em)) entries"
  let ?P = "\<lambda>ns. routes_ok c entries {#} (snd ns) \<and> (rt_kernel (snd ns) = None \<longleftrightarrow> k = None)"
  have "\<exists>ns1. boot_entry c now fresh em ns = Inr ns1 \<and> ?P ns1" if "em \<in> set ?phases" "?P ns" for em ns
    using boot_entry_routes [of c entries ns em now fresh] that by auto
  moreover have "?P (0, new_router k)" using k new_router_routes [of k c entries] by (simp add: new_router_def)
  ultimately have "\<exists>ns. res_fold (boot_entry c now fresh) ?phases (0, new_router k) = Inr ns \<and> ?P ns"
    by (rule res_fold_succeeds)
  then obtain ns where ns: "res_fold (boot_entry c now fresh) ?phases (0, new_router k) = Inr ns"
    and ok: "?P ns" by blast
  let ?l = "filter (\<lambda>em. ce_bootPhase (fst em) = 0) ?phases"
  let ?s = "fold (\<lambda>em. waitActive now (ce_id (fst em)) BootWaiter) ?l (snd ns)"
  have r: "routes_ok c entries {#} ?s"
    by (rule routes.fold_keeps [OF _ conjunct1 [OF ok]]) (rule routes.waitActive_keeps)
  have "rt_kernel (waitActive now i BootWaiter s) = rt_kernel s" for i s
    by (simp add: waitActive_def split: option.split compartment_state.split)
  then have "rt_kernel (fold (\<lambda>em. waitActive now (ce_id (fst em)) BootWaiter) l s) = rt_kernel s" for l s
    by (induction l arbitrary: s) simp_all
  then have "rt_kernel ?s = None \<longleftrightarrow> k = None" using ok by metis
  moreover have "boot_router c now fresh k entries = Inr ?s"
    unfolding boot_router_def Let_def ns res_bind_def by simp
  ultimately show ?thesis using r by blast
qed

lemma genesis_kernel_ok:
  assumes kp: "keypair_ok c pem pub" and b: "bootstrapKernel c keyId pem pub = Inr k"
  shows "kernel_ok c entries k"
proof -
  let ?s = "(foldl upsertNode empty_graph genesis_nodes, new_log keyId pem pub)"
  obtain s1 g log where s1: "record_and_grant c ?s KERNEL KERNEL CAP_SELF_DESCRIBE Hold = Inr s1"
    and s2: "record_and_grant c s1 KERNEL SCHEMA CAP_SELF_DESCRIBE Hold = Inr (g, log)"
    and k: "k = \<lparr>k_graph = g, k_audit = log, k_state = [], k_tools = []\<rparr>"
    using b unfolding bootstrapKernel_def by (auto elim!: res_bind_InrE)
  have "chain_ok c (g, log)" using record_and_grant_ok [OF record_and_grant_ok [OF chain_ok_start [OF kp] s1] s2] .
  moreover have none: "set (whoOffers (fst s') op) = set (whoOffers (fst s) op)"
    if "record_and_grant c s f t cap Hold = Inr s'" for s s' f t cap op
    using that unfolding record_and_grant_def Let_def split_def by (auto elim!: res_bind_InrE simp: grant_edge_offers)
  have "whoOffers (foldl upsertNode gr ns) op = whoOffers gr op" for gr ns op
    by (induction ns arbitrary: gr) simp_all
  then have "set (whoOffers g op) = {}" for op
    using none [OF s1, of op] none [OF s2, of op] by (simp add: whoOffers_def empty_graph_def set_of_def)
  ultimately show ?thesis by (auto simp: kernel_ok_def k generations_def)
qed

lemma boot_succeeds:
  assumes "keypair_ok c pem pub"
  shows "\<exists>k s k'. bootstrapKernel c keyId pem pub = Inr k \<and> boot_router c now fresh (Some k) entries = Inr s \<and>
     rt_kernel s = Some k' \<and> chain_ok c (k_graph k', k_audit k')"
proof -
  let ?s = "(foldl upsertNode empty_graph genesis_nodes, new_log keyId pem pub)"
  have s: "chain_ok c ?s" using assms by (rule chain_ok_start)
  have nodes: "map_keys (gr_nodes (fst ?s)) = [SCHEMA, KERNEL, EVERYONE, STATE_ARBITRATOR, CAP_SELF_DESCRIBE]"
    by (simp add: genesis_nodes_def upsertNode_def empty_graph_def plain_node_def genesis_ids)
  have h: "map_has (gr_nodes (fst ?s)) KERNEL" "map_has (gr_nodes (fst ?s)) SCHEMA" "map_has (gr_nodes (fst ?s)) CAP_SELF_DESCRIBE"
    unfolding map_has_keys nodes by auto
  obtain s1 where s1: "record_and_grant c ?s KERNEL KERNEL CAP_SELF_DESCRIBE Hold = Inr s1"
    using record_and_grant_Inr [OF s h(1,1,3)] by blast
  note ok1 = record_and_grant_ok [OF s s1]
  have "indexed (fst ?s)" using s unfolding chain_ok_def graph_ok_def by blast
  note st = record_and_grant_step(2) [OF s1 this]
  obtain g log where s2: "record_and_grant c s1 KERNEL SCHEMA CAP_SELF_DESCRIBE Hold = Inr (g, log)"
    using record_and_grant_Inr [OF ok1, unfolded st, OF h] by blast
  have k: "bootstrapKernel c keyId pem pub = Inr \<lparr>k_graph = g, k_audit = log, k_state = [], k_tools = []\<rparr>"
    using s1 s2 by (simp add: bootstrapKernel_def res_bind_def)
  let ?k = "\<lparr>k_graph = g, k_audit = log, k_state = [], k_tools = []\<rparr>"
  have "kernel_ok c entries k0" if "Some ?k = Some k0" for k0
    using genesis_kernel_ok [OF assms k] that by simp
  from boot_routes [of "Some ?k", OF this]
  obtain s where boot: "boot_router c now fresh (Some ?k) entries = Inr s"
    and r: "routes_ok c entries {#} s" and "rt_kernel s \<noteq> None" by auto
  then obtain k' where k': "rt_kernel s = Some k'" by (auto simp: not_None_eq)
  then have "chain_ok c (k_graph k', k_audit k')" using r by (simp add: routes_ok_def kernel_ok_def)
  then show ?thesis using k boot k' by blast
qed

section \<open>Properties\<close>

text \<open>With a working key pair the kernel attaches and the boot registers every entry of the composition:
  the graph refuses none of them, and each grant lands on the verified chain.\<close>

theorem boot_registers_all:
  assumes "keypair_ok c pem pub"
  shows "\<exists>k s k'. bootstrapKernel c keyId pem pub = Inr k \<and> boot_router c now fresh (Some k) entries = Inr s \<and>
     rt_kernel s = Some k' \<and> chain_ok c (k_graph k', k_audit k')"
  using assms by (rule boot_succeeds)

theorem boot_registers_all_witness:
  "\<exists>k s k'. bootstrapKernel toy_crypto ''k'' ''s'' ''s'' = Inr k \<and>
     boot_router toy_crypto 0 sample_token (Some k) sample_entries = Inr s \<and>
     rt_kernel s = Some k' \<and> chain_ok toy_crypto (k_graph k', k_audit k')"
  by (rule boot_registers_all [OF toy_keypair])

lemma resolve_generation:
  assumes "resolve t n rng = Some pin" shows "pin \<in> set (generations t n)" and "matchesRange (pin_version pin) rng"
  using assms unfolding resolve_generations resolve_from_Some by auto

text \<open>(C8) The composition is the only grantor. In every run of a booted router an op resolves only to an
  implementation whose entry of the composition was granted that op, or, when a generation is chosen,
  the op of that name and version. Lazy spawns, revocations, crashes and forged messages never add a
  route.\<close>

theorem routing_sound:
  assumes kp: "keypair_ok c pem pub" and "bootstrapKernel c keyId pem pub = Inr k"
    and boot: "boot_router c now fresh (Some k) entries = Inr s"
    and res: "resolveTarget (router_run c s es) who op = Some (impl, rop)"
  shows "\<exists>g. granted entries impl g \<and> (rop = g \<and> g = op \<or> rop = opName g @ ''@'' @ opVersion g \<and> opName g = opName op)"
proof -
  let ?s = "router_run c s es"
  have "kernel_ok c entries k0" if "Some k = Some k0" for k0
    using genesis_kernel_ok [OF assms(1,2)] that by simp
  from boot_routes [of "Some k" c entries now fresh, OF this] boot have "routes_ok c entries {#} s" by auto
  then have r: "routes_ok c entries {#} ?s" by (rule routes.run_keeps)
  have pin: ?thesis
    if k1: "rt_kernel ?s = Some k1" and p: "resolve (k_tools k1) (opName op) rng = Some pin"
      and i: "impl = pin_impl pin" and o: "rop = pinned_op op pin" for k1 rng pin
  proof -
    have "kernel_ok c entries k1" using r k1 by (simp add: routes_ok_def)
    then obtain g where "granted entries impl g" "opName g = opName op" "opVersion g = pin_version pin"
      using resolve_generation(1) [OF p] i unfolding kernel_ok_def by blast
    then show ?thesis using o by (intro exI [of _ g]) (simp add: pinned_op_def)
  qed
  show ?thesis
  proof (cases "rt_kernel ?s")
    case None
    then have "map_get (rt_opRoute ?s) op = Some impl" and "rop = op"
      using res by (auto simp: resolveTarget_def)
    then show ?thesis using r by (auto simp: routes_ok_def)
  next
    case (Some k1)
    have offered: ?thesis if i: "impl \<in> set (whoOffers (k_graph k1) op)" and o: "rop = op"
    proof -
      have "granted entries impl op" using r Some i unfolding routes_ok_def kernel_ok_def by blast
      then show ?thesis using o by blast
    qed
    show ?thesis
    proof (cases "whoOffers (k_graph k1) op")
      case Nil
      then obtain rng p where "resolve (k_tools k1) (opName op) rng = Some p" "impl = pin_impl p" "rop = pinned_op op p"
        using res by (auto simp: resolveTarget_def Some split: option.splits)
      then show ?thesis by (rule pin [OF Some])
    next
      case w: (Cons a l)
      show ?thesis
      proof (cases l)
        case Nil
        have "impl = a" "rop = op" using res by (simp_all add: resolveTarget_def Some w Nil)
        then show ?thesis by (intro offered) (simp_all add: w)
      next
        case l: (Cons b l1)
        have "last (a # l) \<in> set (whoOffers (k_graph k1) op)" unfolding w by (rule last_in_set) simp
        moreover have "(\<exists>pin. resolve (k_tools k1) (opName op) (case callerRange ?s who op of None \<Rightarrow> ''*'' | Some rng \<Rightarrow> rng) = Some pin \<and>
              impl = pin_impl pin \<and> rop = pinned_op op pin) \<or> impl = last (a # l) \<and> rop = op"
          using res by (auto simp: resolveTarget_def Some w l split: option.splits if_splits)
        ultimately show ?thesis using pin [OF Some] offered by blast
      qed
    qed
  qed
qed

text \<open>A booted kernel that evaluates quickly: constant hashes and signatures.\<close>

definition flat_crypto :: crypto where
  "flat_crypto = \<lparr>cr_sha = (\<lambda>t. ''h''), cr_sign = (\<lambda>t pem. []), cr_verify = (\<lambda>t pub sig. True)\<rparr>"

definition flat_kernel :: kernel where
  "flat_kernel = (case bootstrapKernel flat_crypto ''k'' ''s'' ''s'' of
     Inr k \<Rightarrow> k | Inl _ \<Rightarrow> \<lparr>k_graph = empty_graph, k_audit = new_log [] [] [], k_state = [], k_tools = []\<rparr>)"

definition flat_entries :: "(composition_entry \<times> manifest) list" where
  "flat_entries = [(sample_entry ''vivim.law'' law_op [] 0, sample_manifest ''vivim.law'' ''law.check'' None)]"

definition flat_router :: router where
  "flat_router = (case boot_router flat_crypto 0 sample_token (Some flat_kernel) flat_entries of
     Inr s \<Rightarrow> s | Inl _ \<Rightarrow> new_router None)"

theorem routing_sound_witness:
  "\<exists>g. granted flat_entries ''vivim.law'' g \<and>
     (law_op = g \<and> g = law_op \<or> law_op = opName g @ ''@'' @ opVersion g \<and> opName g = opName law_op)"
proof -
  have kp: "keypair_ok flat_crypto ''s'' ''s''" by (simp add: keypair_ok_def flat_crypto_def)
  have "\<not> isl (bootstrapKernel flat_crypto ''k'' ''s'' ''s'')" by code_simp
  then have k: "bootstrapKernel flat_crypto ''k'' ''s'' ''s'' = Inr flat_kernel"
    unfolding flat_kernel_def by (cases "bootstrapKernel flat_crypto ''k'' ''s'' ''s''") simp_all
  have "\<not> isl (boot_router flat_crypto 0 sample_token (Some flat_kernel) flat_entries)" by code_simp
  then have s: "boot_router flat_crypto 0 sample_token (Some flat_kernel) flat_entries = Inr flat_router"
    unfolding flat_router_def by (cases "boot_router flat_crypto 0 sample_token (Some flat_kernel) flat_entries") simp_all
  have "resolveTarget (router_run flat_crypto flat_router []) ''root'' law_op = Some (''vivim.law'', law_op)" by code_simp
  from routing_sound [OF kp k s this] show ?thesis .
qed

section \<open>Failed spawns\<close>

text \<open>A compartment that is registered stays, so the id is never spawned again.\<close>

lemma spawn_has [simp]:
  "map_get (rt_compartments (spawn_failed i e s)) j = None \<longleftrightarrow> map_get (rt_compartments s) j = None"
  by (simp add: spawn_failed_def fold_has)

text \<open>A call to a dormant id whose first spawn got as far as the registration does not retry it: the
  compartment is there, in whatever state the failed start left it, and the call goes straight to it.
  No later checkout has any effect on that id either.\<close>

theorem failed_spawn_not_retried:
  assumes "map_has (rt_compartments s) i" and "cc_impl cc = i"
  shows "past_gate now cc s = to_target now cc s \<and> checkout_done c now i err s = s"
  using assms by (simp add: past_gate_def checkout_done_def)

end
