(* ===== verification/Recipe_Safety.thy ===== *)
theory Recipe_Safety
  imports Boot_Recovery Router_Routing
begin

text \<open>
  What the one boot path guarantees: a host that is up runs a recipe that was verified against the vault's
  key and the files on disk, and that recipe is the pin; the pin changes only to a recipe that passed the
  same checks; the asynchronous verification is the synchronous one. The last property shows the gap:
  the routing table is not among the checks that precede the pin.
\<close>

section \<open>Verified entries\<close>

text \<open>What an entry's verification establishes, for a hash function of directories and the parsed manifest.\<close>

definition entry_vouches ::
    "crypto \<Rightarrow> ((string \<times> fs_node) list \<Rightarrow> string + string) \<Rightarrow> disk \<Rightarrow> string list \<Rightarrow> string \<Rightarrow> composition_entry \<Rightarrow> json \<Rightarrow> bool" where
  "entry_vouches c H d buildDir pub e m \<longleftrightarrow>
     (case read_file d (join_in buildDir (ce_manifestPath e)) of
        None \<Rightarrow> False
      | Some text \<Rightarrow> ce_manifestHash e = ''sha256:'' @ sha256Hex c text \<and> parseManifest text = Inr m) \<and>
     publisher_ok c m pub \<and>
     (case dk_dirs d (resolve_in buildDir (ce_source e)) of
        Some (DirN es) \<Rightarrow> H es = Inr (ce_contentHash e)
      | _ \<Rightarrow> False)"

lemma parse_manifest_Inr: "parse_manifest t = Inr m \<longleftrightarrow> parseManifest t = Inr m"
  by (auto simp: parse_manifest_def split: sum.splits)

lemma hash_path_Inr: "hash_path c p n = Inr h \<longleftrightarrow> (\<exists>es. n = DirN es \<and> contentHashDir c es = Inr h)"
  by (auto simp: hash_path_def split: fs_node.splits sum.splits)

lemma verify_entry_clean:
  "verifyEntryWithRoot c d e b pub = Inr (mo, []) \<longleftrightarrow> (\<exists>m. mo = Some m \<and> entry_vouches c (contentHashDir c) d b pub e m)"
  by (auto simp: verifyEntryWithRoot_def entry_vouches_def res_bind_Inr parse_manifest_Inr hash_path_Inr Let_def
      split: option.splits if_splits fs_node.splits)

lemma verify_entry_async_clean:
  "verifyEntryWithRootAsync c order d e b pub = Inr (mo, []) \<longleftrightarrow>
     (\<exists>m. mo = Some m \<and> entry_vouches c (contentHashDirAsync c order) d b pub e m)"
  by (auto simp: verifyEntryWithRootAsync_def entry_vouches_def res_bind_Inr parse_manifest_Inr hash_path_async_def Let_def
      split: option.splits if_splits fs_node.splits sum.splits)

section \<open>Verified compositions\<close>

lemma recipe_errors_Nil:
  "recipe_errors c raw rc pub = [] \<longleftrightarrow> verifyRecipeSignature c raw \<and> r_publicKey rc = pub \<and> well_structured rc"
  by (simp add: recipe_errors_def invariants_iff)

lemma with_routing_clean:
  "with_routing rc ms errs = Inr (ms', []) \<longleftrightarrow>
     errs = [] \<and> ms' = ms \<and> (\<exists>tm. typed_manifests ms = Some tm \<and> list_all (entry_sound rc tm) (r_composition rc))"
  by (auto simp: with_routing_def buildRoutingTable_fold table_fold list_all_iff split: option.splits)

lemma opt_all_Some: "opt_all f xs = Some ys \<longleftrightarrow> list_all2 (\<lambda>x y. f x = Some y) xs ys"
proof (induction xs arbitrary: ys)
  case (Cons x xs)
  show ?case by (auto simp: list_all2_Cons1 Cons.IH [symmetric] split: option.splits)
qed auto

lemma collect_from:
  "map_get (collect_manifests es outs) i = Some m \<Longrightarrow> \<exists>(e, out) \<in> set (zip es outs). ce_id e = i \<and> fst out = Some m"
proof -
  have "map_get (fold (\<lambda>(e, out) ms. case fst out of Some m \<Rightarrow> map_set (ce_id e) m ms | None \<Rightarrow> ms) zs ms) i = Some m \<Longrightarrow>
      map_get ms i = Some m \<or> (\<exists>(e, out) \<in> set zs. ce_id e = i \<and> fst out = Some m)" for zs ms
  proof (induction zs arbitrary: ms)
    case (Cons z zs)
    obtain e out where z: "z = (e, out)" by (cases z)
    show ?case using Cons.IH Cons.prems by (cases "fst out") (fastforce simp: z split: if_splits)+
  qed auto
  from this [of "zip es outs" "[]"] show "map_get (collect_manifests es outs) i = Some m \<Longrightarrow> ?thesis"
    by (simp add: collect_manifests_def)
qed

text \<open>The whole of a verified composition: who signed it, its structure, its entries and what each may serve.\<close>

definition composition_verified ::
    "crypto \<Rightarrow> ((string \<times> fs_node) list \<Rightarrow> string + string) \<Rightarrow> disk \<Rightarrow> json \<Rightarrow> recipe \<Rightarrow> string list \<Rightarrow> string \<Rightarrow> (string, manifest) jsmap \<Rightarrow> bool" where
  "composition_verified c H d raw rc buildDir pub tm \<longleftrightarrow>
     verifyRecipeSignature c raw \<and> r_publicKey rc = pub \<and> well_structured rc \<and>
     list_all (\<lambda>e. \<exists>m. entry_vouches c H d buildDir pub e m) (r_composition rc) \<and>
     list_all (\<lambda>(i, t). \<exists>e m. e \<in> set (r_composition rc) \<and> ce_id e = i \<and> entry_vouches c H d buildDir pub e m \<and> manifest_of m = Some t) tm \<and>
     list_all (entry_sound rc tm) (r_composition rc)"

lemma verified_outs:
  assumes "list_all2 (\<lambda>e out. V e = Inr out) es outs" and "concat (map snd outs) = []"
    and clean: "\<And>e mo. V e = Inr (mo, []) \<longleftrightarrow> (\<exists>m. mo = Some m \<and> P e m)"
  shows "list_all (\<lambda>e. \<exists>m. P e m) es"
    and "map_get (collect_manifests es outs) i = Some m \<Longrightarrow> \<exists>e. e \<in> set es \<and> ce_id e = i \<and> P e m"
proof -
  have z: "\<exists>m. fst out = Some m \<and> P e m" if "(e, out) \<in> set (zip es outs)" for e out
  proof -
    have "V e = Inr out" using assms(1) that by (auto simp: list_all2_iff)
    moreover have "snd out = []" using assms(2) that by (auto dest: set_zip_rightD)
    ultimately show ?thesis using clean [of e "fst out"] by (metis prod.collapse)
  qed
  have len: "length es = length outs" using assms(1) by (rule list_all2_lengthD)
  show "list_all (\<lambda>e. \<exists>m. P e m) es"
    unfolding list_all_iff
  proof
    fix e assume "e \<in> set es"
    then obtain out where "(e, out) \<in> set (zip es outs)" using len by (metis in_set_impl_in_set_zip1)
    then show "\<exists>m. P e m" using z by blast
  qed
  assume "map_get (collect_manifests es outs) i = Some m"
  then obtain e out where "(e, out) \<in> set (zip es outs)" "ce_id e = i" "fst out = Some m"
    using collect_from [of es outs i m] by auto
  then show "\<exists>e. e \<in> set es \<and> ce_id e = i \<and> P e m" using z by (metis option.inject set_zip_leftD)
qed

lemma distinct_collect: "distinct (map fst (collect_manifests es outs))"
proof -
  have "distinct (map fst ms) \<Longrightarrow> distinct (map fst (fold (\<lambda>(e, out) ms. case fst out of Some m \<Rightarrow> map_set (ce_id e) m ms | None \<Rightarrow> ms) zs ms))"
    for zs :: "(composition_entry \<times> json option \<times> 'e list) list" and ms
    by (induction zs arbitrary: ms) (auto simp: distinct_update split: option.split)
  from this [of "[]"] show ?thesis by (simp add: collect_manifests_def)
qed

lemma typed_from: "typed_manifests ms = Some tm \<Longrightarrow> list_all2 (\<lambda>(i, m) (j, t). i = j \<and> manifest_of m = Some t) ms tm"
  unfolding typed_manifests_def opt_all_Some by (erule list_all2_mono) (auto split: option.splits)

lemma verified_composition:
  assumes outs: "res_map V (r_composition rc) = Inr outs"
    and rt: "with_routing rc (collect_manifests (r_composition rc) outs) (recipe_errors c raw rc pub @ map Entry (concat (map snd outs))) = Inr (ms, [])"
    and clean: "\<And>e mo. V e = Inr (mo, []) \<longleftrightarrow> (\<exists>m. mo = Some m \<and> entry_vouches c H d b pub e m)"
  shows "\<exists>tm. typed_manifests ms = Some tm \<and> composition_verified c H d raw rc b pub tm"
proof -
  let ?es = "r_composition rc"
  obtain tm where tm: "typed_manifests ms = Some tm" and sound: "list_all (entry_sound rc tm) ?es"
    and errs: "recipe_errors c raw rc pub = []" "concat (map snd outs) = []" and ms: "ms = collect_manifests ?es outs"
    using rt by (auto simp: with_routing_clean)
  have all: "list_all2 (\<lambda>e out. V e = Inr out) ?es outs" using outs by (simp add: res_map_Inr_iff)
  note vo = verified_outs [where P = "entry_vouches c H d b pub", OF all errs(2) clean]
  have "list_all (\<lambda>(i, t). \<exists>e m. e \<in> set ?es \<and> ce_id e = i \<and> entry_vouches c H d b pub e m \<and> manifest_of m = Some t) tm"
    unfolding list_all_iff
  proof (clarify)
    fix i t assume "(i, t) \<in> set tm"
    then obtain m where m: "(i, m) \<in> set ms" "manifest_of m = Some t"
      using typed_from [OF tm] by (fastforce simp: list_all2_conv_all_nth in_set_conv_nth)
    then have "map_get ms i = Some m" using distinct_collect unfolding ms by (simp add: map_of_is_SomeI)
    then show "\<exists>e m. e \<in> set ?es \<and> ce_id e = i \<and> entry_vouches c H d b pub e m \<and> manifest_of m = Some t"
      using vo(2) m(2) unfolding ms by blast
  qed
  then show ?thesis
    using tm sound errs(1) vo(1) by (auto simp: composition_verified_def recipe_errors_Nil)
qed

lemma verifyComposition_sound:
  assumes "verifyComposition c d raw rc b pub = Inr (ms, [])"
  shows "\<exists>tm. typed_manifests ms = Some tm \<and> composition_verified c (contentHashDir c) d raw rc b pub tm"
proof -
  obtain outs where o: "res_map (\<lambda>e. verifyEntryWithRoot c d e b (r_publicKey rc)) (r_composition rc) = Inr outs"
    and rt: "with_routing rc (collect_manifests (r_composition rc) outs) (recipe_errors c raw rc pub @ map Entry (concat (map snd outs))) = Inr (ms, [])"
    using assms by (auto simp: verifyComposition_def res_bind_Inr)
  then have "r_publicKey rc = pub" by (simp add: with_routing_clean recipe_errors_Nil)
  with o rt show ?thesis by (intro verified_composition [OF _ rt verify_entry_clean]) simp
qed

lemma verifyCompositionAsync_sound:
  assumes "verifyCompositionAsync c order d raw rc b pub = Inr (ms, [])"
  shows "\<exists>tm. typed_manifests ms = Some tm \<and> composition_verified c (contentHashDirAsync c order) d raw rc b pub tm"
proof -
  obtain outs where o: "res_map (\<lambda>e. verifyEntryWithRootAsync c order d e b (r_publicKey rc)) (r_composition rc) = Inr outs"
    and rt: "with_routing rc (collect_manifests (r_composition rc) outs) (recipe_errors c raw rc pub @ map Entry (concat (map snd outs))) = Inr (ms, [])"
    using assms by (auto simp: verifyCompositionAsync_def res_bind_Inr)
  then have "r_publicKey rc = pub" by (simp add: with_routing_clean recipe_errors_Nil)
  with o rt show ?thesis by (intro verified_composition [OF _ rt verify_entry_async_clean]) simp
qed

section \<open>What a boot leaves on disk\<close>

lemma read_write: "read_file (atomicWrite p t d) q = (if q = p then Some t else read_file d q)"
  by (simp add: read_file_def atomicWrite_def)

lemma read_write_missing: "read_file (write_missing p t d) q = (if q = p \<and> read_file d p = None then Some t else read_file d q)"
  by (simp add: write_missing_def read_write)

lemma pin_elsewhere: "pin_path v \<noteq> key_file v" "pin_path v \<noteq> v @ [''format.json'']"
  by (simp_all add: pin_path_def key_file_def)

lemma ensure_pin: "read_file (fst (ensureVault env v d)) (pin_path v) = read_file d (pin_path v)"
  using pin_elsewhere [of v] by (simp add: ensureVault_def Let_def read_write_missing)

lemma read_clean: "read_file (snd (cleanupStaleSwap v d)) q = (if stale_swap v q then None else read_file d q)"
proof -
  have "map_of (filter (\<lambda>f. \<not> P (fst f)) m) q = (if P q then None else map_of m q)" for P and m :: "(string list, string) jsmap"
    by (induction m) auto
  then show ?thesis by (simp add: read_file_def cleanupStaleSwap_def)
qed

lemma clean_pin: "read_file (snd (cleanupStaleSwap v d)) (pin_path v) = read_file d (pin_path v)"
  by (simp add: read_clean stale_swap_def pin_path_def starts_with_def)

lemma boot_composition_up:
  assumes "bootComposition env d raw rc b v = (d1, Inr h)"
  shows "d1 = fst (ensureVault env v d) \<and> bh_raw h = raw \<and> bh_recipe h = rc \<and> bh_buildDir h = b \<and>
    (\<exists>k. loadRootKeyPem d1 (key_file v) = Inr k \<and>
       composition_verified (he_crypto env) (contentHashDirAsync (he_crypto env) (he_order env)) d1 raw rc b (rk_publicKey k) (bh_manifests h))"
proof -
  obtain key where ev: "ensureVault env v d = (d1, key)" and load: "key = loadRootKeyPem d1 (key_file v)"
    using assms by (auto simp: bootComposition_def ensureVault_def Let_def)
  obtain k ms where k: "key = Inr k"
    and ver: "verifyCompositionAsync (he_crypto env) (he_order env) d1 raw rc b (rk_publicKey k) = Inr (ms, [])"
    and st: "start_router env k raw rc b ms = Inr h"
    using assms by (auto simp: bootComposition_def ev Let_def res_bind_Inr split: if_splits)
  obtain tm where tm: "typed_manifests ms = Some tm"
    and cv: "composition_verified (he_crypto env) (contentHashDirAsync (he_crypto env) (he_order env)) d1 raw rc b (rk_publicKey k) tm"
    using verifyCompositionAsync_sound [OF ver] by blast
  have "bh_raw h = raw \<and> bh_recipe h = rc \<and> bh_buildDir h = b \<and> bh_manifests h = tm"
    using st by (auto simp: start_router_def tm split: option.splits sum.splits)
  then show ?thesis using ev k load cv by auto
qed

lemma boot_parsed_up:
  assumes "boot_parsed env d raw b v = (d1, Inr h)"
  shows "\<exists>rc. recipe_of raw = Some rc \<and> bootComposition env d raw rc b v = (d1, Inr h)"
  using assms by (auto simp: boot_parsed_def split: option.splits)

lemma boot_parsed_pin: "read_file (fst (boot_parsed env d raw b v)) (pin_path v) = read_file d (pin_path v)"
  using ensure_pin [of env v d] by (auto simp: boot_parsed_def bootComposition_def split_def Let_def split: option.split)

lemma boot_pinned_pin: "read_file (fst (boot_pinned env d k v cl r)) (pin_path v) = read_file d (pin_path v)"
  using boot_parsed_pin [of env d _ _ v] by (auto simp: boot_pinned_def Let_def split: option.split sum.split prod.split) (metis fst_conv)+

text \<open>What a running host rests on.\<close>

definition host_verified :: "host_env \<Rightarrow> disk \<Rightarrow> string list \<Rightarrow> booted \<Rightarrow> bool" where
  "host_verified env d v h \<longleftrightarrow>
     loadPinnedRecipe d v = Inr (Some (bh_raw h)) \<and> recipe_of (bh_raw h) = Some (bh_recipe h) \<and>
     (case loadRootKeyPem d (key_file v) of
        Inl _ \<Rightarrow> False
      | Inr k \<Rightarrow>
          composition_verified (he_crypto env) (contentHashDirAsync (he_crypto env) (he_order env)) d
            (bh_raw h) (bh_recipe h) (bh_buildDir h) (rk_publicKey k) (bh_manifests h))"

lemma boot_parsed_verified:
  assumes "boot_parsed env d raw b v = (d1, Inr h)" and "loadPinnedRecipe d v = Inr (Some raw)"
  shows "host_verified env d1 v h"
proof -
  obtain rc where rc: "recipe_of raw = Some rc" and up: "bootComposition env d raw rc b v = (d1, Inr h)"
    using boot_parsed_up [OF assms(1)] by blast
  have "read_file d1 (pin_path v) = read_file d (pin_path v)" using boot_parsed_pin [of env d raw b v] assms(1) by simp
  then have "loadPinnedRecipe d1 v = Inr (Some raw)" using assms(2) by (simp add: loadPinnedRecipe_def)
  then show ?thesis using rc boot_composition_up [OF up] by (auto simp: host_verified_def)
qed

lemma boot_pinned_verified:
  assumes "boot_pinned env d k v cl r = (d1, Inr (Some h, rp))"
  shows "host_verified env d1 v h \<and> rp_booted rp"
proof -
  obtain raw b where "loadPinnedRecipe d v = Inr (Some raw)" "boot_parsed env d raw b v = (d1, Inr h)" "rp_booted rp"
    using assms by (auto simp: boot_pinned_def Let_def split: sum.splits option.splits prod.splits)
  then show ?thesis using boot_parsed_verified by blast
qed

lemma boot_incoming_verified:
  assumes "boot_incoming env d k v text b = (d1, Inr (Inl h))"
  shows "host_verified env d1 v h"
proof -
  obtain raw where raw: "parseRecipe text = Inr raw" and up: "boot_parsed env (pinRecipe v raw d) raw b v = (d1, Inr h)"
    using assms by (auto simp: boot_incoming_def split: sum.splits option.splits prod.splits)
  have "loadPinnedRecipe (pinRecipe v raw d) v = Inr (Some raw)"
    using recipe_reload [OF raw] by (simp add: loadPinnedRecipe_def pinRecipe_def read_write)
  then show ?thesis using boot_parsed_verified [OF up] by blast
qed

text \<open>The incoming recipe that passes the checks made before the pin, if there is one.\<close>

definition accepted :: "host_env \<Rightarrow> disk \<Rightarrow> string list \<Rightarrow> string list option \<Rightarrow> json option" where
  "accepted env d v inc =
     (let (d1, key) = ensureVault env v d; d2 = snd (cleanupStaleSwap v d1) in
      case (key, inc) of
        (Inr k, Some p) \<Rightarrow>
          (case read_file d2 p of
             None \<Rightarrow> None
           | Some text \<Rightarrow>
               (case parseRecipe text of
                  Inl _ \<Rightarrow> None
                | Inr raw \<Rightarrow> (if tryRecipe (he_crypto env) d2 (rk_publicKey k) raw (butlast p) = Inr None then Some raw else None)))
      | _ \<Rightarrow> None)"

lemma boot_incoming_pin:
  "read_file (fst (boot_incoming env d k v text b)) (pin_path v) =
     (case parseRecipe text of
        Inl _ \<Rightarrow> read_file d (pin_path v)
      | Inr raw \<Rightarrow> (if tryRecipe (he_crypto env) d (rk_publicKey k) raw b = Inr None then Some (json_pretty 0 raw)
                    else read_file d (pin_path v)))"
proof (cases "parseRecipe text")
  case (Inr raw)
  obtain d1 r where up: "boot_parsed env (pinRecipe v raw d) raw b v = (d1, r)" by (cases "boot_parsed env (pinRecipe v raw d) raw b v")
  then have "read_file d1 (pin_path v) = Some (json_pretty 0 raw)"
    using boot_parsed_pin [of env "pinRecipe v raw d" raw b v] by (simp add: pinRecipe_def read_write)
  then show ?thesis using Inr up by (auto simp: boot_incoming_def split: sum.split option.split)
qed (simp add: boot_incoming_def)

lemma start_router_succeeds:
  assumes "keypair_ok (he_crypto env) (rk_pem k) (rk_publicKey k)" and "typed_manifests ms = Some tm"
    and "list_all (entry_sound rc tm) (r_composition rc)"
  shows "\<exists>h. start_router env k raw rc b ms = Inr h"
proof -
  have "opt_all (\<lambda>e. case map_get tm (ce_id e) of None \<Rightarrow> None | Some m \<Rightarrow> Some (e, m)) es \<noteq> None"
    if "list_all (entry_sound rc tm) es" for es
    using that by (induction es) (auto simp: entry_sound_def split: option.splits)
  then obtain entries where e: "boot_entries rc tm = Some entries" using assms(3) by (auto simp: boot_entries_def)
  obtain x s where "bootstrapKernel (he_crypto env) (rk_keyId k) (rk_pem k) (rk_publicKey k) = Inr x"
    "boot_router (he_crypto env) (he_now env) (he_token env) (Some x) entries = Inr s"
    using boot_succeeds [OF assms(1)] by blast
  then show ?thesis using assms(2) e by (simp add: start_router_def)
qed

lemma verified_boot_succeeds:
  assumes "ensureVault env v d = (d1, Inr k)" and "keypair_ok (he_crypto env) (rk_pem k) (rk_publicKey k)"
    and "verifyCompositionAsync (he_crypto env) (he_order env) d1 raw rc b (rk_publicKey k) = Inr (ms, [])"
  shows "\<exists>h. bootComposition env d raw rc b v = (d1, Inr h)"
proof -
  obtain tm where "typed_manifests ms = Some tm" "list_all (entry_sound rc tm) (r_composition rc)"
    using verifyCompositionAsync_sound [OF assms(3)] by (auto simp: composition_verified_def)
  then obtain h where "start_router env k raw rc b ms = Inr h" using start_router_succeeds [OF assms(2)] by blast
  then show ?thesis using assms(1,3) by (simp add: bootComposition_def res_bind_def)
qed

section \<open>Properties\<close>

text \<open>(C3) Fail closed: whenever the boot path returns a host, the recipe it runs is the pinned one, signed
  under the vault's key, with \<open>vivim.law\<close> alone in phase 0 and no op granted twice; every manifest the router
  was given is a file whose digest, publisher signature and source hash are the ones the recipe names; and
  every granted op is declared by the plugin that serves it.\<close>

theorem recovery_boots_verified:
  assumes "bootWithRecovery env d v inc = (d1, Inr (Some h, rp))"
  shows "rp_booted rp \<and> loadPinnedRecipe d1 v = Inr (Some (bh_raw h)) \<and> recipe_of (bh_raw h) = Some (bh_recipe h) \<and>
    (\<exists>k. loadRootKeyPem d1 (key_file v) = Inr k \<and>
       composition_verified (he_crypto env) (contentHashDirAsync (he_crypto env) (he_order env)) d1
         (bh_raw h) (bh_recipe h) (bh_buildDir h) (rk_publicKey k) (bh_manifests h))"
proof -
  have "host_verified env d1 v h \<and> rp_booted rp"
    using assms by (auto simp: bootWithRecovery_def Let_def split: sum.splits option.splits prod.splits
        dest: boot_pinned_verified boot_incoming_verified)
  then show ?thesis by (auto simp: host_verified_def split: sum.splits)
qed

text \<open>(C11) The pin, exactly: a boot leaves the pinned text as it was unless the incoming recipe parses and
  passes the checks, and then the pin is that recipe, whatever becomes of the boot after it.\<close>

theorem pin_follows_accepted:
  "read_file (fst (bootWithRecovery env d v inc)) (pin_path v) =
     (case accepted env d v inc of None \<Rightarrow> read_file d (pin_path v) | Some raw \<Rightarrow> Some (json_pretty 0 raw))"
proof -
  obtain d1 key where ev: "ensureVault env v d = (d1, key)" by (cases "ensureVault env v d")
  obtain cl d2 where cl: "cleanupStaleSwap v d1 = (cl, d2)" by (cases "cleanupStaleSwap v d1")
  have p1: "read_file d1 (pin_path v) = read_file d (pin_path v)" using ensure_pin [of env v d] ev by simp
  have p2: "read_file d2 (pin_path v) = read_file d (pin_path v)" using clean_pin [of v d1] cl p1 by simp
  show ?thesis
  proof (cases key)
    case (Inl e)
    then show ?thesis using p1 by (simp add: bootWithRecovery_def accepted_def ev Let_def)
  next
    case (Inr k)
    show ?thesis
    proof (cases "case inc of None \<Rightarrow> None | Some p \<Rightarrow> map_option (\<lambda>t. (p, t)) (read_file d2 p)")
      case None
      then have "accepted env d v inc = None" by (auto simp: accepted_def ev cl Inr Let_def split: option.splits)
      then show ?thesis using p2 None by (simp add: bootWithRecovery_def ev cl Inr Let_def boot_pinned_pin)
    next
      case (Some pt)
      obtain p t where pt: "pt = (p, t)" by (cases pt)
      have inc: "inc = Some p" "read_file d2 p = Some t" using Some pt by (auto split: option.splits)
      obtain d3 res where bi: "boot_incoming env d2 k v t (butlast p) = (d3, res)" by (cases "boot_incoming env d2 k v t (butlast p)")
      have "read_file (fst (bootWithRecovery env d v inc)) (pin_path v) = read_file d3 (pin_path v)"
        using Some pt bi by (auto simp: bootWithRecovery_def ev cl Inr Let_def boot_pinned_pin split: sum.split)
      also have "\<dots> = (case accepted env d v inc of None \<Rightarrow> read_file d (pin_path v) | Some raw \<Rightarrow> Some (json_pretty 0 raw))"
        using boot_incoming_pin [of env d2 k v t "butlast p"] bi p2
        by (simp add: accepted_def ev cl Inr inc Let_def split: sum.split)
      finally show ?thesis .
    qed
  qed
qed

section \<open>The asynchronous verification\<close>

lemma hash_path_same:
  assumes "\<And>es. n = DirN es \<Longrightarrow> tree_wf es" and "\<And>files. mset (order files) = mset files"
  shows "hash_path_async c order p n = hash_path c p n"
  using async_hash_same [OF _ assms(2)] assms(1) by (cases n) (simp_all add: hash_path_async_def hash_path_def)

lemma verify_entry_same:
  assumes "\<And>p es. dk_dirs d p = Some (DirN es) \<Longrightarrow> tree_wf es" and "\<And>files. mset (order files) = mset files"
    and "verifyEntryWithRoot c d e b pub = Inr out"
  shows "verifyEntryWithRootAsync c order d e b pub = Inr out"
proof -
  have "dk_dirs d p = Some n \<Longrightarrow> hash_path_async c order q n = hash_path c q n" for p q n
    using assms(1,2) by (intro hash_path_same) auto
  note same = this
  show ?thesis
  proof (cases "read_file d (join_in b (ce_manifestPath e))")
    case None
    then show ?thesis using assms(3) by (simp add: verifyEntryWithRoot_def verifyEntryWithRootAsync_def)
  next
    case (Some t)
    then obtain m where m: "parse_manifest t = Inr m" using assms(3) by (auto simp: verifyEntryWithRoot_def res_bind_Inr)
    show ?thesis
    proof (cases "dk_dirs d (resolve_in b (ce_source e))")
      case None
      then show ?thesis using assms(3) Some m by (simp add: verifyEntryWithRoot_def verifyEntryWithRootAsync_def res_bind_def)
    next
      case n: (Some n)
      then obtain h where "hash_path c (resolve_in b (ce_source e)) n = Inr h"
        using assms(3) Some m by (auto simp: verifyEntryWithRoot_def res_bind_Inr Let_def)
      then show ?thesis
        using assms(3) Some m n same [OF n] by (simp add: verifyEntryWithRoot_def verifyEntryWithRootAsync_def res_bind_def)
    qed
  qed
qed

text \<open>The concurrent verification reports what the sequential one reports: the same manifests and the
  same errors in the same order, in whatever order the reads complete, whenever the sequential one returns.\<close>

theorem async_verification_equal:
  assumes "\<And>p es. dk_dirs d p = Some (DirN es) \<Longrightarrow> tree_wf es" and "\<And>files. mset (order files) = mset files"
    and "verifyComposition c d raw rc b pub = Inr out"
  shows "verifyCompositionAsync c order d raw rc b pub = Inr out"
proof -
  obtain outs where o: "res_map (\<lambda>e. verifyEntryWithRoot c d e b (r_publicKey rc)) (r_composition rc) = Inr outs"
    using assms(3) by (auto simp: verifyComposition_def res_bind_Inr)
  have "res_map (\<lambda>e. verifyEntryWithRootAsync c order d e b (r_publicKey rc)) (r_composition rc) = Inr outs"
    using o verify_entry_same [OF assms(1,2)] unfolding res_map_Inr_iff by (auto elim: list_all2_mono)
  then show ?thesis using assms(3) o by (simp add: verifyComposition_def verifyCompositionAsync_def res_bind_def)
qed

end
