(* ===== verification/Recipe_Compile.thy ===== *)
theory Recipe_Compile
  imports Recipe_Safety
begin

text \<open>
  The compile ceremony produces what the verifier accepts: from the manifest a plugin ships, through the
  signed text on disk, back to the value the host parses and checks.
\<close>

section \<open>Fields of a value\<close>

lemma prop_set_field: "prop_of (set_field k v (JObj kvs)) j = (if j = k then v else prop_of (JObj kvs) j)"
  by simp

lemma update_twice: "map_set k v (map_set k w m) = map_set k v m"
  by (induction m) auto

lemma set_field_twice: "set_field k v (set_field k w m) = set_field k v m"
  by (cases m) (simp_all add: update_twice)

lemma clean_set_field: "json_clean m \<Longrightarrow> json_clean v \<Longrightarrow> json_clean (set_field k v m)"
proof (cases m)
  case (JObj kvs)
  assume m: "json_clean m" and v: "json_clean v"
  have "list_all (\<lambda>kv. json_clean (snd kv)) kvs \<Longrightarrow> list_all (\<lambda>kv. json_clean (snd kv)) (map_set k v kvs)" for kvs
    using v by (induction kvs) auto
  then show ?thesis using m by (simp add: JObj json_clean_obj distinct_update)
qed simp_all

lemma clean_scalar [simp]: "json_clean (JStr s)" "json_clean (JNum n)" "json_clean JNull" "json_clean (JBool b)"
  by (simp_all add: json_clean_def)

lemma clean_publisher: "json_clean i \<Longrightarrow> json_clean (publisher_json i s)"
  by (simp add: publisher_json_def json_clean_obj)

lemma clean_not_undefined: "json_clean v \<Longrightarrow> v \<noteq> JUndefined"
  by (auto simp: json_clean_def)

section \<open>Manifests with their defaults\<close>

definition present :: "json \<Rightarrow> string \<Rightarrow> bool" where
  "present m k \<longleftrightarrow> prop_of m k \<noteq> JUndefined \<and> prop_of m k \<noteq> JNull"

definition complete :: "json \<Rightarrow> bool" where
  "complete m \<longleftrightarrow> is_text (prop_of m ''contentHash'') \<and>
     list_all (present m) [''publisher'', ''contributions'', ''dependencies'', ''capabilities'', ''runtime'', ''granularity'']"

lemma complete_defaults: "complete m \<Longrightarrow> manifest_defaults m = m"
  by (simp add: complete_def present_def manifest_defaults_def default_field_def)

definition is_object :: "json \<Rightarrow> bool" where
  "is_object m \<longleftrightarrow> (\<exists>kvs. m = JObj kvs)"

lemma object_set_field: "is_object m \<Longrightarrow> is_object (set_field k v m)"
  by (auto simp: is_object_def)

lemma prop_set: "is_object m \<Longrightarrow> prop_of (set_field k v m) j = (if j = k then v else prop_of m j)"
  by (auto simp: is_object_def)

lemma object_default: "is_object m \<Longrightarrow> is_object (default_field k v m)"
  by (simp add: default_field_def object_set_field)

lemma prop_default: "is_object m \<Longrightarrow>
    prop_of (default_field k v m) j = (if j = k \<and> \<not> present m k then v else prop_of m j)"
  by (auto simp: default_field_def prop_set present_def)

lemma clean_default: "json_clean m \<Longrightarrow> json_clean v \<Longrightarrow> json_clean (default_field k v m)"
  by (simp add: default_field_def clean_set_field)

lemma present_default:
  "is_object m \<Longrightarrow> v \<noteq> JUndefined \<Longrightarrow> v \<noteq> JNull \<Longrightarrow> present (default_field k v m) j \<longleftrightarrow> j = k \<or> present m j"
  by (auto simp: present_def [of "default_field k v m"] prop_default present_def)

lemma present_set_field: "is_object m \<Longrightarrow> present (set_field k v m) j \<longleftrightarrow> (if j = k then v \<noteq> JUndefined \<and> v \<noteq> JNull else present m j)"
  by (simp add: present_def prop_set)

lemma prop_default_other: "is_object m \<Longrightarrow> j \<noteq> k \<Longrightarrow> prop_of (default_field k v m) j = prop_of m j"
  by (simp add: prop_default)

lemmas object_step = object_default object_set_field

lemma defaults_complete: "is_object m \<Longrightarrow> complete (manifest_defaults m)"
  unfolding complete_def manifest_defaults_def publisher_json_def
  by (simp add: present_default prop_default_other prop_set object_step)

lemma defaults_clean: "json_clean m \<Longrightarrow> json_clean (manifest_defaults m)"
  unfolding manifest_defaults_def
  by (intro clean_default) (simp_all add: clean_set_field clean_publisher json_clean_obj json_clean_arr)

lemma defaults_other:
  "is_object m \<Longrightarrow> k \<notin> {''contentHash'', ''publisher'', ''contributions'', ''dependencies'', ''capabilities'', ''runtime'', ''granularity''} \<Longrightarrow>
   prop_of (manifest_defaults m) k = prop_of m k"
  unfolding manifest_defaults_def
  by (simp add: prop_default_other prop_set object_step)

lemma defaults_object: "is_object m \<Longrightarrow> is_object (manifest_defaults m)"
  unfolding manifest_defaults_def by (simp add: object_default object_set_field)

text \<open>A manifest that parses: complete, clean, with a version, an id and an entry.\<close>

definition good_manifest :: "json \<Rightarrow> bool" where
  "good_manifest m \<longleftrightarrow> is_object m \<and> json_clean m \<and> complete m \<and> prop_of m ''manifestVersion'' = JStr ''1'' \<and>
     text_or_empty (prop_of m ''id'') \<noteq> [] \<and> text_or_empty (prop_of m ''entry'') \<noteq> []"

lemma get_prop_object: "get_prop m k = Some v \<Longrightarrow> v \<noteq> JUndefined \<Longrightarrow> is_object m \<and> v = prop_of m k"
  by (cases m) (auto simp: is_object_def)

lemma parsed_good: "parseManifest t = Inr m \<Longrightarrow> good_manifest m"
proof -
  assume "parseManifest t = Inr m"
  then obtain j where j: "json_read t = Some j" "get_prop j ''manifestVersion'' = Some (JStr ''1'')"
    "text_or_empty (prop_of j ''id'') \<noteq> []" "text_or_empty (prop_of j ''entry'') \<noteq> []" and m: "m = manifest_defaults j"
    by (auto simp: parseManifest_def split: option.splits if_splits)
  have o: "is_object j" and v: "prop_of j ''manifestVersion'' = JStr ''1''" using get_prop_object [OF j(2)] by auto
  show ?thesis
    using o v j json_read_clean [OF j(1)]
    by (simp add: good_manifest_def m defaults_object defaults_clean defaults_complete defaults_other)
qed

lemma good_parses: "good_manifest m \<Longrightarrow> parseManifest (json_pretty d m) = Inr m"
proof -
  assume g: "good_manifest m"
  then have "json_read (json_pretty d m) = Some m" using json_read_pretty [of m d] by (auto simp: good_manifest_def json_clean_def)
  moreover have "get_prop m ''manifestVersion'' = Some (JStr ''1'')"
    using g by (auto simp: good_manifest_def is_object_def)
  ultimately show ?thesis using g by (simp add: parseManifest_def good_manifest_def complete_defaults)
qed

lemma good_set_hash: "good_manifest m \<Longrightarrow> good_manifest (set_field ''contentHash'' (JStr h) m)"
  by (simp add: good_manifest_def complete_def present_set_field prop_set object_set_field clean_set_field)

lemma good_set_publisher: "good_manifest m \<Longrightarrow> good_manifest (set_field ''publisher'' (publisher_json (JStr i) g) m)"
  by (simp add: good_manifest_def complete_def present_set_field prop_set object_set_field clean_set_field clean_publisher)
    (simp add: publisher_json_def)

section \<open>What compilation writes\<close>

lemma sign_json_Inr: "sign_json c v pem = Inr s \<longleftrightarrow> signJson c v pem = Inr s"
  by (auto simp: sign_json_def split: sum.splits)

lemma signed_manifest:
  assumes "sign_manifest c k h m = Inr signed" and "good_manifest m" and "keypair_ok c (rk_pem k) (rk_publicKey k)"
  shows "good_manifest signed" and "publisher_ok c signed (rk_publicKey k)"
proof -
  let ?u = "set_field ''publisher'' (publisher_json (JStr (rk_keyId k)) []) (set_field ''contentHash'' (JStr h) m)"
  obtain sig where sg: "signJson c ?u (rk_pem k) = Inr sig"
    and s: "signed = set_field ''publisher'' (publisher_json (JStr (rk_keyId k)) sig) ?u"
    using assms(1) by (auto simp: sign_manifest_def Let_def res_bind_Inr sign_json_Inr)
  show "good_manifest signed"
    unfolding s by (intro good_set_publisher good_set_hash assms(2))
  have o: "is_object (set_field ''contentHash'' (JStr h) m)" using assms(2) by (simp add: good_manifest_def object_set_field)
  have p: "prop_of signed ''publisher'' = publisher_json (JStr (rk_keyId k)) sig" and u: "set_field ''publisher'' (publisher_json (JStr (rk_keyId k)) []) signed = ?u"
    unfolding s using o by (simp_all add: prop_set object_set_field set_field_twice)
  then show "publisher_ok c signed (rk_publicKey k)"
    using verify_signed [OF assms(3) sg] by (simp add: publisher_ok_def) (simp add: publisher_json_def)
qed

lemma hash_path_text: "hash_path c p n = Inr h \<Longrightarrow> starts_with h ''sha256:''"
  by (auto simp: hash_path_Inr contentHashDir_def hash_files_def res_bind_Inr starts_with_def)

definition compiled :: "crypto \<Rightarrow> string list \<Rightarrow> root_key \<Rightarrow> disk \<Rightarrow> spec_entry \<Rightarrow> json \<Rightarrow> bool" where
  "compiled c b k d se ej \<longleftrightarrow>
     (\<exists>src m h signed n. ej = entry_json c b src se m (json_pretty 0 signed) h \<and> good_manifest m \<and> prop_of m ''id'' = JStr (sp_id se) \<and>
        sign_manifest c k h m = Inr signed \<and> read_file d (manifest_file b (sp_id se)) = Some (json_pretty 0 signed) \<and>
        dk_dirs d src = Some n \<and> hash_path c src n = Inr h \<and> list_all clean_segment src)"

lemma compiled_frame:
  "compiled c b k d se ej \<Longrightarrow> dk_dirs d2 = dk_dirs d \<Longrightarrow>
   read_file d2 (manifest_file b (sp_id se)) = read_file d (manifest_file b (sp_id se)) \<Longrightarrow> compiled c b k d2 se ej"
  unfolding compiled_def by simp

lemma path_walk_stays: "list_all clean_segment acc \<Longrightarrow> \<forall>s \<in> set ss. CHR ''/'' \<notin> set s \<Longrightarrow> list_all clean_segment (path_walk acc ss)"
proof (induction acc ss rule: path_walk.induct)
  case (2 acc s ss)
  moreover have "list_all clean_segment (butlast acc)" using "2.prems"(1) by (auto simp: list_all_iff dest: in_set_butlastD)
  moreover have "s \<noteq> [] \<Longrightarrow> s \<noteq> ''.'' \<Longrightarrow> s \<noteq> ''..'' \<Longrightarrow> clean_segment s" using "2.prems"(2) by (simp add: clean_segment_def)
  ultimately show ?case by auto
qed simp

lemma clean_resolve: "list_all clean_segment base \<Longrightarrow> list_all clean_segment (resolve_in base p)"
  unfolding resolve_in_def by (rule path_walk_stays) (auto dest: split_on_parts)

lemma clean_join: "list_all clean_segment base \<Longrightarrow> list_all clean_segment (join_in base p)"
  unfolding join_in_def by (rule path_walk_stays) (auto dest: split_on_parts)

lemma compile_step:
  assumes "compile_entry c sd b k se (d, es) = Inr (d2, es2)" and "list_all clean_segment sd"
  shows "\<exists>ej. es2 = es @ [ej] \<and> compiled c b k d2 se ej \<and> dk_dirs d2 = dk_dirs d \<and>
    (\<forall>q. q \<noteq> manifest_file b (sp_id se) \<longrightarrow> read_file d2 q = read_file d q)"
proof -
  let ?src = "resolve_in sd (sp_source se)"
  obtain t m n h signed where "read_file d (?src @ [''plugin.json'']) = Some t" and m: "parseManifest t = Inr m"
    and i: "prop_of m ''id'' = JStr (sp_id se)" and n: "dk_dirs d ?src = Some n" "hash_path c ?src n = Inr h"
    and s: "sign_manifest c k h m = Inr signed"
    and d2: "d2 = atomicWrite (manifest_file b (sp_id se)) (json_pretty 0 signed) d"
    and es2: "es2 = es @ [entry_json c b ?src se m (json_pretty 0 signed) h]"
    using assms(1)
    by (auto simp: compile_entry_def Let_def res_bind_Inr parse_manifest_Inr split: option.splits if_splits)
  have "dk_dirs d2 = dk_dirs d" by (simp add: d2 atomicWrite_def)
  moreover have "compiled c b k d2 se (entry_json c b ?src se m (json_pretty 0 signed) h)"
    unfolding compiled_def
    using parsed_good [OF m] i n s clean_resolve [OF assms(2)] \<open>dk_dirs d2 = dk_dirs d\<close>
    by (intro exI [of _ ?src] exI [of _ m] exI [of _ h] exI [of _ signed] exI [of _ n]) (simp add: d2 read_write)
  ultimately show ?thesis using es2 by (auto simp: d2 read_write)
qed

lemma manifest_file_eq: "manifest_file b i = manifest_file b j \<longleftrightarrow> map file_char i = map file_char j"
  by (simp add: manifest_file_def)

lemma compile_fold:
  assumes "res_fold (compile_entry c sd b k) ses (d, es) = Inr (d2, es2)" and "list_all clean_segment sd"
    and "distinct (map (\<lambda>se. map file_char (sp_id se)) ses)"
  shows "\<exists>ejs. es2 = es @ ejs \<and> list_all2 (compiled c b k d2) ses ejs \<and> dk_dirs d2 = dk_dirs d \<and>
    (\<forall>q. q \<notin> (\<lambda>se. manifest_file b (sp_id se)) ` set ses \<longrightarrow> read_file d2 q = read_file d q)"
  using assms(1,3)
proof (induction ses arbitrary: d es)
  case (Cons se ses)
  obtain d1 es1 where one: "compile_entry c sd b k se (d, es) = Inr (d1, es1)"
    and rest: "res_fold (compile_entry c sd b k) ses (d1, es1) = Inr (d2, es2)"
    using Cons.prems(1) by (auto simp: res_bind_Inr)
  obtain ej where ej: "es1 = es @ [ej]" "compiled c b k d1 se ej" "dk_dirs d1 = dk_dirs d"
    "\<And>q. q \<noteq> manifest_file b (sp_id se) \<Longrightarrow> read_file d1 q = read_file d q"
    using compile_step [OF one assms(2)] by blast
  obtain ejs where ejs: "es2 = es1 @ ejs" "list_all2 (compiled c b k d2) ses ejs" "dk_dirs d2 = dk_dirs d1"
    "\<And>q. q \<notin> (\<lambda>se. manifest_file b (sp_id se)) ` set ses \<Longrightarrow> read_file d2 q = read_file d1 q"
    using Cons.IH [OF rest] Cons.prems(2) by auto
  have "manifest_file b (sp_id se) \<notin> (\<lambda>se. manifest_file b (sp_id se)) ` set ses"
    using Cons.prems(2) by (auto simp: manifest_file_eq)
  then have "compiled c b k d2 se ej" using ejs ej by (intro compiled_frame [OF ej(2)]) simp_all
  then show ?case using ej ejs by (intro exI [of _ "ej # ejs"]) auto
qed simp

section \<open>The written entries are read back\<close>

lemma file_char_slash: "file_char x \<noteq> CHR ''/''"
  by (auto simp: file_char_def less_eq_char_def)

lemma clean_manifest_file: "list_all clean_segment b \<Longrightarrow> list_all clean_segment (manifest_file b i)"
proof -
  have "CHR ''/'' \<notin> set (map file_char i)" using file_char_slash by (auto simp: eq_commute)
  then have "clean_segment (map file_char i @ ''.json'')" by (auto simp: clean_segment_def append_eq_Cons_conv)
  moreover have "clean_segment ''manifests''" by (simp add: clean_segment_def)
  ultimately show "list_all clean_segment b \<Longrightarrow> ?thesis" by (simp add: manifest_file_def)
qed

lemma good_id: "good_manifest m \<Longrightarrow> prop_of m ''id'' = JStr i \<Longrightarrow> i \<noteq> []"
  by (auto simp: good_manifest_def text_or_empty_def)

lemma strip_clean: "json_clean v \<Longrightarrow> json_strip v = v"
  by (simp add: json_clean_def)

lemma clean_prop_of: "json_clean m \<Longrightarrow> prop_of m k = JUndefined \<or> json_clean (prop_of m k)"
  by (cases m) (auto simp: json_clean_obj list_all_iff split: option.split dest: map_of_SomeD)

lemma clean_grant: "json_clean (grant_json g)"
  by (simp add: grant_json_def json_clean_obj json_clean_arr list_all_iff)

lemma items_texts: "items_of str_opt (JArr (map JStr xs)) = Some xs"
proof -
  have "opt_all str_opt (map JStr xs) = Some xs" by (induction xs) auto
  then show ?thesis by (simp add: items_of_def)
qed

text \<open>The entry a compiled value is read as.\<close>

definition compiled_view :: "crypto \<Rightarrow> string list \<Rightarrow> string list \<Rightarrow> spec_entry \<Rightarrow> json \<Rightarrow> string \<Rightarrow> string \<Rightarrow> composition_entry" where
  "compiled_view c b src se m t h =
     \<lparr>ce_id = sp_id se, ce_version = text_or_empty (prop_of m ''version''), ce_source = relative_text b src,
       ce_manifestPath = relative_text b (manifest_file b (sp_id se)), ce_manifestHash = ''sha256:'' @ sha256Hex c t, ce_contentHash = h,
       ce_grant = sp_grant se, ce_bootPhase = sp_bootPhase se,
       ce_config = (case sp_config se of Some v \<Rightarrow> if js_truthy v then Some v else None | None \<Rightarrow> None)\<rparr>"

definition config_clean :: "spec_entry \<Rightarrow> bool" where
  "config_clean se \<longleftrightarrow> (case sp_config se of Some v \<Rightarrow> json_clean v | None \<Rightarrow> True)"

lemma entry_json_props:
  fixes c :: crypto and b src :: "string list" and t h :: string
  assumes "good_manifest m" and "prop_of m ''id'' = JStr (sp_id se)" and "config_clean se"
  defines "ej \<equiv> json_strip (entry_json c b src se m t h)"
  shows "is_object ej" "prop_of ej ''id'' = JStr (sp_id se)" "text_or_empty (prop_of ej ''version'') = text_or_empty (prop_of m ''version'')"
    "prop_of ej ''source'' = JStr (relative_text b src)"
    "prop_of ej ''manifestPath'' = JStr (relative_text b (manifest_file b (sp_id se)))"
    "prop_of ej ''manifestHash'' = JStr (''sha256:'' @ sha256Hex c t)" "prop_of ej ''contentHash'' = JStr h"
    "prop_of ej ''grant'' = grant_json (sp_grant se)" "prop_of ej ''bootPhase'' = JNum (int (sp_bootPhase se))"
    "(if js_truthy (prop_of ej ''config'') then Some (prop_of ej ''config'') else None) =
       (case sp_config se of Some v \<Rightarrow> if js_truthy v then Some v else None | None \<Rightarrow> None)"
proof -
  have v: "prop_of m ''version'' = JUndefined \<or> json_strip (prop_of m ''version'') = prop_of m ''version''"
    using clean_prop_of [of m "''version''"] assms(1) by (auto simp: good_manifest_def strip_clean)
  have g: "grant_json x \<noteq> JUndefined" for x by (simp add: grant_json_def)
  note simps = ej_def entry_json_def is_object_def assms(2) strip_clean [OF clean_grant] g text_or_empty_def
  have cf: "v \<noteq> JUndefined \<and> json_strip v = v" if "sp_config se = Some v" for v
    using assms(3) that clean_not_undefined strip_clean by (auto simp: config_clean_def)
  show "is_object ej" "prop_of ej ''id'' = JStr (sp_id se)" "prop_of ej ''source'' = JStr (relative_text b src)"
    "prop_of ej ''manifestPath'' = JStr (relative_text b (manifest_file b (sp_id se)))"
    "prop_of ej ''manifestHash'' = JStr (''sha256:'' @ sha256Hex c t)" "prop_of ej ''contentHash'' = JStr h"
    "prop_of ej ''grant'' = grant_json (sp_grant se)" "prop_of ej ''bootPhase'' = JNum (int (sp_bootPhase se))"
    by (simp_all add: simps)
  show "text_or_empty (prop_of ej ''version'') = text_or_empty (prop_of m ''version'')"
    using v by (cases "sp_config se") (auto simp: simps)
  show "(if js_truthy (prop_of ej ''config'') then Some (prop_of ej ''config'') else None) =
       (case sp_config se of Some v \<Rightarrow> if js_truthy v then Some v else None | None \<Rightarrow> None)"
    using cf by (cases "sp_config se") (auto simp: simps)
qed

lemma starts_sha: "starts_with (''sha256:'' @ s) ''sha256:''"
  by (rule starts_with_append)

lemma entry_checks:
  assumes "good_manifest m" and "prop_of m ''id'' = JStr (sp_id se)" and "config_clean se" and "starts_with h ''sha256:''"
  shows "check_entry (json_strip (entry_json c b src se m t h)) = None"
    and "entry_of (json_strip (entry_json c b src se m t h)) = Some (compiled_view c b src se m t h)"
proof -
  let ?e = "json_strip (entry_json c b src se m t h)"
  note p = entry_json_props [OF assms(1-3), of c b src t h]
  have i: "sp_id se \<noteq> []" using good_id assms by blast
  have get: "get_prop ?e ''id'' = Some (prop_of ?e ''id'')" using p(1) by (auto simp: is_object_def)
  have g: "js_truthy (grant_json x)" "is_array (prop_of (grant_json x) ''capabilities'')" "is_array (prop_of (grant_json x) ''contracts'')"
    "items_of str_opt (prop_of (grant_json x) ''capabilities'') = Some (g_capabilities x)"
    "items_of str_opt (prop_of (grant_json x) ''contracts'') = Some (g_contracts x)" for x
    by (simp_all add: grant_json_def items_texts)
  have sha: "sha_text (prop_of ?e ''manifestHash'')" "sha_text (prop_of ?e ''contentHash'')"
    unfolding p using assms(4) starts_sha by (simp_all add: sha_text_def text_or_empty_def del: append_Cons)
  show "check_entry ?e = None"
    unfolding check_entry_def get using p i g sha
    by (simp add: text_or_empty_def whole_number_def Let_def del: prop_of.simps json_strip.simps)
  have t: "text_or_empty (prop_of ?e ''id'') = sp_id se" "text_or_empty (prop_of ?e ''source'') = relative_text b src"
    "text_or_empty (prop_of ?e ''manifestPath'') = relative_text b (manifest_file b (sp_id se))"
    "text_or_empty (prop_of ?e ''manifestHash'') = ''sha256:'' @ sha256Hex c t" "text_or_empty (prop_of ?e ''contentHash'') = h"
    unfolding p by (simp_all add: text_or_empty_def)
  show "entry_of ?e = Some (compiled_view c b src se m t h)"
    unfolding entry_of_def t p(3) p(8,9) g p(10) by (simp add: compiled_view_def)
qed

lemma entry_verifies:
  assumes "compiled c b k d se ej" and "config_clean se" and "keypair_ok c (rk_pem k) (rk_publicKey k)" and "list_all clean_segment b"
  shows "check_entry (json_strip ej) = None \<and>
    (\<exists>e m. entry_of (json_strip ej) = Some e \<and> ce_id e = sp_id se \<and> ce_bootPhase e = sp_bootPhase se \<and> ce_grant e = sp_grant se \<and>
       verifyEntryWithRoot c d e b (rk_publicKey k) = Inr (Some m, []))"
proof -
  obtain src m h signed n where ej: "ej = entry_json c b src se m (json_pretty 0 signed) h" and gm: "good_manifest m"
    and i: "prop_of m ''id'' = JStr (sp_id se)" and sg: "sign_manifest c k h m = Inr signed"
    and wr: "read_file d (manifest_file b (sp_id se)) = Some (json_pretty 0 signed)"
    and src: "dk_dirs d src = Some n" "hash_path c src n = Inr h" "list_all clean_segment src"
    using assms(1) unfolding compiled_def by blast
  let ?e = "compiled_view c b src se m (json_pretty 0 signed) h"
  note sm = signed_manifest [OF sg gm assms(3)]
  note ec = entry_checks [OF gm i assms(2) hash_path_text [OF src(2)]]
  have "entry_vouches c (contentHashDir c) d b (rk_publicKey k) ?e signed"
    using wr src good_parses [OF sm(1)] sm(2) relative_back(1) [OF clean_manifest_file [OF assms(4)]] relative_back(2) [OF src(3)]
    by (auto simp: entry_vouches_def compiled_view_def hash_path_Inr)
  then have "verifyEntryWithRoot c d ?e b (rk_publicKey k) = Inr (Some signed, [])" by (simp add: verify_entry_clean)
  moreover have "ce_id ?e = sp_id se" "ce_bootPhase ?e = sp_bootPhase se" "ce_grant ?e = sp_grant se"
    by (simp_all add: compiled_view_def)
  ultimately show ?thesis using ec unfolding ej by blast
qed

lemma wf_prop: "json_clean m \<Longrightarrow> json_wf (prop_of m k) \<and> (prop_of m k = JUndefined \<or> storable (prop_of m k))"
  using clean_prop_of [of m k] clean_storable by (auto simp: json_clean_def)

lemma entry_json_ok:
  assumes "good_manifest m" and "config_clean se"
  shows "json_wf (entry_json c b src se m t h) \<and> storable (entry_json c b src se m t h)"
proof -
  have m: "json_clean m" using assms(1) by (simp add: good_manifest_def)
  have g: "json_wf (grant_json x) \<and> storable (grant_json x)" for x
    using clean_grant [of x] clean_storable by (simp add: json_clean_def)
  have cf: "json_wf v \<and> storable v" if "sp_config se = Some v" for v
    using assms(2) that clean_storable by (simp add: config_clean_def json_clean_def)
  show ?thesis
    using wf_prop [OF m] g cf by (auto simp: entry_json_def split: option.split)
qed

lemma compiled_ok: "compiled c b k d se ej \<Longrightarrow> config_clean se \<Longrightarrow> json_wf ej \<and> storable ej"
  unfolding compiled_def using entry_json_ok by blast

definition raw_recipe :: "composition_spec \<Rightarrow> root_key \<Rightarrow> json list \<Rightarrow> string \<Rightarrow> json" where
  "raw_recipe spec k entries sig = JObj (unsigned_recipe spec k entries @ [(''signature'', JStr sig)])"

lemma raw_props:
  defines "r \<equiv> \<lambda>spec k entries sig. json_strip (raw_recipe spec k entries sig)"
  shows "get_prop (r spec k es sig) ''recipeVersion'' = Some (JNum 1)" "prop_of (r spec k es sig) ''hashAlgo'' = JStr ''sha256''"
    "prop_of (r spec k es sig) ''name'' = JStr (cs_name spec)" "prop_of (r spec k es sig) ''composition'' = JArr (map json_strip es)"
    "prop_of (r spec k es sig) ''rootOfTrust'' = JObj [(''keyId'', JStr (rk_keyId k)), (''publicKey'', JStr (rk_publicKey k))]"
    "prop_of (r spec k es sig) ''signature'' = JStr sig"
    "unsignedRecipe (r spec k es sig) = json_strip (JObj (unsigned_recipe spec k es))"
  by (simp_all add: r_def raw_recipe_def unsigned_recipe_def unsignedRecipe_def)

lemma first_error_None: "first_error f xs = None \<longleftrightarrow> list_all (\<lambda>x. f x = None) xs"
  by (induction xs) (auto split: option.split)

lemma opt_all_map: "list_all2 (\<lambda>x y. f (g x) = Some y) xs ys \<Longrightarrow> opt_all f (map g xs) = Some ys"
  by (simp add: opt_all_Some list_all2_map1)

text \<open>What the verifier sees of a specification.\<close>

definition spec_view :: "spec_entry \<Rightarrow> string \<times> nat \<times> entry_grant" where
  "spec_view se = (sp_id se, sp_bootPhase se, sp_grant se)"

definition entry_view :: "composition_entry \<Rightarrow> string \<times> nat \<times> entry_grant" where
  "entry_view e = (ce_id e, ce_bootPhase e, ce_grant e)"

text \<open>The recipe as it is read: it parses, it is signed, its entries are the specification's and each verifies.\<close>

lemma raw_recipe_reads:
  assumes ej: "list_all2 (compiled c b k d) ses ejs" and cf: "list_all config_clean ses" and key: "keypair_ok c (rk_pem k) (rk_publicKey k)"
    and b: "list_all clean_segment b" and ne: "ses \<noteq> []" "cs_name spec \<noteq> []"
    and sig: "signJson c (JObj (unsigned_recipe spec k ejs)) (rk_pem k) = Inr sig"
  defines "raw \<equiv> raw_recipe spec k ejs sig"
  shows "\<exists>es outs. parseRecipe (json_pretty 0 raw) = Inr (json_strip raw) \<and> verifyRecipeSignature c (json_strip raw) \<and>
    recipe_of (json_strip raw) = Some \<lparr>r_name = cs_name spec, r_composition = es, r_keyId = rk_keyId k, r_publicKey = rk_publicKey k, r_signature = sig\<rparr> \<and>
    map entry_view es = map spec_view ses \<and>
    res_map (\<lambda>e. verifyEntryWithRoot c d e b (rk_publicKey k)) es = Inr outs \<and> concat (map snd outs) = []"
proof -
  have each: "check_entry (json_strip j) = None \<and> (\<exists>e m. entry_of (json_strip j) = Some e \<and> entry_view e = spec_view se \<and>
      verifyEntryWithRoot c d e b (rk_publicKey k) = Inr (Some m, []))" and okj: "json_wf j \<and> storable j"
    if "compiled c b k d se j" "config_clean se" for se j
    using entry_verifies [OF that key b] compiled_ok [OF that] by (auto simp: entry_view_def spec_view_def)
  obtain es outs where es: "list_all2 (\<lambda>j e. entry_of (json_strip j) = Some e) ejs es" "map entry_view es = map spec_view ses"
    "list_all2 (\<lambda>e out. verifyEntryWithRoot c d e b (rk_publicKey k) = Inr out) es outs" "concat (map snd outs) = []"
    and chk: "list_all (\<lambda>j. check_entry (json_strip j) = None \<and> json_wf j \<and> storable j) ejs"
    using ej cf
  proof (induction ses ejs arbitrary: thesis rule: list_all2_induct)
    case (Cons se ses j js)
    obtain es outs where "list_all2 (\<lambda>j e. entry_of (json_strip j) = Some e) js es" "map entry_view es = map spec_view ses"
      "list_all2 (\<lambda>e out. verifyEntryWithRoot c d e b (rk_publicKey k) = Inr out) es outs" "concat (map snd outs) = []"
      and "list_all (\<lambda>j. check_entry (json_strip j) = None \<and> json_wf j \<and> storable j) js"
      using Cons.IH Cons.prems(2) by auto
    moreover obtain e m where "entry_of (json_strip j) = Some e" "entry_view e = spec_view se"
      "verifyEntryWithRoot c d e b (rk_publicKey k) = Inr (Some m, [])"
      using each [OF Cons.hyps(1)] Cons.prems(2) by auto
    ultimately show ?case
      using each [OF Cons.hyps(1)] okj [OF Cons.hyps(1)] Cons.prems(2)
      by (intro Cons.prems(1) [of "e # es" "(Some m, []) # outs"]) auto
  qed auto
  have nej: "ejs \<noteq> []" using ej ne by auto
  have wf: "json_wf raw" using chk by (simp add: raw_def raw_recipe_def unsigned_recipe_def list_all_iff)
  have st: "storable (JObj (unsigned_recipe spec k ejs))" using chk by (simp add: unsigned_recipe_def list_all_iff)
  have canon: "canonicalJson (json_strip (JObj (unsigned_recipe spec k ejs))) = canonicalJson (JObj (unsigned_recipe spec k ejs))"
    using canonical_strip [OF st] .
  note p = raw_props [of spec k ejs sig, folded raw_def]
  have "first_error check_entry (map json_strip ejs) = None" using chk by (simp add: first_error_None list_all_iff)
  then have "check_recipe (json_strip raw) = None"
    unfolding check_recipe_def p using ne nej by (cases "map json_strip ejs") (simp_all add: text_or_empty_def Let_def)
  then have parse: "parseRecipe (json_pretty 0 raw) = Inr (json_strip raw)" using json_read_pretty [OF wf] by (simp add: parseRecipe_def)
  have sg: "verifyRecipeSignature c (json_strip raw)"
    unfolding verifyRecipeSignature_def p using verify_signed [OF key sig] canon
    by (simp add: text_or_empty_def verifyJson_def del: canonicalJson.simps json_strip.simps)
  have "items_of entry_of (JArr (map json_strip ejs)) = Some es" using opt_all_map [where f = entry_of and g = json_strip, OF es(1)] by (simp add: items_of_def)
  then have "recipe_of (json_strip raw) =
      Some \<lparr>r_name = cs_name spec, r_composition = es, r_keyId = rk_keyId k, r_publicKey = rk_publicKey k, r_signature = sig\<rparr>"
    unfolding recipe_of_def p by (simp add: text_or_empty_def)
  moreover have "res_map (\<lambda>e. verifyEntryWithRoot c d e b (rk_publicKey k)) es = Inr outs" using es(3) by (simp add: res_map_Inr_iff)
  ultimately show ?thesis using parse sg es(2,4) by blast
qed

section \<open>Properties\<close>


text \<open>A specification of one plugin, \<open>vivim.law\<close>, on a disk that has its directory.\<close>

definition law_manifest :: json where
  "law_manifest = JObj [(''manifestVersion'', JStr ''1''), (''id'', JStr ''vivim.law''), (''version'', JStr ''1''), (''entry'', JStr ''i''),
     (''contributions'', JObj [(''contract'', JArr [JObj [(''id'', JStr ''law.check''), (''version'', JStr ''1'')]])])]"

definition plain_disk :: disk where
  "plain_disk = \<lparr>dk_files = [([''law'', ''plugin.json''], json_pretty 0 law_manifest)],
     dk_dirs = (\<lambda>p. if p = [''law''] then Some (DirN [(''i'', FileN ''x'')]) else None)\<rparr>"

definition flat_key :: root_key where
  "flat_key = \<lparr>rk_keyId = ''k'', rk_publicKey = ''p'', rk_pem = ''s''\<rparr>"

definition law_spec :: "string list \<Rightarrow> composition_spec" where
  "law_spec ops = \<lparr>cs_name = ''n'', cs_entries =
     [\<lparr>sp_id = ''vivim.law'', sp_source = ''law'', sp_bootPhase = 0, sp_grant = \<lparr>g_capabilities = [], g_contracts = ops\<rparr>, sp_config = None\<rparr>]\<rparr>"

lemma law_compiles: "\<exists>d1 raw. compileComposition flat_crypto plain_disk (law_spec [law_op]) [] [''v''] flat_key = Inr (d1, raw, [''v'', ''build'', ''n''])"
proof -
  have "\<not> isl (compileComposition flat_crypto plain_disk (law_spec [law_op]) [] [''v''] flat_key)" by code_simp
  moreover have "build_dir [''v''] (cs_name (law_spec [law_op])) = [''v'', ''build'', ''n'']" by code_simp
  ultimately show ?thesis
    by (auto simp: compileComposition_def Let_def res_bind_def split: sum.splits prod.splits)
qed


end
