(* ===== verification/Recipe_World.thy ===== *)
theory Recipe_World
  imports Recipe_Compile
begin

text \<open>
  A small machine on which the boot path runs: one plugin, \<open>vivim.law\<close>, in a vault with a pinned recipe
  and an incoming one. It discharges the hypotheses of the recovery properties, and shows what a recipe
  that cannot be routed does to the pin.
\<close>

section \<open>The machine\<close>

definition w_manifest :: json where
  "w_manifest = JObj [(''manifestVersion'', JStr ''1''), (''id'', JStr ''vivim.law''), (''version'', JStr ''1''), (''entry'', JStr ''i''),
     (''contentHash'', JStr []), (''publisher'', publisher_json (JStr ''k'') ''s''),
     (''contributions'', JObj [(''contract'', JArr [JObj [(''id'', JStr ''law.check''), (''version'', JStr ''1'')]])]),
     (''dependencies'', JArr []), (''capabilities'', JObj []), (''runtime'', JObj []), (''granularity'', JStr ''atomic'')]"

definition w_entry :: "string list \<Rightarrow> json" where
  "w_entry ops = JObj [(''id'', JStr ''vivim.law''), (''version'', JStr ''1''), (''source'', JStr ''/law''), (''manifestPath'', JStr ''m''),
     (''manifestHash'', JStr ''sha256:h''), (''contentHash'', JStr ''sha256:h''),
     (''grant'', grant_json \<lparr>g_capabilities = [], g_contracts = ops\<rparr>), (''bootPhase'', JNum 0)]"

definition w_recipe :: "string \<Rightarrow> string list \<Rightarrow> json" where
  "w_recipe n ops = JObj [(''recipeVersion'', JNum 1), (''hashAlgo'', JStr ''sha256''), (''name'', JStr n), (''composition'', JArr [w_entry ops]),
     (''rootOfTrust'', JObj [(''keyId'', JStr ''k''), (''publicKey'', JStr ''p'')]), (''signature'', JStr ''s'')]"

definition w_ce :: "string list \<Rightarrow> composition_entry" where
  "w_ce ops = \<lparr>ce_id = ''vivim.law'', ce_version = ''1'', ce_source = ''/law'', ce_manifestPath = ''m'', ce_manifestHash = ''sha256:h'',
     ce_contentHash = ''sha256:h'', ce_grant = \<lparr>g_capabilities = [], g_contracts = ops\<rparr>, ce_bootPhase = 0, ce_config = None\<rparr>"

definition w_rc :: "string \<Rightarrow> string list \<Rightarrow> recipe" where
  "w_rc n ops = \<lparr>r_name = n, r_composition = [w_ce ops], r_keyId = ''k'', r_publicKey = ''p'', r_signature = ''s''\<rparr>"

definition w_env :: host_env where
  "w_env = \<lparr>he_crypto = flat_crypto, he_newKey = flat_key, he_now = 0, he_token = sample_token, he_order = (\<lambda>fs. fs)\<rparr>"

text \<open>The pinned recipe \<open>n\<close> grants \<open>law.check@1\<close>; the incoming one, \<open>bad\<close>, also an op nobody declares.\<close>

definition good_ops :: "string list" where "good_ops = [law_op]"
definition bad_ops :: "string list" where "bad_ops = [law_op, ''x@1'']"

definition w_files :: "(string list, string) jsmap" where
  "w_files = [([''v'', ''keys'', ''root-of-trust''], json_pretty 0 (key_json flat_key)), ([''v'', ''format.json''], []),
     ([''v'', ''recipe.pinned''], json_pretty 0 (w_recipe ''n'' good_ops)),
     ([''v'', ''build'', ''n'', ''m''], json_pretty 0 w_manifest), ([''v'', ''build'', ''bad'', ''m''], json_pretty 0 w_manifest),
     ([''v'', ''build'', ''bad'', ''recipe.json''], json_pretty 0 (w_recipe ''bad'' bad_ops))]"

definition w_disk :: disk where
  "w_disk = \<lparr>dk_files = w_files, dk_dirs = (\<lambda>p. if p = [''law''] then Some (DirN []) else None)\<rparr>"

section \<open>What is on it\<close>

lemma w_manifest_good: "good_manifest w_manifest"
  by (simp add: good_manifest_def is_object_def w_manifest_def complete_def present_def json_clean_obj json_clean_arr
      publisher_json_def text_or_empty_def)

lemma w_recipe_clean: "json_clean (w_recipe n ops)"
  by (simp add: w_recipe_def w_entry_def json_clean_obj json_clean_arr clean_grant)

lemma w_recipe_parse: "n \<noteq> [] \<Longrightarrow> parseRecipe (json_pretty 0 (w_recipe n ops)) = Inr (w_recipe n ops)"
  using json_read_pretty [of "w_recipe n ops" 0] w_recipe_clean [of n ops]
  by (simp add: json_clean_def parseRecipe_def)
    (simp add: check_recipe_def check_entry_def w_recipe_def w_entry_def grant_json_def text_or_empty_def sha_text_def
      starts_with_def whole_number_def Let_def)

lemma w_recipe_of: "recipe_of (w_recipe n ops) = Some (w_rc n ops)"
  by (simp add: recipe_of_def entry_of_def items_of_def w_recipe_def w_entry_def w_rc_def w_ce_def text_or_empty_def)
    (simp add: grant_json_def items_texts [unfolded items_of_def, simplified] text_or_empty_def)

lemma flat_verify: "verifyJson flat_crypto v p s \<longleftrightarrow> storable v"
  using canonical_total [of v] by (auto simp: verifyJson_def flat_crypto_def split: sum.split)

lemma w_signature: "verifyRecipeSignature flat_crypto (w_recipe n ops)"
proof -
  have "json_clean (drop_field ''signature'' (w_recipe n ops))"
    by (simp add: w_recipe_def w_entry_def json_clean_obj json_clean_arr clean_grant)
  then show ?thesis unfolding verifyRecipeSignature_def unsignedRecipe_def flat_verify by (rule clean_storable)
qed

lemma w_publisher: "publisher_ok flat_crypto w_manifest p"
proof -
  have "json_clean (set_field ''publisher'' (publisher_json (JStr ''k'') []) w_manifest)"
    using w_manifest_good by (intro clean_set_field clean_publisher) (simp_all add: good_manifest_def)
  then have "storable (set_field ''publisher'' (publisher_json (JStr ''k'') []) w_manifest)" by (rule clean_storable)
  moreover have "prop_of w_manifest ''publisher'' = publisher_json (JStr ''k'') ''s''" by (simp add: w_manifest_def)
  ultimately show ?thesis by (simp add: publisher_ok_def publisher_json_def flat_verify)
qed

definition w_typed :: manifest where
  "w_typed = (case manifest_of w_manifest of Some t \<Rightarrow> t | None \<Rightarrow> sample_manifest [] [] None)"

lemma w_manifest_of: "manifest_of w_manifest = Some w_typed"
proof -
  have "manifest_of w_manifest \<noteq> None" by code_simp
  then show ?thesis by (auto simp: w_typed_def)
qed

lemma w_routable: "routableOps w_typed = good_ops"
  by code_simp

section \<open>The boot path on it\<close>

text \<open>A disk on which the entry of a build directory verifies.\<close>

definition w_ready :: "disk \<Rightarrow> string list \<Rightarrow> bool" where
  "w_ready d b \<longleftrightarrow> read_file d (b @ [''m'']) = Some (json_pretty 0 w_manifest) \<and> dk_dirs d [''law''] = Some (DirN [])"

lemma w_paths: "join_in b ''m'' = b @ [''m'']" "resolve_in b ''/law'' = [''law'']"
  by (simp_all add: join_in_def resolve_in_def is_absolute_def starts_with_def)

lemma w_hash: "contentHashDir flat_crypto [] = Inr ''sha256:h''" "contentHashDirAsync flat_crypto (\<lambda>fs. fs) [] = Inr ''sha256:h''"
  by (simp_all add: contentHashDir_def contentHashDirAsync_def res_bind_def hash_files_def sha256Hex_def flat_crypto_def)

lemma w_vouches:
  "w_ready d b \<Longrightarrow> H [] = Inr ''sha256:h'' \<Longrightarrow> entry_vouches flat_crypto H d b p (w_ce ops) w_manifest"
  using good_parses [OF w_manifest_good, of 0] w_publisher
  by (simp add: entry_vouches_def w_ready_def w_ce_def w_paths) (simp add: sha256Hex_def flat_crypto_def)

lemma w_entry_clean:
  assumes "w_ready d b"
  shows "verifyEntryWithRoot flat_crypto d (w_ce ops) b p = Inr (Some w_manifest, [])"
    and "verifyEntryWithRootAsync flat_crypto (\<lambda>fs. fs) d (w_ce ops) b p = Inr (Some w_manifest, [])"
  using w_vouches [OF assms] w_hash by (simp_all add: verify_entry_clean verify_entry_async_clean)

lemma w_structured: "distinct ops \<Longrightarrow> verifyCompositionInvariants (w_rc n ops) = []"
  by (simp add: invariants_iff well_structured_def granted_ops_def w_rc_def w_ce_def)

lemma w_try:
  "w_ready d b \<Longrightarrow> distinct ops \<Longrightarrow> tryRecipe flat_crypto d ''p'' (w_recipe n ops) b = Inr None"
  using w_entry_clean(1) [of d b ops "''p''"]
  by (simp add: tryRecipe_def w_signature w_recipe_of w_structured) (simp add: w_rc_def res_bind_def)

lemma w_verify:
  assumes "w_ready d b" and "distinct ops"
  shows "verifyCompositionAsync flat_crypto (\<lambda>fs. fs) d (w_recipe n ops) (w_rc n ops) b ''p'' =
    Inr ([(''vivim.law'', w_manifest)], map (\<lambda>op. Routing (Undeclared ''vivim.law'' op)) (filter (\<lambda>op. op \<notin> set good_ops) ops))"
proof -
  have "recipe_errors flat_crypto (w_recipe n ops) (w_rc n ops) ''p'' = []"
    using assms(2) by (simp add: recipe_errors_def w_signature w_structured) (simp add: w_rc_def)
  moreover have "res_map (\<lambda>e. verifyEntryWithRootAsync flat_crypto (\<lambda>fs. fs) d e b (r_publicKey (w_rc n ops))) (r_composition (w_rc n ops)) =
      Inr [(Some w_manifest, [])]"
    using w_entry_clean(2) [OF assms(1)] by (simp add: w_rc_def)
  moreover have "r_composition (w_rc n ops) = [w_ce ops]" "ce_id (w_ce ops) = ''vivim.law''" "g_contracts (ce_grant (w_ce ops)) = ops"
    by (simp_all add: w_rc_def w_ce_def)
  moreover have "typed_manifests [(''vivim.law'', w_manifest)] = Some [(''vivim.law'', w_typed)]"
    by (simp add: typed_manifests_def w_manifest_of)
  moreover have "m_dependencies w_typed = []" by code_simp
  ultimately show ?thesis
    using route_grants_shape [of "''vivim.law''" good_ops ops "[]" "[]"]
    by (simp add: verifyCompositionAsync_def res_bind_def with_routing_def collect_manifests_def buildRoutingTable_def
        w_routable split_def unsatisfied_def comp_def)
qed

lemma w_key: "keypair_ok flat_crypto (rk_pem flat_key) (rk_publicKey flat_key)"
  by (simp add: keypair_ok_def flat_crypto_def)

text \<open>A vault whose key and format file are written, and a build directory that is ready.\<close>

definition w_vault :: "disk \<Rightarrow> bool" where
  "w_vault d \<longleftrightarrow> read_file d [''v'', ''keys'', ''root-of-trust''] = Some (json_pretty 0 (key_json flat_key)) \<and>
     read_file d [''v'', ''format.json''] = Some []"

lemma w_ensure: "w_vault d \<Longrightarrow> ensureVault w_env [''v''] d = (d, Inr flat_key)"
proof -
  assume d: "w_vault d"
  have "json_clean (key_json flat_key)" by (simp add: key_json_def json_clean_obj)
  then have "json_read (json_pretty 0 (key_json flat_key)) = Some (key_json flat_key)"
    using json_read_pretty [of "key_json flat_key" 0] by (simp add: json_clean_def)
  then have "loadRootKeyPem d (key_file [''v'']) = Inr flat_key"
    using d by (simp add: loadRootKeyPem_def w_vault_def key_file_def) (simp add: key_json_def flat_key_def)
  then show ?thesis using d by (simp add: ensureVault_def write_missing_def w_vault_def key_file_def)
qed

lemma w_boot:
  assumes "w_vault d" and "w_ready d b" and "distinct ops"
  shows "set ops \<subseteq> set good_ops \<Longrightarrow> \<exists>h. boot_parsed w_env d (w_recipe n ops) b [''v''] = (d, Inr h)"
    and "\<not> set ops \<subseteq> set good_ops \<Longrightarrow> \<exists>e. boot_parsed w_env d (w_recipe n ops) b [''v''] = (d, Inl e)"
proof -
  note ev = w_ensure [OF assms(1)]
  have ver: "verifyCompositionAsync (he_crypto w_env) (he_order w_env) d (w_recipe n ops) (w_rc n ops) b (rk_publicKey flat_key) =
      Inr ([(''vivim.law'', w_manifest)], map (\<lambda>op. Routing (Undeclared ''vivim.law'' op)) (filter (\<lambda>op. op \<notin> set good_ops) ops))"
    using w_verify [OF assms(2,3)] by (simp add: w_env_def flat_key_def)
  have k: "keypair_ok (he_crypto w_env) (rk_pem flat_key) (rk_publicKey flat_key)" using w_key by (simp add: w_env_def)
  show "\<exists>h. boot_parsed w_env d (w_recipe n ops) b [''v''] = (d, Inr h)" if "set ops \<subseteq> set good_ops"
  proof -
    have "filter (\<lambda>op. op \<notin> set good_ops) ops = []" using that by (auto simp: filter_empty_conv)
    then have "verifyCompositionAsync (he_crypto w_env) (he_order w_env) d (w_recipe n ops) (w_rc n ops) b (rk_publicKey flat_key) =
        Inr ([(''vivim.law'', w_manifest)], [])"
      using ver by simp
    then show ?thesis using verified_boot_succeeds [OF ev k] by (simp add: boot_parsed_def w_recipe_of)
  qed
  show "\<exists>e. boot_parsed w_env d (w_recipe n ops) b [''v''] = (d, Inl e)" if "\<not> set ops \<subseteq> set good_ops"
  proof -
    have "filter (\<lambda>op. op \<notin> set good_ops) ops \<noteq> []" using that by (auto simp: filter_empty_conv)
    then show ?thesis using ver ev by (simp add: boot_parsed_def w_recipe_of bootComposition_def res_bind_def)
  qed
qed

lemma clean_nothing: "\<forall>f \<in> set (dk_files d). \<not> stale_swap v (fst f) \<Longrightarrow> cleanupStaleSwap v d = (False, d)"
  by (auto simp: cleanupStaleSwap_def list_ex_iff filter_id_conv)

text \<open>The two disks of the story: before the incoming recipe, and with it pinned.\<close>

definition w_disk2 :: disk where
  "w_disk2 = pinRecipe [''v''] (w_recipe ''bad'' bad_ops) w_disk"

lemma w_pin_path: "pin_path [''v''] = [''v'', ''recipe.pinned'']"
  by (simp add: pin_path_def)

lemma w_disk_vault: "w_vault w_disk" "w_vault w_disk2"
  by (simp_all add: w_vault_def w_disk2_def pinRecipe_def read_write w_pin_path) (simp_all add: w_disk_def read_file_def w_files_def)

lemma w_disk_ready: "w_ready w_disk [''v'', ''build'', ''n'']" "w_ready w_disk [''v'', ''build'', ''bad'']" "w_ready w_disk2 [''v'', ''build'', ''bad'']"
  by (simp_all add: w_ready_def w_disk2_def pinRecipe_def read_write w_pin_path) (simp_all add: w_disk_def read_file_def w_files_def atomicWrite_def)

lemma w_disk_clean: "cleanupStaleSwap [''v''] w_disk = (False, w_disk)" "cleanupStaleSwap [''v''] w_disk2 = (False, w_disk2)"
  by (rule clean_nothing; simp add: w_disk2_def pinRecipe_def atomicWrite_def w_disk_def w_files_def w_pin_path stale_swap_def starts_with_def)+

lemma w_pins: "loadPinnedRecipe w_disk [''v''] = Inr (Some (w_recipe ''n'' good_ops))" "loadPinnedRecipe w_disk2 [''v''] = Inr (Some (w_recipe ''bad'' bad_ops))"
proof -
  have "read_file w_disk (pin_path [''v'']) = Some (json_pretty 0 (w_recipe ''n'' good_ops))"
    by (simp add: w_pin_path w_disk_def read_file_def w_files_def)
  then show "loadPinnedRecipe w_disk [''v''] = Inr (Some (w_recipe ''n'' good_ops))" by (simp add: loadPinnedRecipe_def w_recipe_parse)
  have "read_file w_disk2 (pin_path [''v'']) = Some (json_pretty 0 (w_recipe ''bad'' bad_ops))"
    by (simp add: w_disk2_def pinRecipe_def read_write)
  then show "loadPinnedRecipe w_disk2 [''v''] = Inr (Some (w_recipe ''bad'' bad_ops))" by (simp add: loadPinnedRecipe_def w_recipe_parse)
qed

lemma w_ops: "distinct good_ops" "distinct bad_ops" "\<not> set bad_ops \<subseteq> set good_ops"
  by (simp_all add: good_ops_def bad_ops_def law_op_def)

lemma w_build: "build_dir [''v''] (text_or_empty (prop_of (w_recipe ''n'' ops) ''name'')) = [''v'', ''build'', ''n'']"
  "build_dir [''v''] (text_or_empty (prop_of (w_recipe ''bad'' ops) ''name'')) = [''v'', ''build'', ''bad'']"
  by (simp_all add: build_dir_def join_in_def w_recipe_def text_or_empty_def)

lemma w_env_crypto: "he_crypto w_env = flat_crypto" "rk_publicKey flat_key = ''p''"
  by (simp_all add: w_env_def flat_key_def)

lemma w_pinned_up: "\<exists>h. boot_pinned w_env w_disk flat_key [''v''] cl r =
    (w_disk, Inr (Some h, \<lparr>rp_booted = True, rp_source = PinnedSource, rp_cleaned = cl, rp_reason = r\<rparr>))"
  using w_boot(1) [OF w_disk_vault(1) w_disk_ready(1) w_ops(1), of "''n''"] w_try [OF w_disk_ready(1) w_ops(1), of "''n''"]
  by (auto simp: boot_pinned_def w_pins w_build w_env_crypto)

lemma w_pinned_throws: "\<exists>e. boot_pinned w_env w_disk2 flat_key [''v''] cl r = (w_disk2, Inl e)"
  using w_boot(2) [OF w_disk_vault(2) w_disk_ready(3) w_ops(2,3), of "''bad''"] w_try [OF w_disk_ready(3) w_ops(2), of "''bad''"]
  by (auto simp: boot_pinned_def w_pins w_build w_env_crypto)

lemma w_incoming_throws: "\<exists>e. boot_incoming w_env w_disk flat_key [''v''] (json_pretty 0 (w_recipe ''bad'' bad_ops)) [''v'', ''build'', ''bad''] = (w_disk2, Inl e)"
  using w_boot(2) [OF w_disk_vault(2) w_disk_ready(3) w_ops(2,3), of "''bad''"] w_try [OF w_disk_ready(2) w_ops(2), of "''bad''"]
  by (auto simp: boot_incoming_def w_recipe_parse w_env_crypto w_disk2_def)

section \<open>Properties\<close>

theorem recovery_boots_verified_witness:
  "\<exists>(h :: booted) d (k :: root_key). recipe_of (bh_raw h) = Some (bh_recipe h) \<and> loadPinnedRecipe d [''v''] = Inr (Some (bh_raw h)) \<and>
     composition_verified flat_crypto (contentHashDirAsync flat_crypto (\<lambda>fs. fs)) d (bh_raw h) (bh_recipe h) (bh_buildDir h) (rk_publicKey k) (bh_manifests h)"
proof -
  obtain h rp where "bootWithRecovery w_env w_disk [''v''] None = (w_disk, Inr (Some h, rp))"
    using w_pinned_up [of False None] by (auto simp: bootWithRecovery_def w_ensure w_disk_vault w_disk_clean)
  from recovery_boots_verified [OF this] show ?thesis unfolding w_env_def by (simp only: host_env.simps) blast
qed

theorem async_verification_equal_witness:
  "verifyCompositionAsync flat_crypto rev w_disk (w_recipe ''n'' good_ops) (w_rc ''n'' good_ops) [''v'', ''build'', ''n''] ''p'' =
   verifyComposition flat_crypto w_disk (w_recipe ''n'' good_ops) (w_rc ''n'' good_ops) [''v'', ''build'', ''n''] ''p''"
proof -
  obtain out where out: "verifyComposition flat_crypto w_disk (w_recipe ''n'' good_ops) (w_rc ''n'' good_ops) [''v'', ''build'', ''n''] ''p'' = Inr out"
  proof -
    have "res_map (\<lambda>e. verifyEntryWithRoot flat_crypto w_disk e [''v'', ''build'', ''n''] (r_publicKey (w_rc ''n'' good_ops)))
        (r_composition (w_rc ''n'' good_ops)) = Inr [(Some w_manifest, [])]"
      using w_entry_clean(1) [OF w_disk_ready(1)] by (simp add: w_rc_def)
    moreover have "typed_manifests (collect_manifests (r_composition (w_rc ''n'' good_ops)) [(Some w_manifest, [])]) \<noteq> None"
      by (simp add: w_rc_def collect_manifests_def typed_manifests_def w_manifest_of)
    moreover have "\<exists>out. with_routing rc ms errs = Inr out" if "typed_manifests ms \<noteq> None" for rc ms errs
      using that by (auto simp: with_routing_def)
    ultimately show thesis
      using that by (simp add: verifyComposition_def res_bind_def) blast
  qed
  show ?thesis unfolding out
    by (rule async_verification_equal [OF _ _ out]) (auto simp: w_disk_def split: if_splits)
qed


end
