(* ===== verification/Run_Queue.thy ===== *)
theory Run_Queue
  imports Port_Contracts "HOL-Library.Multiset"
begin

text \<open>
  The scheduler of the run plugin (\<open>plugins/vivim-run/src/queue.ts\<close>): three priority levels, first in
  first out within a level, explicit running slots, and a refusal with full telemetry when the queue
  is saturated. The queue refines a plain list of tasks in arrival order, and the contract the pool
  relies on is the locale \<open>slot_scheduler\<close>.
\<close>

section \<open>Tasks\<close>

datatype priority = PHigh | PNormal | PLow

text \<open>Better priorities are smaller.\<close>

fun rank :: "priority \<Rightarrow> nat" where
  "rank PHigh = 0"
| "rank PNormal = 1"
| "rank PLow = 2"

lemma rank_eq [simp]: "rank p = rank q \<longleftrightarrow> p = q"
  by (cases p; cases q) auto

instantiation priority :: linorder
begin

definition less_eq_priority :: "priority \<Rightarrow> priority \<Rightarrow> bool" where
  "p \<le> q \<longleftrightarrow> rank p \<le> rank q"

definition less_priority :: "priority \<Rightarrow> priority \<Rightarrow> bool" where
  "p < q \<longleftrightarrow> rank p < rank q"

instance
  by standard (auto simp: less_eq_priority_def less_priority_def)

end

lemma priority_less [simp]:
  "p < PNormal \<longleftrightarrow> p = PHigh" "p < PLow \<longleftrightarrow> p = PHigh \<or> p = PNormal" "\<not> p < PHigh"
  by (cases p; simp add: less_priority_def)+

definition PRIORITIES :: "priority list" where
  "PRIORITIES = [PHigh, PNormal, PLow]"

definition DEFAULT_DEADLINE_MS :: int where "DEFAULT_DEADLINE_MS = 5000"
definition MIN_DEADLINE_MS :: int where "MIN_DEADLINE_MS = 1"
definition MAX_DEADLINE_MS :: int where "MAX_DEADLINE_MS = 60000"
definition SATURATION_FACTOR :: nat where "SATURATION_FACTOR = 4"

lemmas deadline_defs = DEFAULT_DEADLINE_MS_def MIN_DEADLINE_MS_def MAX_DEADLINE_MS_def

record task_request =
  tk_op :: string
  tk_payload :: json
  tk_priority :: json
  tk_deadlineMs :: json

record queued_task =
  qt_id :: string
  qt_op :: string
  qt_payload :: json
  qt_priority :: priority
  qt_deadlineMs :: int
  qt_submittedAt :: int

record saturation =
  sat_queued :: nat
  sat_running :: nat
  sat_capacity :: nat

datatype enqueue_outcome = Admitted queued_task | Saturated saturation

text \<open>The hints of a request come from outside and have any type. Numbers are integers, so the
  \<open>Math.floor\<close> of the source is the identity.\<close>

fun clampDeadline :: "json \<Rightarrow> int" where
  "clampDeadline (JNum ms) = min MAX_DEADLINE_MS (max MIN_DEADLINE_MS ms)"
| "clampDeadline _ = DEFAULT_DEADLINE_MS"

definition normalizePriority :: "json \<Rightarrow> priority" where
  "normalizePriority p =
     (if p = JStr ''high'' then PHigh else if p = JStr ''low'' then PLow else PNormal)"

lemma clampDeadline_range: "MIN_DEADLINE_MS \<le> clampDeadline v \<and> clampDeadline v \<le> MAX_DEADLINE_MS"
  by (cases v) (auto simp: deadline_defs)

lemma clampDeadline_again: "clampDeadline (JNum (clampDeadline v)) = clampDeadline v"
  using clampDeadline_range [of v] by simp

section \<open>The queue\<close>

text \<open>\<open>levels\<close> is the triple of arrays, indexed by priority; \<open>nonce\<close> is the random prefix of one
  boot.\<close>

record task_queue =
  tq_levels :: "priority \<Rightarrow> queued_task list"
  tq_running :: nat
  tq_seq :: nat
  tq_capacity :: nat

definition new_queue :: "int \<Rightarrow> string + task_queue" where
  "new_queue capacity =
     (if capacity < 1
      then Inl (''queue: capacity must be a positive integer (got '' @ show_int capacity @ '')'')
      else Inr \<lparr>tq_levels = \<lambda>_. [], tq_running = 0, tq_seq = 0, tq_capacity = nat capacity\<rparr>)"

definition tq_queued :: "task_queue \<Rightarrow> nat" where
  "tq_queued q = length (tq_levels q PHigh) + length (tq_levels q PNormal) + length (tq_levels q PLow)"

definition saturationLimit :: "task_queue \<Rightarrow> nat" where
  "saturationLimit q = tq_capacity q * SATURATION_FACTOR"

definition task_id :: "string \<Rightarrow> nat \<Rightarrow> string" where
  "task_id nonce n = nonce @ ''-'' @ show_nat n"

definition make_task :: "string \<Rightarrow> int \<Rightarrow> task_request \<Rightarrow> nat \<Rightarrow> queued_task" where
  "make_task nonce now req n =
     \<lparr>qt_id = task_id nonce n, qt_op = tk_op req, qt_payload = tk_payload req,
      qt_priority = normalizePriority (tk_priority req),
      qt_deadlineMs = clampDeadline (tk_deadlineMs req), qt_submittedAt = now\<rparr>"

definition push_task :: "queued_task \<Rightarrow> task_queue \<Rightarrow> task_queue" where
  "push_task t q =
     q\<lparr>tq_levels := (tq_levels q)(qt_priority t := tq_levels q (qt_priority t) @ [t])\<rparr>"

definition submit :: "string \<Rightarrow> int \<Rightarrow> task_request \<Rightarrow> task_queue \<Rightarrow> enqueue_outcome \<times> task_queue" where
  "submit nonce now req q =
     (if saturationLimit q \<le> tq_queued q + tq_running q
      then (Saturated \<lparr>sat_queued = tq_queued q, sat_running = tq_running q,
                       sat_capacity = tq_capacity q\<rparr>, q)
      else
        let q1 = q\<lparr>tq_seq := Suc (tq_seq q)\<rparr>;
            task = make_task nonce now req (tq_seq q1)
        in (Admitted task, push_task task q1))"

fun take_first :: "priority list \<Rightarrow> task_queue \<Rightarrow> (queued_task \<times> task_queue) option" where
  "take_first [] q = None"
| "take_first (p # ps) q =
     (case tq_levels q p of
        t # ts \<Rightarrow> Some (t, q\<lparr>tq_levels := (tq_levels q)(p := ts), tq_running := Suc (tq_running q)\<rparr>)
      | [] \<Rightarrow> take_first ps q)"

definition take_task :: "task_queue \<Rightarrow> (queued_task \<times> task_queue) option" where
  "take_task q = take_first PRIORITIES q"

definition finish :: "task_queue \<Rightarrow> task_queue" where
  "finish q = (if 0 < tq_running q then q\<lparr>tq_running := tq_running q - 1\<rparr> else q)"

text \<open>What waits, in the order it will be served.\<close>

definition waiting_tasks :: "task_queue \<Rightarrow> queued_task list" where
  "waiting_tasks q = concat (map (tq_levels q) PRIORITIES)"

lemma waiting_tasks_levels:
  "waiting_tasks q = tq_levels q PHigh @ tq_levels q PNormal @ tq_levels q PLow"
  by (simp add: waiting_tasks_def PRIORITIES_def)

lemma length_waiting_tasks [simp]: "length (waiting_tasks q) = tq_queued q"
  by (simp add: waiting_tasks_levels tq_queued_def)

lemma waiting_tasks_frame [simp]:
  "waiting_tasks (q\<lparr>tq_running := n\<rparr>) = waiting_tasks q"
  "waiting_tasks (q\<lparr>tq_seq := n\<rparr>) = waiting_tasks q"
  by (simp_all add: waiting_tasks_def)

lemma tq_queued_frame [simp]:
  "tq_queued (q\<lparr>tq_running := n\<rparr>) = tq_queued q"
  "tq_queued (q\<lparr>tq_seq := n\<rparr>) = tq_queued q"
  by (simp_all add: tq_queued_def)

lemma mset_push_task: "mset (waiting_tasks (push_task t q)) = add_mset t (mset (waiting_tasks q))"
  by (cases "qt_priority t") (simp_all add: waiting_tasks_levels push_task_def)

lemma push_task_fields [simp]:
  "tq_running (push_task t q) = tq_running q" "tq_seq (push_task t q) = tq_seq q"
  "tq_capacity (push_task t q) = tq_capacity q"
  by (simp_all add: push_task_def)

lemma take_task_None: "take_task q = None \<longleftrightarrow> waiting_tasks q = []"
  by (simp add: take_task_def PRIORITIES_def waiting_tasks_levels split: list.splits)

lemma take_task_Some:
  "take_task q = Some (t, q') \<Longrightarrow>
     waiting_tasks q = t # waiting_tasks q' \<and> tq_running q' = Suc (tq_running q) \<and>
     tq_seq q' = tq_seq q \<and> tq_capacity q' = tq_capacity q"
  by (auto simp: take_task_def PRIORITIES_def waiting_tasks_levels split: list.splits)

lemma finish_fields [simp]:
  "waiting_tasks (finish q) = waiting_tasks q" "tq_seq (finish q) = tq_seq q"
  "tq_capacity (finish q) = tq_capacity q" "tq_running (finish q) = tq_running q - 1"
  "tq_queued (finish q) = tq_queued q"
  by (simp_all add: finish_def)

text \<open>Ids are distinct: the nonce is fixed and the counter prints injectively.\<close>

lemma task_id_inj [simp]: "task_id nonce m = task_id nonce n \<longleftrightarrow> m = n"
  by (simp add: task_id_def show_base_inj)

lemma submit_Admitted:
  "submit nonce now req q = (Admitted t, q') \<longleftrightarrow>
     tq_queued q + tq_running q < saturationLimit q \<and> t = make_task nonce now req (Suc (tq_seq q)) \<and>
     q' = push_task t (q\<lparr>tq_seq := Suc (tq_seq q)\<rparr>)"
  by (auto simp: submit_def Let_def)

lemma submit_Saturated:
  "submit nonce now req q = (Saturated r, q') \<longleftrightarrow>
     saturationLimit q \<le> tq_queued q + tq_running q \<and> q' = q \<and>
     r = \<lparr>sat_queued = tq_queued q, sat_running = tq_running q, sat_capacity = tq_capacity q\<rparr>"
  by (auto simp: submit_def Let_def)

section \<open>The contract the pool relies on\<close>

text \<open>
  A scheduler with slots: \<open>waiting\<close> is the list of tasks not yet taken, \<open>slots\<close> the tasks taken and not
  finished, \<open>limit\<close> their bound. Whoever drives it by these three operations never exceeds the limit
  and never loses a task.
\<close>

locale slot_scheduler =
  fixes put :: "'r \<Rightarrow> 'q \<Rightarrow> ('t + 'x) \<times> 'q"
    and pop :: "'q \<Rightarrow> ('t \<times> 'q) option"
    and done_one :: "'q \<Rightarrow> 'q"
    and pending :: "'q \<Rightarrow> 't list"
    and slots :: "'q \<Rightarrow> nat"
    and limit :: "'q \<Rightarrow> nat"
  assumes put_ok: "put r q = (Inl t, q') \<Longrightarrow>
      length (pending q) + slots q < limit q \<and> mset (pending q') = add_mset t (mset (pending q)) \<and>
      slots q' = slots q \<and> limit q' = limit q"
    and put_full: "put r q = (Inr x, q') \<Longrightarrow> limit q \<le> length (pending q) + slots q \<and> q' = q"
    and pop_ok: "pop q = Some (t, q') \<Longrightarrow>
      pending q = t # pending q' \<and> slots q' = Suc (slots q) \<and> limit q' = limit q"
    and pop_empty: "pop q = None \<Longrightarrow> pending q = []"
    and done_ok: "pending (done_one q) = pending q \<and> slots (done_one q) = slots q - 1 \<and>
      limit (done_one q) = limit q"
begin

definition bounded :: "'q \<Rightarrow> bool" where
  "bounded q \<longleftrightarrow> length (pending q) + slots q \<le> limit q"

lemma put_bounded:
  assumes "put r q = (y, q')" and "bounded q"
  shows "bounded q'"
proof (cases y)
  case (Inl t)
  with assms put_ok [of r q t q'] have "mset (pending q') = add_mset t (mset (pending q))" by simp
  then have "length (pending q') = Suc (length (pending q))"
    by (metis size_add_mset size_mset)
  with Inl assms put_ok [of r q t q'] show ?thesis by (simp add: bounded_def)
next
  case (Inr x)
  with assms put_full [of r q x q'] show ?thesis by simp
qed

lemma pop_bounded: "pop q = Some (t, q') \<Longrightarrow> bounded q \<Longrightarrow> bounded q'"
  using pop_ok [of q t q'] by (auto simp: bounded_def)

lemma done_bounded: "bounded q \<Longrightarrow> bounded (done_one q)"
  using done_ok [of q] by (auto simp: bounded_def)

lemma refused_iff_full: "(\<exists>x q'. put r q = (Inr x, q')) \<longleftrightarrow> limit q \<le> length (pending q) + slots q"
proof (cases "put r q")
  case (Pair y q')
  show ?thesis
  proof (cases y)
    case (Inl t)
    with Pair put_ok [of r q t q'] show ?thesis by auto
  next
    case (Inr x)
    with Pair put_full [of r q x q'] show ?thesis by auto
  qed
qed

end

text \<open>The outcome of the source's \<open>submit\<close> in the shape of the contract.\<close>

definition put_task :: "string \<Rightarrow> int \<times> task_request \<Rightarrow> task_queue \<Rightarrow> (queued_task + saturation) \<times> task_queue" where
  "put_task nonce r q =
     (case submit nonce (fst r) (snd r) q of
        (Admitted t, q') \<Rightarrow> (Inl t, q')
      | (Saturated x, q') \<Rightarrow> (Inr x, q'))"

lemma saturationLimit_frame [simp]:
  "saturationLimit (push_task t q) = saturationLimit q" "saturationLimit (finish q) = saturationLimit q"
  "saturationLimit (q\<lparr>tq_seq := n\<rparr>) = saturationLimit q"
  by (simp_all add: saturationLimit_def)

interpretation rq: slot_scheduler "put_task nonce" take_task finish waiting_tasks tq_running saturationLimit
proof unfold_locales
  fix r q t q'
  assume "put_task nonce r q = (Inl t, q')"
  then have "submit nonce (fst r) (snd r) q = (Admitted t, q')"
    by (auto simp: put_task_def split: prod.splits enqueue_outcome.splits)
  then show "length (waiting_tasks q) + tq_running q < saturationLimit q \<and>
      mset (waiting_tasks q') = add_mset t (mset (waiting_tasks q)) \<and>
      tq_running q' = tq_running q \<and> saturationLimit q' = saturationLimit q"
    by (auto simp: submit_Admitted mset_push_task)
next
  fix r q x q'
  assume "put_task nonce r q = (Inr x, q')"
  then have "submit nonce (fst r) (snd r) q = (Saturated x, q')"
    by (auto simp: put_task_def split: prod.splits enqueue_outcome.splits)
  then show "saturationLimit q \<le> length (waiting_tasks q) + tq_running q \<and> q' = q"
    by (auto simp: submit_Saturated)
next
  fix q t q'
  assume "take_task q = Some (t, q')"
  then show "waiting_tasks q = t # waiting_tasks q' \<and> tq_running q' = Suc (tq_running q) \<and>
      saturationLimit q' = saturationLimit q"
    using take_task_Some [of q t q'] by (simp add: saturationLimit_def)
qed (simp_all add: take_task_None)

section \<open>Refinement: a list in arrival order\<close>

text \<open>The abstract queue is the list of waiting tasks in order of arrival. Serving takes out the task
  that no other task beats: those before it have a worse priority, those after it none better.\<close>

definition arrivals_of :: "queued_task list \<Rightarrow> task_queue \<Rightarrow> bool" where
  "arrivals_of xs q \<longleftrightarrow> (\<forall>p. tq_levels q p = filter (\<lambda>t. qt_priority t = p) xs)"

definition served_from :: "queued_task list \<Rightarrow> queued_task \<Rightarrow> queued_task list \<Rightarrow> bool" where
  "served_from xs t xs' \<longleftrightarrow>
     (\<exists>ys zs. xs = ys @ t # zs \<and> xs' = ys @ zs \<and> (\<forall>y\<in>set ys. qt_priority t < qt_priority y) \<and>
              (\<forall>z\<in>set zs. qt_priority t \<le> qt_priority z))"

lemma serve_level:
  assumes first: "filter (\<lambda>x. qt_priority x = p) xs = t # ts"
    and best: "\<forall>x\<in>set xs. p \<le> qt_priority x"
  shows "\<exists>xs'. served_from xs t xs' \<and> filter (\<lambda>x. qt_priority x = p) xs' = ts \<and>
    (\<forall>p'. p' \<noteq> p \<longrightarrow> filter (\<lambda>x. qt_priority x = p') xs' = filter (\<lambda>x. qt_priority x = p') xs)"
proof -
  obtain ys zs where xs: "xs = ys @ t # zs" and none: "\<forall>y\<in>set ys. qt_priority y \<noteq> p"
    and t: "qt_priority t = p" and ts: "ts = filter (\<lambda>x. qt_priority x = p) zs"
    using first by (auto simp: filter_eq_Cons_iff)
  have "p < qt_priority y" if "y \<in> set ys" for y
    using that best none xs by (auto simp: order_less_le)
  then have "served_from xs t (ys @ zs)"
    using best t by (auto simp: served_from_def xs)
  moreover have "filter (\<lambda>x. qt_priority x = p) (ys @ zs) = ts"
    using none ts by (simp add: filter_empty_conv)
  ultimately show ?thesis using t by (auto simp: xs)
qed

lemma arrivals_push: "arrivals_of xs q \<Longrightarrow> arrivals_of (xs @ [t]) (push_task t (q\<lparr>tq_seq := n\<rparr>))"
  by (simp add: arrivals_of_def push_task_def)

lemma arrivals_take_level:
  assumes R: "arrivals_of xs q" and lev: "tq_levels q p = t # ts"
    and better: "\<forall>p'. p' < p \<longrightarrow> tq_levels q p' = []"
  shows "\<exists>xs'. served_from xs t xs' \<and>
    arrivals_of xs' (q\<lparr>tq_levels := (tq_levels q)(p := ts), tq_running := n\<rparr>)"
proof -
  have first: "filter (\<lambda>x. qt_priority x = p) xs = t # ts"
    using R lev by (simp add: arrivals_of_def)
  have best: "\<forall>x\<in>set xs. p \<le> qt_priority x"
  proof
    fix x
    assume x: "x \<in> set xs"
    then have "tq_levels q (qt_priority x) \<noteq> []"
      using R by (auto simp: arrivals_of_def filter_empty_conv)
    then show "p \<le> qt_priority x" using better by (meson not_le)
  qed
  obtain xs' where "served_from xs t xs'" and "filter (\<lambda>x. qt_priority x = p) xs' = ts"
    and "\<forall>p'. p' \<noteq> p \<longrightarrow> filter (\<lambda>x. qt_priority x = p') xs' = filter (\<lambda>x. qt_priority x = p') xs"
    using serve_level [OF first best] by blast
  then show ?thesis using R by (auto simp: arrivals_of_def intro!: exI [of _ xs'])
qed

lemma arrivals_take:
  assumes R: "arrivals_of xs q" and take: "take_task q = Some (t, q')"
  shows "\<exists>xs'. served_from xs t xs' \<and> arrivals_of xs' q'"
proof -
  obtain p ts where "tq_levels q p = t # ts"
    and "q' = q\<lparr>tq_levels := (tq_levels q)(p := ts), tq_running := Suc (tq_running q)\<rparr>"
    and "\<forall>p'. p' < p \<longrightarrow> tq_levels q p' = []"
    using take by (auto simp: take_task_def PRIORITIES_def split: list.splits)
  with arrivals_take_level [OF R] show ?thesis by simp
qed

lemma arrivals_empty: "arrivals_of xs q \<Longrightarrow> waiting_tasks q = [] \<Longrightarrow> xs = []"
proof (rule ccontr)
  assume R: "arrivals_of xs q" and e: "waiting_tasks q = []" and "xs \<noteq> []"
  then obtain x where x: "x \<in> set xs" by (cases xs) auto
  from e have "tq_levels q (qt_priority x) = []"
    by (cases "qt_priority x") (simp_all add: waiting_tasks_levels)
  with R x show False by (auto simp: arrivals_of_def filter_empty_conv)
qed

lemma arrivals_length: "arrivals_of xs q \<Longrightarrow> tq_queued q = length xs"
proof -
  have "length (filter (\<lambda>t. qt_priority t = PHigh) xs) + length (filter (\<lambda>t. qt_priority t = PNormal) xs)
      + length (filter (\<lambda>t. qt_priority t = PLow) xs) = length xs"
  proof (induction xs)
    case (Cons x xs)
    then show ?case by (cases "qt_priority x") simp_all
  qed simp
  then show "arrivals_of xs q \<Longrightarrow> tq_queued q = length xs"
    by (simp add: arrivals_of_def tq_queued_def)
qed

text \<open>(C20) The queue of the source refines the list in arrival order: a task is admitted exactly below the
  saturation limit and then arrives last, a refusal changes nothing, what \<open>take\<close> returns is the task
  no other one beats, and it returns nothing only when nothing waits.\<close>

theorem queue_refines_arrivals:
  assumes R: "arrivals_of xs q"
  shows "(case submit nonce now req q of
        (Admitted t, q') \<Rightarrow> length xs + tq_running q < saturationLimit q \<and> arrivals_of (xs @ [t]) q'
      | (Saturated r, q') \<Rightarrow> saturationLimit q \<le> length xs + tq_running q \<and> q' = q)
    \<and> (case take_task q of
        None \<Rightarrow> xs = []
      | Some (t, q') \<Rightarrow> \<exists>xs'. served_from xs t xs' \<and> arrivals_of xs' q')"
proof
  show "case submit nonce now req q of
        (Admitted t, q') \<Rightarrow> length xs + tq_running q < saturationLimit q \<and> arrivals_of (xs @ [t]) q'
      | (Saturated r, q') \<Rightarrow> saturationLimit q \<le> length xs + tq_running q \<and> q' = q"
    using arrivals_push [OF R] arrivals_length [OF R]
    by (auto simp: submit_Admitted submit_Saturated split: prod.split enqueue_outcome.split)
  show "case take_task q of
        None \<Rightarrow> xs = []
      | Some (t, q') \<Rightarrow> \<exists>xs'. served_from xs t xs' \<and> arrivals_of xs' q'"
    using arrivals_take [OF R] arrivals_empty [OF R]
    by (auto simp: take_task_None split: option.split)
qed

text \<open>A queue with a low task before a high one.\<close>

definition sample_task :: "nat \<Rightarrow> string \<Rightarrow> queued_task" where
  "sample_task n level =
     make_task ''n'' 0
       \<lparr>tk_op = ''omega.echo.ping@1'', tk_payload = JNull, tk_priority = JStr level, tk_deadlineMs = JUndefined\<rparr> n"

lemma queue_refines_arrivals_witness:
  "\<exists>xs'. served_from [sample_task 1 ''low'', sample_task 2 ''high''] (sample_task 2 ''high'') xs'"
proof -
  let ?xs = "[sample_task 1 ''low'', sample_task 2 ''high'']"
  let ?q = "\<lparr>tq_levels = (\<lambda>p. filter (\<lambda>t. qt_priority t = p) ?xs), tq_running = 0, tq_seq = 2,
    tq_capacity = 1\<rparr>"
  have "arrivals_of ?xs ?q" by (simp add: arrivals_of_def)
  then have "case take_task ?q of
      None \<Rightarrow> ?xs = []
    | Some (t, q') \<Rightarrow> \<exists>xs'. served_from ?xs t xs' \<and> arrivals_of xs' q'"
    by (rule queue_refines_arrivals [THEN conjunct2])
  moreover have "\<exists>q'. take_task ?q = Some (sample_task 2 ''high'', q')"
    by (simp add: take_task_def PRIORITIES_def sample_task_def make_task_def normalizePriority_def)
  ultimately show ?thesis by auto
qed

end
