(* ===== verification/Run_Pool.thy ===== *)
theory Run_Pool
  imports Run_Queue
begin

text \<open>
  The bounded executor of the run plugin (\<open>plugins/vivim-run/src/pool.ts\<close>). A task that has been taken
  from the queue runs up to its \<open>await\<close>; what the await holds is an entry of \<open>tp_inflight\<close>, and the
  answer of the port call is an event. \<open>execute\<close> and \<open>pump\<close> call each other: \<open>pump_n\<close> carries fuel, and
  one more than the number of waiting tasks is always enough (\<open>pump_fuel\<close>). The clock is a
  parameter read as often as the source reads it; promises are the list \<open>tp_settled\<close>.
\<close>

section \<open>Results\<close>

datatype task_status = StatusOk | StatusTimeout | StatusError

record task_result =
  tr_taskId :: string
  tr_op :: string
  tr_priority :: priority
  tr_status :: task_status
  tr_freshness :: freshness
  tr_result :: port_result
  tr_deadlineMs :: int
  tr_queuedMs :: int
  tr_execMs :: int
  tr_totalMs :: int

text \<open>\<open>remaining > deadlineMs / 2\<close> over the rationals, without the division.\<close>

definition freshnessFor :: "int \<Rightarrow> int \<Rightarrow> freshness" where
  "freshnessFor deadlineMs elapsedMs =
     (let remaining = deadlineMs - elapsedMs in
      if deadlineMs < 2 * remaining then CURRENT
      else if 0 < remaining then LAGGING
      else STALE)"

fun statusFor :: "port_result \<Rightarrow> task_status" where
  "statusFor (POk _ _ _) = StatusOk"
| "statusFor (PErr e _ _) = (if e = BUDGET then StatusTimeout else StatusError)"

text \<open>\<open>String(v)\<close> of a value.\<close>

fun js_string :: "json \<Rightarrow> string" where
  "js_string JUndefined = ''undefined''"
| "js_string JNull = ''null''"
| "js_string (JBool b) = show_bool b"
| "js_string (JNum i) = show_int i"
| "js_string (JStr s) = s"
| "js_string (JArr xs) =
     join_with '','' (map (\<lambda>x. if x = JNull \<or> x = JUndefined then [] else js_string x) xs)"
| "js_string (JObj _) = ''[object Object]''"

section \<open>The pool\<close>

record inflight_task =
  if_task :: queued_task
  if_queuedMs :: int
  if_start :: int

record task_pool =
  tp_queue :: task_queue
  tp_capacity :: nat
  tp_resolvers :: "string list"
  tp_completed :: nat
  tp_ok :: nat
  tp_timeouts :: nat
  tp_errors :: nat
  tp_rejected :: nat
  tp_inflight :: "inflight_task list"
  tp_settled :: "(string \<times> task_result) list"
  tp_calls :: "(string \<times> json \<times> int) list"
  tp_reads :: nat
  tp_log :: "string list"

text \<open>What the pool is run with: the boot nonce, the readings of the clock, and which port calls throw
  before they return a promise.\<close>

record run_env =
  re_nonce :: string
  re_clock :: "nat \<Rightarrow> int"
  re_throws :: "string \<Rightarrow> json \<Rightarrow> string option"

definition new_pool :: "int \<Rightarrow> string + task_pool" where
  "new_pool capacity =
     res_bind (new_queue capacity) (\<lambda>q.
       Inr \<lparr>tp_queue = q, tp_capacity = nat capacity, tp_resolvers = [], tp_completed = 0, tp_ok = 0,
            tp_timeouts = 0, tp_errors = 0, tp_rejected = 0, tp_inflight = [], tp_settled = [],
            tp_calls = [], tp_reads = 0, tp_log = []\<rparr>)"

record pool_stats =
  ps_capacity :: nat
  ps_queued :: nat
  ps_running :: nat
  ps_completed :: nat
  ps_ok :: nat
  ps_timeouts :: nat
  ps_errors :: nat
  ps_rejected :: nat

definition pool_stats_of :: "task_pool \<Rightarrow> pool_stats" where
  "pool_stats_of s =
     \<lparr>ps_capacity = tp_capacity s, ps_queued = tq_queued (tp_queue s),
      ps_running = tq_running (tp_queue s), ps_completed = tp_completed s, ps_ok = tp_ok s,
      ps_timeouts = tp_timeouts s, ps_errors = tp_errors s, ps_rejected = tp_rejected s\<rparr>"

definition read_clock :: "run_env \<Rightarrow> task_pool \<Rightarrow> int \<times> task_pool" where
  "read_clock e s = (re_clock e (tp_reads s), s\<lparr>tp_reads := Suc (tp_reads s)\<rparr>)"

text \<open>The end of \<open>execute\<close>, from the two clock readings to the call of the resolver.\<close>

definition count_status :: "task_status \<Rightarrow> task_pool \<Rightarrow> task_pool" where
  "count_status st s =
     (let s1 = s\<lparr>tp_completed := tp_completed s + 1\<rparr> in
      case st of
        StatusOk \<Rightarrow> s1\<lparr>tp_ok := tp_ok s1 + 1\<rparr>
      | StatusTimeout \<Rightarrow> s1\<lparr>tp_timeouts := tp_timeouts s1 + 1\<rparr>
      | StatusError \<Rightarrow> s1\<lparr>tp_errors := tp_errors s1 + 1\<rparr>)"

definition result_of :: "queued_task \<Rightarrow> int \<Rightarrow> int \<Rightarrow> int \<Rightarrow> port_result \<Rightarrow> task_result" where
  "result_of t queuedMs execMs totalMs r =
     \<lparr>tr_taskId = qt_id t, tr_op = qt_op t, tr_priority = qt_priority t, tr_status = statusFor r,
      tr_freshness = freshnessFor (qt_deadlineMs t) totalMs, tr_result = r,
      tr_deadlineMs = qt_deadlineMs t, tr_queuedMs = queuedMs, tr_execMs = execMs,
      tr_totalMs = totalMs\<rparr>"

definition resolve_task :: "string \<Rightarrow> task_result \<Rightarrow> task_pool \<Rightarrow> task_pool" where
  "resolve_task i r s =
     (let s1 = s\<lparr>tp_resolvers := set_del i (tp_resolvers s)\<rparr> in
      if i \<in> set (tp_resolvers s) then s1\<lparr>tp_settled := tp_settled s @ [(i, r)]\<rparr> else s1)"

definition settle_task :: "run_env \<Rightarrow> queued_task \<Rightarrow> int \<Rightarrow> int \<Rightarrow> port_result \<Rightarrow> task_pool \<Rightarrow> task_pool" where
  "settle_task e t queuedMs start r s =
     (let (t1, s1) = read_clock e s;
          (t2, s2) = read_clock e s1;
          s3 = count_status (statusFor r) s2;
          s4 = s3\<lparr>tp_queue := finish (tp_queue s3)\<rparr>
      in resolve_task (qt_id t) (result_of t queuedMs (t1 - start) (t2 - qt_submittedAt t) r) s4)"

definition expired_detail :: "queued_task \<Rightarrow> int \<Rightarrow> string" where
  "expired_detail t queuedMs =
     ''run: task deadline '' @ show_int (qt_deadlineMs t) @ ''ms expired while queued (waited '' @
     show_int queuedMs @ ''ms)''"

definition threw_detail :: "queued_task \<Rightarrow> string \<Rightarrow> string" where
  "threw_detail t err = ''run: port call threw for '' @ qt_op t @ '': '' @ err"

text \<open>\<open>execute\<close> up to its await; \<open>k\<close> is the \<open>pump\<close> at its end, which runs at once when nothing is
  awaited.\<close>

definition execute :: "(task_pool \<Rightarrow> task_pool) \<Rightarrow> run_env \<Rightarrow> queued_task \<Rightarrow> task_pool \<Rightarrow> task_pool" where
  "execute k e t s =
     (let (dequeueAt, s1) = read_clock e s;
          queuedMs = dequeueAt - qt_submittedAt t;
          remaining = qt_deadlineMs t - queuedMs;
          (start, s2) = read_clock e s1
      in if remaining \<le> 0
         then k (settle_task e t queuedMs start (err_detail BUDGET (expired_detail t queuedMs)) s2)
         else
           let s3 = s2\<lparr>tp_calls := tp_calls s2 @ [(qt_op t, qt_payload t, remaining)]\<rparr>
           in case re_throws e (qt_op t) (qt_payload t) of
                Some err \<Rightarrow> k (settle_task e t queuedMs start (err_detail DEGRADED (threw_detail t err)) s3)
              | None \<Rightarrow>
                  s3\<lparr>tp_inflight := tp_inflight s3 @
                       [\<lparr>if_task = t, if_queuedMs = queuedMs, if_start = start\<rparr>]\<rparr>)"

fun pump_n :: "nat \<Rightarrow> run_env \<Rightarrow> task_pool \<Rightarrow> task_pool" where
  "pump_n 0 e s = s"
| "pump_n (Suc n) e s =
     (if tq_running (tp_queue s) < tp_capacity s
      then case take_task (tp_queue s) of
             None \<Rightarrow> s
           | Some (t, q) \<Rightarrow> pump_n n e (execute (pump_n n e) e t (s\<lparr>tp_queue := q\<rparr>))
      else s)"

definition pump :: "run_env \<Rightarrow> task_pool \<Rightarrow> task_pool" where
  "pump e s = pump_n (Suc (tq_queued (tp_queue s))) e s"

text \<open>What \<open>submit\<close> hands back: a settled promise (refused requests, saturation) or the promise of the
  task with this id.\<close>

datatype submit_outcome = Settled task_result | Refused saturation | Promised string

definition op_text :: "json \<Rightarrow> string" where
  "op_text r = (let v = json_field r ''op'' in if v = JNull \<or> v = JUndefined then [] else js_string v)"

definition invalid_result :: "json \<Rightarrow> task_result" where
  "invalid_result r =
     \<lparr>tr_taskId = ''invalid'',
      tr_op = op_text r,
      tr_priority = normalizePriority (json_field r ''priority''), tr_status = StatusError,
      tr_freshness = STALE,
      tr_result = err_detail REFUSED (''run.submit: '' @ [CHR 0x27] @ ''op'' @ [CHR 0x27] @ '' must be a non-empty string''),
      tr_deadlineMs = 0, tr_queuedMs = 0, tr_execMs = 0, tr_totalMs = 0\<rparr>"

definition saturated_log :: "string \<Rightarrow> saturation \<Rightarrow> string" where
  "saturated_log op x =
     ''submit rejected (saturated): op='' @ op @ '' queued='' @ show_nat (sat_queued x) @ '' running='' @
     show_nat (sat_running x)"

definition pool_submit :: "run_env \<Rightarrow> json \<Rightarrow> task_pool \<Rightarrow> submit_outcome \<times> task_pool" where
  "pool_submit e r s =
     (case json_field r ''op'' of
        JStr op \<Rightarrow>
          if op = [] then (Settled (invalid_result r), s)
          else
            (case submit (re_nonce e) (re_clock e (tp_reads s))
                    \<lparr>tk_op = op, tk_payload = json_field r ''payload'', tk_priority = json_field r ''priority'',
                     tk_deadlineMs = JNum (clampDeadline (json_field r ''deadlineMs''))\<rparr> (tp_queue s) of
               (Saturated x, q) \<Rightarrow>
                 (Refused x, s\<lparr>tp_rejected := tp_rejected s + 1, tp_log := tp_log s @ [saturated_log op x]\<rparr>)
             | (Admitted t, q) \<Rightarrow>
                 (Promised (qt_id t),
                  pump e (s\<lparr>tp_queue := q, tp_reads := Suc (tp_reads s),
                            tp_resolvers := set_add (qt_id t) (tp_resolvers s)\<rparr>)))
      | _ \<Rightarrow> (Settled (invalid_result r), s))"

text \<open>The answer of a port call: the promise is rejected (\<open>Inl\<close>) or carries a result.\<close>

definition awaited_result :: "queued_task \<Rightarrow> string + port_result \<Rightarrow> port_result" where
  "awaited_result t a = (case a of Inl err \<Rightarrow> err_detail DEGRADED (threw_detail t err) | Inr r \<Rightarrow> r)"

definition pool_answer :: "run_env \<Rightarrow> string \<Rightarrow> string + port_result \<Rightarrow> task_pool \<Rightarrow> task_pool" where
  "pool_answer e i a s =
     (case find (\<lambda>x. qt_id (if_task x) = i) (tp_inflight s) of
        None \<Rightarrow> s
      | Some x \<Rightarrow>
          pump e (settle_task e (if_task x) (if_queuedMs x) (if_start x) (awaited_result (if_task x) a)
            (s\<lparr>tp_inflight := remove1 x (tp_inflight s)\<rparr>)))"

datatype pool_event = SubmitEv json | AnswerEv string "string + port_result"

fun pool_step :: "run_env \<Rightarrow> pool_event \<Rightarrow> task_pool \<Rightarrow> task_pool" where
  "pool_step e (SubmitEv r) s = snd (pool_submit e r s)"
| "pool_step e (AnswerEv i a) s = pool_answer e i a s"

definition run_pool :: "run_env \<Rightarrow> pool_event list \<Rightarrow> task_pool \<Rightarrow> task_pool" where
  "run_pool e evs s = fold (pool_step e) evs s"

section \<open>The plugin's own part (\<open>index.ts\<close>)\<close>

text \<open>The capacity comes from the signed configuration or from the number of processors; it is positive
  in both cases, so the constructor never throws. \<open>watchdogOutcome\<close> is what a caller gets when the
  task has not settled by its deadline and the slack.\<close>

definition SUBMIT_SLACK_MS :: int where "SUBMIT_SLACK_MS = 2000"

definition defaultCapacity :: "nat \<Rightarrow> int" where
  "defaultCapacity cpus = max 2 (int cpus div 2)"

definition init_capacity :: "nat \<Rightarrow> json \<Rightarrow> int" where
  "init_capacity cpus config =
     (case json_field config ''capacity'' of
        JNum raw \<Rightarrow> if 1 \<le> raw then raw else defaultCapacity cpus
      | _ \<Rightarrow> defaultCapacity cpus)"

lemma init_capacity_starts: "\<exists>s. new_pool (init_capacity cpus config) = Inr s"
  by (auto simp: init_capacity_def defaultCapacity_def new_pool_def new_queue_def res_bind_def
      split: json.split)

definition watchdog_detail :: "int \<Rightarrow> string" where
  "watchdog_detail deadlineMs =
     ''run.submit watchdog: task did not settle within deadline '' @ show_int deadlineMs @ ''ms + '' @
     show_int SUBMIT_SLACK_MS @ ''ms slack''"

definition watchdogOutcome :: "json \<Rightarrow> int \<Rightarrow> task_result" where
  "watchdogOutcome r deadlineMs =
     \<lparr>tr_taskId = ''watchdog'', tr_op = op_text r,
      tr_priority = normalizePriority (json_field r ''priority''), tr_status = StatusError,
      tr_freshness = STALE, tr_result = err_detail BUDGET (watchdog_detail deadlineMs),
      tr_deadlineMs = deadlineMs, tr_queuedMs = 0, tr_execMs = 0,
      tr_totalMs = deadlineMs + SUBMIT_SLACK_MS\<rparr>"

text \<open>\<open>run.submit@1\<close>: the pool's promise races the watchdog. \<open>settled\<close> is when the promise settles, counted
  from the submission, and with what.\<close>

definition run_submit :: "json \<Rightarrow> (int \<times> (task_result + saturation)) option \<Rightarrow> task_result + saturation" where
  "run_submit r settled =
     (let deadlineMs = clampDeadline (json_field r ''deadlineMs'');
          watchdog = Inl (watchdogOutcome r deadlineMs)
      in case settled of
           Some (t, outcome) \<Rightarrow> if t < deadlineMs + SUBMIT_SLACK_MS then outcome else watchdog
         | None \<Rightarrow> watchdog)"

section \<open>What the small operations touch\<close>

lemma read_clock_fields [simp]:
  "fst (read_clock e s) = re_clock e (tp_reads s)"
  "snd (read_clock e s) = s\<lparr>tp_reads := Suc (tp_reads s)\<rparr>"
  by (simp_all add: read_clock_def)

lemma count_status_fields [simp]:
  "tp_queue (count_status st s) = tp_queue s" "tp_capacity (count_status st s) = tp_capacity s"
  "tp_resolvers (count_status st s) = tp_resolvers s" "tp_inflight (count_status st s) = tp_inflight s"
  "tp_settled (count_status st s) = tp_settled s" "tp_calls (count_status st s) = tp_calls s"
  "tp_completed (count_status st s) = Suc (tp_completed s)" "tp_reads (count_status st s) = tp_reads s"
  "tp_ok (count_status st s) + tp_timeouts (count_status st s) + tp_errors (count_status st s) =
     Suc (tp_ok s + tp_timeouts s + tp_errors s)"
  "tp_rejected (count_status st s) = tp_rejected s"
  by (cases st; simp add: count_status_def Let_def)+

lemma resolve_task_fields [simp]:
  "tp_queue (resolve_task i r s) = tp_queue s" "tp_capacity (resolve_task i r s) = tp_capacity s"
  "tp_resolvers (resolve_task i r s) = set_del i (tp_resolvers s)"
  "tp_inflight (resolve_task i r s) = tp_inflight s" "tp_calls (resolve_task i r s) = tp_calls s"
  "tp_completed (resolve_task i r s) = tp_completed s" "tp_ok (resolve_task i r s) = tp_ok s"
  "tp_timeouts (resolve_task i r s) = tp_timeouts s" "tp_errors (resolve_task i r s) = tp_errors s"
  "tp_settled (resolve_task i r s) =
     (if i \<in> set (tp_resolvers s) then tp_settled s @ [(i, r)] else tp_settled s)"
  "tp_reads (resolve_task i r s) = tp_reads s" "tp_rejected (resolve_task i r s) = tp_rejected s"
  by (simp_all add: resolve_task_def Let_def)

lemma settle_task_fields [simp]:
  "tp_queue (settle_task e t w b r s) = finish (tp_queue s)"
  "tp_capacity (settle_task e t w b r s) = tp_capacity s"
  "tp_resolvers (settle_task e t w b r s) = set_del (qt_id t) (tp_resolvers s)"
  "tp_inflight (settle_task e t w b r s) = tp_inflight s"
  "tp_calls (settle_task e t w b r s) = tp_calls s"
  "tp_completed (settle_task e t w b r s) = Suc (tp_completed s)"
  "tp_ok (settle_task e t w b r s) + tp_timeouts (settle_task e t w b r s) +
     tp_errors (settle_task e t w b r s) = Suc (tp_ok s + tp_timeouts s + tp_errors s)"
  "tp_reads (settle_task e t w b r s) = Suc (Suc (tp_reads s))"
  "tp_rejected (settle_task e t w b r s) = tp_rejected s"
  by (simp_all add: settle_task_def read_clock_def Let_def)

lemma settle_task_settled:
  "tp_settled (settle_task e t w b r s) =
     (if qt_id t \<in> set (tp_resolvers s)
      then tp_settled s @ [(qt_id t,
        result_of t w (re_clock e (tp_reads s) - b) (re_clock e (Suc (tp_reads s)) - qt_submittedAt t) r)]
      else tp_settled s)"
  by (simp add: settle_task_def read_clock_def Let_def)

section \<open>What every operation keeps\<close>

text \<open>
  The interface between a property of pools and the code: \<open>P h\<close> holds of a pool whose task \<open>h\<close> has been
  taken and is neither awaited nor settled yet. A property kept by the seven moves below is kept by
  \<open>execute\<close>, \<open>pump\<close> and every event.
\<close>

abbreviation waited :: "run_env \<Rightarrow> queued_task \<Rightarrow> task_pool \<Rightarrow> int" where
  "waited e t s \<equiv> re_clock e (tp_reads s) - qt_submittedAt t"

abbreviation start_call :: "run_env \<Rightarrow> queued_task \<Rightarrow> task_pool \<Rightarrow> task_pool" where
  "start_call e t s \<equiv>
     s\<lparr>tp_reads := Suc (Suc (tp_reads s)),
       tp_calls := tp_calls s @ [(qt_op t, qt_payload t, qt_deadlineMs t - waited e t s)]\<rparr>"

locale pool_invariant =
  fixes e :: run_env
    and P :: "queued_task list \<Rightarrow> task_pool \<Rightarrow> bool"
  assumes take: "P [] s \<Longrightarrow> take_task (tp_queue s) = Some (t, q) \<Longrightarrow>
      tq_running (tp_queue s) < tp_capacity s \<Longrightarrow> P [t] (s\<lparr>tp_queue := q\<rparr>)"
    and expire: "P [t] s \<Longrightarrow> qt_deadlineMs t \<le> waited e t s \<Longrightarrow>
      P [] (settle_task e t (waited e t s) (re_clock e (Suc (tp_reads s)))
        (err_detail BUDGET (expired_detail t (waited e t s))) (s\<lparr>tp_reads := Suc (Suc (tp_reads s))\<rparr>))"
    and throw: "P [t] s \<Longrightarrow> waited e t s < qt_deadlineMs t \<Longrightarrow>
      P [] (settle_task e t (waited e t s) (re_clock e (Suc (tp_reads s)))
        (err_detail DEGRADED (threw_detail t err)) (start_call e t s))"
    and await: "P [t] s \<Longrightarrow> waited e t s < qt_deadlineMs t \<Longrightarrow>
      P [] ((start_call e t s)\<lparr>tp_inflight := tp_inflight s @
        [\<lparr>if_task = t, if_queuedMs = waited e t s, if_start = re_clock e (Suc (tp_reads s))\<rparr>]\<rparr>)"
    and admit: "P [] s \<Longrightarrow>
      submit (re_nonce e) (re_clock e (tp_reads s)) req (tp_queue s) = (Admitted t, q) \<Longrightarrow>
      P [] (s\<lparr>tp_queue := q, tp_reads := Suc (tp_reads s),
              tp_resolvers := set_add (qt_id t) (tp_resolvers s)\<rparr>)"
    and reject: "P [] s \<Longrightarrow> P [] (s\<lparr>tp_rejected := n, tp_log := l\<rparr>)"
    and answer: "P [] s \<Longrightarrow> x \<in> set (tp_inflight s) \<Longrightarrow>
      P [] (settle_task e (if_task x) (if_queuedMs x) (if_start x) r
        (s\<lparr>tp_inflight := remove1 x (tp_inflight s)\<rparr>))"
begin

lemma execute_keeps:
  assumes "P [t] s" and "\<And>s. P [] s \<Longrightarrow> P [] (k s)"
  shows "P [] (execute k e t s)"
  using assms expire throw await
  by (auto simp: execute_def read_clock_def Let_def not_le split: option.split)

lemma pump_n_keeps: "P [] s \<Longrightarrow> P [] (pump_n n e s)"
proof (induction n arbitrary: s)
  case (Suc n)
  show ?case
    using Suc.prems by (auto intro!: Suc.IH execute_keeps take split: option.split)
qed simp

lemma pump_keeps: "P [] s \<Longrightarrow> P [] (pump e s)"
  by (simp add: pump_def pump_n_keeps del: pump_n.simps)

lemma submit_keeps: "P [] s \<Longrightarrow> P [] (snd (pool_submit e r s))"
  by (auto simp: pool_submit_def intro!: pump_keeps admit reject
      split: json.split prod.split enqueue_outcome.split)

lemma answer_keeps: "P [] s \<Longrightarrow> P [] (pool_answer e i a s)"
  by (auto simp: pool_answer_def find_Some_iff intro!: pump_keeps answer split: option.split)

lemma step_keeps: "P [] s \<Longrightarrow> P [] (pool_step e ev s)"
  by (cases ev) (simp_all add: submit_keeps answer_keeps)

lemma run_keeps: "P [] s \<Longrightarrow> P [] (run_pool e evs s)"
  by (induction evs arbitrary: s) (simp_all add: run_pool_def step_keeps)

end

section \<open>The accounting invariant\<close>

text \<open>Every id handed out is waiting, held by a running task, or settled, exactly once; a resolver is
  kept for exactly the unsettled ones; slots and counters add up. \<open>h\<close> is the task that has been taken
  and is neither awaiting nor settled yet.\<close>

definition task_ids :: "queued_task list \<Rightarrow> task_pool \<Rightarrow> string list" where
  "task_ids h s = map qt_id h @ map qt_id (waiting_tasks (tp_queue s)) @
     map (\<lambda>x. qt_id (if_task x)) (tp_inflight s) @ map fst (tp_settled s)"

definition open_ids :: "queued_task list \<Rightarrow> task_pool \<Rightarrow> string set" where
  "open_ids h s = set (map qt_id h) \<union> set (map qt_id (waiting_tasks (tp_queue s))) \<union>
     set (map (\<lambda>x. qt_id (if_task x)) (tp_inflight s))"

definition handed_out :: "run_env \<Rightarrow> task_pool \<Rightarrow> string list" where
  "handed_out e s = map (task_id (re_nonce e)) [1..<Suc (tq_seq (tp_queue s))]"

definition pool_ok :: "run_env \<Rightarrow> queued_task list \<Rightarrow> task_pool \<Rightarrow> bool" where
  "pool_ok e h s \<longleftrightarrow>
     mset (task_ids h s) = mset (handed_out e s) \<and> set (tp_resolvers s) = open_ids h s \<and>
     0 < tp_capacity s \<and> tq_running (tp_queue s) = length h + length (tp_inflight s) \<and>
     tq_running (tp_queue s) \<le> tp_capacity s \<and> tq_capacity (tp_queue s) = tp_capacity s \<and>
     tq_queued (tp_queue s) + tq_running (tp_queue s) \<le> saturationLimit (tp_queue s) \<and>
     tp_completed s = length (tp_settled s) \<and>
     tp_ok s + tp_timeouts s + tp_errors s = tp_completed s"

lemma distinct_handed_out [simp]: "distinct (handed_out e s)"
  by (simp add: handed_out_def distinct_map inj_on_def)

lemma pool_ok_distinct: "pool_ok e h s \<Longrightarrow> distinct (task_ids h s)"
  unfolding pool_ok_def using distinct_handed_out mset_eq_imp_distinct_iff by blast

lemma settle_ok:
  assumes ok: "pool_ok e (t # h) s"
  shows "pool_ok e h (settle_task e t w b r s)"
proof -
  have new: "qt_id t \<notin> open_ids h s"
    using pool_ok_distinct [OF ok] by (auto simp: task_ids_def open_ids_def)
  have opn: "open_ids (t # h) s = insert (qt_id t) (open_ids h s)"
    by (auto simp: open_ids_def)
  with ok have res: "set (tp_resolvers s) = insert (qt_id t) (open_ids h s)"
    by (simp add: pool_ok_def)
  let ?s = "settle_task e t w b r s"
  have "mset (task_ids h ?s) = mset (task_ids (t # h) s)"
    using res by (simp add: task_ids_def settle_task_settled)
  moreover have "open_ids h ?s = open_ids h s" by (simp add: open_ids_def)
  ultimately show ?thesis
    using ok res new opn by (simp add: pool_ok_def settle_task_settled handed_out_def)
qed

text \<open>Taking a task moves its id from the queue to the hand.\<close>

lemma take_ok:
  assumes ok: "pool_ok e [] s" and take: "take_task (tp_queue s) = Some (t, q)"
    and room: "tq_running (tp_queue s) < tp_capacity s"
  shows "pool_ok e [t] (s\<lparr>tp_queue := q\<rparr>)"
proof -
  have w: "waiting_tasks (tp_queue s) = t # waiting_tasks q" and q: "tq_running q = Suc (tq_running (tp_queue s))"
      "tq_seq q = tq_seq (tp_queue s)" "tq_capacity q = tq_capacity (tp_queue s)"
    using take_task_Some [OF take] by auto
  have "tq_queued (tp_queue s) = Suc (tq_queued q)"
    using w by (metis length_Cons length_waiting_tasks)
  then show ?thesis
    using ok room w q
    by (auto simp: pool_ok_def task_ids_def open_ids_def saturationLimit_def handed_out_def)
qed

lemma read_ok [simp]: "pool_ok e h (s\<lparr>tp_reads := n\<rparr>) = pool_ok e h s"
  by (simp add: pool_ok_def task_ids_def open_ids_def handed_out_def)

lemma call_ok [simp]: "pool_ok e h (s\<lparr>tp_calls := c\<rparr>) = pool_ok e h s"
  by (simp add: pool_ok_def task_ids_def open_ids_def handed_out_def)

lemma await_ok:
  "pool_ok e [if_task x] s \<Longrightarrow>
     pool_ok e [] (s\<lparr>tp_reads := n, tp_calls := c, tp_inflight := tp_inflight s @ [x]\<rparr>)"
  by (simp add: pool_ok_def task_ids_def open_ids_def handed_out_def Un_ac)

lemma new_pool_ok: "new_pool c = Inr s \<Longrightarrow> pool_ok e [] s"
  by (auto simp: new_pool_def new_queue_def res_bind_def pool_ok_def task_ids_def open_ids_def
      handed_out_def waiting_tasks_def tq_queued_def PRIORITIES_def split: if_splits)

lemma submit_admits:
  assumes ok: "pool_ok e [] s" and sub: "submit (re_nonce e) now req (tp_queue s) = (Admitted t, q)"
  shows "pool_ok e [] (s\<lparr>tp_queue := q, tp_reads := n, tp_resolvers := set_add (qt_id t) (tp_resolvers s)\<rparr>)"
proof -
  have t: "t = make_task (re_nonce e) now req (Suc (tq_seq (tp_queue s)))"
    and q: "q = push_task t (tp_queue s\<lparr>tq_seq := Suc (tq_seq (tp_queue s))\<rparr>)"
    and room: "tq_queued (tp_queue s) + tq_running (tp_queue s) < saturationLimit (tp_queue s)"
    using sub by (auto simp: submit_Admitted)
  have w: "mset (waiting_tasks q) = add_mset t (mset (waiting_tasks (tp_queue s)))"
    by (simp add: q mset_push_task)
  then have len: "tq_queued q = Suc (tq_queued (tp_queue s))"
    by (metis length_waiting_tasks size_add_mset size_mset)
  have "mset (map qt_id (waiting_tasks q)) = add_mset (qt_id t) (mset (map qt_id (waiting_tasks (tp_queue s))))"
    using w by (metis image_mset_add_mset mset_map)
  moreover have "set (waiting_tasks q) = insert t (set (waiting_tasks (tp_queue s)))"
    using w by (metis set_mset_add_mset_insert set_mset_mset)
  moreover have "qt_id t = task_id (re_nonce e) (Suc (tq_seq (tp_queue s)))"
    by (simp add: t make_task_def)
  ultimately show ?thesis
    using ok room len
    by (simp add: pool_ok_def task_ids_def open_ids_def handed_out_def q saturationLimit_def)
qed

lemma reject_ok [simp]: "pool_ok e h (s\<lparr>tp_rejected := n, tp_log := l\<rparr>) = pool_ok e h s"
  by (simp add: pool_ok_def task_ids_def open_ids_def handed_out_def)

lemma answer_holds:
  assumes ok: "pool_ok e [] s" and x: "x \<in> set (tp_inflight s)"
  shows "pool_ok e [if_task x] (s\<lparr>tp_inflight := remove1 x (tp_inflight s)\<rparr>)"
proof -
  have perm: "mset (tp_inflight s) = add_mset x (mset (remove1 x (tp_inflight s)))"
    using x by simp
  have "mset (map (\<lambda>x. qt_id (if_task x)) (tp_inflight s)) =
      add_mset (qt_id (if_task x)) (mset (map (\<lambda>x. qt_id (if_task x)) (remove1 x (tp_inflight s))))"
    using perm by (metis image_mset_add_mset mset_map)
  moreover have "set (tp_inflight s) = insert x (set (remove1 x (tp_inflight s)))"
    using perm by (metis set_mset_add_mset_insert set_mset_mset)
  moreover have "length (tp_inflight s) = Suc (length (remove1 x (tp_inflight s)))"
    using x by (metis length_remove1 One_nat_def Suc_pred length_pos_if_in_set)
  ultimately show ?thesis
    using ok by (simp add: pool_ok_def task_ids_def open_ids_def handed_out_def)
qed

interpretation accounts: pool_invariant e "pool_ok e"
  by unfold_locales (auto intro!: take_ok settle_ok await_ok submit_admits answer_holds)

end
