(* ===== verification/Run_Promises.thy ===== *)
theory Run_Promises
  imports Run_Pool
begin

text \<open>
  What the pool promises its callers: the fuel of \<open>pump\<close> is enough, no slot stays free while a task
  waits, every promise is kept once and the ones handed out are exactly the ones accounted for, and
  deadlines are measured from submission.
\<close>

section \<open>The fuel of the pump\<close>

abbreviation queued_in :: "task_pool \<Rightarrow> nat" where
  "queued_in s \<equiv> tq_queued (tp_queue s)"

lemma take_task_shorter: "take_task q = Some (t, q') \<Longrightarrow> tq_queued q = Suc (tq_queued q')"
  using take_task_Some [of q t q'] by (metis length_Cons length_waiting_tasks)

lemma execute_queued:
  assumes "\<And>s. queued_in (k s) \<le> queued_in s"
  shows "queued_in (execute k e t s) \<le> queued_in s"
  by (auto simp: execute_def read_clock_def Let_def intro!: le_trans [OF assms] split: option.split)

lemma pump_n_queued: "queued_in (pump_n n e s) \<le> queued_in s"
proof (induction n arbitrary: s)
  case (Suc n)
  have "queued_in (pump_n n e (execute (pump_n n e) e t (s\<lparr>tp_queue := q\<rparr>))) \<le> queued_in s"
    if "take_task (tp_queue s) = Some (t, q)" for t q
  proof -
    have "queued_in (execute (pump_n n e) e t (s\<lparr>tp_queue := q\<rparr>)) \<le> tq_queued q"
      using execute_queued [of "pump_n n e" e t "s\<lparr>tp_queue := q\<rparr>", OF Suc.IH] by simp
    with take_task_shorter [OF that] show ?thesis by (auto intro: le_trans [OF Suc.IH])
  qed
  then show ?case by (auto split: option.split)
qed simp

lemma execute_cong:
  assumes "\<And>s'. queued_in s' \<le> queued_in s \<Longrightarrow> k s' = k' s'"
  shows "execute k e t s = execute k' e t s"
  using assms by (auto simp: execute_def read_clock_def Let_def split: option.split)

lemma pump_fuel: "queued_in s < n \<Longrightarrow> queued_in s < m \<Longrightarrow> pump_n n e s = pump_n m e s"
proof (induction n arbitrary: m s)
  case (Suc n)
  obtain m' where m: "m = Suc m'" using Suc.prems(2) by (cases m) auto
  have "pump_n n e (execute (pump_n n e) e t (s\<lparr>tp_queue := q\<rparr>)) =
      pump_n m' e (execute (pump_n m' e) e t (s\<lparr>tp_queue := q\<rparr>))"
    if take: "take_task (tp_queue s) = Some (t, q)" for t q
  proof -
    let ?s = "s\<lparr>tp_queue := q\<rparr>"
    have less: "queued_in ?s < n" "queued_in ?s < m'"
      using take_task_shorter [OF take] Suc.prems m by auto
    have "execute (pump_n n e) e t ?s = execute (pump_n m' e) e t ?s"
      by (rule execute_cong) (use less in \<open>auto intro: Suc.IH\<close>)
    moreover have "queued_in (execute (pump_n m' e) e t ?s) \<le> queued_in ?s"
      by (rule execute_queued) (rule pump_n_queued)
    ultimately show ?thesis using less by (auto intro: Suc.IH)
  qed
  then show ?case by (auto simp: m split: option.split)
qed simp

section \<open>No slot stays free while a task waits\<close>

definition busy :: "task_pool \<Rightarrow> bool" where
  "busy s \<longleftrightarrow> waiting_tasks (tp_queue s) = [] \<or> tp_capacity s \<le> tq_running (tp_queue s)"

lemma pump_n_busy: "queued_in s < n \<Longrightarrow> busy (pump_n n e s)"
proof (induction n arbitrary: s)
  case (Suc n)
  have "busy (pump_n n e (execute (pump_n n e) e t (s\<lparr>tp_queue := q\<rparr>)))"
    if take: "take_task (tp_queue s) = Some (t, q)" for t q
  proof (rule Suc.IH)
    have "queued_in (execute (pump_n n e) e t (s\<lparr>tp_queue := q\<rparr>)) \<le> tq_queued q"
      using execute_queued [of "pump_n n e" e t "s\<lparr>tp_queue := q\<rparr>"] pump_n_queued by simp
    then show "queued_in (execute (pump_n n e) e t (s\<lparr>tp_queue := q\<rparr>)) < n"
      using take_task_shorter [OF take] Suc.prems by simp
  qed
  then show ?case by (auto simp: busy_def take_task_None split: option.split)
qed simp

lemma pump_busy: "busy (pump e s)"
  by (simp add: pump_def pump_n_busy del: pump_n.simps)

lemma step_busy: "busy s \<Longrightarrow> busy (pool_step e ev s)"
proof (cases ev)
  case (SubmitEv r)
  then show "busy s \<Longrightarrow> ?thesis"
    by (auto simp: pool_submit_def pump_busy split: json.split prod.split enqueue_outcome.split)
      (simp_all add: busy_def)
next
  case (AnswerEv i a)
  then show "busy s \<Longrightarrow> ?thesis"
    by (auto simp: pool_answer_def pump_busy split: option.split)
qed

lemma run_busy: "busy s \<Longrightarrow> busy (run_pool e evs s)"
  by (induction evs arbitrary: s) (simp_all add: run_pool_def step_busy)

section \<open>The promises handed out\<close>

fun promised_ids :: "run_env \<Rightarrow> pool_event list \<Rightarrow> task_pool \<Rightarrow> string list" where
  "promised_ids e [] s = []"
| "promised_ids e (ev # evs) s =
     (case ev of
        SubmitEv r \<Rightarrow> (case fst (pool_submit e r s) of Promised i \<Rightarrow> [i] | _ \<Rightarrow> [])
      | AnswerEv _ _ \<Rightarrow> []) @ promised_ids e evs (pool_step e ev s)"

abbreviation seq_of :: "task_pool \<Rightarrow> nat" where
  "seq_of s \<equiv> tq_seq (tp_queue s)"

lemma execute_seq:
  assumes "\<And>s. seq_of (k s) = seq_of s"
  shows "seq_of (execute k e t s) = seq_of s"
  using assms by (auto simp: execute_def read_clock_def Let_def split: option.split)

lemma pump_n_seq: "seq_of (pump_n n e s) = seq_of s"
proof (induction n arbitrary: s)
  case (Suc n)
  show ?case
    using Suc.IH execute_seq [of "pump_n n e", OF Suc.IH] take_task_Some
    by (auto split: option.split)
qed simp

lemma pump_seq [simp]: "seq_of (pump e s) = seq_of s"
  by (simp add: pump_def pump_n_seq del: pump_n.simps)

lemma step_handed_out:
  "handed_out e (pool_step e ev s) =
     handed_out e s @ (case ev of
        SubmitEv r \<Rightarrow> (case fst (pool_submit e r s) of Promised i \<Rightarrow> [i] | _ \<Rightarrow> [])
      | AnswerEv _ _ \<Rightarrow> [])"
proof (cases ev)
  case (SubmitEv r)
  then show ?thesis
    by (auto simp: pool_submit_def handed_out_def submit_Admitted submit_Saturated make_task_def
        split: json.split prod.split enqueue_outcome.split)
next
  case (AnswerEv i a)
  then show ?thesis by (auto simp: pool_answer_def handed_out_def split: option.split)
qed

lemma run_handed_out: "handed_out e (run_pool e evs s) = handed_out e s @ promised_ids e evs s"
proof (induction evs arbitrary: s)
  case (Cons ev evs)
  have "run_pool e (ev # evs) s = run_pool e evs (pool_step e ev s)" by (simp add: run_pool_def)
  then show ?case by (simp add: Cons.IH step_handed_out)
qed (simp add: run_pool_def)

section \<open>Deadlines\<close>

text \<open>What a caller can read off its result.\<close>

definition well_settled :: "task_result \<Rightarrow> bool" where
  "well_settled r \<longleftrightarrow>
     tr_status r = statusFor (tr_result r) \<and>
     tr_freshness r = freshnessFor (tr_deadlineMs r) (tr_totalMs r) \<and>
     (tr_deadlineMs r \<le> tr_queuedMs r \<longrightarrow> tr_status r = StatusTimeout \<and> tr_freshness r = STALE)"

definition in_time :: "task_result \<Rightarrow> bool" where
  "in_time r \<longleftrightarrow> tr_queuedMs r < tr_deadlineMs r"

definition timely :: "run_env \<Rightarrow> queued_task list \<Rightarrow> task_pool \<Rightarrow> bool" where
  "timely e h s \<longleftrightarrow>
     pool_ok e h s \<and>
     (\<forall>c\<in>set (tp_calls s). 0 < snd (snd c) \<and> snd (snd c) \<le> MAX_DEADLINE_MS) \<and>
     (\<forall>t\<in>set h \<union> set (waiting_tasks (tp_queue s)).
        MIN_DEADLINE_MS \<le> qt_deadlineMs t \<and> qt_deadlineMs t \<le> MAX_DEADLINE_MS \<and>
        qt_submittedAt t \<le> re_clock e (tp_reads s)) \<and>
     (\<forall>x\<in>set (tp_inflight s). if_queuedMs x < qt_deadlineMs (if_task x)) \<and>
     (\<forall>p\<in>set (tp_settled s). well_settled (snd p)) \<and>
     length (tp_calls s) = length (tp_inflight s) + length (filter (\<lambda>p. in_time (snd p)) (tp_settled s))"

lemma timely_ok: "timely e h s \<Longrightarrow> pool_ok e h s"
  by (simp add: timely_def)

lemma freshness_stale: "0 < d \<Longrightarrow> d \<le> t \<Longrightarrow> freshnessFor d t = STALE"
  by (simp add: freshnessFor_def Let_def)

lemma well_settled_called: "w < qt_deadlineMs t \<Longrightarrow> well_settled (result_of t w x y r)"
  by (simp add: well_settled_def result_of_def)

lemma well_settled_expired:
  assumes "0 < qt_deadlineMs t" and "qt_deadlineMs t \<le> y"
  shows "well_settled (result_of t w x y (PErr BUDGET d f))"
  using freshness_stale [OF assms] by (simp add: well_settled_def result_of_def)

lemma in_time_result [simp]: "in_time (result_of t w x y r) \<longleftrightarrow> w < qt_deadlineMs t"
  by (simp add: in_time_def result_of_def)

lemma held_resolver: "pool_ok e (t # h) s \<Longrightarrow> qt_id t \<in> set (tp_resolvers s)"
  by (simp add: pool_ok_def open_ids_def)

lemma inflight_resolver: "pool_ok e h s \<Longrightarrow> x \<in> set (tp_inflight s) \<Longrightarrow> qt_id (if_task x) \<in> set (tp_resolvers s)"
  by (auto simp: pool_ok_def open_ids_def)

lemma clock_later: "mono (re_clock e) \<Longrightarrow> t \<le> re_clock e m \<Longrightarrow> m \<le> n \<Longrightarrow> t \<le> re_clock e n"
  by (meson monoD order_trans)

lemma timely_take:
  assumes ok: "timely e [] s" and take: "take_task (tp_queue s) = Some (t, q)"
    and room: "tq_running (tp_queue s) < tp_capacity s"
  shows "timely e [t] (s\<lparr>tp_queue := q\<rparr>)"
  using ok take_ok [OF timely_ok [OF ok] take room] take_task_Some [OF take]
  by (auto simp: timely_def)

lemma timely_frame:
  assumes clock: "mono (re_clock e)" and ok: "timely e h s" and t: "t \<in> set h \<union> set (waiting_tasks (tp_queue s))"
    and n: "tp_reads s \<le> n"
  shows "MIN_DEADLINE_MS \<le> qt_deadlineMs t \<and> qt_deadlineMs t \<le> MAX_DEADLINE_MS \<and>
    qt_submittedAt t \<le> re_clock e n"
  using ok t clock_later [OF clock _ n, of "qt_submittedAt t"] by (simp add: timely_def)

lemma call_bound:
  "timely e [t] s \<Longrightarrow> qt_deadlineMs t - waited e t s \<le> MAX_DEADLINE_MS"
  by (auto simp: timely_def)

lemma timely_expire:
  assumes clock: "mono (re_clock e)" and ok: "timely e [t] s" and late: "qt_deadlineMs t \<le> waited e t s"
  shows "timely e [] (settle_task e t (waited e t s) (re_clock e (Suc (tp_reads s)))
    (err_detail BUDGET d) (s\<lparr>tp_reads := Suc (Suc (tp_reads s))\<rparr>))"
proof -
  let ?n = "Suc (Suc (tp_reads s))"
  have "0 < qt_deadlineMs t"
    using ok by (auto simp: timely_def MIN_DEADLINE_MS_def)
  moreover have "qt_deadlineMs t \<le> re_clock e (Suc ?n) - qt_submittedAt t"
    using late clock monoD [of "re_clock e" "tp_reads s" "Suc ?n"] by simp
  ultimately have "well_settled (result_of t w x (re_clock e (Suc ?n) - qt_submittedAt t) (err_detail BUDGET d))" for w x
    by (rule well_settled_expired)
  moreover have "pool_ok e [] (settle_task e t (waited e t s) (re_clock e (Suc (tp_reads s)))
      (err_detail BUDGET d) (s\<lparr>tp_reads := ?n\<rparr>))"
    using timely_ok [OF ok] by (intro settle_ok) simp
  ultimately show ?thesis
    using ok held_resolver [OF timely_ok [OF ok]] late timely_frame [OF clock ok]
    by (simp add: timely_def settle_task_settled)
qed

lemma timely_throw:
  assumes clock: "mono (re_clock e)" and ok: "timely e [t] s" and early: "waited e t s < qt_deadlineMs t"
  shows "timely e [] (settle_task e t (waited e t s) (re_clock e (Suc (tp_reads s)))
    r (start_call e t s))"
proof -
  have "pool_ok e [] (settle_task e t (waited e t s) (re_clock e (Suc (tp_reads s))) r (start_call e t s))"
    using timely_ok [OF ok] by (intro settle_ok) simp
  then show ?thesis
    using ok held_resolver [OF timely_ok [OF ok]] early timely_frame [OF clock ok]
      well_settled_called [OF early] call_bound [OF ok]
    by (auto simp: timely_def settle_task_settled)
qed

lemma timely_await:
  assumes clock: "mono (re_clock e)" and ok: "timely e [t] s" and early: "waited e t s < qt_deadlineMs t"
  shows "timely e [] ((start_call e t s)\<lparr>tp_inflight := tp_inflight s @
    [\<lparr>if_task = t, if_queuedMs = waited e t s, if_start = b\<rparr>]\<rparr>)"
  using ok early timely_frame [OF clock ok] call_bound [OF ok] await_ok [of e "\<lparr>if_task = t, if_queuedMs = waited e t s, if_start = b\<rparr>" s]
  by (auto simp: timely_def)

lemma submit_waiting:
  assumes "submit nonce now req q = (Admitted t, q')"
  shows "set (waiting_tasks q') = insert t (set (waiting_tasks q)) \<and> qt_submittedAt t = now \<and>
    MIN_DEADLINE_MS \<le> qt_deadlineMs t \<and> qt_deadlineMs t \<le> MAX_DEADLINE_MS"
proof -
  have "mset (waiting_tasks q') = add_mset t (mset (waiting_tasks q))"
    using assms by (auto simp: submit_Admitted mset_push_task)
  then have "set (waiting_tasks q') = insert t (set (waiting_tasks q))"
    by (metis set_mset_add_mset_insert set_mset_mset)
  then show ?thesis
    using assms clampDeadline_range by (auto simp: submit_Admitted make_task_def)
qed

lemma timely_admit:
  assumes clock: "mono (re_clock e)" and ok: "timely e [] s"
    and sub: "submit (re_nonce e) (re_clock e (tp_reads s)) req (tp_queue s) = (Admitted t, q)"
  shows "timely e [] (s\<lparr>tp_queue := q, tp_reads := Suc (tp_reads s),
    tp_resolvers := set_add (qt_id t) (tp_resolvers s)\<rparr>)"
  using ok submit_admits [OF timely_ok [OF ok] sub] submit_waiting [OF sub] timely_frame [OF clock ok]
    clock_later [OF clock order_refl, of "tp_reads s" "Suc (tp_reads s)"]
  by (auto simp: timely_def)

lemma timely_answer:
  assumes clock: "mono (re_clock e)" and ok: "timely e [] s" and x: "x \<in> set (tp_inflight s)"
  shows "timely e [] (settle_task e (if_task x) (if_queuedMs x) (if_start x) r
    (s\<lparr>tp_inflight := remove1 x (tp_inflight s)\<rparr>))"
proof -
  have early: "if_queuedMs x < qt_deadlineMs (if_task x)"
    using ok x by (simp add: timely_def)
  have "length (tp_inflight s) = Suc (length (remove1 x (tp_inflight s)))"
    using x by (metis length_remove1 One_nat_def Suc_pred length_pos_if_in_set)
  moreover have "set (remove1 x (tp_inflight s)) \<subseteq> set (tp_inflight s)"
    by (rule set_remove1_subset)
  ultimately show ?thesis
    using ok settle_ok [OF answer_holds [OF timely_ok [OF ok] x]] inflight_resolver [OF timely_ok [OF ok] x]
      well_settled_called [OF early] early timely_frame [OF clock ok]
    by (auto simp: timely_def settle_task_settled)
qed

lemma timely_reject: "timely e [] s \<Longrightarrow> timely e [] (s\<lparr>tp_rejected := n, tp_log := l\<rparr>)"
  by (simp add: timely_def)

lemma timely_invariant: "mono (re_clock e) \<Longrightarrow> pool_invariant e (timely e)"
  by unfold_locales
    (assumption | rule timely_take timely_expire timely_throw timely_await timely_admit timely_answer
      timely_reject)+

lemma new_pool_timely: "new_pool c = Inr s \<Longrightarrow> timely e [] s"
  using new_pool_ok [of c s e]
  by (auto simp: timely_def new_pool_def new_queue_def res_bind_def waiting_tasks_def PRIORITIES_def
      split: if_splits)

section \<open>The properties\<close>

lemma run_pool_accounts:
  assumes "new_pool c = Inr s0"
  shows "pool_ok e [] (run_pool e evs s0) \<and> busy (run_pool e evs s0) \<and>
    handed_out e (run_pool e evs s0) = promised_ids e evs s0"
proof -
  have "busy s0 \<and> handed_out e s0 = []"
    using assms by (auto simp: new_pool_def new_queue_def res_bind_def busy_def waiting_tasks_def
        PRIORITIES_def handed_out_def split: if_splits)
  then show ?thesis
    using accounts.run_keeps [OF new_pool_ok [OF assms]] run_busy run_handed_out by simp
qed

text \<open>(C18) Whatever is submitted and answered in whatever order, each promise handed out is accounted for
  exactly once: its task waits, awaits its port call, or is settled. No more than the capacity run,
  no more than four times the capacity are pending, a slot is free only when nothing waits, and the
  counters add up to the settled tasks.\<close>

theorem promises_accounted:
  assumes start: "new_pool c = Inr s0" and run: "s = run_pool e evs s0"
  shows "distinct (promised_ids e evs s0) \<and>
    mset (promised_ids e evs s0) =
      mset (map qt_id (waiting_tasks (tp_queue s))) +
      mset (map (\<lambda>x. qt_id (if_task x)) (tp_inflight s)) + mset (map fst (tp_settled s)) \<and>
    tq_running (tp_queue s) = length (tp_inflight s) \<and> length (tp_inflight s) \<le> tp_capacity s \<and>
    tq_queued (tp_queue s) + length (tp_inflight s) \<le> SATURATION_FACTOR * tp_capacity s \<and>
    (length (tp_inflight s) < tp_capacity s \<longrightarrow> waiting_tasks (tp_queue s) = []) \<and>
    length (tp_settled s) = tp_ok s + tp_timeouts s + tp_errors s"
proof -
  have ok: "pool_ok e [] s" and busy: "busy s" and ids: "handed_out e s = promised_ids e evs s0"
    using run_pool_accounts [OF start] by (auto simp: run)
  have "distinct (promised_ids e evs s0)"
    unfolding ids [symmetric] by simp
  then show ?thesis
    using ok busy unfolding ids [symmetric]
    by (auto simp: pool_ok_def task_ids_def busy_def saturationLimit_def mult.commute add.assoc
        simp del: mset_map)
qed

text \<open>(C21) Once the calls in flight have been answered nothing is left: every promise is settled and no
  resolver is kept.\<close>

theorem promises_settle:
  assumes start: "new_pool c = Inr s0" and run: "s = run_pool e evs s0" and idle: "tp_inflight s = []"
  shows "mset (map fst (tp_settled s)) = mset (promised_ids e evs s0) \<and> tp_resolvers s = []"
proof -
  have ok: "pool_ok e [] s" and busy: "busy s" and ids: "handed_out e s = promised_ids e evs s0"
    using run_pool_accounts [OF start] by (auto simp: run)
  have "waiting_tasks (tp_queue s) = []"
    using busy ok idle by (auto simp: busy_def pool_ok_def)
  then show ?thesis
    using ok idle unfolding ids [symmetric]
    by (simp add: pool_ok_def task_ids_def open_ids_def del: mset_map)
qed

text \<open>Deadlines count from submission: with a clock that does not run backwards, every port call gets a
  positive budget of at most a minute; a task whose deadline passed in the queue settles as a
  timeout, stale, without a call, and the calls made are those of the tasks taken in time.\<close>

theorem deadlines_from_submission:
  assumes start: "new_pool c = Inr s0" and clock: "mono (re_clock e)" and run: "s = run_pool e evs s0"
  shows "(\<forall>call\<in>set (tp_calls s). 0 < snd (snd call) \<and> snd (snd call) \<le> MAX_DEADLINE_MS) \<and>
    (\<forall>p\<in>set (tp_settled s). well_settled (snd p)) \<and>
    length (tp_calls s) = length (tp_inflight s) + length (filter (\<lambda>p. in_time (snd p)) (tp_settled s))"
  using pool_invariant.run_keeps [OF timely_invariant [OF clock] new_pool_timely [OF start], of evs]
  unfolding run timely_def by blast

section \<open>A run\<close>

text \<open>Two tasks on one slot, each clock reading two milliseconds after the last: the second one's deadline
  passes while it waits.\<close>

definition sample_run :: run_env where
  "sample_run = \<lparr>re_nonce = ''n'', re_clock = (\<lambda>k. 2 * int k), re_throws = (\<lambda>_ _. None)\<rparr>"

definition sample_pool :: task_pool where
  "sample_pool = projr (new_pool 1)"

definition sample_request :: json where
  "sample_request = JObj [(''op'', JStr ''omega.echo.ping@1''), (''payload'', JNum 1), (''deadlineMs'', JNum 6)]"

definition sample_events :: "pool_event list" where
  "sample_events =
     [SubmitEv sample_request, SubmitEv sample_request, SubmitEv (JStr ''no op''),
      AnswerEv ''n-1'' (Inr (ok_value JNull))]"

lemma sample_pool_new: "new_pool 1 = Inr sample_pool"
  by (simp add: sample_pool_def new_pool_def new_queue_def res_bind_def)

lemma sample_run_clock: "mono (re_clock sample_run)"
  by (simp add: sample_run_def mono_def)

lemma sample_run_state:
  "map (\<lambda>p. (fst p, tr_status (snd p), tr_freshness (snd p))) (tp_settled (run_pool sample_run sample_events sample_pool)) =
     [(''n-1'', StatusOk, STALE), (''n-2'', StatusTimeout, STALE)]"
  "tp_inflight (run_pool sample_run sample_events sample_pool) = []"
  "promised_ids sample_run sample_events sample_pool = [''n-1'', ''n-2'']"
  by code_simp+

lemma promises_accounted_witness:
  "distinct (promised_ids sample_run sample_events sample_pool) \<and>
    promised_ids sample_run sample_events sample_pool = [''n-1'', ''n-2'']"
  using promises_accounted [OF sample_pool_new refl, where e = sample_run and evs = sample_events] sample_run_state
  by simp

lemma promises_settle_witness:
  "mset (map fst (tp_settled (run_pool sample_run sample_events sample_pool))) = {#''n-1'', ''n-2''#}"
  using promises_settle [OF sample_pool_new refl, where e = sample_run and evs = sample_events] sample_run_state
  by simp

lemma deadlines_from_submission_witness:
  "length (tp_calls (run_pool sample_run sample_events sample_pool)) = 1"
proof -
  have "filter (\<lambda>p. in_time (snd p)) (tp_settled (run_pool sample_run sample_events sample_pool)) =
      take 1 (tp_settled (run_pool sample_run sample_events sample_pool))"
    by code_simp
  then show ?thesis
    using deadlines_from_submission [OF sample_pool_new sample_run_clock refl, where evs = sample_events]
      sample_run_state(2) arg_cong [OF sample_run_state(1), of length]
    by simp
qed

end
