(* ===== verification/Run_Health.thy ===== *)
theory Run_Health
  imports Port_Contracts
begin

text \<open>
  The health monitor of the run plugin (\<open>plugins/vivim-run/src/health.ts\<close>): a poll reads the statistics
  of every compartment, a window of three polls detects crash loops, a quarantine fires a terminate
  call and mutes the compartment for \<open>2 ^ n\<close> observations. The asynchronous replies are events. Details
  and reasons are constructors, one per message of the source; the clock is read as often as the
  source reads it.
\<close>

section \<open>State\<close>

record health_stats =
  hs_state :: string
  hs_delivered :: int
  hs_calls :: int
  hs_errors :: int
  hs_crashes :: int
  hs_inflight :: "int option"
  hs_bootedAt :: int
  hs_lastError :: "string option"

datatype quarantine_reason =
    FirstSight int
  | CrashLoop int int int
  | CrashPersistence int int

datatype health_detail =
    LoopStarted int
  | StatsFailed port_error_code "string option"
  | FirstSightCrashes int
  | CrashesRose int int string
  | Quarantining quarantine_reason
  | Rearmed "nat option"
  | Terminated nat
  | TerminateRefused port_error_code "string option"
  | TerminateThrew string

datatype health_event_type = EvStart | EvStatsError | EvCrashIncrement | EvQuarantine | EvTerminate | EvRearm

record health_event =
  he_at :: int
  he_type :: health_event_type
  he_pluginId :: "string option"
  he_detail :: health_detail

record quarantine_record =
  qr_pluginId :: string
  qr_at :: int
  qr_reason :: quarantine_reason

type_synonym stats_table = "(string \<times> health_stats option) list"

record monitor =
  hm_events :: "health_event list"
  hm_last :: "stats_table option"
  hm_quarantined :: "quarantine_record list"
  hm_crashWindows :: "(string, int list) jsmap"
  hm_stateWindows :: "(string, string list) jsmap"
  hm_quarantineCount :: "(string, nat) jsmap"
  hm_suppress :: "(string, nat) jsmap"
  hm_timer :: bool
  hm_busy :: bool
  hm_polls :: nat
  hm_intervalMs :: int
  hm_selfId :: string
  hm_terminates :: "(string \<times> nat) list"
  hm_pending :: "(string \<times> nat) list"
  hm_reads :: nat

definition DEFAULT_INTERVAL_MS :: int where "DEFAULT_INTERVAL_MS = 500"
definition WINDOW_POLLS :: nat where "WINDOW_POLLS = 3"
definition RING_MAX :: nat where "RING_MAX = 200"

definition new_monitor :: "int option \<Rightarrow> string option \<Rightarrow> monitor" where
  "new_monitor interval selfId =
     \<lparr>hm_events = [], hm_last = None, hm_quarantined = [], hm_crashWindows = [], hm_stateWindows = [],
      hm_quarantineCount = [], hm_suppress = [], hm_timer = False, hm_busy = False, hm_polls = 0,
      hm_intervalMs = (case interval of Some i \<Rightarrow> i | None \<Rightarrow> DEFAULT_INTERVAL_MS),
      hm_selfId = (case selfId of Some i \<Rightarrow> i | None \<Rightarrow> ''vivim.run''),
      hm_terminates = [], hm_pending = [], hm_reads = 0\<rparr>"

section \<open>Operations\<close>

text \<open>\<open>xs.splice(0, xs.length - n)\<close> when the array is longer than \<open>n\<close>.\<close>

definition keep_last :: "nat \<Rightarrow> 'a list \<Rightarrow> 'a list" where
  "keep_last n xs = drop (length xs - n) xs"

lemma keep_last_length [simp]: "length (keep_last n xs) = min n (length xs)"
  by (simp add: keep_last_def)

lemma keep_last_short [simp]: "length xs \<le> n \<Longrightarrow> keep_last n xs = xs"
  by (simp add: keep_last_def)

definition record_event ::
  "(nat \<Rightarrow> int) \<Rightarrow> health_event_type \<Rightarrow> string option \<Rightarrow> health_detail \<Rightarrow> monitor \<Rightarrow> monitor" where
  "record_event clk ty pid d m =
     m\<lparr>hm_events := keep_last RING_MAX (hm_events m @
         [\<lparr>he_at = clk (hm_reads m), he_type = ty, he_pluginId = pid, he_detail = d\<rparr>]),
       hm_reads := Suc (hm_reads m)\<rparr>"

definition resetWindows :: "string \<Rightarrow> monitor \<Rightarrow> monitor" where
  "resetWindows pid m =
     m\<lparr>hm_crashWindows := map_del pid (hm_crashWindows m),
       hm_stateWindows := map_del pid (hm_stateWindows m)\<rparr>"

definition quarantine_number :: "string \<Rightarrow> monitor \<Rightarrow> nat" where
  "quarantine_number pid m = (case map_get (hm_quarantineCount m) pid of Some n \<Rightarrow> n | None \<Rightarrow> 0)"

definition mark_quarantined :: "(nat \<Rightarrow> int) \<Rightarrow> string \<Rightarrow> quarantine_reason \<Rightarrow> nat \<Rightarrow> monitor \<Rightarrow> monitor" where
  "mark_quarantined clk pid reason n m =
     m\<lparr>hm_quarantineCount := map_set pid n (hm_quarantineCount m),
       hm_suppress := map_set pid (2 ^ n) (hm_suppress m),
       hm_quarantined := hm_quarantined m @
         [\<lparr>qr_pluginId = pid, qr_at = clk (hm_reads m), qr_reason = reason\<rparr>],
       hm_reads := Suc (hm_reads m)\<rparr>"

definition quarantine :: "(nat \<Rightarrow> int) \<Rightarrow> string \<Rightarrow> quarantine_reason \<Rightarrow> monitor \<Rightarrow> monitor" where
  "quarantine clk pid reason m =
     (let n = quarantine_number pid m + 1;
          m1 = resetWindows pid (mark_quarantined clk pid reason n m);
          m2 = record_event clk EvQuarantine (Some pid) (Quarantining reason) m1
      in m2\<lparr>hm_terminates := hm_terminates m2 @ [(pid, n)], hm_pending := hm_pending m2 @ [(pid, n)]\<rparr>)"

definition seen_before :: "string \<Rightarrow> monitor \<Rightarrow> bool" where
  "seen_before pid m \<longleftrightarrow> map_has (hm_crashWindows m) pid \<or> map_has (hm_stateWindows m) pid"

definition stuck :: "health_stats \<Rightarrow> bool" where
  "stuck s \<longleftrightarrow> hs_state s = ''degraded'' \<and> 1 \<le> hs_crashes s"

definition count_mute :: "(nat \<Rightarrow> int) \<Rightarrow> string \<Rightarrow> nat \<Rightarrow> monitor \<Rightarrow> monitor" where
  "count_mute clk pid muted m =
     (if muted \<le> 1
      then record_event clk EvRearm (Some pid)
             (Rearmed (map_option (\<lambda>n. 2 ^ n) (map_get (hm_quarantineCount m) pid)))
             (resetWindows pid (m\<lparr>hm_suppress := map_del pid (hm_suppress m)\<rparr>))
      else m\<lparr>hm_suppress := map_set pid (muted - 1) (hm_suppress m)\<rparr>)"

definition crash_window :: "string \<Rightarrow> monitor \<Rightarrow> int list" where
  "crash_window pid m = (case map_get (hm_crashWindows m) pid of Some w \<Rightarrow> w | None \<Rightarrow> [])"

definition state_window :: "string \<Rightarrow> monitor \<Rightarrow> string list" where
  "state_window pid m = (case map_get (hm_stateWindows m) pid of Some w \<Rightarrow> w | None \<Rightarrow> [])"

definition push_windows :: "string \<Rightarrow> health_stats \<Rightarrow> monitor \<Rightarrow> monitor" where
  "push_windows pid s m =
     m\<lparr>hm_crashWindows := map_set pid (keep_last WINDOW_POLLS (crash_window pid m @ [hs_crashes s])) (hm_crashWindows m),
       hm_stateWindows := map_set pid (keep_last WINDOW_POLLS (state_window pid m @ [hs_state s])) (hm_stateWindows m)\<rparr>"

text \<open>What a window of crash counts and the latest state call for.\<close>

definition window_verdict :: "int list \<Rightarrow> string \<Rightarrow> quarantine_reason option" where
  "window_verdict win state =
     (if length win = WINDOW_POLLS
      then let delta = win ! 2 - win ! 0 in
           if 2 \<le> delta then Some (CrashLoop (win ! 0) (win ! 2) delta)
           else if 1 \<le> delta \<and> state = ''degraded'' then Some (CrashPersistence (win ! 0) (win ! 2))
           else None
      else None)"

definition watch :: "(nat \<Rightarrow> int) \<Rightarrow> string \<Rightarrow> health_stats \<Rightarrow> monitor \<Rightarrow> monitor" where
  "watch clk pid s m =
     (let prev = (if crash_window pid m = [] then hs_crashes s else last (crash_window pid m));
          m1 = push_windows pid s m;
          win = crash_window pid m1;
          m2 = (if 2 \<le> length win \<and> prev < last win
                then record_event clk EvCrashIncrement (Some pid) (CrashesRose prev (last win) (hs_state s)) m1
                else m1)
      in case window_verdict win (last (state_window pid m1)) of
           Some reason \<Rightarrow> quarantine clk pid reason m2
         | None \<Rightarrow> m2)"

definition observe :: "(nat \<Rightarrow> int) \<Rightarrow> string \<Rightarrow> health_stats \<Rightarrow> monitor \<Rightarrow> monitor" where
  "observe clk pid s m =
     (if pid = hm_selfId m then m
      else if \<not> seen_before pid m \<and> stuck s
      then quarantine clk pid (FirstSight (hs_crashes s))
             (record_event clk EvCrashIncrement (Some pid) (FirstSightCrashes (hs_crashes s)) m)
      else (case map_get (hm_suppress m) pid of
              Some muted \<Rightarrow> count_mute clk pid muted m
            | None \<Rightarrow> watch clk pid s m))"

text \<open>\<open>poll\<close> up to its await, and after it: the promise is rejected, or carries an error or a table.\<close>

datatype stats_reply = StatsThrew string | StatsError port_error_code "string option" | StatsTable stats_table

definition poll_start :: "monitor \<Rightarrow> monitor" where
  "poll_start m = (if hm_busy m then m else m\<lparr>hm_busy := True\<rparr>)"

fun observe_all :: "(nat \<Rightarrow> int) \<Rightarrow> stats_table \<Rightarrow> monitor \<Rightarrow> monitor" where
  "observe_all clk [] m = m"
| "observe_all clk ((pid, Some s) # t) m = observe_all clk t (observe clk pid s m)"
| "observe_all clk ((pid, None) # t) m = observe_all clk t m"

definition poll_reply :: "(nat \<Rightarrow> int) \<Rightarrow> stats_reply \<Rightarrow> monitor \<Rightarrow> monitor" where
  "poll_reply clk r m =
     (let m1 =
        (case r of
           StatsThrew _ \<Rightarrow> m
         | StatsError c d \<Rightarrow> record_event clk EvStatsError None (StatsFailed c d) m
         | StatsTable t \<Rightarrow> observe_all clk t (m\<lparr>hm_polls := hm_polls m + 1, hm_last := Some t\<rparr>))
      in m1\<lparr>hm_busy := False\<rparr>)"

definition start_monitor :: "(nat \<Rightarrow> int) \<Rightarrow> monitor \<Rightarrow> monitor" where
  "start_monitor clk m =
     (if hm_timer m then m
      else (poll_start (record_event clk EvStart None (LoopStarted (hm_intervalMs m)) m))\<lparr>hm_timer := True\<rparr>)"

definition stop_monitor :: "monitor \<Rightarrow> monitor" where
  "stop_monitor m = (if hm_timer m then m\<lparr>hm_timer := False\<rparr> else m)"

definition terminate_reply :: "(nat \<Rightarrow> int) \<Rightarrow> nat \<Rightarrow> string + port_result \<Rightarrow> monitor \<Rightarrow> monitor" where
  "terminate_reply clk i a m =
     (if i < length (hm_pending m)
      then let (pid, n) = hm_pending m ! i;
               d = (case a of
                      Inl err \<Rightarrow> TerminateThrew err
                    | Inr (POk _ _ _) \<Rightarrow> Terminated n
                    | Inr (PErr c t _) \<Rightarrow> TerminateRefused c t)
           in record_event clk EvTerminate (Some pid) d
                (m\<lparr>hm_pending := take i (hm_pending m) @ drop (Suc i) (hm_pending m)\<rparr>)
      else m)"

record health_snapshot =
  hp_at :: int
  hp_polls :: nat
  hp_compartments :: "stats_table option"
  hp_quarantined :: "quarantine_record list"
  hp_events :: "health_event list"

text \<open>\<open>events.slice(-eventLimit)\<close> for a positive limit.\<close>

definition snapshot :: "(nat \<Rightarrow> int) \<Rightarrow> nat \<Rightarrow> monitor \<Rightarrow> health_snapshot" where
  "snapshot clk eventLimit m =
     \<lparr>hp_at = clk (hm_reads m), hp_polls = hm_polls m, hp_compartments = hm_last m,
      hp_quarantined = hm_quarantined m, hp_events = keep_last eventLimit (hm_events m)\<rparr>"

datatype monitor_event =
    StartLoop
  | StopLoop
  | Tick
  | StatsReply stats_reply
  | TerminateReply nat "string + port_result"

text \<open>A statistics reply only comes while a poll awaits it, a tick only while the timer runs.\<close>

fun health_step :: "(nat \<Rightarrow> int) \<Rightarrow> monitor_event \<Rightarrow> monitor \<Rightarrow> monitor" where
  "health_step clk StartLoop m = start_monitor clk m"
| "health_step clk StopLoop m = stop_monitor m"
| "health_step clk Tick m = (if hm_timer m then poll_start m else m)"
| "health_step clk (StatsReply r) m = (if hm_busy m then poll_reply clk r m else m)"
| "health_step clk (TerminateReply i a) m = terminate_reply clk i a m"

definition run_monitor :: "(nat \<Rightarrow> int) \<Rightarrow> monitor_event list \<Rightarrow> monitor \<Rightarrow> monitor" where
  "run_monitor clk evs m = fold (health_step clk) evs m"

section \<open>What the operations touch\<close>

lemma record_event_fields [simp]:
  "hm_quarantined (record_event clk ty p d m) = hm_quarantined m"
  "hm_crashWindows (record_event clk ty p d m) = hm_crashWindows m"
  "hm_stateWindows (record_event clk ty p d m) = hm_stateWindows m"
  "hm_quarantineCount (record_event clk ty p d m) = hm_quarantineCount m"
  "hm_suppress (record_event clk ty p d m) = hm_suppress m"
  "hm_terminates (record_event clk ty p d m) = hm_terminates m"
  "hm_selfId (record_event clk ty p d m) = hm_selfId m"
  "length (hm_events (record_event clk ty p d m)) \<le> RING_MAX"
  by (simp_all add: record_event_def)

lemma resetWindows_fields [simp]:
  "hm_quarantined (resetWindows p m) = hm_quarantined m"
  "hm_crashWindows (resetWindows p m) = map_del p (hm_crashWindows m)"
  "hm_stateWindows (resetWindows p m) = map_del p (hm_stateWindows m)"
  "hm_quarantineCount (resetWindows p m) = hm_quarantineCount m"
  "hm_suppress (resetWindows p m) = hm_suppress m" "hm_terminates (resetWindows p m) = hm_terminates m"
  "hm_selfId (resetWindows p m) = hm_selfId m" "hm_events (resetWindows p m) = hm_events m"
  "hm_reads (resetWindows p m) = hm_reads m"
  by (simp_all add: resetWindows_def)

lemma quarantine_fields [simp]:
  "hm_quarantined (quarantine clk p r m) =
     hm_quarantined m @ [\<lparr>qr_pluginId = p, qr_at = clk (hm_reads m), qr_reason = r\<rparr>]"
  "hm_crashWindows (quarantine clk p r m) = map_del p (hm_crashWindows m)"
  "hm_stateWindows (quarantine clk p r m) = map_del p (hm_stateWindows m)"
  "hm_quarantineCount (quarantine clk p r m) = map_set p (Suc (quarantine_number p m)) (hm_quarantineCount m)"
  "hm_suppress (quarantine clk p r m) = map_set p (2 ^ Suc (quarantine_number p m)) (hm_suppress m)"
  "hm_terminates (quarantine clk p r m) = hm_terminates m @ [(p, Suc (quarantine_number p m))]"
  "hm_selfId (quarantine clk p r m) = hm_selfId m"
  "length (hm_events (quarantine clk p r m)) \<le> RING_MAX"
  by (simp_all add: quarantine_def mark_quarantined_def Let_def)

lemma quarantine_number_record [simp]:
  "quarantine_number p (record_event clk ty q d m) = quarantine_number p m"
  by (simp add: quarantine_number_def)

lemma quarantine_number_quarantine [simp]:
  "quarantine_number p (quarantine clk q r m) =
     (if p = q then Suc (quarantine_number p m) else quarantine_number p m)"
  by (simp add: quarantine_number_def)

lemma push_windows_fields [simp]:
  "hm_quarantined (push_windows p s m) = hm_quarantined m"
  "hm_quarantineCount (push_windows p s m) = hm_quarantineCount m"
  "hm_suppress (push_windows p s m) = hm_suppress m" "hm_terminates (push_windows p s m) = hm_terminates m"
  "hm_selfId (push_windows p s m) = hm_selfId m" "hm_events (push_windows p s m) = hm_events m"
  "hm_crashWindows (push_windows p s m) =
     map_set p (keep_last WINDOW_POLLS (crash_window p m @ [hs_crashes s])) (hm_crashWindows m)"
  "hm_stateWindows (push_windows p s m) =
     map_set p (keep_last WINDOW_POLLS (state_window p m @ [hs_state s])) (hm_stateWindows m)"
  "quarantine_number q (push_windows p s m) = quarantine_number q m"
  by (simp_all add: push_windows_def quarantine_number_def)

lemma crash_window_record [simp]: "crash_window q (record_event clk ty p d m) = crash_window q m"
  by (simp add: crash_window_def)

lemma windows_push [simp]:
  "crash_window q (push_windows p s m) =
     (if q = p then keep_last WINDOW_POLLS (crash_window p m @ [hs_crashes s]) else crash_window q m)"
  "state_window q (push_windows p s m) =
     (if q = p then keep_last WINDOW_POLLS (state_window p m @ [hs_state s]) else state_window q m)"
  by (simp_all add: crash_window_def state_window_def)

lemma keep_last_snoc: "0 < n \<Longrightarrow> keep_last n (xs @ [x]) = keep_last (n - 1) xs @ [x]"
  by (cases n) (auto simp: keep_last_def Suc_diff_le)

lemma last_window [simp]: "last (keep_last WINDOW_POLLS (xs @ [x])) = x"
  by (simp add: WINDOW_POLLS_def keep_last_snoc)

section \<open>The invariant\<close>

text \<open>The ring is bounded; windows hold one to three polls and exist together; a muted compartment has no
  windows and its mute is at most the backoff of its last quarantine; each quarantine fired one
  terminate call, has evidence for its reason, and none is of the monitor's own plugin.\<close>

fun reason_ok :: "quarantine_reason \<Rightarrow> bool" where
  "reason_ok (FirstSight n) = (1 \<le> n)"
| "reason_ok (CrashLoop a b d) = (d = b - a \<and> 2 \<le> d)"
| "reason_ok (CrashPersistence a b) = (a < b)"

definition windows_ok :: "string \<Rightarrow> monitor \<Rightarrow> bool" where
  "windows_ok p m \<longleftrightarrow>
     length (crash_window p m) = length (state_window p m) \<and> length (state_window p m) \<le> WINDOW_POLLS \<and>
     (seen_before p m \<longrightarrow> crash_window p m \<noteq> [])"

definition mute_ok :: "string \<Rightarrow> monitor \<Rightarrow> bool" where
  "mute_ok p m \<longleftrightarrow>
     (\<forall>k. map_get (hm_suppress m) p = Some k \<longrightarrow>
        0 < k \<and> k \<le> 2 ^ quarantine_number p m \<and> 0 < quarantine_number p m \<and> \<not> seen_before p m)"

definition ledger_ok :: "monitor \<Rightarrow> bool" where
  "ledger_ok m \<longleftrightarrow>
     (\<forall>p. quarantine_number p m = length (filter (\<lambda>q. qr_pluginId q = p) (hm_quarantined m))) \<and>
     map fst (hm_terminates m) = map qr_pluginId (hm_quarantined m) \<and>
     (\<forall>q\<in>set (hm_quarantined m). qr_pluginId q \<noteq> hm_selfId m \<and> reason_ok (qr_reason q))"

definition monitor_ok :: "monitor \<Rightarrow> bool" where
  "monitor_ok m \<longleftrightarrow>
     length (hm_events m) \<le> RING_MAX \<and> (\<forall>p. windows_ok p m \<and> mute_ok p m) \<and> ledger_ok m"

lemma window_verdict_ok: "window_verdict w st = Some r \<Longrightarrow> reason_ok r"
  by (auto simp: window_verdict_def Let_def split: if_splits)

lemma quarantine_ok:
  assumes "monitor_ok m" and "reason_ok r" and "p \<noteq> hm_selfId m"
  shows "monitor_ok (quarantine clk p r m)"
proof -
  have "windows_ok q (quarantine clk p r m)" for q
  proof -
    have "windows_ok q m" using assms(1) by (simp add: monitor_ok_def)
    then show ?thesis by (auto simp: windows_ok_def seen_before_def crash_window_def state_window_def)
  qed
  moreover have "mute_ok q (quarantine clk p r m)" for q
    using assms(1) by (auto simp: monitor_ok_def mute_ok_def seen_before_def)
  moreover have "ledger_ok (quarantine clk p r m)"
    using assms by (auto simp: monitor_ok_def ledger_ok_def)
  ultimately show ?thesis by (simp add: monitor_ok_def)
qed

lemma record_ok: "monitor_ok m \<Longrightarrow> monitor_ok (record_event clk ty p d m)"
proof -
  have "windows_ok q (record_event clk ty p d m) = windows_ok q m" for q
    by (simp add: windows_ok_def seen_before_def crash_window_def state_window_def)
  moreover have "mute_ok q (record_event clk ty p d m) = mute_ok q m" for q
    by (simp add: mute_ok_def seen_before_def)
  ultimately show "monitor_ok m \<Longrightarrow> ?thesis" by (simp add: monitor_ok_def ledger_ok_def)
qed

lemma push_ok:
  assumes "monitor_ok m" and "map_get (hm_suppress m) p = None"
  shows "monitor_ok (push_windows p s m)"
proof -
  have "windows_ok q (push_windows p s m)" for q
  proof -
    have "windows_ok q m" and "windows_ok p m" using assms(1) by (simp_all add: monitor_ok_def)
    then show ?thesis by (auto simp: windows_ok_def seen_before_def WINDOW_POLLS_def keep_last_snoc)
  qed
  moreover have "mute_ok q (push_windows p s m)" for q
    using assms by (auto simp: monitor_ok_def mute_ok_def seen_before_def)
  ultimately show ?thesis
    using assms(1) by (simp add: monitor_ok_def ledger_ok_def)
qed

lemma watch_ok:
  assumes "monitor_ok m" and "map_get (hm_suppress m) p = None" and "p \<noteq> hm_selfId m"
  shows "monitor_ok (watch clk p s m)"
  using push_ok [OF assms(1,2)] assms(3)
  by (auto simp: watch_def Let_def intro!: quarantine_ok record_ok window_verdict_ok split: option.split)

lemma count_mute_ok:
  assumes "monitor_ok m" and "map_get (hm_suppress m) p = Some k"
  shows "monitor_ok (count_mute clk p k m)"
proof (cases "k \<le> 1")
  case True
  have "monitor_ok (resetWindows p (m\<lparr>hm_suppress := map_del p (hm_suppress m)\<rparr>))"
    using assms(1)
    by (auto simp: monitor_ok_def windows_ok_def mute_ok_def ledger_ok_def seen_before_def
        crash_window_def state_window_def quarantine_number_def)
  with True show ?thesis by (simp add: count_mute_def record_ok)
next
  case False
  have "mute_ok p m" using assms(1) by (simp add: monitor_ok_def)
  with assms(2) have "k - 1 \<le> 2 ^ quarantine_number p m" by (auto simp: mute_ok_def)
  with False assms show ?thesis
    by (auto simp: count_mute_def monitor_ok_def windows_ok_def mute_ok_def ledger_ok_def seen_before_def
        crash_window_def state_window_def quarantine_number_def)
qed

lemma observe_ok: "monitor_ok m \<Longrightarrow> monitor_ok (observe clk p s m)"
  by (auto simp: observe_def stuck_def intro!: quarantine_ok record_ok watch_ok count_mute_ok
      split: option.split)

lemma observe_all_ok: "monitor_ok m \<Longrightarrow> monitor_ok (observe_all clk t m)"
  by (induction clk t m rule: observe_all.induct) (simp_all add: observe_ok)

lemma frame_ok [simp]:
  "monitor_ok (m\<lparr>hm_busy := b\<rparr>) = monitor_ok m" "monitor_ok (m\<lparr>hm_timer := b\<rparr>) = monitor_ok m"
  "monitor_ok (m\<lparr>hm_polls := n, hm_last := t\<rparr>) = monitor_ok m"
  "monitor_ok (m\<lparr>hm_pending := c\<rparr>) = monitor_ok m"
  by (simp_all add: monitor_ok_def windows_ok_def mute_ok_def ledger_ok_def seen_before_def
      crash_window_def state_window_def quarantine_number_def)

lemma poll_reply_ok: "monitor_ok m \<Longrightarrow> monitor_ok (poll_reply clk r m)"
  by (auto simp: poll_reply_def Let_def intro!: observe_all_ok record_ok split: stats_reply.split)

lemma step_ok: "monitor_ok m \<Longrightarrow> monitor_ok (health_step clk ev m)"
  by (cases ev)
    (auto simp: start_monitor_def stop_monitor_def poll_start_def terminate_reply_def Let_def
      intro!: poll_reply_ok record_ok split: prod.split)

lemma new_monitor_ok: "monitor_ok (new_monitor i p)"
  by (simp add: new_monitor_def monitor_ok_def windows_ok_def mute_ok_def ledger_ok_def seen_before_def
      crash_window_def state_window_def quarantine_number_def)

lemma run_monitor_ok: "monitor_ok m \<Longrightarrow> monitor_ok (run_monitor clk evs m)"
  by (induction evs arbitrary: m) (simp_all add: run_monitor_def step_ok)

text \<open>Whatever the compartments report and in whatever order the replies arrive: the event ring holds at
  most 200 entries, windows at most three polls, a mute is at most two to the number of quarantines;
  every quarantine has evidence and fired one terminate call, and the monitor never quarantines its
  own plugin.\<close>

theorem monitor_bounded:
  "let m = run_monitor clk evs (new_monitor interval self) in
    length (hm_events m) \<le> RING_MAX \<and> length (crash_window p m) \<le> WINDOW_POLLS \<and>
    (case map_get (hm_suppress m) p of None \<Rightarrow> True | Some k \<Rightarrow> k \<le> 2 ^ quarantine_number p m) \<and>
    quarantine_number p m = length (filter (\<lambda>t. fst t = p) (hm_terminates m)) \<and>
    list_all (\<lambda>q. qr_pluginId q \<noteq> hm_selfId m \<and> reason_ok (qr_reason q)) (hm_quarantined m)"
proof -
  define m where "m = run_monitor clk evs (new_monitor interval self)"
  have ok: "monitor_ok m" unfolding m_def by (rule run_monitor_ok) (rule new_monitor_ok)
  have "length (filter (\<lambda>t. fst t = p) (hm_terminates m)) = length (filter (\<lambda>x. x = p) (map fst (hm_terminates m)))"
    by (simp add: filter_map comp_def)
  also have "\<dots> = length (filter (\<lambda>x. x = p) (map qr_pluginId (hm_quarantined m)))"
    using ok by (simp add: monitor_ok_def ledger_ok_def)
  also have "\<dots> = quarantine_number p m"
    using ok by (simp add: monitor_ok_def ledger_ok_def filter_map comp_def)
  finally show ?thesis
    unfolding m_def [symmetric] Let_def
    using ok by (auto simp: monitor_ok_def windows_ok_def mute_ok_def ledger_ok_def list_all_iff split: option.split)
qed

section \<open>Backoff\<close>

abbreviation observations :: "(nat \<Rightarrow> int) \<Rightarrow> string \<Rightarrow> health_stats list \<Rightarrow> monitor \<Rightarrow> monitor" where
  "observations clk p ss m \<equiv> fold (observe clk p) ss m"

lemma count_mute_fields [simp]:
  "hm_quarantined (count_mute clk p k m) = hm_quarantined m" "hm_terminates (count_mute clk p k m) = hm_terminates m"
  "hm_selfId (count_mute clk p k m) = hm_selfId m"
  "map_get (hm_suppress (count_mute clk p k m)) p = (if k \<le> 1 then None else Some (k - 1))"
  by (simp_all add: count_mute_def)

lemma muted_observe:
  "p \<noteq> hm_selfId m \<Longrightarrow> map_get (hm_suppress m) p = Some k \<Longrightarrow> \<not> stuck s \<Longrightarrow>
     observe clk p s m = count_mute clk p k m"
  by (simp add: observe_def)

lemma quarantine_selfId [simp]: "hm_selfId (observe clk p s m) = hm_selfId m"
  by (simp add: observe_def watch_def Let_def count_mute_def split: option.split)

text \<open>A muted compartment that is not stuck in the degraded state stays muted for exactly its remaining
  observations: nothing is quarantined or terminated meanwhile, and the last one re-arms it.\<close>

theorem backoff_honoured:
  assumes "p \<noteq> hm_selfId m" and "map_get (hm_suppress m) p = Some k" and "0 < k"
    and "length ss \<le> k" and "list_all (\<lambda>s. \<not> stuck s) ss"
  shows "hm_quarantined (observations clk p ss m) = hm_quarantined m \<and>
    hm_terminates (observations clk p ss m) = hm_terminates m \<and>
    map_get (hm_suppress (observations clk p ss m)) p =
      (if length ss < k then Some (k - length ss) else None)"
  using assms
proof (induction ss arbitrary: m k)
  case (Cons s ss)
  have step: "observe clk p s m = count_mute clk p k m"
    using Cons.prems by (intro muted_observe) auto
  show ?case
  proof (cases "k = 1")
    case True
    with Cons.prems step show ?thesis by simp
  next
    case False
    with Cons.prems Cons.IH [of "count_mute clk p k m" "k - 1"] step show ?thesis by auto
  qed
qed simp

text \<open>(C28) A compartment that stays degraded with a crash on record is quarantined again at every observation,
  muted or not: a quarantine drops its windows, so the next observation counts as a first sight and is
  decided before the mute is looked at.\<close>

theorem backoff_ignored:
  assumes "p \<noteq> hm_selfId m" and "\<not> seen_before p m" and "list_all stuck ss"
  shows "quarantine_number p (observations clk p ss m) = quarantine_number p m + length ss \<and>
    length (hm_terminates (observations clk p ss m)) = length (hm_terminates m) + length ss"
  using assms
proof (induction ss arbitrary: m)
  case (Cons s ss)
  let ?m = "observe clk p s m"
  have m: "?m = quarantine clk p (FirstSight (hs_crashes s))
      (record_event clk EvCrashIncrement (Some p) (FirstSightCrashes (hs_crashes s)) m)"
    using Cons.prems by (simp add: observe_def)
  have "\<not> seen_before p ?m" by (simp add: m seen_before_def)
  with Cons.prems Cons.IH [of ?m] show ?case by (simp add: m)
qed simp

section \<open>Detection\<close>

lemma quarantine_number_grows: "quarantine_number p m \<le> quarantine_number p (observe clk p s m)"
  by (auto simp: observe_def watch_def count_mute_def quarantine_number_def Let_def split: option.split)

lemma watch_short:
  "length (crash_window p m) < 2 \<Longrightarrow>
     quarantine_number q (watch clk p s m) = quarantine_number q m \<and>
     hm_suppress (watch clk p s m) = hm_suppress m \<and> seen_before p (watch clk p s m) \<and>
     crash_window p (watch clk p s m) = crash_window p m @ [hs_crashes s]"
  by (auto simp: watch_def window_verdict_def WINDOW_POLLS_def Let_def seen_before_def)

text \<open>A crash loop does not go unnoticed: when the crash counter rises by two or more across three
  consecutive observations of an unmuted, freshly watched compartment, it is quarantined.\<close>

theorem crash_loop_caught:
  assumes p: "p \<noteq> hm_selfId m" and "map_get (hm_suppress m) p = None" and new: "\<not> seen_before p m"
    and rise: "hs_crashes s1 + 2 \<le> hs_crashes s3"
  shows "quarantine_number p m < quarantine_number p (observations clk p [s1, s2, s3] m)"
proof (cases "stuck s1")
  case True
  with p new have "quarantine_number p m < quarantine_number p (observe clk p s1 m)"
    by (simp add: observe_def)
  also have "\<dots> \<le> quarantine_number p (observations clk p [s2, s3] (observe clk p s1 m))"
    by (auto intro: order_trans quarantine_number_grows)
  finally show ?thesis by simp
next
  case False
  have e: "crash_window p m = []" using new by (auto simp: seen_before_def crash_window_def)
  let ?m1 = "observe clk p s1 m" and ?m2 = "observe clk p s2 (observe clk p s1 m)"
  have m1: "?m1 = watch clk p s1 m" using assms False by (simp add: observe_def)
  have f1: "quarantine_number p ?m1 = quarantine_number p m" "hm_suppress ?m1 = hm_suppress m"
      "seen_before p ?m1" "crash_window p ?m1 = [hs_crashes s1]"
    using watch_short [of p m p clk s1] e by (simp_all add: m1)
  have m2: "?m2 = watch clk p s2 ?m1" using assms f1 by (simp add: observe_def [of clk p s2])
  have f2: "quarantine_number p ?m2 = quarantine_number p m" "hm_suppress ?m2 = hm_suppress m"
      "seen_before p ?m2" "crash_window p ?m2 = [hs_crashes s1, hs_crashes s2]"
    using watch_short [of p ?m1 p clk s2] f1 by (simp_all add: m2)
  have "observe clk p s3 ?m2 = watch clk p s3 ?m2" using assms f2 by (simp add: observe_def [of clk p s3])
  moreover have "quarantine_number p ?m2 < quarantine_number p (watch clk p s3 ?m2)"
    using f2 rise by (auto simp: watch_def window_verdict_def WINDOW_POLLS_def Let_def)
  ultimately show ?thesis using f2 by simp
qed

text \<open>What a compartment reports in the course of a run.\<close>

fun table_rows :: "string \<Rightarrow> stats_table \<Rightarrow> health_stats list" where
  "table_rows p [] = []"
| "table_rows p ((q, Some s) # t) = (if q = p then [s] else []) @ table_rows p t"
| "table_rows p ((q, None) # t) = table_rows p t"

fun reports :: "string \<Rightarrow> monitor_event \<Rightarrow> health_stats list" where
  "reports p (StatsReply (StatsTable t)) = table_rows p t"
| "reports p _ = []"

definition tolerable :: "int \<Rightarrow> health_stats \<Rightarrow> bool" where
  "tolerable c s \<longleftrightarrow> (hs_crashes s = c \<or> hs_crashes s = c + 1) \<and> \<not> stuck s"

definition untroubled :: "string \<Rightarrow> int \<Rightarrow> monitor \<Rightarrow> bool" where
  "untroubled p c m \<longleftrightarrow>
     quarantine_number p m = 0 \<and> map_get (hm_suppress m) p = None \<and>
     set (crash_window p m) \<subseteq> {c, c + 1}"

lemma untroubled_frame:
  "untroubled p c (record_event clk ty q d m) = untroubled p c m"
  "untroubled p c (m\<lparr>hm_busy := b\<rparr>) = untroubled p c m"
  "untroubled p c (m\<lparr>hm_timer := b\<rparr>) = untroubled p c m"
  "untroubled p c (m\<lparr>hm_polls := n, hm_last := t\<rparr>) = untroubled p c m"
  "untroubled p c (m\<lparr>hm_pending := l\<rparr>) = untroubled p c m"
  by (simp_all add: untroubled_def crash_window_def quarantine_number_def)

lemma untroubled_foreign:
  assumes "q \<noteq> p"
  shows "untroubled p c (quarantine clk q r m) = untroubled p c m"
    and "untroubled p c (push_windows q s m) = untroubled p c m"
    and "untroubled p c (count_mute clk q k m) = untroubled p c m"
  using assms
  by (simp_all add: untroubled_def crash_window_def quarantine_number_def count_mute_def)

lemma set_keep_last: "set (keep_last n xs) \<subseteq> set xs"
  by (simp add: keep_last_def set_drop_subset)

lemma untroubled_other: "q \<noteq> p \<Longrightarrow> untroubled p c m \<Longrightarrow> untroubled p c (observe clk q s m)"
  by (auto simp: observe_def watch_def Let_def untroubled_frame untroubled_foreign split: option.split)

lemma tolerable_verdict:
  assumes "set xs \<subseteq> {c, c + 1}" and "tolerable c s" and "0 \<le> c"
  shows "window_verdict (keep_last WINDOW_POLLS (xs @ [hs_crashes s])) (hs_state s) = None"
proof -
  let ?w = "keep_last WINDOW_POLLS (xs @ [hs_crashes s])"
  have w: "?w = keep_last 2 xs @ [hs_crashes s]" by (simp add: WINDOW_POLLS_def keep_last_snoc)
  show ?thesis
  proof (cases "length ?w = WINDOW_POLLS")
    case True
    then have len: "length (keep_last 2 xs) = 2" unfolding w by (simp add: WINDOW_POLLS_def)
    then have first: "?w ! 0 \<in> set xs" and third: "?w ! 2 = hs_crashes s"
      unfolding w using set_drop_subset [of "length xs - 2" xs] nth_mem [of 0 "keep_last 2 xs"]
      by (auto simp: nth_append keep_last_def)
    have "?w ! 0 = c \<or> ?w ! 0 = c + 1" using assms(1) first by auto
    then show ?thesis
      using assms(2,3) third by (auto simp: window_verdict_def Let_def tolerable_def stuck_def)
  next
    case False
    then show ?thesis by (simp only: window_verdict_def if_False)
  qed
qed

lemma untroubled_same:
  assumes ok: "untroubled p c m" and s: "tolerable c s" and c: "0 \<le> c"
  shows "untroubled p c (observe clk p s m)"
proof (cases "p = hm_selfId m")
  case False
  have "set (keep_last WINDOW_POLLS (crash_window p m @ [hs_crashes s])) \<subseteq> {c, c + 1}"
    using ok s by (intro order_trans [OF set_keep_last]) (auto simp: untroubled_def tolerable_def)
  then have "untroubled p c (push_windows p s m)"
    using ok by (simp add: untroubled_def)
  moreover have "observe clk p s m = watch clk p s m"
    using ok s False by (simp add: observe_def untroubled_def tolerable_def)
  moreover have "window_verdict (keep_last WINDOW_POLLS (crash_window p m @ [hs_crashes s])) (hs_state s) = None"
    using ok s c by (intro tolerable_verdict) (simp_all add: untroubled_def)
  ultimately show ?thesis
    by (simp add: watch_def Let_def untroubled_frame)
qed (use ok in \<open>simp add: observe_def\<close>)

lemma untroubled_all:
  "untroubled p c m \<Longrightarrow> \<forall>s\<in>set (table_rows p t). tolerable c s \<Longrightarrow> 0 \<le> c \<Longrightarrow>
     untroubled p c (observe_all clk t m)"
proof (induction clk t m rule: observe_all.induct)
  case (2 clk q s t m)
  have "untroubled p c (observe clk q s m)"
    using "2.prems" by (cases "q = p") (simp_all add: untroubled_same untroubled_other)
  with 2 show ?case by (simp split: if_splits)
qed simp_all

lemma untroubled_step:
  assumes "untroubled p c m" and "\<forall>s\<in>set (reports p ev). tolerable c s" and "0 \<le> c"
  shows "untroubled p c (health_step clk ev m)"
proof (cases ev)
  case (StatsReply r)
  with assms show ?thesis
    by (cases r) (auto simp: poll_reply_def Let_def untroubled_frame intro!: untroubled_all)
qed (use assms in \<open>auto simp: start_monitor_def stop_monitor_def poll_start_def terminate_reply_def
    untroubled_frame Let_def split: prod.split\<close>)

text \<open>No false alarms: a compartment whose crash counter moves by at most one in the whole run, and that
  is never reported degraded with a crash on record, is never quarantined, whatever the others do.\<close>

theorem single_crash_tolerated:
  assumes "\<forall>ev\<in>set evs. \<forall>s\<in>set (reports p ev). tolerable c s" and "0 \<le> c"
  shows "quarantine_number p (run_monitor clk evs (new_monitor interval self)) = 0"
proof -
  have "untroubled p c (new_monitor interval self)"
    by (simp add: untroubled_def new_monitor_def crash_window_def quarantine_number_def)
  then have "untroubled p c (run_monitor clk evs (new_monitor interval self))"
    using assms
    by (induction evs rule: rev_induct) (simp_all add: run_monitor_def untroubled_step)
  then show ?thesis by (simp add: untroubled_def)
qed

section \<open>Samples\<close>

definition sample_stats :: "string \<Rightarrow> int \<Rightarrow> health_stats" where
  "sample_stats st n =
     \<lparr>hs_state = st, hs_delivered = 0, hs_calls = 0, hs_errors = 0, hs_crashes = n, hs_inflight = None,
      hs_bootedAt = 0, hs_lastError = None\<rparr>"

definition quarantined_monitor :: monitor where
  "quarantined_monitor = quarantine (\<lambda>_. 0) ''omega.echo'' (FirstSight 1) (new_monitor None None)"

lemma quarantined_monitor_facts:
  "hm_selfId quarantined_monitor = ''vivim.run''" "map_get (hm_suppress quarantined_monitor) ''omega.echo'' = Some 2"
  "\<not> seen_before ''omega.echo'' quarantined_monitor" "quarantine_number ''omega.echo'' quarantined_monitor = 1"
  by (simp_all add: quarantined_monitor_def new_monitor_def seen_before_def quarantine_number_def)

lemma backoff_honoured_witness:
  "map_get (hm_suppress (observations (\<lambda>_. 0) ''omega.echo''
      [sample_stats ''stopped'' 1, sample_stats ''stopped'' 1] quarantined_monitor)) ''omega.echo'' = None"
  using backoff_honoured [of "''omega.echo''" quarantined_monitor 2
      "[sample_stats ''stopped'' 1, sample_stats ''stopped'' 1]" "\<lambda>_. 0"]
  by (simp add: quarantined_monitor_facts stuck_def sample_stats_def)

lemma backoff_ignored_witness:
  "quarantine_number ''omega.echo'' (observations (\<lambda>_. 0) ''omega.echo''
      [sample_stats ''degraded'' 1, sample_stats ''degraded'' 1] quarantined_monitor) = 3"
  using backoff_ignored [of "''omega.echo''" quarantined_monitor
      "[sample_stats ''degraded'' 1, sample_stats ''degraded'' 1]" "\<lambda>_. 0"]
  by (simp add: quarantined_monitor_facts stuck_def sample_stats_def)

lemma crash_loop_caught_witness:
  "0 < quarantine_number ''omega.echo'' (observations (\<lambda>_. 0) ''omega.echo''
      [sample_stats ''active'' 0, sample_stats ''active'' 1, sample_stats ''active'' 2] (new_monitor None None))"
proof -
  have "quarantine_number ''omega.echo'' (new_monitor None None) = 0"
    by (simp add: quarantine_number_def new_monitor_def)
  with crash_loop_caught [of "''omega.echo''" "new_monitor None None" "sample_stats ''active'' 0"
      "sample_stats ''active'' 2" "\<lambda>_. 0" "sample_stats ''active'' 1"]
  show ?thesis by (simp add: new_monitor_def seen_before_def sample_stats_def)
qed

lemma single_crash_tolerated_witness:
  "quarantine_number ''omega.echo'' (run_monitor (\<lambda>_. 0)
      [StartLoop, StatsReply (StatsTable [(''omega.echo'', Some (sample_stats ''active'' 0))]),
       Tick, StatsReply (StatsTable [(''omega.echo'', Some (sample_stats ''active'' 1))])]
      (new_monitor None None)) = 0"
  by (rule single_crash_tolerated [where c = 0]) (simp_all add: tolerable_def stuck_def sample_stats_def)

end
