(* ===== verification/Run_Broker.thy ===== *)
theory Run_Broker
  imports Port_Contracts "HOL-Library.Multiset"
begin

text \<open>
  The process broker of the run plugin (\<open>plugins/vivim-run/src/process-broker.ts\<close>): pools of operating
  system processes declared in the signed configuration. A lane is one child process; lanes are
  objects shared by the table of their pool and by the calls that hold them, so they live in a store
  and are named by their index. What the children, the timers and the callers do are events. A
  promise settles at its first resolution; the code after the \<open>await\<close> of a call is \<open>settle_call\<close>, run
  after the event that resolved it. Details are constructors, one per message; durations are left out.
\<close>

section \<open>Configuration\<close>

definition MALFORMED_LIMIT :: nat where "MALFORMED_LIMIT = 5"
definition START_TIMEOUT_MS :: int where "START_TIMEOUT_MS = 5000"
definition BROKER_DEADLINE_MS :: int where "BROKER_DEADLINE_MS = 10000"
definition BROKER_MAX_DEADLINE_MS :: int where "BROKER_MAX_DEADLINE_MS = 60000"

record pool_config =
  pc_id :: string
  pc_cmd :: "string list"
  pc_ops :: "string list option"
  pc_poolSize :: "int option"
  pc_startTimeoutMs :: "int option"

datatype config_error =
    PoolNotObject
  | BadPoolId json
  | BadCmd string
  | BadStdio string json
  | BadPoolSize string json
  | BadOps string
  | BadStartTimeout string json
  | PoolsNotArray
  | DuplicatePool string

text \<open>\<open>/^[a-z0-9]([a-z0-9-]*[a-z0-9])?$/\<close>.\<close>

definition alnum :: "char \<Rightarrow> bool" where
  "alnum c \<longleftrightarrow> (let n = of_char c :: nat in 97 \<le> n \<and> n \<le> 122 \<or> 48 \<le> n \<and> n \<le> 57)"

definition pool_id_ok :: "string \<Rightarrow> bool" where
  "pool_id_ok s \<longleftrightarrow>
     s \<noteq> [] \<and> alnum (hd s) \<and> alnum (last s) \<and> list_all (\<lambda>c. alnum c \<or> c = CHR ''-'') s"

fun nonempty_strings :: "json list \<Rightarrow> string list option" where
  "nonempty_strings [] = Some []"
| "nonempty_strings (JStr s # xs) =
     (if s = [] then None else map_option (\<lambda>ys. s # ys) (nonempty_strings xs))"
| "nonempty_strings (_ # xs) = None"

definition read_cmd :: "json \<Rightarrow> string list option" where
  "read_cmd v =
     (case v of
        JArr xs \<Rightarrow> (case nonempty_strings xs of Some (c # cs) \<Rightarrow> Some (c # cs) | _ \<Rightarrow> None)
      | _ \<Rightarrow> None)"

definition read_int_in :: "int \<Rightarrow> int \<Rightarrow> json \<Rightarrow> int option option" where
  "read_int_in lo hi v =
     (case v of
        JUndefined \<Rightarrow> Some None
      | JNum n \<Rightarrow> if lo \<le> n \<and> n \<le> hi then Some (Some n) else None
      | _ \<Rightarrow> None)"

definition read_ops :: "json \<Rightarrow> string list option option" where
  "read_ops v =
     (case v of
        JUndefined \<Rightarrow> Some None
      | JArr xs \<Rightarrow> map_option Some (nonempty_strings xs)
      | _ \<Rightarrow> None)"

definition validatePool :: "json \<Rightarrow> config_error + pool_config" where
  "validatePool p =
     (if p = JNull \<or> p = JUndefined then Inl PoolNotObject
      else case json_field p ''id'' of
        JStr i \<Rightarrow>
          if \<not> pool_id_ok i then Inl (BadPoolId (JStr i))
          else (case read_cmd (json_field p ''cmd'') of
            None \<Rightarrow> Inl (BadCmd i)
          | Some cmd \<Rightarrow>
            if json_field p ''stdio'' \<noteq> JStr ''ndjson'' then Inl (BadStdio i (json_field p ''stdio''))
            else (case read_int_in 1 4 (json_field p ''poolSize'') of
              None \<Rightarrow> Inl (BadPoolSize i (json_field p ''poolSize''))
            | Some n \<Rightarrow>
              (case read_ops (json_field p ''ops'') of
                None \<Rightarrow> Inl (BadOps i)
              | Some ops \<Rightarrow>
                (case read_int_in 250 30000 (json_field p ''startTimeoutMs'') of
                  None \<Rightarrow> Inl (BadStartTimeout i (json_field p ''startTimeoutMs''))
                | Some t \<Rightarrow>
                    Inr \<lparr>pc_id = i, pc_cmd = cmd, pc_ops = ops, pc_poolSize = n,
                         pc_startTimeoutMs = t\<rparr>))))
      | v \<Rightarrow> Inl (BadPoolId v))"

fun declare_pools :: "json list \<Rightarrow> (string, pool_config) jsmap \<Rightarrow> config_error + (string, pool_config) jsmap" where
  "declare_pools [] pools = Inr pools"
| "declare_pools (item # items) pools =
     res_bind (validatePool item) (\<lambda>pool.
       if map_has pools (pc_id pool) then Inl (DuplicatePool (pc_id pool))
       else declare_pools items (map_set (pc_id pool) pool pools))"

definition parseBrokerConfig :: "json \<Rightarrow> config_error + (string, pool_config) jsmap" where
  "parseBrokerConfig config =
     (case json_field config ''processPools'' of
        JUndefined \<Rightarrow> Inr []
      | JNull \<Rightarrow> Inr []
      | JArr items \<Rightarrow> declare_pools items []
      | _ \<Rightarrow> Inl PoolsNotArray)"

section \<open>State\<close>

record lane =
  ln_pool :: string
  ln_cmd :: "string list"
  ln_busy :: bool
  ln_malformed :: nat
  ln_ready :: bool
  ln_pending :: "nat list"
  ln_exited :: bool
  ln_killed :: bool

datatype broker_detail =
    ShutDown
  | UnknownPool string
  | OpMissing
  | OpUndeclared string string
  | DeadlineOutOfRange
  | PoolExhausted string int
  | SpawnThrew string string
  | WriteFailed string
  | NoAnswer string string int
  | ChildExited string "int option" "string option"
  | NotReady string int
  | TooManyMalformed string nat
  | EmptyReturn
  | ChildDetail string

record process_result =
  pr_ok :: bool
  pr_data :: json
  pr_error :: "port_error_code option"
  pr_detail :: "broker_detail option"

definition failure :: "port_error_code \<Rightarrow> broker_detail \<Rightarrow> process_result" where
  "failure c d = \<lparr>pr_ok = False, pr_data = JUndefined, pr_error = Some c, pr_detail = Some d\<rparr>"

record broker_call_state =
  bc_id :: nat
  bc_pool :: string
  bc_op :: string
  bc_lane :: nat
  bc_deadlineMs :: int

record broker =
  br_pools :: "(string, pool_config) jsmap"
  br_entries :: "lane list"
  br_lanes :: "(string, nat list) jsmap"
  br_nextId :: nat
  br_shutDown :: bool
  br_calls :: "broker_call_state list"
  br_results :: "(nat \<times> process_result) list"

definition new_broker :: "(string, pool_config) jsmap \<Rightarrow> broker" where
  "new_broker pools =
     \<lparr>br_pools = pools, br_entries = [], br_lanes = [], br_nextId = 1, br_shutDown = False,
      br_calls = [], br_results = []\<rparr>"

definition lanes_of :: "string \<Rightarrow> broker \<Rightarrow> nat list" where
  "lanes_of p b = (case map_get (br_lanes b) p of Some ls \<Rightarrow> ls | None \<Rightarrow> [])"

definition update_lane :: "nat \<Rightarrow> (lane \<Rightarrow> lane) \<Rightarrow> broker \<Rightarrow> broker" where
  "update_lane i f b =
     (if i < length (br_entries b)
      then b\<lparr>br_entries := (br_entries b)[i := f (br_entries b ! i)]\<rparr> else b)"

record lane_stats =
  ls_configured :: bool
  ls_live :: nat
  ls_busy :: nat

definition broker_stats :: "broker \<Rightarrow> (string \<times> lane_stats) list" where
  "broker_stats b =
     map (\<lambda>p. (p, \<lparr>ls_configured = True, ls_live = length (lanes_of p b),
       ls_busy = length (filter (\<lambda>i. ln_busy (br_entries b ! i)) (lanes_of p b))\<rparr>)) (map_keys (br_pools b))"

section \<open>Lanes\<close>

definition retire :: "string \<Rightarrow> nat \<Rightarrow> broker \<Rightarrow> broker" where
  "retire p i b =
     update_lane i (\<lambda>l. l\<lparr>ln_killed := True\<rparr>)
       (if map_has (br_lanes b) p
        then b\<lparr>br_lanes := map_set p (remove1 i (lanes_of p b)) (br_lanes b)\<rparr> else b)"

definition lane_free :: "lane \<Rightarrow> bool" where
  "lane_free l \<longleftrightarrow> \<not> ln_busy l \<and> ln_ready l \<and> ln_malformed l = 0"

definition pool_size :: "pool_config \<Rightarrow> int" where
  "pool_size cfg = (case pc_poolSize cfg of Some n \<Rightarrow> n | None \<Rightarrow> 1)"

definition fresh_lane :: "string \<Rightarrow> pool_config \<Rightarrow> lane" where
  "fresh_lane p cfg =
     \<lparr>ln_pool = p, ln_cmd = pc_cmd cfg, ln_busy = True, ln_malformed = 0, ln_ready = False,
      ln_pending = [], ln_exited = False, ln_killed = False\<rparr>"

definition spawnLane :: "string \<Rightarrow> pool_config \<Rightarrow> broker \<Rightarrow> nat \<times> broker" where
  "spawnLane p cfg b =
     (let i = length (br_entries b)
      in (i, b\<lparr>br_entries := br_entries b @ [fresh_lane p cfg],
               br_lanes := map_set p (lanes_of p b @ [i]) (br_lanes b)\<rparr>))"

text \<open>\<open>fails\<close> is the error \<open>platformSpawn\<close> throws, if it does.\<close>

definition checkout :: "string option \<Rightarrow> string \<Rightarrow> pool_config \<Rightarrow> broker \<Rightarrow> (broker_detail + nat) \<times> broker" where
  "checkout fails p cfg b =
     (if br_shutDown b then (Inl ShutDown, b)
      else case find (\<lambda>i. lane_free (br_entries b ! i)) (lanes_of p b) of
        Some i \<Rightarrow> (Inr i, update_lane i (\<lambda>l. l\<lparr>ln_busy := True\<rparr>) b)
      | None \<Rightarrow>
          if pool_size cfg \<le> int (length (lanes_of p b)) then (Inl (PoolExhausted p (pool_size cfg)), b)
          else (case fails of
                  Some err \<Rightarrow> (Inl (SpawnThrew p err), b)
                | None \<Rightarrow> (let (i, b1) = spawnLane p cfg b in (Inr i, b1))))"

section \<open>Calls\<close>

text \<open>The guards of \<open>call\<close> in the order of the source.\<close>

definition call_deadline :: "json \<Rightarrow> int option" where
  "call_deadline v =
     (case v of
        JUndefined \<Rightarrow> Some BROKER_DEADLINE_MS
      | JNum n \<Rightarrow> if 50 \<le> n \<and> n \<le> BROKER_MAX_DEADLINE_MS then Some n else None
      | _ \<Rightarrow> None)"

definition call_pool :: "json \<Rightarrow> string" where
  "call_pool req = (case json_field req ''pool'' of JStr p \<Rightarrow> p | _ \<Rightarrow> [])"

definition call_guard :: "json \<Rightarrow> broker \<Rightarrow> process_result + (pool_config \<times> string \<times> int)" where
  "call_guard req b =
     (if br_shutDown b then Inl (failure DEGRADED ShutDown)
      else case map_get (br_pools b) (call_pool req) of
        None \<Rightarrow> Inl (failure REFUSED (UnknownPool (call_pool req)))
      | Some cfg \<Rightarrow>
          (case json_field req ''op'' of
             JStr op \<Rightarrow>
               if op = [] then Inl (failure REFUSED OpMissing)
               else if (case pc_ops cfg of Some ops \<Rightarrow> op \<notin> set ops | None \<Rightarrow> False)
               then Inl (failure REFUSED (OpUndeclared op (call_pool req)))
               else (case call_deadline (json_field req ''deadlineMs'') of
                       None \<Rightarrow> Inl (failure REFUSED DeadlineOutOfRange)
                     | Some d \<Rightarrow> Inr (cfg, op, d))
           | _ \<Rightarrow> Inl (failure REFUSED OpMissing)))"

text \<open>The end of \<open>call\<close>, once the race between the lane and the deadline has a result.\<close>

definition settle_call :: "nat \<times> process_result \<Rightarrow> broker \<Rightarrow> broker" where
  "settle_call ir b =
     (case find (\<lambda>c. bc_id c = fst ir) (br_calls b) of
        None \<Rightarrow> b
      | Some c \<Rightarrow>
          let b1 = b\<lparr>br_calls := remove1 c (br_calls b), br_results := br_results b @ [ir]\<rparr>
          in if \<not> pr_ok (snd ir) \<or> 0 < ln_malformed (br_entries b1 ! bc_lane c)
             then retire (bc_pool c) (bc_lane c) b1
             else update_lane (bc_lane c) (\<lambda>l. l\<lparr>ln_busy := False\<rparr>) b1)"

definition settle_all :: "nat list \<Rightarrow> process_result \<Rightarrow> broker \<Rightarrow> broker" where
  "settle_all ids r b = fold (\<lambda>i. settle_call (i, r)) ids b"

text \<open>\<open>call\<close>: an immediate refusal, or the id of the promise. \<open>unwritten\<close> is the error \<open>writeLine\<close>
  throws, if it does.\<close>

definition broker_call ::
  "string option \<Rightarrow> string option \<Rightarrow> json \<Rightarrow> broker \<Rightarrow> (process_result + nat) \<times> broker" where
  "broker_call fails unwritten req b =
     (case call_guard req b of
        Inl r \<Rightarrow> (Inl r, b)
      | Inr (cfg, op, d) \<Rightarrow>
          (case checkout fails (call_pool req) cfg b of
             (Inl err, b1) \<Rightarrow> (Inl (failure DEGRADED err), b1)
           | (Inr i, b1) \<Rightarrow>
               let n = br_nextId b1;
                   c = \<lparr>bc_id = n, bc_pool = call_pool req, bc_op = op, bc_lane = i, bc_deadlineMs = d\<rparr>;
                   b2 = update_lane i (\<lambda>l. l\<lparr>ln_pending := ln_pending l @ [n]\<rparr>)
                          (b1\<lparr>br_nextId := Suc n, br_calls := br_calls b1 @ [c]\<rparr>)
               in (Inr n, case unwritten of
                            Some err \<Rightarrow> settle_call (n, failure DEGRADED (WriteFailed err)) b2
                          | None \<Rightarrow> b2)))"

section \<open>What the children and the timers do\<close>

datatype child_frame =
    ReadyFrame
  | ReturnFrame nat "process_result option"
  | OtherFrame

definition clear_pending :: "nat \<Rightarrow> broker \<Rightarrow> broker" where
  "clear_pending i b = update_lane i (\<lambda>l. l\<lparr>ln_pending := []\<rparr>) b"

definition flagMalformed :: "nat \<Rightarrow> broker \<Rightarrow> broker" where
  "flagMalformed i b =
     (let b1 = update_lane i (\<lambda>l. l\<lparr>ln_malformed := ln_malformed l + 1\<rparr>) b;
          l = br_entries b1 ! i
      in if MALFORMED_LIMIT < ln_malformed l
         then settle_all (ln_pending l) (failure BUDGET (TooManyMalformed (ln_pool l) (ln_malformed l)))
                (retire (ln_pool l) i (clear_pending i b1))
         else b1)"

definition on_line :: "nat \<Rightarrow> child_frame \<Rightarrow> broker \<Rightarrow> broker" where
  "on_line i f b =
     (case f of
        ReadyFrame \<Rightarrow> update_lane i (\<lambda>l. l\<lparr>ln_ready := True\<rparr>) b
      | ReturnFrame n r \<Rightarrow>
          if n \<in> set (ln_pending (br_entries b ! i))
          then settle_call (n, case r of Some r \<Rightarrow> r | None \<Rightarrow> failure DEGRADED EmptyReturn)
                 (update_lane i (\<lambda>l. l\<lparr>ln_pending := remove1 n (ln_pending l)\<rparr>) b)
          else b
      | OtherFrame \<Rightarrow> flagMalformed i b)"

definition on_exit :: "nat \<Rightarrow> int option \<Rightarrow> string option \<Rightarrow> broker \<Rightarrow> broker" where
  "on_exit i code sig b =
     (let l = br_entries b ! i in
      settle_all (ln_pending l) (failure DEGRADED (ChildExited (ln_pool l) code sig))
        (update_lane i (\<lambda>l. l\<lparr>ln_exited := True\<rparr>) (clear_pending i b)))"

definition start_timeout :: "string \<Rightarrow> broker \<Rightarrow> int" where
  "start_timeout p b =
     (case map_get (br_pools b) p of
        Some cfg \<Rightarrow> (case pc_startTimeoutMs cfg of Some t \<Rightarrow> t | None \<Rightarrow> START_TIMEOUT_MS)
      | None \<Rightarrow> START_TIMEOUT_MS)"

text \<open>The readiness timer is cleared when the child exits.\<close>

definition on_start_timeout :: "nat \<Rightarrow> broker \<Rightarrow> broker" where
  "on_start_timeout i b =
     (let l = br_entries b ! i in
      if ln_ready l \<or> ln_exited l then b
      else settle_all (ln_pending l) (failure DEGRADED (NotReady (ln_pool l) (start_timeout (ln_pool l) b)))
             (clear_pending i (retire (ln_pool l) i b)))"

definition on_deadline :: "nat \<Rightarrow> broker \<Rightarrow> broker" where
  "on_deadline n b =
     (case find (\<lambda>c. bc_id c = n) (br_calls b) of
        None \<Rightarrow> b
      | Some c \<Rightarrow> settle_call (n, failure BUDGET (NoAnswer (bc_pool c) (bc_op c) (bc_deadlineMs c))) b)"

text \<open>\<open>shutdownAll\<close>: lanes whose write throws are killed at once, the others when the cap passes
  before they exit.\<close>

definition shutdownAll :: "nat list \<Rightarrow> broker \<Rightarrow> broker" where
  "shutdownAll unwritable b =
     (let live = concat (map snd (br_lanes b))
      in fold (\<lambda>i. update_lane i (\<lambda>l. l\<lparr>ln_killed := True\<rparr>)) (filter (\<lambda>i. i \<in> set unwritable) live)
           (b\<lparr>br_shutDown := True, br_lanes := []\<rparr>))"

definition kill_cap :: "nat \<Rightarrow> broker \<Rightarrow> broker" where
  "kill_cap i b =
     (if br_shutDown b \<and> \<not> ln_exited (br_entries b ! i)
      then update_lane i (\<lambda>l. l\<lparr>ln_killed := True\<rparr>) b else b)"

datatype broker_event =
    CallEvent "string option" "string option" json
  | LineEvent nat child_frame
  | MalformedEvent nat
  | ExitEvent nat "int option" "string option"
  | StartTimeoutEvent nat
  | DeadlineEvent nat
  | ShutdownEvent "nat list"
  | KillCapEvent nat

text \<open>Events of a lane that was never spawned do not happen.\<close>

fun broker_step :: "broker_event \<Rightarrow> broker \<Rightarrow> broker" where
  "broker_step (CallEvent fails unwritten req) b = snd (broker_call fails unwritten req b)"
| "broker_step (LineEvent i f) b = (if i < length (br_entries b) then on_line i f b else b)"
| "broker_step (MalformedEvent i) b = (if i < length (br_entries b) then flagMalformed i b else b)"
| "broker_step (ExitEvent i code sig) b = (if i < length (br_entries b) then on_exit i code sig b else b)"
| "broker_step (StartTimeoutEvent i) b = (if i < length (br_entries b) then on_start_timeout i b else b)"
| "broker_step (DeadlineEvent n) b = on_deadline n b"
| "broker_step (ShutdownEvent unwritable) b = shutdownAll unwritable b"
| "broker_step (KillCapEvent i) b = (if i < length (br_entries b) then kill_cap i b else b)"

definition run_broker :: "broker_event list \<Rightarrow> broker \<Rightarrow> broker" where
  "run_broker evs b = fold broker_step evs b"

section \<open>The invariant\<close>

text \<open>Every child runs the command its pool declares; a pool's table holds distinct lanes of that pool, no
  more than it declares, none over the malformed limit; a lane serves one call and is busy meanwhile;
  every id handed out belongs to one open call or one result.\<close>

definition declared :: "broker \<Rightarrow> lane \<Rightarrow> bool" where
  "declared b l \<longleftrightarrow>
     (case map_get (br_pools b) (ln_pool l) of Some cfg \<Rightarrow> ln_cmd l = pc_cmd cfg | None \<Rightarrow> False)"

definition declared_size :: "broker \<Rightarrow> string \<Rightarrow> int" where
  "declared_size b p = (case map_get (br_pools b) p of Some cfg \<Rightarrow> pool_size cfg | None \<Rightarrow> 0)"

definition table_ok :: "broker \<Rightarrow> string \<Rightarrow> bool" where
  "table_ok b p \<longleftrightarrow>
     distinct (lanes_of p b) \<and> (lanes_of p b \<noteq> [] \<longrightarrow> int (length (lanes_of p b)) \<le> declared_size b p) \<and>
     (\<forall>i\<in>set (lanes_of p b). i < length (br_entries b) \<and> ln_pool (br_entries b ! i) = p \<and>
        ln_malformed (br_entries b ! i) \<le> MALFORMED_LIMIT)"

definition call_ok :: "broker \<Rightarrow> broker_call_state \<Rightarrow> bool" where
  "call_ok b c \<longleftrightarrow>
     bc_lane c < length (br_entries b) \<and> ln_busy (br_entries b ! bc_lane c) \<and>
     ln_pool (br_entries b ! bc_lane c) = bc_pool c"

definition ids_ok :: "broker \<Rightarrow> bool" where
  "ids_ok b \<longleftrightarrow>
     mset (map bc_id (br_calls b) @ map fst (br_results b)) = mset [1..<br_nextId b] \<and> 1 \<le> br_nextId b"

definition broker_ok :: "broker \<Rightarrow> bool" where
  "broker_ok b \<longleftrightarrow>
     list_all (declared b) (br_entries b) \<and> (\<forall>p. table_ok b p) \<and>
     distinct (map bc_lane (br_calls b)) \<and> (\<forall>c\<in>set (br_calls b). call_ok b c) \<and> ids_ok b"

subsection \<open>Changes to one lane\<close>

definition benign :: "(lane \<Rightarrow> lane) \<Rightarrow> bool" where
  "benign f \<longleftrightarrow> (\<forall>l. ln_pool (f l) = ln_pool l \<and> ln_cmd (f l) = ln_cmd l \<and> ln_busy (f l) = ln_busy l \<and>
     ln_malformed (f l) = ln_malformed l)"

lemma update_lane_fields [simp]:
  "br_pools (update_lane i f b) = br_pools b" "br_lanes (update_lane i f b) = br_lanes b"
  "br_nextId (update_lane i f b) = br_nextId b" "br_shutDown (update_lane i f b) = br_shutDown b"
  "br_calls (update_lane i f b) = br_calls b" "br_results (update_lane i f b) = br_results b"
  "length (br_entries (update_lane i f b)) = length (br_entries b)"
  "lanes_of p (update_lane i f b) = lanes_of p b"
  by (simp_all add: update_lane_def lanes_of_def)

lemma update_lane_nth:
  "j < length (br_entries b) \<Longrightarrow>
     br_entries (update_lane i f b) ! j = (if j = i then f (br_entries b ! j) else br_entries b ! j)"
  by (simp add: update_lane_def nth_list_update)

lemma declared_pools: "br_pools b' = br_pools b \<Longrightarrow> declared b' = declared b"
  by (simp add: declared_def fun_eq_iff)

lemma update_declared:
  assumes "\<And>l. ln_pool (f l) = ln_pool l \<and> ln_cmd (f l) = ln_cmd l" and "list_all (declared b) (br_entries b)"
  shows "list_all (declared (update_lane i f b)) (br_entries (update_lane i f b))"
proof -
  have "declared b (f l) = declared b l" for l
    using assms(1) by (simp add: declared_def split: option.split)
  then show ?thesis
    using assms(2) declared_pools [of "update_lane i f b" b]
    by (auto simp: list_all_length update_lane_nth)
qed

lemma update_benign:
  assumes f: "benign f" and ok: "broker_ok b"
  shows "broker_ok (update_lane i f b)"
proof -
  have "table_ok (update_lane i f b) p" for p
  proof -
    have "table_ok b p" using ok by (simp add: broker_ok_def)
    then show ?thesis
      using f by (auto simp: table_ok_def declared_size_def benign_def update_lane_nth)
  qed
  moreover have "call_ok (update_lane i f b) c" if "c \<in> set (br_calls b)" for c
    using ok that f by (auto simp: broker_ok_def call_ok_def benign_def update_lane_nth)
  ultimately show ?thesis
    using ok f update_declared [of f b i] by (simp add: broker_ok_def ids_ok_def benign_def)
qed

lemma benign_updates [simp]:
  "benign (\<lambda>l. l\<lparr>ln_killed := x\<rparr>)" "benign (\<lambda>l. l\<lparr>ln_ready := x\<rparr>)" "benign (\<lambda>l. l\<lparr>ln_exited := x\<rparr>)"
  "benign (\<lambda>l. l\<lparr>ln_pending := g l\<rparr>)"
  by (simp_all add: benign_def)

lemma lanes_of_set [simp]:
  "lanes_of q (b\<lparr>br_lanes := map_set p ls (br_lanes b)\<rparr>) = (if q = p then ls else lanes_of q b)"
  by (simp add: lanes_of_def)

lemma retire_ok: "broker_ok b \<Longrightarrow> broker_ok (retire p i b)"
proof -
  assume ok: "broker_ok b"
  let ?b = "b\<lparr>br_lanes := map_set p (remove1 i (lanes_of p b)) (br_lanes b)\<rparr>"
  have "table_ok ?b q" for q
  proof -
    have "table_ok b q" using ok by (simp add: broker_ok_def)
    then show ?thesis
      by (auto simp: table_ok_def declared_size_def length_remove1 dest: notin_set_remove1
          split: if_splits)
  qed
  then have "broker_ok ?b"
    using ok declared_pools [of ?b b] by (simp add: broker_ok_def ids_ok_def call_ok_def)
  then show ?thesis using ok by (simp add: retire_def update_benign)
qed

lemma update_ids [simp]: "ids_ok (update_lane i f b) = ids_ok b"
  by (simp add: ids_ok_def)

lemma retire_fields [simp]:
  "br_pools (retire p i b) = br_pools b" "br_calls (retire p i b) = br_calls b"
  "br_results (retire p i b) = br_results b" "br_nextId (retire p i b) = br_nextId b"
  "length (br_entries (retire p i b)) = length (br_entries b)"
  by (simp_all add: retire_def)

lemma declared_frame [simp]:
  "declared (b\<lparr>br_calls := cs, br_results := rs\<rparr>) = declared b"
  "declared (b\<lparr>br_calls := cs\<rparr>) = declared b" "declared (b\<lparr>br_nextId := n\<rparr>) = declared b"
  "declared (b\<lparr>br_nextId := n, br_calls := cs\<rparr>) = declared b"
  "declared (b\<lparr>br_shutDown := x, br_lanes := ls\<rparr>) = declared b"
  by (rule declared_pools; simp)+

lemma table_frame [simp]:
  "table_ok (b\<lparr>br_calls := cs, br_results := rs\<rparr>) p = table_ok b p"
  "table_ok (b\<lparr>br_nextId := n, br_calls := cs\<rparr>) p = table_ok b p"
  by (simp_all add: table_ok_def lanes_of_def declared_size_def)

text \<open>Taking a call out: its lane is then the lane of no open call.\<close>

lemma remove_call:
  assumes ok: "broker_ok b" and c: "c \<in> set (br_calls b)" and i: "i = bc_id c"
  shows "broker_ok (b\<lparr>br_calls := remove1 c (br_calls b), br_results := br_results b @ [(i, r)]\<rparr>)"
    and "\<forall>d\<in>set (remove1 c (br_calls b)). bc_lane d \<noteq> bc_lane c"
proof -
  have perm: "mset (br_calls b) = add_mset c (mset (remove1 c (br_calls b)))" using c by simp
  then have ids: "mset (map bc_id (br_calls b)) = add_mset i (mset (map bc_id (remove1 c (br_calls b))))"
    by (metis i image_mset_add_mset mset_map)
  have "mset (map bc_lane (br_calls b)) = mset (bc_lane c # map bc_lane (remove1 c (br_calls b)))"
    using perm by (metis image_mset_add_mset mset.simps(2) mset_map)
  then have "distinct (map bc_lane (br_calls b)) = distinct (bc_lane c # map bc_lane (remove1 c (br_calls b)))"
    by (rule mset_eq_imp_distinct_iff)
  then have lanes: "distinct (bc_lane c # map bc_lane (remove1 c (br_calls b)))"
    using ok by (simp add: broker_ok_def)
  then show "\<forall>d\<in>set (remove1 c (br_calls b)). bc_lane d \<noteq> bc_lane c"
    by (metis distinct.simps(2) image_eqI set_map)
  show "broker_ok (b\<lparr>br_calls := remove1 c (br_calls b), br_results := br_results b @ [(i, r)]\<rparr>)"
    using ok lanes ids notin_set_remove1 [of _ "br_calls b" c]
    by (auto simp: broker_ok_def call_ok_def ids_ok_def)
qed

lemma release_lane:
  assumes ok: "broker_ok b" and free: "\<forall>d\<in>set (br_calls b). bc_lane d \<noteq> i"
  shows "broker_ok (update_lane i (\<lambda>l. l\<lparr>ln_busy := False\<rparr>) b)"
proof -
  let ?b = "update_lane i (\<lambda>l. l\<lparr>ln_busy := False\<rparr>) b"
  have "table_ok ?b p" for p
  proof -
    have "table_ok b p" using ok by (simp add: broker_ok_def)
    then show ?thesis by (auto simp: table_ok_def declared_size_def update_lane_nth)
  qed
  moreover have "call_ok ?b c" if "c \<in> set (br_calls b)" for c
    using ok that free by (auto simp: broker_ok_def call_ok_def update_lane_nth)
  ultimately show ?thesis
    using ok update_declared [of "\<lambda>l. l\<lparr>ln_busy := False\<rparr>" b i] by (simp add: broker_ok_def)
qed

lemma settle_call_ok: "broker_ok b \<Longrightarrow> broker_ok (settle_call ir b)"
proof (cases "find (\<lambda>c. bc_id c = fst ir) (br_calls b)")
  case (Some c)
  assume ok: "broker_ok b"
  have c: "c \<in> set (br_calls b)" "fst ir = bc_id c" using Some by (auto simp: find_Some_iff)
  have "broker_ok (b\<lparr>br_calls := remove1 c (br_calls b), br_results := br_results b @ [(fst ir, snd ir)]\<rparr>)"
    by (rule remove_call [OF ok c])
  with remove_call(2) [OF ok c] Some show ?thesis
    by (auto simp: settle_call_def Let_def intro!: retire_ok release_lane)
qed (simp add: settle_call_def)

lemma settle_all_ok: "broker_ok b \<Longrightarrow> broker_ok (settle_all ids r b)"
  unfolding settle_all_def by (induction ids arbitrary: b) (simp_all add: settle_call_ok)

text \<open>Adding a call on a lane nobody else uses.\<close>

lemma add_call:
  assumes ok: "broker_ok b" and i: "i < length (br_entries b)" "ln_busy (br_entries b ! i)"
      "ln_pool (br_entries b ! i) = p" and free: "\<forall>d\<in>set (br_calls b). bc_lane d \<noteq> i"
  shows "broker_ok (b\<lparr>br_nextId := Suc (br_nextId b), br_calls := br_calls b @
    [\<lparr>bc_id = br_nextId b, bc_pool = p, bc_op = op, bc_lane = i, bc_deadlineMs = d\<rparr>]\<rparr>)"
  using assms by (auto simp: broker_ok_def call_ok_def ids_ok_def)

lemma checkout_ok:
  assumes ok: "broker_ok b" and cfg: "map_get (br_pools b) p = Some cfg"
    and out: "checkout fails p cfg b = (Inr i, b1)"
  shows "broker_ok b1 \<and> br_calls b1 = br_calls b \<and> i < length (br_entries b1) \<and>
    ln_busy (br_entries b1 ! i) \<and> ln_pool (br_entries b1 ! i) = p \<and>
    (\<forall>d\<in>set (br_calls b1). bc_lane d \<noteq> i)"
proof (cases "find (\<lambda>i. lane_free (br_entries b ! i)) (lanes_of p b)")
  case (Some j)
  with out have ij: "i = j" "b1 = update_lane i (\<lambda>l. l\<lparr>ln_busy := True\<rparr>) b"
    by (auto simp: checkout_def split: if_splits)
  from Some have j: "j \<in> set (lanes_of p b)" "\<not> ln_busy (br_entries b ! j)"
    by (auto simp: find_Some_iff lane_free_def)
  have "table_ok b p" using ok by (simp add: broker_ok_def)
  with j have at: "i < length (br_entries b)" "ln_pool (br_entries b ! i) = p"
    by (auto simp: table_ok_def ij)
  have unused: "\<forall>d\<in>set (br_calls b). bc_lane d \<noteq> i"
    using ok j ij by (auto simp: broker_ok_def call_ok_def)
  have "table_ok b1 q" for q
  proof -
    have "table_ok b q" using ok by (simp add: broker_ok_def)
    then show ?thesis by (auto simp: table_ok_def declared_size_def update_lane_nth ij)
  qed
  moreover have "call_ok b1 c" if "c \<in> set (br_calls b)" for c
    using ok that by (auto simp: broker_ok_def call_ok_def update_lane_nth ij)
  ultimately have "broker_ok b1"
    using ok update_declared [of "\<lambda>l. l\<lparr>ln_busy := True\<rparr>" b i] by (simp add: broker_ok_def ij)
  with at unused show ?thesis by (simp add: ij update_lane_nth)
next
  case None
  with out have b1: "i = length (br_entries b)"
      "b1 = b\<lparr>br_entries := br_entries b @ [fresh_lane p cfg], br_lanes := map_set p (lanes_of p b @ [i]) (br_lanes b)\<rparr>"
    and room: "int (length (lanes_of p b)) < pool_size cfg"
    by (auto simp: checkout_def spawnLane_def Let_def split: if_splits option.splits)
  have f: "br_entries b1 = br_entries b @ [fresh_lane p cfg]" "br_pools b1 = br_pools b" "br_calls b1 = br_calls b"
      "br_results b1 = br_results b" "br_nextId b1 = br_nextId b"
    by (simp_all add: b1)
  have dec: "declared b1 = declared b" by (rule declared_pools) (simp add: f)
  have lanes: "lanes_of q b1 = (if q = p then lanes_of p b @ [i] else lanes_of q b)" for q
    by (simp add: b1 lanes_of_def)
  have "table_ok b1 q" for q
  proof -
    have "table_ok b q" and "table_ok b p" using ok by (simp_all add: broker_ok_def)
    then have old: "\<forall>j\<in>set (lanes_of q b). j < length (br_entries b) \<and> ln_pool (br_entries b ! j) = q \<and>
        ln_malformed (br_entries b ! j) \<le> MALFORMED_LIMIT" and d: "distinct (lanes_of q b)"
      and size: "lanes_of q b \<noteq> [] \<longrightarrow> int (length (lanes_of q b)) \<le> declared_size b q"
      by (simp_all add: table_ok_def)
    have same: "declared_size b1 q = declared_size b q" by (simp add: declared_size_def f)
    show ?thesis
    proof (cases "q = p")
      case True
      have "int (length (lanes_of p b)) < declared_size b p"
        using room cfg by (simp add: declared_size_def)
      with True old d same show ?thesis
        by (auto simp: table_ok_def lanes f b1(1) nth_append fresh_lane_def)
    next
      case False
      with old d size same show ?thesis by (auto simp: table_ok_def lanes f nth_append)
    qed
  qed
  moreover have "call_ok b1 c \<and> bc_lane c < i" if "c \<in> set (br_calls b)" for c
    using ok that by (auto simp: broker_ok_def call_ok_def f b1(1) nth_append)
  moreover have "declared b (fresh_lane p cfg)" using cfg by (simp add: declared_def fresh_lane_def)
  ultimately have "broker_ok b1 \<and> (\<forall>d\<in>set (br_calls b). bc_lane d \<noteq> i)"
    using ok by (auto simp: broker_ok_def dec ids_ok_def f)
  then show ?thesis by (simp add: f b1(1) fresh_lane_def)
qed

lemma broker_call_ok: "broker_ok b \<Longrightarrow> broker_ok (snd (broker_call fails unwritten req b))"
proof (cases "call_guard req b")
  case (Inr t)
  assume ok: "broker_ok b"
  obtain cfg op d where t: "t = (cfg, op, d)" by (cases t)
  have cfg: "map_get (br_pools b) (call_pool req) = Some cfg"
    using Inr t by (auto simp: call_guard_def split: if_splits option.splits json.splits)
  obtain out b1 where out: "checkout fails (call_pool req) cfg b = (out, b1)"
    by (cases "checkout fails (call_pool req) cfg b")
  show ?thesis
  proof (cases out)
    case (Inl err)
    with out have "b1 = b" by (auto simp: checkout_def Let_def split: if_splits option.splits prod.splits)
    with Inl Inr t out ok show ?thesis by (simp add: broker_call_def)
  next
    case (Inr i)
    note co = checkout_ok [OF ok cfg, of fails i b1]
    have "broker_ok (b1\<lparr>br_nextId := Suc (br_nextId b1), br_calls := br_calls b1 @
        [\<lparr>bc_id = br_nextId b1, bc_pool = call_pool req, bc_op = op, bc_lane = i, bc_deadlineMs = d\<rparr>]\<rparr>)"
      using co out Inr by (intro add_call) simp_all
    then have "broker_ok (update_lane i (\<lambda>l. l\<lparr>ln_pending := ln_pending l @ [br_nextId b1]\<rparr>)
        (b1\<lparr>br_nextId := Suc (br_nextId b1), br_calls := br_calls b1 @
          [\<lparr>bc_id = br_nextId b1, bc_pool = call_pool req, bc_op = op, bc_lane = i, bc_deadlineMs = d\<rparr>]\<rparr>))"
      by (intro update_benign) simp_all
    with \<open>call_guard req b = Inr t\<close> t out Inr show ?thesis
      by (simp add: broker_call_def Let_def settle_call_ok split: option.split)
  qed
qed (simp add: broker_call_def)

text \<open>A lane over the malformed limit leaves its table in the same step.\<close>

lemma retire_update: "retire p i (update_lane j f b) = update_lane j f (retire p i b)"
  if "i \<noteq> j \<or> (\<forall>l. f (l\<lparr>ln_killed := True\<rparr>) = (f l)\<lparr>ln_killed := True\<rparr>)"
  using that
  by (auto simp: retire_def update_lane_def lanes_of_def list_update_swap nth_list_update)

lemma update_unlisted:
  assumes ok: "broker_ok b" and un: "\<forall>p. i \<notin> set (lanes_of p b)"
    and f: "\<And>l. ln_pool (f l) = ln_pool l \<and> ln_cmd (f l) = ln_cmd l \<and> ln_busy (f l) = ln_busy l"
  shows "broker_ok (update_lane i f b)"
proof -
  have "table_ok (update_lane i f b) p" for p
  proof -
    have "table_ok b p" using ok by (simp add: broker_ok_def)
    with un show ?thesis by (auto simp: table_ok_def declared_size_def update_lane_nth)
  qed
  moreover have "call_ok (update_lane i f b) c" if "c \<in> set (br_calls b)" for c
    using ok that f by (auto simp: broker_ok_def call_ok_def update_lane_nth)
  ultimately show ?thesis
    using ok f update_declared [of f b i] by (simp add: broker_ok_def)
qed

lemma update_bounded:
  assumes ok: "broker_ok b"
    and f: "\<And>l. ln_pool (f l) = ln_pool l \<and> ln_cmd (f l) = ln_cmd l \<and> ln_busy (f l) = ln_busy l"
    and m: "i < length (br_entries b) \<Longrightarrow> ln_malformed (f (br_entries b ! i)) \<le> MALFORMED_LIMIT"
  shows "broker_ok (update_lane i f b)"
proof -
  have "table_ok (update_lane i f b) p" for p
  proof -
    have "table_ok b p" using ok by (simp add: broker_ok_def)
    with m f show ?thesis by (auto simp: table_ok_def declared_size_def update_lane_nth)
  qed
  moreover have "call_ok (update_lane i f b) c" if "c \<in> set (br_calls b)" for c
    using ok that f by (auto simp: broker_ok_def call_ok_def update_lane_nth)
  ultimately show ?thesis
    using ok f update_declared [of f b i] by (simp add: broker_ok_def)
qed

lemma unlisted_retired:
  assumes ok: "broker_ok b" and i: "i < length (br_entries b)"
  shows "\<forall>p. i \<notin> set (lanes_of p (retire (ln_pool (br_entries b ! i)) i b))"
proof
  fix p
  have "table_ok b p" using ok by (simp add: broker_ok_def)
  then show "i \<notin> set (lanes_of p (retire (ln_pool (br_entries b ! i)) i b))"
    using i by (cases "map_get (br_lanes b) p")
      (auto simp: retire_def table_ok_def lanes_of_def dest: notin_set_remove1 split: if_splits option.splits)
qed

lemma flagMalformed_ok:
  assumes ok: "broker_ok b" and i: "i < length (br_entries b)"
  shows "broker_ok (flagMalformed i b)"
proof -
  let ?f = "\<lambda>l. l\<lparr>ln_malformed := ln_malformed l + 1\<rparr>" and ?l = "br_entries b ! i"
  let ?b = "update_lane i ?f b"
  have l: "br_entries ?b ! i = ?f ?l" using i by (simp add: update_lane_nth)
  show ?thesis
  proof (cases "MALFORMED_LIMIT < ln_malformed (?f ?l)")
    case False
    then have "broker_ok ?b" by (intro update_bounded [OF ok]) simp_all
    with False l show ?thesis by (simp add: flagMalformed_def Let_def)
  next
    case True
    have "broker_ok (update_lane i ?f (retire (ln_pool ?l) i b))"
      by (rule update_unlisted [OF retire_ok [OF ok] unlisted_retired [OF ok i]]) simp
    then have "broker_ok (clear_pending i (update_lane i ?f (retire (ln_pool ?l) i b)))"
      unfolding clear_pending_def by (rule update_benign [rotated]) simp
    moreover have "retire (ln_pool ?l) i (clear_pending i ?b) =
        clear_pending i (update_lane i ?f (retire (ln_pool ?l) i b))"
      unfolding clear_pending_def by (simp add: retire_update)
    ultimately show ?thesis
      using True l by (simp add: flagMalformed_def Let_def settle_all_ok)
  qed
qed

lemma on_line_ok: "broker_ok b \<Longrightarrow> i < length (br_entries b) \<Longrightarrow> broker_ok (on_line i f b)"
  by (cases f) (auto simp: on_line_def intro!: settle_call_ok update_benign flagMalformed_ok)

lemma on_exit_ok: "broker_ok b \<Longrightarrow> broker_ok (on_exit i code sig b)"
  by (auto simp: on_exit_def clear_pending_def Let_def intro!: settle_all_ok update_benign)

lemma on_start_timeout_ok: "broker_ok b \<Longrightarrow> broker_ok (on_start_timeout i b)"
  by (auto simp: on_start_timeout_def clear_pending_def Let_def intro!: settle_all_ok update_benign retire_ok)

lemma on_deadline_ok: "broker_ok b \<Longrightarrow> broker_ok (on_deadline n b)"
  by (auto simp: on_deadline_def intro!: settle_call_ok split: option.split)

lemma shutdown_ok: "broker_ok b \<Longrightarrow> broker_ok (shutdownAll unwritable b)"
proof -
  assume ok: "broker_ok b"
  have kills: "broker_ok b \<Longrightarrow> broker_ok (fold (\<lambda>i. update_lane i (\<lambda>l. l\<lparr>ln_killed := True\<rparr>)) is b)" for "is" b
    by (induction "is" arbitrary: b) (simp_all add: update_benign)
  have "broker_ok (b\<lparr>br_shutDown := True, br_lanes := []\<rparr>)"
    using ok by (simp add: broker_ok_def table_ok_def call_ok_def ids_ok_def lanes_of_def)
  then show ?thesis unfolding shutdownAll_def Let_def by (rule kills)
qed

lemma broker_step_ok: "broker_ok b \<Longrightarrow> broker_ok (broker_step ev b)"
  by (cases ev) (simp_all add: broker_call_ok on_line_ok flagMalformed_ok on_exit_ok on_start_timeout_ok
      on_deadline_ok shutdown_ok kill_cap_def update_benign)

lemma run_broker_ok: "broker_ok b \<Longrightarrow> broker_ok (run_broker evs b)"
  by (induction evs arbitrary: b) (simp_all add: run_broker_def broker_step_ok)

lemma new_broker_ok: "broker_ok (new_broker pools)"
  by (simp add: broker_ok_def new_broker_def table_ok_def lanes_of_def ids_ok_def)

section \<open>The properties\<close>

lemma validatePool_sizes: "validatePool p = Inr cfg \<Longrightarrow> 1 \<le> pool_size cfg \<and> pool_size cfg \<le> 4 \<and> pc_cmd cfg \<noteq> []"
  by (auto simp: validatePool_def read_int_in_def read_cmd_def pool_size_def
      split: if_splits json.splits option.splits list.splits)

lemma declare_pools_sizes:
  "declare_pools items pools = Inr ps \<Longrightarrow>
     \<forall>p cfg. map_get pools p = Some cfg \<longrightarrow> 1 \<le> pool_size cfg \<and> pool_size cfg \<le> 4 \<and> pc_cmd cfg \<noteq> [] \<Longrightarrow>
     \<forall>p cfg. map_get ps p = Some cfg \<longrightarrow> 1 \<le> pool_size cfg \<and> pool_size cfg \<le> 4 \<and> pc_cmd cfg \<noteq> []"
proof (induction items arbitrary: pools)
  case (Cons item items)
  then obtain pool where pool: "validatePool item = Inr pool"
    and rest: "declare_pools items (map_set (pc_id pool) pool pools) = Inr ps"
    by (auto simp: res_bind_Inr split: if_splits)
  show ?case
    by (rule Cons.IH [OF rest]) (use Cons.prems(2) validatePool_sizes [OF pool] in \<open>auto split: if_splits\<close>)
qed simp

lemma parseBrokerConfig_sizes:
  "parseBrokerConfig config = Inr ps \<Longrightarrow> map_get ps p = Some cfg \<Longrightarrow>
     1 \<le> pool_size cfg \<and> pool_size cfg \<le> 4 \<and> pc_cmd cfg \<noteq> []"
  using declare_pools_sizes [of _ "[]" ps] by (auto simp: parseBrokerConfig_def split: json.splits)

lemma pools_stay: "br_pools (run_broker evs b) = br_pools b"
proof -
  have settle: "br_pools (settle_call ir b) = br_pools b" for ir b
    by (simp add: settle_call_def Let_def split: option.split)
  have all: "br_pools (settle_all ids r b) = br_pools b" for ids r b
    unfolding settle_all_def by (induction ids arbitrary: b) (simp_all add: settle)
  have flag: "br_pools (flagMalformed i b) = br_pools b" for i b
    by (simp add: flagMalformed_def Let_def all clear_pending_def)
  have call: "br_pools (snd (broker_call f w req b)) = br_pools b" for f w req b
    by (auto simp: broker_call_def checkout_def spawnLane_def settle Let_def split: sum.split option.split prod.split)
  have shut: "br_pools (shutdownAll u b) = br_pools b" for u b
  proof -
    have "br_pools (fold (\<lambda>i. update_lane i (\<lambda>l. l\<lparr>ln_killed := True\<rparr>)) is b) = br_pools b" for "is" b
      by (induction "is" arbitrary: b) simp_all
    then show ?thesis by (simp add: shutdownAll_def Let_def)
  qed
  have "br_pools (broker_step ev b) = br_pools b" for ev b
    by (cases ev) (auto simp: call flag shut settle all on_line_def on_exit_def on_start_timeout_def
        on_deadline_def kill_cap_def clear_pending_def Let_def split: child_frame.split option.split)
  then show ?thesis
    by (induction evs arbitrary: b) (simp_all add: run_broker_def)
qed

text \<open>(C19) The caller never names a command: after any calls, answers, crashes, floods, deadlines and
  shutdowns, every child ever spawned runs the command the signed configuration declares for its pool;
  a pool has at most its declared number of lanes, four at most, none over the malformed limit; and no
  two open calls share a lane.\<close>

theorem broker_runs_declared:
  assumes config: "parseBrokerConfig config = Inr pools" and run: "b = run_broker evs (new_broker pools)"
  shows "list_all (\<lambda>l. \<exists>cfg. map_get pools (ln_pool l) = Some cfg \<and> ln_cmd l = pc_cmd cfg \<and> pc_cmd cfg \<noteq> [])
      (br_entries b) \<and>
    length (lanes_of p b) \<le> 4 \<and>
    (case map_get pools p of
       Some cfg \<Rightarrow> int (length (lanes_of p b)) \<le> pool_size cfg
     | None \<Rightarrow> lanes_of p b = []) \<and>
    list_all (\<lambda>i. ln_malformed (br_entries b ! i) \<le> MALFORMED_LIMIT) (lanes_of p b) \<and>
    distinct (map bc_lane (br_calls b))"
proof -
  have ok: "broker_ok b" unfolding run by (rule run_broker_ok) (rule new_broker_ok)
  have pools: "br_pools b = pools" by (simp add: run pools_stay new_broker_def)
  have t: "table_ok b p" using ok by (simp add: broker_ok_def)
  have sizes: "map_get pools p = Some cfg \<Longrightarrow> 1 \<le> pool_size cfg \<and> pool_size cfg \<le> 4 \<and> pc_cmd cfg \<noteq> []" for p cfg
    using parseBrokerConfig_sizes [OF config] .
  have "list_all (\<lambda>l. \<exists>cfg. map_get pools (ln_pool l) = Some cfg \<and> ln_cmd l = pc_cmd cfg \<and> pc_cmd cfg \<noteq> []) (br_entries b)"
    using ok sizes by (fastforce simp: broker_ok_def declared_def pools list_all_iff split: option.splits)
  moreover have "length (lanes_of p b) \<le> 4 \<and> (case map_get pools p of
       Some cfg \<Rightarrow> int (length (lanes_of p b)) \<le> pool_size cfg
     | None \<Rightarrow> lanes_of p b = [])"
  proof (cases "map_get pools p")
    case None
    then have "declared_size b p = 0" by (simp add: declared_size_def pools)
    with t None show ?thesis by (cases "lanes_of p b") (auto simp: table_ok_def)
  next
    case (Some cfg)
    with t sizes [OF Some] show ?thesis
      by (cases "lanes_of p b = []") (auto simp: table_ok_def declared_size_def pools)
  qed
  ultimately show ?thesis
    using ok t by (auto simp: broker_ok_def table_ok_def list_all_iff)
qed

text \<open>Every promise is answered at most once, by the child, by its exit, by the malformed budget or by the
  deadline, and the deadline never leaves one open.\<close>

theorem broker_answers_once:
  fixes b :: broker
  shows "let b = run_broker evs (new_broker pools) in
    mset (map bc_id (br_calls b)) + mset (map fst (br_results b)) = mset [1..<br_nextId b] \<and>
    n \<notin> set (map bc_id (br_calls (on_deadline n b)))"
proof -
  define b where "b = run_broker evs (new_broker pools)"
  have ok: "broker_ok b" unfolding b_def by (rule run_broker_ok) (rule new_broker_ok)
  then have ids: "mset (map bc_id (br_calls b) @ map fst (br_results b)) = mset [1..<br_nextId b]"
    by (simp add: broker_ok_def ids_ok_def)
  have "distinct (map bc_id (br_calls b) @ map fst (br_results b))"
    using mset_eq_imp_distinct_iff [OF ids] by simp
  then have d: "distinct (map bc_id (br_calls b))" by simp
  have "n \<notin> set (map bc_id (br_calls (on_deadline n b)))"
  proof (cases "find (\<lambda>c. bc_id c = n) (br_calls b)")
    case (Some c)
    then have c: "c \<in> set (br_calls b)" "bc_id c = n" by (auto simp: find_Some_iff)
    from split_list [OF c(1)] obtain xs ys where xy: "br_calls b = xs @ c # ys" by blast
    with d c have "c \<notin> set xs" "n \<notin> set (map bc_id (xs @ ys))" by auto
    with Some xy show ?thesis by (auto simp: on_deadline_def settle_call_def Let_def remove1_append)
  next
    case None
    then have "on_deadline n b = b" by (simp add: on_deadline_def)
    with None show ?thesis by (auto simp: find_None_iff)
  qed
  with ids show ?thesis by (simp add: b_def [symmetric])
qed

text \<open>A child that exits while it is idle is not taken out of its pool: the next call is handed to the dead
  lane, and with the pool full of dead lanes no live child is ever started for it; that call can only
  fail, which retires the lane.\<close>

definition sample_pools :: json where
  "sample_pools = JObj [(''processPools'', JArr [JObj
     [(''id'', JStr ''py''), (''cmd'', JArr [JStr ''python'']), (''stdio'', JStr ''ndjson'')]])]"

definition sample_broker :: broker where
  "sample_broker = new_broker (projr (parseBrokerConfig sample_pools))"

definition sample_call :: json where
  "sample_call = JObj [(''pool'', JStr ''py''), (''op'', JStr ''echo'')]"

definition idle_exit :: "broker_event list" where
  "idle_exit =
     [CallEvent None None sample_call, LineEvent 0 ReadyFrame,
      LineEvent 0 (ReturnFrame 1 (Some \<lparr>pr_ok = True, pr_data = JNull, pr_error = None, pr_detail = None\<rparr>)),
      ExitEvent 0 (Some 0) None]"

theorem dead_lane_reused:
  "let b = run_broker idle_exit sample_broker;
       (out, b') = broker_call None None sample_call b in
    map ln_exited (br_entries b) = [True] \<and> lanes_of ''py'' b = [0] \<and>
    out = Inr 2 \<and> map bc_lane (br_calls b') = [0] \<and> length (br_entries b') = 1 \<and>
    map (pr_ok \<circ> snd) (br_results (on_deadline 2 b')) = [True, False]"
  by code_simp

lemma broker_runs_declared_witness:
  "length (lanes_of ''py'' (run_broker idle_exit sample_broker)) \<le> 4"
proof -
  have "parseBrokerConfig sample_pools = Inr (projr (parseBrokerConfig sample_pools))" by code_simp
  from broker_runs_declared [OF this refl, where evs = idle_exit and p = "''py''"] show ?thesis
    by (simp add: sample_broker_def)
qed

end
