(* ===== verification/Nlcl_Text.thy ===== *)
theory Nlcl_Text
  imports Omega_Prelude
begin

text \<open>
  The deterministic text utilities of the natural command layer
  (\<open>plugins/vivim-nlcl-pure/src/text.ts\<close>, and \<open>contactFromAddress\<close> of its \<open>index.ts\<close>): folding, slugs,
  word splitting and the bounded edit distance behind the verb autocorrection. The distance is proved
  equal to the least number of edits; slugs are proved to have the grammar of contact ids.

  Characters are code units below 256, so the library functions are the Latin-1 parts of
  \<open>toLowerCase\<close>, \<open>toUpperCase\<close> and \<open>normalize("NFD")\<close>. Two letters have their capital form above that
  range (0xFF and 0xB5) and are left as they are by \<open>upper_text\<close>.
\<close>

section \<open>Characters\<close>

abbreviation code :: "char \<Rightarrow> nat" where
  "code \<equiv> of_char"

definition lower_char :: "char \<Rightarrow> char" where
  "lower_char c =
     (if 65 \<le> code c \<and> code c \<le> 90 \<or> 192 \<le> code c \<and> code c \<le> 222 \<and> code c \<noteq> 215
      then char_of (code c + 32) else c)"

definition upper_text :: "char \<Rightarrow> string" where
  "upper_text c =
     (if code c = 223 then ''SS''
      else if 97 \<le> code c \<and> code c \<le> 122 \<or> 224 \<le> code c \<and> code c \<le> 254 \<and> code c \<noteq> 247
      then [char_of (code c - 32)] else [c])"

text \<open>The base letter of a lower-case letter with a diacritic: the canonical decomposition without its
  combining mark.\<close>

definition base_char :: "char \<Rightarrow> char" where
  "base_char c =
     (let n = code c in
      if 224 \<le> n \<and> n \<le> 229 then CHR ''a''
      else if n = 231 then CHR ''c''
      else if 232 \<le> n \<and> n \<le> 235 then CHR ''e''
      else if 236 \<le> n \<and> n \<le> 239 then CHR ''i''
      else if n = 241 then CHR ''n''
      else if 242 \<le> n \<and> n \<le> 246 then CHR ''o''
      else if 249 \<le> n \<and> n \<le> 252 then CHR ''u''
      else if n = 253 \<or> n = 255 then CHR ''y''
      else c)"

definition is_space :: "char \<Rightarrow> bool" where
  "is_space c \<longleftrightarrow> 9 \<le> code c \<and> code c \<le> 13 \<or> code c = 32 \<or> code c = 160"

definition slug_char :: "char \<Rightarrow> bool" where
  "slug_char c \<longleftrightarrow> 97 \<le> code c \<and> code c \<le> 122 \<or> 48 \<le> code c \<and> code c \<le> 57"

abbreviation toLowerCase :: "string \<Rightarrow> string" where
  "toLowerCase \<equiv> map lower_char"

section \<open>Folding and slugs\<close>

text \<open>\<open>replace(/\s+/g, " ")\<close> and \<open>trim()\<close>.\<close>

lemma dropWhile_smaller [termination_simp]: "length (dropWhile p xs) < Suc (length xs)"
  by (simp add: length_dropWhile_le le_imp_less_Suc)

fun squeeze :: "string \<Rightarrow> string" where
  "squeeze [] = []"
| "squeeze (c # cs) =
     (if is_space c then CHR '' '' # squeeze (dropWhile is_space cs) else c # squeeze cs)"

definition trim :: "string \<Rightarrow> string" where
  "trim s = rev (dropWhile is_space (rev (dropWhile is_space s)))"

definition fold_text :: "string \<Rightarrow> string" where
  "fold_text s =
     trim (squeeze (map (\<lambda>c. if code c = 9 \<or> code c = 10 then CHR '' '' else c)
       (map base_char (toLowerCase s))))"

definition slug_step :: "char \<Rightarrow> string \<Rightarrow> string" where
  "slug_step c out =
     (if slug_char c then out @ [c]
      else if out \<noteq> [] \<and> \<not> ends_with out ''-'' then out @ ''-''
      else out)"

definition slug :: "string \<Rightarrow> string" where
  "slug s =
     (let out = rev (dropWhile (\<lambda>c. c = CHR ''-'') (rev (fold slug_step (fold_text s) [])))
      in if out = [] then ''x'' else out)"

text \<open>\<open>split(/[...]+/).filter(Boolean)\<close>: the runs of characters outside the class.\<close>

function split_runs :: "(char \<Rightarrow> bool) \<Rightarrow> string \<Rightarrow> string list" where
  "split_runs p s =
     (let t = dropWhile p s in
      if t = [] then [] else takeWhile (\<lambda>c. \<not> p c) t # split_runs p (dropWhile (\<lambda>c. \<not> p c) t))"
  by pat_completeness auto

termination
proof (relation "measure (\<lambda>(p, s). length s)")
  fix p and s t :: string
  assume t: "t = dropWhile p s" "t \<noteq> []"
  then have "\<not> p (hd t)" using hd_dropWhile [of p s] by simp
  with t(2) have "dropWhile (\<lambda>c. \<not> p c) t = dropWhile (\<lambda>c. \<not> p c) (tl t)"
    by (cases t) auto
  then have "length (dropWhile (\<lambda>c. \<not> p c) t) \<le> length (tl t)"
    by (simp add: length_dropWhile_le del: length_tl)
  also have "\<dots> < length t" using t(2) by (cases t) auto
  also have "\<dots> \<le> length s" unfolding t(1) by (rule length_dropWhile_le)
  finally show "((p, dropWhile (\<lambda>c. \<not> p c) t), p, s) \<in> measure (\<lambda>(p, s). length s)" by simp
qed simp

declare split_runs.simps [simp del]

definition words :: "string \<Rightarrow> string list" where
  "words s = split_runs (\<lambda>c. is_space c \<or> c = CHR '','' \<or> c = CHR '';'') (fold_text s)"

definition local_sep :: "char \<Rightarrow> bool" where
  "local_sep c \<longleftrightarrow> c = CHR ''.'' \<or> c = CHR ''_'' \<or> c = CHR ''-''"

fun capitalise :: "string \<Rightarrow> string" where
  "capitalise [] = []"
| "capitalise (c # cs) = upper_text c @ cs"

definition prettifyLocalPart :: "string \<Rightarrow> string" where
  "prettifyLocalPart local = join_with '' '' (map capitalise (split_runs local_sep local))"

text \<open>The straight and the angle quotes; the others are outside the character range.\<close>

definition unquote :: "string \<Rightarrow> string" where
  "unquote s =
     (let t = trim s in
      case find (\<lambda>(a, b). 2 \<le> length t \<and> starts_with t [a] \<and> ends_with t [b])
             [(CHR 0x27, CHR 0x27), (CHR 0x22, CHR 0x22), (CHR 0xAB, CHR 0xBB)] of
        Some _ \<Rightarrow> take (length t - 2) (drop 1 t)
      | None \<Rightarrow> t)"

section \<open>Contacts\<close>

record entity_view =
  ev_id :: string
  ev_label :: string
  ev_names :: "string list"
  ev_address :: string

definition contactFromAddress :: "string \<Rightarrow> entity_view" where
  "contactFromAddress address =
     (let addressFolded = toLowerCase address;
          local = hd (split_on (CHR ''@'') addressFolded);
          label = prettifyLocalPart local;
          names = [local, addressFolded, toLowerCase label] @
                  filter (\<lambda>s. 3 \<le> length s) (split_runs local_sep local)
      in \<lparr>ev_id = ''contact:'' @ slug local, ev_label = label, ev_names = uniq names,
          ev_address = addressFolded\<rparr>)"

section \<open>The bounded edit distance\<close>

text \<open>One row of the table: \<open>left\<close> is the cell to the left, the row above starts with the diagonal
  cell.\<close>

fun lev_cells :: "char \<Rightarrow> nat \<Rightarrow> nat list \<Rightarrow> string \<Rightarrow> nat list" where
  "lev_cells c left (d # u # up) (y # ys) =
     (let x = min (min (u + 1) (left + 1)) (d + (if c = y then 0 else 1))
      in x # lev_cells c x (u # up) ys)"
| "lev_cells c left up ys = []"

definition lev_row :: "char \<Rightarrow> nat \<Rightarrow> nat list \<Rightarrow> string \<Rightarrow> nat list" where
  "lev_row c i prev b = i # lev_cells c i prev b"

fun lev_rows :: "nat \<Rightarrow> nat \<Rightarrow> nat list \<Rightarrow> string \<Rightarrow> string \<Rightarrow> nat" where
  "lev_rows cap i prev [] b = prev ! length b"
| "lev_rows cap i prev (c # cs) b =
     (let cur = lev_row c i prev b
      in if list_all (\<lambda>x. cap < x) cur then cap + 1 else lev_rows cap (i + 1) cur cs b)"

definition lev :: "string \<Rightarrow> string \<Rightarrow> nat \<Rightarrow> nat" where
  "lev a b cap =
     (if int cap < \<bar>int (length a) - int (length b)\<bar> then cap + 1
      else if a = [] then length b
      else if b = [] then length a
      else lev_rows cap 1 [0..<Suc (length b)] a b)"

datatype verb_match = ExactVerb | TaughtVerb | FuzzyVerb

definition close_verb :: "string \<Rightarrow> string \<Rightarrow> bool" where
  "close_verb norm v \<longleftrightarrow> \<bar>int (length v) - int (length norm)\<bar> \<le> 1 \<and> lev norm v 1 \<le> 1"

definition classifyVerb :: "string \<Rightarrow> string list \<Rightarrow> string list \<Rightarrow> (verb_match \<times> string) option" where
  "classifyVerb norm builtin taught =
     (if norm \<in> set builtin then Some (ExactVerb, norm)
      else if norm \<in> set taught then Some (TaughtVerb, norm)
      else if 5 \<le> length norm then
        (case find (close_verb norm) builtin of
           Some v \<Rightarrow> Some (FuzzyVerb, v)
         | None \<Rightarrow>
             (case find (close_verb norm) taught of
                Some v \<Rightarrow> Some (FuzzyVerb, v)
              | None \<Rightarrow> None))
      else None)"

section \<open>The distance is the least number of edits\<close>

text \<open>\<open>edits k xs ys\<close>: \<open>k\<close> insertions, deletions and replacements, made from left to right, turn \<open>xs\<close>
  into \<open>ys\<close>.\<close>

inductive edits :: "nat \<Rightarrow> 'a list \<Rightarrow> 'a list \<Rightarrow> bool" where
  Done: "edits 0 [] []"
| Keep: "edits k xs ys \<Longrightarrow> edits k (xs @ [x]) (ys @ [x])"
| Replace: "edits k xs ys \<Longrightarrow> edits (Suc k) (xs @ [x]) (ys @ [y])"
| Delete: "edits k xs ys \<Longrightarrow> edits (Suc k) (xs @ [x]) ys"
| Insert: "edits k xs ys \<Longrightarrow> edits (Suc k) xs (ys @ [y])"

text \<open>The textbook recursion, on the reversed strings.\<close>

fun ed :: "'a list \<Rightarrow> 'a list \<Rightarrow> nat" where
  "ed [] ys = length ys"
| "ed (x # xs) [] = Suc (length xs)"
| "ed (x # xs) (y # ys) =
     min (min (ed xs (y # ys) + 1) (ed (x # xs) ys + 1)) (ed xs ys + (if x = y then 0 else 1))"

definition dist :: "'a list \<Rightarrow> 'a list \<Rightarrow> nat" where
  "dist xs ys = ed (rev xs) (rev ys)"

lemma ed_Nil2 [simp]: "ed xs [] = length xs"
  by (cases xs) auto

lemma dist_Nil [simp]: "dist [] ys = length ys" "dist xs [] = length xs"
  by (simp_all add: dist_def)

lemma dist_snoc:
  "dist (xs @ [x]) (ys @ [y]) =
     min (min (dist xs (ys @ [y]) + 1) (dist (xs @ [x]) ys + 1)) (dist xs ys + (if x = y then 0 else 1))"
  by (simp add: dist_def)

lemma edits_inserts: "edits (length ys) [] ys"
  by (induction ys rule: rev_induct) (auto intro: edits.intros)

lemma edits_deletes: "edits (length xs) xs []"
  by (induction xs rule: rev_induct) (auto intro: edits.intros)

lemma edits_ed: "edits (ed xs ys) (rev xs) (rev ys)"
proof (induction xs ys rule: ed.induct)
  case (1 ys)
  show ?case using edits_inserts [of "rev ys"] by simp
next
  case (2 x xs)
  show ?case using edits_deletes [of "rev (x # xs)"] by simp
next
  case (3 x xs y ys)
  have "edits (Suc (ed xs (y # ys))) (rev (x # xs)) (rev (y # ys))"
    using 3 Delete by fastforce
  moreover have "edits (Suc (ed (x # xs) ys)) (rev (x # xs)) (rev (y # ys))"
    using 3 Insert by fastforce
  moreover have "edits (ed xs ys + (if x = y then 0 else 1)) (rev (x # xs)) (rev (y # ys))"
    using 3 Keep Replace by fastforce
  ultimately show ?case by (simp add: min_def)
qed

lemma edits_dist: "edits (dist xs ys) xs ys"
  using edits_ed [of "rev xs" "rev ys"] by (simp add: dist_def)

lemma ed_length: "length xs \<le> ed xs ys + length ys \<and> length ys \<le> ed xs ys + length xs"
  by (induction xs ys rule: ed.induct) (auto simp: min_def)

text \<open>One more character changes the distance by at most one.\<close>

lemma ed_step: "ed xs ys \<le> ed (x # xs) ys + 1 \<and> ed xs ys \<le> ed xs (y # ys) + 1 \<and>
    ed (x # xs) ys \<le> ed xs ys + 1 \<and> ed xs (y # ys) \<le> ed xs ys + 1"
proof (induction "length xs + length ys" arbitrary: xs ys x y rule: less_induct)
  case less
  show ?case
  proof (cases xs; cases ys)
    fix x' xs' y' ys'
    assume xy: "xs = x' # xs'" "ys = y' # ys'"
    have b: "ed xs ys \<le> ed xs ys' + 1" and c: "ed xs ys' \<le> ed (x # xs) ys' + 1"
      using less [of xs ys' x y'] xy by auto
    have a: "ed xs ys \<le> ed xs' ys + 1" and d: "ed xs' ys \<le> ed xs' (y # ys) + 1"
      using less [of xs' ys x' y] xy by auto
    have "ed (x # xs) ys = min (min (ed xs ys + 1) (ed (x # xs) ys' + 1)) (ed xs ys' + (if x = y' then 0 else 1))"
      and "ed xs (y # ys) = min (min (ed xs' (y # ys) + 1) (ed xs ys + 1)) (ed xs' ys + (if x' = y then 0 else 1))"
      using xy by simp_all
    with a b c d show ?thesis by linarith
  qed (use ed_length [of "[x]" "tl ys"] ed_length [of "tl xs" "[y]"] in auto)
qed

lemma edits_least: "edits k xs ys \<Longrightarrow> dist xs ys \<le> k"
proof (induction rule: edits.induct)
  case (Keep k xs ys x)
  then show ?case by (simp add: dist_snoc)
next
  case (Replace k xs ys x y)
  then show ?case by (auto simp: dist_snoc min_def)
next
  case (Delete k xs ys x)
  then show ?case using ed_step [of "rev xs" "rev ys" x undefined] by (simp add: dist_def)
next
  case (Insert k xs ys y)
  then show ?case using ed_step [of "rev xs" "rev ys" undefined y] by (simp add: dist_def)
qed simp

lemma edits_iff_dist: "(\<exists>k\<le>n. edits k xs ys) \<longleftrightarrow> dist xs ys \<le> n"
  using edits_dist edits_least order_trans by blast

subsection \<open>The loop computes the table\<close>

text \<open>Row \<open>i\<close> of the table holds the distances of the prefix of length \<open>i\<close> to all prefixes of \<open>b\<close>.\<close>

definition table_row :: "string \<Rightarrow> string \<Rightarrow> nat list" where
  "table_row xs b = map (\<lambda>j. dist xs (take j b)) [0..<Suc (length b)]"

lemma table_row_nth: "j \<le> length b \<Longrightarrow> table_row xs b ! j = dist xs (take j b)"
  unfolding table_row_def by (subst nth_map) (simp_all del: upt_Suc)

lemma lev_cells_table:
  "lev_cells c (dist (xs @ [c]) ps) (map (\<lambda>j. dist xs (ps @ take j ys)) [0..<Suc (length ys)]) ys =
     map (\<lambda>j. dist (xs @ [c]) (ps @ take (Suc j) ys)) [0..<length ys]"
proof (induction ys arbitrary: ps)
  case (Cons y ys)
  let ?u = "map (\<lambda>j. dist xs ((ps @ [y]) @ take j ys)) [0..<Suc (length ys)]"
  obtain v where u: "?u = dist xs (ps @ [y]) # v" unfolding map_upt_Suc by simp
  have "map (\<lambda>j. dist xs (ps @ take j (y # ys))) [0..<Suc (length (y # ys))] = dist xs ps # ?u"
    unfolding length_Cons by (subst map_upt_Suc) simp
  also have "\<dots> = dist xs ps # dist xs (ps @ [y]) # v" using u by simp
  finally have row: "map (\<lambda>j. dist xs (ps @ take j (y # ys))) [0..<Suc (length (y # ys))] =
      dist xs ps # dist xs (ps @ [y]) # v" .
  have cell: "min (min (dist xs (ps @ [y]) + 1) (dist (xs @ [c]) ps + 1)) (dist xs ps + (if c = y then 0 else 1)) =
      dist (xs @ [c]) (ps @ [y])"
    by (simp only: dist_snoc)
  have "lev_cells c (dist (xs @ [c]) ps) (dist xs ps # dist xs (ps @ [y]) # v) (y # ys) =
      dist (xs @ [c]) (ps @ [y]) # lev_cells c (dist (xs @ [c]) (ps @ [y])) ?u ys"
    by (simp only: u lev_cells.simps Let_def cell)
  also have "\<dots> = map (\<lambda>j. dist (xs @ [c]) (ps @ take (Suc j) (y # ys))) [0..<length (y # ys)]"
    unfolding Cons.IH [of "ps @ [y]"] length_Cons by (subst map_upt_Suc) simp
  finally show ?case unfolding row .
qed simp

lemma lev_row_table: "lev_row c (Suc (length xs)) (table_row xs b) b = table_row (xs @ [c]) b"
  using lev_cells_table [of c xs "[]" b]
  unfolding lev_row_def table_row_def map_upt_Suc by simp

lemma table_row_first: "table_row [] b = [0..<Suc (length b)]"
  unfolding table_row_def by (rule nth_equalityI) (simp_all del: upt_Suc)

text \<open>The smallest cell of a row is a lower bound for every later row, so giving up is sound.\<close>

lemma row_bound: "\<forall>j\<le>length b. n \<le> dist xs (take j b) \<Longrightarrow> j \<le> length b \<Longrightarrow> n \<le> dist (xs @ [c]) (take j b)"
proof (induction j)
  case 0
  then show ?case using spec [of "\<lambda>j. j \<le> length b \<longrightarrow> n \<le> dist xs (take j b)" 0] by simp
next
  case (Suc j)
  then have "take (Suc j) b = take j b @ [b ! j]" by (simp add: take_Suc_conv_app_nth)
  moreover have "n \<le> dist xs (take j b)" "n \<le> dist xs (take (Suc j) b)" "n \<le> dist (xs @ [c]) (take j b)"
    using Suc by auto
  ultimately show ?case by (simp add: dist_snoc)
qed

lemma row_bound_all: "\<forall>j\<le>length b. n \<le> dist xs (take j b) \<Longrightarrow> n \<le> dist (xs @ cs) b"
proof (induction cs arbitrary: xs)
  case (Cons c cs)
  have "\<forall>j\<le>length b. n \<le> dist (xs @ [c]) (take j b)"
    using row_bound [OF Cons.prems] by blast
  from Cons.IH [OF this] show ?case by simp
qed auto

lemma table_row_above: "list_all (\<lambda>x. n < x) (table_row xs b) \<longleftrightarrow> (\<forall>j\<le>length b. n < dist xs (take j b))"
  by (auto simp: table_row_def list_all_iff less_Suc_eq_le simp del: upt_Suc)

lemma lev_rows_dist:
  "(lev_rows cap (Suc (length xs)) (table_row xs b) cs b \<le> cap \<longleftrightarrow> dist (xs @ cs) b \<le> cap) \<and>
   (dist (xs @ cs) b \<le> cap \<longrightarrow> lev_rows cap (Suc (length xs)) (table_row xs b) cs b = dist (xs @ cs) b)"
proof (induction cs arbitrary: xs)
  case Nil
  then show ?case by (simp add: table_row_nth)
next
  case (Cons c cs)
  show ?case
  proof (cases "list_all (\<lambda>x. cap < x) (table_row (xs @ [c]) b)")
    case True
    then have "\<forall>j\<le>length b. Suc cap \<le> dist (xs @ [c]) (take j b)"
      by (simp add: table_row_above Suc_le_eq)
    from row_bound_all [OF this, of cs] True show ?thesis
      by (simp add: lev_row_table Let_def)
  next
    case False
    then show ?thesis using Cons.IH [of "xs @ [c]"] by (simp add: lev_row_table Let_def)
  qed
qed

text \<open>(C27) The bounded distance: up to the cap it is exactly the least number of insertions, deletions and
  replacements that turn one word into the other, and it exceeds the cap exactly when no such number
  of edits does.\<close>

theorem lev_exact:
  "(lev a b cap \<le> cap \<longleftrightarrow> (\<exists>k\<le>cap. edits k a b)) \<and>
   (if lev a b cap \<le> cap then edits (lev a b cap) a b \<and> \<not> (\<exists>k<lev a b cap. edits k a b) else True)"
proof -
  have far: "cap < dist a b" if "int cap < \<bar>int (length a) - int (length b)\<bar>"
  proof -
    have "length a \<le> dist a b + length b" and "length b \<le> dist a b + length a"
      using ed_length [of "rev a" "rev b"] by (simp_all add: dist_def)
    then show ?thesis using that by linarith
  qed
  have "lev_rows cap 1 [0..<Suc (length b)] a b = lev_rows cap (Suc (length ([]::string))) (table_row [] b) a b"
    by (simp only: table_row_first list.size One_nat_def)
  then have "(lev a b cap \<le> cap \<longleftrightarrow> dist a b \<le> cap) \<and> (dist a b \<le> cap \<longrightarrow> lev a b cap = dist a b)"
    using far lev_rows_dist [of cap "[]" b a] by (auto simp: lev_def simp del: upt_Suc)
  then show ?thesis
    using edits_iff_dist [of cap a b] edits_dist [of a b] edits_least [of _ a b] by (auto dest: leD)
qed

section \<open>The grammar of slugs\<close>

text \<open>\<open>[a-z0-9]+(?:-[a-z0-9]+)*\<close>.\<close>

definition slug_grammar :: "string \<Rightarrow> bool" where
  "slug_grammar s \<longleftrightarrow> list_all (\<lambda>p. p \<noteq> [] \<and> list_all slug_char p) (split_on (CHR ''-'') s)"

lemma split_on_sep: "split_on c (s @ c # t) = split_on c s @ split_on c t"
proof (induction s)
  case (Cons x s)
  show ?case
  proof (cases "split_on c s")
    case Nil
    then show ?thesis using split_on_not_Nil [of c s] by blast
  qed (use Cons in auto)
qed simp

lemma split_on_snoc: "x \<noteq> c \<Longrightarrow> split_on c (s @ [x]) = butlast (split_on c s) @ [last (split_on c s) @ [x]]"
proof (induction s)
  case (Cons y s)
  show ?case
  proof (cases "split_on c s")
    case Nil
    then show ?thesis using split_on_not_Nil [of c s] by blast
  next
    case (Cons z zs)
    with Cons.IH Cons.prems show ?thesis by (cases zs) auto
  qed
qed simp

lemma slug_char_not_dash [simp]: "\<not> slug_char (CHR ''-'')"
  by (simp add: slug_char_def)

lemma grammar_single: "slug_char c \<Longrightarrow> slug_grammar [c]"
  by (auto simp: slug_grammar_def)

lemma grammar_snoc:
  assumes "slug_grammar s" and "slug_char c"
  shows "slug_grammar (s @ [c])"
proof -
  let ?ps = "split_on (CHR ''-'') s"
  have "c \<noteq> CHR ''-''" using assms(2) by auto
  moreover have "list_all (\<lambda>p. p \<noteq> [] \<and> list_all slug_char p) (butlast ?ps)" and "list_all slug_char (last ?ps)"
    using assms(1) last_in_set [of ?ps] by (auto simp: slug_grammar_def list_all_iff dest: in_set_butlastD)
  ultimately show ?thesis using assms(2) by (simp add: slug_grammar_def split_on_snoc)
qed

lemma grammar_dash: "slug_grammar s \<Longrightarrow> slug_char c \<Longrightarrow> slug_grammar (s @ ''-'' @ [c])"
  using split_on_sep [of "CHR ''-''" s "[c]"] by (auto simp: slug_grammar_def)

lemma grammar_end: "slug_grammar s \<Longrightarrow> s \<noteq> [] \<and> slug_char (last s)"
proof (induction s rule: rev_induct)
  case Nil
  then show ?case by (simp add: slug_grammar_def)
next
  case (snoc x s)
  show ?case
  proof (cases "x = CHR ''-''")
    case True
    then show ?thesis using snoc.prems split_on_sep [of "CHR ''-''" s "[]"] by (simp add: slug_grammar_def)
  next
    case False
    then show ?thesis using snoc.prems by (auto simp: slug_grammar_def split_on_snoc)
  qed
qed

definition slug_prefix :: "string \<Rightarrow> bool" where
  "slug_prefix out \<longleftrightarrow> out = [] \<or> slug_grammar out \<or> (\<exists>s. out = s @ ''-'' \<and> slug_grammar s)"

lemma slug_step_prefix: "slug_prefix out \<Longrightarrow> slug_prefix (slug_step c out)"
proof -
  assume "slug_prefix out"
  then consider "out = []" | "slug_grammar out" | s where "out = s @ ''-''" and "slug_grammar s"
    by (auto simp: slug_prefix_def)
  then show ?thesis
  proof cases
    case 1
    then show ?thesis by (simp add: slug_step_def slug_prefix_def grammar_single)
  next
    case 2
    then show ?thesis by (auto simp: slug_step_def slug_prefix_def grammar_snoc)
  next
    case 3
    then show ?thesis using grammar_dash [of s c] by (auto simp: slug_step_def slug_prefix_def ends_with_iff)
  qed
qed

lemma slug_steps_prefix: "slug_prefix out \<Longrightarrow> slug_prefix (fold slug_step cs out)"
  by (induction cs arbitrary: out) (simp_all add: slug_step_prefix)

text \<open>Every slug has the grammar contact ids are checked against.\<close>

lemma slug_ok: "slug_grammar (slug s)"
proof -
  let ?out = "fold slug_step (fold_text s) []"
  let ?strip = "\<lambda>out. rev (dropWhile (\<lambda>c. c = CHR ''-'') (rev out))"
  have keep: "?strip t = t" if "slug_grammar t" for t
  proof -
    from grammar_end [OF that] have "t \<noteq> []" and "last t \<noteq> CHR ''-''" by auto
    then have "dropWhile (\<lambda>c. c = CHR ''-'') (rev t) = rev t"
      by (cases t rule: rev_cases) auto
    then show ?thesis by simp
  qed
  have "slug_prefix ?out" by (rule slug_steps_prefix) (simp add: slug_prefix_def)
  then have "?strip ?out = [] \<or> slug_grammar (?strip ?out)"
    using keep by (auto simp: slug_prefix_def)
  moreover have "slug_grammar ''x''" by (rule grammar_single) (simp add: slug_char_def)
  ultimately show ?thesis by (auto simp: slug_def Let_def)
qed

end
