(* ===== verification/Director_Rules.thy ===== *)
theory Director_Rules
  imports Nlcl_Text Port_Contracts
begin

text \<open>
  The rule and teaching vocabulary of the director plugin (\<open>plugins/vivim-director/src/rules.ts\<close>):
  validation of what callers send, ids and summaries of rules, and the defended read of stored rows. A
  thrown error is a constructor of \<open>rule_error\<close>, without its text.
\<close>

section \<open>Vocabulary\<close>

definition AUTOMATION_NS :: string where "AUTOMATION_NS = ''automation''"
definition NLCL_NS :: string where "NLCL_NS = ''nlcl''"
definition EMAIL_NS :: string where "EMAIL_NS = ''email''"
definition MESSAGE_META_TYPE :: string where "MESSAGE_META_TYPE = ''message''"
definition RULE_PREFIX :: string where "RULE_PREFIX = ''rule:''"
definition FIRED_PREFIX :: string where "FIRED_PREFIX = ''fired:''"
definition LEXICON_PREFIX :: string where "LEXICON_PREFIX = ''lexicon:''"
definition TRIGGER_EVENT :: string where "TRIGGER_EVENT = ''message.received''"
definition ACTION_OP :: string where "ACTION_OP = ''message.send@1''"

abbreviation digit :: "char \<Rightarrow> bool" where
  "digit c \<equiv> 48 \<le> code c \<and> code c \<le> 57"

text \<open>\<open>/^[a-z0-9.]+@[0-9]+$/\<close>, \<open>/^contact:[a-z0-9]+(?:-[a-z0-9]+)*$/\<close>, \<open>/^[a-z0-9-]{2,20}$/\<close>.\<close>

definition op_id_ok :: "string \<Rightarrow> bool" where
  "op_id_ok s \<longleftrightarrow>
     (case split_on (CHR ''@'') s of
        [a, b] \<Rightarrow> a \<noteq> [] \<and> list_all (\<lambda>c. slug_char c \<or> c = CHR ''.'') a \<and> b \<noteq> [] \<and> list_all digit b
      | _ \<Rightarrow> False)"

definition contact_id_ok :: "string \<Rightarrow> bool" where
  "contact_id_ok s \<longleftrightarrow> starts_with s ''contact:'' \<and> slug_grammar (drop 8 s)"

definition word_ok :: "string \<Rightarrow> bool" where
  "word_ok s \<longleftrightarrow> 2 \<le> length s \<and> length s \<le> 20 \<and> list_all (\<lambda>c. slug_char c \<or> c = CHR ''-'') s"

record rule_when =
  wh_event :: string
  wh_from :: "string option"

record rule_then =
  th_op :: string
  th_payload :: "(string \<times> json) list"

record rule_data =
  ru_id :: string
  ru_when :: rule_when
  ru_then :: rule_then
  ru_enabled :: bool
  ru_summary :: string
  ru_createdAt :: int

datatype teach_action = AddWord | RemoveWord

record teach_data =
  td_word :: string
  td_op :: "string option"
  td_action :: teach_action
  td_createdAt :: int

datatype rule_error =
    RuleNotObject
  | WhenNotObject
  | ThenNotObject
  | BadEvent json
  | BadFrom json
  | BadActionOp json
  | ForeignActionOp string
  | ActionNotObject
  | WordNotString
  | BadWord string
  | BadTeachAction json
  | BadTeachOp json
  | RuleIdsExhausted

section \<open>Validation\<close>

definition as_object :: "rule_error \<Rightarrow> json \<Rightarrow> rule_error + (string \<times> json) list" where
  "as_object e v = (case v of JObj kvs \<Rightarrow> Inr kvs | _ \<Rightarrow> Inl e)"

definition rule_from :: "json \<Rightarrow> rule_error + string option" where
  "rule_from v =
     (case v of
        JUndefined \<Rightarrow> Inr None
      | JNull \<Rightarrow> Inr None
      | JStr s \<Rightarrow> if contact_id_ok s then Inr (Some s) else Inl (BadFrom v)
      | _ \<Rightarrow> Inl (BadFrom v))"

definition rule_op :: "json \<Rightarrow> rule_error + string" where
  "rule_op v =
     (case v of
        JStr s \<Rightarrow>
          if \<not> op_id_ok s then Inl (BadActionOp v)
          else if s \<noteq> ACTION_OP then Inl (ForeignActionOp s)
          else Inr s
      | _ \<Rightarrow> Inl (BadActionOp v))"

record rule_input =
  ri_when :: rule_when
  ri_then :: rule_then
  ri_messageFromTrigger :: bool

definition validateRuleInput :: "json \<Rightarrow> rule_error + rule_input" where
  "validateRuleInput payload =
     res_bind (as_object RuleNotObject payload) (\<lambda>_.
     res_bind (as_object WhenNotObject (json_field payload ''when'')) (\<lambda>when.
     res_bind (as_object ThenNotObject (json_field payload ''then'')) (\<lambda>then1.
       if json_field (JObj when) ''event'' \<noteq> JStr TRIGGER_EVENT
       then Inl (BadEvent (json_field (JObj when) ''event''))
       else
         res_bind (rule_from (json_field (JObj when) ''from'')) (\<lambda>from1.
         res_bind (rule_op (json_field (JObj then1) ''op'')) (\<lambda>op.
         res_bind (as_object ActionNotObject (json_field (JObj then1) ''payload'')) (\<lambda>action.
           Inr \<lparr>ri_when = \<lparr>wh_event = TRIGGER_EVENT, wh_from = from1\<rparr>,
                ri_then = \<lparr>th_op = op, th_payload = action\<rparr>,
                ri_messageFromTrigger = (json_field (JObj action) ''messageFromTrigger'' = JBool True)\<rparr>))))))"

record teach_input =
  ti_word :: string
  ti_op :: "string option"
  ti_action :: teach_action

definition teach_action_of :: "json \<Rightarrow> rule_error + teach_action" where
  "teach_action_of v =
     (if v = JUndefined \<or> v = JNull \<or> v = JStr ''add'' then Inr AddWord
      else if v = JStr ''remove'' then Inr RemoveWord
      else Inl (BadTeachAction v))"

definition validateTeachInput :: "json \<Rightarrow> rule_error + teach_input" where
  "validateTeachInput payload =
     res_bind (as_object RuleNotObject payload) (\<lambda>_.
       case json_field payload ''word'' of
         JStr raw \<Rightarrow>
           (let word = fold_text raw in
            if \<not> word_ok word then Inl (BadWord word)
            else res_bind (teach_action_of (json_field payload ''action'')) (\<lambda>action.
              case action of
                RemoveWord \<Rightarrow> Inr \<lparr>ti_word = word, ti_op = None, ti_action = RemoveWord\<rparr>
              | AddWord \<Rightarrow>
                  (case json_field payload ''op'' of
                     JStr op \<Rightarrow>
                       if op_id_ok op then Inr \<lparr>ti_word = word, ti_op = Some op, ti_action = AddWord\<rparr>
                       else Inl (BadTeachOp (JStr op))
                   | v \<Rightarrow> Inl (BadTeachOp v))))
       | _ \<Rightarrow> Inl WordNotString)"

section \<open>Ids and summaries\<close>

definition from_slug :: "string \<Rightarrow> string" where
  "from_slug from1 = drop (length ''contact:'') from1"

definition ruleSlug :: "string option \<Rightarrow> string" where
  "ruleSlug from1 =
     RULE_PREFIX @ (case from1 of None \<Rightarrow> ''any'' | Some s \<Rightarrow> from_slug s) @ ''-forward''"

text \<open>The loop from 2 to 10000.\<close>

fun next_free :: "nat \<Rightarrow> nat \<Rightarrow> string \<Rightarrow> string list \<Rightarrow> string option" where
  "next_free 0 n base occupied = None"
| "next_free (Suc k) n base occupied =
     (let candidate = base @ ''-'' @ show_nat n
      in if candidate \<notin> set occupied then Some candidate else next_free k (n + 1) base occupied)"

definition nextFreeRuleId :: "string \<Rightarrow> string list \<Rightarrow> rule_error + string" where
  "nextFreeRuleId base occupied =
     (if base \<notin> set occupied then Inr base
      else case next_free 9999 2 base occupied of
             Some i \<Rightarrow> Inr i
           | None \<Rightarrow> Inl RuleIdsExhausted)"

definition triggerLabel :: "string option \<Rightarrow> string" where
  "triggerLabel from1 = (case from1 of None \<Rightarrow> ''anyone'' | Some s \<Rightarrow> prettifyLocalPart (from_slug s))"

definition actionSummary :: "rule_then \<Rightarrow> string" where
  "actionSummary t =
     (case json_field (JObj (th_payload t)) ''to'' of
        JStr s \<Rightarrow>
          if CHR ''@'' \<in> set s then ''send to '' @ prettifyLocalPart (hd (split_on (CHR ''@'') s))
          else ''run '' @ th_op t
      | _ \<Rightarrow> ''run '' @ th_op t)"

definition ruleSummary :: "rule_when \<Rightarrow> rule_then \<Rightarrow> string" where
  "ruleSummary w t = ''When '' @ triggerLabel (wh_from w) @ '' messages me, '' @ actionSummary t"

section \<open>Stored rows\<close>

definition asRule :: "string \<Rightarrow> json \<Rightarrow> rule_data option" where
  "asRule i v =
     (case v of
        JObj kvs \<Rightarrow>
          if json_field v ''id'' \<noteq> JStr i then None
          else (case validateRuleInput (JObj [(''when'', json_field v ''when''), (''then'', json_field v ''then'')]) of
                  Inl _ \<Rightarrow> None
                | Inr inp \<Rightarrow>
                    (case (json_field v ''enabled'', json_field v ''summary'', json_field v ''createdAt'') of
                       (JBool enabled, JStr summary, JNum t) \<Rightarrow>
                         if summary = [] \<or> t < 0 then None
                         else Some \<lparr>ru_id = i, ru_when = ri_when inp, ru_then = ri_then inp,
                                    ru_enabled = enabled, ru_summary = summary, ru_createdAt = t\<rparr>
                     | _ \<Rightarrow> None))
      | _ \<Rightarrow> None)"

definition teaching_op :: "json \<Rightarrow> string option option" where
  "teaching_op v =
     (case v of
        JNull \<Rightarrow> Some None
      | JStr s \<Rightarrow> if op_id_ok s then Some (Some s) else None
      | _ \<Rightarrow> None)"

definition asTeaching :: "string \<Rightarrow> json \<Rightarrow> teach_data option" where
  "asTeaching i v =
     (case v of
        JObj kvs \<Rightarrow>
          if json_field v ''word'' \<noteq> JStr (drop (length LEXICON_PREFIX) i) then None
          else (case (teaching_op (json_field v ''op''), json_field v ''createdAt'') of
                  (Some op, JNum t) \<Rightarrow>
                    if json_field v ''source'' \<noteq> JStr ''taught'' \<or> t < 0 then None
                    else if json_field v ''action'' = JStr ''add''
                    then Some \<lparr>td_word = drop (length LEXICON_PREFIX) i, td_op = op, td_action = AddWord, td_createdAt = t\<rparr>
                    else if json_field v ''action'' = JStr ''remove''
                    then Some \<lparr>td_word = drop (length LEXICON_PREFIX) i, td_op = op, td_action = RemoveWord, td_createdAt = t\<rparr>
                    else None
                | _ \<Rightarrow> None)
      | _ \<Rightarrow> None)"

definition when_json :: "rule_when \<Rightarrow> json" where
  "when_json w =
     JObj [(''event'', JStr (wh_event w)),
           (''from'', case wh_from w of None \<Rightarrow> JNull | Some s \<Rightarrow> JStr s)]"

definition then_json :: "rule_then \<Rightarrow> json" where
  "then_json t = JObj [(''op'', JStr (th_op t)), (''payload'', JObj (th_payload t))]"

definition rule_json :: "rule_data \<Rightarrow> json" where
  "rule_json r =
     JObj [(''id'', JStr (ru_id r)), (''when'', when_json (ru_when r)), (''then'', then_json (ru_then r)),
           (''enabled'', JBool (ru_enabled r)), (''summary'', JStr (ru_summary r)),
           (''createdAt'', JNum (ru_createdAt r))]"

definition teach_json :: "teach_data \<Rightarrow> json" where
  "teach_json t =
     JObj [(''word'', JStr (td_word t)), (''op'', case td_op t of None \<Rightarrow> JNull | Some s \<Rightarrow> JStr s),
           (''action'', JStr (case td_action t of AddWord \<Rightarrow> ''add'' | RemoveWord \<Rightarrow> ''remove'')),
           (''source'', JStr ''taught''), (''createdAt'', JNum (td_createdAt t))]"

section \<open>Lemmas\<close>

text \<open>A contact derived from an address can be named in a rule.\<close>

lemma contact_named: "contact_id_ok (ev_id (contactFromAddress address))"
  by (simp add: contact_id_ok_def contactFromAddress_def Let_def slug_ok starts_with_def)

text \<open>What validation accepts reads back from the row it is stored in.\<close>

definition rule_ok :: "rule_data \<Rightarrow> bool" where
  "rule_ok r \<longleftrightarrow>
     wh_event (ru_when r) = TRIGGER_EVENT \<and> th_op (ru_then r) = ACTION_OP \<and>
     (case wh_from (ru_when r) of None \<Rightarrow> True | Some s \<Rightarrow> contact_id_ok s) \<and>
     ru_summary r \<noteq> [] \<and> 0 \<le> ru_createdAt r"

lemma action_op_ok [simp]: "op_id_ok ACTION_OP"
  by code_simp

lemma validate_stored:
  assumes "rule_ok r"
  shows "validateRuleInput (JObj [(''when'', when_json (ru_when r)), (''then'', then_json (ru_then r))]) =
    Inr \<lparr>ri_when = ru_when r, ri_then = ru_then r,
         ri_messageFromTrigger = (json_field (JObj (th_payload (ru_then r))) ''messageFromTrigger'' = JBool True)\<rparr>"
  using assms
  by (cases "ru_when r"; cases "ru_then r"; cases "wh_from (ru_when r)")
    (auto simp: rule_ok_def validateRuleInput_def as_object_def when_json_def then_json_def rule_from_def
      rule_op_def res_bind_def)

lemma asRule_stored: "rule_ok r \<Longrightarrow> asRule (ru_id r) (rule_json r) = Some r"
  using validate_stored [of r]
  by (cases r) (simp add: asRule_def rule_json_def rule_ok_def)

lemma validated_ok:
  "validateRuleInput p = Inr i \<Longrightarrow>
     wh_event (ri_when i) = TRIGGER_EVENT \<and> th_op (ri_then i) = ACTION_OP \<and>
     (case wh_from (ri_when i) of None \<Rightarrow> True | Some s \<Rightarrow> contact_id_ok s)"
  by (auto simp: validateRuleInput_def res_bind_Inr rule_from_def rule_op_def
      split: if_splits json.splits option.splits)

lemma asRule_ok: "asRule i v = Some r \<Longrightarrow> rule_ok r \<and> ru_id r = i"
  using validated_ok
  by (fastforce simp: asRule_def rule_ok_def split: json.splits if_splits sum.splits prod.splits)

text \<open>The id loop finds an id unless ten thousand are taken.\<close>

lemma next_free_fresh: "next_free k n base occupied = Some i \<Longrightarrow> i \<notin> set occupied"
  by (induction k arbitrary: n) (auto simp: Let_def split: if_splits)

lemma next_free_None:
  "next_free k n base occupied = None \<Longrightarrow> (\<lambda>m. base @ ''-'' @ show_nat m) ` {n..<n + k} \<subseteq> set occupied"
proof (induction k arbitrary: n)
  case (Suc k)
  then have "base @ ''-'' @ show_nat n \<in> set occupied" and "next_free k (n + 1) base occupied = None"
    by (auto simp: Let_def split: if_splits)
  moreover have "{n..<n + Suc k} = insert n {n + 1..<n + 1 + k}" by auto
  ultimately show ?case using Suc.IH [of "n + 1"] by auto
qed simp

lemma nextFreeRuleId_fresh:
  assumes "length occupied < 10000"
  shows "\<exists>i. nextFreeRuleId base occupied = Inr i \<and> i \<notin> set occupied"
proof (cases "base \<in> set occupied")
  case True
  have "next_free 9999 2 base occupied \<noteq> None"
  proof
    let ?f = "\<lambda>m. base @ ''-'' @ show_nat m"
    assume "next_free 9999 2 base occupied = None"
    then have sub: "insert base (?f ` {2..<2 + 9999}) \<subseteq> set occupied"
      using next_free_None [of 9999 2 base occupied] True by blast
    have "inj_on ?f {2..<2 + 9999}" by (auto simp: inj_on_def show_base_inj)
    then have "card (?f ` {2..<2 + 9999::nat}) = 9999" by (simp add: card_image)
    moreover have "base \<notin> ?f ` {2..<2 + 9999}" by auto
    ultimately have "card (insert base (?f ` {2..<2 + 9999::nat})) = 10000" by simp
    with sub have "10000 \<le> card (set occupied)" by (metis List.finite_set card_mono)
    with card_length [of occupied] assms show False by simp
  qed
  with True next_free_fresh [of 9999 2 base occupied] show ?thesis
    by (auto simp: nextFreeRuleId_def)
qed (simp add: nextFreeRuleId_def)

end
