(* ===== verification/Director_Tick.thy ===== *)
theory Director_Tick
  imports Director_Rules
begin

text \<open>
  The fire pass of the director (\<open>plugins/vivim-director/src/tick.ts\<close>): one tick scans the mail rows,
  drops what is unchanged, foreign, seen, from a self address or already in the fired ledger, fires
  the matching rules through the port, and appends one ledger row per attempted message.

  The port and the clock are parameters over a world \<open>'w\<close>; a call may also reject (\<open>Inl\<close>). A tick is a function on
  \<open>tick_run\<close>, the mutable state of the pass together with the world, that may end in a rejection: what
  was changed before stays changed, as in the source. A reply is read at its declared type; a field of
  another type reads as the empty string.
\<close>

section \<open>Calls through the port\<close>

type_synonym 'w caller = "string \<Rightarrow> json \<Rightarrow> 'w \<Rightarrow> (string + port_result) \<times> 'w"

record fired_outcome =
  fo_ruleId :: string
  fo_ok :: bool
  fo_error :: "string option"
  fo_consentId :: "string option"

datatype tick_error =
    QueryFailed port_error_code "string option"
  | BodiesFailed port_error_code "string option"
  | RowMissing string
  | LedgerFailed port_error_code "string option"
  | RulesFailed port_error_code "string option"
  | AppendFailed string port_error_code "string option"

record 'w tick_run =
  tk_world :: 'w
  tk_revs :: "(string, json) jsmap"
  tk_error :: "tick_error option"
  tk_fired :: "(string \<times> fired_outcome) list"
  tk_processed :: nat
  tk_rules :: "(rule_data list \<times> nat) option"

type_synonym ('w, 'a) tick_act = "'w tick_run \<Rightarrow> (string + 'a) \<times> 'w tick_run"

definition t_return :: "'a \<Rightarrow> ('w, 'a) tick_act" where
  [js_simps]: "t_return x s = (Inr x, s)"

definition t_bind :: "('w, 'a) tick_act \<Rightarrow> ('a \<Rightarrow> ('w, 'b) tick_act) \<Rightarrow> ('w, 'b) tick_act" where
  "t_bind m f s = (case m s of (Inl e, s1) \<Rightarrow> (Inl e, s1) | (Inr x, s1) \<Rightarrow> f x s1)"

definition t_modify :: "('w tick_run \<Rightarrow> 'w tick_run) \<Rightarrow> ('w, unit) tick_act" where
  [js_simps]: "t_modify g s = (Inr (), g s)"

definition t_call :: "'w caller \<Rightarrow> string \<Rightarrow> json \<Rightarrow> ('w, port_result) tick_act" where
  "t_call port op payload s =
     (case port op payload (tk_world s) of (r, w) \<Rightarrow> (r, s\<lparr>tk_world := w\<rparr>))"

fun t_each :: "('a \<Rightarrow> ('w, unit) tick_act) \<Rightarrow> 'a list \<Rightarrow> ('w, unit) tick_act" where
  "t_each f [] s = (Inr (), s)"
| "t_each f (x # xs) s = t_bind (f x) (\<lambda>_. t_each f xs) s"

text \<open>\<open>error ??= e\<close>.\<close>

definition note_error :: "tick_error \<Rightarrow> 'w tick_run \<Rightarrow> 'w tick_run" where
  "note_error e s = (case tk_error s of None \<Rightarrow> s\<lparr>tk_error := Some e\<rparr> | Some _ \<Rightarrow> s)"

section \<open>Reading replies\<close>

definition TICK_SCAN_CAP :: nat where "TICK_SCAN_CAP = 200"
definition TICK_RULE_CAP :: nat where "TICK_RULE_CAP = 200"

fun text_of :: "json \<Rightarrow> string" where
  "text_of (JStr s) = s"
| "text_of _ = []"

text \<open>\<open>(value as Row[]) ?? []\<close>, then a method call: what is neither nullish nor an array throws.\<close>

definition rows_reply :: "json \<Rightarrow> string + json list" where
  "rows_reply v =
     (case v of
        JArr xs \<Rightarrow> Inr xs
      | JNull \<Rightarrow> Inr []
      | JUndefined \<Rightarrow> Inr []
      | _ \<Rightarrow> Inl ''TypeError'')"

definition query_row :: "json \<Rightarrow> string \<times> json" where
  "query_row x = (text_of (json_field x ''id''), json_field x ''rev'')"

definition query_payload :: "string \<Rightarrow> (string \<times> json) list \<Rightarrow> json" where
  "query_payload ns f = JObj [(''ns'', JStr ns), (''filter'', JObj f)]"

definition getmany_payload :: "string \<Rightarrow> string list \<Rightarrow> json" where
  "getmany_payload ns ids = JObj [(''ns'', JStr ns), (''ids'', JArr (map JStr ids))]"

record trigger_message =
  tm_id :: string
  tm_folder :: string
  tm_from :: string
  tm_subject :: string
  tm_body :: string
  tm_seen :: bool

definition asTriggerMessage :: "string \<Rightarrow> json \<Rightarrow> trigger_message option" where
  "asTriggerMessage i v =
     (case v of
        JObj _ \<Rightarrow>
          if json_field v ''id'' \<noteq> JStr i then None
          else (case (json_field v ''folder'', json_field v ''from'', json_field v ''subject'', json_field v ''body'') of
                  (JStr folder, JStr from1, JStr subject, JStr body) \<Rightarrow>
                    (case json_field v ''flags'' of
                       JObj fs \<Rightarrow>
                         (case json_field (JObj fs) ''seen'' of
                            JBool seen \<Rightarrow>
                              Some \<lparr>tm_id = i, tm_folder = folder, tm_from = from1, tm_subject = subject,
                                    tm_body = body, tm_seen = seen\<rparr>
                          | _ \<Rightarrow> None)
                     | _ \<Rightarrow> None)
                | _ \<Rightarrow> None)
      | _ \<Rightarrow> None)"

definition isMessageMeta :: "json \<Rightarrow> bool" where
  "isMessageMeta meta \<longleftrightarrow> json_field meta ''type'' = JStr MESSAGE_META_TYPE"

definition isSelf :: "string list \<Rightarrow> string \<Rightarrow> bool" where
  "isSelf selfAddresses from1 \<longleftrightarrow> toLowerCase from1 \<in> set selfAddresses"

section \<open>Rules\<close>

definition lift_reply :: "string + 'a \<Rightarrow> ('w, 'a) tick_act" where
  [js_simps]: "lift_reply r s = (r, s)"

text \<open>One row: a row that cannot be read cannot fire.\<close>

definition load_rule :: "'w caller \<Rightarrow> string \<Rightarrow> ('w, rule_data option) tick_act" where
  "load_rule port i =
     t_bind (t_call port ''vault.get@1'' (JObj [(''ns'', JStr AUTOMATION_NS), (''id'', JStr i)])) (\<lambda>r.
       t_return (case r of
         POk v _ _ \<Rightarrow> (case asRule i (json_field v ''data'') of
                        Some rule \<Rightarrow> if ru_enabled rule then Some rule else None
                      | None \<Rightarrow> None)
       | PErr _ _ _ \<Rightarrow> None))"

fun load_rules :: "'w caller \<Rightarrow> string list \<Rightarrow> ('w, rule_data list) tick_act" where
  "load_rules port [] s = (Inr [], s)"
| "load_rules port (i # is) s =
     t_bind (load_rule port i) (\<lambda>r. t_bind (load_rules port is) (\<lambda>rs.
       t_return (case r of Some x \<Rightarrow> x # rs | None \<Rightarrow> rs))) s"

definition loadEnabledRules :: "'w caller \<Rightarrow> ('w, rule_data list \<times> nat \<times> tick_error option) tick_act" where
  "loadEnabledRules port =
     t_bind (t_call port ''vault.query@1'' (query_payload AUTOMATION_NS [(''idPrefix'', JStr RULE_PREFIX)])) (\<lambda>r.
       case r of
         PErr c d _ \<Rightarrow> t_return ([], 0, Some (RulesFailed c d))
       | POk v _ _ \<Rightarrow>
           t_bind (lift_reply (rows_reply v)) (\<lambda>xs.
             let ids = map (\<lambda>x. fst (query_row x)) (take TICK_RULE_CAP xs) in
             t_bind (load_rules port ids) (\<lambda>rules.
               t_return (sort_key ru_id rules, length ids, None))))"

section \<open>Firing\<close>

text \<open>\<open>/consent_[0-9a-f]{16}/\<close>: the first match.\<close>

definition hex_char :: "char \<Rightarrow> bool" where
  "hex_char c \<longleftrightarrow> 48 \<le> code c \<and> code c \<le> 57 \<or> 97 \<le> code c \<and> code c \<le> 102"

fun extractConsentId :: "string \<Rightarrow> string option" where
  "extractConsentId [] = None"
| "extractConsentId (c # cs) =
     (if starts_with (c # cs) ''consent_'' \<and> 24 \<le> length (c # cs) \<and>
         list_all hex_char (take 16 (drop 8 (c # cs)))
      then Some (take 24 (c # cs)) else extractConsentId cs)"

definition action_of :: "trigger_message \<Rightarrow> rule_data \<Rightarrow> (string \<times> json) list" where
  "action_of message rule =
     (let payload = th_payload (ru_then rule);
          action = map_del ''messageFromTrigger'' payload
      in if json_field (JObj payload) ''messageFromTrigger'' = JBool True
         then map_set ''subject''
                (case json_field (JObj payload) ''subject'' of
                   JStr s \<Rightarrow> if s \<noteq> [] then JStr s else JStr (''Fwd: '' @ tm_subject message)
                 | _ \<Rightarrow> JStr (''Fwd: '' @ tm_subject message))
                (map_set ''body'' (JStr (tm_body message)) action)
         else action)"

definition outcome_of :: "rule_data \<Rightarrow> string + port_result \<Rightarrow> fired_outcome" where
  "outcome_of rule r =
     (case r of
        Inl e \<Rightarrow> \<lparr>fo_ruleId = ru_id rule, fo_ok = False, fo_error = Some (''threw: '' @ e), fo_consentId = None\<rparr>
      | Inr (POk _ _ _) \<Rightarrow> \<lparr>fo_ruleId = ru_id rule, fo_ok = True, fo_error = None, fo_consentId = None\<rparr>
      | Inr (PErr c d _) \<Rightarrow>
          \<lparr>fo_ruleId = ru_id rule, fo_ok = False,
           fo_error = Some (err_code_text c @ '': '' @ (case d of Some t \<Rightarrow> t | None \<Rightarrow> [])),
           fo_consentId = (case d of Some t \<Rightarrow> extractConsentId t | None \<Rightarrow> None)\<rparr>)"

definition fireRule :: "'w caller \<Rightarrow> trigger_message \<Rightarrow> rule_data \<Rightarrow> 'w tick_run \<Rightarrow> fired_outcome \<times> 'w tick_run" where
  "fireRule port message rule s =
     (case port (th_op (ru_then rule)) (JObj (action_of message rule)) (tk_world s) of
        (r, w) \<Rightarrow> (outcome_of rule r, s\<lparr>tk_world := w\<rparr>))"

fun fire_all :: "'w caller \<Rightarrow> trigger_message \<Rightarrow> rule_data list \<Rightarrow> 'w tick_run \<Rightarrow> fired_outcome list \<times> 'w tick_run" where
  "fire_all port message [] s = ([], s)"
| "fire_all port message (rule # rules) s =
     (let (outcome, s1) = fireRule port message rule s;
          (rest, s2) = fire_all port message rules (s1\<lparr>tk_fired := tk_fired s1 @ [(tm_id message, outcome)]\<rparr>)
      in (outcome # rest, s2))"

definition rule_matches :: "trigger_message \<Rightarrow> rule_data \<Rightarrow> bool" where
  "rule_matches message rule \<longleftrightarrow>
     (case wh_from (ru_when rule) of
        None \<Rightarrow> True
      | Some c \<Rightarrow> c = ev_id (contactFromAddress (tm_from message)))"

definition outcome_json :: "fired_outcome \<Rightarrow> json" where
  "outcome_json o1 =
     JObj ([(''ruleId'', JStr (fo_ruleId o1)), (''ok'', JBool (fo_ok o1))] @
       (case fo_error o1 of Some e \<Rightarrow> [(''error'', JStr e)] | None \<Rightarrow> []) @
       (case fo_consentId o1 of Some c \<Rightarrow> [(''consentId'', JStr c)] | None \<Rightarrow> []))"

definition fired_id :: "string \<Rightarrow> string" where
  "fired_id i = FIRED_PREFIX @ i"

definition ledger_payload :: "int \<Rightarrow> trigger_message \<Rightarrow> fired_outcome list \<Rightarrow> json" where
  "ledger_payload now message outcomes =
     JObj [(''ns'', JStr AUTOMATION_NS), (''id'', JStr (fired_id (tm_id message))),
           (''data'', JObj [(''messageId'', JStr (tm_id message)), (''from'', JStr (tm_from message)),
              (''firedRules'', JArr (map outcome_json outcomes)), (''at'', JNum now)]),
           (''meta'', JObj [(''type'', JStr ''fired'')])]"

section \<open>The pass\<close>

text \<open>Steps 1 and 2: the scan, and the bodies of the rows the memory has not seen at this revision.\<close>

definition candidates_of :: "(string, json) jsmap \<Rightarrow> (string \<times> json) list \<Rightarrow> (string \<times> json) list" where
  "candidates_of revs rows = filter (\<lambda>(i, r). map_get revs i \<noteq> Some r) rows"

definition index_rows :: "json list \<Rightarrow> (string, json) jsmap" where
  "index_rows xs = fold (\<lambda>x m. map_set (text_of (json_field x ''id'')) x m) xs []"

definition fetch_bodies :: "'w caller \<Rightarrow> string list \<Rightarrow> ('w, (string, json) jsmap) tick_act" where
  "fetch_bodies port ids =
     (if ids = [] then t_return []
      else t_bind (t_call port ''vault.getmany@1'' (getmany_payload EMAIL_NS ids)) (\<lambda>r.
        case r of
          POk v _ _ \<Rightarrow> t_bind (lift_reply (rows_reply v)) (\<lambda>xs. t_return (index_rows xs))
        | PErr c d _ \<Rightarrow> t_bind (t_modify (note_error (BodiesFailed c d))) (\<lambda>_. t_return [])))"

text \<open>The predicate pass. A trigger is the row's id and its message.\<close>

definition found_row :: "json \<Rightarrow> bool" where
  "found_row x \<longleftrightarrow> json_field x ''found'' = JBool True"

definition message_of :: "string \<Rightarrow> json \<Rightarrow> trigger_message option" where
  "message_of i got =
     (if isMessageMeta (json_field got ''meta'') then asTriggerMessage i (json_field got ''data'') else None)"

definition is_trigger :: "string list \<Rightarrow> trigger_message \<Rightarrow> bool" where
  "is_trigger self m \<longleftrightarrow> tm_folder m = ''inbox'' \<and> \<not> tm_seen m \<and> \<not> isSelf self (tm_from m)"

fun predicate_pass ::
  "string list \<Rightarrow> (string, json) jsmap \<Rightarrow> (string \<times> json) list \<Rightarrow> 'w tick_run \<Rightarrow>
     (string \<times> trigger_message) list \<times> 'w tick_run" where
  "predicate_pass self bodies [] s = ([], s)"
| "predicate_pass self bodies ((i, r) # rows) s =
     (case map_get bodies i of
        None \<Rightarrow> predicate_pass self bodies rows s
      | Some got \<Rightarrow>
          if \<not> found_row got then predicate_pass self bodies rows (note_error (RowMissing i) s)
          else (case message_of i got of
                  None \<Rightarrow> predicate_pass self bodies rows (s\<lparr>tk_revs := map_set i r (tk_revs s)\<rparr>)
                | Some m \<Rightarrow>
                    if is_trigger self m
                    then (let (ts, s1) = predicate_pass self bodies rows s in ((i, m) # ts, s1))
                    else predicate_pass self bodies rows (s\<lparr>tk_revs := map_set i r (tk_revs s)\<rparr>)))"

text \<open>Step 3: the ledger. A failed read falls towards firing.\<close>

definition read_ledger :: "'w caller \<Rightarrow> string list \<Rightarrow> ('w, string list) tick_act" where
  "read_ledger port ids =
     (if ids = [] then t_return []
      else t_bind (t_call port ''vault.getmany@1'' (getmany_payload AUTOMATION_NS (map fired_id ids))) (\<lambda>r.
        case r of
          POk v _ _ \<Rightarrow> t_bind (lift_reply (rows_reply v)) (\<lambda>xs.
            t_return (map (\<lambda>x. text_of (json_field x ''id'')) (filter found_row xs)))
        | PErr c d _ \<Rightarrow> t_bind (t_modify (note_error (LedgerFailed c d))) (\<lambda>_. t_return [])))"

definition rev_of :: "(string \<times> json) list \<Rightarrow> string \<Rightarrow> json" where
  "rev_of rows i = (case map_get (rev rows) i of Some r \<Rightarrow> r | None \<Rightarrow> JUndefined)"

definition remember :: "(string \<times> json) list \<Rightarrow> string \<Rightarrow> 'w tick_run \<Rightarrow> 'w tick_run" where
  "remember rows i s = s\<lparr>tk_revs := map_set i (rev_of rows i) (tk_revs s)\<rparr>"

definition ledger_pass ::
  "(string \<times> json) list \<Rightarrow> string list \<Rightarrow> (string \<times> trigger_message) list \<Rightarrow> 'w tick_run \<Rightarrow>
     (string \<times> trigger_message) list \<times> 'w tick_run" where
  "ledger_pass rows ledger triggers s =
     (filter (\<lambda>t. fired_id (tm_id (snd t)) \<notin> set ledger) triggers,
      fold (\<lambda>t. remember rows (fst t)) (filter (\<lambda>t. fired_id (tm_id (snd t)) \<in> set ledger) triggers) s)"

text \<open>Steps 4 to 7 for one job.\<close>

definition need_rules :: "'w caller \<Rightarrow> ('w, rule_data list \<times> nat) tick_act" where
  "need_rules port s =
     (case tk_rules s of
        Some rs \<Rightarrow> (Inr rs, s)
      | None \<Rightarrow>
          t_bind (loadEnabledRules port) (\<lambda>(rules, total, err).
            t_bind (t_modify (\<lambda>s. (case err of Some e \<Rightarrow> note_error e s | None \<Rightarrow> s)\<lparr>tk_rules := Some (rules, total)\<rparr>)) (\<lambda>_.
              t_return (rules, total))) s)"

definition run_job :: "'w caller \<Rightarrow> ('w \<Rightarrow> int) \<Rightarrow> (string \<times> json) list \<Rightarrow> string \<times> trigger_message \<Rightarrow> ('w, unit) tick_act" where
  "run_job port clock rows job =
     t_bind (need_rules port) (\<lambda>(rules, total) s.
       let message = snd job;
           (outcomes, s1) = fire_all port message (filter (rule_matches message) rules) s
       in if outcomes = [] \<and> total = 0 then (Inr (), s1)
          else t_bind (t_call port ''vault.append@1'' (ledger_payload (clock (tk_world s1)) message outcomes)) (\<lambda>r.
            t_modify (case r of
              POk _ _ _ \<Rightarrow> (\<lambda>s. remember rows (fst job) (s\<lparr>tk_processed := tk_processed s + 1\<rparr>))
            | PErr c d _ \<Rightarrow> note_error (AppendFailed (tm_id message) c d))) s1)"

record tick_report =
  rp_scanned :: nat
  rp_processed :: nat
  rp_fired :: "(string \<times> fired_outcome) list"
  rp_at :: int
  rp_error :: "tick_error option"

definition tick_body :: "'w caller \<Rightarrow> ('w \<Rightarrow> int) \<Rightarrow> string list \<Rightarrow> (string \<times> json) list \<Rightarrow> ('w, unit) tick_act" where
  "tick_body port clock self rows s =
     (let candidates = candidates_of (tk_revs s) rows in
      t_bind (fetch_bodies port (map fst candidates)) (\<lambda>bodies s1.
        let (triggers, s2) = predicate_pass self bodies candidates s1 in
        t_bind (read_ledger port (map (\<lambda>t. tm_id (snd t)) triggers)) (\<lambda>ledger s3.
          let (jobs, s4) = ledger_pass rows ledger triggers s3 in
          t_each (run_job port clock rows) jobs s4) s2) s)"

definition start_run :: "(string, json) jsmap \<Rightarrow> 'w \<Rightarrow> 'w tick_run" where
  "start_run revs w =
     \<lparr>tk_world = w, tk_revs = revs, tk_error = None, tk_fired = [], tk_processed = 0, tk_rules = None\<rparr>"

text \<open>\<open>runTick\<close>: the report or the rejection, and the memory and the world after it.\<close>

definition runTick ::
  "'w caller \<Rightarrow> ('w \<Rightarrow> int) \<Rightarrow> string list \<Rightarrow> (string, json) jsmap \<Rightarrow> 'w \<Rightarrow>
     (string + tick_report) \<times> 'w tick_run" where
  "runTick port clock self revs w =
     (case t_call port ''vault.query@1'' (query_payload EMAIL_NS []) (start_run revs w) of
        (Inl e, s) \<Rightarrow> (Inl e, s)
      | (Inr (PErr c d _), s) \<Rightarrow>
          (Inr \<lparr>rp_scanned = 0, rp_processed = 0, rp_fired = [], rp_at = clock w,
                rp_error = Some (QueryFailed c d)\<rparr>, s)
      | (Inr (POk v _ _), s) \<Rightarrow>
          (case rows_reply v of
             Inl e \<Rightarrow> (Inl e, s)
           | Inr xs \<Rightarrow>
               let rows = map query_row (take TICK_SCAN_CAP xs) in
               (case tick_body port clock self rows s of
                  (Inl e, s1) \<Rightarrow> (Inl e, s1)
                | (Inr _, s1) \<Rightarrow>
                    (Inr \<lparr>rp_scanned = length rows, rp_processed = tk_processed s1, rp_fired = tk_fired s1,
                          rp_at = clock w, rp_error = tk_error s1\<rparr>, s1))))"

end
