(* ===== verification/Director_Ledger.thy ===== *)
theory Director_Ledger
  imports Director_Tick
begin

text \<open>
  What the fired ledger gives the director. The tick relies on a port whose ledger reads answer what is
  stored and whose rows stay once written; the locale states that contract and proves that a message
  in the ledger never fires again, and that a history of ticks without errors fires every rule at most
  once on a message.
\<close>

section \<open>Histories\<close>

text \<open>The ops a tick uses; mail arrives through the same port.\<close>

definition tick_ops :: "string set" where
  "tick_ops = {''vault.query@1'', ''vault.get@1'', ''vault.getmany@1'', ''vault.append@1'', ACTION_OP}"

text \<open>Between two ticks the plugin may restart, which empties its memory of revisions, and others may
  call the port.\<close>

datatype director_event =
    TickEvent "string list"
  | RestartEvent
  | CallEvent string json

type_synonym tick_log = "((string + tick_report) \<times> (string \<times> fired_outcome) list) list"

fun director_step ::
  "'w caller \<Rightarrow> ('w \<Rightarrow> int) \<Rightarrow> (string, json) jsmap \<times> 'w \<times> tick_log \<Rightarrow> director_event \<Rightarrow>
     (string, json) jsmap \<times> 'w \<times> tick_log" where
  "director_step port clock (revs, w, log) (TickEvent self) =
     (case runTick port clock self revs w of (r, s) \<Rightarrow> (tk_revs s, tk_world s, log @ [(r, tk_fired s)]))"
| "director_step port clock (revs, w, log) RestartEvent = ([], w, log)"
| "director_step port clock (revs, w, log) (CallEvent op x) = (revs, snd (port op x w), log)"

definition director_run ::
  "'w caller \<Rightarrow> ('w \<Rightarrow> int) \<Rightarrow> 'w \<Rightarrow> director_event list \<Rightarrow> (string, json) jsmap \<times> 'w \<times> tick_log" where
  "director_run port clock w es = foldl (director_step port clock) ([], w, []) es"

fun event_ok :: "director_event \<Rightarrow> bool" where
  "event_ok (CallEvent op x) \<longleftrightarrow> op \<in> tick_ops"
| "event_ok _ \<longleftrightarrow> True"

definition clean_tick :: "(string + tick_report) \<times> (string \<times> fired_outcome) list \<Rightarrow> bool" where
  "clean_tick t \<longleftrightarrow> (case fst t of Inl _ \<Rightarrow> False | Inr rep \<Rightarrow> rp_error rep = None)"

definition fired_key :: "string \<times> fired_outcome \<Rightarrow> string \<times> string" where
  "fired_key f = (fst f, fo_ruleId (snd f))"

definition all_fired :: "tick_log \<Rightarrow> (string \<times> fired_outcome) list" where
  "all_fired log = concat (map snd log)"

section \<open>What each step leaves alone\<close>

definition same_frame :: "'w tick_run \<Rightarrow> 'w tick_run \<Rightarrow> bool" where
  "same_frame s s' \<longleftrightarrow> tk_fired s' = tk_fired s \<and> tk_rules s' = tk_rules s"

lemma same_frame_trans: "same_frame s s' \<Longrightarrow> same_frame s' s'' \<Longrightarrow> same_frame s s''"
  by (simp add: same_frame_def)

lemma note_error_fields [simp]:
  "tk_world (note_error e s) = tk_world s" "tk_revs (note_error e s) = tk_revs s"
  "tk_fired (note_error e s) = tk_fired s" "tk_rules (note_error e s) = tk_rules s"
  "tk_processed (note_error e s) = tk_processed s" "tk_error (note_error e s) \<noteq> None"
  by (auto simp: note_error_def split: option.split)

lemma remember_fields [simp]:
  "tk_world (remember rows i s) = tk_world s" "tk_error (remember rows i s) = tk_error s"
  "tk_fired (remember rows i s) = tk_fired s" "tk_rules (remember rows i s) = tk_rules s"
  by (simp_all add: remember_def)

lemma remember_all [simp]:
  "tk_world (fold (\<lambda>t. remember rows (g t)) ts s) = tk_world s"
  "tk_error (fold (\<lambda>t. remember rows (g t)) ts s) = tk_error s"
  "tk_fired (fold (\<lambda>t. remember rows (g t)) ts s) = tk_fired s"
  "tk_rules (fold (\<lambda>t. remember rows (g t)) ts s) = tk_rules s"
  by (induction ts arbitrary: s) simp_all

lemma t_bind_cases:
  assumes "t_bind m f s = (r, s')"
  obtains (reject) e where "m s = (Inl e, s')" and "r = Inl e"
    | (go) x s1 where "m s = (Inr x, s1)" and "f x s1 = (r, s')"
  using assms by (auto simp: t_bind_def split: prod.splits sum.splits)

lemma t_call_cases:
  assumes "t_call port op x s = (r, s')"
  shows "port op x (tk_world s) = (r, tk_world s')" and "s' = s\<lparr>tk_world := tk_world s'\<rparr>"
  using assms by (auto simp: t_call_def split: prod.splits)

text \<open>Firing appends one entry per rule, named after it.\<close>

lemma fire_all_fields:
  "fire_all port m rules s = (outs, s') \<Longrightarrow>
     tk_rules s' = tk_rules s \<and> tk_revs s' = tk_revs s \<and> tk_error s' = tk_error s \<and> tk_processed s' = tk_processed s \<and>
     tk_fired s' = tk_fired s @ map (Pair (tm_id m)) outs \<and> map fo_ruleId outs = map ru_id rules"
proof (induction rules arbitrary: s outs s')
  case (Cons rule rules)
  obtain r w where p: "port (th_op (ru_then rule)) (JObj (action_of m rule)) (tk_world s) = (r, w)" by fastforce
  define s1 where "s1 = s\<lparr>tk_world := w, tk_fired := tk_fired s @ [(tm_id m, outcome_of rule r)]\<rparr>"
  obtain rest s2 where rec: "fire_all port m rules s1 = (rest, s2)" by fastforce
  have eq: "outs = outcome_of rule r # rest" "s' = s2"
    using Cons.prems p rec by (simp_all add: fireRule_def s1_def)
  have "fo_ruleId (outcome_of rule r) = ru_id rule"
    by (simp add: outcome_of_def split: sum.split port_result.split)
  with Cons.IH [OF rec] eq show ?case by (simp add: s1_def)
qed simp

text \<open>A trigger's message has the id of its row, and triggers keep the order of the rows.\<close>

lemma message_of_id: "message_of i got = Some m \<Longrightarrow> tm_id m = i"
  by (auto simp: message_of_def asTriggerMessage_def split: if_splits json.splits prod.splits)

definition picked :: "(string \<times> 'a) list \<Rightarrow> (string \<times> 'b) list \<Rightarrow> bool" where
  "picked ts rows \<longleftrightarrow> set (map fst ts) \<subseteq> set (map fst rows) \<and> length ts \<le> length rows \<and>
     (distinct (map fst rows) \<longrightarrow> distinct (map fst ts))"

lemma picked_Cons: "picked ts rows \<Longrightarrow> picked ts (x # rows)"
  by (auto simp: picked_def)

lemma picked_Cons_Cons: "picked ts rows \<Longrightarrow> picked ((i, m) # ts) ((i, r) # rows)"
  by (auto simp: picked_def)

definition passed :: "(string \<times> trigger_message) list \<Rightarrow> (string \<times> json) list \<Rightarrow> 'w tick_run \<Rightarrow> 'w tick_run \<Rightarrow> bool" where
  "passed ts rows s s' \<longleftrightarrow> picked ts rows \<and> (\<forall>t\<in>set ts. tm_id (snd t) = fst t) \<and>
     tk_world s' = tk_world s \<and> same_frame s s' \<and> (tk_error s' = None \<longrightarrow> tk_error s = None)"

lemma passed_skip:
  assumes "passed ts rows s1 s'" and "tk_world s1 = tk_world s" and "same_frame s s1" and "tk_error s1 = None \<longrightarrow> tk_error s = None"
  shows "passed ts (x # rows) s s'"
  using assms same_frame_trans [of s s1 s'] by (auto simp: passed_def intro: picked_Cons)

lemma passed_take: "passed ts rows s s' \<Longrightarrow> tm_id m = i \<Longrightarrow> passed ((i, m) # ts) ((i, r) # rows) s s'"
  by (simp add: passed_def picked_Cons_Cons)

lemma predicate_pass_triggers: "predicate_pass self bodies rows s = (ts, s') \<Longrightarrow> passed ts rows s s'"
proof (induction rows arbitrary: s ts s')
  case Nil
  then show ?case by (simp add: passed_def same_frame_def picked_def)
next
  case (Cons row rows)
  obtain i r where row: "row = (i, r)" by fastforce
  have skip: "passed ts (row # rows) s s'"
    if "predicate_pass self bodies (row # rows) s = predicate_pass self bodies rows s1"
      and "tk_world s1 = tk_world s" and "same_frame s s1" and "tk_error s1 = None \<longrightarrow> tk_error s = None" for s1
    using Cons that passed_skip by metis
  show ?case
  proof (cases "map_get bodies i")
    case None
    then show ?thesis by (intro skip [of s]) (simp_all add: row same_frame_def)
  next
    case got: (Some got)
    show ?thesis
    proof (cases "found_row got")
      case False
      then show ?thesis using got by (intro skip [of "note_error (RowMissing i) s"]) (simp_all add: row same_frame_def)
    next
      case found: True
      show ?thesis
      proof (cases "\<exists>m. message_of i got = Some m \<and> is_trigger self m")
        case False
        then show ?thesis using got found
          by (intro skip [of "s\<lparr>tk_revs := map_set i r (tk_revs s)\<rparr>"]) (auto simp: row same_frame_def split: option.split)
      next
        case True
        then obtain m where m: "message_of i got = Some m" "is_trigger self m" by blast
        obtain ts1 s1 where rec: "predicate_pass self bodies rows s = (ts1, s1)" by fastforce
        then have "ts = (i, m) # ts1" "s' = s1" using Cons.prems row got found m by auto
        with Cons.IH [OF rec] message_of_id [OF m(1)] row show ?thesis by (simp add: passed_take)
      qed
    qed
  qed
qed

section \<open>The contract\<close>

locale fired_ledger =
  fixes port :: "'w caller"
    and inv :: "'w \<Rightarrow> bool"
    and ledgered :: "'w \<Rightarrow> string \<Rightarrow> bool"
  assumes inv_kept: "inv w \<Longrightarrow> op \<in> tick_ops \<Longrightarrow> inv (snd (port op x w))"
    and ledger_kept: "inv w \<Longrightarrow> op \<in> tick_ops \<Longrightarrow> ledgered w i \<Longrightarrow> ledgered (snd (port op x w)) i"
    and ledger_read: "inv w \<Longrightarrow> length ids \<le> TICK_SCAN_CAP \<Longrightarrow>
      \<exists>xs a b. fst (port ''vault.getmany@1'' (getmany_payload AUTOMATION_NS (map fired_id ids)) w) = Inr (POk (JArr xs) a b) \<and>
        (\<forall>i\<in>set ids. ledgered w i \<longrightarrow> (\<exists>x\<in>set xs. found_row x \<and> json_field x ''id'' = JStr (fired_id i)))"
    and ledger_written: "inv w \<Longrightarrow> fst (port ''vault.append@1'' (ledger_payload t m outs) w) = Inr (POk v a b) \<Longrightarrow>
      ledgered (snd (port ''vault.append@1'' (ledger_payload t m outs) w)) (tm_id m)"
    and scan_distinct: "inv w \<Longrightarrow> fst (port ''vault.query@1'' (query_payload ns f) w) = Inr (POk v a b) \<Longrightarrow>
      \<exists>xs. v = JArr xs \<and> distinct (map (\<lambda>x. fst (query_row x)) xs)"
begin

definition later :: "'w tick_run \<Rightarrow> 'w tick_run \<Rightarrow> bool" where
  "later s s' \<longleftrightarrow> inv (tk_world s') \<and> (\<forall>i. ledgered (tk_world s) i \<longrightarrow> ledgered (tk_world s') i) \<and>
     (tk_error s' = None \<longrightarrow> tk_error s = None)"

lemma later_trans: "later s s' \<Longrightarrow> later s' s'' \<Longrightarrow> later s s''"
  by (auto simp: later_def)

lemma later_inv: "later s s' \<Longrightarrow> inv (tk_world s')"
  by (simp add: later_def)

lemma call_later:
  assumes "t_call port op x s = (r, s')" and "op \<in> tick_ops" and "inv (tk_world s)"
  shows "later s s' \<and> same_frame s s'"
proof -
  note c = t_call_cases [OF assms(1)]
  obtain w1 where s': "s' = s\<lparr>tk_world := w1\<rparr>" using c(2) by blast
  have w: "tk_world s' = snd (port op x (tk_world s))" using c(1) by simp
  have e: "tk_error s' = tk_error s" "tk_fired s' = tk_fired s" "tk_rules s' = tk_rules s" using s' by simp_all
  show ?thesis
    using inv_kept [OF assms(3,2), of x] ledger_kept [OF assms(3,2), of _ x] w e by (simp add: later_def same_frame_def)
qed

definition fit :: "'w tick_run \<Rightarrow> bool" where
  "fit s \<longleftrightarrow> (\<forall>rs n. tk_rules s = Some (rs, n) \<longrightarrow> list_all rule_ok rs \<and> distinct (map ru_id rs))"

lemma fit_frame: "same_frame s s' \<Longrightarrow> fit s \<Longrightarrow> fit s'"
  by (simp add: fit_def same_frame_def)

lemma later_frame: "inv (tk_world s) \<Longrightarrow> tk_world s' = tk_world s \<Longrightarrow> (tk_error s' = None \<longrightarrow> tk_error s = None) \<Longrightarrow> later s s'"
  by (simp add: later_def)

lemma load_rule_later:
  assumes "load_rule port i s = (r, s')" and "inv (tk_world s)"
  shows "later s s' \<and> same_frame s s' \<and> (\<forall>x. r = Inr (Some x) \<longrightarrow> rule_ok x \<and> ru_id x = i)"
  using assms(1) unfolding load_rule_def
proof (cases rule: t_bind_cases)
  case (reject e)
  then show ?thesis using call_later [OF reject(1) _ assms(2)] by (simp add: tick_ops_def)
next
  case (go x s1)
  then show ?thesis using call_later [OF go(1) _ assms(2)]
    by (auto simp: tick_ops_def t_return_def split: port_result.splits option.splits if_splits dest: asRule_ok)
qed

lemma load_rules_later:
  "load_rules port is s = (r, s') \<Longrightarrow> inv (tk_world s) \<Longrightarrow>
     later s s' \<and> same_frame s s' \<and>
     (\<forall>rs. r = Inr rs \<longrightarrow> list_all rule_ok rs \<and> set (map ru_id rs) \<subseteq> set is \<and> (distinct is \<longrightarrow> distinct (map ru_id rs)))"
proof (induction "is" arbitrary: s r s')
  case Nil
  then show ?case by (auto simp: later_def same_frame_def)
next
  case (Cons i is1)
  from Cons.prems(1) show ?case unfolding load_rules.simps
  proof (cases rule: t_bind_cases)
    case (reject e)
    then show ?thesis using load_rule_later [OF reject(1) Cons.prems(2)] by simp
  next
    case (go x s1)
    note one = load_rule_later [OF go(1) Cons.prems(2)]
    from go(2) show ?thesis
    proof (cases rule: t_bind_cases)
      case (reject e)
      then show ?thesis using Cons.IH [OF reject(1)] one later_inv later_trans same_frame_trans by blast
    next
      case inner: (go rs s2)
      have s: "s2 = s'" "r = Inr (case x of Some y \<Rightarrow> y # rs | None \<Rightarrow> rs)" using inner(2) by (simp_all add: t_return_def)
      have inv1: "inv (tk_world s1)" using one later_inv by blast
      from Cons.IH [OF inner(1) inv1] one s show ?thesis
        using later_trans [of s s1 s'] same_frame_trans [of s s1 s'] by (cases x) auto
    qed
  qed
qed

lemma sorted_rules: "list_all P (sort_key f xs) \<longleftrightarrow> list_all P xs" "distinct (map g (sort_key f xs)) \<longleftrightarrow> distinct (map g xs)"
  by (simp_all add: list_all_iff distinct_map)

lemma distinct_take: "distinct (map f xs) \<Longrightarrow> distinct (map f (take n xs))"
  by (metis distinct_take take_map)

lemma loadEnabledRules_later:
  assumes "loadEnabledRules port s = (r, s')" and "inv (tk_world s)"
  shows "later s s' \<and> same_frame s s' \<and>
    (\<forall>rs n e. r = Inr (rs, n, e) \<longrightarrow> list_all rule_ok rs \<and> distinct (map ru_id rs))"
  using assms(1) unfolding loadEnabledRules_def
proof (cases rule: t_bind_cases)
  case (reject e)
  then show ?thesis using call_later [OF reject(1) _ assms(2)] by (simp add: tick_ops_def)
next
  case (go q s1)
  have c: "later s s1" "same_frame s s1" using call_later [OF go(1) _ assms(2)] by (simp_all add: tick_ops_def)
  show ?thesis
  proof (cases q)
    case (PErr c1 d1 f1)
    then show ?thesis using go(2) c by (auto simp: t_return_def)
  next
    case (POk v a b)
    have "fst (port ''vault.query@1'' (query_payload AUTOMATION_NS [(''idPrefix'', JStr RULE_PREFIX)]) (tk_world s)) = Inr (POk v a b)"
      using t_call_cases(1) [OF go(1)] POk by simp
    from scan_distinct [OF assms(2) this] obtain xs where xs: "v = JArr xs" "distinct (map (\<lambda>x. fst (query_row x)) xs)"
      by blast
    let ?ids = "map (\<lambda>x. fst (query_row x)) (take TICK_RULE_CAP xs)"
    have d: "distinct ?ids" using xs(2) by (rule distinct_take)
    from go(2) POk xs(1)
    have "t_bind (load_rules port ?ids) (\<lambda>rules. t_return (sort_key ru_id rules, length ?ids, None)) s1 = (r, s')"
      by (simp add: rows_reply_def lift_reply_def t_bind_def Let_def)
    then show ?thesis
    proof (cases rule: t_bind_cases)
      case (reject e)
      then show ?thesis using load_rules_later [OF reject(1) later_inv [OF c(1)]] c later_trans [of s s1 s'] same_frame_trans [of s s1 s']
        by simp
    next
      case inner: (go rules s2)
      then show ?thesis using load_rules_later [OF inner(1) later_inv [OF c(1)]] d c later_trans [of s s1 s'] same_frame_trans [of s s1 s']
        by (auto simp: t_return_def sorted_rules)
    qed
  qed
qed

lemma need_rules_later:
  assumes "need_rules port s = (r, s')" and "inv (tk_world s)" and "fit s"
  shows "later s s' \<and> tk_fired s' = tk_fired s \<and> fit s' \<and>
    (\<forall>rs n. r = Inr (rs, n) \<longrightarrow> list_all rule_ok rs \<and> distinct (map ru_id rs))"
proof (cases "tk_rules s")
  case (Some x)
  then show ?thesis using assms by (cases x) (auto simp: need_rules_def later_def fit_def)
next
  case None
  then have "t_bind (loadEnabledRules port) (\<lambda>(rules, total, err).
            t_bind (t_modify (\<lambda>s. (case err of Some e \<Rightarrow> note_error e s | None \<Rightarrow> s)\<lparr>tk_rules := Some (rules, total)\<rparr>)) (\<lambda>_.
              t_return (rules, total))) s = (r, s')"
    using assms(1) by (simp add: need_rules_def)
  then show ?thesis
  proof (cases rule: t_bind_cases)
    case (reject e)
    then show ?thesis using loadEnabledRules_later [OF reject(1) assms(2)] fit_frame [OF _ assms(3)]
      by (simp add: same_frame_def)
  next
    case (go x s1)
    obtain rs n e where x: "x = (rs, n, e)" by (cases x)
    have s': "s' = (case e of Some e \<Rightarrow> note_error e s1 | None \<Rightarrow> s1)\<lparr>tk_rules := Some (rs, n)\<rparr>" "r = Inr (rs, n)"
      using go(2) x by (auto simp: t_bind_def t_modify_def t_return_def)
    have l: "later s s1" "same_frame s s1" "list_all rule_ok rs" "distinct (map ru_id rs)"
      using loadEnabledRules_later [OF go(1) assms(2)] x by auto
    have "later s1 s'" using later_inv [OF l(1)] s'(1) by (intro later_frame) (auto split: option.splits)
    then show ?thesis using l s' later_trans [OF l(1)]
      by (auto simp: same_frame_def fit_def split: option.splits)
  qed
qed

lemma fire_all_later:
  "fire_all port m rules s = (outs, s') \<Longrightarrow> inv (tk_world s) \<Longrightarrow> list_all rule_ok rules \<Longrightarrow> later s s'"
proof (induction rules arbitrary: s outs s')
  case Nil
  then show ?case by (simp add: later_def)
next
  case (Cons rule rules)
  obtain r w where p: "port (th_op (ru_then rule)) (JObj (action_of m rule)) (tk_world s) = (r, w)" by fastforce
  define s1 where "s1 = s\<lparr>tk_world := w, tk_fired := tk_fired s @ [(tm_id m, outcome_of rule r)]\<rparr>"
  obtain rest s2 where rec: "fire_all port m rules s1 = (rest, s2)" by fastforce
  have eq: "s' = s2" using Cons.prems(1) p rec by (simp add: fireRule_def s1_def)
  have op: "th_op (ru_then rule) \<in> tick_ops" using Cons.prems(3) by (simp add: rule_ok_def tick_ops_def)
  have w: "w = snd (port (th_op (ru_then rule)) (JObj (action_of m rule)) (tk_world s))" using p by simp
  have l: "later s s1"
    using inv_kept [OF Cons.prems(2) op] ledger_kept [OF Cons.prems(2) op] by (simp add: later_def s1_def w)
  from Cons.IH [OF rec later_inv [OF l]] Cons.prems(3) show ?case using later_trans [OF l] eq by simp
qed

lemma run_job_later:
  assumes "run_job port clock rows job s = (r, s')" and "inv (tk_world s)" and "fit s"
  shows "later s s' \<and> fit s' \<and> (\<exists>outs. tk_fired s' = tk_fired s @ map (Pair (tm_id (snd job))) outs \<and>
      distinct (map fo_ruleId outs) \<and> (r = Inr () \<and> tk_error s' = None \<and> outs \<noteq> [] \<longrightarrow> ledgered (tk_world s') (tm_id (snd job))))"
  using assms(1) unfolding run_job_def
proof (cases rule: t_bind_cases)
  case (reject e)
  then show ?thesis using need_rules_later [OF reject(1) assms(2,3)] by auto
next
  case (go x s1)
  obtain rules total where x: "x = (rules, total)" by (cases x)
  let ?m = "snd job"
  have n: "later s s1" "tk_fired s1 = tk_fired s" "fit s1" "list_all rule_ok rules" "distinct (map ru_id rules)"
    using need_rules_later [OF go(1) assms(2,3)] x by auto
  let ?rs = "filter (rule_matches ?m) rules"
  obtain outs s2 where fire: "fire_all port ?m ?rs s1 = (outs, s2)" by fastforce
  have "list_all rule_ok ?rs" using n(4) by (auto simp: list_all_iff)
  note f = fire_all_later [OF fire later_inv [OF n(1)] this] fire_all_fields [OF fire]
  have l2: "later s s2" and fit2: "fit s2" and d: "distinct (map fo_ruleId outs)"
    using f n later_trans [of s s1 s2] by (auto simp: fit_def distinct_map_filter)
  have fired: "tk_fired s2 = tk_fired s @ map (Pair (tm_id ?m)) outs" using f n(2) by simp
  show ?thesis
  proof (cases "outs = [] \<and> total = 0")
    case True
    then have "s' = s2" using go(2) x fire by simp
    then show ?thesis using l2 fit2 fired d True by auto
  next
    case False
    then have "t_bind (t_call port ''vault.append@1'' (ledger_payload (clock (tk_world s2)) ?m outs)) (\<lambda>r.
            t_modify (case r of
              POk _ _ _ \<Rightarrow> (\<lambda>s. remember rows (fst job) (s\<lparr>tk_processed := tk_processed s + 1\<rparr>))
            | PErr c d _ \<Rightarrow> note_error (AppendFailed (tm_id ?m) c d))) s2 = (r, s')"
      using go(2) x fire False by (simp add: Let_def if_not_P del: de_Morgan_conj)
    then show ?thesis
    proof (cases rule: t_bind_cases)
      case (reject e)
      then have "later s2 s' \<and> same_frame s2 s'"
        using call_later [OF reject(1) _ later_inv [OF l2]] by (simp add: tick_ops_def)
      then show ?thesis using l2 later_trans [of s s2 s'] fired d fit_frame [OF _ fit2] reject(2)
        by (auto simp: same_frame_def)
    next
      case (go q s3)
      have c: "later s2 s3" "same_frame s2 s3"
        using call_later [OF go(1) _ later_inv [OF l2]] by (simp_all add: tick_ops_def)
      have s': "later s3 s'" "same_frame s3 s'"
        using go(2) later_inv [OF c(1)]
        by (auto simp: t_modify_def same_frame_def intro!: later_frame split: port_result.splits)
      have "ledgered (tk_world s') (tm_id ?m)" if ok: "tk_error s' = None"
      proof -
        obtain v a b where q: "q = POk v a b"
          using go(2) ok by (cases q) (auto simp: t_modify_def)
        have "fst (port ''vault.append@1'' (ledger_payload (clock (tk_world s2)) ?m outs) (tk_world s2)) = Inr (POk v a b)"
          and "snd (port ''vault.append@1'' (ledger_payload (clock (tk_world s2)) ?m outs) (tk_world s2)) = tk_world s3"
          using t_call_cases(1) [OF go(1)] q by simp_all
        with ledger_written [OF later_inv [OF l2]] have "ledgered (tk_world s3) (tm_id ?m)" by metis
        then show ?thesis using s'(1) by (simp add: later_def)
      qed
      moreover have "later s s'" using l2 c(1) s'(1) later_trans by blast
      moreover have "same_frame s2 s'" using c(2) s'(2) same_frame_trans by blast
      ultimately show ?thesis using fired d fit_frame [OF _ fit2] by (auto simp: same_frame_def)
    qed
  qed
qed

lemma jobs_later:
  "t_each (run_job port clock rows) jobs s = (r, s') \<Longrightarrow> inv (tk_world s) \<Longrightarrow> fit s \<Longrightarrow>
     distinct (map (\<lambda>t. tm_id (snd t)) jobs) \<Longrightarrow>
     later s s' \<and> (\<exists>new. tk_fired s' = tk_fired s @ new \<and> fst ` set new \<subseteq> (\<lambda>t. tm_id (snd t)) ` set jobs \<and>
       distinct (map fired_key new) \<and> (r = Inr () \<and> tk_error s' = None \<longrightarrow> (\<forall>f\<in>set new. ledgered (tk_world s') (fst f))))"
proof (induction jobs arbitrary: s)
  case Nil
  then show ?case by (simp add: later_def)
next
  case (Cons job jobs)
  let ?i = "tm_id (snd job)"
  from Cons.prems(1) show ?case unfolding t_each.simps
  proof (cases rule: t_bind_cases)
    case (reject e)
    from run_job_later [OF reject(1) Cons.prems(2,3)] obtain outs where
      o: "tk_fired s' = tk_fired s @ map (Pair ?i) outs" "distinct (map fo_ruleId outs)" and l: "later s s'" by blast
    have "distinct (map fired_key (map (Pair ?i) outs))" using o(2) by (simp add: fired_key_def distinct_map inj_on_def)
    then show ?thesis using o(1) l reject(2) by (intro conjI exI [of _ "map (Pair ?i) outs"]) auto
  next
    case (go u s1)
    from run_job_later [OF go(1) Cons.prems(2,3)] obtain outs where
      o: "tk_fired s1 = tk_fired s @ map (Pair ?i) outs" "distinct (map fo_ruleId outs)"
        "tk_error s1 = None \<and> outs \<noteq> [] \<longrightarrow> ledgered (tk_world s1) ?i" and l: "later s s1" and f: "fit s1" by auto
    from Cons.IH [OF go(2) later_inv [OF l] f] Cons.prems(4) obtain new where
      n: "tk_fired s' = tk_fired s1 @ new" "fst ` set new \<subseteq> (\<lambda>t. tm_id (snd t)) ` set jobs" "distinct (map fired_key new)"
        "r = Inr () \<and> tk_error s' = None \<longrightarrow> (\<forall>f\<in>set new. ledgered (tk_world s') (fst f))" and l': "later s1 s'" by auto
    have "distinct (map fired_key (map (Pair ?i) outs))" using o(2) by (simp add: fired_key_def distinct_map inj_on_def)
    moreover have "fired_key ` set (map (Pair ?i) outs) \<inter> fired_key ` set new = {}"
    proof -
      have "?i \<notin> fst ` set new" using n(2) Cons.prems(4) by auto
      then show ?thesis by (force simp: fired_key_def)
    qed
    ultimately have "distinct (map fired_key (map (Pair ?i) outs @ new))" using n(3) by (simp add: image_image)
    moreover have "\<forall>f\<in>set (map (Pair ?i) outs @ new). ledgered (tk_world s') (fst f)" if "r = Inr () \<and> tk_error s' = None"
      using that n(4) o(3) l' by (auto simp: later_def)
    ultimately show ?thesis using o(1) n(1,2) later_trans [OF l l']
      by (intro conjI exI [of _ "map (Pair ?i) outs @ new"]) auto
  qed
qed

text \<open>The reads of the pass.\<close>

lemma fetch_bodies_later:
  assumes "fetch_bodies port ids s = (r, s')" and "inv (tk_world s)"
  shows "later s s' \<and> same_frame s s'"
proof (cases "ids = []")
  case True
  then show ?thesis using assms by (simp add: fetch_bodies_def t_return_def later_def same_frame_def)
next
  case False
  then have "t_bind (t_call port ''vault.getmany@1'' (getmany_payload EMAIL_NS ids)) (\<lambda>r.
        case r of
          POk v _ _ \<Rightarrow> t_bind (lift_reply (rows_reply v)) (\<lambda>xs. t_return (index_rows xs))
        | PErr c d _ \<Rightarrow> t_bind (t_modify (note_error (BodiesFailed c d))) (\<lambda>_. t_return [])) s = (r, s')"
    using assms(1) by (simp add: fetch_bodies_def)
  then show ?thesis
  proof (cases rule: t_bind_cases)
    case (reject e)
    then show ?thesis using call_later [OF reject(1) _ assms(2)] by (simp add: tick_ops_def)
  next
    case (go q s1)
    have c: "later s s1" "same_frame s s1" using call_later [OF go(1) _ assms(2)] by (simp_all add: tick_ops_def)
    have "later s1 s' \<and> same_frame s1 s'"
      using go(2) later_inv [OF c(1)]
      by (auto simp: t_bind_def lift_reply_def t_return_def t_modify_def same_frame_def
          intro!: later_frame split: port_result.splits sum.splits prod.splits)
    then show ?thesis using c later_trans same_frame_trans by blast
  qed
qed

lemma read_ledger_later:
  assumes "read_ledger port ids s = (r, s')" and "inv (tk_world s)" and "length ids \<le> TICK_SCAN_CAP"
  shows "later s s' \<and> same_frame s s' \<and>
    (\<forall>ledger. r = Inr ledger \<longrightarrow> (\<forall>i\<in>set ids. ledgered (tk_world s) i \<longrightarrow> fired_id i \<in> set ledger))"
proof (cases "ids = []")
  case True
  then show ?thesis using assms by (simp add: read_ledger_def t_return_def later_def same_frame_def)
next
  case False
  then have run: "t_bind (t_call port ''vault.getmany@1'' (getmany_payload AUTOMATION_NS (map fired_id ids))) (\<lambda>r.
        case r of
          POk v _ _ \<Rightarrow> t_bind (lift_reply (rows_reply v)) (\<lambda>xs.
            t_return (map (\<lambda>x. text_of (json_field x ''id'')) (filter found_row xs)))
        | PErr c d _ \<Rightarrow> t_bind (t_modify (note_error (LedgerFailed c d))) (\<lambda>_. t_return [])) s = (r, s')"
    using assms(1) by (simp add: read_ledger_def)
  obtain xs a b where xs: "fst (port ''vault.getmany@1'' (getmany_payload AUTOMATION_NS (map fired_id ids)) (tk_world s)) = Inr (POk (JArr xs) a b)"
    and found: "\<And>i. i \<in> set ids \<Longrightarrow> ledgered (tk_world s) i \<Longrightarrow> \<exists>x\<in>set xs. found_row x \<and> json_field x ''id'' = JStr (fired_id i)"
    using ledger_read [OF assms(2,3)] by blast
  from run show ?thesis
  proof (cases rule: t_bind_cases)
    case (reject e)
    then show ?thesis using call_later [OF reject(1) _ assms(2)] by (simp add: tick_ops_def)
  next
    case (go q s1)
    have c: "later s s1" "same_frame s s1" using call_later [OF go(1) _ assms(2)] by (simp_all add: tick_ops_def)
    have q: "q = POk (JArr xs) a b" using t_call_cases(1) [OF go(1)] xs by simp
    have "r = Inr (map (\<lambda>x. text_of (json_field x ''id'')) (filter found_row xs))" "s' = s1"
      using go(2) q by (simp_all add: rows_reply_def lift_reply_def t_bind_def t_return_def)
    then show ?thesis using c found by force
  qed
qed

section \<open>One tick\<close>

text \<open>What a pass fires was not in the ledger, no pair of message and rule fires twice, and a pass
  without an error leaves every message it fired in the ledger.\<close>

definition pass_ok :: "'w \<Rightarrow> string + 'a \<Rightarrow> 'w tick_run \<Rightarrow> bool" where
  "pass_ok w r s \<longleftrightarrow> inv (tk_world s) \<and> (\<forall>i. ledgered w i \<longrightarrow> ledgered (tk_world s) i) \<and>
     (\<forall>f\<in>set (tk_fired s). \<not> ledgered w (fst f)) \<and> distinct (map fired_key (tk_fired s)) \<and>
     ((\<exists>x. r = Inr x) \<and> tk_error s = None \<longrightarrow> (\<forall>f\<in>set (tk_fired s). ledgered (tk_world s) (fst f)))"

lemma pass_quiet: "later s s' \<Longrightarrow> same_frame s s' \<Longrightarrow> tk_fired s = [] \<Longrightarrow> pass_ok (tk_world s) r s'"
  by (simp add: pass_ok_def later_def same_frame_def)

lemma tick_body_ok:
  assumes "tick_body port clock self rows s = (r, s')" and "inv (tk_world s)" and "tk_fired s = []" and "tk_rules s = None"
    and "distinct (map fst rows)" and "length rows \<le> TICK_SCAN_CAP"
  shows "pass_ok (tk_world s) r s'"
proof -
  let ?cs = "candidates_of (tk_revs s) rows"
  from assms(1) have run: "t_bind (fetch_bodies port (map fst ?cs)) (\<lambda>bodies s1.
        let (triggers, s2) = predicate_pass self bodies ?cs s1 in
        t_bind (read_ledger port (map (\<lambda>t. tm_id (snd t)) triggers)) (\<lambda>ledger s3.
          let (jobs, s4) = ledger_pass rows ledger triggers s3 in
          t_each (run_job port clock rows) jobs s4) s2) s = (r, s')"
    by (simp add: tick_body_def Let_def)
  then show ?thesis
  proof (cases rule: t_bind_cases)
    case (reject e)
    then show ?thesis using fetch_bodies_later [OF reject(1) assms(2)] assms(3) by (simp add: pass_quiet)
  next
    case (go bodies s1)
    obtain triggers s2 where pass: "predicate_pass self bodies ?cs s1 = (triggers, s2)" by fastforce
    have c: "later s s1" "same_frame s s1" using fetch_bodies_later [OF go(1) assms(2)] by simp_all
    note p = predicate_pass_triggers [OF pass, unfolded passed_def picked_def]
    have ids: "map (\<lambda>t. tm_id (snd t)) triggers = map fst triggers" using p by simp
    have d: "distinct (map fst triggers)"
      using p assms(5) by (simp add: candidates_of_def distinct_map_filter)
    have "length triggers \<le> TICK_SCAN_CAP"
      using p assms(6) length_filter_le [of "\<lambda>(i, r). map_get (tk_revs s) i \<noteq> Some r" rows]
      unfolding candidates_of_def by linarith
    then have len: "length (map (\<lambda>t. tm_id (snd t)) triggers) \<le> TICK_SCAN_CAP" by simp
    have c2: "later s s2" "same_frame s s2"
      using c p later_trans [OF c(1) later_frame [OF later_inv [OF c(1)]]] same_frame_trans [OF c(2)] by simp_all
    from go(2) pass have "t_bind (read_ledger port (map (\<lambda>t. tm_id (snd t)) triggers)) (\<lambda>ledger s3.
          let (jobs, s4) = ledger_pass rows ledger triggers s3 in
          t_each (run_job port clock rows) jobs s4) s2 = (r, s')" by simp
    then show ?thesis
    proof (cases rule: t_bind_cases)
      case (reject e)
      then have "later s2 s' \<and> same_frame s2 s'" using read_ledger_later [OF reject(1) later_inv [OF c2(1)] len] by simp
      then have "later s s' \<and> same_frame s s'" using c2 later_trans same_frame_trans by blast
      then show ?thesis using assms(3) by (simp add: pass_quiet)
    next
      case (go ledger s3)
      obtain jobs s4 where lp: "ledger_pass rows ledger triggers s3 = (jobs, s4)" by fastforce
      have jobs: "jobs = filter (\<lambda>t. fired_id (tm_id (snd t)) \<notin> set ledger) triggers"
        and s4: "tk_world s4 = tk_world s3" "tk_error s4 = tk_error s3" "tk_fired s4 = tk_fired s3" "tk_rules s4 = tk_rules s3"
        using lp by (auto simp: ledger_pass_def)
      note rd = read_ledger_later [OF go(1) later_inv [OF c2(1)] len]
      have seen: "\<forall>t\<in>set triggers. ledgered (tk_world s2) (tm_id (snd t)) \<longrightarrow> fired_id (tm_id (snd t)) \<in> set ledger"
        using rd [THEN conjunct2, THEN conjunct2, rule_format, OF refl] by simp
      have c3: "later s s3" "same_frame s s3" using rd c2 later_trans same_frame_trans by blast+
      have l4: "later s s4" using later_trans [OF c3(1) later_frame [OF later_inv [OF c3(1)] s4(1)]] s4(2) by simp
      have fit4: "fit s4" and f4: "tk_fired s4 = []" using c3(2) s4 assms(3,4) by (simp_all add: fit_def same_frame_def)
      have d4: "distinct (map (\<lambda>t. tm_id (snd t)) jobs)"
        unfolding jobs by (rule distinct_map_filter) (simp only: ids d)
      have each: "t_each (run_job port clock rows) jobs s4 = (r, s')" using go(2) lp by simp
      from jobs_later [OF each later_inv [OF l4] fit4 d4]
      obtain new where new0: "tk_fired s' = tk_fired s4 @ new" and new: "fst ` set new \<subseteq> (\<lambda>t. tm_id (snd t)) ` set jobs"
          "distinct (map fired_key new)" "r = Inr () \<and> tk_error s' = None \<longrightarrow> (\<forall>f\<in>set new. ledgered (tk_world s') (fst f))"
        and l': "later s4 s'"
        by blast
      have fired: "tk_fired s' = new" using new0 f4 by simp
      have unfired: "\<not> ledgered (tk_world s) (tm_id (snd t))" if "t \<in> set jobs" for t
      proof
        assume led: "ledgered (tk_world s) (tm_id (snd t))"
        have t: "t \<in> set triggers" "fired_id (tm_id (snd t)) \<notin> set ledger" using that jobs by simp_all
        have "ledgered (tk_world s2) (tm_id (snd t))" using c2(1) led by (simp add: later_def)
        then have "fired_id (tm_id (snd t)) \<in> set ledger" using seen t(1) by simp
        with t(2) show False by simp
      qed
      have "\<not> ledgered (tk_world s) (fst f)" if f: "f \<in> set new" for f
      proof -
        have "fst f \<in> (\<lambda>t. tm_id (snd t)) ` set jobs" by (rule subsetD [OF new(1)]) (rule imageI [OF f])
        then show ?thesis using unfired by (elim imageE) simp
      qed
      then show ?thesis using new fired later_trans [OF l4 l'] by (auto simp: pass_ok_def later_def)
    qed
  qed
qed

lemma runTick_ok:
  assumes "runTick port clock self revs w = (r, s)" and "inv w"
  shows "pass_ok w r s \<and> (\<forall>rep. r = Inr rep \<and> rp_error rep = None \<longrightarrow> tk_error s = None)"
proof -
  let ?s0 = "start_run revs w"
  obtain q s1 where call: "t_call port ''vault.query@1'' (query_payload EMAIL_NS []) ?s0 = (q, s1)" by fastforce
  have w: "tk_world ?s0 = w" "tk_fired ?s0 = []" "tk_rules ?s0 = None" by (simp_all add: start_run_def)
  have c: "later ?s0 s1" "same_frame ?s0 s1"
    using call_later [OF call] assms(2) w(1) by (simp_all add: tick_ops_def)
  have quiet: "pass_ok w x s1" for x :: "string + tick_report" using pass_quiet [OF c w(2)] w(1) by simp
  consider (rejected) e where "q = Inl e" | (failed) cd d h where "q = Inr (PErr cd d h)"
    | (ok) v a b where "q = Inr (POk v a b)"
    by (metis port_result.exhaust sum.exhaust)
  then show ?thesis
  proof cases
    case rejected
    then show ?thesis using assms(1) call quiet by (auto simp: runTick_def)
  next
    case failed
    then show ?thesis using assms(1) call quiet by (auto simp: runTick_def)
  next
    case ok
    have "fst (port ''vault.query@1'' (query_payload EMAIL_NS []) w) = Inr (POk v a b)"
      using t_call_cases(1) [OF call] ok w(1) by simp
    from scan_distinct [OF assms(2) this] obtain xs where xs: "v = JArr xs" "distinct (map (\<lambda>x. fst (query_row x)) xs)" by blast
    let ?rows = "map query_row (take TICK_SCAN_CAP xs)"
    obtain r1 s2 where body: "tick_body port clock self ?rows s1 = (r1, s2)" by fastforce
    have "distinct (map fst ?rows)" using distinct_take [OF xs(2), of TICK_SCAN_CAP] by (simp add: comp_def)
    then have "pass_ok (tk_world s1) r1 s2"
      using c(2) w by (intro tick_body_ok [OF body later_inv [OF c(1)]]) (simp_all add: same_frame_def)
    moreover have "\<forall>i. ledgered w i \<longrightarrow> ledgered (tk_world s1) i" using c(1) w(1) by (simp add: later_def)
    ultimately have p: "pass_ok w r1 s2" by (auto simp: pass_ok_def)
    have "s = s2" and "case r1 of Inl e \<Rightarrow> r = Inl e | Inr _ \<Rightarrow> \<exists>rep. r = Inr rep \<and> rp_error rep = tk_error s2"
      using assms(1) call ok xs(1) body by (auto simp: runTick_def rows_reply_def Let_def split: sum.splits)
    then show ?thesis using p by (cases r1) (auto simp: pass_ok_def)
  qed
qed

section \<open>Histories\<close>

lemma ledgered_stays:
  assumes "ledgered w i" and "inv w"
  shows "i \<notin> fst ` set (tk_fired (snd (runTick port clock self revs w))) \<and>
    ledgered (tk_world (snd (runTick port clock self revs w))) i"
  using runTick_ok [of clock self revs w "fst (runTick port clock self revs w)" "snd (runTick port clock self revs w)"] assms
  by (auto simp: pass_ok_def)

lemma run_ok:
  "inv w \<Longrightarrow> list_all event_ok es \<Longrightarrow> director_run port clock w es = (revs, w', log) \<Longrightarrow> list_all clean_tick log \<Longrightarrow>
     inv w' \<and> distinct (map fired_key (all_fired log)) \<and> (\<forall>f\<in>set (all_fired log). ledgered w' (fst f))"
proof (induction es arbitrary: revs w' log rule: rev_induct)
  case Nil
  then show ?case by (simp add: director_run_def all_fired_def)
next
  case (snoc e es)
  obtain revs1 w1 log1 where run: "director_run port clock w es = (revs1, w1, log1)" by (metis prod_cases3)
  have step: "director_step port clock (revs1, w1, log1) e = (revs, w', log)"
    using snoc.prems(3) run by (simp add: director_run_def)
  show ?case
  proof (cases e)
    case (TickEvent self)
    obtain r s where tick: "runTick port clock self revs1 w1 = (r, s)" by fastforce
    have log: "log = log1 @ [(r, tk_fired s)]" "w' = tk_world s" using step TickEvent tick by auto
    have ih: "inv w1" "distinct (map fired_key (all_fired log1))" "\<forall>f\<in>set (all_fired log1). ledgered w1 (fst f)"
      using snoc.IH [OF snoc.prems(1) _ run] snoc.prems(2,4) log by simp_all
    have t: "pass_ok w1 r s \<and> (\<forall>rep. r = Inr rep \<and> rp_error rep = None \<longrightarrow> tk_error s = None)"
      by (rule runTick_ok [OF tick ih(1)])
    have "clean_tick (r, tk_fired s)" using snoc.prems(4) log(1) by simp
    then obtain rep where "r = Inr rep" and "tk_error s = None"
      using t by (auto simp: clean_tick_def split: sum.splits)
    then have after: "\<forall>f\<in>set (tk_fired s). ledgered w' (fst f)" using t log(2) by (auto simp: pass_ok_def)
    have "fired_key ` set (all_fired log1) \<inter> fired_key ` set (tk_fired s) = {}"
      using ih(3) t by (force simp: pass_ok_def fired_key_def)
    moreover have "\<forall>f\<in>set (all_fired log1). ledgered w' (fst f)" using ih(3) t log(2) by (simp add: pass_ok_def)
    moreover have "all_fired log = all_fired log1 @ tk_fired s" using log(1) by (simp add: all_fired_def)
    ultimately show ?thesis using ih(2) t after log(2) by (auto simp: pass_ok_def)
  next
    case RestartEvent
    then show ?thesis using snoc.IH [OF snoc.prems(1) _ run] snoc.prems(2,4) step by simp
  next
    case (CallEvent op x)
    then have "inv w1 \<and> distinct (map fired_key (all_fired log1)) \<and> (\<forall>f\<in>set (all_fired log1). ledgered w1 (fst f))"
      using snoc.IH [OF snoc.prems(1) _ run] snoc.prems(2,4) step by simp
    then show ?thesis using CallEvent snoc.prems(2) step inv_kept [of w1 op x] ledger_kept [of w1 op _ x] by auto
  qed
qed

end

end
