(* ===== verification/Director_Vault.thy ===== *)
theory Director_Vault
  imports Director_Ledger Vault_Law
begin

text \<open>
  The director on the delivered vault: the contract of \<open>Director_Ledger\<close> is discharged for the vault of
  \<open>Vault_Port\<close>, with the action op served by a sender that keeps a state of its own and writes mail
  rows (a parameter: what it answers, writes and remembers is arbitrary). The ledger of a message is its
  row \<open>fired:<id>\<close> in the namespace \<open>automation\<close>.
\<close>

section \<open>The port of the director\<close>

type_synonym 'm sender = "json \<Rightarrow> 'm \<Rightarrow> (string + port_result) \<times> (string \<times> json \<times> json) list \<times> 'm"

definition mail_payload :: "string \<times> json \<times> json \<Rightarrow> json" where
  "mail_payload row = JObj [(''ns'', JStr EMAIL_NS), (''id'', JStr (fst row)), (''data'', fst (snd row)), (''meta'', snd (snd row))]"

definition store_mail :: "vault_env \<Rightarrow> string \<Rightarrow> (string \<times> json \<times> json) list \<Rightarrow> vault_plugin \<Rightarrow> vault_plugin" where
  "store_mail venv ca rows p = fold (\<lambda>row p. snd (vault_port venv ca vault_append_op (mail_payload row) p)) rows p"

definition director_port :: "vault_env \<Rightarrow> string \<Rightarrow> 'm sender \<Rightarrow> (vault_plugin \<times> 'm) caller" where
  "director_port venv ca send op x pm =
     (if op = ACTION_OP
      then (case send x (snd pm) of (r, rows, m) \<Rightarrow> (r, store_mail venv ca rows (fst pm), m))
      else (case vault_port venv ca op x (fst pm) of (r, p) \<Rightarrow> (r, p, snd pm)))"

definition row_there :: "vault_plugin \<Rightarrow> string \<Rightarrow> string \<Rightarrow> bool" where
  "row_there p ns i \<longleftrightarrow> (\<exists>v. open_vault p = Some v \<and> stored_row v ns i None \<noteq> None)"

definition vault_ledgered :: "vault_plugin \<times> 'm \<Rightarrow> string \<Rightarrow> bool" where
  "vault_ledgered pm i \<longleftrightarrow> row_there (fst pm) AUTOMATION_NS (fired_id i)"

definition vault_open :: "vault_env \<Rightarrow> vault_plugin \<Rightarrow> bool" where
  "vault_open venv p \<longleftrightarrow> vault_inv venv p \<and> vp_open p \<noteq> None"

definition director_inv :: "vault_env \<Rightarrow> vault_plugin \<times> 'm \<Rightarrow> bool" where
  "director_inv venv pm \<longleftrightarrow> vault_open venv (fst pm)"

section \<open>Rows of the vault\<close>

lemma vault_open_kept: "vault_open venv p \<Longrightarrow> vault_open venv (snd (vault_port venv ca op x p))"
  using deliver_keeps [of "ve_crypto venv" venv p ca op x] by (simp add: vault_open_def vault_inv_def vault_port_def split_def)

lemma open_vault_Some: "vault_open venv p \<Longrightarrow> \<exists>v. open_vault p = Some v \<and> vault_ok (ve_crypto venv) v"
  by (auto simp: vault_open_def vault_inv_def plugin_ok_def open_vault_def)

lemma stored_row_None: "stored_row v ns i None = None \<longleftrightarrow> rows_of ns i (v_objects v) = [] \<and> rows_of ns i (map fst (v_cold v)) = []"
  using newest_None [of "rows_of ns i (v_objects v)"] newest_None [of "rows_of ns i (map fst (v_cold v))"]
  by (cases "newest (rows_of ns i (v_objects v))") (auto simp: stored_row_def find_row_def)

lemma put_open: "vp_open p = Some f \<Longrightarrow> open_vault (put_vault f v p) = Some v"
  by (simp add: open_vault_def put_vault_def dir_vault_def)

lemma appended_there:
  "stored_row (appended c v a t b) ns i None \<noteq> None \<longleftrightarrow> stored_row v ns i None \<noteq> None \<or> (ns, i) = (ai_ns a, ai_id a)"
  by (auto simp: stored_row_None appended_def rows_of_def Let_def)

lemma append_there:
  assumes "vault_open venv p" and "row_there p ns i"
  shows "row_there (snd (vault_port venv ca vault_append_op x p)) ns i"
proof -
  have inv: "vault_inv venv p" using assms(1) by (simp add: vault_open_def)
  from inv show ?thesis
  proof (cases rule: append_handler_outcomes [where ca = ca and x = x])
    case (refused e)
    then show ?thesis using assms(2) by (simp add: vault_port_append row_there_def)
  next
    case (written f v a t b)
    have "stored_row v ns i None \<noteq> None" using assms(2) written(3) by (simp add: row_there_def)
    then have "stored_row (appended (ve_crypto venv) v a t b) ns i None \<noteq> None" unfolding appended_there by blast
    then show ?thesis using put_open [OF written(2)] by (simp add: vault_port_append row_there_def written(7))
  qed
qed

lemma appended_now:
  assumes "vault_open venv p" and "fst (vault_port venv ca vault_append_op x p) = Inr (POk v0 a0 b0)"
    and "json_field x ''ns'' = JStr ns" and "json_field x ''id'' = JStr i"
  shows "row_there (snd (vault_port venv ca vault_append_op x p)) ns i"
proof -
  have inv: "vault_inv venv p" using assms(1) by (simp add: vault_open_def)
  from inv show ?thesis
  proof (cases rule: append_handler_outcomes [where ca = ca and x = x])
    case (refused e)
    then show ?thesis using assms(2) by (simp add: vault_port_append shim_result_def)
  next
    case (written f v a t b)
    have "ai_ns a = ns" "ai_id a = i"
      using written(1) assms(3,4)
      by (auto simp: append_request_def Let_def res_bind_Inr requireName_ok requireObject_def split: if_splits json.splits)
    then have "stored_row (appended (ve_crypto venv) v a t b) ns i None \<noteq> None" unfolding appended_there by simp
    then show ?thesis using put_open [OF written(2)] by (simp add: vault_port_append row_there_def written(7))
  qed
qed

lemma mail_stored:
  "vault_open venv p \<Longrightarrow> vault_open venv (store_mail venv ca rows p) \<and>
     (row_there p ns i \<longrightarrow> row_there (store_mail venv ca rows p) ns i)"
proof (induction rows arbitrary: p)
  case (Cons row rows)
  from Cons.IH [OF vault_open_kept [OF Cons.prems]] append_there [OF Cons.prems] show ?case
    by (simp add: store_mail_def)
qed (simp add: store_mail_def)

text \<open>Reading many rows of a sound vault answers, and finds what is there.\<close>

lemma read_one_ok:
  assumes "vault_ok c v"
  shows "\<exists>r. read_one v ns i = Inr r \<and> mr_id r = i \<and> (mr_found r \<noteq> None \<longleftrightarrow> stored_row v ns i None \<noteq> None)"
proof (cases "stored_row v ns i None")
  case (Some row)
  then have "row \<in> set (all_rows v)" using stored_is_read [OF assms] by (simp add: is_read_def)
  then have ok: "Vault_Invariant.row_ok (v_cas v) row" using vault_okD(4) [OF assms] by (simp add: list_all_iff)
  then obtain t where t: "map_get (v_cas v) (ow_cid row) = Some t" by (auto simp: Vault_Invariant.row_ok_def)
  then obtain d where "CID_RE (ow_cid row)" "json_parse t = Some d"
    using vault_okD(3) [OF assms] unfolding blobs_ok_def by blast
  then have "casGet (v_cas v) (ow_cid row) = Inr d" using t by (simp add: casGet_def casPath_def res_bind_def)
  then show ?thesis using Some ok by (auto simp: read_one_def Vault_Invariant.row_ok_def res_bind_def)
qed (simp add: read_one_def)

lemma read_loop_ok:
  assumes "vault_ok c v"
  shows "\<exists>rs. read_loop v ns seen ids = Inr rs \<and>
    (\<forall>i\<in>set ids - set seen. stored_row v ns i None \<noteq> None \<longrightarrow> (\<exists>r\<in>set rs. mr_id r = i \<and> mr_found r \<noteq> None))"
proof (induction ids arbitrary: seen)
  case (Cons i ids)
  show ?case
  proof (cases "i \<in> set seen")
    case True
    then show ?thesis using Cons [of seen] by auto
  next
    case False
    obtain r where "read_one v ns i = Inr r" "mr_id r = i" "mr_found r \<noteq> None \<longleftrightarrow> stored_row v ns i None \<noteq> None"
      using read_one_ok [OF assms] by blast
    moreover obtain rs where "read_loop v ns (set_add i seen) ids = Inr rs"
      "\<forall>j\<in>set ids - insert i (set seen). stored_row v ns j None \<noteq> None \<longrightarrow> (\<exists>r\<in>set rs. mr_id r = j \<and> mr_found r \<noteq> None)"
      using Cons [of "set_add i seen"] by auto
    ultimately show ?thesis using False by (auto simp: res_bind_def)
  qed
qed simp

lemma nonempty_strings_map: "[] \<notin> set ids \<Longrightarrow> nonempty_strings (map JStr ids) = Some ids"
  by (induction ids) auto

lemma length_uniq: "length (uniq xs) \<le> length xs"
proof -
  have "length (fold set_add xs acc) \<le> length acc + length xs" for acc
  proof (induction xs arbitrary: acc)
    case (Cons x xs)
    from Cons [of "set_add x acc"] show ?case by (simp add: set_add_length split: if_splits)
  qed simp
  from this [of "[]"] show ?thesis by (simp add: uniq_def)
qed

lemma vault_port_getmany:
  "vault_port venv ca ''vault.getmany@1'' x p =
     (Inr (shim_result (ve_error_text venv) ''vault.getmany@1'' (fst (vault_getmany_handler venv ca x p))), p)"
  by (simp add: vault_port_def vault_deliver_def vault_handlers_def vault_getmany_handler_def split_def Let_def)

lemma vault_port_query:
  "vault_port venv ca ''vault.query@1'' x p =
     (Inr (shim_result (ve_error_text venv) ''vault.query@1'' (fst (vault_query_handler venv ca x p))), p)"
  by (simp add: vault_port_def vault_deliver_def vault_handlers_def vault_query_handler_def split_def Let_def)

lemma getmany_answers:
  assumes "vault_open venv p" and "name_ok ns" and "[] \<notin> set ids" and "length ids \<le> GET_MANY_BOUND"
  shows "\<exists>xs a b. fst (vault_port venv ca ''vault.getmany@1'' (getmany_payload ns ids) p) = Inr (POk (JArr xs) a b) \<and>
    (\<forall>i\<in>set ids. row_there p ns i \<longrightarrow> (\<exists>x\<in>set xs. found_row x \<and> json_field x ''id'' = JStr i))"
proof -
  obtain v where v: "open_vault p = Some v" "vault_ok (ve_crypto venv) v" using open_vault_Some [OF assms(1)] by blast
  then obtain f where f: "vp_open p = Some f" "v = dir_vault p f" by (auto simp: open_vault_def split: option.splits)
  obtain rs where rs: "read_loop v ns [] ids = Inr rs"
    "\<forall>i\<in>set ids. stored_row v ns i None \<noteq> None \<longrightarrow> (\<exists>r\<in>set rs. mr_id r = i \<and> mr_found r \<noteq> None)"
    using read_loop_ok [OF v(2), of ns "[]" ids] by auto
  have n: "length (uniq ids) \<le> GET_MANY_BOUND" using assms(4) length_uniq [of ids] by linarith
  have "fst (vault_getmany_handler venv ca (getmany_payload ns ids) p) = Inr (JArr (map many_reply rs))"
    using assms(2,3) n f rs(1)
    by (simp add: vault_getmany_handler_def reading_def getmany_payload_def requireObject_def res_bind_def
        requireName_ok [THEN iffD2] nonempty_strings_map mustOpen_def readObjects_def Let_def)
  moreover have "found_row (many_reply r) \<and> json_field (many_reply r) ''id'' = JStr (mr_id r)" if "mr_found r \<noteq> None" for r
    using that by (auto simp: many_reply_def found_row_def)
  ultimately show ?thesis using rs(2) v(1)
    by (fastforce simp: vault_port_getmany shim_result_def or_null_def row_there_def)
qed

text \<open>The scan lists an id once.\<close>

lemma query_distinct:
  assumes "vault_ok c v"
  shows "distinct (map qr_id (queryObjects v ns idPrefix minRev))"
proof -
  let ?P = "\<lambda>r. ow_ns r = ns \<and> list_all (\<lambda>q. ow_rev q \<le> ow_rev r) (rows_of ns (ow_id r) (v_objects v)) \<and>
             (case idPrefix of None \<Rightarrow> True | Some p \<Rightarrow> like_prefix (ow_id r) p) \<and>
             (case minRev of None \<Rightarrow> True | Some n \<Rightarrow> n \<le> int (ow_rev r))"
  have d: "distinct (map ow_key (v_objects v))" by (rule hot_distinct(1) [OF assms])
  have "inj_on ow_id (set (filter ?P (v_objects v)))"
  proof (rule inj_onI)
    fix r q
    assume r: "r \<in> set (filter ?P (v_objects v))" and q: "q \<in> set (filter ?P (v_objects v))" and i: "ow_id r = ow_id q"
    then have "ow_rev q \<le> ow_rev r" and "ow_rev r \<le> ow_rev q" by (auto simp: list_all_iff rows_of_def)
    with r q i have "ow_key r = ow_key q" by (simp add: ow_key_def)
    with r q d show "r = q" by (auto simp: distinct_map inj_on_def)
  qed
  then show ?thesis using d by (simp add: queryObjects_def comp_def distinct_map)
qed

lemma query_lists_once:
  assumes "vault_open venv p" and "fst (vault_port venv ca ''vault.query@1'' (query_payload ns f) p) = Inr (POk v a b)"
  shows "\<exists>xs. v = JArr xs \<and> distinct (map (\<lambda>x. fst (query_row x)) xs)"
proof -
  have ok: "vault_ok (ve_crypto venv) (dir_vault p d)" for d
    using assms(1) by (simp add: vault_open_def vault_inv_def plugin_ok_def)
  have "fst (query_row (query_reply r)) = qr_id r" for r by (simp add: query_row_def query_reply_def)
  then have "distinct (map (\<lambda>x. fst (query_row x)) (map query_reply (queryObjects (dir_vault p d) ns' i m)))" for d ns' i m
    using query_distinct [OF ok, of d ns' i m] by (simp add: comp_def)
  moreover obtain d ns' i m where "v = JArr (map query_reply (queryObjects (dir_vault p d) ns' i m))"
    using assms(2)
    by (auto simp: vault_port_query shim_result_def vault_query_handler_def reading_def res_bind_Inr Let_def or_null_def
        split: sum.splits if_splits)
  ultimately show ?thesis by blast
qed

section \<open>The contract holds\<close>

lemma automation_name: "name_ok AUTOMATION_NS"
  by (simp add: name_ok_def AUTOMATION_NS_def requireName_def NAME_FORBIDDEN_def)

lemma director_port_vault: "op \<noteq> ACTION_OP \<Longrightarrow> director_port venv ca send op x pm = (fst (vault_port venv ca op x (fst pm)), snd (vault_port venv ca op x (fst pm)), snd pm)"
  by (simp add: director_port_def split_def)

lemma vault_port_reads:
  "op \<in> {''vault.query@1'', ''vault.get@1'', ''vault.getmany@1''} \<Longrightarrow> snd (vault_port venv ca op x p) = p"
  using vault_port_get [unfolded vault_get_op_def] by (auto simp: vault_port_query vault_port_getmany)

lemma director_effects:
  assumes "director_inv venv pm" and "op \<in> tick_ops"
  shows "director_inv venv (snd (director_port venv ca send op x pm)) \<and>
    (vault_ledgered pm i \<longrightarrow> vault_ledgered (snd (director_port venv ca send op x pm)) i)"
proof (cases "op = ACTION_OP")
  case True
  obtain r rows m where send: "send x (snd pm) = (r, rows, m)" by (metis prod_cases3)
  then show ?thesis
    using mail_stored [of venv "fst pm" ca rows AUTOMATION_NS "fired_id i"] assms(1) True
    by (simp add: director_port_def director_inv_def vault_ledgered_def)
next
  case False
  then consider "op \<in> {''vault.query@1'', ''vault.get@1'', ''vault.getmany@1''}" | "op = vault_append_op"
    using assms(2) by (auto simp: tick_ops_def vault_append_op_def)
  then show ?thesis
  proof cases
    case 1
    then show ?thesis using assms(1) False
      by (simp add: director_port_vault director_inv_def vault_ledgered_def vault_port_reads del: insert_iff)
  next
    case 2
    then show ?thesis using assms(1) False vault_open_kept append_there
      by (simp add: director_port_vault director_inv_def vault_ledgered_def)
  qed
qed

interpretation director_ledger: fired_ledger "director_port venv ca send" "director_inv venv" vault_ledgered
  for venv ca and send :: "'m sender"
proof
  fix pm :: "vault_plugin \<times> 'm" and op x i
  assume "director_inv venv pm" and "op \<in> tick_ops"
  then show "director_inv venv (snd (director_port venv ca send op x pm))"
    and "vault_ledgered pm i \<Longrightarrow> vault_ledgered (snd (director_port venv ca send op x pm)) i"
    using director_effects [of venv pm op] by blast+
next
  fix pm :: "vault_plugin \<times> 'm" and ids :: "string list"
  assume inv: "director_inv venv pm" and len: "length ids \<le> TICK_SCAN_CAP"
  have "[] \<notin> set (map fired_id ids)" by (auto simp: fired_id_def FIRED_PREFIX_def)
  moreover have "length (map fired_id ids) \<le> GET_MANY_BOUND" using len by (simp add: TICK_SCAN_CAP_def GET_MANY_BOUND_def)
  ultimately obtain xs a b where
    "fst (vault_port venv ca ''vault.getmany@1'' (getmany_payload AUTOMATION_NS (map fired_id ids)) (fst pm)) = Inr (POk (JArr xs) a b)"
    "\<forall>j\<in>set (map fired_id ids). row_there (fst pm) AUTOMATION_NS j \<longrightarrow> (\<exists>x\<in>set xs. found_row x \<and> json_field x ''id'' = JStr j)"
    using getmany_answers [OF _ automation_name] inv unfolding director_inv_def by blast
  then show "\<exists>xs a b. fst (director_port venv ca send ''vault.getmany@1'' (getmany_payload AUTOMATION_NS (map fired_id ids)) pm) =
        Inr (POk (JArr xs) a b) \<and>
      (\<forall>i\<in>set ids. vault_ledgered pm i \<longrightarrow> (\<exists>x\<in>set xs. found_row x \<and> json_field x ''id'' = JStr (fired_id i)))"
    by (simp add: director_port_vault ACTION_OP_def vault_ledgered_def)
next
  fix pm :: "vault_plugin \<times> 'm" and t m outs v a b
  assume "director_inv venv pm" and "fst (director_port venv ca send ''vault.append@1'' (ledger_payload t m outs) pm) = Inr (POk v a b)"
  then show "vault_ledgered (snd (director_port venv ca send ''vault.append@1'' (ledger_payload t m outs) pm)) (tm_id m)"
    using appended_now [of venv "fst pm" ca "ledger_payload t m outs" v a b AUTOMATION_NS "fired_id (tm_id m)"]
    by (simp add: director_port_vault ACTION_OP_def director_inv_def vault_ledgered_def ledger_payload_def vault_append_op_def)
next
  fix pm :: "vault_plugin \<times> 'm" and ns f v a b
  assume "director_inv venv pm" and "fst (director_port venv ca send ''vault.query@1'' (query_payload ns f) pm) = Inr (POk v a b)"
  then show "\<exists>xs. v = JArr xs \<and> distinct (map (\<lambda>x. fst (query_row x)) xs)"
    using query_lists_once [of venv "fst pm" ca ns f v a b]
    by (simp add: director_port_vault ACTION_OP_def director_inv_def)
qed

section \<open>Properties\<close>

definition forward_rule :: rule_data where
  "forward_rule = \<lparr>ru_id = ''rule:a'', ru_when = \<lparr>wh_event = TRIGGER_EVENT, wh_from = None\<rparr>,
     ru_then = \<lparr>th_op = ACTION_OP, th_payload = []\<rparr>,
     ru_enabled = True, ru_summary = ''s'', ru_createdAt = 1\<rparr>"

definition inbox_mail :: "string \<Rightarrow> json" where
  "inbox_mail i = mail_payload (i, JObj [(''id'', JStr i), (''folder'', JStr ''inbox''), (''from'', JStr ''a''),
     (''subject'', JStr []), (''body'', JStr []), (''flags'', JObj [(''seen'', JBool False)])],
     JObj [(''type'', JStr MESSAGE_META_TYPE)])"

definition mail_message :: "string \<Rightarrow> trigger_message" where
  "mail_message i = \<lparr>tm_id = i, tm_folder = ''inbox'', tm_from = ''a'', tm_subject = [], tm_body = [], tm_seen = False\<rparr>"

definition mailbox_calls :: "vault_call list" where
  "mailbox_calls =
     [Init len_env (JObj [(''dataDir'', JStr ''/srv/a'')]),
      Deliver len_env ''c_0'' vault_append_op (JObj [(''ns'', JStr AUTOMATION_NS), (''id'', JStr (ru_id forward_rule)),
        (''data'', rule_json forward_rule)]),
      Deliver len_env ''c_0'' vault_append_op (inbox_mail ''m'')]"

definition ledger_calls :: "vault_call list" where
  "ledger_calls =
     [Init len_env (JObj [(''dataDir'', JStr ''/srv/a'')]),
      Deliver len_env ''c_1'' vault_append_op (ledger_payload 3 (mail_message ''m'') [])]"

definition count_sender :: "nat sender" where
  "count_sender x n = (Inr (POk JNull None None), [], Suc n)"

lemma calls_open:
  assumes "list_all (call_crypto (ve_crypto len_env)) xs" and "vp_open (plugin_run xs) \<noteq> None"
  shows "director_inv len_env (plugin_run xs, 0)"
  using plugin_run_ok [OF len_env_hex assms(1)] assms(2)
  by (simp add: director_inv_def vault_open_def vault_inv_def len_env_hex)

text \<open>(C14) The ledger is the authority: over a sound open vault, a message whose ledger row is present is not
  fired by any tick, whatever the memory of revisions (none after a restart), the clock, the self
  addresses and the sender do, and whether or not the tick ends in an error; and its row stays.\<close>

theorem ledgered_never_refires:
  assumes "director_inv venv w" and "vault_ledgered w i"
  shows "i \<notin> fst ` set (tk_fired (snd (runTick (director_port venv ca send) clock self revs w))) \<and>
    vault_ledgered (tk_world (snd (runTick (director_port venv ca send) clock self revs w))) i"
  by (rule director_ledger.ledgered_stays [OF assms(2,1)])

lemma ledgered_never_refires_witness:
  "''m'' \<notin> fst ` set (tk_fired (snd (runTick (director_port len_env ''c_2'' count_sender) (\<lambda>_. 5) [] [] (plugin_run ledger_calls, 0))))"
proof -
  have "list_all (call_crypto (ve_crypto len_env)) ledger_calls" by (simp add: ledger_calls_def)
  moreover have "vp_open (plugin_run ledger_calls) \<noteq> None" by code_simp
  ultimately have inv: "director_inv len_env (plugin_run ledger_calls, 0)" by (rule calls_open)
  have "stored_row (the (open_vault (plugin_run ledger_calls))) AUTOMATION_NS (fired_id ''m'') None \<noteq> None" by code_simp
  then have "vault_ledgered (plugin_run ledger_calls, 0) ''m''"
    using open_vault_Some [of len_env "plugin_run ledger_calls"] inv
    by (auto simp: vault_ledgered_def row_there_def director_inv_def)
  with inv show ?thesis using ledgered_never_refires by blast
qed


definition two_ticks :: "(string, json) jsmap \<times> (vault_plugin \<times> nat) \<times> tick_log" where
  "two_ticks = director_run (director_port len_env ''c_2'' count_sender) (\<lambda>_. 5) (plugin_run mailbox_calls, 0)
     [TickEvent [], RestartEvent, TickEvent []]"

definition fires_exactly :: "(string \<times> string) list \<Rightarrow> tick_log \<Rightarrow> bool" where
  "fires_exactly expected log \<longleftrightarrow> list_all clean_tick log \<and> map fired_key (all_fired log) = expected"


lemma long_id_refused:
  assumes "250 < length (tm_id m)"
  shows "\<exists>d. director_port venv ca send ''vault.append@1'' (ledger_payload t m outs) pm = (Inr (PErr DEGRADED (Some d) None), pm)"
proof -
  have "256 < length (fired_id (tm_id m))" using assms by (simp add: fired_id_def FIRED_PREFIX_def)
  then have "append_request ca (ledger_payload t m outs) = Inl (NameTooLong ''vault.append@1'' ''id'')"
    using automation_name
    by (cases "fired_id (tm_id m)") (simp_all add: append_request_def ledger_payload_def requireObject_def res_bind_def requireName_ok [THEN iffD2]
        requireName_def [of _ "''id''"] Let_def)
  then show ?thesis
    using vault_port_append [of venv ca "ledger_payload t m outs" "fst pm", unfolded vault_append_op_def]
    by (cases pm) (simp add: director_port_vault ACTION_OP_def vault_append_handler_def writing_def res_bind_def
        shim_result_def)
qed



end
