(* ===== verification/Director_Resolve.thy ===== *)
theory Director_Resolve
  imports Director_Rules "HOL-Library.Multiset"
begin

text \<open>
  The computation routing of the director (\<open>plugins/vivim-director/src/resolve.ts\<close>): the classifier's
  rule table, the payload parsers and the scorecard. A thrown error is a constructor of
  \<open>resolve_error\<close>, without its text; numbers are integers, and the quotient \<open>okRate\<close> is kept as the
  number of successes beside the number of outcomes.
\<close>

section \<open>Data\<close>

definition RESOLVE_NS :: string where "RESOLVE_NS = ''resolve''"
definition RESOLVE_AUTOMATION_NS :: string where "RESOLVE_AUTOMATION_NS = ''automation''"
definition RESOLVE_PROVIDERS_NS :: string where "RESOLVE_PROVIDERS_NS = ''providers''"
definition REALIZATION_SCAN_CAP :: nat where "REALIZATION_SCAN_CAP = 50"
definition RULE_SCAN_CAP :: nat where "RULE_SCAN_CAP = 200"
definition SCORECARD_ROW_CAP :: nat where "SCORECARD_ROW_CAP = 200"

datatype computation_kind = DETERMINISTIC | PROBABILISTIC | HUMAN
datatype resolve_branch = RuleBranch | RealizationBranch | HumanBranch
datatype epistemic_status = INFERRED | VERIFIED
datatype outcome_status = OutcomeOk | OutcomeFailed

record classifiable_rule =
  cl_rule_id :: string
  cl_rule_rev :: json
  cl_rule_event :: string
  cl_rule_from :: "string option"
  cl_rule_op :: string
  cl_rule_enabled :: bool

record classifiable_realization =
  rz_id :: string
  rz_rev :: json
  rz_archetypeSlug :: string
  rz_providerClass :: string
  rz_status :: string

record evidence_ref =
  ev_ns :: string
  ev_row :: string
  ev_rev :: json
  ev_status :: epistemic_status

text \<open>The reason of a verdict, without its prose.\<close>

datatype classify_reason =
    CoveredBy string string
  | PromotedBy string string computation_kind
  | NothingCovers

record classify_verdict =
  cv_kind :: computation_kind
  cv_capability :: string
  cv_branch :: resolve_branch
  cv_reason :: classify_reason
  cv_evidenceRefs :: "evidence_ref list"

datatype resolve_error =
    ClassifyNotObject
  | FieldNotString
  | BadOp string
  | StaleSlug string string
  | ReportNotObject
  | BadDecisionId
  | BadStatus json
  | BadExecMs

definition kind_text :: "computation_kind \<Rightarrow> string" where
  "kind_text k = (case k of DETERMINISTIC \<Rightarrow> ''DETERMINISTIC'' | PROBABILISTIC \<Rightarrow> ''PROBABILISTIC'' | HUMAN \<Rightarrow> ''HUMAN'')"

section \<open>Classification\<close>

text \<open>\<open>archetypeSlugForOp\<close> of \<open>contracts/src/provider.ts\<close>, and \<open>/^[A-Za-z0-9_.-]+@[0-9]+$/\<close>.\<close>

definition archetypeSlugForOp :: "string \<Rightarrow> string" where
  "archetypeSlugForOp op =
     (case last_index (CHR ''@'') op of
        Some at \<Rightarrow> if 0 < at then take at op else op
      | None \<Rightarrow> op)"

definition op_name_char :: "char \<Rightarrow> bool" where
  "op_name_char c \<longleftrightarrow> (65 \<le> code c \<and> code c \<le> 90) \<or> (97 \<le> code c \<and> code c \<le> 122) \<or> digit c \<or>
     c \<in> {CHR ''_'', CHR ''.'', CHR ''-''}"

definition op_shape :: "string \<Rightarrow> bool" where
  "op_shape s \<longleftrightarrow>
     (case split_on (CHR ''@'') s of
        [a, b] \<Rightarrow> a \<noteq> [] \<and> list_all op_name_char a \<and> b \<noteq> [] \<and> list_all digit b
      | _ \<Rightarrow> False)"

record classify_input =
  ci_op :: "string option"
  ci_slug :: "string option"
  ci_event :: "string option"
  ci_from :: "string option"

definition strOrNull :: "json \<Rightarrow> resolve_error + string option" where
  "strOrNull v =
     (case v of
        JUndefined \<Rightarrow> Inr None
      | JNull \<Rightarrow> Inr None
      | JStr s \<Rightarrow> Inr (Some s)
      | _ \<Rightarrow> Inl FieldNotString)"

definition parseClassifyInput :: "json \<Rightarrow> resolve_error + classify_input" where
  "parseClassifyInput payload =
     (case payload of
        JObj _ \<Rightarrow>
          res_bind (strOrNull (json_field payload ''op'')) (\<lambda>op.
          res_bind (strOrNull (json_field payload ''archetypeSlug'')) (\<lambda>slugIn.
          res_bind (strOrNull (json_field payload ''event'')) (\<lambda>event.
          res_bind (strOrNull (json_field payload ''from'')) (\<lambda>from1.
            let derived = map_option archetypeSlugForOp op in
            case op of
              None \<Rightarrow> Inr \<lparr>ci_op = None, ci_slug = slugIn, ci_event = event, ci_from = from1\<rparr>
            | Some o1 \<Rightarrow>
                if \<not> op_shape o1 then Inl (BadOp o1)
                else (case slugIn of
                        None \<Rightarrow> Inr \<lparr>ci_op = op, ci_slug = derived, ci_event = event, ci_from = from1\<rparr>
                      | Some sl \<Rightarrow>
                          if derived \<noteq> Some sl then Inl (StaleSlug sl o1)
                          else Inr \<lparr>ci_op = op, ci_slug = Some sl, ci_event = event, ci_from = from1\<rparr>)))))
      | _ \<Rightarrow> Inl ClassifyNotObject)"

definition rule_covers :: "string \<Rightarrow> string option \<Rightarrow> classifiable_rule \<Rightarrow> bool" where
  "rule_covers event from1 r \<longleftrightarrow>
     cl_rule_enabled r \<and> cl_rule_event r = event \<and> (cl_rule_from r = None \<or> cl_rule_from r = from1)"

definition promoted_for :: "string \<Rightarrow> classifiable_realization \<Rightarrow> bool" where
  "promoted_for slug1 r \<longleftrightarrow> rz_archetypeSlug r = slug1 \<and> rz_status r = ''PROMOTED''"

definition rule_verdict :: "string \<Rightarrow> classifiable_rule \<Rightarrow> classify_verdict" where
  "rule_verdict event hit =
     \<lparr>cv_kind = DETERMINISTIC, cv_capability = cl_rule_op hit, cv_branch = RuleBranch,
      cv_reason = CoveredBy (cl_rule_id hit) event,
      cv_evidenceRefs = [\<lparr>ev_ns = RESOLVE_AUTOMATION_NS, ev_row = cl_rule_id hit, ev_rev = cl_rule_rev hit, ev_status = INFERRED\<rparr>]\<rparr>"

definition realization_verdict :: "string \<Rightarrow> classifiable_realization \<Rightarrow> classify_verdict" where
  "realization_verdict sl best =
     (let kind = (if rz_providerClass best = ''SIMULATOR'' then DETERMINISTIC else PROBABILISTIC) in
      \<lparr>cv_kind = kind, cv_capability = sl @ ''@1'', cv_branch = RealizationBranch,
       cv_reason = PromotedBy (rz_id best) (rz_providerClass best) kind,
       cv_evidenceRefs = [\<lparr>ev_ns = RESOLVE_PROVIDERS_NS, ev_row = rz_id best, ev_rev = rz_rev best, ev_status = VERIFIED\<rparr>]\<rparr>)"

definition human_verdict :: classify_verdict where
  "human_verdict =
     \<lparr>cv_kind = HUMAN, cv_capability = [], cv_branch = HumanBranch, cv_reason = NothingCovers, cv_evidenceRefs = []\<rparr>"

definition classifyPure ::
  "string option \<Rightarrow> string option \<Rightarrow> string option \<Rightarrow> classifiable_rule list \<Rightarrow> classifiable_realization list \<Rightarrow> classify_verdict" where
  "classifyPure event from1 slug1 rules realizations =
     (case (case event of None \<Rightarrow> None | Some e \<Rightarrow> map_option (rule_verdict e) (find (rule_covers e from1) rules)) of
        Some v \<Rightarrow> v
      | None \<Rightarrow>
          (case slug1 of
             None \<Rightarrow> human_verdict
           | Some sl \<Rightarrow>
               (case sort_key rz_id (filter (promoted_for sl) realizations) of
                  best # _ \<Rightarrow> realization_verdict sl best
                | [] \<Rightarrow> human_verdict)))"

definition asClassifiableRealization :: "string \<Rightarrow> json \<Rightarrow> json \<Rightarrow> classifiable_realization option" where
  "asClassifiableRealization i rv data =
     (case data of
        JObj _ \<Rightarrow>
          (case (json_field data ''archetypeSlug'', json_field data ''providerClass'', json_field data ''status'') of
             (JStr slug1, JStr cls, JStr status) \<Rightarrow>
               Some \<lparr>rz_id = i, rz_rev = rv, rz_archetypeSlug = slug1, rz_providerClass = cls, rz_status = status\<rparr>
           | _ \<Rightarrow> None)
      | _ \<Rightarrow> None)"

section \<open>Reports\<close>

record report_input =
  rp_decisionId :: string
  rp_status :: outcome_status
  rp_execMs :: int

definition status_of_json :: "json \<Rightarrow> outcome_status option" where
  "status_of_json v =
     (if v = JStr ''ok'' then Some OutcomeOk else if v = JStr ''failed'' then Some OutcomeFailed else None)"

definition parseReportInput :: "json \<Rightarrow> resolve_error + report_input" where
  "parseReportInput payload =
     (case payload of
        JObj _ \<Rightarrow>
          (case json_field payload ''decisionId'' of
             JStr d \<Rightarrow>
               if d = [] then Inl BadDecisionId
               else (case status_of_json (json_field payload ''status'') of
                       None \<Rightarrow> Inl (BadStatus (json_field payload ''status''))
                     | Some st \<Rightarrow>
                         (case json_field payload ''execMs'' of
                            JNum n \<Rightarrow> if n < 0 then Inl BadExecMs else Inr \<lparr>rp_decisionId = d, rp_status = st, rp_execMs = n\<rparr>
                          | _ \<Rightarrow> Inl BadExecMs))
           | _ \<Rightarrow> Inl BadDecisionId)
      | _ \<Rightarrow> Inl ReportNotObject)"

definition kind_of_json :: "json \<Rightarrow> computation_kind option" where
  "kind_of_json v =
     (if v = JStr ''DETERMINISTIC'' then Some DETERMINISTIC
      else if v = JStr ''PROBABILISTIC'' then Some PROBABILISTIC
      else if v = JStr ''HUMAN'' then Some HUMAN else None)"

definition asResolveDecision :: "json \<Rightarrow> (string \<times> computation_kind \<times> string) option" where
  "asResolveDecision data =
     (case data of
        JObj _ \<Rightarrow>
          (case (json_field data ''decisionId'', kind_of_json (json_field data ''kind''), json_field data ''capability'') of
             (JStr d, Some k, JStr c) \<Rightarrow> Some (d, k, c)
           | _ \<Rightarrow> None)
      | _ \<Rightarrow> None)"

section \<open>The scorecard\<close>

record resolve_outcome =
  ro_kind :: computation_kind
  ro_capability :: string
  ro_status :: outcome_status
  ro_execMs :: int

record score_group =
  sg_n :: nat
  sg_ok :: nat
  sg_ms :: "int list"

record scorecard_row =
  sc_kind :: computation_kind
  sc_capability :: string
  sc_n :: nat
  sc_ok :: nat
  sc_p50ExecMs :: int

text \<open>A kind has no NUL, so the map's key \<open>kind NUL capability\<close> determines the pair.\<close>

definition add_outcome ::
  "resolve_outcome \<Rightarrow> (computation_kind \<times> string, score_group) jsmap \<Rightarrow> (computation_kind \<times> string, score_group) jsmap" where
  "add_outcome o1 groups =
     (let key = (ro_kind o1, ro_capability o1);
          g = (case map_get groups key of Some g \<Rightarrow> g | None \<Rightarrow> \<lparr>sg_n = 0, sg_ok = 0, sg_ms = []\<rparr>)
      in map_set key \<lparr>sg_n = sg_n g + 1, sg_ok = sg_ok g + (if ro_status o1 = OutcomeOk then 1 else 0),
                      sg_ms = sg_ms g @ [ro_execMs o1]\<rparr> groups)"

definition score_row :: "(computation_kind \<times> string) \<times> score_group \<Rightarrow> scorecard_row" where
  "score_row kg =
     (let g = snd kg in
      \<lparr>sc_kind = fst (fst kg), sc_capability = snd (fst kg), sc_n = sg_n g, sc_ok = sg_ok g,
       sc_p50ExecMs = sort (sg_ms g) ! ((sg_n g - 1) div 2)\<rparr>)"

definition scorecardPure :: "resolve_outcome list \<Rightarrow> scorecard_row list" where
  "scorecardPure outcomes =
     sort_key (\<lambda>r. kind_text (sc_kind r)) (sort_key sc_capability (map score_row (fold add_outcome outcomes [])))"

section \<open>Lemmas\<close>

definition outcome_key :: "resolve_outcome \<Rightarrow> computation_kind \<times> string" where
  "outcome_key o1 = (ro_kind o1, ro_capability o1)"

definition row_key :: "scorecard_row \<Rightarrow> computation_kind \<times> string" where
  "row_key r = (sc_kind r, sc_capability r)"

definition with_key :: "computation_kind \<times> string \<Rightarrow> resolve_outcome list \<Rightarrow> resolve_outcome list" where
  "with_key k os = filter (\<lambda>o1. outcome_key o1 = k) os"

definition succeeded :: "resolve_outcome \<Rightarrow> bool" where
  "succeeded o1 \<longleftrightarrow> ro_status o1 = OutcomeOk"

definition group_of :: "resolve_outcome list \<Rightarrow> score_group" where
  "group_of xs = \<lparr>sg_n = length xs, sg_ok = length (filter succeeded xs), sg_ms = map ro_execMs xs\<rparr>"

lemma groups_exact:
  "distinct (map_keys (fold add_outcome os [])) \<and>
   map_get (fold add_outcome os []) k = (if with_key k os = [] then None else Some (group_of (with_key k os)))"
proof (induction os arbitrary: k rule: rev_induct)
  case Nil
  show ?case by (simp add: with_key_def)
next
  case (snoc o1 os)
  let ?m = "fold add_outcome os []" and ?k = "outcome_key o1"
  have d: "distinct (map_keys ?m)" using snoc by blast
  have g: "(case map_get ?m ?k of Some g \<Rightarrow> g | None \<Rightarrow> \<lparr>sg_n = 0, sg_ok = 0, sg_ms = []\<rparr>) = group_of (with_key ?k os)"
    using snoc [of ?k] by (simp add: group_of_def)
  have "add_outcome o1 ?m = map_set ?k (group_of (with_key ?k os @ [o1])) ?m"
    using g by (simp add: add_outcome_def outcome_key_def [symmetric] group_of_def succeeded_def Let_def)
  then have "fold add_outcome (os @ [o1]) [] = map_set ?k (group_of (with_key ?k os @ [o1])) ?m" by simp
  moreover have "with_key k (os @ [o1]) = with_key k os @ (if k = ?k then [o1] else [])" by (simp add: with_key_def)
  ultimately show ?case using d snoc [of k] by (simp add: distinct_update)
qed

lemma filter_less_nth:
  assumes "sorted ys" and "i < length ys"
  shows "length (filter (\<lambda>y. y < ys ! i) ys) \<le> i" and "i < length (filter (\<lambda>y. y \<le> ys ! i) ys)"
proof -
  have le: "y \<le> ys ! i" if "y \<in> set (take (Suc i) ys)" for y
    using that assms by (auto simp: in_set_conv_nth sorted_nth_mono)
  have ge: "ys ! i \<le> y" if "y \<in> set (drop i ys)" for y
    using that assms by (auto simp: in_set_conv_nth sorted_nth_mono)
  have "filter (\<lambda>y. y < ys ! i) (drop i ys) = []" using ge by (auto simp: filter_empty_conv not_less)
  then have "filter (\<lambda>y. y < ys ! i) ys = filter (\<lambda>y. y < ys ! i) (take i ys)"
    by (metis append_Nil2 append_take_drop_id filter_append)
  then show "length (filter (\<lambda>y. y < ys ! i) ys) \<le> i"
    by (metis assms(2) length_filter_le length_take less_imp_le min.absorb2)
  have "filter (\<lambda>y. y \<le> ys ! i) (take (Suc i) ys) = take (Suc i) ys" using le by (simp add: filter_id_conv)
  then have "take (Suc i) ys @ filter (\<lambda>y. y \<le> ys ! i) (drop (Suc i) ys) = filter (\<lambda>y. y \<le> ys ! i) ys"
    by (metis append_take_drop_id filter_append)
  then have "length (filter (\<lambda>y. y \<le> ys ! i) ys) = length (take (Suc i) ys) + length (filter (\<lambda>y. y \<le> ys ! i) (drop (Suc i) ys))"
    by (metis length_append)
  then show "i < length (filter (\<lambda>y. y \<le> ys ! i) ys)" using assms(2) by simp
qed

lemma filter_count: "length (filter P (sort xs)) = length (filter P xs)"
  by (metis mset_filter mset_sort size_mset)

lemma lower_median:
  fixes xs :: "int list"
  assumes "xs \<noteq> []"
  defines "v \<equiv> sort xs ! ((length xs - 1) div 2)"
  shows "v \<in> set xs" and "2 * length (filter (\<lambda>y. y < v) xs) < length xs" and "length xs \<le> 2 * length (filter (\<lambda>y. y \<le> v) xs)"
proof -
  let ?i = "(length xs - 1) div 2"
  have pos: "0 < length xs" using assms(1) by simp
  have b: "2 * ?i < length xs" "length xs \<le> 2 * (?i + 1)" using pos by presburger+
  then have i: "?i < length (sort xs)" unfolding length_sort by linarith
  show "v \<in> set xs" using nth_mem [OF i] by (simp add: v_def)
  note c = filter_less_nth [OF sorted_sort i, folded v_def]
  show "2 * length (filter (\<lambda>y. y < v) xs) < length xs" using c(1) b(1) unfolding filter_count by linarith
  show "length xs \<le> 2 * length (filter (\<lambda>y. y \<le> v) xs)" using c(2) b(2) unfolding filter_count by linarith
qed

lemma sort_key_order_irrelevant:
  assumes "mset xs = mset ys" and "distinct (map f xs)"
  shows "sort_key f xs = sort_key f ys"
proof (rule map_sorted_distinct_set_unique [where f = f])
  have "distinct (map f ys)" using assms by (metis mset_eq_imp_distinct_iff mset_map)
  then show "distinct (map f (sort_key f xs))" and "distinct (map f (sort_key f ys))"
    using assms(2) by (metis mset_eq_imp_distinct_iff mset_map mset_sort)+
  show "inj_on f (set (sort_key f xs) \<union> set (sort_key f ys))"
    using assms(2) mset_eq_setD [OF assms(1)] by (simp add: distinct_map)
qed (use mset_eq_setD [OF assms(1)] in simp_all)

section \<open>Properties\<close>

text \<open>The scorecard has one row for each kind and capability that occurs, and no other; a row counts the
  outcomes of its key and the successes among them, each outcome once, and its time is the lower
  median of theirs: fewer than half are below it and at least half are not above it.\<close>

theorem scorecard_exact:
  "distinct (map row_key (scorecardPure os)) \<and>
   set (map row_key (scorecardPure os)) = set (map outcome_key os) \<and>
   (\<forall>r\<in>set (scorecardPure os).
      let xs = with_key (row_key r) os; ms = map ro_execMs xs; v = sc_p50ExecMs r in
      sc_n r = length xs \<and> sc_ok r = length (filter succeeded xs) \<and> v \<in> set ms \<and>
      2 * length (filter (\<lambda>y. y < v) ms) < length ms \<and> length ms \<le> 2 * length (filter (\<lambda>y. y \<le> v) ms))"
proof -
  let ?m = "fold add_outcome os []"
  have key: "row_key (score_row kg) = fst kg" for kg by (simp add: row_key_def score_row_def Let_def)
  have d: "distinct (map_keys ?m)" using groups_exact by blast
  have rows: "set (scorecardPure os) = score_row ` set ?m" by (simp add: scorecardPure_def)
  have "distinct (map row_key (map score_row ?m))" using d key by (simp add: comp_def)
  moreover have "mset (map row_key (scorecardPure os)) = mset (map row_key (map score_row ?m))"
    by (simp add: scorecardPure_def del: map_map)
  ultimately have 1: "distinct (map row_key (scorecardPure os))" by (metis mset_eq_imp_distinct_iff)
  have has: "k \<in> set (map_keys ?m) \<longleftrightarrow> k \<in> set (map outcome_key os)" for k
  proof -
    have "k \<in> set (map_keys ?m) \<longleftrightarrow> map_get ?m k \<noteq> None" by (metis map_has_keys)
    also have "\<dots> \<longleftrightarrow> with_key k os \<noteq> []" using groups_exact [of os k] by simp
    finally show ?thesis by (force simp: with_key_def filter_empty_conv)
  qed
  have "set (map row_key (scorecardPure os)) = set (map_keys ?m)" using key by (auto simp: rows image_image)
  then have 2: "set (map row_key (scorecardPure os)) = set (map outcome_key os)" using has by blast
  have 3: "let xs = with_key (row_key r) os; ms = map ro_execMs xs; v = sc_p50ExecMs r in
      sc_n r = length xs \<and> sc_ok r = length (filter succeeded xs) \<and> v \<in> set ms \<and>
      2 * length (filter (\<lambda>y. y < v) ms) < length ms \<and> length ms \<le> 2 * length (filter (\<lambda>y. y \<le> v) ms)"
    if r: "r \<in> set (scorecardPure os)" for r
  proof -
    from r obtain k g where kg: "(k, g) \<in> set ?m" "r = score_row (k, g)" unfolding rows by auto
    then have "map_get ?m k = Some g" using d by simp
    then have xs: "with_key k os \<noteq> []" "g = group_of (with_key k os)" using groups_exact [of os k] by (auto split: if_splits)
    have k: "row_key r = k" using kg(2) key by simp
    have ms: "map ro_execMs (with_key k os) \<noteq> []" using xs(1) by simp
    show ?thesis unfolding k Let_def
      using lower_median [OF ms] kg(2) xs(2) by (simp add: score_row_def group_of_def Let_def)
  qed
  from 1 2 3 show ?thesis by blast
qed

lemma scorecard_exact_witness:
  "\<exists>r. r \<in> set (scorecardPure [\<lparr>ro_kind = HUMAN, ro_capability = ''a'', ro_status = OutcomeOk, ro_execMs = 4\<rparr>,
      \<lparr>ro_kind = HUMAN, ro_capability = ''a'', ro_status = OutcomeFailed, ro_execMs = 2\<rparr>]) \<and> row_key r = (HUMAN, ''a'') \<and>
    sc_n r = 2 \<and> sc_ok r = 1 \<and> sc_p50ExecMs r = 2"
proof -
  let ?os = "[\<lparr>ro_kind = HUMAN, ro_capability = ''a'', ro_status = OutcomeOk, ro_execMs = 4\<rparr>,
      \<lparr>ro_kind = HUMAN, ro_capability = ''a'', ro_status = OutcomeFailed, ro_execMs = 2\<rparr>]"
  have "(HUMAN, ''a'') \<in> set (map row_key (scorecardPure ?os))" using scorecard_exact [of ?os] by (simp add: outcome_key_def)
  then obtain r where r: "r \<in> set (scorecardPure ?os)" "row_key r = (HUMAN, ''a'')" by auto
  have "with_key (HUMAN, ''a'') ?os = ?os" by (simp add: with_key_def outcome_key_def)
  with scorecard_exact [of ?os] r have "sc_n r = 2" "sc_ok r = 1"
    "sc_p50ExecMs r \<in> {4, 2}" "2 * length (filter (\<lambda>y. y < sc_p50ExecMs r) [4, 2]) < (2::nat)"
    by (fastforce simp: Let_def succeeded_def)+
  moreover from this have "sc_p50ExecMs r = 2" by (auto split: if_splits)
  ultimately show ?thesis using r by blast
qed

text \<open>The verdict depends on which realizations there are and not on the order in which the scan lists
  them, and on none that is of another archetype or not promoted.\<close>

theorem classify_order_irrelevant:
  assumes "mset (filter (promoted_for sl) rz) = mset (filter (promoted_for sl) rz')" and "distinct (map rz_id rz)"
  shows "classifyPure event from1 (Some sl) rules rz = classifyPure event from1 (Some sl) rules rz'"
proof -
  have "distinct (map rz_id (filter (promoted_for sl) rz))" using assms(2) by (rule distinct_map_filter)
  then have "sort_key rz_id (filter (promoted_for sl) rz) = sort_key rz_id (filter (promoted_for sl) rz')"
    by (rule sort_key_order_irrelevant [OF assms(1)])
  then show ?thesis by (simp add: classifyPure_def split: option.split)
qed

end
