(* ===== verification/Director_Ops.thy ===== *)
theory Director_Ops
  imports Director_Tick Director_Resolve
begin

text \<open>
  The op handlers of the director (\<open>plugins/vivim-director/src/index.ts\<close>) over a port and a clock. A
  handler that throws ends in a \<open>director_error\<close>, without its text, and leaves the world as its calls
  have left it. The serialization of ticks is the matter of \<open>Director_Gate\<close>; the random part of a
  decision id is an argument.
\<close>

section \<open>Actions\<close>

datatype director_error =
    CallRejected string
  | CallFailed string port_error_code "string option"
  | ReplyShape
  | PayloadNotObj
  | RuleRefused rule_error
  | ResolveRefused resolve_error
  | BadFilter json
  | BadRegistryAction json
  | BadRuleId json
  | NoSuchRule string
  | BadDecisionGrammar string
  | DecisionMalformed string

type_synonym ('w, 'a) director_act = "'w \<Rightarrow> (director_error + 'a) \<times> 'w"

definition d_return :: "'a \<Rightarrow> ('w, 'a) director_act" where
  [js_simps]: "d_return x w = (Inr x, w)"

definition d_fail :: "director_error \<Rightarrow> ('w, 'a) director_act" where
  [js_simps]: "d_fail e w = (Inl e, w)"

definition d_bind :: "('w, 'a) director_act \<Rightarrow> ('a \<Rightarrow> ('w, 'b) director_act) \<Rightarrow> ('w, 'b) director_act" where
  "d_bind m f w = (case m w of (Inl e, w1) \<Rightarrow> (Inl e, w1) | (Inr x, w1) \<Rightarrow> f x w1)"

definition d_lift :: "('e \<Rightarrow> director_error) \<Rightarrow> 'e + 'a \<Rightarrow> ('w, 'a) director_act" where
  "d_lift err r = (case r of Inl e \<Rightarrow> d_fail (err e) | Inr x \<Rightarrow> d_return x)"

definition d_now :: "('w \<Rightarrow> int) \<Rightarrow> ('w, int) director_act" where
  [js_simps]: "d_now clock w = (Inr (clock w), w)"

definition port_call :: "'w caller \<Rightarrow> string \<Rightarrow> json \<Rightarrow> ('w, port_result) director_act" where
  "port_call port op x w = (case port op x w of (Inl e, w1) \<Rightarrow> (Inl (CallRejected e), w1) | (Inr r, w1) \<Rightarrow> (Inr r, w1))"

definition vaultCall :: "'w caller \<Rightarrow> string \<Rightarrow> json \<Rightarrow> ('w, json) director_act" where
  "vaultCall port op x =
     d_bind (port_call port op x) (\<lambda>r. case r of POk v _ _ \<Rightarrow> d_return v | PErr c d _ \<Rightarrow> d_fail (CallFailed op c d))"

definition asObject :: "json \<Rightarrow> ('w, unit) director_act" where
  "asObject v = (case v of JObj _ \<Rightarrow> d_return () | _ \<Rightarrow> d_fail PayloadNotObj)"

text \<open>\<open>payload ?? {}\<close>.\<close>

definition or_empty :: "json \<Rightarrow> json" where
  "or_empty v = (if v = JUndefined \<or> v = JNull then JObj [] else v)"

text \<open>A loop that keeps what its body yields.\<close>

fun d_collect :: "('a \<Rightarrow> ('w, 'b option) director_act) \<Rightarrow> 'a list \<Rightarrow> ('w, 'b list) director_act" where
  "d_collect f [] w = (Inr [], w)"
| "d_collect f (x # xs) w =
     d_bind (f x) (\<lambda>r. d_bind (d_collect f xs) (\<lambda>rs. d_return (case r of Some y \<Rightarrow> y # rs | None \<Rightarrow> rs))) w"

definition row_ids :: "json \<Rightarrow> ('w, string list) director_act" where
  "row_ids v = d_lift (\<lambda>_. ReplyShape) (map_sum id (map (\<lambda>x. fst (query_row x))) (rows_reply v))"

definition row_payload :: "string \<Rightarrow> string \<Rightarrow> json" where
  "row_payload ns i = JObj [(''ns'', JStr ns), (''id'', JStr i)]"

definition store_payload :: "string \<Rightarrow> string \<Rightarrow> json \<Rightarrow> (string \<times> json) list \<Rightarrow> json" where
  "store_payload ns i data meta = JObj [(''ns'', JStr ns), (''id'', JStr i), (''data'', data), (''meta'', JObj meta)]"

section \<open>Rules\<close>

definition REGISTRY_CAP :: nat where "REGISTRY_CAP = 200"
definition DIRECTOR_PRINCIPAL :: string where "DIRECTOR_PRINCIPAL = ''vivim.director''"

definition rule_ids :: "'w caller \<Rightarrow> ('w, string list) director_act" where
  "rule_ids port =
     d_bind (vaultCall port ''vault.query@1'' (query_payload AUTOMATION_NS [(''idPrefix'', JStr RULE_PREFIX)])) row_ids"

record rule_created =
  rc_ruleId :: string
  rc_rev :: json
  rc_summary :: string
  rc_consent :: "string \<times> string"

definition new_rule :: "rule_input \<Rightarrow> string \<Rightarrow> int \<Rightarrow> rule_data" where
  "new_rule inp i now =
     \<lparr>ru_id = i, ru_when = ri_when inp, ru_then = ri_then inp, ru_enabled = True,
      ru_summary = ruleSummary (ri_when inp) (ri_then inp), ru_createdAt = now\<rparr>"

definition director_rule :: "'w caller \<Rightarrow> ('w \<Rightarrow> int) \<Rightarrow> json \<Rightarrow> ('w, rule_created) director_act" where
  "director_rule port clock payload =
     d_bind (d_lift RuleRefused (validateRuleInput payload)) (\<lambda>inp.
     d_bind (rule_ids port) (\<lambda>occupied.
     d_bind (d_lift RuleRefused (nextFreeRuleId (ruleSlug (wh_from (ri_when inp))) occupied)) (\<lambda>ruleId.
     d_bind (d_now clock) (\<lambda>now.
       let rule = new_rule inp ruleId now in
       d_bind (vaultCall port ''vault.append@1'' (store_payload AUTOMATION_NS ruleId (rule_json rule) [(''type'', JStr ''rule'')]))
         (\<lambda>v. d_return \<lparr>rc_ruleId = ruleId, rc_rev = json_field v ''rev'', rc_summary = ru_summary rule,
                        rc_consent = (DIRECTOR_PRINCIPAL, th_op (ri_then inp))\<rparr>)))))"

datatype registry_reply =
    RuleList "rule_data list"
  | RuleFlipped rule_data json bool

definition listed_rule :: "'w caller \<Rightarrow> string \<Rightarrow> ('w, rule_data option) director_act" where
  "listed_rule port i =
     d_bind (vaultCall port ''vault.get@1'' (row_payload AUTOMATION_NS i)) (\<lambda>v. d_return (asRule i (json_field v ''data'')))"

definition registry_list :: "'w caller \<Rightarrow> json \<Rightarrow> ('w, registry_reply) director_act" where
  "registry_list port payload =
     (if json_field payload ''filter'' \<noteq> JStr ''rules'' then d_fail (BadFilter (json_field payload ''filter''))
      else d_bind (rule_ids port) (\<lambda>ids.
           d_bind (d_collect (listed_rule port) (take REGISTRY_CAP ids)) (\<lambda>rules. d_return (RuleList rules))))"

definition registry_flip :: "'w caller \<Rightarrow> json \<Rightarrow> ('w, registry_reply) director_act" where
  "registry_flip port payload =
     (let action = json_field payload ''action'' in
      if action \<noteq> JStr ''enable'' \<and> action \<noteq> JStr ''disable'' then d_fail (BadRegistryAction action)
      else
        (case json_field payload ''ruleId'' of
           JStr ruleId \<Rightarrow>
             if \<not> starts_with ruleId RULE_PREFIX then d_fail (BadRuleId (JStr ruleId))
             else d_bind (port_call port ''vault.get@1'' (row_payload AUTOMATION_NS ruleId)) (\<lambda>r.
               case r of
                 PErr _ _ _ \<Rightarrow> d_fail (NoSuchRule ruleId)
               | POk v _ _ \<Rightarrow>
                   (case asRule ruleId (json_field v ''data'') of
                      None \<Rightarrow> d_fail (NoSuchRule ruleId)
                    | Some rule \<Rightarrow>
                        let enabled = (action = JStr ''enable'') in
                        if ru_enabled rule = enabled then d_return (RuleFlipped rule (json_field v ''rev'') False)
                        else d_bind (vaultCall port ''vault.append@1''
                                (store_payload AUTOMATION_NS ruleId (rule_json (rule\<lparr>ru_enabled := enabled\<rparr>)) [(''type'', JStr ''rule'')]))
                              (\<lambda>a. d_return (RuleFlipped (rule\<lparr>ru_enabled := enabled\<rparr>) (json_field a ''rev'') True))))
         | v \<Rightarrow> d_fail (BadRuleId v)))"

definition director_registry :: "'w caller \<Rightarrow> json \<Rightarrow> ('w, registry_reply) director_act" where
  "director_registry port payload =
     d_bind (asObject payload) (\<lambda>_.
       if json_field payload ''action'' = JUndefined then registry_list port payload else registry_flip port payload)"

definition director_teach :: "'w caller \<Rightarrow> ('w \<Rightarrow> int) \<Rightarrow> json \<Rightarrow> ('w, teach_input \<times> json) director_act" where
  "director_teach port clock payload =
     d_bind (d_lift RuleRefused (validateTeachInput payload)) (\<lambda>inp.
     d_bind (d_now clock) (\<lambda>now.
     d_bind (vaultCall port ''vault.append@1'' (store_payload NLCL_NS (LEXICON_PREFIX @ ti_word inp)
         (teach_json \<lparr>td_word = ti_word inp, td_op = ti_op inp, td_action = ti_action inp, td_createdAt = now\<rparr>)
         [(''type'', JStr ''lexicon'')])) (\<lambda>v.
       d_return (inp, json_field v ''rev''))))"

section \<open>Routing\<close>

definition asClassifiableRule :: "string \<Rightarrow> json \<Rightarrow> classifiable_rule option" where
  "asClassifiableRule i v =
     (case asRule i (json_field v ''data'') of
        Some rule \<Rightarrow>
          if ru_enabled rule
          then Some \<lparr>cl_rule_id = ru_id rule, cl_rule_rev = json_field v ''rev'', cl_rule_event = wh_event (ru_when rule),
                     cl_rule_from = wh_from (ru_when rule), cl_rule_op = th_op (ru_then rule), cl_rule_enabled = True\<rparr>
          else None
      | None \<Rightarrow> None)"

text \<open>A row that cannot be read is skipped.\<close>

definition read_row :: "'w caller \<Rightarrow> string \<Rightarrow> (string \<Rightarrow> json \<Rightarrow> 'a option) \<Rightarrow> string \<Rightarrow> ('w, 'a option) director_act" where
  "read_row port ns f i =
     d_bind (port_call port ''vault.get@1'' (row_payload ns i)) (\<lambda>r.
       d_return (case r of POk v _ _ \<Rightarrow> f i v | PErr _ _ _ \<Rightarrow> None))"

definition classify_rules :: "'w caller \<Rightarrow> ('w, classifiable_rule list) director_act" where
  "classify_rules port =
     d_bind (rule_ids port) (\<lambda>ids.
     d_bind (d_collect (read_row port AUTOMATION_NS asClassifiableRule) (take RULE_SCAN_CAP ids)) (\<lambda>rules.
       d_return (sort_key cl_rule_id rules)))"

definition classify_realizations :: "'w caller \<Rightarrow> string option \<Rightarrow> ('w, classifiable_realization list) director_act" where
  "classify_realizations port sl =
     (case sl of
        None \<Rightarrow> d_return []
      | Some s \<Rightarrow>
          d_bind (vaultCall port ''vault.query@1''
              (query_payload RESOLVE_PROVIDERS_NS [(''idPrefix'', JStr (''realization:'' @ s @ '':''))])) (\<lambda>v.
          d_bind (row_ids v) (\<lambda>ids.
            d_collect (read_row port RESOLVE_PROVIDERS_NS
                (\<lambda>i v. asClassifiableRealization i (json_field v ''rev'') (json_field v ''data'')))
              (take REALIZATION_SCAN_CAP ids))))"

definition branch_text :: "resolve_branch \<Rightarrow> string" where
  "branch_text b = (case b of RuleBranch \<Rightarrow> ''rule'' | RealizationBranch \<Rightarrow> ''realization'' | HumanBranch \<Rightarrow> ''human'')"

definition status_name :: "epistemic_status \<Rightarrow> string" where
  "status_name s = (case s of INFERRED \<Rightarrow> ''INFERRED'' | VERIFIED \<Rightarrow> ''VERIFIED'')"

definition evidence_json :: "evidence_ref \<Rightarrow> json" where
  "evidence_json e = JObj [(''ns'', JStr (ev_ns e)), (''id'', JStr (ev_row e)), (''rev'', ev_rev e),
     (''epistemicStatus'', JStr (status_name (ev_status e)))]"

text \<open>The prose of a verdict's reason is an argument.\<close>

definition decision_json :: "(classify_reason \<Rightarrow> string) \<Rightarrow> string \<Rightarrow> int \<Rightarrow> classify_verdict \<Rightarrow> json" where
  "decision_json reason_text decisionId now v =
     JObj [(''decisionId'', JStr decisionId), (''kind'', JStr (kind_text (cv_kind v))), (''capability'', JStr (cv_capability v)),
           (''branch'', JStr (branch_text (cv_branch v))), (''reason'', JStr (reason_text (cv_reason v))),
           (''evidenceRefs'', JArr (map evidence_json (cv_evidenceRefs v))), (''buildDecisionRef'', JStr ''D-323''),
           (''createdAt'', JNum now)]"

text \<open>\<open>resolveDecisionId\<close> of \<open>contracts/src/computation.ts\<close>.\<close>

definition resolveDecisionId :: "string \<Rightarrow> director_error + string" where
  "resolveDecisionId d =
     (if d = [] \<or> list_ex (\<lambda>c. c = CHR 0x00 \<or> c = CHR ''|'' \<or> c = CHR '':'') d then Inl (BadDecisionGrammar d)
      else Inr (''resolve:'' @ d))"

definition resolve_classify ::
  "'w caller \<Rightarrow> ('w \<Rightarrow> int) \<Rightarrow> (classify_reason \<Rightarrow> string) \<Rightarrow> string \<Rightarrow> json \<Rightarrow> ('w, classify_verdict \<times> json) director_act" where
  "resolve_classify port clock reason_text hex payload =
     d_bind (d_lift ResolveRefused (parseClassifyInput payload)) (\<lambda>inp.
     d_bind (classify_rules port) (\<lambda>rules.
     d_bind (classify_realizations port (ci_slug inp)) (\<lambda>realizations.
     d_bind (d_now clock) (\<lambda>now.
       let verdict = classifyPure (ci_event inp) (ci_from inp) (ci_slug inp) rules realizations;
           decisionId = ''res_'' @ hex in
       d_bind (d_lift id (resolveDecisionId decisionId)) (\<lambda>i.
       d_bind (vaultCall port ''vault.append@1'' (JObj [(''ns'', JStr RESOLVE_NS), (''id'', JStr i),
           (''data'', decision_json reason_text decisionId now verdict),
           (''meta'', JObj [(''type'', JStr ''resolve-decision''), (''kind'', JStr (kind_text (cv_kind verdict))),
              (''branch'', JStr (branch_text (cv_branch verdict)))]),
           (''refs'', JArr (map evidence_json (cv_evidenceRefs verdict)))])) (\<lambda>v.
         d_return (verdict, json_field v ''rev'')))))))"

datatype report_reply =
    UnknownDecision string
  | Recorded string json outcome_status

definition status_text :: "outcome_status \<Rightarrow> string" where
  "status_text s = (case s of OutcomeOk \<Rightarrow> ''ok'' | OutcomeFailed \<Rightarrow> ''failed'')"

definition resolve_report :: "'w caller \<Rightarrow> ('w \<Rightarrow> int) \<Rightarrow> json \<Rightarrow> ('w, report_reply) director_act" where
  "resolve_report port clock payload =
     d_bind (d_lift ResolveRefused (parseReportInput payload)) (\<lambda>inp.
     d_bind (d_lift id (resolveDecisionId (rp_decisionId inp))) (\<lambda>i.
     d_bind (port_call port ''vault.get@1'' (row_payload RESOLVE_NS i)) (\<lambda>r.
       case r of
         PErr _ _ _ \<Rightarrow> d_return (UnknownDecision (rp_decisionId inp))
       | POk v _ _ \<Rightarrow>
           (case asResolveDecision (json_field v ''data'') of
              None \<Rightarrow> d_fail (DecisionMalformed (rp_decisionId inp))
            | Some (_, kind, capability) \<Rightarrow>
                d_bind (d_now clock) (\<lambda>now.
                d_bind (vaultCall port ''vault.append@1'' (JObj [(''ns'', JStr RESOLVE_NS), (''id'', JStr i),
                    (''data'', JObj [(''decisionId'', JStr (rp_decisionId inp)), (''kind'', JStr (kind_text kind)),
                       (''capability'', JStr capability), (''status'', JStr (status_text (rp_status inp))),
                       (''execMs'', JNum (rp_execMs inp)), (''reportedAt'', JNum now)]),
                    (''meta'', JObj [(''type'', JStr ''resolve-outcome''), (''status'', JStr (status_text (rp_status inp)))]),
                    (''refs'', JArr [JObj [(''ns'', JStr RESOLVE_NS), (''id'', JStr i), (''rev'', json_field v ''rev'')]])])) (\<lambda>a.
                  d_return (Recorded (rp_decisionId inp) (json_field a ''rev'') (rp_status inp))))))))"

definition asOutcome :: "json \<Rightarrow> resolve_outcome option" where
  "asOutcome d =
     (case (kind_of_json (json_field d ''kind''), json_field d ''capability'', status_of_json (json_field d ''status''),
            json_field d ''execMs'') of
        (Some k, JStr c, Some st, JNum n) \<Rightarrow>
          if n < 0 then None else Some \<lparr>ro_kind = k, ro_capability = c, ro_status = st, ro_execMs = n\<rparr>
      | _ \<Rightarrow> None)"

text \<open>Reading a field of \<open>null\<close> throws.\<close>

definition read_outcome :: "'w caller \<Rightarrow> string \<Rightarrow> ('w, resolve_outcome option) director_act" where
  "read_outcome port i =
     d_bind (port_call port ''vault.get@1'' (row_payload RESOLVE_NS i)) (\<lambda>r.
       case r of
         PErr _ _ _ \<Rightarrow> d_return None
       | POk v _ _ \<Rightarrow>
           let d = json_field v ''data'' in
           if d = JNull \<or> d = JUndefined then d_fail ReplyShape else d_return (asOutcome d))"

definition strategy_scorecard :: "'w caller \<Rightarrow> ('w \<Rightarrow> int) \<Rightarrow> json \<Rightarrow> ('w, scorecard_row list \<times> int) director_act" where
  "strategy_scorecard port clock payload =
     d_bind (asObject (or_empty payload)) (\<lambda>_.
     d_bind (vaultCall port ''vault.query@1'' (query_payload RESOLVE_NS [(''idPrefix'', JStr ''resolve:'')])) (\<lambda>v.
     d_bind (row_ids v) (\<lambda>ids.
     d_bind (d_collect (read_outcome port) (take SCORECARD_ROW_CAP ids)) (\<lambda>outcomes.
     d_bind (d_now clock) (\<lambda>now. d_return (scorecardPure outcomes, now))))))"

end
