(* ===== verification/Director_Service.thy ===== *)
theory Director_Service
  imports Director_Vault Director_Ops
begin

text \<open>
  The handlers of the director on the delivered vault: what creating a rule writes, and that the tick and
  the registry read back the rule that was asked for.
\<close>

section \<open>What an append does to the rows\<close>

lemma append_ok_cases:
  assumes "vault_open venv p" and "fst (vault_port venv ca vault_append_op x p) = Inr (POk v0 a0 b0)"
  obtains f v a t b where "append_request ca x = Inr a" and "vp_open p = Some f" and "open_vault p = Some v"
    and "canonicalJson (ai_data a) = Inr t" and "vault_ok (ve_crypto venv) v"
    and "vault_ok (ve_crypto venv) (appended (ve_crypto venv) v a t b)"
    and "open_vault (snd (vault_port venv ca vault_append_op x p)) = Some (appended (ve_crypto venv) v a t b)"
proof -
  have inv: "vault_inv venv p" using assms(1) by (simp add: vault_open_def)
  from inv show thesis
  proof (cases rule: append_handler_outcomes [where ca = ca and x = x])
    case (refused e)
    then show thesis using assms(2) by (simp add: vault_port_append shim_result_def)
  next
    case (written f v a t b)
    then show thesis using that [OF written(1-6)] put_open [OF written(2)] by (simp add: vault_port_append)
  qed
qed

lemma stored_after_append:
  assumes "vault_open venv p" and "fst (vault_port venv ca vault_append_op x p) = Inr (POk v0 a0 b0)"
    and "json_field x ''ns'' = JStr ns" and "json_field x ''id'' = JStr i" and "\<not> vault_clash venv p (json_field x ''data'')"
  shows "vault_stored (snd (vault_port venv ca vault_append_op x p)) ns i = Some (json_norm (json_field x ''data''))"
    and "(ns', i') \<noteq> (ns, i) \<Longrightarrow> vault_stored (snd (vault_port venv ca vault_append_op x p)) ns' i' = vault_stored p ns' i'"
proof -
  obtain f v a t b where req: "append_request ca x = Inr a" and v: "open_vault p = Some v" "canonicalJson (ai_data a) = Inr t"
    "vault_ok (ve_crypto venv) v" "vault_ok (ve_crypto venv) (appended (ve_crypto venv) v a t b)"
    and after: "open_vault (snd (vault_port venv ca vault_append_op x p)) = Some (appended (ve_crypto venv) v a t b)"
    by (rule append_ok_cases [OF assms(1,2)])
  have a: "ai_ns a = ns" "ai_id a = i" "ai_data a = json_field x ''data''" "name_ok ns" "name_ok i"
    using req assms(3,4)
    by (auto simp: append_request_def Let_def res_bind_Inr requireName_ok requireObject_def split: if_splits json.splits)
  have "sha_hex (ve_crypto venv)" using assms(1) by (simp add: vault_open_def vault_inv_def)
  from appended_read [OF this v(3,4,2)] a assms(5) v(1,2)
  obtain r where "readObject (appended (ve_crypto venv) v a t b) ns i None = Inr r" and "or_data r = json_norm (json_field x ''data'')"
    by (fastforce simp: vault_clash_def)
  then show "vault_stored (snd (vault_port venv ca vault_append_op x p)) ns i = Some (json_norm (json_field x ''data''))"
    using a after by (simp add: vault_stored_def)
  assume "(ns', i') \<noteq> (ns, i)"
  then have "readObject (appended (ve_crypto venv) v a t b) ns' i' None = readObject v ns' i' None"
    using a v(3,4) by (intro appended_other) auto
  then show "vault_stored (snd (vault_port venv ca vault_append_op x p)) ns' i' = vault_stored p ns' i'"
    using after v(1) by (simp add: vault_stored_def)
qed

text \<open>The scan by prefix lists every row that is there.\<close>

lemma query_complete:
  assumes "vault_ok c v" and "stored_row v ns i None \<noteq> None" and "like_prefix i s"
  shows "i \<in> set (map qr_id (queryObjects v ns (Some s) None))"
proof -
  have "rows_of ns i (v_objects v) \<noteq> []"
  proof
    assume none: "rows_of ns i (v_objects v) = []"
    then obtain r where r: "r \<in> set (map fst (v_cold v))" "ow_ns r = ns" "ow_id r = i"
      using assms(2) stored_row_None [of v ns i] by (fastforce simp: rows_of_def filter_empty_conv)
    from vault_okD(5) [OF assms(1), unfolded newest_hot_def, rule_format, OF r(1)]
    show False using none r(2,3) by (auto simp: rows_of_def filter_empty_conv)
  qed
  then obtain r where "newest (rows_of ns i (v_objects v)) = Some r"
    using newest_None [of "rows_of ns i (v_objects v)"] by (cases "newest (rows_of ns i (v_objects v))") auto
  from newest_Some [OF this] have "r \<in> set (v_objects v)" "ow_ns r = ns" "ow_id r = i"
    "list_all (\<lambda>q. ow_rev q \<le> ow_rev r) (rows_of ns (ow_id r) (v_objects v))"
    by (auto simp: rows_of_def list_all_iff)
  then show ?thesis using assms(3) by (force simp: queryObjects_def)
qed

lemma prefix_name: "name_ok RULE_PREFIX"
  by (simp add: name_ok_def RULE_PREFIX_def requireName_def NAME_FORBIDDEN_def)

lemma rule_ids_complete:
  assumes "vault_open venv p"
  shows "\<exists>ids. rule_ids (vault_port venv ca) p = (Inr ids, p) \<and>
    (\<forall>i. row_there p AUTOMATION_NS i \<and> starts_with i RULE_PREFIX \<longrightarrow> i \<in> set ids)"
proof -
  obtain v where v: "open_vault p = Some v" "vault_ok (ve_crypto venv) v" using open_vault_Some [OF assms] by blast
  then obtain f where f: "vp_open p = Some f" "v = dir_vault p f" by (auto simp: open_vault_def split: option.splits)
  let ?q = "queryObjects v AUTOMATION_NS (Some RULE_PREFIX) None"
  have "fst (vault_query_handler venv ca (query_payload AUTOMATION_NS [(''idPrefix'', JStr RULE_PREFIX)]) p) = Inr (JArr (map query_reply ?q))"
    using automation_name prefix_name f
    by (simp add: vault_query_handler_def reading_def query_payload_def requireObject_def res_bind_def
        requireName_ok [THEN iffD2] optionalInt_def mustOpen_def Let_def)
  moreover have "fst (query_row (query_reply r)) = qr_id r" for r by (simp add: query_row_def query_reply_def)
  ultimately have "rule_ids (vault_port venv ca) p = (Inr (map qr_id ?q), p)"
    by (simp add: rule_ids_def vaultCall_def port_call_def d_bind_def d_return_def vault_port_query shim_result_def or_null_def
        row_ids_def rows_reply_def d_lift_def comp_def)
  moreover have "i \<in> set (map qr_id ?q)" if "row_there p AUTOMATION_NS i" "starts_with i RULE_PREFIX" for i
  proof (rule query_complete [OF v(2)])
    show "stored_row v AUTOMATION_NS i None \<noteq> None" using that(1) v(1) by (simp add: row_there_def)
    show "like_prefix i RULE_PREFIX" using that(2) by (auto simp: like_prefix_def starts_with_iff)
  qed
  ultimately show ?thesis by blast
qed

section \<open>Rules through the canonical text\<close>

text \<open>A rule as it is read back: its payload in canonical form.\<close>

definition stored_payload :: "(string \<times> json) list \<Rightarrow> (string \<times> json) list" where
  "stored_payload kvs = (case json_norm (JObj kvs) of JObj kvs' \<Rightarrow> kvs' | _ \<Rightarrow> [])"

definition stored_rule :: "rule_data \<Rightarrow> rule_data" where
  "stored_rule r = r\<lparr>ru_then := (ru_then r)\<lparr>th_payload := stored_payload (th_payload (ru_then r))\<rparr>\<rparr>"

lemma json_field_norm:
  "distinct (map_keys kvs) \<Longrightarrow> json_field (json_norm (JObj kvs)) k = json_norm (json_field (JObj kvs) k)"
  using jfield_norm [of kvs k] by (simp add: jfield_def)

lemma asRule_canonical:
  assumes "rule_ok r"
  shows "asRule (ru_id r) (json_norm (rule_json r)) = Some (stored_rule r)"
proof -
  obtain kvs where kvs: "rule_json r = JObj kvs" and d: "distinct (map_keys kvs)" by (simp add: rule_json_def)
  obtain wkvs where w: "when_json (ru_when r) = JObj wkvs" and dw: "distinct (map_keys wkvs)" by (simp add: when_json_def)
  obtain tkvs where t: "then_json (ru_then r) = JObj tkvs" and dt: "distinct (map_keys tkvs)" by (simp add: then_json_def)
  obtain kvs' where n: "json_norm (JObj kvs) = JObj kvs'" by simp
  obtain wkvs' where nw: "json_norm (JObj wkvs) = JObj wkvs'" by simp
  obtain tkvs' where nt: "json_norm (JObj tkvs) = JObj tkvs'" by simp
  have p: "json_norm (JObj (th_payload (ru_then r))) = JObj (stored_payload (th_payload (ru_then r)))"
    by (simp add: stored_payload_def)
  have top: "json_field (JObj kvs') ''id'' = JStr (ru_id r)" "json_field (JObj kvs') ''when'' = JObj wkvs'"
    "json_field (JObj kvs') ''then'' = JObj tkvs'" "json_field (JObj kvs') ''enabled'' = JBool (ru_enabled r)"
    "json_field (JObj kvs') ''summary'' = JStr (ru_summary r)" "json_field (JObj kvs') ''createdAt'' = JNum (ru_createdAt r)"
    using json_field_norm [OF d] n nw nt kvs w t by (simp_all add: rule_json_def del: json_norm.simps(2)) auto
  have ev: "json_field (JObj wkvs') ''event'' = JStr (wh_event (ru_when r))"
    "json_field (JObj wkvs') ''from'' = (case wh_from (ru_when r) of None \<Rightarrow> JNull | Some s \<Rightarrow> JStr s)"
    using json_field_norm [OF dw] nw w by (auto simp: when_json_def split: option.splits)
  have th: "json_field (JObj tkvs') ''op'' = JStr (th_op (ru_then r))"
    "json_field (JObj tkvs') ''payload'' = JObj (stored_payload (th_payload (ru_then r)))"
    using json_field_norm [OF dt] nt t p by (auto simp: then_json_def)
  show ?thesis
    using assms top ev th unfolding kvs n
    by (cases "ru_when r"; cases "ru_then r"; cases "wh_from (ru_when r)")
      (auto simp: asRule_def validateRuleInput_def as_object_def rule_from_def rule_op_def res_bind_def rule_ok_def stored_rule_def)
qed

section \<open>Creating a rule\<close>

lemma next_free_prefix: "next_free k n base occupied = Some i \<Longrightarrow> starts_with i base"
  by (induction k arbitrary: n) (auto simp: Let_def starts_with_iff split: if_splits)

lemma nextFreeRuleId_prefix: "nextFreeRuleId base occupied = Inr i \<Longrightarrow> starts_with i base \<and> i \<notin> set occupied"
  using next_free_prefix next_free_fresh
  by (fastforce simp: nextFreeRuleId_def starts_with_iff split: if_splits option.splits)

lemma new_rule_ok: "validateRuleInput payload = Inr inp \<Longrightarrow> 0 \<le> now \<Longrightarrow> rule_ok (new_rule inp i now)"
  using validated_ok [of payload inp] by (simp add: rule_ok_def new_rule_def ruleSummary_def)

text \<open>What a successful creation did: the id was free, and one row was appended.\<close>

lemma director_rule_effect:
  assumes "vault_open venv p" and "validateRuleInput payload = Inr inp"
    and "director_rule (vault_port venv ca) clock payload p = (Inr c, p')"
  defines "x \<equiv> store_payload AUTOMATION_NS (rc_ruleId c) (rule_json (new_rule inp (rc_ruleId c) (clock p))) [(''type'', JStr ''rule'')]"
  shows "\<not> row_there p AUTOMATION_NS (rc_ruleId c)" and "p' = snd (vault_port venv ca vault_append_op x p)"
    and "\<exists>v a b. fst (vault_port venv ca vault_append_op x p) = Inr (POk v a b)"
proof -
  obtain ids where ids: "rule_ids (vault_port venv ca) p = (Inr ids, p)"
    "\<And>i. row_there p AUTOMATION_NS i \<Longrightarrow> starts_with i RULE_PREFIX \<Longrightarrow> i \<in> set ids"
    using rule_ids_complete [OF assms(1)] by blast
  let ?base = "ruleSlug (wh_from (ri_when inp))"
  have free: "nextFreeRuleId ?base ids = Inr (rc_ruleId c)"
    and run: "\<exists>v a b. vault_port venv ca ''vault.append@1'' x p = (Inr (POk v a b), p')"
    using assms(2,3) ids(1)
    by (auto simp: director_rule_def d_bind_def d_lift_def d_return_def d_fail_def d_now_def vaultCall_def port_call_def Let_def
        x_def split: sum.splits prod.splits port_result.splits)
  have "starts_with (rc_ruleId c) RULE_PREFIX"
    using nextFreeRuleId_prefix [OF free] by (auto simp: starts_with_iff ruleSlug_def)
  then show "\<not> row_there p AUTOMATION_NS (rc_ruleId c)" using ids(2) nextFreeRuleId_prefix [OF free] by blast
  show "p' = snd (vault_port venv ca vault_append_op x p)"
    and "\<exists>v a b. fst (vault_port venv ca vault_append_op x p) = Inr (POk v a b)"
    using run by (auto simp: vault_append_op_def)
qed

section \<open>Properties\<close>

definition plain_payload :: json where
  "plain_payload = JObj [(''when'', JObj [(''event'', JStr TRIGGER_EVENT)]),
     (''then'', JObj [(''op'', JStr ACTION_OP), (''payload'', JObj [])])]"

definition plain_input :: rule_input where
  "plain_input = \<lparr>ri_when = \<lparr>wh_event = TRIGGER_EVENT, wh_from = None\<rparr>, ri_then = \<lparr>th_op = ACTION_OP, th_payload = []\<rparr>,
     ri_messageFromTrigger = False\<rparr>"

definition empty_box :: vault_plugin where
  "empty_box = plugin_run [Init len_env (JObj [(''dataDir'', JStr ''/srv/a'')])]"



end
