(* ===== verification/Director_Gate.thy ===== *)
theory Director_Gate
  imports Omega_Prelude
begin

text \<open>
  How the director keeps its passes apart (\<open>waitForPriorPass\<close>, \<open>tickSerialized\<close> and \<open>startInterval\<close> of
  \<open>plugins/vivim-director/src/index.ts\<close>). A pass is named by the call or the beat that began it; its
  inside is the matter of \<open>Director_Tick\<close>. The queue of promise jobs is explicit: an \<open>await\<close> puts the
  rest of a function at its end, and a call, a beat of the timer or the end of a pass is handled when it
  is empty.
\<close>

section \<open>State\<close>

text \<open>\<open>Recheck c t\<close> is a caller back at the loop of \<open>waitForPriorPass\<close>, entered at time \<open>t\<close>; \<open>Start c\<close> is one
  whose wait has returned.\<close>

datatype gate_job =
    Recheck nat int
  | Start nat

record gate =
  gt_inFlight :: "nat option"
  gt_running :: "nat list"
  gt_waiting :: "((nat \<times> int) \<times> nat) list"
  gt_jobs :: "gate_job list"
  gt_refused :: "nat list"

definition idle_gate :: gate where
  "idle_gate = \<lparr>gt_inFlight = None, gt_running = [], gt_waiting = [], gt_jobs = [], gt_refused = []\<rparr>"

definition TICK_WAIT_MAX_MS :: int where "TICK_WAIT_MAX_MS = 30000"

section \<open>Operations\<close>

text \<open>One turn of the loop.\<close>

definition waitForPriorPass :: "int \<Rightarrow> nat \<Rightarrow> int \<Rightarrow> gate \<Rightarrow> gate" where
  "waitForPriorPass now c start g =
     (case gt_inFlight g of
        None \<Rightarrow> g\<lparr>gt_jobs := gt_jobs g @ [Start c]\<rparr>
      | Some p \<Rightarrow>
          if now - start > TICK_WAIT_MAX_MS then g\<lparr>gt_refused := gt_refused g @ [c]\<rparr>
          else g\<lparr>gt_waiting := gt_waiting g @ [((c, start), p)]\<rparr>)"

definition begin_pass :: "nat \<Rightarrow> gate \<Rightarrow> gate" where
  "begin_pass c g = g\<lparr>gt_inFlight := Some c, gt_running := gt_running g @ [c]\<rparr>"

definition interval_beat :: "nat \<Rightarrow> gate \<Rightarrow> gate" where
  "interval_beat c g = (case gt_inFlight g of Some _ \<Rightarrow> g | None \<Rightarrow> begin_pass c g)"

text \<open>The \<open>finally\<close> of a pass, after which its waiters are resumed in order.\<close>

definition settle_pass :: "nat \<Rightarrow> gate \<Rightarrow> gate" where
  "settle_pass p g =
     g\<lparr>gt_inFlight := (if gt_inFlight g = Some p then None else gt_inFlight g),
       gt_running := filter (\<lambda>q. q \<noteq> p) (gt_running g),
       gt_waiting := filter (\<lambda>w. snd w \<noteq> p) (gt_waiting g),
       gt_jobs := gt_jobs g @ map (\<lambda>w. Recheck (fst (fst w)) (snd (fst w))) (filter (\<lambda>w. snd w = p) (gt_waiting g))\<rparr>"

fun run_gate_job :: "int \<Rightarrow> gate_job \<Rightarrow> gate \<Rightarrow> gate" where
  "run_gate_job now (Recheck c start) g = waitForPriorPass now c start g"
| "run_gate_job now (Start c) g = begin_pass c g"

datatype gate_event =
    TickCall nat int
  | Beat nat
  | Settled nat
  | JobTurn int

fun gate_enabled :: "gate \<Rightarrow> gate_event \<Rightarrow> bool" where
  "gate_enabled g (TickCall c now) \<longleftrightarrow> gt_jobs g = []"
| "gate_enabled g (Beat c) \<longleftrightarrow> gt_jobs g = []"
| "gate_enabled g (Settled p) \<longleftrightarrow> gt_jobs g = [] \<and> p \<in> set (gt_running g)"
| "gate_enabled g (JobTurn now) \<longleftrightarrow> gt_jobs g \<noteq> []"

fun gate_event_step :: "gate \<Rightarrow> gate_event \<Rightarrow> gate" where
  "gate_event_step g (TickCall c now) = waitForPriorPass now c now g"
| "gate_event_step g (Beat c) = interval_beat c g"
| "gate_event_step g (Settled p) = settle_pass p g"
| "gate_event_step g (JobTurn now) = run_gate_job now (hd (gt_jobs g)) (g\<lparr>gt_jobs := tl (gt_jobs g)\<rparr>)"

text \<open>The gates reached by the enabled events that satisfy \<open>ok\<close>; a trace computes one of them.\<close>

inductive gate_reach :: "(gate \<Rightarrow> gate_event \<Rightarrow> bool) \<Rightarrow> gate_event list \<Rightarrow> gate \<Rightarrow> bool" for ok where
  gate_idle: "gate_reach ok [] idle_gate"
| gate_next: "gate_reach ok es g \<Longrightarrow> gate_enabled g e \<Longrightarrow> ok g e \<Longrightarrow> gate_reach ok (es @ [e]) (gate_event_step g e)"

fun gate_trace :: "(gate \<Rightarrow> gate_event \<Rightarrow> bool) \<Rightarrow> gate \<Rightarrow> gate_event list \<Rightarrow> gate option" where
  "gate_trace ok g [] = Some g"
| "gate_trace ok g (e # es) =
     (if gate_enabled g e \<and> ok g e then gate_trace ok (gate_event_step g e) es else None)"

text \<open>No call arrives while another waits.\<close>

fun lone_call :: "gate \<Rightarrow> gate_event \<Rightarrow> bool" where
  "lone_call g (TickCall c now) \<longleftrightarrow> gt_waiting g = []"
| "lone_call g _ \<longleftrightarrow> True"

definition any_call :: "gate \<Rightarrow> gate_event \<Rightarrow> bool" where
  "any_call g e \<longleftrightarrow> True"

section \<open>Lemmas\<close>

lemma trace_reach: "gate_reach ok es0 g \<Longrightarrow> gate_trace ok g es = Some g' \<Longrightarrow> gate_reach ok (es0 @ es) g'"
proof (induction es arbitrary: es0 g)
  case (Cons e es)
  then have "gate_reach ok (es0 @ [e]) (gate_event_step g e)" by (auto intro: gate_next split: if_splits)
  from Cons.IH [OF this] Cons.prems(2) show ?case by (simp split: if_splits)
qed simp

lemmas idle_trace = trace_reach [OF gate_idle, simplified]

text \<open>Either a job is pending and nothing runs or waits, or what runs is the pass in flight and the one
  caller that may wait, waits for it.\<close>

definition gate_ok :: "gate \<Rightarrow> bool" where
  "gate_ok g \<longleftrightarrow>
     (gt_inFlight g = None \<and> gt_running g = [] \<and> gt_waiting g = [] \<and> length (gt_jobs g) \<le> 1) \<or>
     (\<exists>p. gt_inFlight g = Some p \<and> gt_running g = [p] \<and> gt_jobs g = [] \<and> length (gt_waiting g) \<le> 1 \<and>
       (\<forall>w\<in>set (gt_waiting g). snd w = p))"

lemmas gate_defs = waitForPriorPass_def begin_pass_def interval_beat_def settle_pass_def

lemma gate_ok_step:
  assumes "gate_ok g" and "gate_enabled g e" and "lone_call g e"
  shows "gate_ok (gate_event_step g e)"
proof (cases e)
  case (JobTurn now)
  then obtain j where j: "gt_jobs g = [j]" "gt_inFlight g = None" "gt_running g = []" "gt_waiting g = []"
    using assms by (cases "gt_jobs g") (auto simp: gate_ok_def)
  then show ?thesis using JobTurn by (cases j) (auto simp: gate_ok_def gate_defs)
next
  case (Settled p)
  then have "gt_inFlight g = Some p" "gt_running g = [p]" "gt_jobs g = []" "length (gt_waiting g) \<le> 1"
      "\<forall>w\<in>set (gt_waiting g). snd w = p"
    using assms by (auto simp: gate_ok_def)
  then show ?thesis using Settled by (cases "gt_waiting g") (auto simp: gate_ok_def gate_defs)
qed (use assms in \<open>auto simp: gate_ok_def gate_defs split: option.splits\<close>)

lemma lone_ok: "gate_reach lone_call es g \<Longrightarrow> gate_ok g"
proof (induction rule: gate_reach.induct)
  case gate_idle
  show ?case by (simp add: gate_ok_def idle_gate_def)
next
  case (gate_next es g e)
  then show ?case by (intro gate_ok_step)
qed

section \<open>Properties\<close>

text \<open>(C22) Passes are serialized as long as no call arrives while another is waiting: whatever the order of
  calls, beats, promise jobs and endings, at most one pass runs.\<close>

theorem lone_waiter_serial:
  assumes "gate_reach lone_call es g"
  shows "length (gt_running g) \<le> 1"
  using lone_ok [OF assms] by (auto simp: gate_ok_def)

lemma lone_waiter_serial_witness:
  "\<exists>g. gate_reach lone_call [Beat 1, TickCall 2 0, Settled 1, JobTurn 0, JobTurn 0] g \<and> gt_running g = [2] \<and> length (gt_running g) \<le> 1"
proof -
  have "gate_trace lone_call idle_gate [Beat 1, TickCall 2 0, Settled 1, JobTurn 0, JobTurn 0] =
    Some (idle_gate\<lparr>gt_inFlight := Some 2, gt_running := [2]\<rparr>)" by code_simp
  from idle_trace [OF this] have r: "gate_reach lone_call [Beat 1, TickCall 2 0, Settled 1, JobTurn 0, JobTurn 0]
      (idle_gate\<lparr>gt_inFlight := Some 2, gt_running := [2]\<rparr>)" .
  from r lone_waiter_serial [OF r] show ?thesis by fastforce
qed



end
