(* ===== verification/Credential_Redact.thy ===== *)
theory Credential_Redact
  imports Nlcl_Text Json_Text "HOL-Library.Sublist"
begin

text \<open>
  The redaction pass of the credentials plugin (\<open>plugins/vivim-credentials/src/redact.ts\<close>). The policy's
  regular expressions are given as the deterministic matchers they compile to: in each of them every
  repetition ends at a character that its continuation cannot begin with, so the greedy match is the
  only one. Characters are code units below 256, where \<open>/i\<close> folds the ASCII letters for these patterns.
\<close>

section \<open>Matchers\<close>

definition i_lower :: "char \<Rightarrow> char" where
  "i_lower c = (if 65 \<le> code c \<and> code c \<le> 90 then char_of (code c + 32) else c)"

text \<open>A literal, ignoring case: what follows it.\<close>

fun literal :: "string \<Rightarrow> string \<Rightarrow> string option" where
  "literal [] s = Some s"
| "literal (p # ps) [] = None"
| "literal (p # ps) (c # cs) = (if i_lower c = i_lower p then literal ps cs else None)"

definition ascii_alnum :: "char \<Rightarrow> bool" where
  "ascii_alnum c \<longleftrightarrow> 48 \<le> code c \<and> code c \<le> 57 \<or> 65 \<le> code c \<and> code c \<le> 90 \<or> 97 \<le> code c \<and> code c \<le> 122"

text \<open>\<open>[^\s&"';,]\<close>.\<close>

definition value_char :: "char \<Rightarrow> bool" where
  "value_char c \<longleftrightarrow> \<not> is_space c \<and> c \<noteq> CHR ''&'' \<and> c \<noteq> CHR 0x22 \<and> c \<noteq> CHR 0x27 \<and> c \<noteq> CHR '';'' \<and> c \<noteq> CHR '',''"

definition skip_spaces :: "string \<Rightarrow> string" where
  "skip_spaces = dropWhile is_space"

definition skip_quote :: "string \<Rightarrow> string" where
  "skip_quote s = (case s of c # cs \<Rightarrow> if c = CHR 0x22 then cs else s | [] \<Rightarrow> [])"

text \<open>A value shape: one of the prefixes, spaces when it asks for them, and a run of at least \<open>vp_min\<close>
  characters of its class.\<close>

record value_pattern =
  vp_prefixes :: "string list"
  vp_spaces :: bool
  vp_class :: "char \<Rightarrow> bool"
  vp_min :: nat

definition after_prefix :: "value_pattern \<Rightarrow> string \<Rightarrow> string option" where
  "after_prefix p r =
     (let t = (if vp_spaces p then skip_spaces r else r);
          run = takeWhile (vp_class p) t
      in if (vp_spaces p \<longrightarrow> length t < length r) \<and> vp_min p \<le> length run then Some (dropWhile (vp_class p) t) else None)"

fun first_match :: "('a \<Rightarrow> 'b option) \<Rightarrow> 'a list \<Rightarrow> 'b option" where
  "first_match f [] = None"
| "first_match f (x # xs) = (case f x of Some y \<Rightarrow> Some y | None \<Rightarrow> first_match f xs)"

text \<open>What follows the match at the head of a text.\<close>

definition match_value :: "value_pattern \<Rightarrow> string \<Rightarrow> string option" where
  "match_value p s =
     first_match (\<lambda>q. case literal q s of None \<Rightarrow> None | Some r \<Rightarrow> after_prefix p r) (vp_prefixes p)"

text \<open>\<open>((?:names)\s*"?\s*[:=]\s*"?)\s*(value)\<close>: what follows the group and what the value begins with.\<close>

definition match_name :: "string \<Rightarrow> string \<Rightarrow> (string \<times> string) option" where
  "match_name name s =
     (case literal name s of
        None \<Rightarrow> None
      | Some r \<Rightarrow>
          (case skip_spaces (skip_quote (skip_spaces r)) of
             c # cs \<Rightarrow>
               if c = CHR '':'' \<or> c = CHR ''=''
               then (let after = skip_quote (skip_spaces cs); v = skip_spaces after in
                     if v \<noteq> [] \<and> value_char (hd v) then Some (after, v) else None)
               else None
           | [] \<Rightarrow> None))"

definition match_names :: "string list \<Rightarrow> string \<Rightarrow> (string \<times> string) option" where
  "match_names names s = first_match (\<lambda>name. match_name name s) names"

section \<open>The policy\<close>

record redaction_policy =
  rp_version :: string
  rp_names :: "string list"
  rp_valuePatterns :: "value_pattern list"
  rp_replacement :: string

definition bearer_pattern :: value_pattern where
  "bearer_pattern = \<lparr>vp_prefixes = [''Bearer''], vp_spaces = True, vp_class = value_char, vp_min = 1\<rparr>"

definition key_patterns :: "value_pattern list" where
  "key_patterns =
     [\<lparr>vp_prefixes = [''sk-''], vp_spaces = False,
       vp_class = (\<lambda>c. ascii_alnum c \<or> c = CHR ''_'' \<or> c = CHR ''-''), vp_min = 16\<rparr>,
      \<lparr>vp_prefixes = [''ghp_'', ''gho_'', ''ghu_'', ''ghs_'', ''ghr_''], vp_spaces = False, vp_class = ascii_alnum, vp_min = 30\<rparr>,
      \<lparr>vp_prefixes = [''xoxb-'', ''xoxa-'', ''xoxp-'', ''xoxr-'', ''xoxs-''], vp_spaces = False,
       vp_class = (\<lambda>c. ascii_alnum c \<or> c = CHR ''-''), vp_min = 10\<rparr>]"

definition REDACTION_POLICY_V1 :: redaction_policy where
  "REDACTION_POLICY_V1 =
     \<lparr>rp_version = ''1.0.0'',
      rp_names = [''authorization'', ''proxy-authorization'', ''cookie'', ''set-cookie'',
        ''x-api-key'', ''x-auth-token'', ''x-csrf-token'', ''private-token'',
        ''token'', ''access_token'', ''api-key'', ''api_key'', ''apikey'',
        ''session'', ''sessionid'', ''session-id'', ''password'', ''secret''],
      rp_valuePatterns = bearer_pattern # key_patterns,
      rp_replacement = ''[REDACTED]''\<rparr>"

definition REDACT_MAX_BYTES :: int where "REDACT_MAX_BYTES = 2000000"

section \<open>The pass\<close>

text \<open>\<open>out.replace(re, f)\<close> with the flag \<open>g\<close>: \<open>f\<close> gives, for a match at the head, its replacement, what
  follows it and what it counts.\<close>

type_synonym replacer = "string \<Rightarrow> (string \<times> string \<times> nat) option"

function replace_all :: "replacer \<Rightarrow> string \<Rightarrow> string \<times> nat" where
  "replace_all f [] = ([], 0)"
| "replace_all f (c # cs) =
     (case f (c # cs) of
        Some (new, rest, k) \<Rightarrow>
          if length rest < length (c # cs)
          then (case replace_all f rest of (out, n) \<Rightarrow> (new @ out, k + n))
          else (case replace_all f cs of (out, n) \<Rightarrow> (c # out, n))
      | None \<Rightarrow> (case replace_all f cs of (out, n) \<Rightarrow> (c # out, n)))"
  by pat_completeness auto

termination
  by (relation "measure (\<lambda>(f, s). length s)") auto

definition value_replacer :: "string \<Rightarrow> value_pattern \<Rightarrow> replacer" where
  "value_replacer R p s = (case match_value p s of None \<Rightarrow> None | Some rest \<Rightarrow> Some (R, rest, 1))"

definition name_replacer :: "string \<Rightarrow> string list \<Rightarrow> replacer" where
  "name_replacer R names s =
     (case match_names names s of
        None \<Rightarrow> None
      | Some (after, v) \<Rightarrow>
          let rest = dropWhile value_char v in
          if takeWhile value_char v = R then Some (take (length s - length rest) s, rest, 0)
          else Some (take (length s - length after) s @ R, rest, 1))"

fun redact_values :: "string \<Rightarrow> value_pattern list \<Rightarrow> string \<times> nat \<Rightarrow> string \<times> nat" where
  "redact_values R [] s = s"
| "redact_values R (p # ps) (s, n) =
     (case replace_all (value_replacer R p) s of (out, k) \<Rightarrow> redact_values R ps (out, n + k))"

datatype redact_error = BytesNotText | CaptureTooLarge

record redaction_result =
  rd_redacted :: string
  rd_redactions :: nat
  rd_policyVersion :: string

definition applyRedaction :: "json \<Rightarrow> redaction_policy \<Rightarrow> redact_error + redaction_result" where
  "applyRedaction bytes policy =
     (case bytes of
        JStr s \<Rightarrow>
          if int (length s) > REDACT_MAX_BYTES then Inl CaptureTooLarge
          else
            (case redact_values (rp_replacement policy) (rp_valuePatterns policy) (s, 0) of
               (out, n) \<Rightarrow>
                 (case replace_all (name_replacer (rp_replacement policy) (rp_names policy)) out of
                    (out', k) \<Rightarrow> Inr \<lparr>rd_redacted = out', rd_redactions = n + k, rd_policyVersion = rp_version policy\<rparr>))
      | _ \<Rightarrow> Inl BytesNotText)"

section \<open>Cuts\<close>

text \<open>A text from which pieces were cut, each leaving the replacement.\<close>

inductive cut :: "string \<Rightarrow> string \<Rightarrow> string \<Rightarrow> bool" for R where
  cut_end: "cut R [] []"
| cut_keep: "cut R s out \<Longrightarrow> cut R (c # s) (c # out)"
| cut_out: "cut R s out \<Longrightarrow> cut R (m @ s) (R @ out)"

lemma cut_prefix: "cut R s out \<Longrightarrow> cut R (u @ s) (u @ out)"
  by (induction u) (auto intro: cut.intros)

lemma cut_refl: "cut R s s"
  using cut_prefix [OF cut_end, of R s] by simp

lemma skip_spaces_suffix: "\<exists>u. s = u @ skip_spaces s"
  by (metis skip_spaces_def takeWhile_dropWhile_id)

lemma skip_quote_suffix: "\<exists>u. s = u @ skip_quote s"
  by (cases s) (auto simp: skip_quote_def)

lemma literal_suffix: "literal p s = Some r \<Longrightarrow> \<exists>u. s = u @ r"
proof (induction p s rule: literal.induct)
  case (3 p ps c cs)
  then obtain u where "cs = u @ r" by (auto split: if_splits)
  then show ?case by (metis append_Cons)
qed auto

lemma suffix_trans: "\<exists>u. s = u @ t \<Longrightarrow> \<exists>u. t = u @ r \<Longrightarrow> \<exists>u. s = u @ r"
  by (metis append.assoc)

lemma first_match_Some: "first_match f xs = Some y \<Longrightarrow> \<exists>x\<in>set xs. f x = Some y"
  by (induction xs) (auto split: option.splits)

lemma first_match_None: "first_match f xs = None \<longleftrightarrow> (\<forall>x\<in>set xs. f x = None)"
  by (induction xs) (auto split: option.splits)

lemma after_prefix_suffix: "after_prefix p r = Some t \<Longrightarrow> \<exists>u. r = u @ t"
  using skip_spaces_suffix [of r]
  by (auto simp: after_prefix_def Let_def split: if_splits)
    (metis append.assoc takeWhile_dropWhile_id)+

lemma match_value_suffix: "match_value p s = Some t \<Longrightarrow> \<exists>u. s = u @ t"
  by (auto simp: match_value_def dest!: first_match_Some split: option.splits)
    (metis literal_suffix after_prefix_suffix append.assoc)

lemma match_name_suffix:
  assumes "match_name name s = Some (after, v)"
  shows "\<exists>u. s = u @ after" and "\<exists>w. after = w @ v" and "v \<noteq> []" and "value_char (hd v)"
proof -
  obtain r c cs where r: "literal name s = Some r" and c: "skip_spaces (skip_quote (skip_spaces r)) = c # cs"
    and after: "after = skip_quote (skip_spaces cs)" and v: "v = skip_spaces after"
    and ne: "v \<noteq> []" "value_char (hd v)"
    using assms by (auto simp: match_name_def Let_def split: option.splits list.splits if_splits)
  show "v \<noteq> []" "value_char (hd v)" by (fact ne)+
  show "\<exists>w. after = w @ v" unfolding v by (rule skip_spaces_suffix)
  have 1: "\<exists>u. s = u @ r" using r by (rule literal_suffix)
  have 2: "\<exists>u. r = u @ c # cs"
    using suffix_trans [OF skip_spaces_suffix suffix_trans [OF skip_quote_suffix skip_spaces_suffix], of r] c by simp
  have 3: "\<exists>u. c # cs = u @ cs" by (rule exI [of _ "[c]"]) simp
  have 4: "\<exists>u. cs = u @ after"
    unfolding after by (rule suffix_trans [OF skip_spaces_suffix skip_quote_suffix])
  show "\<exists>u. s = u @ after" by (rule suffix_trans [OF 1 suffix_trans [OF 2 suffix_trans [OF 3 4]]])
qed

text \<open>A replacer cuts when what it gives for a match keeps a prefix of it and ends with the replacement,
  or keeps it whole.\<close>

definition cutting :: "string \<Rightarrow> replacer \<Rightarrow> bool" where
  "cutting R f \<longleftrightarrow> (\<forall>s new rest k. f s = Some (new, rest, k) \<longrightarrow>
     (\<exists>u m. s = u @ m @ rest \<and> (new = u @ R \<or> new = u @ m)))"

lemma replace_all_cut:
  assumes "cutting R f"
  shows "cut R s (fst (replace_all f s))"
  using assms
proof (induction f s rule: replace_all.induct)
  case (1 f)
  then show ?case by (simp add: cut_end)
next
  case (2 f c cs)
  show ?case
  proof (cases "f (c # cs)")
    case None
    then show ?thesis using 2(1) [OF None 2(4)] by (simp add: split_def cut_keep)
  next
    case (Some x)
    obtain new rest k where x: "f (c # cs) = Some (new, rest, k)" using Some by (cases x) auto
    show ?thesis
    proof (cases "length rest < length (c # cs)")
      case True
      obtain u m where s: "c # cs = u @ m @ rest" and new: "new = u @ R \<or> new = u @ m"
        using 2(4) x unfolding cutting_def by meson
      have "cut R rest (fst (replace_all f rest))" using 2(2) [OF x refl refl True 2(4)] .
      then have "cut R (u @ m @ rest) (new @ fst (replace_all f rest))"
        using new cut_prefix [OF cut_out] cut_prefix [OF cut_prefix] by auto
      then show ?thesis using x True by (simp add: split_def s [symmetric])
    next
      case False
      then show ?thesis using 2(3) [OF x refl refl False 2(4)] x False by (simp add: split_def cut_keep)
    qed
  qed
qed

lemma value_replacer_cuts: "cutting R (value_replacer R p)"
  unfolding cutting_def value_replacer_def
  by (auto split: option.splits dest!: match_value_suffix)

lemma name_replacer_cuts: "cutting R (name_replacer R names)"
  unfolding cutting_def
proof (intro allI impI)
  fix s new rest k
  assume "name_replacer R names s = Some (new, rest, k)"
  then obtain after v where m: "match_names names s = Some (after, v)" and rest: "rest = dropWhile value_char v"
    and new: "new = take (length s - length rest) s \<or> new = take (length s - length after) s @ R"
    by (auto simp: name_replacer_def Let_def split: option.splits if_splits)
  obtain name where "match_name name s = Some (after, v)"
    using m by (auto simp: match_names_def dest: first_match_Some)
  note n = match_name_suffix [OF this]
  obtain u where u: "s = u @ after" using n(1) by blast
  obtain w where w: "after = w @ v" using n(2) by blast
  have v: "v = takeWhile value_char v @ rest" by (simp add: rest)
  have s: "s = u @ (w @ takeWhile value_char v) @ rest" using u w v by simp
  show "\<exists>u m. s = u @ m @ rest \<and> (new = u @ R \<or> new = u @ m)"
  proof (cases "new = take (length s - length after) s @ R")
    case True
    then show ?thesis using s u by auto
  next
    case False
    then have "new = u @ (w @ takeWhile value_char v)"
      using new s by (metis add_diff_cancel_right' append.assoc append_eq_conv_conj length_append)
    then show ?thesis using s by blast
  qed
qed

section \<open>Key material\<close>

definition key_shaped :: "string \<Rightarrow> value_pattern \<Rightarrow> bool" where
  "key_shaped R p \<longleftrightarrow>
     R \<noteq> [] \<and> \<not> vp_spaces p \<and> \<not> vp_class p (hd R) \<and>
     (\<forall>q\<in>set (vp_prefixes p). q \<noteq> [] \<and> i_lower (hd q) \<notin> i_lower ` set R \<and> i_lower (hd R) \<notin> i_lower ` set q)"

definition clean :: "value_pattern \<Rightarrow> string \<Rightarrow> bool" where
  "clean p s \<longleftrightarrow> (\<forall>t. suffix t s \<longrightarrow> match_value p t = None)"

lemma literal_cut:
  assumes "cut R s out" and "R \<noteq> []"
  shows "literal q out = Some r \<Longrightarrow> i_lower (hd R) \<notin> i_lower ` set q \<Longrightarrow> \<exists>r'. literal q s = Some r' \<and> cut R r' r"
  using assms(1)
proof (induction q arbitrary: s out)
  case Nil
  then show ?case by simp
next
  case (Cons x q)
  obtain c cs where out: "out = c # cs" and c: "i_lower c = i_lower x" and l: "literal q cs = Some r"
    using Cons.prems(1) by (cases out) (auto split: if_splits)
  from Cons.prems(3) show ?case
  proof cases
    case (cut_keep s' out' d)
    then show ?thesis using Cons.IH [OF l] Cons.prems(2) out c by auto
  next
    case (cut_out s' out' m)
    then have "c = hd R" using out assms(2) by (cases R) auto
    then show ?thesis using c Cons.prems(2) by auto
  qed (use out in simp)
qed

lemma run_cut:
  assumes "cut R s out" and "R \<noteq> []" and "\<not> P (hd R)"
  shows "length (takeWhile P out) \<le> length (takeWhile P s)"
  using assms(1)
proof induction
  case (cut_out s out m)
  obtain c cs where "R = c # cs" using assms(2) by (cases R) simp_all
  then show ?case using assms(3) by simp
qed auto

lemma after_prefix_run:
  "\<not> vp_spaces p \<Longrightarrow> after_prefix p r \<noteq> None \<longleftrightarrow> vp_min p \<le> length (takeWhile (vp_class p) r)"
  by (simp add: after_prefix_def Let_def)

lemma match_value_iff:
  "match_value p s \<noteq> None \<longleftrightarrow> (\<exists>q\<in>set (vp_prefixes p). \<exists>r. literal q s = Some r \<and> after_prefix p r \<noteq> None)"
proof -
  have "match_value p s = None \<longleftrightarrow> (\<forall>q\<in>set (vp_prefixes p). \<forall>r. literal q s = Some r \<longrightarrow> after_prefix p r = None)"
    unfolding match_value_def first_match_None by (auto split: option.splits)
  then show ?thesis by (metis (no_types, lifting))
qed

lemma key_cut:
  assumes k: "key_shaped R p" and c: "cut R s out" and m: "match_value p s = None"
  shows "match_value p out = None"
proof (rule ccontr)
  assume "match_value p out \<noteq> None"
  then obtain q r where q: "q \<in> set (vp_prefixes p)" and l: "literal q out = Some r" and a: "after_prefix p r \<noteq> None"
    unfolding match_value_iff by blast
  have R: "R \<noteq> []" "\<not> vp_class p (hd R)" "\<not> vp_spaces p" and h: "i_lower (hd R) \<notin> i_lower ` set q"
    using k q by (auto simp: key_shaped_def)
  obtain r' where l': "literal q s = Some r'" and "cut R r' r" using literal_cut [OF c R(1) l h] by blast
  then have "after_prefix p r' \<noteq> None"
    using a run_cut [where P = "vp_class p", OF _ R(1,2), of r' r] by (simp add: after_prefix_run [OF R(3)] del: not_None_eq)
  then have "match_value p s \<noteq> None" unfolding match_value_iff using q l' by blast
  with m show False by simp
qed

lemma key_head: "key_shaped R p \<Longrightarrow> c \<in> set R \<Longrightarrow> match_value p (c # cs) = None"
proof (rule ccontr)
  assume k: "key_shaped R p" and c: "c \<in> set R" and "match_value p (c # cs) \<noteq> None"
  then obtain q r where q: "q \<in> set (vp_prefixes p)" and l: "literal q (c # cs) = Some r"
    unfolding match_value_iff by blast
  have "q \<noteq> []" and h: "i_lower (hd q) \<notin> i_lower ` set R" using k q by (auto simp: key_shaped_def)
  then have "i_lower (hd q) = i_lower c" using l by (cases q) (auto split: if_splits)
  with h c show False by simp
qed

lemma cut_tails: "cut R s out \<Longrightarrow> suffix t out \<Longrightarrow> (\<exists>s'. suffix s' s \<and> cut R s' t) \<or> (t \<noteq> [] \<and> hd t \<in> set R)"
proof (induction arbitrary: t rule: cut.induct)
  case cut_end
  then show ?case by (auto intro: cut.cut_end)
next
  case (cut_keep s out c)
  show ?case
  proof (cases "suffix t out")
    case True
    then show ?thesis using cut_keep.IH [OF True] by (auto intro: suffix_ConsI)
  next
    case False
    then have "t = c # out" using cut_keep.prems by (simp add: suffix_Cons)
    then show ?thesis using cut.cut_keep [OF cut_keep.hyps] by blast
  qed
next
  case (cut_out s out m)
  have tail: ?case if x: "suffix t out"
    using cut_out.IH [OF x] by (auto intro: suffix_appendI)
  from cut_out.prems consider "suffix t out" | u where "t = u @ out" "suffix u R"
    unfolding suffix_append by blast
  then show ?case
  proof cases
    case 1
    then show ?thesis by (rule tail)
  next
    case 2
    then show ?thesis using tail set_mono_suffix [of u R] by (cases u) auto
  qed
qed

lemma clean_cut: "key_shaped R p \<Longrightarrow> cut R s out \<Longrightarrow> clean p s \<Longrightarrow> clean p out"
  unfolding clean_def
proof (intro allI impI)
  fix t
  assume k: "key_shaped R p" and c: "cut R s out" and cl: "\<forall>t. suffix t s \<longrightarrow> match_value p t = None" and t: "suffix t out"
  from cut_tails [OF c t] show "match_value p t = None"
  proof
    assume "\<exists>s'. suffix s' s \<and> cut R s' t"
    then show ?thesis using key_cut [OF k] cl by blast
  next
    assume "t \<noteq> [] \<and> hd t \<in> set R"
    then show ?thesis using key_head [OF k] by (cases t) auto
  qed
qed

lemma literal_shorter: "literal q s = Some r \<Longrightarrow> q \<noteq> [] \<Longrightarrow> length r < length s"
proof (cases q)
  case (Cons x xs)
  moreover assume "literal q s = Some r"
  ultimately obtain c cs where s: "s = c # cs" and "literal xs cs = Some r" by (cases s) (auto split: if_splits)
  then obtain u where "cs = u @ r" using literal_suffix by blast
  then show ?thesis by (simp add: s)
qed simp

lemma key_match_shorter:
  assumes "key_shaped R p" and "match_value p s = Some t"
  shows "length t < length s"
proof -
  obtain q r where q: "q \<in> set (vp_prefixes p)" and l: "literal q s = Some r" and a: "after_prefix p r = Some t"
    using assms(2) by (auto simp: match_value_def dest!: first_match_Some split: option.splits)
  have "length t \<le> length r" using after_prefix_suffix [OF a] by auto
  also have "\<dots> < length s" using literal_shorter [OF l] assms(1) q by (auto simp: key_shaped_def)
  finally show ?thesis .
qed

lemma clean_Cons: "clean p (c # s) \<longleftrightarrow> match_value p (c # s) = None \<and> clean p s"
  by (auto simp: clean_def suffix_Cons)

lemma clean_append: "key_shaped R p \<Longrightarrow> set u \<subseteq> set R \<Longrightarrow> clean p s \<Longrightarrow> clean p (u @ s)"
  by (induction u) (auto simp: clean_Cons key_head)

lemma replace_clean:
  assumes k: "key_shaped R p" and f: "f = value_replacer R p"
  shows "clean p (fst (replace_all f s))"
  using f
proof (induction f s rule: replace_all.induct)
  case (1 f)
  have "match_value p [] = None"
    using k literal_shorter [of _ "[]"] unfolding match_value_def first_match_None key_shaped_def
    by (fastforce split: option.splits)
  then show ?case by (simp add: clean_def)
next
  case (2 f c cs)
  have cut: "cut R (c # cs) (fst (replace_all f (c # cs)))"
    by (rule replace_all_cut) (simp add: 2(4) value_replacer_cuts)
  show ?case
  proof (cases "f (c # cs)")
    case None
    then have m: "match_value p (c # cs) = None" by (simp add: 2(4) value_replacer_def split: option.splits)
    have "fst (replace_all f (c # cs)) = c # fst (replace_all f cs)" using None by (simp add: split_def)
    then show ?thesis using 2(1) [OF None 2(4)] key_cut [OF k cut m] by (simp add: clean_Cons)
  next
    case (Some x)
    then obtain rest where x: "f (c # cs) = Some (R, rest, 1)" and m: "match_value p (c # cs) = Some rest"
      by (auto simp: 2(4) value_replacer_def split: option.splits)
    have less: "length rest < length (c # cs)" using k m by (rule key_match_shorter)
    have "fst (replace_all f (c # cs)) = R @ fst (replace_all f rest)" using x less by (simp add: split_def)
    then show ?thesis using 2(2) [OF x refl refl less 2(4)] clean_append [OF k subset_refl] by simp
  qed
qed

lemma redact_values_kept:
  "key_shaped R p \<Longrightarrow> clean p s \<Longrightarrow> clean p (fst (redact_values R ps (s, n)))"
proof (induction ps arbitrary: s n)
  case (Cons x ps)
  have "clean p (fst (replace_all (value_replacer R x) s))"
    using Cons.prems(1) replace_all_cut [OF value_replacer_cuts] Cons.prems(2) by (rule clean_cut)
  then show ?case using Cons.IH [OF Cons.prems(1)] by (simp add: split_def)
qed simp

lemma redact_values_clean:
  "key_shaped R p \<Longrightarrow> p \<in> set ps \<Longrightarrow> clean p (fst (redact_values R ps (s, n)))"
proof (induction ps arbitrary: s n)
  case (Cons x ps)
  show ?case
  proof (cases "x = p")
    case True
    then show ?thesis
      using redact_values_kept [OF Cons.prems(1) replace_clean [OF Cons.prems(1) refl]] by (simp add: split_def)
  next
    case False
    then show ?thesis using Cons by (simp add: split_def)
  qed
qed simp

lemma key_patterns_shaped: "p \<in> set key_patterns \<Longrightarrow> key_shaped ''[REDACTED]'' p"
proof -
  have "list_all (key_shaped ''[REDACTED]'') key_patterns" by code_simp
  then show "p \<in> set key_patterns \<Longrightarrow> key_shaped ''[REDACTED]'' p" by (simp add: list_all_iff)
qed

text \<open>(C16) Once a text is redacted, no key material is left anywhere in it: no suffix of it begins with a token of
  the three key shapes.\<close>

theorem no_key_survives:
  assumes "applyRedaction (JStr s) REDACTION_POLICY_V1 = Inr r" and "p \<in> set key_patterns"
  shows "match_value p (drop i (rd_redacted r)) = None"
proof -
  let ?R = "''[REDACTED]''" and ?ps = "rp_valuePatterns REDACTION_POLICY_V1"
  have k: "key_shaped ?R p" using assms(2) by (rule key_patterns_shaped)
  have p: "p \<in> set ?ps" using assms(2) by (simp add: REDACTION_POLICY_V1_def)
  define out where "out = fst (redact_values ?R ?ps (s, 0))"
  have r: "rd_redacted r = fst (replace_all (name_replacer ?R (rp_names REDACTION_POLICY_V1)) out)"
    using assms(1)
    by (auto simp: applyRedaction_def out_def REDACTION_POLICY_V1_def split_def simp del: redact_values.simps split: if_splits)
  have "clean p out" unfolding out_def using k p by (rule redact_values_clean)
  then have "clean p (rd_redacted r)"
    unfolding r by (rule clean_cut [OF k replace_all_cut [OF name_replacer_cuts]])
  then show ?thesis by (simp add: clean_def suffix_drop)
qed

lemma no_key_survives_witness:
  "\<forall>i. match_value (hd key_patterns) (drop i (''[REDACTED]'')) = None"
proof
  fix i
  have a: "applyRedaction (JStr ''sk-0123456789abcdef'') REDACTION_POLICY_V1 =
      Inr \<lparr>rd_redacted = ''[REDACTED]'', rd_redactions = 1, rd_policyVersion = ''1.0.0''\<rparr>"
    by code_simp
  show "match_value (hd key_patterns) (drop i (''[REDACTED]'')) = None"
    using no_key_survives [OF a, of "hd key_patterns" i] by (simp add: key_patterns_def)
qed

section \<open>What it leaves\<close>

lemma literal_chars: "literal q s = Some r \<Longrightarrow> x \<in> set q \<Longrightarrow> \<exists>c\<in>set s. i_lower c = i_lower x"
  by (induction q s rule: literal.induct) (auto split: if_splits)

lemma replace_all_none: "(\<And>t. suffix t s \<Longrightarrow> f t = None) \<Longrightarrow> replace_all f s = (s, 0)"
proof (induction s)
  case (Cons c cs)
  have "f (c # cs) = None" using Cons.prems by simp
  moreover have "replace_all f cs = (cs, 0)" using Cons by (simp add: suffix_ConsI)
  ultimately show ?case by simp
qed simp

lemma alnum_facts:
  assumes "ascii_alnum c"
  shows "\<not> is_space c" and "value_char c" and "c \<noteq> CHR '':''" and "c \<noteq> CHR ''=''"
    and "i_lower c \<noteq> CHR ''-''" and "i_lower c \<noteq> CHR ''_''"
proof -
  have "code (i_lower c) \<noteq> 45" "code (i_lower c) \<noteq> 95"
    using assms by (auto simp: ascii_alnum_def i_lower_def of_char_of)
  then show "i_lower c \<noteq> CHR ''-''" "i_lower c \<noteq> CHR ''_''" by auto
qed (use assms in \<open>auto simp: ascii_alnum_def value_char_def is_space_def\<close>)

lemma skip_spaces_alnum: "list_all ascii_alnum s \<Longrightarrow> skip_spaces s = s"
  by (cases s) (auto simp: skip_spaces_def alnum_facts)

lemma alnum_suffix: "list_all ascii_alnum s \<Longrightarrow> \<exists>u. s = u @ t \<Longrightarrow> list_all ascii_alnum t"
  by auto

lemma alnum_no_value:
  assumes s: "list_all ascii_alnum s" and p: "p \<in> set (rp_valuePatterns REDACTION_POLICY_V1)"
  shows "match_value p s = None"
proof (rule ccontr)
  assume "match_value p s \<noteq> None"
  then obtain q r where q: "q \<in> set (vp_prefixes p)" and l: "literal q s = Some r" and a: "after_prefix p r \<noteq> None"
    unfolding match_value_iff by blast
  have r: "skip_spaces r = r" using alnum_suffix [OF s literal_suffix [OF l]] by (rule skip_spaces_alnum)
  show False
  proof (cases "vp_spaces p")
    case True
    then show False using a r by (simp add: after_prefix_def Let_def split: if_splits)
  next
    case False
    then have "CHR ''-'' \<in> set q \<or> CHR ''_'' \<in> set q"
      using p q by (auto simp: REDACTION_POLICY_V1_def bearer_pattern_def key_patterns_def)
    then obtain c where "c \<in> set s" and "i_lower c = i_lower CHR ''-'' \<or> i_lower c = i_lower CHR ''_''"
      using literal_chars [OF l] by blast
    then show False using alnum_facts(5,6) [of c] s by (auto simp: list_all_iff i_lower_def)
  qed
qed

lemma alnum_no_name:
  assumes s: "list_all ascii_alnum s"
  shows "match_names names s = None"
proof -
  have "match_name name s = None" for name
  proof (cases "literal name s")
    case (Some r)
    have r: "list_all ascii_alnum r" using s literal_suffix [OF Some] by (rule alnum_suffix)
    have "list_all ascii_alnum (skip_spaces (skip_quote (skip_spaces r)))"
      using r suffix_trans [OF skip_spaces_suffix suffix_trans [OF skip_quote_suffix skip_spaces_suffix]]
      by (rule alnum_suffix)
    then show ?thesis by (cases "skip_spaces (skip_quote (skip_spaces r))") (auto simp: match_name_def Some dest: alnum_facts(3,4))
  qed (simp add: match_name_def)
  then show ?thesis by (simp add: match_names_def first_match_None)
qed

lemma alnum_tails: "list_all ascii_alnum s \<Longrightarrow> suffix t s \<Longrightarrow> list_all ascii_alnum t"
  by (auto elim: suffixE)

lemma alnum_kept:
  assumes "list_all ascii_alnum s"
  shows "p \<in> set (rp_valuePatterns REDACTION_POLICY_V1) \<Longrightarrow> replace_all (value_replacer R p) s = (s, 0)"
    and "replace_all (name_replacer R names) s = (s, 0)"
  by (rule replace_all_none;
      simp add: value_replacer_def name_replacer_def alnum_no_value alnum_no_name alnum_tails [OF assms])+

text \<open>The first two letters of what the value patterns look for.\<close>

definition openings :: "(char \<times> char) list" where
  "openings = [(CHR ''b'', CHR ''e''), (CHR ''s'', CHR ''k''), (CHR ''g'', CHR ''h''), (CHR ''x'', CHR ''o'')]"

lemma value_openings:
  assumes "p \<in> set (rp_valuePatterns REDACTION_POLICY_V1)" and "value_replacer R p s \<noteq> None"
  shows "\<exists>c d cs. s = c # d # cs \<and> (i_lower c, i_lower d) \<in> set openings"
proof -
  have "list_all (\<lambda>p. list_all (\<lambda>q. case q of x # y # ys \<Rightarrow> List.member openings (i_lower x, i_lower y) | _ \<Rightarrow> False) (vp_prefixes p))
      (rp_valuePatterns REDACTION_POLICY_V1)"
    by code_simp
  moreover obtain q r where q: "q \<in> set (vp_prefixes p)" and l: "literal q s = Some r"
    using assms(2) match_value_iff [of p s] by (auto simp: value_replacer_def split: option.splits)
  ultimately have "case q of x # y # ys \<Rightarrow> List.member openings (i_lower x, i_lower y) | _ \<Rightarrow> False"
    using assms(1) by (simp only: list_all_iff)
  then obtain x y ys where "q = x # y # ys" "(i_lower x, i_lower y) \<in> set openings"
    by (cases q; cases "tl q") auto
  then show ?thesis using l by (cases s; cases "tl s") (auto split: if_splits)
qed

lemma value_skips:
  assumes "p \<in> set (rp_valuePatterns REDACTION_POLICY_V1)"
    and "s = [] \<or> (i_lower c, i_lower (hd s)) \<notin> set openings"
  shows "replace_all (value_replacer R p) (c # s) = (case replace_all (value_replacer R p) s of (out, n) \<Rightarrow> (c # out, n))"
proof -
  have "value_replacer R p (c # s) = None"
    using value_openings [OF assms(1), of R "c # s"] assms(2) by (cases "value_replacer R p (c # s)") auto
  then show ?thesis by simp
qed

lemma basic_values:
  assumes s: "list_all ascii_alnum secret" and p: "p \<in> set (rp_valuePatterns REDACTION_POLICY_V1)"
  shows "replace_all (value_replacer R p) (''Authorization: Basic '' @ secret) = (''Authorization: Basic '' @ secret, 0)"
  by (simp add: value_skips [OF p] openings_def i_lower_def alnum_kept(1) [OF s p] del: replace_all.simps)

lemma values_unchanged:
  "(\<And>p. p \<in> set ps \<Longrightarrow> replace_all (value_replacer R p) s = (s, 0)) \<Longrightarrow> redact_values R ps (s, n) = (s, n)"
  by (induction ps arbitrary: n) auto

lemma skip_spaces_Cons: "skip_spaces (c # cs) = (if is_space c then skip_spaces cs else c # cs)"
  by (simp add: skip_spaces_def)

lemma small_a: "char_of (97 :: nat) = CHR ''a''"
  by code_simp

lemma basic_name:
  assumes "list_all ascii_alnum secret"
  shows "name_replacer ''[REDACTED]'' (rp_names REDACTION_POLICY_V1) (''Authorization: Basic '' @ secret) =
    Some (''Authorization: [REDACTED]'', CHR '' '' # secret, 1)"
proof -
  have "match_name ''authorization'' (''Authorization: Basic '' @ secret) = Some (''Basic '' @ secret, ''Basic '' @ secret)"
    by (simp add: match_name_def i_lower_def small_a skip_spaces_Cons skip_quote_def is_space_def value_char_def Let_def)
  moreover have "takeWhile value_char (''Basic '' @ secret) = ''Basic''" "dropWhile value_char (''Basic '' @ secret) = CHR '' '' # secret"
    by (simp_all add: value_char_def is_space_def)
  ultimately show ?thesis
    by (simp add: name_replacer_def match_names_def REDACTION_POLICY_V1_def)
qed

text \<open>(C24) A header whose value has a scheme of its own: of a basic authorization only the word that names the scheme
  is replaced, and the credentials after it, whatever letters and digits they are, stay in the text, since
  the run of value characters ends at the first blank.\<close>

theorem basic_auth_leaks:
  assumes "list_all ascii_alnum secret" and "int (length secret) \<le> REDACT_MAX_BYTES - 21"
  shows "applyRedaction (JStr (''Authorization: Basic '' @ secret)) REDACTION_POLICY_V1 =
    Inr \<lparr>rd_redacted = ''Authorization: [REDACTED] '' @ secret, rd_redactions = 1, rd_policyVersion = ''1.0.0''\<rparr>"
proof -
  let ?R = "''[REDACTED]''" and ?names = "rp_names REDACTION_POLICY_V1"
  have v: "redact_values ?R (rp_valuePatterns REDACTION_POLICY_V1) (''Authorization: Basic '' @ secret, 0) = (''Authorization: Basic '' @ secret, 0)"
    by (rule values_unchanged) (rule basic_values [OF assms(1)])
  have "name_replacer ?R ?names (CHR '' '' # secret) = None"
    by (simp add: name_replacer_def match_names_def match_name_def REDACTION_POLICY_V1_def i_lower_def)
  then have "replace_all (name_replacer ?R ?names) (CHR '' '' # secret) = (CHR '' '' # secret, 0)"
    by (simp add: alnum_kept(2) [OF assms(1)])
  moreover have "length (CHR '' '' # secret) < length (''Authorization: Basic '' @ secret)" by simp
  ultimately have n: "replace_all (name_replacer ?R ?names) (''Authorization: Basic '' @ secret) = (''Authorization: [REDACTED] '' @ secret, 1)"
    using basic_name [OF assms(1)] by (simp del: replace_all.simps(2) add: replace_all.simps(2) [of _ "CHR ''A''"])
  have "\<not> REDACT_MAX_BYTES < int (length (''Authorization: Basic '' @ secret))" using assms(2) by simp
  moreover have "rp_replacement REDACTION_POLICY_V1 = ?R" "rp_version REDACTION_POLICY_V1 = ''1.0.0''"
    by (simp_all add: REDACTION_POLICY_V1_def)
  ultimately show ?thesis unfolding applyRedaction_def by (simp only: json.case if_False v n split) simp
qed

lemma basic_auth_leaks_witness:
  "applyRedaction (JStr ''Authorization: Basic dXNlcjpwYXNz'') REDACTION_POLICY_V1 =
    Inr \<lparr>rd_redacted = ''Authorization: [REDACTED] dXNlcjpwYXNz'', rd_redactions = 1, rd_policyVersion = ''1.0.0''\<rparr>"
  using basic_auth_leaks [of "''dXNlcjpwYXNz''"] by (simp add: ascii_alnum_def REDACT_MAX_BYTES_def)

text \<open>A JSON number under a secret name: the run of value characters takes the closing brace with it, and what
  was a JSON document is none afterwards.\<close>

lemma number_breaks_json:
  "let doc = CHR 0x22 # ''token'' @ [CHR 0x22, CHR '':'']
   in json_read (CHR ''{'' # doc @ ''42}'') = Some (JObj [(''token'', JNum 42)]) \<and>
      applyRedaction (JStr (CHR ''{'' # doc @ ''42}'')) REDACTION_POLICY_V1 =
        Inr \<lparr>rd_redacted = CHR ''{'' # doc @ ''[REDACTED]'', rd_redactions = 1, rd_policyVersion = ''1.0.0''\<rparr> \<and>
      json_read (CHR ''{'' # doc @ ''[REDACTED]'') = None"
  by code_simp

end
