(* ===== verification/Credential_Spine.thy ===== *)
theory Credential_Spine
  imports Credential_Redact Director_Service
begin

text \<open>
  The credentials plugin (\<open>plugins/vivim-credentials/src/record.ts, index.ts\<close>): the fail-closed record
  validators and the three op handlers over a port, composed with the delivered vault. A handler that
  throws ends in a \<open>credential_error\<close>, without its text.
\<close>

section \<open>Records\<close>

definition CREDENTIALS_NS :: string where "CREDENTIALS_NS = ''credentials''"
definition CREDENTIAL_ID_PREFIX :: string where "CREDENTIAL_ID_PREFIX = ''credential:''"

text \<open>The fields \<open>kind\<close> and \<open>sim\<close> are literals, written and checked by the functions below.\<close>

record credential_record =
  cr_credentialId :: string
  cr_createdAt :: int
  cr_meta :: "(string \<times> json) list option"

datatype credential_error =
    PayloadShape
  | IdEmpty
  | IdColon
  | IdTooLong
  | NotSim
  | MaterialField string
  | MetaShape
  | MaterialMeta string
  | CallThrew string
  | CallRefused string port_error_code "string option"
  | RowMalformed string
  | RedactFailed redact_error

definition MATERIAL_FIELDS :: "string list" where
  "MATERIAL_FIELDS = [''value'', ''secret'', ''key'', ''password'', ''token'', ''apikey'', ''api_key'', ''credential'']"

definition requireCredentialId :: "json \<Rightarrow> credential_error + string" where
  "requireCredentialId v =
     (case v of
        JStr s \<Rightarrow>
          if length s = 0 then Inl IdEmpty
          else if CHR '':'' \<in> set s then Inl IdColon
          else if 128 < length s then Inl IdTooLong
          else Inr s
      | _ \<Rightarrow> Inl IdEmpty)"

definition credentialVaultId :: "string \<Rightarrow> credential_error + string" where
  "credentialVaultId credentialId =
     res_bind (requireCredentialId (JStr credentialId)) (\<lambda>i. Inr (CREDENTIAL_ID_PREFIX @ i))"

text \<open>The first of the material names that is a key.\<close>

definition material_in :: "(string \<times> json) list \<Rightarrow> string option" where
  "material_in kvs = find (\<lambda>f. map_get kvs f \<noteq> None) MATERIAL_FIELDS"

definition require_meta :: "json \<Rightarrow> credential_error + (string \<times> json) list option" where
  "require_meta v =
     (case v of
        JUndefined \<Rightarrow> Inr None
      | JObj m \<Rightarrow> (case material_in m of Some f \<Rightarrow> Inl (MaterialMeta f) | None \<Rightarrow> Inr (Some m))
      | _ \<Rightarrow> Inl MetaShape)"

definition asCredentialRecord :: "json \<Rightarrow> int \<Rightarrow> credential_error + credential_record" where
  "asCredentialRecord payload now =
     (case payload of
        JObj p \<Rightarrow>
          res_bind (requireCredentialId (json_field payload ''credentialId'')) (\<lambda>credentialId.
            if json_field payload ''sim'' \<noteq> JBool True then Inl NotSim
            else case material_in p of
              Some f \<Rightarrow> Inl (MaterialField f)
            | None \<Rightarrow>
                res_bind (require_meta (json_field payload ''meta'')) (\<lambda>meta.
                  Inr \<lparr>cr_credentialId = credentialId, cr_createdAt = now, cr_meta = meta\<rparr>))
      | _ \<Rightarrow> Inl PayloadShape)"

definition credential_json :: "credential_record \<Rightarrow> json" where
  "credential_json r =
     JObj ([(''credentialId'', JStr (cr_credentialId r)), (''kind'', JStr ''sim-synthetic''), (''sim'', JBool True),
            (''createdAt'', JNum (cr_createdAt r))] @
           (case cr_meta r of Some m \<Rightarrow> [(''meta'', JObj m)] | None \<Rightarrow> []))"

definition credential_fromRecord :: "json \<Rightarrow> credential_record option" where
  "credential_fromRecord d =
     (case (json_field d ''credentialId'', json_field d ''kind'', json_field d ''sim'', json_field d ''createdAt'') of
        (JStr i, JStr k, JBool True, JNum n) \<Rightarrow>
          if length i = 0 \<or> k \<noteq> ''sim-synthetic'' then None
          else Some \<lparr>cr_credentialId = i, cr_createdAt = n,
                 cr_meta = (case json_field d ''meta'' of JObj m \<Rightarrow> Some m | _ \<Rightarrow> None)\<rparr>
      | _ \<Rightarrow> None)"

section \<open>Handlers\<close>

type_synonym ('w, 'a) credential_op = "'w \<Rightarrow> (credential_error + 'a) \<times> 'w"

definition portCall :: "'w caller \<Rightarrow> string \<Rightarrow> json \<Rightarrow> ('w, json) credential_op" where
  "portCall port op x w =
     (case port op x w of
        (Inl e, w1) \<Rightarrow> (Inl (CallThrew e), w1)
      | (Inr (POk v _ _), w1) \<Rightarrow> (Inr v, w1)
      | (Inr (PErr c d _), w1) \<Rightarrow> (Inl (CallRefused op c d), w1))"

record credential_put_reply =
  cp_credentialId :: string
  cp_rev :: json
  cp_record :: credential_record

definition credential_put :: "'w caller \<Rightarrow> ('w \<Rightarrow> int) \<Rightarrow> json \<Rightarrow> ('w, credential_put_reply) credential_op" where
  "credential_put port clock payload w =
     (case asCredentialRecord payload (clock w) of
        Inl e \<Rightarrow> (Inl e, w)
      | Inr r \<Rightarrow>
          (case credentialVaultId (cr_credentialId r) of
             Inl e \<Rightarrow> (Inl e, w)
           | Inr i \<Rightarrow>
               (case portCall port ''vault.append@1''
                       (store_payload CREDENTIALS_NS i (credential_json r) [(''type'', JStr ''credential'')]) w of
                  (Inl e, w1) \<Rightarrow> (Inl e, w1)
                | (Inr v, w1) \<Rightarrow>
                    (Inr \<lparr>cp_credentialId = cr_credentialId r, cp_rev = json_field v ''rev'', cp_record = r\<rparr>, w1))))"

definition credential_use :: "'w caller \<Rightarrow> json \<Rightarrow> ('w, credential_record \<times> json) credential_op" where
  "credential_use port payload w =
     (case payload of
        JObj _ \<Rightarrow>
          (case json_field payload ''credentialId'' of
             JStr c \<Rightarrow>
               if length c = 0 then (Inl IdEmpty, w)
               else
                 (case credentialVaultId c of
                    Inl e \<Rightarrow> (Inl e, w)
                  | Inr i \<Rightarrow>
                      (case portCall port ''vault.get@1'' (row_payload CREDENTIALS_NS i) w of
                         (Inl e, w1) \<Rightarrow> (Inl e, w1)
                       | (Inr got, w1) \<Rightarrow>
                           (case credential_fromRecord (json_field got ''data'') of
                              None \<Rightarrow> (Inl (RowMalformed c), w1)
                            | Some r \<Rightarrow> (Inr (r, json_field got ''rev''), w1))))
           | _ \<Rightarrow> (Inl IdEmpty, w))
      | _ \<Rightarrow> (Inl PayloadShape, w))"

definition credential_redact :: "json \<Rightarrow> credential_error + redaction_result" where
  "credential_redact payload =
     (case payload of
        JObj _ \<Rightarrow> map_sum RedactFailed id (applyRedaction (json_field payload ''bytes'') REDACTION_POLICY_V1)
      | _ \<Rightarrow> Inl PayloadShape)"

section \<open>What the validator accepts\<close>

lemma material_in_None: "material_in kvs = None \<longleftrightarrow> (\<forall>f\<in>set MATERIAL_FIELDS. map_get kvs f = None)"
  by (auto simp: material_in_def find_None_iff)

lemma requireCredentialId_ok:
  "requireCredentialId v = Inr i \<longleftrightarrow> v = JStr i \<and> i \<noteq> [] \<and> CHR '':'' \<notin> set i \<and> length i \<le> 128"
  by (auto simp: requireCredentialId_def split: json.splits)

lemma accepted_id: "asCredentialRecord payload now = Inr r \<Longrightarrow> requireCredentialId (JStr (cr_credentialId r)) = Inr (cr_credentialId r)"
  by (auto simp: asCredentialRecord_def res_bind_Inr requireCredentialId_ok split: json.splits if_splits option.splits)

section \<open>Records through the canonical text\<close>

definition stored_credential :: "credential_record \<Rightarrow> credential_record" where
  "stored_credential r = r\<lparr>cr_meta := map_option stored_payload (cr_meta r)\<rparr>"

lemma credential_canonical:
  assumes "cr_credentialId r \<noteq> []"
  shows "credential_fromRecord (json_norm (credential_json r)) = Some (stored_credential r)"
proof -
  obtain kvs where kvs: "credential_json r = JObj kvs" and d: "distinct (map_keys kvs)"
    by (cases "cr_meta r") (simp_all add: credential_json_def)
  let ?n = "json_norm (credential_json r)"
  have f: "json_field ?n k = json_norm (json_field (credential_json r) k)" for k
    using json_field_norm [OF d] kvs by simp
  have "json_field ?n ''credentialId'' = JStr (cr_credentialId r)" "json_field ?n ''kind'' = JStr ''sim-synthetic''"
    "json_field ?n ''sim'' = JBool True" "json_field ?n ''createdAt'' = JNum (cr_createdAt r)"
    unfolding f by (simp_all add: credential_json_def)
  moreover have "json_field ?n ''meta'' = (case cr_meta r of Some m \<Rightarrow> JObj (stored_payload m) | None \<Rightarrow> JUndefined)"
    unfolding f by (cases "cr_meta r") (simp_all add: credential_json_def stored_payload_def)
  ultimately show ?thesis
    using assms by (cases "cr_meta r") (simp_all add: credential_fromRecord_def stored_credential_def)
qed

section \<open>On the delivered vault\<close>

lemma stored_get:
  assumes "vault_stored p ns i = Some d"
  shows "\<exists>v a b. vault_port venv ca vault_get_op (row_payload ns i) p = (Inr (POk v a b), p) \<and> json_field v ''data'' = d"
proof -
  obtain f x where n: "name_ok ns" "name_ok i" and f: "vp_open p = Some f"
    and x: "readObject (dir_vault p f) ns i None = Inr x" "or_data x = d"
    using assms by (auto simp: vault_stored_def open_vault_def split: if_splits option.splits sum.splits)
  have "fst (vault_get_handler venv ca (row_payload ns i) p) = Inr (object_reply x)"
    using n f x
    by (simp add: vault_get_handler_def reading_def row_payload_def requireObject_def res_bind_def
        optionalInt_def mustOpen_def Let_def requireName_ok [THEN iffD2])
  then show ?thesis using x(2) by (simp add: vault_port_get shim_result_def or_null_def object_reply_def)
qed

definition credential_row :: "credential_record \<Rightarrow> string" where
  "credential_row r = CREDENTIAL_ID_PREFIX @ cr_credentialId r"

lemma put_effect:
  assumes "vault_open venv p" and "credential_put (vault_port venv ca) clock payload p = (Inr c, p')"
    and "\<not> vault_clash venv p (credential_json (cp_record c))"
  shows "asCredentialRecord payload (clock p) = Inr (cp_record c)"
    and "vault_stored p' CREDENTIALS_NS (credential_row (cp_record c)) = Some (json_norm (credential_json (cp_record c)))"
    and "(ns, i) \<noteq> (CREDENTIALS_NS, credential_row (cp_record c)) \<Longrightarrow> vault_stored p' ns i = vault_stored p ns i"
proof -
  obtain r where r: "asCredentialRecord payload (clock p) = Inr r"
    using assms(2) by (auto simp: credential_put_def split: sum.splits)
  have i: "credentialVaultId (cr_credentialId r) = Inr (credential_row r)"
    using accepted_id [OF r] by (simp add: credentialVaultId_def res_bind_def credential_row_def)
  let ?x = "store_payload CREDENTIALS_NS (credential_row r) (credential_json r) [(''type'', JStr ''credential'')]"
  obtain v a b where run: "vault_port venv ca vault_append_op ?x p = (Inr (POk v a b), p')" and c: "cp_record c = r"
    using assms(2) r i
    by (auto simp: credential_put_def portCall_def vault_append_op_def split: sum.splits prod.splits port_result.splits)
  show "asCredentialRecord payload (clock p) = Inr (cp_record c)" using r c by simp
  have x: "json_field ?x ''ns'' = JStr CREDENTIALS_NS" "json_field ?x ''id'' = JStr (credential_row r)" "json_field ?x ''data'' = credential_json r"
    by (simp_all add: store_payload_def)
  have ok: "fst (vault_port venv ca vault_append_op ?x p) = Inr (POk v a b)" using run by simp
  note st = stored_after_append [OF assms(1) ok x(1,2), unfolded x(3), OF assms(3) [unfolded c]]
  show "vault_stored p' CREDENTIALS_NS (credential_row (cp_record c)) = Some (json_norm (credential_json (cp_record c)))"
    using st(1) run c by simp
  show "(ns, i) \<noteq> (CREDENTIALS_NS, credential_row (cp_record c)) \<Longrightarrow> vault_stored p' ns i = vault_stored p ns i"
    using st(2) run c by simp
qed

lemma use_stored:
  assumes "requireCredentialId (JStr (cr_credentialId r)) = Inr (cr_credentialId r)"
    and "vault_stored p CREDENTIALS_NS (credential_row r) = Some (json_norm (credential_json r))"
  shows "\<exists>rv. credential_use (vault_port venv ca) (JObj [(''credentialId'', JStr (cr_credentialId r))]) p = (Inr (stored_credential r, rv), p)"
proof -
  have ne: "cr_credentialId r \<noteq> []" using assms(1) by (simp add: requireCredentialId_ok)
  have i: "credentialVaultId (cr_credentialId r) = Inr (credential_row r)"
    using assms(1) by (simp add: credentialVaultId_def res_bind_def credential_row_def)
  obtain v a b where g: "vault_port venv ca vault_get_op (row_payload CREDENTIALS_NS (credential_row r)) p = (Inr (POk v a b), p)"
    "json_field v ''data'' = json_norm (credential_json r)"
    using stored_get [OF assms(2)] by blast
  show ?thesis
    using ne i g credential_canonical [OF ne] by (simp add: credential_use_def portCall_def vault_get_op_def)
qed

section \<open>Properties\<close>

text \<open>(C17) A put that answers wrote the record the validator made of the payload: every later use of that id over the
  vault it left returns the record with its meta in canonical form and changes nothing, and no other row
  of the vault has changed. (The record's text is assumed not to collide under SHA-256.)\<close>

theorem put_then_use:
  assumes "vault_open venv p" and "credential_put (vault_port venv ca) clock payload p = (Inr c, p')"
    and "\<not> vault_clash venv p (credential_json (cp_record c))"
  shows "asCredentialRecord payload (clock p) = Inr (cp_record c) \<and>
    (\<exists>rv. credential_use (vault_port venv ca) (JObj [(''credentialId'', JStr (cr_credentialId (cp_record c)))]) p' =
       (Inr (stored_credential (cp_record c), rv), p')) \<and>
    (\<forall>ns i. (ns, i) = (CREDENTIALS_NS, credential_row (cp_record c)) \<or> vault_stored p' ns i = vault_stored p ns i)"
  using put_effect [OF assms] use_stored [OF accepted_id] by blast

definition nested_payload :: "string \<Rightarrow> string \<Rightarrow> json" where
  "nested_payload i secret =
     JObj [(''credentialId'', JStr i), (''sim'', JBool True), (''meta'', JObj [(''auth'', JObj [(''secret'', JStr secret)])])]"


text \<open>Both on an empty vault.\<close>

lemma empty_box_facts: "vault_open len_env empty_box" "\<not> vault_clash len_env empty_box d"
proof -
  have op: "open_vault empty_box = Some empty_vault" by code_simp
  have "list_all (call_crypto (ve_crypto len_env)) [Init len_env (JObj [(''dataDir'', JStr ''/srv/a'')])]" by simp
  from plugin_run_ok [OF len_env_hex this] op show "vault_open len_env empty_box"
    by (auto simp: vault_open_def vault_inv_def len_env_hex empty_box_def [symmetric] open_vault_def split: option.splits)
  show "\<not> vault_clash len_env empty_box d" using op by (auto simp: vault_clash_def empty_vault_def)
qed

lemma demo_put:
  obtains c p' where "credential_put (vault_port len_env ''c_1'') (\<lambda>_. 7) (nested_payload ''llm'' ''s3'') empty_box = (Inr c, p')"
proof -
  have "map_sum (\<lambda>_. ()) (\<lambda>_. ()) (fst (credential_put (vault_port len_env ''c_1'') (\<lambda>_. 7) (nested_payload ''llm'' ''s3'') empty_box)) = Inr ()"
    by code_simp
  then show thesis
    using that by (cases "credential_put (vault_port len_env ''c_1'') (\<lambda>_. 7) (nested_payload ''llm'' ''s3'') empty_box") (auto simp: map_sum_def split: sum.splits)
qed

lemma put_then_use_witness:
  "\<exists>c p'. credential_put (vault_port len_env ''c_1'') (\<lambda>_. 7) (nested_payload ''llm'' ''s3'') empty_box = (Inr c, p') \<and>
     (\<exists>rv. credential_use (vault_port len_env ''c_1'') (JObj [(''credentialId'', JStr (cr_credentialId (cp_record c)))]) p' =
        (Inr (stored_credential (cp_record c), rv), p'))"
proof -
  obtain c p' where "credential_put (vault_port len_env ''c_1'') (\<lambda>_. 7) (nested_payload ''llm'' ''s3'') empty_box = (Inr c, p')"
    by (rule demo_put)
  from put_then_use [OF empty_box_facts(1) this empty_box_facts(2)] this show ?thesis by blast
qed


end
