(* ===== verification/Spec2Isabelle.thy ===== *)
theory Spec2Isabelle
  imports Vault_Law Law_Safety Router_Bounds Recipe_World Consent_Id Run_Promises Run_Health Run_Broker
    Director_Service Director_Gate Credential_Spine
begin

text \<open>
  A verification library for the core of vivim-omega, a capability-secured plugin host: a micro-host
  (\<open>src/host\<close>) that runs plugins as isolated compartments and routes every call between them, a policy
  plugin that decides risky calls (\<open>src/plugins/vivim-law\<close>), an append-only store
  (\<open>src/plugins/vivim-vault\<close>), the runner of tasks (\<open>src/plugins/vivim-run\<close>), the interpreter of the
  user's rules (\<open>src/plugins/vivim-director\<close>), the keeper of credential references
  (\<open>src/plugins/vivim-credentials\<close>) and the wire contracts they share (\<open>src/contracts\<close>).

  \<^bold>\<open>How the parts interact.\<close> A signed recipe grants each plugin capabilities and ops. The host boots a
  kernel (a signed audit chain, a capability graph, a registry of tool generations, a state arbiter),
  registers the recipe's entries and then routes calls: the token of the caller is checked, the op is
  resolved to an implementation, a risky op first asks the law, and the delivery waits in the queue of
  its target. The law decides over its policy document, consents, forbidden lists and principal
  records, and keeps the latter two as rows of the vault. The vault appends revisions to a hash chain,
  compacts old ones and proves the chain. The run plugin queues tasks by principal, watches the health
  of compartments and keeps pools of child processes. The director keeps rules as rows of the vault
  and, tick by tick, fires them on new mail through the port, with a ledger in the vault of what it
  has fired.

  \<^bold>\<open>Shared.\<close> \<open>Omega_Prelude\<close> models the JavaScript library the source uses (insertion-ordered maps and
  sets, strings, number printing) and thrown errors as the \<open>Inl\<close> side of a sum. \<open>Port_Contracts\<close> holds
  the wire types of \<open>contracts/src\<close>: results, ops, manifests, recipes, stream frames.

  \<^bold>\<open>Host.\<close> \<open>Canonical_Json\<close> and \<open>Content_Hash\<close> (\<open>canon.ts\<close>): the canonical encoding with its parser,
  signatures, directory hashes. \<open>Hash_Chain\<close> is the generic chain locale that the audit log and the
  vault interpret. \<open>Audit_Chain\<close> (\<open>audit.ts\<close>), \<open>Capability_Graph\<close> (\<open>graph.ts\<close>), \<open>Tool_Registry\<close>
  (\<open>contract.ts\<close>), \<open>State_Arbiter\<close> (\<open>state.ts\<close>) and \<open>Genesis_Kernel\<close> (\<open>genesis.ts\<close>) are the kernel.
  \<open>Port_Router\<close> and \<open>Router_Events\<close> (\<open>ports.ts\<close>, with the crash callbacks of \<open>worker.ts\<close>) are the
  router: its record is the state of the class, what an await holds is a continuation, and what drives
  it (worker messages, deadlines, crashes, spawns) is a step over events. \<open>Router_Machine\<close> states the
  moves of calls through that state as the laws of the locale \<open>router_laws\<close> and proves once that every
  operation is made of them. \<open>Router_Boot\<close> (\<open>boot.ts\<close>) builds a booted router. \<open>Router_Gate\<close>,
  \<open>Router_Ledger\<close> and \<open>Router_Routing\<close> interpret the locale: no risky op without an allow line, revoked
  tokens stay dead, every call is answered once, routes come from the composition alone.
  \<open>Router_Bounds\<close> proves the limit on calls in flight.

  \<^bold>\<open>Recipes and boot.\<close> \<open>Json_Text\<close> (indented JSON and its parser) and \<open>Node_Path\<close> are library code the host
  uses. \<open>Recipe_Verify\<close> and \<open>Recipe_Compose\<close> (\<open>recipe.ts\<close>, \<open>verifyComposition\<close> of \<open>boot.ts\<close>) parse,
  check and compile recipes; \<open>Boot_Recovery\<close> (\<open>boot.ts\<close>, \<open>recovery.ts\<close>) is the boot path over the files of the
  vault. \<open>Recipe_Safety\<close> proves that a running host runs the verified pin, \<open>Recipe_Compile\<close> that a compiled
  composition verifies, \<open>Recipe_World\<close> runs the path on a small machine and shows the one check that comes
  after the pin.

  \<^bold>\<open>Law.\<close> \<open>Law_Policy\<close>, \<open>Law_Consent\<close>, \<open>Law_Tokens\<close>, \<open>Law_Forbidden\<close>, \<open>Law_Principal\<close>, \<open>Law_Amendment\<close> and
  \<open>Law_Registry\<close> model the files of the same names; \<open>Law_Gate\<close> and \<open>Law_Ops\<close> the handlers of
  \<open>index.ts\<close> over one state record, with the port to the vault as a parameter; \<open>Law_Safety\<close> and
  \<open>Consent_Id\<close> what they guarantee.

  \<^bold>\<open>Vault.\<close> \<open>Vault_Store\<close> (\<open>cas.ts\<close>, \<open>sql.ts\<close>, \<open>changelog.ts\<close>), \<open>Vault_Ops\<close> (\<open>compaction.ts\<close>,
  \<open>verify.ts\<close>, \<open>roundtrip.ts\<close>), \<open>Vault_Port\<close> (\<open>validate.ts\<close>, \<open>index.ts\<close>, and how the shim turns an outcome
  into a result). \<open>Vault_Invariant\<close>, \<open>Vault_Compaction\<close>, \<open>Vault_Safety\<close> and \<open>Vault_Service\<close> prove the
  invariant and its consequences. \<open>Vault_Law\<close> puts the law on the vault: the locale \<open>row_store\<close> is the
  law's view of a store, interpreted on the vault's port.

  \<^bold>\<open>Run.\<close> \<open>Run_Queue\<close> (\<open>queue.ts\<close>) is the queue with its fair order, \<open>Run_Pool\<close> (\<open>pool.ts\<close>, \<open>index.ts\<close>)
  the pool of slots with its promises as a table, \<open>Run_Promises\<close> what becomes of every promise,
  \<open>Run_Health\<close> (\<open>health.ts\<close>) the monitor over polls and replies, \<open>Run_Broker\<close> (\<open>process-broker.ts\<close>) the
  lanes of child processes over frames, exits and timeouts. The locale \<open>slot_scheduler\<close> is what the pool
  needs of a queue, \<open>pool_invariant\<close> what every step of the pool keeps.

  \<^bold>\<open>Director.\<close> \<open>Nlcl_Text\<close> (\<open>vivim-nlcl-pure/src/text.ts\<close>) holds the text utilities, with the bounded edit
  distance proved equal to the least number of edits. \<open>Director_Rules\<close> (\<open>rules.ts\<close>) is the vocabulary of
  rules, \<open>Director_Tick\<close> (\<open>tick.ts\<close>) the fire pass over a port, \<open>Director_Gate\<close> (\<open>index.ts\<close>) the
  serialization of passes as a queue of promise jobs, \<open>Director_Resolve\<close> (\<open>resolve.ts\<close>) the routing
  table and the scorecard, \<open>Director_Ops\<close> (\<open>index.ts\<close>) the handlers. \<open>Director_Ledger\<close> states in the locale
  \<open>fired_ledger\<close> what a tick relies on and proves that a ledgered message never fires again;
  \<open>Director_Vault\<close> interprets it on the vault's port, and \<open>Director_Service\<close> shows that a rule created
  there reads back.

  \<^bold>\<open>Credentials.\<close> \<open>Credential_Redact\<close> (\<open>vivim-credentials/src/redact.ts\<close>) is the redaction pass: its regular
  expressions are the matchers they compile to, and no key material survives the pass, though a value
  behind an authentication scheme does. \<open>Credential_Spine\<close> (\<open>record.ts\<close>, \<open>index.ts\<close>) holds the validators and
  the handlers, with the round trip of a reference through the vault.

  \<^bold>\<open>Parameters and bounds.\<close> SHA-256 and Ed25519 are the record \<open>crypto\<close>; the hypotheses on it are that a
  signature made with a key verifies under it and, where a property needs it, that digests are
  hexadecimal or that given texts do not collide. The clock, random tokens, worker threads, SQLite's
  storage are arguments or events; the host's files are a map from paths to texts beside the trees it
  hashes. The parsers' fuel is the length of the text, which is shown to be enough for what the writers
  write; the pool's pump has one unit more than there are waiting tasks, which is shown to be enough;
  the search for a free rule id has the bound of the source, shown to be enough for fewer than ten
  thousand rules; the breadth-first walk of the graph has a termination proof. Characters are code
  units below 256 and numbers are integers.

  \<^bold>\<open>Not modelled.\<close> The surfaces (command line, web, daemon, MCP), the platform layer, file writes, the
  threads and the SQLite drivers are input and output. Of the command layer only the text
  utilities are modelled: its lexer, grammar and interpreter, and the mind, chat, intent and agent
  plugins that stand on it, are not reached. The provider and discovery plugins are
  mostly browsers, mail and language models; forge, the SDK's authoring helpers and the tooling are
  not part of a running host. Text written for people (log lines, most error messages) is left out of
  the models.
\<close>

end
